(* ===== verification/Prelude.thy ===== *)
theory Prelude
  imports Main "HOL-Library.Sublist" "HOL-Library.Char_ord" "HOL-Library.List_Lexorder"
begin

text \<open>
  What every component of the model shares: fallible results, the byte strings of Go with
  the functions of the packages \<open>strings\<close>, \<open>bytes\<close> and \<open>strconv\<close> that the repository calls,
  and the generic lemmas about them.  A Go string or byte slice is a \<^typ>\<open>string\<close>, a list of
  bytes (\<^typ>\<open>char\<close> has 256 values); a Go \<open>int\<close> that is never near its bounds is an \<^typ>\<open>int\<close>.
\<close>

named_theorems go_simps \<open>evaluation of the Go string library\<close>
named_theorems fn_defs \<open>definitions a component unfolds together\<close>

section \<open>Fallible results\<close>

text \<open>A Go function returning \<open>(T, error)\<close> yields \<^term>\<open>Inl e\<close> for a non-nil error.\<close>

fun is_ok :: "'e + 'a \<Rightarrow> bool" where
  "is_ok (Inl _) = False"
| "is_ok (Inr _) = True"

lemma is_ok_iff: "is_ok r \<longleftrightarrow> (\<exists>x. r = Inr x)"
  by (cases r) auto

lemma not_is_ok_iff: "\<not> is_ok r \<longleftrightarrow> (\<exists>e. r = Inl e)"
  by (cases r) auto

text \<open>
  \<open>x, err := r; if err != nil { return err }; ...\<close> is a \<open>rbind\<close>; \<open>map_err\<close> wraps the error on
  the way out (\<open>fmt.Errorf("...: %w", err)\<close>); \<open>ensure b e\<close> is \<open>if !b { return e }\<close>.
\<close>

definition rbind :: "'e + 'a \<Rightarrow> ('a \<Rightarrow> 'e + 'b) \<Rightarrow> 'e + 'b" where
  "rbind r f = (case r of Inl e \<Rightarrow> Inl e | Inr x \<Rightarrow> f x)"

definition map_err :: "('e \<Rightarrow> 'f) \<Rightarrow> 'e + 'a \<Rightarrow> 'f + 'a" where
  "map_err g r = (case r of Inl e \<Rightarrow> Inl (g e) | Inr x \<Rightarrow> Inr x)"

definition ensure :: "bool \<Rightarrow> 'e \<Rightarrow> 'e + unit" where
  "ensure b e = (if b then Inr () else Inl e)"

lemma rbind_simps [simp]: "rbind (Inl e) f = Inl e" "rbind (Inr x) f = f x"
  by (simp_all add: rbind_def)

lemma map_err_simps [simp]: "map_err g (Inl e) = Inl (g e)" "map_err g (Inr x) = Inr x"
  by (simp_all add: map_err_def)

lemma ensure_simps [simp]: "ensure True e = Inr ()" "ensure False e = Inl e"
  by (simp_all add: ensure_def)

lemma rbind_cong [fundef_cong]:
  "r = s \<Longrightarrow> (\<And>x. s = Inr x \<Longrightarrow> f x = g x) \<Longrightarrow> rbind r f = rbind s g"
  by (cases s) auto

lemma rbind_Inr_iff [simp]: "rbind r f = Inr y \<longleftrightarrow> (\<exists>x. r = Inr x \<and> f x = Inr y)"
  by (cases r) auto

lemma rbind_Inl_iff: "rbind r f = Inl e \<longleftrightarrow> r = Inl e \<or> (\<exists>x. r = Inr x \<and> f x = Inl e)"
  by (cases r) auto

lemma map_err_Inr_iff [simp]: "map_err g r = Inr y \<longleftrightarrow> r = Inr y"
  by (cases r) auto

lemma map_err_Inl_iff: "map_err g r = Inl e \<longleftrightarrow> (\<exists>d. r = Inl d \<and> e = g d)"
  by (cases r) auto

lemma ensure_Inr_iff [simp]: "ensure b e = Inr u \<longleftrightarrow> b"
  by (simp add: ensure_def)

lemma ensure_Inl_iff [simp]: "ensure b e = Inl d \<longleftrightarrow> \<not> b \<and> d = e"
  by (auto simp: ensure_def)

lemma is_ok_rbind [simp]: "is_ok (rbind r f) \<longleftrightarrow> (\<exists>x. r = Inr x \<and> is_ok (f x))"
  by (cases r) auto

lemma is_ok_map_err [simp]: "is_ok (map_err g r) = is_ok r"
  by (cases r) auto

lemma is_ok_ensure [simp]: "is_ok (ensure b e) = b"
  by (simp add: ensure_def)

text \<open>
  The loop \<open>for _, x := range xs { y, err := f(x); if err != nil { return err }; ys = append(ys, y) }\<close>.
\<close>

fun map_result :: "('a \<Rightarrow> 'e + 'b) \<Rightarrow> 'a list \<Rightarrow> 'e + 'b list" where
  "map_result f [] = Inr []"
| "map_result f (x # xs) =
     rbind (f x) (\<lambda>y. rbind (map_result f xs) (\<lambda>ys. Inr (y # ys)))"

lemma map_result_cong [fundef_cong]:
  "xs = ys \<Longrightarrow> (\<And>x. x \<in> set ys \<Longrightarrow> f x = g x) \<Longrightarrow> map_result f xs = map_result g ys"
  by (induction ys arbitrary: xs) auto

lemma map_result_Inr_iff:
  "map_result f xs = Inr ys \<longleftrightarrow> list_all2 (\<lambda>x y. f x = Inr y) xs ys"
  by (induction xs arbitrary: ys) (auto simp: list_all2_Cons1)

lemma map_result_length: "map_result f xs = Inr ys \<Longrightarrow> length ys = length xs"
  by (simp add: map_result_Inr_iff list_all2_lengthD)

lemma is_ok_map_result: "is_ok (map_result f xs) \<longleftrightarrow> (\<forall>x \<in> set xs. is_ok (f x))"
  by (induction xs) (auto simp: is_ok_iff)

lemma map_result_Inr_self:
  "(\<And>x. x \<in> set xs \<Longrightarrow> f x = Inr x) \<Longrightarrow> map_result f xs = Inr xs"
  by (induction xs) auto

text \<open>
  The loop that stops at the first error and carries no result:
  \<open>for i, x := range xs { if err := f(i, x); err != nil { return err } }\<close>, from index \<open>i\<close> on.
\<close>

fun each_result :: "nat \<Rightarrow> (nat \<Rightarrow> 'a \<Rightarrow> 'e + unit) \<Rightarrow> 'a list \<Rightarrow> 'e + unit" where
  "each_result i f [] = Inr ()"
| "each_result i f (x # xs) =
     rbind (f i x) (\<lambda>_. each_result (Suc i) f xs)"

lemma each_result_ok:
  "each_result i f xs = Inr () \<longleftrightarrow> (\<forall>k < length xs. f (i + k) (xs ! k) = Inr ())"
  by (induction xs arbitrary: i) (auto simp: less_Suc_eq_0_disj)

section \<open>Packages strings and bytes\<close>

text \<open>
  The UTF-8 encodings of the code points \<open>unicode.IsSpace\<close> accepts: those of ASCII, U+0085,
  U+00A0, U+1680, U+2000 to U+200A, U+2028, U+2029, U+202F, U+205F and U+3000.
\<close>

definition space_encodings :: "string list" where
  "space_encodings =
     [[CHR 0x20], [CHR 0x09], [CHR 0x0A], [CHR 0x0B], [CHR 0x0C], [CHR 0x0D],
      [CHR 0xC2, CHR 0x85], [CHR 0xC2, CHR 0xA0], [CHR 0xE1, CHR 0x9A, CHR 0x80],
      [CHR 0xE2, CHR 0x80, CHR 0x80], [CHR 0xE2, CHR 0x80, CHR 0x81],
      [CHR 0xE2, CHR 0x80, CHR 0x82], [CHR 0xE2, CHR 0x80, CHR 0x83],
      [CHR 0xE2, CHR 0x80, CHR 0x84], [CHR 0xE2, CHR 0x80, CHR 0x85],
      [CHR 0xE2, CHR 0x80, CHR 0x86], [CHR 0xE2, CHR 0x80, CHR 0x87],
      [CHR 0xE2, CHR 0x80, CHR 0x88], [CHR 0xE2, CHR 0x80, CHR 0x89],
      [CHR 0xE2, CHR 0x80, CHR 0x8A], [CHR 0xE2, CHR 0x80, CHR 0xA8],
      [CHR 0xE2, CHR 0x80, CHR 0xA9], [CHR 0xE2, CHR 0x80, CHR 0xAF],
      [CHR 0xE2, CHR 0x81, CHR 0x9F], [CHR 0xE3, CHR 0x80, CHR 0x80]]"

text \<open>Drops encodings of \<open>encs\<close> from the front of \<open>s\<close> as long as one is there.\<close>

function strip_any :: "string list \<Rightarrow> string \<Rightarrow> string" where
  "strip_any encs s =
     (case find (\<lambda>w. w \<noteq> [] \<and> prefix w s) encs of
        None \<Rightarrow> s
      | Some w \<Rightarrow> strip_any encs (drop (length w) s))"
  by pat_completeness auto
termination
  by (relation "measure (\<lambda>(encs, s). length s)") (auto simp: find_Some_iff prefix_def)

declare strip_any.simps [simp del]

definition starts_any :: "string list \<Rightarrow> string \<Rightarrow> bool" where
  "starts_any encs s \<longleftrightarrow> (\<exists>w \<in> set encs. w \<noteq> [] \<and> prefix w s)"

lemma strip_any_id: "\<not> starts_any encs s \<Longrightarrow> strip_any encs s = s"
  by (subst strip_any.simps)
     (auto simp: starts_any_def find_Some_iff split: option.splits)

lemma strip_any_stripped: "\<not> starts_any encs (strip_any encs s)"
proof (induction encs s rule: strip_any.induct)
  case (1 encs s)
  show ?case
  proof (cases "find (\<lambda>w. w \<noteq> [] \<and> prefix w s) encs")
    case None
    then have "strip_any encs s = s" by (subst strip_any.simps) simp
    with None show ?thesis by (auto simp: starts_any_def find_None_iff)
  next
    case (Some w)
    with 1 show ?thesis by (subst strip_any.simps) simp
  qed
qed

lemma strip_any_suffix: "suffix (strip_any encs s) s"
proof (induction encs s rule: strip_any.induct)
  case (1 encs s)
  show ?case
  proof (cases "find (\<lambda>w. w \<noteq> [] \<and> prefix w s) encs")
    case None
    then show ?thesis by (subst strip_any.simps) simp
  next
    case (Some w)
    with 1 have "suffix (strip_any encs (drop (length w) s)) (drop (length w) s)" by simp
    then have "suffix (strip_any encs (drop (length w) s)) s"
      by (rule suffix_order.trans) (rule suffix_drop)
    with Some show ?thesis by (subst strip_any.simps) simp
  qed
qed

lemma starts_any_mono: "prefix s t \<Longrightarrow> starts_any encs s \<Longrightarrow> starts_any encs t"
  unfolding starts_any_def by (meson prefix_order.trans)

text \<open>\<open>strings.TrimSpace\<close> and \<open>bytes.TrimSpace\<close>.\<close>

definition trim_left :: "string \<Rightarrow> string" where
  "trim_left s = strip_any space_encodings s"

definition trim_right :: "string \<Rightarrow> string" where
  "trim_right s = rev (strip_any (map rev space_encodings) (rev s))"

definition trim_space :: "string \<Rightarrow> string" where
  "trim_space s = trim_right (trim_left s)"

lemma trim_right_prefix: "prefix (trim_right s) s"
  unfolding trim_right_def
  by (metis rev_rev_ident strip_any_suffix suffix_to_prefix)

lemma trim_right_idem: "trim_right (trim_right s) = trim_right s"
  unfolding trim_right_def by (simp add: strip_any_id strip_any_stripped)

lemma trim_left_trim_space: "trim_left (trim_space s) = trim_space s"
proof -
  have "\<not> starts_any space_encodings (trim_left s)"
    unfolding trim_left_def by (rule strip_any_stripped)
  then have "\<not> starts_any space_encodings (trim_space s)"
    unfolding trim_space_def using starts_any_mono trim_right_prefix by blast
  then show ?thesis unfolding trim_left_def by (rule strip_any_id)
qed

lemma trim_space_idem [simp]: "trim_space (trim_space s) = trim_space s"
proof -
  have "trim_space (trim_space s) = trim_right (trim_left (trim_space s))"
    by (rule trim_space_def)
  also have "\<dots> = trim_right (trim_space s)" by (simp only: trim_left_trim_space)
  also have "\<dots> = trim_space s" by (simp only: trim_space_def trim_right_idem)
  finally show ?thesis .
qed

lemma trim_space_Nil [simp]: "trim_space [] = []"
  by (simp add: trim_space_def trim_left_def trim_right_def strip_any.simps space_encodings_def)

lemma length_trim_space: "length (trim_space s) \<le> length s"
  unfolding trim_space_def trim_left_def
  by (meson le_trans prefix_length_le strip_any_suffix suffix_length_le trim_right_prefix)

text \<open>
  When a concatenation is trimmed already: a first byte that starts no white space, and a last
  part that is trimmed and follows an ASCII byte.
\<close>

lemma trim_space_id:
  assumes "\<not> starts_any space_encodings s" "\<not> starts_any (map rev space_encodings) (rev s)"
  shows "trim_space s = s"
  using assms by (simp add: trim_space_def trim_left_def trim_right_def strip_any_id)

lemma suffix_same_length: "suffix u s \<Longrightarrow> length u = length s \<Longrightarrow> u = s"
  unfolding suffix_def by (metis append_same_eq append_self_conv2 length_0_conv length_append add_eq_self_zero add.commute)

lemma trimmed_ends:
  assumes "trim_space s = s"
  shows "\<not> starts_any space_encodings s" "\<not> starts_any (map rev space_encodings) (rev s)"
proof -
  have "length (trim_space s) \<le> length (trim_left s)" "length (trim_left s) \<le> length s"
    using prefix_length_le [OF trim_right_prefix] suffix_length_le [OF strip_any_suffix]
    by (simp_all add: trim_space_def trim_left_def)
  then have "length (trim_left s) = length s" using assms by simp
  then have l: "trim_left s = s"
    by (simp add: trim_left_def suffix_same_length strip_any_suffix)
  then have "trim_right s = s" using assms by (simp add: trim_space_def)
  then have r: "strip_any (map rev space_encodings) (rev s) = rev s"
    by (metis rev_rev_ident trim_right_def)
  show "\<not> starts_any space_encodings s" using strip_any_stripped [of space_encodings s] l by (simp add: trim_left_def)
  show "\<not> starts_any (map rev space_encodings) (rev s)"
    using strip_any_stripped [of "map rev space_encodings" "rev s"] r by simp
qed

definition is_ascii :: "char \<Rightarrow> bool" where
  "is_ascii c \<longleftrightarrow> of_char c < (128 :: nat)"

lemma long_encodings: "w \<in> set space_encodings \<Longrightarrow> 2 \<le> length w \<Longrightarrow> c \<in> set w \<Longrightarrow> \<not> is_ascii c"
  by (auto simp: space_encodings_def is_ascii_def)

lemma ends_append:
  assumes "t \<noteq> []" "\<not> starts_any (map rev space_encodings) (rev t)" "is_ascii d"
  shows "\<not> starts_any (map rev space_encodings) (rev (u @ d # t))"
proof
  assume "starts_any (map rev space_encodings) (rev (u @ d # t))"
  then obtain w where w: "w \<in> set space_encodings" "w \<noteq> []" "prefix (rev w) (rev t @ d # rev u)"
    by (auto simp: starts_any_def)
  show False
  proof (cases "length w \<le> length t")
    case True
    then have "prefix (rev w) (rev t)"
      using w(3) prefix_length_prefix [of "rev w" "rev t @ d # rev u" "rev t"] by simp
    then show False using assms(2) w(1,2) by (force simp: starts_any_def)
  next
    case False
    then have l: "length t < length w" by simp
    then obtain v where "rev w = rev t @ v" using w(3) by (auto simp: prefix_append dest!: prefix_length_le)
    then obtain v' where v: "rev w = rev t @ d # v'" using w(3) l by (cases v) auto
    then have "d \<in> set w" by (metis in_set_conv_decomp set_rev)
    moreover have "2 \<le> length w" using l assms(1) by (cases t) auto
    ultimately show False using long_encodings [OF w(1)] assms(3) by blast
  qed
qed

lemma start_Cons:
  assumes "is_ascii c" "[c] \<notin> set space_encodings"
  shows "\<not> starts_any space_encodings (c # s)"
proof
  assume "starts_any space_encodings (c # s)"
  then obtain w where w: "w \<in> set space_encodings" "w \<noteq> []" "prefix w (c # s)"
    by (auto simp: starts_any_def)
  obtain w' where "w = c # w'" using w(2,3) by (auto simp: prefix_Cons)
  then show False using assms long_encodings [of w c] w(1) by (cases w') auto
qed

lemma trim_space_append:
  assumes "is_ascii c" "[c] \<notin> set space_encodings" "trim_space t = t" "t \<noteq> []" "is_ascii d"
  shows "trim_space (c # u @ d # t) = c # u @ d # t"
proof (rule trim_space_id)
  show "\<not> starts_any space_encodings (c # u @ d # t)" by (rule start_Cons [OF assms(1,2)])
  show "\<not> starts_any (map rev space_encodings) (rev (c # u @ d # t))"
    using ends_append [OF assms(4) trimmed_ends(2) [OF assms(3)] assms(5), of "c # u"] by simp
qed

text \<open>\<open>HasPrefix\<close>, \<open>HasSuffix\<close>, \<open>TrimPrefix\<close>, \<open>TrimSuffix\<close> and \<open>Contains\<close>.\<close>

definition has_prefix :: "string \<Rightarrow> string \<Rightarrow> bool" where
  "has_prefix s p \<longleftrightarrow> prefix p s"

definition has_suffix :: "string \<Rightarrow> string \<Rightarrow> bool" where
  "has_suffix s p \<longleftrightarrow> prefix (rev p) (rev s)"

lemma has_suffix_iff: "has_suffix s p \<longleftrightarrow> suffix p s"
  by (simp add: has_suffix_def suffix_to_prefix)

definition trim_prefix :: "string \<Rightarrow> string \<Rightarrow> string" where
  "trim_prefix s p = (if has_prefix s p then drop (length p) s else s)"

definition trim_suffix :: "string \<Rightarrow> string \<Rightarrow> string" where
  "trim_suffix s p = (if has_suffix s p then take (length s - length p) s else s)"

lemma trim_prefix_append [simp]: "trim_prefix (p @ s) p = s"
  by (simp add: trim_prefix_def has_prefix_def)

fun contains_str :: "string \<Rightarrow> string \<Rightarrow> bool" where
  "contains_str [] p \<longleftrightarrow> p = []"
| "contains_str (c # s) p \<longleftrightarrow> prefix p (c # s) \<or> contains_str s p"

lemma contains_str_sublist: "contains_str s p \<longleftrightarrow> sublist p s"
  by (induction s) (auto simp: sublist_Cons_right)

text \<open>\<open>strings.Split\<close> on a one-byte separator, and \<open>strings.Join\<close>.\<close>

fun split_on :: "char \<Rightarrow> string \<Rightarrow> string list" where
  "split_on c [] = [[]]"
| "split_on c (x # xs) =
     (if x = c then [] # split_on c xs
      else (case split_on c xs of [] \<Rightarrow> [[x]] | p # ps \<Rightarrow> (x # p) # ps))"

fun join_with :: "string \<Rightarrow> string list \<Rightarrow> string" where
  "join_with sep [] = []"
| "join_with sep [x] = x"
| "join_with sep (x # y # ys) = x @ sep @ join_with sep (y # ys)"

lemma split_on_nonempty [simp]: "split_on c s \<noteq> []"
  by (induction s) (auto split: list.splits)

lemma join_split_on: "join_with [c] (split_on c s) = s"
proof (induction s)
  case Nil
  show ?case by simp
next
  case (Cons x xs)
  then show ?case
    by (cases "split_on c xs"; cases "tl (split_on c xs)") auto
qed

lemma split_on_no_sep: "p \<in> set (split_on c s) \<Longrightarrow> c \<notin> set p"
  by (induction s arbitrary: p) (auto split: list.splits if_splits)

lemma split_on_single: "c \<notin> set s \<Longrightarrow> split_on c s = [s]"
  by (induction s) auto

lemma split_on_append: "c \<notin> set s \<Longrightarrow> split_on c (s @ c # t) = s # split_on c t"
  by (induction s) auto

lemma split_on_join:
  "ps \<noteq> [] \<Longrightarrow> (\<And>p. p \<in> set ps \<Longrightarrow> c \<notin> set p) \<Longrightarrow> split_on c (join_with [c] ps) = ps"
  by (induction "[c]" ps rule: join_with.induct) (auto simp: split_on_single split_on_append)

section \<open>Package strconv and 64-bit integers\<close>

definition max_int64 :: int where "max_int64 = 9223372036854775807"
definition min_int64 :: int where "min_int64 = - 9223372036854775808"

text \<open>The value a 64-bit signed operation leaves when the mathematical result is \<open>n\<close>.\<close>

definition wrap64 :: "int \<Rightarrow> int" where
  "wrap64 n = (n + 9223372036854775808) mod 18446744073709551616 - 9223372036854775808"

lemma wrap64_id: "min_int64 \<le> n \<Longrightarrow> n \<le> max_int64 \<Longrightarrow> wrap64 n = n"
  by (simp add: wrap64_def min_int64_def max_int64_def)

lemma wrap64_range: "min_int64 \<le> wrap64 n \<and> wrap64 n \<le> max_int64"
proof -
  have "0 \<le> (n + 9223372036854775808) mod 18446744073709551616"
    "(n + 9223372036854775808) mod 18446744073709551616 < 18446744073709551616" by simp_all
  then show ?thesis unfolding wrap64_def min_int64_def max_int64_def by linarith
qed

definition is_digit :: "char \<Rightarrow> bool" where
  "is_digit c \<longleftrightarrow> (48 :: nat) \<le> of_char c \<and> of_char c \<le> (57 :: nat)"

definition digit_val :: "char \<Rightarrow> int" where
  "digit_val c = int (of_char c) - 48"

definition digits_val :: "string \<Rightarrow> int" where
  "digits_val s = foldl (\<lambda>n c. 10 * n + digit_val c) 0 s"

text \<open>
  \<open>strconv.Atoi\<close> on a 64-bit platform: an optional sign, at least one digit, digits only,
  and a value that fits \<open>int\<close>; \<^const>\<open>None\<close> stands for its error.
\<close>

definition atoi :: "string \<Rightarrow> int option" where
  "atoi s =
     (let (neg, ds) = (case s of
            c # r \<Rightarrow> if c = CHR ''-'' then (True, r) else if c = CHR ''+'' then (False, r) else (False, s)
          | [] \<Rightarrow> (False, []));
          n = (if neg then - digits_val ds else digits_val ds)
      in if ds \<noteq> [] \<and> list_all is_digit ds \<and> min_int64 \<le> n \<and> n \<le> max_int64 then Some n else None)"

lemma digit_val_range: "is_digit c \<Longrightarrow> 0 \<le> digit_val c \<and> digit_val c \<le> 9"
  by (auto simp: is_digit_def digit_val_def)

lemma atoi_range: "atoi s = Some n \<Longrightarrow> min_int64 \<le> n \<and> n \<le> max_int64"
  by (auto simp: atoi_def Let_def split: if_splits prod.splits)

text \<open>Decimal rendering (\<open>%d\<close> of a non-negative integer).\<close>

fun nat_digits :: "nat \<Rightarrow> string" where
  "nat_digits n =
     (if n < 10 then [char_of (48 + n)] else nat_digits (n div 10) @ [char_of (48 + n mod 10)])"

declare nat_digits.simps [simp del]

end
