(* ===== verification/GoMap.thy ===== *)
theory GoMap
  imports Prelude "HOL-Library.Multiset"
begin

text \<open>
  Go maps with string keys.  A map is the list of its entries in increasing key order, so that
  two maps with the same entries are the same list and \<open>reflect.DeepEqual\<close> is equality.  Go
  leaves the order of \<open>range\<close> over a map open; a loop of the model visits the keys in
  increasing order, and the components prove their verdicts in terms of lookups only.

  The interface is a pair of locales: \<open>key_value\<close> (what a lookup returns after an update) and
  \<open>canonical_map\<close> (a map is determined by its lookups).  Both are interpreted on the model.
\<close>

section \<open>The interface\<close>

locale key_value =
  fixes empty :: "'m"
    and put :: "string \<Rightarrow> 'v \<Rightarrow> 'm \<Rightarrow> 'm"
    and del :: "string \<Rightarrow> 'm \<Rightarrow> 'm"
    and get :: "'m \<Rightarrow> string \<Rightarrow> 'v option"
    and inv :: "'m \<Rightarrow> bool"
  assumes get_empty: "get empty k = None"
    and get_put: "inv m \<Longrightarrow> get (put k v m) l = (if l = k then Some v else get m l)"
    and get_del: "inv m \<Longrightarrow> get (del k m) l = (if l = k then None else get m l)"
    and inv_empty: "inv empty"
    and inv_put: "inv m \<Longrightarrow> inv (put k v m)"
    and inv_del: "inv m \<Longrightarrow> inv (del k m)"
begin

text \<open>\<open>maps.Copy\<close> and every loop that stores entries one by one: the last entry of a key wins.\<close>

lemma inv_puts: "inv m \<Longrightarrow> inv (fold (\<lambda>(k, v). put k v) kvs m)"
  by (induction kvs arbitrary: m) (auto intro: inv_put)

lemma get_puts:
  "inv m \<Longrightarrow> get (fold (\<lambda>(k, v). put k v) kvs m) l =
     (case map_of (rev kvs) l of None \<Rightarrow> get m l | Some v \<Rightarrow> Some v)"
proof (induction kvs arbitrary: m)
  case Nil
  show ?case by simp
next
  case (Cons kv kvs)
  obtain k v where kv: "kv = (k, v)" by (cases kv)
  have "get (fold (\<lambda>(k, v). put k v) kvs (put k v m)) l =
      (case map_of (rev kvs) l of None \<Rightarrow> get (put k v m) l | Some w \<Rightarrow> Some w)"
    by (rule Cons.IH) (rule inv_put [OF Cons.prems])
  then show ?case
    by (auto simp: kv get_put [OF Cons.prems] map_add_def split: option.splits)
qed

lemma get_puts_empty: "get (fold (\<lambda>(k, v). put k v) kvs empty) l = map_of (rev kvs) l"
  by (simp add: get_puts inv_empty get_empty split: option.splits)

end

locale canonical_map = key_value +
  assumes ext_inv: "inv m \<Longrightarrow> inv n \<Longrightarrow> (\<And>k. get m k = get n k) \<Longrightarrow> m = n"
begin

lemma put_put_same: "inv m \<Longrightarrow> put k v (put k w m) = put k v m"
  by (rule ext_inv) (auto simp: get_put inv_put)

lemma put_put_commute:
  "inv m \<Longrightarrow> k \<noteq> l \<Longrightarrow> put k v (put l w m) = put l w (put k v m)"
  by (rule ext_inv) (auto simp: get_put inv_put)

lemma put_get_id: "inv m \<Longrightarrow> get m k = Some v \<Longrightarrow> put k v m = m"
  by (rule ext_inv) (auto simp: get_put inv_put)

lemma del_put: "inv m \<Longrightarrow> del k (put k v m) = del k m"
  by (rule ext_inv) (auto simp: get_put get_del inv_put inv_del)

text \<open>Copying a map does not depend on the order in which its entries are visited.\<close>

lemma puts_perm:
  assumes "inv m" "distinct (map fst kvs)" "mset kvs = mset kvs'"
  shows "fold (\<lambda>(k, v). put k v) kvs m = fold (\<lambda>(k, v). put k v) kvs' m"
proof (rule ext_inv)
  fix l
  have set_eq: "set kvs = set kvs'" using assms(3) by (rule mset_eq_setD)
  have "distinct (map fst kvs')"
    using assms(2,3) by (metis mset_map mset_eq_imp_distinct_iff)
  then have "map_of (rev kvs) = map_of (rev kvs')"
    using assms(2) set_eq by (intro map_of_inject_set [THEN iffD2]) (simp_all add: rev_map [symmetric])
  then show "get (fold (\<lambda>(k, v). put k v) kvs m) l = get (fold (\<lambda>(k, v). put k v) kvs' m) l"
    by (simp add: get_puts assms(1))
qed (auto intro: inv_puts assms(1))

end

section \<open>The model of Go's map type\<close>

type_synonym 'v gomap = "(string \<times> 'v) list"

definition wf_map :: "'v gomap \<Rightarrow> bool" where
  "wf_map m \<longleftrightarrow> sorted_wrt (<) (map fst m)"

definition mget :: "'v gomap \<Rightarrow> string \<Rightarrow> 'v option" where
  "mget m k = map_of m k"

fun mput :: "string \<Rightarrow> 'v \<Rightarrow> 'v gomap \<Rightarrow> 'v gomap" where
  "mput k v [] = [(k, v)]"
| "mput k v (e # m) =
     (if k < fst e then (k, v) # e # m
      else if k = fst e then (k, v) # m
      else e # mput k v m)"

definition mdel :: "string \<Rightarrow> 'v gomap \<Rightarrow> 'v gomap" where
  "mdel k m = filter (\<lambda>e. fst e \<noteq> k) m"

definition mkeys :: "'v gomap \<Rightarrow> string list" where
  "mkeys m = map fst m"

definition mvalmap :: "('v \<Rightarrow> 'w) \<Rightarrow> 'v gomap \<Rightarrow> 'w gomap" where
  "mvalmap f m = map (\<lambda>(k, v). (k, f v)) m"

text \<open>The map that holds the entries of a list, later entries replacing earlier ones.\<close>

definition mcopy :: "'v gomap \<Rightarrow> (string \<times> 'v) list \<Rightarrow> 'v gomap" where
  "mcopy m kvs = fold (\<lambda>(k, v). mput k v) kvs m"

lemma wf_map_Nil [simp]: "wf_map []"
  by (simp add: wf_map_def)

lemma wf_map_Cons [simp]: "wf_map (e # m) \<longleftrightarrow> (\<forall>k \<in> set (map fst m). fst e < k) \<and> wf_map m"
  by (auto simp: wf_map_def)

lemma wf_map_distinct: "wf_map m \<Longrightarrow> distinct (map fst m)"
  by (induction m) auto

lemma set_mput: "set (map fst (mput k v m)) = insert k (set (map fst m))"
  by (induction m) auto

lemma wf_mput [simp, intro]: "wf_map m \<Longrightarrow> wf_map (mput k v m)"
proof (induction m)
  case Nil
  show ?case by simp
next
  case (Cons e m)
  then show ?case by (auto simp: set_mput [simplified])
qed

lemma wf_mdel [simp, intro]: "wf_map m \<Longrightarrow> wf_map (mdel k m)"
  unfolding mdel_def by (induction m) auto

lemma wf_mvalmap [simp]: "wf_map (mvalmap f m) = wf_map m"
  by (induction m) (auto simp: mvalmap_def image_iff split_beta)

lemma mget_Nil [simp]: "mget [] k = None"
  by (simp add: mget_def)

lemma mget_Cons: "mget (e # m) k = (if k = fst e then Some (snd e) else mget m k)"
  by (cases e) (simp add: mget_def)

lemma mget_above: "wf_map m \<Longrightarrow> \<forall>l \<in> set (map fst m). k < l \<Longrightarrow> mget m k = None"
  by (auto simp: mget_def map_of_eq_None_iff)

lemma mget_mput [simp]: "wf_map m \<Longrightarrow> mget (mput k v m) l = (if l = k then Some v else mget m l)"
  by (induction m) (auto simp: mget_Cons)

lemma mget_mdel: "mget (mdel k m) l = (if l = k then None else mget m l)"
  by (induction m) (auto simp: mdel_def mget_Cons)

lemma mget_mvalmap [simp]: "mget (mvalmap f m) k = map_option f (mget m k)"
  by (induction m) (auto simp: mvalmap_def mget_Cons)

lemma mget_Some_iff: "wf_map m \<Longrightarrow> mget m k = Some v \<longleftrightarrow> (k, v) \<in> set m"
  by (simp add: mget_def wf_map_distinct)

lemma mget_mem: "mget m k = Some v \<Longrightarrow> (k, v) \<in> set m"
  by (simp add: mget_def map_of_SomeD)

lemma mget_None_iff: "mget m k = None \<longleftrightarrow> k \<notin> set (mkeys m)"
  by (simp add: mget_def mkeys_def map_of_eq_None_iff)

lemma wf_map_ext:
  assumes "wf_map m" "wf_map n" "\<And>k. mget m k = mget n k"
  shows "m = n"
proof -
  have "set m = set n"
    using assms by (auto simp: mget_Some_iff [symmetric])
  moreover have "sorted (map fst m)" "sorted (map fst n)"
    using assms(1,2) unfolding wf_map_def by (auto simp: strict_sorted_imp_sorted)
  moreover have "distinct (map fst m)" "distinct (map fst n)"
    using assms(1,2) by (auto intro: wf_map_distinct)
  moreover from this have "inj_on fst (set m \<union> set n)"
    using \<open>set m = set n\<close> by (simp add: distinct_map)
  ultimately show ?thesis
    by (intro map_sorted_distinct_set_unique [of fst])
qed

interpretation gm: canonical_map "[]" mput mdel mget wf_map
  by unfold_locales (auto simp: mget_mdel intro: wf_map_ext)

lemma wf_mcopy [simp, intro]: "wf_map m \<Longrightarrow> wf_map (mcopy m kvs)"
  unfolding mcopy_def by (rule gm.inv_puts)

lemma mget_mcopy:
  "wf_map m \<Longrightarrow> mget (mcopy m kvs) k =
     (case map_of (rev kvs) k of None \<Rightarrow> mget m k | Some v \<Rightarrow> Some v)"
  unfolding mcopy_def by (rule gm.get_puts)

text \<open>Copying a well-formed map entry by entry gives the map itself.\<close>

lemma map_of_rev: "distinct (map fst kvs) \<Longrightarrow> map_of (rev kvs) = map_of kvs"
  by (intro map_of_inject_set [THEN iffD2]) (simp_all add: rev_map [symmetric])

lemma mcopy_self:
  assumes "wf_map m"
  shows "mcopy [] m = m"
proof (rule wf_map_ext)
  show "mget (mcopy [] m) k = mget m k" for k
    using map_of_rev [OF wf_map_distinct [OF assms]]
    by (simp add: mget_mcopy) (simp add: mget_def split: option.splits)
qed (use assms in auto)

lemma mkeys_sorted: "wf_map m \<Longrightarrow> sorted (mkeys m) \<and> distinct (mkeys m)"
  by (simp add: wf_map_def mkeys_def strict_sorted_iff [symmetric])

text \<open>Every expected entry has a matching actual entry: the order-free reading of a range loop.\<close>

definition submap_by :: "('v \<Rightarrow> 'w \<Rightarrow> bool) \<Rightarrow> 'v gomap \<Rightarrow> 'w gomap \<Rightarrow> bool" where
  "submap_by P m n \<longleftrightarrow> (\<forall>k v. mget m k = Some v \<longrightarrow> (\<exists>w. mget n k = Some w \<and> P v w))"

lemma submap_by_list_all:
  "wf_map m \<Longrightarrow> submap_by P m n \<longleftrightarrow>
     list_all (\<lambda>(k, v). case mget n k of None \<Rightarrow> False | Some w \<Rightarrow> P v w) m"
  unfolding submap_by_def list_all_iff
  by (auto simp: mget_Some_iff split: option.splits) force+

end
