(* ===== verification/Json.thy ===== *)
theory Json
  imports GoMap
begin

text \<open>
  JSON values as the repository sees them (the dynamic types of \<open>encoding/json\<close> with
  \<open>UseNumber\<close>), error values, and the decoder and encoder of the standard library on byte
  strings.  A JSON object is a map with string keys, see theory \<open>GoMap\<close>.
\<close>

section \<open>Values and errors\<close>

datatype json =
    JNull
  | JBool bool
  | JNum string \<comment> \<open>\<open>json.Number\<close>: the literal of the source\<close>
  | JStr string
  | JArr "json list"
  | JObj "(string \<times> json) list"

text \<open>
  An error value: its format string and arguments, so that no branch of the code is confused
  with another.  \<open>errors.New\<close> is a format without arguments, \<open>%w\<close> an argument \<open>AErr\<close>,
  \<open>Opaque\<close> an error value made by code outside the repository.
\<close>

datatype err =
    Errorf string "earg list"
  | Join "err list" \<comment> \<open>\<open>errors.Join\<close> of non-nil errors\<close>
  | Opaque string
and earg = AStr string | AInt int | AVal json | AErr err
  | AText err \<comment> \<open>the text of an error, \<open>%v\<close>, which is not wrapped\<close>

abbreviation Err :: "string \<Rightarrow> err" where
  "Err s \<equiv> Errorf s []"

type_synonym 'a result = "err + 'a"

text \<open>\<open>errors.Is(e, target)\<close>: the target is somewhere in the tree of wrapped errors.\<close>

fun err_is :: "err \<Rightarrow> err \<Rightarrow> bool" and arg_is :: "err \<Rightarrow> earg \<Rightarrow> bool" where
  "err_is t (Errorf f as) \<longleftrightarrow> t = Errorf f as \<or> list_ex (arg_is t) as"
| "err_is t (Join es) \<longleftrightarrow> t = Join es \<or> list_ex (err_is t) es"
| "err_is t (Opaque s) \<longleftrightarrow> t = Opaque s"
| "arg_is t (AErr e) \<longleftrightarrow> err_is t e"
| "arg_is t (AStr _) \<longleftrightarrow> False"
| "arg_is t (AInt _) \<longleftrightarrow> False"
| "arg_is t (AVal _) \<longleftrightarrow> False"
| "arg_is t (AText _) \<longleftrightarrow> False"

lemma err_is_refl [simp]: "err_is e e"
  by (cases e) auto

text \<open>The errors of package \<open>context\<close>.\<close>

definition contextCanceled :: err where "contextCanceled = Opaque ''context.Canceled''"
definition contextDeadlineExceeded :: err where "contextDeadlineExceeded = Opaque ''context.DeadlineExceeded''"

text \<open>\<open>errors.Join(a, b)\<close> where \<open>a\<close> may be nil.\<close>

fun errors_join :: "err option \<Rightarrow> err \<Rightarrow> err" where
  "errors_join None e = Join [e]"
| "errors_join (Some e0) e = Join [e0, e]"

text \<open>\<open>cmp.Diff\<close> of two JSON values: the empty report exactly when they are equal.\<close>

definition cmp_diff :: "json \<Rightarrow> json \<Rightarrow> err option" where
  "cmp_diff expected actual =
     (if expected = actual then None else Some (Errorf ''cmp.Diff'' [AVal expected, AVal actual]))"

fun wf_json :: "json \<Rightarrow> bool" where
  "wf_json (JArr js) = list_all wf_json js"
| "wf_json (JObj m) = (wf_map m \<and> list_all (\<lambda>e. wf_json (snd e)) m)"
| "wf_json _ = True"

lemma wf_json_member: "wf_json (JObj m) \<Longrightarrow> mget m k = Some v \<Longrightarrow> wf_json v"
  by (auto simp: list_all_iff dest!: mget_mem)

lemma list_all_mput: "list_all P m \<Longrightarrow> P (k, v) \<Longrightarrow> list_all P (mput k v m)"
  by (induction m) auto

lemma wf_json_put: "wf_json (JObj m) \<Longrightarrow> wf_json v \<Longrightarrow> wf_json (JObj (mput k v m))"
  by (auto intro: list_all_mput)

section \<open>Bytes\<close>

definition byte :: "char \<Rightarrow> nat" where
  "byte c = of_char c"

text \<open>
  \<open>utf8.DecodeRune\<close>: the length of the encoding at the front of a byte string, 0 if it is
  not the encoding of a code point.
\<close>

definition is_cont :: "char \<Rightarrow> bool" where
  "is_cont c \<longleftrightarrow> 128 \<le> byte c \<and> byte c < 192"

fun rune_len :: "string \<Rightarrow> nat" where
  "rune_len [] = 0"
| "rune_len (a # s) =
     (let n = byte a in
      if n < 128 then 1
      else if 194 \<le> n \<and> n < 224 then
        (case s of b # _ \<Rightarrow> if is_cont b then 2 else 0 | _ \<Rightarrow> 0)
      else if 224 \<le> n \<and> n < 240 then
        (case s of b # c # _ \<Rightarrow>
           if is_cont b \<and> is_cont c \<and> (n = 224 \<longrightarrow> 160 \<le> byte b) \<and> (n = 237 \<longrightarrow> byte b < 160)
           then 3 else 0
         | _ \<Rightarrow> 0)
      else if 240 \<le> n \<and> n < 245 then
        (case s of b # c # d # _ \<Rightarrow>
           if is_cont b \<and> is_cont c \<and> is_cont d \<and>
              (n = 240 \<longrightarrow> 144 \<le> byte b) \<and> (n = 244 \<longrightarrow> byte b < 144)
           then 4 else 0
         | _ \<Rightarrow> 0)
      else 0)"

text \<open>\<open>utf8.EncodeRune\<close> of a code point (a surrogate or an overflow becomes U+FFFD).\<close>

definition replacement :: string where
  "replacement = [CHR 0xEF, CHR 0xBF, CHR 0xBD]"

definition encode_rune :: "nat \<Rightarrow> string" where
  "encode_rune r =
     (if r < 128 then [char_of r]
      else if r < 2048 then [char_of (192 + r div 64), char_of (128 + r mod 64)]
      else if (55296 \<le> r \<and> r < 57344) \<or> 1114111 < r then replacement
      else if r < 65536 then
        [char_of (224 + r div 4096), char_of (128 + r div 64 mod 64), char_of (128 + r mod 64)]
      else
        [char_of (240 + r div 262144), char_of (128 + r div 4096 mod 64),
         char_of (128 + r div 64 mod 64), char_of (128 + r mod 64)])"

lemma rune_len_bound: "rune_len s \<le> length s"
  by (cases s) (auto simp: Let_def split: list.splits)

section \<open>The decoder\<close>

text \<open>
  \<open>json.Decoder.Decode\<close> reads one value and leaves the rest of the input.  \<open>DecEOF\<close> is
  \<open>io.EOF\<close> (only white space was left), \<open>DecMalformed\<close> every other error.
\<close>

datatype dec_err = DecEOF | DecMalformed | DecFuel

definition is_json_space :: "char \<Rightarrow> bool" where
  "is_json_space c \<longleftrightarrow> c = CHR 0x20 \<or> c = CHR 0x09 \<or> c = CHR 0x0A \<or> c = CHR 0x0D"

definition skip_space :: "string \<Rightarrow> string" where
  "skip_space s = dropWhile is_json_space s"

definition hex_val :: "char \<Rightarrow> nat option" where
  "hex_val c = (let n = byte c in
     if 48 \<le> n \<and> n \<le> 57 then Some (n - 48)
     else if 97 \<le> n \<and> n \<le> 102 then Some (n - 87)
     else if 65 \<le> n \<and> n \<le> 70 then Some (n - 55)
     else None)"

fun hex4 :: "string \<Rightarrow> (nat \<times> string) option" where
  "hex4 (a # b # c # d # s) =
     (case (hex_val a, hex_val b, hex_val c, hex_val d) of
        (Some p, Some q, Some r, Some t) \<Rightarrow> Some (4096 * p + 256 * q + 16 * r + t, s)
      | _ \<Rightarrow> None)"
| "hex4 _ = None"

lemma hex4_length: "hex4 s = Some (r, s') \<Longrightarrow> length s = length s' + 4"
  by (induction s rule: hex4.induct) (auto split: option.splits)

definition simple_escape :: "char \<Rightarrow> char option" where
  "simple_escape c =
     (if c = CHR 0x22 then Some (CHR 0x22)
      else if c = CHR 0x5C then Some (CHR 0x5C)
      else if c = CHR ''/'' then Some (CHR ''/'')
      else if c = CHR ''b'' then Some (CHR 0x08)
      else if c = CHR ''f'' then Some (CHR 0x0C)
      else if c = CHR ''n'' then Some (CHR 0x0A)
      else if c = CHR ''r'' then Some (CHR 0x0D)
      else if c = CHR ''t'' then Some (CHR 0x09)
      else None)"

text \<open>The low half of a surrogate pair, when one follows.\<close>

definition low_surrogate :: "string \<Rightarrow> (nat \<times> string) option" where
  "low_surrogate s =
     (case s of
        a # b # r \<Rightarrow>
          if a = CHR 0x5C \<and> b = CHR ''u'' then
            (case hex4 r of
               Some (n, t) \<Rightarrow> if 56320 \<le> n \<and> n < 57344 then Some (n, t) else None
             | None \<Rightarrow> None)
          else None
      | _ \<Rightarrow> None)"

lemma low_surrogate_length: "low_surrogate s = Some (r, s') \<Longrightarrow> length s' < length s"
  by (auto simp: low_surrogate_def dest!: hex4_length split: list.splits if_splits option.splits)

definition push :: "string \<Rightarrow> dec_err + string \<times> string \<Rightarrow> dec_err + string \<times> string" where
  "push p r = rbind r (\<lambda>(t, s). Inr (p @ t, s))"

lemma push_simps [simp]:
  "push p (Inl e) = Inl e" "push p (Inr (t, s)) = Inr (p @ t, s)"
  by (simp_all add: push_def)

lemma push_Inr_iff: "push p r = Inr (t, s) \<longleftrightarrow> (\<exists>u. r = Inr (u, s) \<and> t = p @ u)"
  by (auto simp: push_def)

text \<open>The contents of a string literal, after its opening quote.\<close>

function lex_string :: "string \<Rightarrow> dec_err + string \<times> string" where
  "lex_string [] = Inl DecMalformed"
| "lex_string (c # s) =
     (if c = CHR 0x22 then Inr ([], s)
      else if c = CHR 0x5C then
        (case s of
           [] \<Rightarrow> Inl DecMalformed
         | e # r \<Rightarrow>
             if e = CHR ''u'' then
               (case hex4 r of
                  None \<Rightarrow> Inl DecMalformed
                | Some (n, t) \<Rightarrow>
                    if 55296 \<le> n \<and> n < 56320 then
                      (case low_surrogate t of
                         Some (l, u) \<Rightarrow>
                           push (encode_rune (65536 + (n - 55296) * 1024 + (l - 56320))) (lex_string u)
                       | None \<Rightarrow> push replacement (lex_string t))
                    else push (encode_rune n) (lex_string t))
             else (case simple_escape e of
                     None \<Rightarrow> Inl DecMalformed
                   | Some d \<Rightarrow> push [d] (lex_string r)))
      else if byte c < 32 then Inl DecMalformed
      else (let k = rune_len (c # s) in
            if k = 0 then push replacement (lex_string s)
            else push (take k (c # s)) (lex_string (drop k (c # s)))))"
  by pat_completeness auto
termination
  by (relation "measure length") (auto dest!: hex4_length low_surrogate_length)

declare lex_string.simps [simp del] rune_len.simps [simp del]

text \<open>Number literals: the longest one at the front, \<^const>\<open>None\<close> if it is malformed.\<close>

definition lex_digits :: "string \<Rightarrow> string \<times> string" where
  "lex_digits s = (takeWhile is_digit s, dropWhile is_digit s)"

definition lex_int :: "string \<Rightarrow> (string \<times> string) option" where
  "lex_int s = (case s of
      c # r \<Rightarrow> if c = CHR ''0'' then Some ([c], r)
               else if is_digit c then Some (lex_digits s) else None
    | [] \<Rightarrow> None)"

definition lex_frac :: "string \<Rightarrow> (string \<times> string) option" where
  "lex_frac s = (case s of
      c # r \<Rightarrow> if c = CHR ''.'' then
                 (let (ds, t) = lex_digits r in if ds = [] then None else Some (c # ds, t))
               else Some ([], s)
    | [] \<Rightarrow> Some ([], s))"

definition lex_sign :: "string \<Rightarrow> string \<times> string" where
  "lex_sign s = (case s of
      c # r \<Rightarrow> if c = CHR ''+'' \<or> c = CHR ''-'' then ([c], r) else ([], s)
    | [] \<Rightarrow> ([], s))"

definition lex_exp :: "string \<Rightarrow> (string \<times> string) option" where
  "lex_exp s = (case s of
      c # r \<Rightarrow> if c = CHR ''e'' \<or> c = CHR ''E'' then
                 (let (sg, r') = lex_sign r; (ds, t) = lex_digits r'
                  in if ds = [] then None else Some (c # sg @ ds, t))
               else Some ([], s)
    | [] \<Rightarrow> Some ([], s))"

definition lex_minus :: "string \<Rightarrow> string \<times> string" where
  "lex_minus s = (case s of c # r \<Rightarrow> if c = CHR ''-'' then ([c], r) else ([], s) | [] \<Rightarrow> ([], s))"

definition lex_number :: "string \<Rightarrow> (string \<times> string) option" where
  "lex_number s =
     (case lex_int (snd (lex_minus s)) of None \<Rightarrow> None
      | Some (a, r1) \<Rightarrow> (case lex_frac r1 of None \<Rightarrow> None
        | Some (b, r2) \<Rightarrow> (case lex_exp r2 of None \<Rightarrow> None
          | Some (c, r3) \<Rightarrow> Some (fst (lex_minus s) @ a @ b @ c, r3))))"

lemma lex_number_SomeE:
  assumes "lex_number s = Some (l, r)"
  obtains a r1 b r2 c where "lex_int (snd (lex_minus s)) = Some (a, r1)" "lex_frac r1 = Some (b, r2)"
    "lex_exp r2 = Some (c, r)" "l = fst (lex_minus s) @ a @ b @ c"
  using assms by (auto simp: lex_number_def split: option.splits)

text \<open>The next byte after white space.\<close>

definition next_byte :: "string \<Rightarrow> dec_err + char \<times> string" where
  "next_byte s = (case skip_space s of [] \<Rightarrow> Inl DecMalformed | c # r \<Rightarrow> Inr (c, r))"

definition parse_scalar :: "string \<Rightarrow> dec_err + json \<times> string" where
  "parse_scalar s =
     (if prefix [CHR 0x22] s then rbind (lex_string (drop 1 s)) (\<lambda>(t, u). Inr (JStr t, u))
      else if prefix ''null'' s then Inr (JNull, drop 4 s)
      else if prefix ''true'' s then Inr (JBool True, drop 4 s)
      else if prefix ''false'' s then Inr (JBool False, drop 5 s)
      else (case lex_number s of None \<Rightarrow> Inl DecMalformed | Some (l, u) \<Rightarrow> Inr (JNum l, u)))"

definition parse_key :: "string \<Rightarrow> dec_err + string \<times> string" where
  "parse_key s =
     rbind (next_byte s) (\<lambda>(q, s1).
     if q \<noteq> CHR 0x22 then Inl DecMalformed else
     rbind (lex_string s1) (\<lambda>(k, s2).
     rbind (next_byte s2) (\<lambda>(d, s3).
     if d \<noteq> CHR '':'' then Inl DecMalformed else Inr (k, s3))))"

text \<open>
  Values, array elements and object members.  Every call spends one unit of fuel; twice the
  length of the input is enough (lemma \<open>json_decode_fuel\<close>).
\<close>

fun parse_value :: "nat \<Rightarrow> string \<Rightarrow> dec_err + json \<times> string"
and parse_elems :: "nat \<Rightarrow> string \<Rightarrow> dec_err + json list \<times> string"
and parse_members :: "nat \<Rightarrow> string \<Rightarrow> (string \<times> json) list \<Rightarrow> dec_err + (string \<times> json) list \<times> string" where
  "parse_value 0 s = Inl DecFuel"
| "parse_value (Suc n) s =
     rbind (next_byte s) (\<lambda>(c, r).
       if c = CHR 0x7B then
         rbind (next_byte r) (\<lambda>(d, t).
           if d = CHR 0x7D then Inr (JObj [], t)
           else rbind (parse_members n r []) (\<lambda>(m, u). Inr (JObj m, u)))
       else if c = CHR 0x5B then
         rbind (next_byte r) (\<lambda>(d, t).
           if d = CHR 0x5D then Inr (JArr [], t)
           else rbind (parse_elems n r) (\<lambda>(xs, u). Inr (JArr xs, u)))
       else parse_scalar (c # r))"
| "parse_elems 0 s = Inl DecFuel"
| "parse_elems (Suc n) s =
     rbind (parse_value n s) (\<lambda>(x, r).
     rbind (next_byte r) (\<lambda>(c, t).
       if c = CHR 0x5D then Inr ([x], t)
       else if c = CHR '','' then rbind (parse_elems n t) (\<lambda>(xs, u). Inr (x # xs, u))
       else Inl DecMalformed))"
| "parse_members 0 s m = Inl DecFuel"
| "parse_members (Suc n) s m =
     rbind (parse_key s) (\<lambda>(k, s1).
     rbind (parse_value n s1) (\<lambda>(v, s2).
     rbind (next_byte s2) (\<lambda>(c, t).
       if c = CHR 0x7D then Inr (mput k v m, t)
       else if c = CHR '','' then parse_members n t (mput k v m)
       else Inl DecMalformed)))"

definition json_decode :: "string \<Rightarrow> dec_err + json \<times> string" where
  "json_decode s =
     (if skip_space s = [] then Inl DecEOF else parse_value (Suc (2 * length s)) s)"

section \<open>Facts about the decoder\<close>

lemma lex_string_step:
  "lex_string (c # s) = Inr (t, r) \<Longrightarrow>
     r = s \<or> (\<exists>u t'. length u \<le> length s \<and> lex_string u = Inr (t', r))"
  by (subst (asm) lex_string.simps)
     (fastforce simp: push_Inr_iff Let_def split: if_splits list.splits option.splits
       dest!: hex4_length low_surrogate_length)

lemma lex_string_length: "lex_string s = Inr (t, r) \<Longrightarrow> length r < length s"
proof (induction s arbitrary: t r rule: length_induct)
  case (1 s)
  then obtain c s' where s: "s = c # s'" by (cases s) (auto simp: lex_string.simps)
  with "1.prems" have "lex_string (c # s') = Inr (t, r)" by simp
  then consider "r = s'" | u t' where "length u \<le> length s'" "lex_string u = Inr (t', r)"
    using lex_string_step by blast
  then show ?case
  proof cases
    case 1
    then show ?thesis by (simp add: s)
  next
    case 2
    then have "length r < length u" using "1.IH" by (simp add: s)
    with 2 show ?thesis by (simp add: s)
  qed
qed

lemma lex_digits_append: "lex_digits s = (a, b) \<Longrightarrow> s = a @ b"
  by (auto simp: lex_digits_def)

lemma lex_int_append: "lex_int s = Some (a, b) \<Longrightarrow> s = a @ b \<and> a \<noteq> []"
  by (cases s) (auto simp: lex_int_def lex_digits_def split: if_splits)

lemma lex_frac_append: "lex_frac s = Some (a, b) \<Longrightarrow> s = a @ b"
  by (cases s) (auto simp: lex_frac_def lex_digits_def split: if_splits)

lemma lex_exp_append: "lex_exp s = Some (a, b) \<Longrightarrow> s = a @ b"
  by (cases s) (auto simp: lex_exp_def lex_sign_def lex_digits_def Let_def split: if_splits list.splits)

lemma lex_minus_append: "fst (lex_minus s) @ snd (lex_minus s) = s"
  by (auto simp: lex_minus_def split: list.splits)

lemma lex_number_append: "lex_number s = Some (l, r) \<Longrightarrow> s = l @ r \<and> l \<noteq> []"
  using lex_minus_append [of s]
  by (auto elim!: lex_number_SomeE dest!: lex_int_append lex_frac_append lex_exp_append)

lemma next_byte_length: "next_byte s = Inr (c, r) \<Longrightarrow> length r < length s"
proof -
  assume "next_byte s = Inr (c, r)"
  then have "dropWhile is_json_space s = c # r"
    by (auto simp: next_byte_def skip_space_def split: list.splits)
  then show ?thesis by (metis length_dropWhile_le length_Cons less_eq_Suc_le)
qed

lemma parse_scalar_length: "parse_scalar s = Inr (j, r) \<Longrightarrow> length r < length s"
  by (auto simp: parse_scalar_def prefix_def split: if_splits option.splits
      dest!: lex_string_length lex_number_append)

lemma parse_key_length: "parse_key s = Inr (k, r) \<Longrightarrow> length r < length s"
  by (auto simp: parse_key_def split: if_splits dest!: lex_string_length next_byte_length)

lemmas lex_lengths = next_byte_length parse_key_length parse_scalar_length

text \<open>A parsed value consumes input.\<close>

lemma parse_length_aux:
  "(\<forall>s j r. parse_value n s = Inr (j, r) \<longrightarrow> length r < length s) \<and>
   (\<forall>s js r. parse_elems n s = Inr (js, r) \<longrightarrow> length r < length s) \<and>
   (\<forall>s m m' r. parse_members n s m = Inr (m', r) \<longrightarrow> length r < length s)"
proof (induction n)
  case 0
  show ?case by simp
next
  case (Suc n)
  then have v: "parse_value n s = Inr (j, r) \<Longrightarrow> length r < length s"
    and e: "parse_elems n s = Inr (js, r) \<Longrightarrow> length r < length s"
    and m: "parse_members n s m = Inr (m', r) \<Longrightarrow> length r < length s" for s j js m m' r
    by blast+
  note lens = v e m lex_lengths
  have "length r < length s" if "parse_value (Suc n) s = Inr (j, r)" for s j r
    using that by (auto split: if_splits dest!: lens)
  moreover have "length r < length s" if "parse_elems (Suc n) s = Inr (js, r)" for s js r
    using that by (auto split: if_splits dest!: lens)
  moreover have "length r < length s" if "parse_members (Suc n) s m = Inr (m', r)" for s m m' r
    using that by (auto split: if_splits dest!: lens)
  ultimately show ?case by blast
qed

lemmas parse_length =
  parse_length_aux [THEN conjunct1, rule_format]
  parse_length_aux [THEN conjunct2, THEN conjunct1, rule_format]
  parse_length_aux [THEN conjunct2, THEN conjunct2, rule_format]

text \<open>Every object of a parsed value is a well-formed map.\<close>

lemma parse_scalar_wf: "parse_scalar s = Inr (j, r) \<Longrightarrow> wf_json j"
  by (auto simp: parse_scalar_def split: if_splits option.splits)

lemma parse_wf_aux:
  "(\<forall>s j r. parse_value n s = Inr (j, r) \<longrightarrow> wf_json j) \<and>
   (\<forall>s js r. parse_elems n s = Inr (js, r) \<longrightarrow> list_all wf_json js) \<and>
   (\<forall>s m m' r. wf_json (JObj m) \<longrightarrow> parse_members n s m = Inr (m', r) \<longrightarrow> wf_json (JObj m'))"
proof (induction n)
  case 0
  show ?case by simp
next
  case (Suc n)
  then have v: "parse_value n s = Inr (j, r) \<Longrightarrow> wf_json j"
    and e: "parse_elems n s = Inr (js, r) \<Longrightarrow> list_all wf_json js"
    and m: "wf_json (JObj m) \<Longrightarrow> parse_members n s m = Inr (m', r) \<Longrightarrow> wf_json (JObj m')"
    for s j js m m' r
    by blast+
  have m0: "parse_members n s [] = Inr (m', r) \<Longrightarrow> wf_json (JObj m')" for s m' r
    by (rule m) simp_all
  have "wf_json j" if "parse_value (Suc n) s = Inr (j, r)" for s j r
    using that by (auto split: if_splits dest!: e m0 parse_scalar_wf)
  moreover have "list_all wf_json js" if "parse_elems (Suc n) s = Inr (js, r)" for s js r
    using that by (auto split: if_splits dest!: e v)
  moreover have "wf_json (JObj m')"
    if m_wf: "wf_json (JObj m)" and p: "parse_members (Suc n) s m = Inr (m', r)" for s m m' r
    using p m_wf by (auto simp del: wf_json.simps split: if_splits dest: v intro: wf_json_put m)
  ultimately show ?case by blast
qed

lemma json_decode_wf: "json_decode s = Inr (j, r) \<Longrightarrow> wf_json j"
  using parse_wf_aux [THEN conjunct1, rule_format]
  by (auto simp: json_decode_def simp del: parse_value.simps split: if_splits)

text \<open>The fuel of \<^const>\<open>json_decode\<close> never runs out.\<close>

lemma lex_string_fuel: "lex_string s \<noteq> Inl DecFuel"
proof (induction s rule: lex_string.induct)
  case 1
  show ?case by (simp add: lex_string.simps)
next
  case (2 c s)
  then show ?case
    by (subst lex_string.simps)
       (simp add: push_def rbind_Inl_iff Let_def split: list.splits option.splits prod.splits)
qed

lemma next_byte_fuel: "next_byte s \<noteq> Inl DecFuel"
  by (simp add: next_byte_def split: list.splits)

lemma parse_scalar_fuel: "parse_scalar s \<noteq> Inl DecFuel"
  by (auto simp: parse_scalar_def rbind_Inl_iff lex_string_fuel split: option.splits)

lemma parse_key_fuel: "parse_key s \<noteq> Inl DecFuel"
  by (auto simp: parse_key_def rbind_Inl_iff lex_string_fuel next_byte_fuel)

lemma parse_fuel_aux:
  "(\<forall>s. 2 * length s < n \<longrightarrow> parse_value n s \<noteq> Inl DecFuel) \<and>
   (\<forall>s. 2 * length s + 1 < n \<longrightarrow> parse_elems n s \<noteq> Inl DecFuel) \<and>
   (\<forall>s m. 2 * length s + 1 < n \<longrightarrow> parse_members n s m \<noteq> Inl DecFuel)"
proof (induction n)
  case 0
  show ?case by simp
next
  case (Suc n)
  then have v: "2 * length s < n \<Longrightarrow> parse_value n s \<noteq> Inl DecFuel"
    and e: "2 * length s + 1 < n \<Longrightarrow> parse_elems n s \<noteq> Inl DecFuel"
    and m: "2 * length s + 1 < n \<Longrightarrow> parse_members n s m \<noteq> Inl DecFuel" for s m
    by blast+
  note nf = next_byte_fuel parse_scalar_fuel parse_key_fuel
  have "parse_value (Suc n) s \<noteq> Inl DecFuel" if "2 * length s < Suc n" for s
  proof
    assume "parse_value (Suc n) s = Inl DecFuel"
    then obtain c r where "next_byte s = Inr (c, r)"
        "parse_members n r [] = Inl DecFuel \<or> parse_elems n r = Inl DecFuel"
      by (auto simp: rbind_Inl_iff nf split: if_splits)
    moreover from this(1) have "length r < length s" by (rule next_byte_length)
    with that have "2 * length r + 1 < n" by simp
    ultimately show False using e m by blast
  qed
  moreover have "parse_elems (Suc n) s \<noteq> Inl DecFuel" if "2 * length s + 1 < Suc n" for s
  proof
    assume "parse_elems (Suc n) s = Inl DecFuel"
    then obtain x r c t where "parse_value n s = Inl DecFuel \<or>
        parse_value n s = Inr (x, r) \<and> next_byte r = Inr (c, t) \<and> parse_elems n t = Inl DecFuel"
      by (auto simp: rbind_Inl_iff nf split: if_splits)
    moreover have "parse_value n s \<noteq> Inl DecFuel" using v [of s] that by simp
    ultimately have "length t + 1 < length s" "parse_elems n t = Inl DecFuel"
      by (auto dest!: parse_length(1) next_byte_length)
    then show False using e [of t] that by simp
  qed
  moreover have "parse_members (Suc n) s m \<noteq> Inl DecFuel" if "2 * length s + 1 < Suc n" for s m
  proof
    assume "parse_members (Suc n) s m = Inl DecFuel"
    then obtain k s1 v s2 c t where key: "parse_key s = Inr (k, s1)"
      and "parse_value n s1 = Inl DecFuel \<or> parse_value n s1 = Inr (v, s2) \<and>
        next_byte s2 = Inr (c, t) \<and> parse_members n t (mput k v m) = Inl DecFuel"
      by (auto simp: rbind_Inl_iff nf split: if_splits)
    moreover from key have s1: "length s1 < length s" by (rule parse_key_length)
    moreover from s1 that have "parse_value n s1 \<noteq> Inl DecFuel" using v [of s1] by simp
    ultimately have "length t + 1 < length s" "parse_members n t (mput k v m) = Inl DecFuel"
      by (auto dest!: parse_length(1) next_byte_length)
    then show False using m [of t] that by simp
  qed
  ultimately show ?case by blast
qed

lemma json_decode_fuel: "json_decode s \<noteq> Inl DecFuel"
  using parse_fuel_aux [of "Suc (2 * length s)"] 
  by (auto simp: json_decode_def simp del: parse_value.simps)

end
