(* ===== verification/JsonEncode.thy ===== *)
theory JsonEncode
  imports Json
begin

text \<open>
  \<open>json.Marshal\<close> on JSON values, and the round trip with the decoder: a value whose strings
  are valid UTF-8 and whose numbers are number literals is read back as itself.
\<close>

section \<open>The encoder\<close>

definition hex_digit :: "nat \<Rightarrow> char" where
  "hex_digit n = char_of (if n < 10 then 48 + n else 87 + n)"

definition short_escape :: "char \<Rightarrow> char option" where
  "short_escape c =
     (if c = CHR 0x22 \<or> c = CHR 0x5C then Some c
      else if c = CHR 0x08 then Some (CHR ''b'')
      else if c = CHR 0x0C then Some (CHR ''f'')
      else if c = CHR 0x0A then Some (CHR ''n'')
      else if c = CHR 0x0D then Some (CHR ''r'')
      else if c = CHR 0x09 then Some (CHR ''t'')
      else None)"

definition escape_ascii :: "char \<Rightarrow> string" where
  "escape_ascii c =
     (case short_escape c of
        Some d \<Rightarrow> [CHR 0x5C, d]
      | None \<Rightarrow>
          if byte c < 32 \<or> c = CHR ''<'' \<or> c = CHR ''>'' \<or> c = CHR ''&'' then
            [CHR 0x5C, CHR ''u'', CHR ''0'', CHR ''0'', hex_digit (byte c div 16), hex_digit (byte c mod 16)]
          else [c])"

definition escape_rune :: "string \<Rightarrow> string" where
  "escape_rune w =
     (if w = [CHR 0xE2, CHR 0x80, CHR 0xA8] then [CHR 0x5C] @ ''u2028''
      else if w = [CHR 0xE2, CHR 0x80, CHR 0xA9] then [CHR 0x5C] @ ''u2029''
      else w)"

function escape :: "string \<Rightarrow> string" where
  "escape [] = []"
| "escape (c # s) =
     (if byte c < 128 then escape_ascii c @ escape s
      else (let k = rune_len (c # s) in
            if k = 0 then [CHR 0x5C] @ ''ufffd'' @ escape s
            else escape_rune (take k (c # s)) @ escape (drop k (c # s))))"
  by pat_completeness auto
termination
  by (relation "measure length") auto

declare escape.simps [simp del]

definition quote :: "string \<Rightarrow> string" where
  "quote s = CHR 0x22 # escape s @ [CHR 0x22]"

fun json_enc :: "json \<Rightarrow> string" where
  "json_enc JNull = ''null''"
| "json_enc (JBool b) = (if b then ''true'' else ''false'')"
| "json_enc (JNum l) = (if l = [] then ''0'' else l)"
| "json_enc (JStr s) = quote s"
| "json_enc (JArr js) = CHR ''['' # join_with '','' (map json_enc js) @ '']''"
| "json_enc (JObj m) =
     CHR 0x7B # join_with '','' (map (\<lambda>e. quote (fst e) @ CHR '':'' # json_enc (snd e)) m) @ [CHR 0x7D]"

definition valid_number :: "string \<Rightarrow> bool" where
  "valid_number l \<longleftrightarrow> lex_number l = Some (l, [])"

fun encodable :: "json \<Rightarrow> bool" where
  "encodable (JNum l) = (l = [] \<or> valid_number l)"
| "encodable (JArr js) = list_all encodable js"
| "encodable (JObj m) = list_all (\<lambda>e. encodable (snd e)) m"
| "encodable _ = True"

definition json_marshal :: "json \<Rightarrow> string result" where
  "json_marshal j = (if encodable j then Inr (json_enc j) else Inl (Opaque ''json: invalid number literal''))"

section \<open>The round trip\<close>

function utf8_ok :: "string \<Rightarrow> bool" where
  "utf8_ok [] = True"
| "utf8_ok (c # s) =
     (let k = rune_len (c # s) in if k = 0 then False else utf8_ok (drop k (c # s)))"
  by pat_completeness auto
termination
  by (relation "measure length") auto

declare utf8_ok.simps [simp del]

fun portable :: "json \<Rightarrow> bool" where
  "portable (JNum l) = valid_number l"
| "portable (JStr s) = utf8_ok s"
| "portable (JArr js) = list_all portable js"
| "portable (JObj m) = (wf_map m \<and> list_all (\<lambda>e. utf8_ok (fst e) \<and> portable (snd e)) m)"
| "portable _ = True"

lemma portable_encodable: "portable j \<Longrightarrow> encodable j"
  by (induction j rule: portable.induct) (auto simp: list_all_iff)

lemma portable_wf: "portable j \<Longrightarrow> wf_json j"
  by (induction j rule: portable.induct) (auto simp: list_all_iff)

lemma rune_len_take: "rune_len s = k \<Longrightarrow> k \<noteq> 0 \<Longrightarrow> rune_len (take k s @ t) = k"
  by (cases s) (auto simp: rune_len.simps Let_def split: if_splits list.splits)

lemma byte_less [simp]: "byte c < 256"
  using nat_of_char_less_256 [of c] by (simp add: byte_def)

lemma byte_inject: "byte c = byte d \<longleftrightarrow> c = d"
  by (simp add: byte_def)

lemma char_of_iff_byte: "char_of (n :: nat) = c \<longleftrightarrow> n mod 256 = byte c"
  by (simp add: char_of_eq_iff take_bit_eq_mod byte_def)

lemma hex_val_digit: "n < 16 \<Longrightarrow> hex_val (hex_digit n) = Some n"
  by (auto simp: hex_val_def hex_digit_def byte_def Let_def)

lemma lex_short_escape:
  "short_escape c = Some d \<Longrightarrow> lex_string (CHR 0x5C # d # s) = push [c] (lex_string s)"
  by (subst lex_string.simps) (auto simp: short_escape_def simple_escape_def split: if_splits)

lemma hex4_u00: "n < 256 \<Longrightarrow>
    hex4 (CHR ''0'' # CHR ''0'' # hex_digit (n div 16) # hex_digit (n mod 16) # s) = Some (n, s)"
proof -
  assume n: "n < 256"
  have "hex_val (hex_digit (n div 16)) = Some (n div 16)"
    using n by (intro hex_val_digit) linarith
  moreover have "hex_val (hex_digit (n mod 16)) = Some (n mod 16)"
    by (intro hex_val_digit) simp
  moreover have "hex_val (CHR ''0'') = Some 0" by (simp add: hex_val_def byte_def)
  ultimately show ?thesis by simp
qed

lemma lex_unicode_escape:
  "hex4 r = Some (n, t) \<Longrightarrow> n < 55296 \<Longrightarrow>
     lex_string (CHR 0x5C # CHR ''u'' # r) = push (encode_rune n) (lex_string t)"
  by (simp add: lex_string.simps(2))

lemma lex_plain:
  "c \<noteq> CHR 0x22 \<Longrightarrow> c \<noteq> CHR 0x5C \<Longrightarrow> \<not> byte c < 32 \<Longrightarrow> rune_len (c # s) = k \<Longrightarrow> k \<noteq> 0 \<Longrightarrow>
     lex_string (c # s) = push (take k (c # s)) (lex_string (drop k (c # s)))"
  by (simp add: lex_string.simps(2) Let_def)

lemma lex_escape_ascii:
  assumes "byte c < 128"
  shows "lex_string (escape_ascii c @ s) = push [c] (lex_string s)"
proof (cases "short_escape c")
  case (Some d)
  then show ?thesis by (simp add: escape_ascii_def lex_short_escape)
next
  case None
  then have no: "c \<noteq> CHR 0x22" "c \<noteq> CHR 0x5C" by (auto simp: short_escape_def split: if_splits)
  show ?thesis
  proof (cases "byte c < 32 \<or> c = CHR ''<'' \<or> c = CHR ''>'' \<or> c = CHR ''&''")
    case True
    have "encode_rune (byte c) = [c]" using assms by (simp add: encode_rune_def byte_def)
    moreover have "byte c < 55296" using byte_less [of c] by linarith
    moreover have "escape_ascii c = [CHR 0x5C, CHR ''u'', CHR ''0'', CHR ''0'',
        hex_digit (byte c div 16), hex_digit (byte c mod 16)]"
      using True None by (auto simp: escape_ascii_def)
    ultimately show ?thesis
      using lex_unicode_escape [OF hex4_u00 [OF byte_less, of c s]] by simp
  next
    case False
    then have "rune_len (c # s) = 1" using assms by (simp add: rune_len.simps)
    moreover have "escape_ascii c = [c]" using False None by (simp add: escape_ascii_def)
    ultimately show ?thesis
      using False no lex_plain [of c s 1] by simp
  qed
qed

lemma lex_escape_rune:
  assumes k: "rune_len (c # s) = k" "k \<noteq> 0" and big: "\<not> byte c < 128"
  shows "lex_string (escape_rune (take k (c # s)) @ t) = push (take k (c # s)) (lex_string t)"
proof (cases "take k (c # s) = [CHR 0xE2, CHR 0x80, CHR 0xA8] \<or>
              take k (c # s) = [CHR 0xE2, CHR 0x80, CHR 0xA9]")
  case True
  have h: "hex4 (''2028'' @ t) = Some (8232, t)" "hex4 (''2029'' @ t) = Some (8233, t)"
    by (simp_all add: hex_val_def byte_def)
  have e: "encode_rune 8232 = [CHR 0xE2, CHR 0x80, CHR 0xA8]"
    "encode_rune 8233 = [CHR 0xE2, CHR 0x80, CHR 0xA9]"
    by (simp_all add: encode_rune_def char_of_iff_byte) (simp_all add: byte_def)
  have "lex_string (CHR 0x5C # CHR ''u'' # ''2028'' @ t) = push [CHR 0xE2, CHR 0x80, CHR 0xA8] (lex_string t)"
    using lex_unicode_escape [OF h(1)] unfolding e by simp
  moreover have "lex_string (CHR 0x5C # CHR ''u'' # ''2029'' @ t) = push [CHR 0xE2, CHR 0x80, CHR 0xA9] (lex_string t)"
    using lex_unicode_escape [OF h(2)] unfolding e by simp
  moreover note True
  ultimately show ?thesis by (elim disjE) (simp_all add: escape_rune_def)
next
  case False
  obtain k' where k': "k = Suc k'" using k(2) by (cases k) auto
  have len: "rune_len (c # (take k' s @ t)) = k"
    using rune_len_take [OF k, of t] k' by simp
  have no: "c \<noteq> CHR 0x22" "c \<noteq> CHR 0x5C" "\<not> byte c < 32"
    using big by (auto simp: byte_def)
  have "k' \<le> length s" using rune_len_bound [of "c # s"] k(1) k' by simp
  moreover have "escape_rune (take k (c # s)) = c # take k' s"
    using False k' by (simp add: escape_rune_def)
  ultimately show ?thesis
    using lex_plain [OF no len k(2)] k' by simp
qed

lemma push_push [simp]: "push p (push q r) = push (p @ q) r"
  by (cases r) auto

lemma lex_escape:
  "utf8_ok s \<Longrightarrow> lex_string (escape s @ CHR 0x22 # r) = Inr (s, r)"
proof (induction s rule: utf8_ok.induct)
  case 1
  show ?case by (simp add: escape.simps lex_string.simps)
next
  case (2 c s)
  define k where "k = rune_len (c # s)"
  have k: "k \<noteq> 0" "utf8_ok (drop k (c # s))"
    using "2.prems" by (simp_all add: utf8_ok.simps Let_def k_def split: if_splits)
  have IH: "lex_string (escape (drop k (c # s)) @ CHR 0x22 # r) = Inr (drop k (c # s), r)"
    using "2.IH" [OF k_def] k by simp
  show ?case
  proof (cases "byte c < 128")
    case True
    then have "k = 1" by (simp add: k_def rune_len.simps)
    with True IH show ?thesis by (simp add: escape.simps lex_escape_ascii)
  next
    case False
    then have "escape (c # s) = escape_rune (take k (c # s)) @ escape (drop k (c # s))"
      using k(1) by (subst escape.simps) (simp add: Let_def k_def)
    then show ?thesis
      using lex_escape_rune [OF k_def [symmetric] k(1) False] IH by simp
  qed
qed

text \<open>A number literal ends where the next byte cannot continue it.\<close>

definition num_stop :: "string \<Rightarrow> bool" where
  "num_stop r \<longleftrightarrow> r = [] \<or> \<not> (is_digit (hd r) \<or> hd r \<in> {CHR ''.'', CHR ''e'', CHR ''E''})"

lemma num_stop_takeWhile: "num_stop r \<Longrightarrow> takeWhile is_digit r = [] \<and> dropWhile is_digit r = r"
  by (cases r) (auto simp: num_stop_def)

lemma lex_digits_stop:
  "lex_digits s = (a, b) \<Longrightarrow> b \<noteq> [] \<or> num_stop r \<Longrightarrow> lex_digits (s @ r) = (a, b @ r)"
  using num_stop_takeWhile [of r]
  by (auto simp: lex_digits_def takeWhile_append dropWhile_append dropWhile_eq_Nil_conv
      takeWhile_eq_all_conv [THEN iffD2])

lemma lex_int_stop:
  "lex_int s = Some (a, b) \<Longrightarrow> b \<noteq> [] \<or> num_stop r \<Longrightarrow> lex_int (s @ r) = Some (a, b @ r)"
  using lex_digits_stop [of s a b r]
  by (cases s) (auto simp: lex_int_def split: if_splits)

lemma lex_frac_stop:
  "lex_frac s = Some (a, b) \<Longrightarrow> b \<noteq> [] \<or> num_stop r \<Longrightarrow> lex_frac (s @ r) = Some (a, b @ r)"
proof (cases s)
  case Nil
  then show "lex_frac s = Some (a, b) \<Longrightarrow> b \<noteq> [] \<or> num_stop r \<Longrightarrow> ?thesis"
    by (cases r) (auto simp: lex_frac_def num_stop_def)
next
  case (Cons c s')
  then show "lex_frac s = Some (a, b) \<Longrightarrow> b \<noteq> [] \<or> num_stop r \<Longrightarrow> ?thesis"
    using lex_digits_stop [of s' "tl a" b r]
    by (auto simp: lex_frac_def Let_def split: if_splits prod.splits)
qed

lemma lex_sign_append: "s \<noteq> [] \<Longrightarrow> lex_sign (s @ r) = (fst (lex_sign s), snd (lex_sign s) @ r)"
  by (cases s) (auto simp: lex_sign_def)

lemma lex_exp_stop:
  assumes "lex_exp s = Some (a, b)" "b \<noteq> [] \<or> num_stop r"
  shows "lex_exp (s @ r) = Some (a, b @ r)"
proof (cases s)
  case Nil
  with assms show ?thesis by (cases r) (auto simp: lex_exp_def num_stop_def)
next
  case (Cons c s')
  show ?thesis
    unfolding Cons
  proof (cases "c = CHR ''e'' \<or> c = CHR ''E''")
    case True
    obtain sg r' where sg: "lex_sign s' = (sg, r')" by (cases "lex_sign s'")
    obtain ds where ds: "lex_digits r' = (ds, b)" "ds \<noteq> []" "a = c # sg @ ds"
      using assms(1) Cons True sg by (auto simp: lex_exp_def Let_def split: if_splits prod.splits)
    have "s' \<noteq> []" using sg ds by (auto simp: lex_sign_def lex_digits_def)
    then have "lex_sign (s' @ r) = (sg, r' @ r)" by (simp add: lex_sign_append sg)
    moreover have "lex_digits (r' @ r) = (ds, b @ r)"
      using ds(1) assms(2) by (rule lex_digits_stop)
    ultimately show "lex_exp ((c # s') @ r) = Some (a, b @ r)"
      using True ds by (simp add: lex_exp_def)
  next
    case False
    with assms Cons show "lex_exp ((c # s') @ r) = Some (a, b @ r)" by (auto simp: lex_exp_def)
  qed
qed

lemma lex_number_stop:
  assumes "valid_number l" "num_stop r"
  shows "lex_number (l @ r) = Some (l, r)"
proof -
  obtain a r1 b r2 c where parts:
    "lex_int (snd (lex_minus l)) = Some (a, r1)" "lex_frac r1 = Some (b, r2)"
    "lex_exp r2 = Some (c, [])" "l = fst (lex_minus l) @ a @ b @ c"
    using assms(1) unfolding valid_number_def by (rule lex_number_SomeE)
  have r2: "r2 \<noteq> [] \<or> num_stop r" and r1: "r1 \<noteq> [] \<or> num_stop r"
    using assms(2) by blast+
  have "l \<noteq> []" using parts(1) by (auto simp: lex_minus_def lex_int_def)
  then have "lex_minus (l @ r) = (fst (lex_minus l), snd (lex_minus l) @ r)"
    by (cases l) (auto simp: lex_minus_def)
  then show ?thesis
    using lex_int_stop [OF parts(1) r1] lex_frac_stop [OF parts(2) r2]
      lex_exp_stop [OF parts(3), of r] assms(2) parts(4) [symmetric]
    by (simp add: lex_number_def)
qed

lemma next_byte_Cons [simp]: "\<not> is_json_space c \<Longrightarrow> next_byte (c # s) = Inr (c, s)"
  by (simp add: next_byte_def skip_space_def)

lemma not_json_space [simp]:
  "\<not> is_json_space (CHR 0x22)" "\<not> is_json_space (CHR '':'')" "\<not> is_json_space (CHR '','')"
  "\<not> is_json_space (CHR ''['')" "\<not> is_json_space (CHR '']'')" "\<not> is_json_space (CHR 0x7B)"
  "\<not> is_json_space (CHR 0x7D)"
  by (simp_all add: is_json_space_def)

lemma num_stop_simps [simp]:
  "num_stop []" "num_stop (CHR '','' # s)" "num_stop (CHR '']'' # s)" "num_stop (CHR 0x7D # s)"
  by (simp_all add: num_stop_def is_digit_def)

lemma valid_number_hd: "valid_number l \<Longrightarrow> \<exists>c s. l = c # s \<and> (is_digit c \<or> c = CHR ''-'')"
  by (cases l)
     (auto simp: valid_number_def lex_minus_def lex_int_def is_digit_def split: if_splits
       elim!: lex_number_SomeE)

lemma digit_not_special:
  assumes "is_digit c \<or> c = CHR ''-''"
  shows "\<not> is_json_space c" "c \<noteq> CHR 0x22" "c \<noteq> CHR ''['' " "c \<noteq> CHR '']''" "c \<noteq> CHR 0x7B" "c \<noteq> CHR 0x7D"
    "c \<noteq> CHR ''n''" "c \<noteq> CHR ''t''" "c \<noteq> CHR ''f''"
  using assms by (auto simp: is_digit_def is_json_space_def)

lemma json_enc_hd:
  assumes "portable j"
  obtains c s where "json_enc j = c # s" "\<not> is_json_space c" "c \<noteq> CHR '']''" "c \<noteq> CHR 0x7D"
proof (cases j)
  case (JNum l)
  then have "valid_number l" using assms by simp
  with valid_number_hd obtain c s where l: "l = c # s" and c: "is_digit c \<or> c = CHR ''-''" by blast
  show thesis by (rule that [of c s]) (use JNum l digit_not_special [OF c] in auto)
next
  case (JBool b)
  then show thesis by (cases b) (use that in \<open>auto simp: is_json_space_def\<close>)
qed (use that in \<open>auto simp: quote_def is_json_space_def\<close>)

lemma parse_scalar_number:
  assumes "valid_number l" "num_stop r"
  shows "parse_scalar (l @ r) = Inr (JNum l, r)"
proof -
  obtain c s where l: "l = c # s" and c: "is_digit c \<or> c = CHR ''-''"
    using valid_number_hd [OF assms(1)] by blast
  show ?thesis
    using lex_number_stop [OF assms] digit_not_special [OF c] by (auto simp: parse_scalar_def l)
qed

lemma parse_value_scalar:
  "c \<noteq> CHR 0x7B \<Longrightarrow> c \<noteq> CHR ''['' \<Longrightarrow> \<not> is_json_space c \<Longrightarrow>
     parse_value (Suc n) (c # s) = parse_scalar (c # s)"
  by simp

lemma parse_value_array:
  "next_byte s = Inr (d, t) \<Longrightarrow> d \<noteq> CHR '']'' \<Longrightarrow> parse_elems n s = Inr (js, r) \<Longrightarrow>
     parse_value (Suc n) (CHR ''['' # s) = Inr (JArr js, r)"
  by simp

lemma parse_value_object:
  "next_byte s = Inr (d, t) \<Longrightarrow> d \<noteq> CHR 0x7D \<Longrightarrow> parse_members n s [] = Inr (m, r) \<Longrightarrow>
     parse_value (Suc n) (CHR 0x7B # s) = Inr (JObj m, r)"
  by simp

lemma parse_key_quote: "utf8_ok k \<Longrightarrow> parse_key (quote k @ CHR '':'' # s) = Inr (k, s)"
  by (simp add: parse_key_def quote_def lex_escape)

text \<open>What the induction hypothesis says of one value.\<close>

definition reads_back :: "json \<Rightarrow> bool" where
  "reads_back j \<longleftrightarrow> (\<forall>n r. num_stop r \<longrightarrow> 2 * length (json_enc j @ r) < n \<longrightarrow>
     parse_value n (json_enc j @ r) = Inr (j, r))"

lemma reads_backD:
  "reads_back j \<Longrightarrow> num_stop r \<Longrightarrow> 2 * length (json_enc j @ r) < n \<Longrightarrow>
     parse_value n (json_enc j @ r) = Inr (j, r)"
  by (simp add: reads_back_def)

lemma parse_elems_enc:
  "js \<noteq> [] \<Longrightarrow> \<forall>j \<in> set js. reads_back j \<Longrightarrow>
     2 * length (join_with '','' (map json_enc js) @ CHR '']'' # r) + 1 < n \<Longrightarrow>
     parse_elems n (join_with '','' (map json_enc js) @ CHR '']'' # r) = Inr (js, r)"
proof (induction js arbitrary: n)
  case Nil
  then show ?case by simp
next
  case (Cons j js)
  obtain n' where n: "n = Suc n'" using Cons.prems(3) by (cases n) auto
  show ?case
  proof (cases js)
    case Nil
    have "parse_value n' (json_enc j @ CHR '']'' # r) = Inr (j, CHR '']'' # r)"
      using Cons.prems n Nil by (intro reads_backD) auto
    then show ?thesis by (simp add: n Nil)
  next
    case (Cons j' js')
    let ?rest = "join_with '','' (map json_enc js) @ CHR '']'' # r"
    have "parse_value n' (json_enc j @ CHR '','' # ?rest) = Inr (j, CHR '','' # ?rest)"
      using Cons.prems n Cons by (intro reads_backD) auto
    moreover have "parse_elems n' ?rest = Inr (js, r)"
      using Cons.prems n Cons by (intro Cons.IH) auto
    ultimately show ?thesis using Cons by (simp add: n)
  qed
qed

abbreviation member_enc :: "string \<times> json \<Rightarrow> string" where
  "member_enc e \<equiv> quote (fst e) @ CHR '':'' # json_enc (snd e)"

lemma parse_members_enc:
  "m \<noteq> [] \<Longrightarrow> \<forall>e \<in> set m. utf8_ok (fst e) \<and> reads_back (snd e) \<Longrightarrow>
     2 * length (join_with '','' (map member_enc m) @ CHR 0x7D # r) + 1 < n \<Longrightarrow>
     parse_members n (join_with '','' (map member_enc m) @ CHR 0x7D # r) acc = Inr (mcopy acc m, r)"
proof (induction m arbitrary: n acc)
  case Nil
  then show ?case by simp
next
  case (Cons e m)
  obtain n' where n: "n = Suc n'" using Cons.prems(3) by (cases n) auto
  have key: "parse_key (quote (fst e) @ CHR '':'' # s) = Inr (fst e, s)" for s
    using Cons.prems(2) by (intro parse_key_quote) simp
  show ?case
  proof (cases m)
    case Nil
    have "parse_value n' (json_enc (snd e) @ CHR 0x7D # r) = Inr (snd e, CHR 0x7D # r)"
      using Cons.prems n Nil by (intro reads_backD) auto
    then show ?thesis by (simp add: n Nil key mcopy_def split_beta)
  next
    case (Cons e' m')
    let ?rest = "join_with '','' (map member_enc m) @ CHR 0x7D # r"
    have "parse_value n' (json_enc (snd e) @ CHR '','' # ?rest) = Inr (snd e, CHR '','' # ?rest)"
      using Cons.prems n Cons by (intro reads_backD) auto
    moreover have "parse_members n' ?rest (mput (fst e) (snd e) acc) =
        Inr (mcopy (mput (fst e) (snd e) acc) m, r)"
      using Cons.prems n Cons by (intro Cons.IH) auto
    ultimately show ?thesis using Cons by (simp add: n key mcopy_def split_beta)
  qed
qed

lemma reads_back_scalar:
  assumes "\<And>r. num_stop r \<Longrightarrow> parse_scalar (json_enc j @ r) = Inr (j, r)"
    and "json_enc j = c # s" "\<not> is_json_space c" "c \<noteq> CHR 0x7B" "c \<noteq> CHR ''[''"
  shows "reads_back j"
  unfolding reads_back_def
proof (intro allI impI)
  fix n r
  assume r: "num_stop r" and "2 * length (json_enc j @ r) < n"
  then obtain n' where "n = Suc n'" by (cases n) auto
  then show "parse_value n (json_enc j @ r) = Inr (j, r)"
    using assms(1) [OF r] parse_value_scalar [OF assms(4,5,3), of n' "s @ r"] by (simp add: assms(2))
qed

lemma reads_back_array: "\<forall>j \<in> set js. portable j \<and> reads_back j \<Longrightarrow> reads_back (JArr js)"
  unfolding reads_back_def [of "JArr js"]
proof (intro allI impI)
  fix n r
  assume js: "\<forall>j \<in> set js. portable j \<and> reads_back j"
    and len: "2 * length (json_enc (JArr js) @ r) < n"
  obtain n' where n: "n = Suc n'" using len by (cases n) auto
  show "parse_value n (json_enc (JArr js) @ r) = Inr (JArr js, r)"
  proof (cases js)
    case Nil
    then show ?thesis by (simp add: n)
  next
    case (Cons j js')
    from js Cons have "portable j" by simp
    then obtain c s where c: "json_enc j = c # s" "\<not> is_json_space c" "c \<noteq> CHR '']''"
      by (rule json_enc_hd)
    have "parse_elems n' (join_with '','' (map json_enc js) @ CHR '']'' # r) = Inr (js, r)"
      using js len n Cons by (intro parse_elems_enc) auto
    moreover obtain t where "join_with '','' (map json_enc js) @ CHR '']'' # r = c # t"
      using c Cons by (cases js') auto
    then have "next_byte (join_with '','' (map json_enc js) @ CHR '']'' # r) = Inr (c, t)"
      by (simp add: c(2))
    ultimately show ?thesis using c(3) by (simp add: n parse_value_array del: parse_value.simps)
  qed
qed

lemma reads_back_object:
  "wf_map m \<Longrightarrow> \<forall>e \<in> set m. utf8_ok (fst e) \<and> reads_back (snd e) \<Longrightarrow> reads_back (JObj m)"
  unfolding reads_back_def [of "JObj m"]
proof (intro allI impI)
  fix n r
  assume wf: "wf_map m" and m: "\<forall>e \<in> set m. utf8_ok (fst e) \<and> reads_back (snd e)"
    and len: "2 * length (json_enc (JObj m) @ r) < n"
  obtain n' where n: "n = Suc n'" using len by (cases n) auto
  show "parse_value n (json_enc (JObj m) @ r) = Inr (JObj m, r)"
  proof (cases m)
    case Nil
    then show ?thesis by (simp add: n)
  next
    case (Cons e m')
    have "parse_members n' (join_with '','' (map member_enc m) @ CHR 0x7D # r) [] = Inr (mcopy [] m, r)"
      using m len n Cons by (intro parse_members_enc) auto
    moreover obtain t where "join_with '','' (map member_enc m) @ CHR 0x7D # r = CHR 0x22 # t"
      using Cons by (cases m') (auto simp: quote_def)
    then have "next_byte (join_with '','' (map member_enc m) @ CHR 0x7D # r) = Inr (CHR 0x22, t)"
      by simp
    ultimately show ?thesis
      using mcopy_self [OF wf] by (simp add: n parse_value_object del: parse_value.simps)
  qed
qed

lemma reads_back_bool: "reads_back (JBool b)"
  by (rule reads_back_scalar [of _ "if b then CHR ''t'' else CHR ''f''" "if b then ''rue'' else ''alse''"])
     (auto simp: parse_scalar_def is_json_space_def)

lemma portable_reads_back: "portable j \<Longrightarrow> reads_back j"
proof (induction j rule: portable.induct)
  case (1 l)
  then have l: "valid_number l" by simp
  then obtain c s where c: "l = c # s" "is_digit c \<or> c = CHR ''-''" using valid_number_hd by blast
  have enc: "json_enc (JNum l) = l" using c(1) by simp
  show ?case
  proof (rule reads_back_scalar [of _ c s])
    show "num_stop r \<Longrightarrow> parse_scalar (json_enc (JNum l) @ r) = Inr (JNum l, r)" for r
      unfolding enc by (rule parse_scalar_number [OF l])
    show "json_enc (JNum l) = c # s" unfolding enc by (rule c(1))
  qed (rule digit_not_special [OF c(2)])+
next
  case (2 s)
  then show ?case
    by (intro reads_back_scalar [of _ "CHR 0x22" "escape s @ [CHR 0x22]"])
       (auto simp: quote_def parse_scalar_def lex_escape)
next
  case (3 js)
  then show ?case by (intro reads_back_array) (auto simp: list_all_iff)
next
  case (4 m)
  then show ?case by (intro reads_back_object) (auto simp: list_all_iff)
next
  case "5_1"
  show ?case by (rule reads_back_scalar [of _ "CHR ''n''" "''ull''"])
    (auto simp: parse_scalar_def is_json_space_def)
next
  case "5_2"
  show ?case by (rule reads_back_bool)
qed

lemma json_roundtrip: "portable j \<Longrightarrow> json_decode (json_enc j) = Inr (j, [])"
proof -
  assume j: "portable j"
  then obtain c s where "json_enc j = c # s" "\<not> is_json_space c" by (rule json_enc_hd)
  then have "skip_space (json_enc j) \<noteq> []" by (simp add: skip_space_def)
  moreover have "parse_value (Suc (2 * length (json_enc j))) (json_enc j @ []) = Inr (j, [])"
    using portable_reads_back [OF j] by (rule reads_backD) simp_all
  ultimately show ?thesis by (simp add: json_decode_def del: parse_value.simps)
qed

end
