(* ===== verification/JsonSubset.thy ===== *)
theory JsonSubset
  imports JsonEncode
begin

text \<open>
  \<open>internal/jsonsubset/match.go\<close>: structural subset matching of decoded JSON values, used by
  the HTTP mock (\<open>body_subset\<close>) and by the queue probe (\<open>payload_subset\<close>).  A mismatch is
  \<^const>\<open>Inl\<close> of its path and reason.  The locale \<open>json_subset\<close> is what both clients rely on.
\<close>

section \<open>The matcher\<close>

definition index_path :: "string \<Rightarrow> nat \<Rightarrow> string" where
  "index_path path i = path @ ''['' @ nat_digits i @ '']''"

definition key_path :: "string \<Rightarrow> string \<Rightarrow> string" where
  "key_path path key = path @ ''.'' @ key"

definition matchScalar :: "json \<Rightarrow> json \<Rightarrow> string \<Rightarrow> (string \<times> err) + unit" where
  "matchScalar actual expected path =
     (if actual = expected then Inr ()
      else Inl (path, Errorf ''expected %v, got %v'' [AVal expected, AVal actual]))"

text \<open>
  \<open>Match\<close>, with the loops of \<open>matchObject\<close> and \<open>matchArray\<close> as functions of the entries still
  to be visited.
\<close>

fun subsetMatch :: "json \<Rightarrow> json \<Rightarrow> string \<Rightarrow> (string \<times> err) + unit"
and matchObjectFields :: "(string \<times> json) list \<Rightarrow> (string \<times> json) list \<Rightarrow> string \<Rightarrow> (string \<times> err) + unit"
and matchArrayItems :: "json list \<Rightarrow> json list \<Rightarrow> nat \<Rightarrow> string \<Rightarrow> (string \<times> err) + unit" where
  "subsetMatch actual (JObj expected) path =
     (case actual of
        JObj actualMap \<Rightarrow> matchObjectFields actualMap expected path
      | _ \<Rightarrow> Inl (path, Err ''actual value is not object''))"
| "subsetMatch actual (JArr expected) path =
     (case actual of
        JArr actualSlice \<Rightarrow>
          if length actualSlice < length expected then
            Inl (path, Errorf ''actual array length %d is less than expected %d''
                         [AInt (int (length actualSlice)), AInt (int (length expected))])
          else matchArrayItems actualSlice expected 0 path
      | _ \<Rightarrow> Inl (path, Err ''actual value is not array''))"
| "subsetMatch actual expected path = matchScalar actual expected path"
| "matchObjectFields actualMap [] path = Inr ()"
| "matchObjectFields actualMap ((key, expectedValue) # rest) path =
     (case mget actualMap key of
        None \<Rightarrow> Inl (key_path path key, Err ''key is missing'')
      | Some actualValue \<Rightarrow>
          rbind (subsetMatch actualValue expectedValue (key_path path key))
            (\<lambda>_. matchObjectFields actualMap rest path))"
| "matchArrayItems actualSlice [] i path = Inr ()"
| "matchArrayItems actualSlice (expectedValue # rest) i path =
     rbind (subsetMatch (actualSlice ! i) expectedValue (index_path path i))
       (\<lambda>_. matchArrayItems actualSlice rest (Suc i) path)"

section \<open>The abstract relation\<close>

text \<open>
  What a match promises, without paths, loops and their order: objects by key, arrays as
  positional prefixes, everything else by equality.
\<close>

function (sequential) json_sub :: "json \<Rightarrow> json \<Rightarrow> bool" where
  "json_sub (JObj m) a =
     (case a of JObj n \<Rightarrow>
        list_all (\<lambda>e. case mget n (fst e) of None \<Rightarrow> False | Some v \<Rightarrow> json_sub (snd e) v) m
      | _ \<Rightarrow> False)"
| "json_sub (JArr es) a =
     (case a of JArr as \<Rightarrow>
        length es \<le> length as \<and> list_all (\<lambda>(e, b). json_sub e b) (zip es as)
      | _ \<Rightarrow> False)"
| "json_sub e a = (e = a)"
  by pat_completeness auto
termination
  by (relation "measure (\<lambda>(e, a). size e)")
     (auto simp: less_Suc_eq_le dest!: set_zip_leftD intro: size_list_estimation')

lemma items_refine:
  assumes "\<And>e a path. e \<in> set es \<Longrightarrow> is_ok (subsetMatch a e path) = json_sub e a"
    and "length es \<le> length as"
  shows "is_ok (matchArrayItems (bs @ as) es (length bs) path) =
    list_all (\<lambda>(e, b). json_sub e b) (zip es as)"
  using assms
proof (induction es arbitrary: bs as)
  case Nil
  then show ?case by simp
next
  case (Cons e es)
  then obtain b as' where as: "as = b # as'" by (cases as) auto
  have "is_ok (matchArrayItems ((bs @ [b]) @ as') es (length (bs @ [b])) path) =
      list_all (\<lambda>(e, b). json_sub e b) (zip es as')"
    using Cons as by (intro Cons.IH) auto
  then show ?case
    using Cons.prems(1) [of e b "index_path path (length bs)"] by (auto simp: as is_ok_iff)
qed

lemma fields_refine:
  assumes "\<And>e a path. e \<in> snd ` set m \<Longrightarrow> is_ok (subsetMatch a e path) = json_sub e a"
  shows "is_ok (matchObjectFields n m path) =
    list_all (\<lambda>e. case mget n (fst e) of None \<Rightarrow> False | Some v \<Rightarrow> json_sub (snd e) v) m"
  using assms
proof (induction m)
  case Nil
  then show ?case by simp
next
  case (Cons e m)
  obtain k v where e: "e = (k, v)" by (cases e)
  show ?case
    using Cons.IH Cons.prems [of v _ "key_path path k"] Cons.prems
    by (auto simp: e is_ok_iff split: option.splits)
qed

lemma subsetMatch_refines: "is_ok (subsetMatch a e path) \<longleftrightarrow> json_sub e a"
proof (induction e arbitrary: a path)
  case (JArr es)
  then show ?case
    using items_refine [of es _ "[]"] by (auto split: json.splits)
next
  case (JObj m)
  have "is_ok (subsetMatch a e path) = json_sub e a" if "e \<in> snd ` set m" for e a path
    using that JObj by (auto simp: snds.simps)
  then show ?case
    using fields_refine [of m] by (auto split: json.splits)
qed (auto simp: matchScalar_def split: if_splits)

lemma json_sub_object:
  assumes "wf_map m"
  shows "json_sub (JObj m) (JObj n) \<longleftrightarrow> submap_by json_sub m n"
  unfolding submap_by_list_all [OF assms] by (simp add: case_prod_beta')

lemma json_sub_array:
  "json_sub (JArr es) (JArr as) \<longleftrightarrow>
     length es \<le> length as \<and> (\<forall>i < length es. json_sub (es ! i) (as ! i))"
  by (auto simp: list_all_length)

lemma json_sub_refl: "wf_json j \<Longrightarrow> json_sub j j"
proof (induction j)
  case (JArr js)
  then show ?case by (simp add: json_sub_array list_all_length del: json_sub.simps)
next
  case (JObj m)
  have "json_sub v v" if "mget m k = Some v" for k v
    using JObj.IH [of "(k, v)" v] JObj.prems mget_mem [OF that] by (force simp: list_all_iff)
  then show ?case
    using JObj.prems json_sub_object [of m m] by (auto simp: submap_by_def)
qed auto

lemma json_sub_objectE:
  assumes "json_sub (JObj m) a" "wf_map m"
  obtains n where "a = JObj n" "submap_by json_sub m n"
  using assms json_sub_object [OF assms(2)] by (cases a) auto

lemma json_sub_arrayE:
  assumes "json_sub (JArr es) a"
  obtains as where "a = JArr as" "length es \<le> length as" "\<And>i. i < length es \<Longrightarrow> json_sub (es ! i) (as ! i)"
  using assms json_sub_array by (cases a) auto

lemma json_sub_trans:
  "wf_json x \<Longrightarrow> wf_json y \<Longrightarrow> json_sub x y \<Longrightarrow> json_sub y z \<Longrightarrow> json_sub x z"
proof (induction x arbitrary: y z)
  case (JArr es)
  obtain bs where y: "y = JArr bs" and le: "length es \<le> length bs"
    and eb: "\<And>i. i < length es \<Longrightarrow> json_sub (es ! i) (bs ! i)"
    using JArr.prems(3) by (rule json_sub_arrayE) blast
  obtain cs where z: "z = JArr cs" and le': "length bs \<le> length cs"
    and bc: "\<And>i. i < length bs \<Longrightarrow> json_sub (bs ! i) (cs ! i)"
    using JArr.prems(4) unfolding y by (rule json_sub_arrayE) blast
  have "json_sub (es ! i) (cs ! i)" if "i < length es" for i
  proof (rule JArr.IH)
    show "es ! i \<in> set es" using that by simp
    show "wf_json (es ! i)" using JArr.prems(1) that by (simp add: list_all_length)
    show "wf_json (bs ! i)" using JArr.prems(2) that le by (simp add: y list_all_length)
    show "json_sub (es ! i) (bs ! i)" using that by (rule eb)
    show "json_sub (bs ! i) (cs ! i)" using that le by (intro bc) simp
  qed
  with le le' show ?case by (simp add: z json_sub_array del: json_sub.simps)
next
  case (JObj m)
  have wm: "wf_map m" using JObj.prems(1) by simp
  obtain n where y: "y = JObj n" and mn: "submap_by json_sub m n"
    using JObj.prems(3) wm by (rule json_sub_objectE)
  have wn: "wf_map n" using JObj.prems(2) y by simp
  obtain l where z: "z = JObj l" and nl: "submap_by json_sub n l"
    using JObj.prems(4) wn unfolding y by (rule json_sub_objectE)
  have "\<exists>w. mget l k = Some w \<and> json_sub v w" if k: "mget m k = Some v" for k v
  proof -
    obtain u where u: "mget n k = Some u" "json_sub v u" using mn k by (auto simp: submap_by_def)
    obtain w where w: "mget l k = Some w" "json_sub u w" using nl u(1) by (auto simp: submap_by_def)
    have "wf_json v" by (rule wf_json_member [OF JObj.prems(1) k])
    moreover have "wf_json u" using JObj.prems(2) u(1) unfolding y by (rule wf_json_member)
    ultimately have "json_sub v w"
      using JObj.IH [OF mget_mem [OF k], of v u w] u(2) w(2) by simp
    with w(1) show ?thesis by blast
  qed
  then show ?case
    by (simp add: z json_sub_object [OF wm] submap_by_def del: json_sub.simps)
qed auto

section \<open>The interface of the matcher\<close>

text \<open>
  What a client knows of a subset matcher: the verdict does not depend on the path it reports
  with, a value matches itself, and matching is transitive.
\<close>

locale json_subset =
  fixes sub :: "json \<Rightarrow> json \<Rightarrow> string \<Rightarrow> (string \<times> err) + unit"
  assumes path_free: "is_ok (sub a e p) = is_ok (sub a e q)"
    and sub_refl: "wf_json j \<Longrightarrow> is_ok (sub j j p)"
    and sub_trans: "wf_json x \<Longrightarrow> wf_json y \<Longrightarrow> is_ok (sub y x p) \<Longrightarrow> is_ok (sub z y p) \<Longrightarrow> is_ok (sub z x p)"
begin

text \<open>Weakening an expectation never loses a match.\<close>

lemma weaken: "wf_json x \<Longrightarrow> wf_json y \<Longrightarrow> is_ok (sub y x p) \<Longrightarrow> is_ok (sub z y q) \<Longrightarrow> is_ok (sub z x r)"
  using path_free sub_trans by blast

lemma filter_weaken:
  assumes "wf_json x" "wf_json y" "is_ok (sub y x p)"
  shows "length (filter (\<lambda>z. is_ok (sub z y q)) zs) \<le> length (filter (\<lambda>z. is_ok (sub z x r)) zs)"
  by (induction zs) (auto intro: weaken [OF assms])

end

interpretation js: json_subset subsetMatch
  by unfold_locales (auto simp: subsetMatch_refines json_sub_refl intro: json_sub_trans)

section \<open>Properties\<close>

text \<open>
  C36: the matcher accepts exactly when the expected value is contained in the actual one: an
  object by its keys, whatever their order, an array as a positional prefix, any other value
  when it is equal; the path it was called with plays no part.
\<close>

theorem subsetMatch_correct:
  assumes "wf_json expected"
  shows "is_ok (subsetMatch actual expected path) \<longleftrightarrow>
    (case expected of
       JObj m \<Rightarrow> \<exists>n. actual = JObj n \<and>
         (\<forall>k v. mget m k = Some v \<longrightarrow> (\<exists>w. mget n k = Some w \<and> is_ok (subsetMatch w v path')))
     | JArr es \<Rightarrow> \<exists>as. actual = JArr as \<and> length es \<le> length as \<and>
         (\<forall>i < length es. is_ok (subsetMatch (as ! i) (es ! i) path'))
     | _ \<Rightarrow> actual = expected)"
proof (cases expected)
  case (JObj m)
  then have "wf_map m" using assms by simp
  then show ?thesis
    using json_sub_object [of m]
    by (cases actual) (auto simp: subsetMatch_refines JObj submap_by_def simp del: subsetMatch.simps)
next
  case (JArr es)
  then show ?thesis
    by (cases actual) (auto simp: subsetMatch_refines list_all_length simp del: subsetMatch.simps)
qed (auto simp: subsetMatch_refines simp del: subsetMatch.simps)

theorem subsetMatch_correct_witness:
  "is_ok (subsetMatch (JArr [JNull, JBool True]) (JArr [JNull]) ''$'')"
  using subsetMatch_correct [of "JArr [JNull]" "JArr [JNull, JBool True]" "''$''" "''p''"]
  by (simp add: matchScalar_def)

text \<open>Subset matching is transitive, so an expectation can be weakened step by step.\<close>

theorem subsetMatch_trans:
  assumes "wf_json x" "wf_json y"
    and "is_ok (subsetMatch y x p)" "is_ok (subsetMatch z y q)"
  shows "is_ok (subsetMatch z x r)"
  using assms by (rule js.weaken)

theorem subsetMatch_trans_witness:
  "is_ok (subsetMatch (JArr [JNull, JNull, JNull]) (JArr []) ''$'')"
  by (rule subsetMatch_trans [of "JArr []" "JArr [JNull]" "''p''" "JArr [JNull, JNull, JNull]" "''q''"])
     (simp_all add: matchScalar_def)

end
