(* ===== verification/GoTime.thy ===== *)
theory GoTime
  imports Prelude
begin

text \<open>
  The part of package \<open>time\<close> the repository relies on: the proleptic Gregorian calendar, the
  parser of \<open>time.Parse(time.RFC3339Nano, s)\<close> with the leniencies it has (a one-digit hour, a
  decimal comma, zone offsets up to 24:60) and the layouts it formats with.  An instant is the
  number of nanoseconds since 1970-01-01T00:00:00Z.
\<close>

section \<open>The calendar\<close>

definition is_leap :: "int \<Rightarrow> bool" where
  "is_leap y \<longleftrightarrow> y mod 4 = 0 \<and> (y mod 100 \<noteq> 0 \<or> y mod 400 = 0)"

definition days_in :: "int \<Rightarrow> int \<Rightarrow> int" where
  "days_in m y =
     (if m = 2 then (if is_leap y then 29 else 28)
      else if m = 4 \<or> m = 6 \<or> m = 9 \<or> m = 11 then 30 else 31)"

definition days_from_civil :: "int \<Rightarrow> int \<Rightarrow> int \<Rightarrow> int" where
  "days_from_civil y m d =
     (let y' = (if m \<le> 2 then y - 1 else y);
          m' = (if m \<le> 2 then m + 9 else m - 3);
          yoe = y' mod 400;
          doy = (153 * m' + 2) div 5 + d - 1
      in y' div 400 * 146097 + yoe * 365 + yoe div 4 - yoe div 100 + doy - 719468)"

definition civil_from_days :: "int \<Rightarrow> int \<times> int \<times> int" where
  "civil_from_days n =
     (let z = n + 719468;
          doe = z mod 146097;
          yoe = (doe - doe div 1460 + doe div 36524 - doe div 146096) div 365;
          doy = doe - (365 * yoe + yoe div 4 - yoe div 100);
          mp = (5 * doy + 2) div 153;
          d = doy - (153 * mp + 2) div 5 + 1;
          m = (if mp < 10 then mp + 3 else mp - 9);
          y = yoe + z div 146097 * 400
      in (if m \<le> 2 then y + 1 else y, m, d))"

definition nanos :: int where "nanos = 1000000000"

definition instant :: "int \<Rightarrow> int \<Rightarrow> int \<Rightarrow> int \<Rightarrow> int \<Rightarrow> int \<Rightarrow> int" where
  "instant days h mi s ns off = (days * 86400 + h * 3600 + mi * 60 + s - off) * nanos + ns"

section \<open>Parsing RFC 3339\<close>

text \<open>\<open>getnum\<close>: two digits, or one where the field is not fixed.\<close>

definition getnum :: "bool \<Rightarrow> string \<Rightarrow> (int \<times> string) option" where
  "getnum fixed s =
     (case s of
        a # b # r \<Rightarrow>
          if \<not> is_digit a then None
          else if is_digit b then Some (10 * digit_val a + digit_val b, r)
          else if fixed then None else Some (digit_val a, b # r)
      | [a] \<Rightarrow> if is_digit a \<and> \<not> fixed then Some (digit_val a, []) else None
      | [] \<Rightarrow> None)"

definition get_year :: "string \<Rightarrow> (int \<times> string) option" where
  "get_year s =
     (if length s < 4 \<or> \<not> list_all is_digit (take 4 s) then None
      else Some (digits_val (take 4 s), drop 4 s))"

definition skip_char :: "char \<Rightarrow> string \<Rightarrow> string option" where
  "skip_char c s = (case s of a # r \<Rightarrow> if a = c then Some r else None | [] \<Rightarrow> None)"

definition in_range :: "int \<Rightarrow> int \<Rightarrow> (int \<times> string) option \<Rightarrow> (int \<times> string) option" where
  "in_range lo hi r =
     (case r of None \<Rightarrow> None | Some (n, s) \<Rightarrow> if lo \<le> n \<and> n \<le> hi then Some (n, s) else None)"

text \<open>The optional fraction: at most nine digits count, further digits are skipped.\<close>

definition get_fraction :: "string \<Rightarrow> int \<times> string" where
  "get_fraction s =
     (case s of
        a # b # _ \<Rightarrow>
          if (a = CHR ''.'' \<or> a = CHR '','') \<and> is_digit b then
            (let ds = takeWhile is_digit (tl s); used = take 9 ds
             in (digits_val used * 10 ^ (9 - length used), dropWhile is_digit (tl s)))
          else (0, s)
      | _ \<Rightarrow> (0, s))"

definition get_zone :: "string \<Rightarrow> (int \<times> string) option" where
  "get_zone s =
     (case s of
        c # r \<Rightarrow>
          if c = CHR ''Z'' then Some (0, r)
          else if length s < 6 \<or> s ! 3 \<noteq> CHR '':'' then None
          else (case (in_range 0 24 (getnum True (take 2 r)), in_range 0 60 (getnum True (take 2 (drop 4 s)))) of
                  (Some (h, _), Some (m, _)) \<Rightarrow>
                    if c = CHR ''+'' then Some ((h * 60 + m) * 60, drop 6 s)
                    else if c = CHR ''-'' then Some (- ((h * 60 + m) * 60), drop 6 s)
                    else None
                | _ \<Rightarrow> None)
      | [] \<Rightarrow> None)"

definition parse_rfc3339 :: "string \<Rightarrow> int option" where
  "parse_rfc3339 s0 =
     Option.bind (get_year s0) (\<lambda>(y, s).
     Option.bind (skip_char (CHR ''-'') s) (\<lambda>s.
     Option.bind (in_range 1 12 (getnum True s)) (\<lambda>(mo, s).
     Option.bind (skip_char (CHR ''-'') s) (\<lambda>s.
     Option.bind (getnum True s) (\<lambda>(d, s).
     Option.bind (skip_char (CHR ''T'') s) (\<lambda>s.
     Option.bind (in_range 0 23 (getnum False s)) (\<lambda>(h, s).
     Option.bind (skip_char (CHR '':'') s) (\<lambda>s.
     Option.bind (in_range 0 59 (getnum True s)) (\<lambda>(mi, s).
     Option.bind (skip_char (CHR '':'') s) (\<lambda>s.
     Option.bind (in_range 0 59 (getnum True s)) (\<lambda>(sec, s).
     let (ns, s) = get_fraction s in
     Option.bind (get_zone s) (\<lambda>(off, s).
     if s \<noteq> [] \<or> d < 1 \<or> days_in mo y < d then None
     else Some (instant (days_from_civil y mo d) h mi sec ns off)))))))))))))"

text \<open>\<open>time.Parse("2006-01-02", s)\<close>: year, month, day.\<close>

definition parse_date_only :: "string \<Rightarrow> (int \<times> int \<times> int) option" where
  "parse_date_only s0 =
     Option.bind (get_year s0) (\<lambda>(y, s).
     Option.bind (skip_char (CHR ''-'') s) (\<lambda>s.
     Option.bind (in_range 1 12 (getnum True s)) (\<lambda>(mo, s).
     Option.bind (skip_char (CHR ''-'') s) (\<lambda>s.
     Option.bind (getnum True s) (\<lambda>(d, s).
     if s \<noteq> [] \<or> d < 1 \<or> days_in mo y < d then None else Some (y, mo, d))))))"

lemma parse_examples:
  "parse_rfc3339 ''1970-01-01T00:00:00Z'' = Some 0"
  "parse_rfc3339 ''2026-03-01T03:00:00+06:00'' = parse_rfc3339 ''2026-02-28T21:00:00.000Z''"
  "parse_rfc3339 ''2026-02-29T21:00:00Z'' = None"
  by code_simp+

end
