(* ===== verification/Matchers.thy ===== *)
theory Matchers
  imports JsonSubset GoTime
begin

text \<open>
  The response matchers of \<open>runner.go\<close> (marker objects such as \<open>{"$absent": true}\<close>), partial
  and exact comparison of JSON values, and \<open>expected_json.go\<close>.  The regular expression engine
  is the parameter \<open>rx\<close>: \<open>rx pattern\<close> is \<^const>\<open>None\<close> where \<open>regexp.Compile\<close> fails and
  otherwise the predicate \<open>MatchString\<close>.
\<close>

type_synonym regexps = "string \<Rightarrow> (string \<Rightarrow> bool) option"

section \<open>Marker objects\<close>

definition absentKey :: string where "absentKey = ''$absent''"
definition presentKey :: string where "presentKey = ''$present''"
definition sameInstantKey :: string where "sameInstantKey = ''$same_instant''"
definition rfc3339Key :: string where "rfc3339Key = ''$rfc3339''"
definition matchesKey :: string where "matchesKey = ''$matches''"
definition notEmptyKey :: string where "notEmptyKey = ''$not_empty''"

lemmas key_defs = absentKey_def presentKey_def sameInstantKey_def rfc3339Key_def matchesKey_def
  notEmptyKey_def

record responseValueMatcher =
  matcher_key :: string
  matcher_argument :: json

definition responseValueMatcherFromObject :: "(string \<times> json) list \<Rightarrow> responseValueMatcher option" where
  "responseValueMatcherFromObject expected =
     (case expected of
        [(key, argument)] \<Rightarrow>
          if key \<in> {absentKey, presentKey, sameInstantKey, rfc3339Key, matchesKey, notEmptyKey}
          then Some \<lparr>matcher_key = key, matcher_argument = argument\<rparr> else None
      | _ \<Rightarrow> None)"

definition responseValueMatcherFromValue :: "json \<Rightarrow> responseValueMatcher option" where
  "responseValueMatcherFromValue expected =
     (case expected of JObj m \<Rightarrow> responseValueMatcherFromObject m | _ \<Rightarrow> None)"

definition validateBooleanMatcherArgument :: "string \<Rightarrow> responseValueMatcher \<Rightarrow> unit result" where
  "validateBooleanMatcherArgument path matcher =
     ensure (matcher_argument matcher = JBool True)
       (Errorf ''%s: %s expects true argument, got %v (%T)''
          [AStr path, AStr (matcher_key matcher), AVal (matcher_argument matcher)])"

section \<open>Value matchers\<close>

definition matchSameInstantResponseValue :: "string \<Rightarrow> json \<Rightarrow> json \<Rightarrow> unit result" where
  "matchSameInstantResponseValue path expectedArgument actual =
     (case expectedArgument of
        JStr expectedString \<Rightarrow>
          (case parse_rfc3339 expectedString of
             None \<Rightarrow> Inl (Errorf ''%s: %s expects RFC3339 timestamp argument %q: %w''
                            [AStr path, AStr sameInstantKey, AStr expectedString, AErr (Opaque ''time.Parse'')])
           | Some expectedInstant \<Rightarrow>
               (case actual of
                  JStr actualString \<Rightarrow>
                    (case parse_rfc3339 actualString of
                       None \<Rightarrow> Inl (Errorf ''%s: %s expects actual RFC3339 timestamp %q: %w''
                                 [AStr path, AStr sameInstantKey, AStr actualString, AErr (Opaque ''time.Parse'')])
                     | Some actualInstant \<Rightarrow>
                         ensure (expectedInstant = actualInstant)
                           (Errorf ''%s: %s mismatch: expected %q, actual %q''
                              [AStr path, AStr sameInstantKey, AStr expectedString, AStr actualString]))
                | _ \<Rightarrow> Inl (Errorf ''%s: %s expects actual RFC3339 string, got %v (%T)''
                              [AStr path, AStr sameInstantKey, AVal actual])))
      | _ \<Rightarrow> Inl (Errorf ''%s: %s expects string argument, got %v (%T)''
                    [AStr path, AStr sameInstantKey, AVal expectedArgument]))"

definition matchRFC3339ResponseValue :: "string \<Rightarrow> responseValueMatcher \<Rightarrow> json \<Rightarrow> unit result" where
  "matchRFC3339ResponseValue path matcher actual =
     rbind (validateBooleanMatcherArgument path matcher) (\<lambda>_.
       case actual of
         JStr actualString \<Rightarrow>
           ensure (parse_rfc3339 actualString \<noteq> None)
             (Errorf ''%s: %s expects actual RFC3339 timestamp %q: %w''
                [AStr path, AStr rfc3339Key, AStr actualString, AErr (Opaque ''time.Parse'')])
       | _ \<Rightarrow> Inl (Errorf ''%s: %s expects actual RFC3339 string, got %v (%T)''
                     [AStr path, AStr rfc3339Key, AVal actual]))"

definition matchRegexResponseValue :: "regexps \<Rightarrow> string \<Rightarrow> json \<Rightarrow> json \<Rightarrow> unit result" where
  "matchRegexResponseValue rx path expectedArgument actual =
     (case expectedArgument of
        JStr pattern \<Rightarrow>
          (case rx pattern of
             None \<Rightarrow> Inl (Errorf ''%s: %s expects valid regular expression %q: %w''
                            [AStr path, AStr matchesKey, AStr pattern, AErr (Opaque ''regexp.Compile'')])
           | Some matchString \<Rightarrow>
               (case actual of
                  JStr actualString \<Rightarrow>
                    ensure (matchString actualString)
                      (Errorf ''%s: %s mismatch: pattern %q does not match %q''
                         [AStr path, AStr matchesKey, AStr pattern, AStr actualString])
                | _ \<Rightarrow> Inl (Errorf ''%s: %s expects actual string, got %v (%T)''
                              [AStr path, AStr matchesKey, AVal actual])))
      | _ \<Rightarrow> Inl (Errorf ''%s: %s expects string argument, got %v (%T)''
                    [AStr path, AStr matchesKey, AVal expectedArgument]))"

definition matchNotEmptyResponseValue :: "string \<Rightarrow> responseValueMatcher \<Rightarrow> json \<Rightarrow> unit result" where
  "matchNotEmptyResponseValue path matcher actual =
     rbind (validateBooleanMatcherArgument path matcher) (\<lambda>_.
       let emptyErr = Errorf ''%s: %s mismatch: value is empty'' [AStr path, AStr notEmptyKey] in
       case actual of
         JStr s \<Rightarrow> ensure (s \<noteq> []) emptyErr
       | JArr xs \<Rightarrow> ensure (0 < length xs) emptyErr
       | JObj m \<Rightarrow> ensure (0 < length m) emptyErr
       | _ \<Rightarrow> Inl (Errorf ''%s: %s expects actual string, array, or object, got %v (%T)''
                     [AStr path, AStr notEmptyKey, AVal actual]))"

definition absenceErr :: "string \<Rightarrow> err" where
  "absenceErr path = Errorf ''%s: absence marker can be used only as an object field value'' [AStr path]"

definition presenceErr :: "string \<Rightarrow> err" where
  "presenceErr path = Errorf ''%s: presence marker can be used only as an object field value'' [AStr path]"

definition absencePartialErr :: "string \<Rightarrow> err" where
  "absencePartialErr path = Errorf ''%s: absence marker is supported only in partial response mode'' [AStr path]"

definition matchResponseValueMatcher ::
    "regexps \<Rightarrow> string \<Rightarrow> responseValueMatcher \<Rightarrow> json \<Rightarrow> unit result" where
  "matchResponseValueMatcher rx path matcher actual =
     (let key = matcher_key matcher in
      if key = sameInstantKey then matchSameInstantResponseValue path (matcher_argument matcher) actual
      else if key = rfc3339Key then matchRFC3339ResponseValue path matcher actual
      else if key = matchesKey then matchRegexResponseValue rx path (matcher_argument matcher) actual
      else if key = notEmptyKey then matchNotEmptyResponseValue path matcher actual
      else if key = absentKey then Inl (absenceErr path)
      else if key = presentKey then Inl (presenceErr path)
      else Inl (Errorf ''%s: unsupported response matcher %q'' [AStr path, AStr key]))"

section \<open>Partial comparison\<close>

definition partialResponsePath :: "string \<Rightarrow> string \<Rightarrow> string" where
  "partialResponsePath parentPath fieldName =
     (if parentPath = ''$'' then ''$'' @ ''.'' @ fieldName else parentPath @ ''.'' @ fieldName)"

definition missingResponseFieldError :: "string \<Rightarrow> json \<Rightarrow> err" where
  "missingResponseFieldError path expected =
     Errorf ''%s: missing field: expected %v (%T), actual <missing>'' [AStr path, AVal expected]"

definition objectMismatch :: "string \<Rightarrow> json \<Rightarrow> json \<Rightarrow> err" where
  "objectMismatch path expected actual =
     Errorf ''%s: type mismatch: expected object %v, actual %v (%T)'' [AStr path, AVal expected, AVal actual]"

definition arrayMismatch :: "string \<Rightarrow> json \<Rightarrow> json \<Rightarrow> err" where
  "arrayMismatch path expected actual =
     Errorf ''%s: type mismatch: expected array %v, actual %v (%T)'' [AStr path, AVal expected, AVal actual]"

text \<open>The field of the actual object is \<^const>\<open>None\<close> where the lookup reports \<open>!exists\<close>.\<close>

definition comparePartialResponseMatcherField ::
    "regexps \<Rightarrow> string \<Rightarrow> responseValueMatcher \<Rightarrow> json \<Rightarrow> json option \<Rightarrow> unit result" where
  "comparePartialResponseMatcherField rx path matcher expected actual =
     (if matcher_key matcher = absentKey then
        rbind (validateBooleanMatcherArgument path matcher) (\<lambda>_.
          case actual of
            Some v \<Rightarrow> Inl (Errorf ''%s: field must be absent: found %v (%T)'' [AStr path, AVal v])
          | None \<Rightarrow> Inr ())
      else if matcher_key matcher = presentKey then
        rbind (validateBooleanMatcherArgument path matcher) (\<lambda>_.
          ensure (actual \<noteq> None) (Errorf ''%s: field must be present'' [AStr path]))
      else
        (case actual of
           None \<Rightarrow> Inl (missingResponseFieldError path expected)
         | Some v \<Rightarrow> matchResponseValueMatcher rx path matcher v))"

function (sequential) comparePartialResponseValue :: "regexps \<Rightarrow> string \<Rightarrow> json \<Rightarrow> json \<Rightarrow> unit result"
and comparePartialResponseObject ::
    "regexps \<Rightarrow> string \<Rightarrow> (string \<times> json) list \<Rightarrow> (string \<times> json) list \<Rightarrow> unit result"
and comparePartialResponseObjectField :: "regexps \<Rightarrow> string \<Rightarrow> json \<Rightarrow> json option \<Rightarrow> unit result"
and comparePartialResponseArray :: "regexps \<Rightarrow> string \<Rightarrow> nat \<Rightarrow> json list \<Rightarrow> json list \<Rightarrow> unit result" where
  "comparePartialResponseValue rx path expected actual =
     (case responseValueMatcherFromValue expected of
        Some matcher \<Rightarrow>
          if matcher_key matcher = absentKey then Inl (absenceErr path)
          else if matcher_key matcher = presentKey then Inl (presenceErr path)
          else matchResponseValueMatcher rx path matcher actual
      | None \<Rightarrow>
          (case expected of
             JObj expectedMap \<Rightarrow>
               (case actual of
                  JObj actualMap \<Rightarrow> comparePartialResponseObject rx path expectedMap actualMap
                | _ \<Rightarrow> Inl (objectMismatch path expected actual))
           | JArr expectedItems \<Rightarrow>
               (case actual of
                  JArr actualItems \<Rightarrow>
                    if length expectedItems \<noteq> length actualItems then
                      Inl (Errorf ''%s: array length mismatch: expected %d, actual %d''
                             [AStr path, AInt (int (length expectedItems)), AInt (int (length actualItems))])
                    else comparePartialResponseArray rx path 0 expectedItems actualItems
                | _ \<Rightarrow> Inl (arrayMismatch path expected actual))
           | _ \<Rightarrow>
               ensure (expected = actual)
                 (Errorf ''%s: value mismatch: expected %v (%T), actual %v (%T)''
                    [AStr path, AVal expected, AVal actual])))"
| "comparePartialResponseObject rx path [] actualMap = Inr ()"
| "comparePartialResponseObject rx path ((key, nestedExpected) # rest) actualMap =
     rbind (comparePartialResponseObjectField rx (partialResponsePath path key) nestedExpected
              (mget actualMap key))
       (\<lambda>_. comparePartialResponseObject rx path rest actualMap)"
| "comparePartialResponseObjectField rx path expected actual =
     (case responseValueMatcherFromValue expected of
        Some matcher \<Rightarrow> comparePartialResponseMatcherField rx path matcher expected actual
      | None \<Rightarrow>
          (case actual of
             None \<Rightarrow> Inl (missingResponseFieldError path expected)
           | Some v \<Rightarrow> comparePartialResponseValue rx path expected v))"
| "comparePartialResponseArray rx path index [] actualItems = Inr ()"
| "comparePartialResponseArray rx path index (nestedExpected # rest) actualItems =
     rbind (comparePartialResponseValue rx (index_path path index) nestedExpected (actualItems ! index))
       (\<lambda>_. comparePartialResponseArray rx path (Suc index) rest actualItems)"
  by pat_completeness auto
termination
  by (relation "measure (\<lambda>x. case x of
        Inl (Inl (_, _, e, _)) \<Rightarrow> 2 * size e + 1
      | Inl (Inr (_, _, m, _)) \<Rightarrow> 2 * size_list (size_prod (\<lambda>_. 0) size) m
      | Inr (Inl (_, _, e, _)) \<Rightarrow> 2 * size e + 2
      | Inr (Inr (_, _, _, es, _)) \<Rightarrow> 2 * size_list size es)") simp_all

declare comparePartialResponseValue.simps [simp del] comparePartialResponseObjectField.simps [simp del]

section \<open>Exact comparison with matchers\<close>

function (sequential) responseTemplateContainsSpecialMatcher :: "json \<Rightarrow> bool" where
  "responseTemplateContainsSpecialMatcher expected \<longleftrightarrow>
     responseValueMatcherFromValue expected \<noteq> None \<or>
     (case expected of
        JObj m \<Rightarrow> list_ex (\<lambda>e. responseTemplateContainsSpecialMatcher (snd e)) m
      | JArr js \<Rightarrow> list_ex responseTemplateContainsSpecialMatcher js
      | _ \<Rightarrow> False)"
  by pat_completeness auto
termination
  by (relation "measure size") (auto simp: less_Suc_eq_le intro: size_list_estimation')

declare responseTemplateContainsSpecialMatcher.simps [simp del]

definition materializeMatcherObjectField ::
    "regexps \<Rightarrow> string \<Rightarrow> responseValueMatcher \<Rightarrow> json \<Rightarrow> json option \<Rightarrow> json result" where
  "materializeMatcherObjectField rx path matcher expected actual =
     (if matcher_key matcher = presentKey then
        rbind (validateBooleanMatcherArgument path matcher) (\<lambda>_.
          case actual of
            None \<Rightarrow> Inl (Errorf ''%s: field must be present'' [AStr path])
          | Some v \<Rightarrow> Inr v)
      else if matcher_key matcher = absentKey then Inl (absencePartialErr path)
      else
        (case actual of
           None \<Rightarrow> Inl (missingResponseFieldError path expected)
         | Some v \<Rightarrow> rbind (matchResponseValueMatcher rx path matcher v) (\<lambda>_. Inr v)))"

function (sequential) materializeExpectedMatchers :: "regexps \<Rightarrow> string \<Rightarrow> json \<Rightarrow> json \<Rightarrow> json result"
and materializeExpectedMatchersInObject ::
    "regexps \<Rightarrow> string \<Rightarrow> (string \<times> json) list \<Rightarrow> (string \<times> json) list \<Rightarrow> (string \<times> json) list result"
and materializeExpectedMatchersInObjectField :: "regexps \<Rightarrow> string \<Rightarrow> json \<Rightarrow> json option \<Rightarrow> json result"
and materializeExpectedMatchersInArray ::
    "regexps \<Rightarrow> string \<Rightarrow> json \<Rightarrow> nat \<Rightarrow> json list \<Rightarrow> json \<Rightarrow> json list result" where
  "materializeExpectedMatchers rx path expected actual =
     (case responseValueMatcherFromValue expected of
        Some matcher \<Rightarrow>
          if matcher_key matcher = presentKey then Inl (presenceErr path)
          else if matcher_key matcher = absentKey then Inl (absencePartialErr path)
          else rbind (matchResponseValueMatcher rx path matcher actual) (\<lambda>_. Inr actual)
      | None \<Rightarrow>
          (case expected of
             JObj expectedMap \<Rightarrow>
               (case actual of
                  JObj actualMap \<Rightarrow>
                    rbind (materializeExpectedMatchersInObject rx path expectedMap actualMap)
                      (\<lambda>m. Inr (JObj m))
                | _ \<Rightarrow> Inl (objectMismatch path expected actual))
           | JArr items \<Rightarrow>
               rbind (materializeExpectedMatchersInArray rx path expected 0 items actual)
                 (\<lambda>js. Inr (JArr js))
           | _ \<Rightarrow> Inr expected))"
| "materializeExpectedMatchersInObject rx path [] actualMap = Inr []"
| "materializeExpectedMatchersInObject rx path ((key, nestedExpected) # rest) actualMap =
     rbind (materializeExpectedMatchersInObjectField rx (partialResponsePath path key) nestedExpected
              (mget actualMap key))
       (\<lambda>v. rbind (materializeExpectedMatchersInObject rx path rest actualMap)
         (\<lambda>m. Inr ((key, v) # m)))"
| "materializeExpectedMatchersInObjectField rx path expected actual =
     (case responseValueMatcherFromValue expected of
        Some matcher \<Rightarrow> materializeMatcherObjectField rx path matcher expected actual
      | None \<Rightarrow>
          if \<not> responseTemplateContainsSpecialMatcher expected then Inr expected
          else (case actual of
                  None \<Rightarrow> Inl (missingResponseFieldError path expected)
                | Some v \<Rightarrow> materializeExpectedMatchers rx path expected v))"
| "materializeExpectedMatchersInArray rx path expected index [] actual = Inr []"
| "materializeExpectedMatchersInArray rx path expected index (nestedExpected # rest) actual =
     rbind
       (case responseValueMatcherFromValue nestedExpected of
          Some matcher \<Rightarrow>
            if matcher_key matcher = presentKey then Inl (presenceErr (index_path path index))
            else if matcher_key matcher = absentKey then Inl (absencePartialErr (index_path path index))
            else Inr ()
        | None \<Rightarrow> Inr ())
       (\<lambda>_. rbind
         (if \<not> responseTemplateContainsSpecialMatcher nestedExpected then Inr nestedExpected
          else (case actual of
                  JArr actualItems \<Rightarrow>
                    if length actualItems \<le> index then
                      Inl (Errorf ''%s: array length mismatch: expected at least %d, actual %d''
                             [AStr path, AInt (int index + 1), AInt (int (length actualItems))])
                    else materializeExpectedMatchers rx (index_path path index) nestedExpected
                           (actualItems ! index)
                | _ \<Rightarrow> Inl (arrayMismatch path expected actual)))
         (\<lambda>v. rbind (materializeExpectedMatchersInArray rx path expected (Suc index) rest actual)
           (\<lambda>vs. Inr (v # vs))))"
  by pat_completeness auto
termination
  by (relation "measure (\<lambda>x. case x of
        Inl (Inl (_, _, e, _)) \<Rightarrow> 2 * size e + 1
      | Inl (Inr (_, _, m, _)) \<Rightarrow> 2 * size_list (size_prod (\<lambda>_. 0) size) m
      | Inr (Inl (_, _, e, _)) \<Rightarrow> 2 * size e + 2
      | Inr (Inr (_, _, _, _, es, _)) \<Rightarrow> 2 * size_list size es)") simp_all

declare materializeExpectedMatchers.simps [simp del]
  materializeExpectedMatchersInObjectField.simps [simp del]

section \<open>expected_json.go\<close>

datatype matchMode = MatchModeExact | MatchModePartial | MatchModeOther string

text \<open>
  \<open>DecodeExpectedJSON\<close> and \<open>decodeRawExpectedResponse\<close>: one value, then only white space
  (the second \<open>Decode\<close> must report \<open>io.EOF\<close>).
\<close>

definition decodeRawExpectedResponse :: "string \<Rightarrow> json result" where
  "decodeRawExpectedResponse raw =
     (case json_decode raw of
        Inl e \<Rightarrow> Inl (Opaque ''json.Decode'')
      | Inr (j, rest) \<Rightarrow>
          if json_decode rest = Inl DecEOF then Inr j else Inl (Err ''trailing data''))"

definition decodeExpectedJSON :: "string \<Rightarrow> json result" where
  "decodeExpectedJSON raw = decodeRawExpectedResponse raw"

text \<open>\<open>compareNormalizedResponses\<close> on JSON values, which hold no protobuf message.\<close>

definition compareJSONValues :: "json \<Rightarrow> json \<Rightarrow> bool \<times> err option" where
  "compareJSONValues expected actual =
     (if expected = actual then (True, None)
      else (False, cmp_diff expected actual))"

definition matchExpectedJSONExact :: "regexps \<Rightarrow> json \<Rightarrow> json \<Rightarrow> unit result" where
  "matchExpectedJSONExact rx expected actual =
     rbind (map_err (\<lambda>e. Errorf ''json comparison failed: %w'' [AErr e])
              (materializeExpectedMatchers rx ''$'' expected actual))
       (\<lambda>materializedExpected.
          case compareJSONValues materializedExpected actual of
            (True, _) \<Rightarrow> Inr ()
          | (False, None) \<Rightarrow> Inl (Err ''json mismatch'')
          | (False, Some d) \<Rightarrow> Inl (Errorf ''json mismatch (-want +got):\<newline>%s'' [AErr d]))"

definition matchExpectedJSONPartial :: "regexps \<Rightarrow> json \<Rightarrow> json \<Rightarrow> unit result" where
  "matchExpectedJSONPartial rx expected actual =
     map_err (\<lambda>e. Errorf ''json partial mismatch: %w'' [AErr e])
       (comparePartialResponseValue rx ''$'' expected actual)"

definition matchExpectedJSON :: "regexps \<Rightarrow> json \<Rightarrow> json \<Rightarrow> matchMode \<Rightarrow> unit result" where
  "matchExpectedJSON rx expected actual mode =
     (case mode of
        MatchModeExact \<Rightarrow> matchExpectedJSONExact rx expected actual
      | MatchModePartial \<Rightarrow> matchExpectedJSONPartial rx expected actual
      | MatchModeOther m \<Rightarrow> Inl (Errorf ''unsupported match mode %q'' [AStr m]))"

section \<open>What partial comparison decides\<close>

text \<open>The declarative reading of the four value matchers and of the two field markers.\<close>

definition marker_holds :: "regexps \<Rightarrow> responseValueMatcher \<Rightarrow> json \<Rightarrow> bool" where
  "marker_holds rx mt a \<longleftrightarrow>
     (let key = matcher_key mt; arg = matcher_argument mt in
      (key = sameInstantKey \<and> (\<exists>s t i. arg = JStr s \<and> a = JStr t \<and> parse_rfc3339 s = Some i \<and> parse_rfc3339 t = Some i)) \<or>
      (key = rfc3339Key \<and> arg = JBool True \<and> (\<exists>t i. a = JStr t \<and> parse_rfc3339 t = Some i)) \<or>
      (key = matchesKey \<and> (\<exists>p f t. arg = JStr p \<and> a = JStr t \<and> rx p = Some f \<and> f t)) \<or>
      (key = notEmptyKey \<and> arg = JBool True \<and>
         (\<exists>s. a = JStr s \<and> s \<noteq> [] \<or> (\<exists>xs. a = JArr xs \<and> xs \<noteq> []) \<or> (\<exists>m. a = JObj m \<and> m \<noteq> []))))"

lemma key_neq [simp]:
  "absentKey \<noteq> presentKey" "absentKey \<noteq> sameInstantKey" "absentKey \<noteq> rfc3339Key"
  "absentKey \<noteq> matchesKey" "absentKey \<noteq> notEmptyKey" "presentKey \<noteq> absentKey"
  "presentKey \<noteq> sameInstantKey" "presentKey \<noteq> rfc3339Key" "presentKey \<noteq> matchesKey"
  "presentKey \<noteq> notEmptyKey" "sameInstantKey \<noteq> rfc3339Key" "sameInstantKey \<noteq> matchesKey"
  "sameInstantKey \<noteq> notEmptyKey" "rfc3339Key \<noteq> sameInstantKey" "rfc3339Key \<noteq> matchesKey"
  "rfc3339Key \<noteq> notEmptyKey" "matchesKey \<noteq> sameInstantKey" "matchesKey \<noteq> rfc3339Key"
  "matchesKey \<noteq> notEmptyKey" "notEmptyKey \<noteq> sameInstantKey" "notEmptyKey \<noteq> rfc3339Key"
  "notEmptyKey \<noteq> matchesKey"
  by (simp_all add: key_defs)

lemma sameInstant_ok:
  "is_ok (matchSameInstantResponseValue path arg a) \<longleftrightarrow>
     (\<exists>s t i. arg = JStr s \<and> a = JStr t \<and> parse_rfc3339 s = Some i \<and> parse_rfc3339 t = Some i)"
  unfolding matchSameInstantResponseValue_def by (cases arg; cases a) (auto split: option.splits)

lemma validate_ok: "validateBooleanMatcherArgument path mt = Inr u \<longleftrightarrow> matcher_argument mt = JBool True"
  by (simp add: validateBooleanMatcherArgument_def)

lemma rfc3339_ok:
  "is_ok (matchRFC3339ResponseValue path mt a) \<longleftrightarrow>
     matcher_argument mt = JBool True \<and> (\<exists>t i. a = JStr t \<and> parse_rfc3339 t = Some i)"
  unfolding matchRFC3339ResponseValue_def by (cases a) (auto simp: validate_ok)

lemma regex_ok:
  "is_ok (matchRegexResponseValue rx path arg a) \<longleftrightarrow>
     (\<exists>p f t. arg = JStr p \<and> a = JStr t \<and> rx p = Some f \<and> f t)"
  unfolding matchRegexResponseValue_def by (cases arg; cases a) (auto split: option.splits)

lemma notEmpty_ok:
  "is_ok (matchNotEmptyResponseValue path mt a) \<longleftrightarrow>
     matcher_argument mt = JBool True \<and>
     (\<exists>s. a = JStr s \<and> s \<noteq> [] \<or> (\<exists>xs. a = JArr xs \<and> xs \<noteq> []) \<or> (\<exists>m. a = JObj m \<and> m \<noteq> []))"
  unfolding matchNotEmptyResponseValue_def by (cases a) (auto simp: validate_ok)

lemma marker_ok: "is_ok (matchResponseValueMatcher rx path mt a) \<longleftrightarrow> marker_holds rx mt a"
  unfolding matchResponseValueMatcher_def marker_holds_def Let_def
  by (simp add: sameInstant_ok rfc3339_ok regex_ok notEmpty_ok)

lemma marker_Inr: "matchResponseValueMatcher rx path mt a = Inr u \<longleftrightarrow> marker_holds rx mt a"
  using marker_ok [of rx path mt a] by (auto simp: is_ok_iff)

definition field_marker_holds :: "regexps \<Rightarrow> responseValueMatcher \<Rightarrow> json option \<Rightarrow> bool" where
  "field_marker_holds rx mt a \<longleftrightarrow>
     (if matcher_key mt = absentKey then matcher_argument mt = JBool True \<and> a = None
      else if matcher_key mt = presentKey then matcher_argument mt = JBool True \<and> a \<noteq> None
      else (\<exists>v. a = Some v \<and> marker_holds rx mt v))"

lemma field_marker_ok:
  "is_ok (comparePartialResponseMatcherField rx path mt e a) \<longleftrightarrow> field_marker_holds rx mt a"
  unfolding comparePartialResponseMatcherField_def field_marker_holds_def
  by (cases a) (simp_all add: validate_ok marker_ok)

text \<open>
  The relation of a partial expectation and a response: markers as above; objects by the keys
  of the expectation; arrays of equal length, position by position; scalars by equality.
\<close>

inductive partial_sat :: "regexps \<Rightarrow> json \<Rightarrow> json \<Rightarrow> bool" for rx where
  sat_marker: "responseValueMatcherFromValue e = Some mt \<Longrightarrow> marker_holds rx mt a \<Longrightarrow> partial_sat rx e a"
| sat_object: "responseValueMatcherFromValue (JObj m) = None \<Longrightarrow>
    \<forall>(k, e) \<in> set m. case responseValueMatcherFromValue e of
        Some mt \<Rightarrow> field_marker_holds rx mt (mget n k)
      | None \<Rightarrow> (\<exists>v. mget n k = Some v \<and> partial_sat rx e v) \<Longrightarrow>
    partial_sat rx (JObj m) (JObj n)"
| sat_array: "list_all2 (partial_sat rx) es as \<Longrightarrow> partial_sat rx (JArr es) (JArr as)"
| sat_scalar: "(\<forall>m. e \<noteq> JObj m) \<Longrightarrow> (\<forall>es. e \<noteq> JArr es) \<Longrightarrow> partial_sat rx e e"
monos option.case_eq_if

inductive_cases sat_objectE: "partial_sat rx (JObj m) a"
inductive_cases sat_arrayE: "partial_sat rx (JArr es) a"
inductive_simps sat_null: "partial_sat rx JNull a"
inductive_simps sat_bool: "partial_sat rx (JBool b) a"
inductive_simps sat_num: "partial_sat rx (JNum l) a"
inductive_simps sat_str: "partial_sat rx (JStr s) a"

lemma no_marker [simp]:
  "responseValueMatcherFromValue JNull = None" "responseValueMatcherFromValue (JBool b) = None"
  "responseValueMatcherFromValue (JNum l) = None" "responseValueMatcherFromValue (JStr s) = None"
  "responseValueMatcherFromValue (JArr js) = None"
  by (simp_all add: responseValueMatcherFromValue_def)

lemma marker_not_field: "marker_holds rx mt a \<Longrightarrow> matcher_key mt \<noteq> absentKey \<and> matcher_key mt \<noteq> presentKey"
  by (auto simp: marker_holds_def Let_def)

lemma marked_ok:
  assumes "responseValueMatcherFromValue e = Some mt"
  shows "is_ok (comparePartialResponseValue rx path e a) \<longleftrightarrow> marker_holds rx mt a"
  using marker_not_field [of rx mt a] assms
  by (subst comparePartialResponseValue.simps) (auto simp: marker_ok)

lemma marked_sat:
  assumes "responseValueMatcherFromValue e = Some mt"
  shows "partial_sat rx e a \<longleftrightarrow> marker_holds rx mt a"
  using assms by (cases e) (auto elim: sat_objectE intro: sat_marker)

definition field_sat :: "regexps \<Rightarrow> json \<Rightarrow> json option \<Rightarrow> bool" where
  "field_sat rx e v \<longleftrightarrow>
     (case responseValueMatcherFromValue e of
        Some mt \<Rightarrow> field_marker_holds rx mt v
      | None \<Rightarrow> (\<exists>w. v = Some w \<and> partial_sat rx e w))"

lemma object_sat:
  assumes "responseValueMatcherFromValue (JObj m) = None"
  shows "partial_sat rx (JObj m) a \<longleftrightarrow>
    (\<exists>n. a = JObj n \<and> (\<forall>(k, e) \<in> set m. field_sat rx e (mget n k)))"
  using assms unfolding field_sat_def by (auto elim!: sat_objectE intro: sat_object)

lemma array_sat: "partial_sat rx (JArr es) a \<longleftrightarrow> (\<exists>as. a = JArr as \<and> list_all2 (partial_sat rx) es as)"
  by (auto elim!: sat_arrayE intro: sat_array)

lemma compare_array_ok:
  assumes "\<And>e a path. e \<in> set es \<Longrightarrow> is_ok (comparePartialResponseValue rx path e a) = partial_sat rx e a"
    and "length es = length as"
  shows "is_ok (comparePartialResponseArray rx path (length bs) es (bs @ as)) =
    list_all2 (partial_sat rx) es as"
  using assms
proof (induction es arbitrary: bs as)
  case Nil
  then show ?case by simp
next
  case (Cons e es)
  then obtain b as' where as: "as = b # as'" by (cases as) auto
  have "is_ok (comparePartialResponseArray rx path (length (bs @ [b])) es ((bs @ [b]) @ as')) =
      list_all2 (partial_sat rx) es as'"
    using Cons as by (intro Cons.IH) auto
  then show ?case
    using Cons.prems(1) [of e "index_path path (length bs)" b] by (auto simp: as is_ok_iff)
qed

lemma compare_field_ok:
  assumes "\<And>a path. is_ok (comparePartialResponseValue rx path e a) = partial_sat rx e a"
  shows "is_ok (comparePartialResponseObjectField rx path e v) = field_sat rx e v"
  unfolding comparePartialResponseObjectField.simps field_sat_def
  by (cases v) (auto simp: assms field_marker_ok split: option.splits)

lemma compare_object_ok:
  assumes "\<And>e a path. e \<in> snd ` set m \<Longrightarrow> is_ok (comparePartialResponseValue rx path e a) = partial_sat rx e a"
  shows "is_ok (comparePartialResponseObject rx path m n) = (\<forall>(k, e) \<in> set m. field_sat rx e (mget n k))"
  using assms
proof (induction m)
  case Nil
  then show ?case by simp
next
  case (Cons kv m)
  obtain k e where kv: "kv = (k, e)" by (cases kv)
  show ?case
    using Cons.IH Cons.prems compare_field_ok [of rx e "partialResponsePath path k" "mget n k"]
    by (auto simp: kv is_ok_iff)
qed

theorem partial_refines: "is_ok (comparePartialResponseValue rx path e a) \<longleftrightarrow> partial_sat rx e a"
proof (induction e arbitrary: a path)
  case (JArr es)
  then show ?case
    using compare_array_ok [of es rx _ path "[]"]
    by (subst comparePartialResponseValue.simps)
       (auto simp: array_sat dest: list_all2_lengthD split: json.splits)
next
  case (JObj m)
  have ih: "is_ok (comparePartialResponseValue rx path e a) = partial_sat rx e a" if "e \<in> snd ` set m" for e a path
    using that JObj by (auto simp: snds.simps)
  show ?case
  proof (cases "responseValueMatcherFromValue (JObj m)")
    case None
    then show ?thesis
      using compare_object_ok [of m rx path, OF ih]
      by (subst comparePartialResponseValue.simps) (auto simp: object_sat split: json.splits)
  next
    case (Some mt)
    then show ?thesis by (simp add: marked_ok marked_sat)
  qed
qed (subst comparePartialResponseValue.simps; auto simp: sat_null sat_bool sat_num sat_str)+

lemma partial_Inr: "comparePartialResponseValue rx path e a = Inr () \<longleftrightarrow> partial_sat rx e a"
  using partial_refines [of rx path e a] by (auto simp: is_ok_iff)

section \<open>Exact against partial\<close>

abbreviation "has_marker \<equiv> responseTemplateContainsSpecialMatcher"

lemma free_marker: "\<not> has_marker e \<Longrightarrow> responseValueMatcherFromValue e = None"
  by (subst (asm) responseTemplateContainsSpecialMatcher.simps) simp

lemma free_object: "\<not> has_marker (JObj m) \<Longrightarrow> (k, v) \<in> set m \<Longrightarrow> \<not> has_marker v"
  by (subst (asm) responseTemplateContainsSpecialMatcher.simps) (force simp: list_ex_iff)

lemma free_array: "\<not> has_marker (JArr es) \<Longrightarrow> e \<in> set es \<Longrightarrow> \<not> has_marker e"
  by (subst (asm) responseTemplateContainsSpecialMatcher.simps) (auto simp: list_ex_iff)

lemma free_sat_refl: "wf_json e \<Longrightarrow> \<not> has_marker e \<Longrightarrow> partial_sat rx e e"
proof (induction e)
  case (JArr es)
  then show ?case
    by (auto simp: array_sat list_all2_same list_all_iff dest: free_array)
next
  case (JObj m)
  have "field_sat rx e (mget m k)" if "(k, e) \<in> set m" for k e
  proof -
    have "\<not> has_marker e" using JObj.prems(2) that by (rule free_object)
    moreover have "mget m k = Some e" using JObj.prems(1) that by (simp add: mget_Some_iff)
    moreover have "wf_json e" using JObj.prems(1) that by (auto simp: list_all_iff)
    ultimately show ?thesis
      using JObj.IH [OF that, of e] by (simp add: field_sat_def free_marker)
  qed
  then show ?case by (auto simp: object_sat [OF free_marker [OF JObj.prems(2)]])
qed (auto intro: sat_scalar)

lemma materialize_field_free:
  "\<not> has_marker e \<Longrightarrow> materializeExpectedMatchersInObjectField rx path e v = Inr e"
  by (simp add: materializeExpectedMatchersInObjectField.simps free_marker)

lemma materialize_object_free:
  "\<forall>e \<in> set m. \<not> has_marker (snd e) \<Longrightarrow> materializeExpectedMatchersInObject rx path m n = Inr m"
  by (induction m) (auto simp: materialize_field_free)

lemma materialize_array_free:
  "(\<And>e. e \<in> set es \<Longrightarrow> \<not> has_marker e) \<Longrightarrow> materializeExpectedMatchersInArray rx path p i es a = Inr es"
  by (induction es arbitrary: i) (auto simp: free_marker)

lemma materialize_free:
  assumes "\<not> has_marker e"
  shows "materializeExpectedMatchers rx path e a =
    (case (e, a) of (JObj m, JObj n) \<Rightarrow> Inr e | (JObj m, _) \<Rightarrow> Inl (objectMismatch path e a) | _ \<Rightarrow> Inr e)"
proof (cases e)
  case (JObj m)
  then show ?thesis
    using assms by (subst materializeExpectedMatchers.simps)
      (auto simp: free_marker intro!: materialize_object_free dest: free_object split: json.splits)
next
  case (JArr es)
  then show ?thesis
    using assms by (subst materializeExpectedMatchers.simps)
      (auto intro!: materialize_array_free dest: free_array)
qed (subst materializeExpectedMatchers.simps; simp)+

lemma materialize_object_pointwise:
  "materializeExpectedMatchersInObject rx path m n = Inr l \<Longrightarrow> (k, e) \<in> set m \<Longrightarrow>
     \<exists>v. (k, v) \<in> set l \<and>
       materializeExpectedMatchersInObjectField rx (partialResponsePath path k) e (mget n k) = Inr v"
  by (induction m arbitrary: l) auto

lemma materialize_array_pointwise:
  "materializeExpectedMatchersInArray rx path p i es (JArr items) = Inr vs \<Longrightarrow>
     length vs = length es \<and> (\<forall>k < length es. (\<not> has_marker (es ! k) \<and> vs ! k = es ! k) \<or>
       (\<exists>q. materializeExpectedMatchers rx q (es ! k) (items ! (i + k)) = Inr (vs ! k)))"
proof (induction es arbitrary: i vs)
  case Nil
  then show ?case by simp
next
  case (Cons e es)
  obtain v vs' where vs: "vs = v # vs'"
    and v: "\<not> has_marker e \<and> v = e \<or> (\<exists>q. materializeExpectedMatchers rx q e (items ! i) = Inr v)"
    and rest: "materializeExpectedMatchersInArray rx path p (Suc i) es (JArr items) = Inr vs'"
    using Cons.prems by (auto split: if_splits)
  show ?case
    using Cons.IH [OF rest] v by (auto simp: vs All_less_Suc2)
qed

theorem materialize_sat:
  "wf_json e \<Longrightarrow> wf_json a \<Longrightarrow> materializeExpectedMatchers rx path e a = Inr a \<Longrightarrow> partial_sat rx e a"
proof (induction e arbitrary: a path)
  case (JArr es)
  obtain as where a: "a = JArr as"
    and mat: "materializeExpectedMatchersInArray rx path (JArr es) 0 es (JArr as) = Inr as"
    using JArr.prems(3) by (subst (asm) materializeExpectedMatchers.simps) auto
  have "partial_sat rx (es ! k) (as ! k)" if "k < length es" for k
    using materialize_array_pointwise [OF mat] that JArr.prems(1,2) JArr.IH [of "es ! k" "as ! k"]
    by (auto simp: a list_all_length free_sat_refl)
  then show ?case
    using materialize_array_pointwise [OF mat] by (simp add: a array_sat list_all2_conv_all_nth)
next
  case (JObj m)
  show ?case
  proof (cases "responseValueMatcherFromValue (JObj m)")
    case (Some mt)
    then show ?thesis
      using JObj.prems(3) by (subst (asm) materializeExpectedMatchers.simps)
        (auto simp: marked_sat marker_Inr split: if_splits)
  next
    case None
    obtain n where a: "a = JObj n" and mat: "materializeExpectedMatchersInObject rx path m n = Inr n"
      using JObj.prems(3) None by (subst (asm) materializeExpectedMatchers.simps)
        (auto split: json.splits)
    have "field_sat rx e (mget n k)" if "(k, e) \<in> set m" for k e
    proof -
      obtain v where v: "(k, v) \<in> set n"
        "materializeExpectedMatchersInObjectField rx (partialResponsePath path k) e (mget n k) = Inr v"
        using materialize_object_pointwise [OF mat \<open>(k, e) \<in> set m\<close>] by blast
      have nk: "mget n k = Some v" using JObj.prems(2) v(1) by (simp add: a mget_Some_iff)
      have "wf_json e" "wf_json v" using JObj.prems(1,2) that v(1) by (auto simp: a list_all_iff)
      then show ?thesis
        using v(2) JObj.IH [OF that, of e v] 
        by (auto simp: nk field_sat_def field_marker_holds_def free_sat_refl marker_Inr validate_ok
          materializeExpectedMatchersInObjectField.simps materializeMatcherObjectField_def
          split: option.splits if_splits)
    qed
    then show ?thesis by (auto simp: a object_sat [OF None])
  qed
qed (auto simp: materialize_free responseTemplateContainsSpecialMatcher.simps intro: sat_scalar)

section \<open>The entry points\<close>

lemma exact_Inr:
  "matchExpectedJSONExact rx e a = Inr () \<longleftrightarrow> materializeExpectedMatchers rx ''$'' e a = Inr a"
  by (auto simp: matchExpectedJSONExact_def compareJSONValues_def cmp_diff_def split: option.splits)

lemma partial_mode_Inr: "matchExpectedJSONPartial rx e a = Inr () \<longleftrightarrow> partial_sat rx e a"
  by (simp add: matchExpectedJSONPartial_def partial_Inr)

lemma exact_free: "\<not> has_marker e \<Longrightarrow> matchExpectedJSONExact rx e a = Inr () \<longleftrightarrow> a = e"
  by (auto simp: exact_Inr materialize_free split: json.splits)

lemma exact_partial:
  "wf_json e \<Longrightarrow> wf_json a \<Longrightarrow> matchExpectedJSONExact rx e a = Inr () \<Longrightarrow>
     matchExpectedJSONPartial rx e a = Inr ()"
  unfolding exact_Inr partial_mode_Inr by (rule materialize_sat)

lemma decode_Nil: "json_decode [] = Inl DecEOF"
  by (simp add: json_decode_def skip_space_def)

lemma decode_expected:
  "portable j \<Longrightarrow> decodeExpectedJSON (json_enc j) = Inr j"
  by (simp add: decodeExpectedJSON_def decodeRawExpectedResponse_def json_roundtrip decode_Nil)

section \<open>Properties\<close>

text \<open>
  C1: partial comparison accepts exactly the responses related by \<^const>\<open>partial_sat\<close>: markers
  hold, objects carry the expected fields, arrays agree in length and position by position,
  scalars are equal.
\<close>

theorem partial_match_correct:
  "matchExpectedJSON rx expected actual MatchModePartial = Inr () \<longleftrightarrow> partial_sat rx expected actual"
  by (simp add: matchExpectedJSON_def partial_mode_Inr)

text \<open>C19: a response that matches an expectation exactly matches it partially as well.\<close>

theorem exact_implies_partial:
  assumes "wf_json expected" "wf_json actual"
    and "matchExpectedJSON rx expected actual MatchModeExact = Inr ()"
  shows "matchExpectedJSON rx expected actual MatchModePartial = Inr ()"
  using assms exact_partial by (simp add: matchExpectedJSON_def)

definition marked_object :: json where
  "marked_object = JObj [(''a'', JNum ''1''), (''id'', JObj [(''$not_empty'', JBool True)])]"

theorem exact_implies_partial_witness:
  "matchExpectedJSON (\<lambda>_. None) marked_object (JObj [(''a'', JNum ''1''), (''id'', JStr ''x'')]) MatchModePartial = Inr ()"
proof (rule exact_implies_partial)
  show "wf_json marked_object" "wf_json (JObj [(''a'', JNum ''1''), (''id'', JStr ''x'')])"
    by (simp_all add: marked_object_def)
  show "matchExpectedJSON (\<lambda>_. None) marked_object (JObj [(''a'', JNum ''1''), (''id'', JStr ''x'')]) MatchModeExact = Inr ()"
    by code_simp
qed

text \<open>Without markers the exact mode accepts the expected value and nothing else.\<close>

theorem exact_without_markers:
  assumes "\<not> responseTemplateContainsSpecialMatcher expected"
  shows "matchExpectedJSON rx expected actual MatchModeExact = Inr () \<longleftrightarrow> actual = expected"
  using exact_free [OF assms] by (simp add: matchExpectedJSON_def)

theorem exact_without_markers_witness:
  "matchExpectedJSON (\<lambda>_. None) (JArr [JNull]) (JArr [JNull]) MatchModeExact = Inr ()"
proof -
  have "\<not> responseTemplateContainsSpecialMatcher (JArr [JNull])" by code_simp
  then show ?thesis by (simp add: exact_without_markers)
qed

end
