(* ===== verification/Probe.thy ===== *)
theory Probe
  imports JsonSubset
begin

text \<open>
  Package \<open>queue/probe\<close>: the contract an outgoing message is checked against, its
  normalisation, the comparison of one message, and the verdicts of the await and verify
  steps.  A nil and an empty map, slice or raw message are the same value of the model; a
  reason is \<^const>\<open>None\<close> where the code has the empty string.
\<close>

section \<open>models.go\<close>

definition HeadersModeExact :: string where "HeadersModeExact = ''exact''"
definition HeadersModeSubset :: string where "HeadersModeSubset = ''subset''"
definition OrderingStrict :: string where "OrderingStrict = ''strict''"
definition OrderingAny :: string where "OrderingAny = ''any''"

lemmas mode_defs = HeadersModeExact_def HeadersModeSubset_def OrderingStrict_def OrderingAny_def

lemma mode_neq [simp]:
  "HeadersModeExact \<noteq> HeadersModeSubset" "HeadersModeSubset \<noteq> HeadersModeExact"
  "OrderingStrict \<noteq> OrderingAny" "OrderingAny \<noteq> OrderingStrict"
  "HeadersModeExact \<noteq> []" "HeadersModeSubset \<noteq> []" "OrderingStrict \<noteq> []" "OrderingAny \<noteq> []"
  by (simp_all add: mode_defs)

record queue_message =
  msg_topic :: string
  msg_key :: "string option"
  msg_headers :: "string gomap"
  msg_payload :: string
  msg_offset :: int

record outbound_expectation =
  oe_topic :: string
  oe_key :: "string option"
  oe_headers :: "string gomap"
  oe_headersMode :: string
  oe_expectedCount :: int
  oe_payload :: string
  oe_payloadSubset :: string
  oe_ordering :: string

record check_result =
  cr_matchedCount :: int
  cr_observed :: "queue_message list"
  cr_lastMismatchReason :: "err option"

definition zero_result :: check_result where
  "zero_result = \<lparr>cr_matchedCount = 0, cr_observed = [], cr_lastMismatchReason = None\<rparr>"

section \<open>Normalisation\<close>

definition cloneHeaders :: "string gomap \<Rightarrow> string gomap" where
  "cloneHeaders headers = (if length headers = 0 then [] else mcopy [] headers)"

definition cloneRawMessage :: "string \<Rightarrow> string" where
  "cloneRawMessage raw = (if length raw = 0 then [] else raw)"

definition cloneOptionalString :: "string option \<Rightarrow> string option" where
  "cloneOptionalString value = (case value of None \<Rightarrow> None | Some cloned \<Rightarrow> Some cloned)"

definition cloneExpectation :: "outbound_expectation \<Rightarrow> outbound_expectation" where
  "cloneExpectation e = \<lparr>
     oe_topic = trim_space (oe_topic e),
     oe_key = cloneOptionalString (oe_key e),
     oe_headers = cloneHeaders (oe_headers e),
     oe_headersMode = oe_headersMode e,
     oe_expectedCount = oe_expectedCount e,
     oe_payload = cloneRawMessage (oe_payload e),
     oe_payloadSubset = cloneRawMessage (oe_payloadSubset e),
     oe_ordering = oe_ordering e\<rparr>"

definition hasRawJSON :: "string \<Rightarrow> bool" where
  "hasRawJSON raw \<longleftrightarrow> 0 < length (trim_space raw)"

definition decodeStrictJSONAny :: "string \<Rightarrow> json result" where
  "decodeStrictJSONAny raw =
     (if length (trim_space raw) = 0 then Inl (Err ''json payload is empty'')
      else case json_decode raw of
        Inl e \<Rightarrow> Inl (Errorf ''decode json: %w'' [AErr (Opaque ''json.Decode'')])
      | Inr (decoded, rest) \<Rightarrow>
          (case json_decode rest of
             Inr _ \<Rightarrow> Inl (Err ''decode json: trailing data'')
           | Inl e \<Rightarrow>
               if e \<noteq> DecEOF then Inl (Errorf ''decode json: trailing data: %w'' [AErr (Opaque ''json.Decode'')])
               else Inr decoded))"

definition validateExpectationTopic :: "string \<Rightarrow> unit result" where
  "validateExpectationTopic topic = ensure (topic \<noteq> []) (Err ''field topic is required'')"

definition validateExpectationCount :: "int \<Rightarrow> unit result" where
  "validateExpectationCount expectedCount =
     ensure (\<not> expectedCount < 0) (Err ''field expected_count must be >= 0'')"

definition applyExpectationDefaults :: "outbound_expectation \<Rightarrow> outbound_expectation result" where
  "applyExpectationDefaults e0 =
     (let e1 = (if oe_headersMode e0 = [] then e0\<lparr>oe_headersMode := HeadersModeExact\<rparr> else e0) in
      if oe_headersMode e1 \<noteq> HeadersModeExact \<and> oe_headersMode e1 \<noteq> HeadersModeSubset then
        Inl (Errorf ''field headers_mode has unsupported value %q; allowed values: exact, subset''
               [AStr (oe_headersMode e1)])
      else let e2 = (if oe_ordering e1 = [] then e1\<lparr>oe_ordering := OrderingAny\<rparr> else e1) in
      if oe_ordering e2 \<noteq> OrderingStrict \<and> oe_ordering e2 \<noteq> OrderingAny then
        Inl (Errorf ''field ordering has unsupported value %q; allowed values: strict, any''
               [AStr (oe_ordering e2)])
      else Inr e2)"

definition validateExpectationPayload :: "string \<Rightarrow> string \<Rightarrow> unit result" where
  "validateExpectationPayload payload fieldName =
     (if \<not> hasRawJSON payload then Inr ()
      else case decodeStrictJSONAny payload of
        Inl e \<Rightarrow> Inl (Errorf ''field %s: %w'' [AStr fieldName, AErr e])
      | Inr _ \<Rightarrow> Inr ())"

definition validateExpectationPayloadSubset :: "string \<Rightarrow> unit result" where
  "validateExpectationPayloadSubset payloadSubset =
     (if \<not> hasRawJSON payloadSubset then Inr ()
      else case decodeStrictJSONAny payloadSubset of
        Inl e \<Rightarrow> Inl (Errorf ''field payload_subset: %w'' [AErr e])
      | Inr (JObj _) \<Rightarrow> Inr ()
      | Inr _ \<Rightarrow> Inl (Err ''field payload_subset must be a JSON object''))"

definition validateExpectationPayloads :: "outbound_expectation \<Rightarrow> unit result" where
  "validateExpectationPayloads e =
     (let hasPayload = hasRawJSON (oe_payload e);
          hasPayloadSubset = hasRawJSON (oe_payloadSubset e)
      in if oe_expectedCount e = 0 then
           ensure (\<not> (hasPayload \<or> hasPayloadSubset))
             (Err ''fields payload and payload_subset are forbidden when expected_count=0'')
         else if hasPayload = hasPayloadSubset then
           Inl (Err ''exactly one of fields payload and payload_subset must be set when expected_count>0'')
         else rbind (validateExpectationPayload (oe_payload e) ''payload'')
                (\<lambda>_. validateExpectationPayloadSubset (oe_payloadSubset e)))"

definition NormalizeExpectation :: "outbound_expectation \<Rightarrow> outbound_expectation result" where
  "NormalizeExpectation e =
     (let cloned = cloneExpectation e in
      rbind (validateExpectationTopic (oe_topic cloned)) (\<lambda>_.
      rbind (validateExpectationCount (oe_expectedCount cloned)) (\<lambda>_.
      rbind (applyExpectationDefaults cloned) (\<lambda>normalized.
      rbind (validateExpectationPayloads normalized) (\<lambda>_.
      Inr normalized)))))"

section \<open>One message\<close>

text \<open>A comparison that returned without an error: whether it matched, and the reason.\<close>

type_synonym verdict = "bool \<times> err option"

fun matchesHeaderEntries :: "string gomap \<Rightarrow> (string \<times> string) list \<Rightarrow> verdict" where
  "matchesHeaderEntries actual [] = (True, None)"
| "matchesHeaderEntries actual ((key, expectedValue) # rest) =
     (case mget actual key of
        None \<Rightarrow> (False, Some (Errorf ''headers mismatch: missing key %q'' [AStr key]))
      | Some actualValue \<Rightarrow>
          if actualValue \<noteq> expectedValue then
            (False, Some (Errorf ''headers mismatch for key %q: expected %q, got %q''
                            [AStr key, AStr expectedValue, AStr actualValue]))
          else matchesHeaderEntries actual rest)"

definition matchesHeaders :: "string gomap \<Rightarrow> string gomap \<Rightarrow> string \<Rightarrow> verdict" where
  "matchesHeaders actual expected mode =
     (if mode = HeadersModeExact \<and> length actual \<noteq> length expected then
        (False, Some (Errorf ''headers mismatch: expected %d headers, got %d''
                        [AInt (int (length expected)), AInt (int (length actual))]))
      else matchesHeaderEntries actual expected)"

definition matchesPayloadExact :: "string \<Rightarrow> string \<Rightarrow> verdict result" where
  "matchesPayloadExact actualRaw expectedRaw =
     rbind (map_err (\<lambda>e. Errorf ''decode actual payload: %w'' [AErr e]) (decodeStrictJSONAny actualRaw)) (\<lambda>actual.
     rbind (map_err (\<lambda>e. Errorf ''decode expected payload: %w'' [AErr e]) (decodeStrictJSONAny expectedRaw)) (\<lambda>expected.
       if actual = expected then Inr (True, None)
       else case cmp_diff expected actual of
         None \<Rightarrow> Inr (False, Some (Err ''payload mismatch''))
       | Some diff \<Rightarrow> Inr (False, Some (Errorf ''payload mismatch (-want +got):\<newline>%s'' [AErr diff]))))"

definition matchesPayloadSubset :: "string \<Rightarrow> string \<Rightarrow> verdict result" where
  "matchesPayloadSubset actualRaw subsetRaw =
     rbind (map_err (\<lambda>e. Errorf ''decode actual payload: %w'' [AErr e]) (decodeStrictJSONAny actualRaw)) (\<lambda>actual.
       case actual of
         JObj actualMap \<Rightarrow>
           rbind (map_err (\<lambda>e. Errorf ''decode payload subset: %w'' [AErr e]) (decodeStrictJSONAny subsetRaw)) (\<lambda>subset.
             case subset of
               JObj subsetMap \<Rightarrow>
                 (case subsetMatch (JObj actualMap) (JObj subsetMap) ''payload'' of
                    Inr _ \<Rightarrow> Inr (True, None)
                  | Inl (mismatchPath, mismatchReason) \<Rightarrow>
                      Inr (False, Some (Errorf ''payload subset mismatch at %s: %s''
                                          [AStr mismatchPath, AErr mismatchReason])))
             | _ \<Rightarrow> Inl (Err ''payload subset is not a JSON object''))
       | _ \<Rightarrow> Inr (False, Some (Err ''payload subset mismatch: actual payload is not object'')))"

definition keyMatches :: "queue_message \<Rightarrow> outbound_expectation \<Rightarrow> verdict" where
  "keyMatches m e =
     (case oe_key e of
        None \<Rightarrow> (True, None)
      | Some expected \<Rightarrow>
          (case msg_key m of
             None \<Rightarrow> (False, Some (Err ''key mismatch: message key is nil''))
           | Some actual \<Rightarrow>
               if actual \<noteq> expected then
                 (False, Some (Errorf ''key mismatch: expected %q, got %q'' [AStr expected, AStr actual]))
               else (True, None)))"

text \<open>\<open>matched, reason := v; if !matched { return false, reason, nil }\<close>, then the next check.\<close>

definition and_then :: "verdict result \<Rightarrow> verdict result \<Rightarrow> verdict result" where
  "and_then r s = rbind r (\<lambda>(matched, reason). if \<not> matched then Inr (False, reason) else s)"

definition matchesExpectation :: "queue_message \<Rightarrow> outbound_expectation \<Rightarrow> verdict result" where
  "matchesExpectation m e =
     and_then (Inr (keyMatches m e))
    (and_then (if 0 < length (oe_headers e)
               then Inr (matchesHeaders (msg_headers m) (oe_headers e) (oe_headersMode e)) else Inr (True, None))
    (and_then (if hasRawJSON (oe_payload e)
               then matchesPayloadExact (msg_payload m) (oe_payload e) else Inr (True, None))
    (and_then (if hasRawJSON (oe_payloadSubset e)
               then matchesPayloadSubset (msg_payload m) (oe_payloadSubset e) else Inr (True, None))
     (Inr (True, None)))))"

section \<open>The verdicts\<close>

definition filterMessagesByTopic :: "queue_message list \<Rightarrow> string \<Rightarrow> queue_message list" where
  "filterMessagesByTopic observed topic = filter (\<lambda>m. msg_topic m = topic) observed"

definition cloneMessage :: "queue_message \<Rightarrow> queue_message" where
  "cloneMessage m = \<lparr>msg_topic = msg_topic m, msg_key = cloneOptionalString (msg_key m),
     msg_headers = cloneHeaders (msg_headers m), msg_payload = cloneRawMessage (msg_payload m),
     msg_offset = msg_offset m\<rparr>"

definition cloneMessages :: "queue_message list \<Rightarrow> queue_message list" where
  "cloneMessages messages = (if length messages = 0 then [] else map cloneMessage messages)"

text \<open>The loop of \<open>evaluate\<close>: the counter and the last reason so far are arguments.\<close>

fun countMatches ::
    "outbound_expectation \<Rightarrow> queue_message list \<Rightarrow> int \<Rightarrow> err option \<Rightarrow> (int \<times> err option) result" where
  "countMatches e [] matchedCount reason = Inr (matchedCount, reason)"
| "countMatches e (m # ms) matchedCount reason =
     rbind (matchesExpectation m e) (\<lambda>(matched, mismatchReason).
       if matched then countMatches e ms (matchedCount + 1) reason
       else if mismatchReason \<noteq> None then countMatches e ms matchedCount mismatchReason
       else countMatches e ms matchedCount reason)"

definition evaluate :: "outbound_expectation \<Rightarrow> queue_message list \<Rightarrow> check_result result" where
  "evaluate e observed =
     rbind (NormalizeExpectation e) (\<lambda>normalized.
     let topicMessages = filterMessagesByTopic observed (oe_topic normalized) in
     rbind (countMatches normalized topicMessages 0 None) (\<lambda>(matchedCount, lastMismatchReason).
     Inr \<lparr>cr_matchedCount = matchedCount, cr_observed = cloneMessages topicMessages,
          cr_lastMismatchReason = lastMismatchReason\<rparr>))"

fun strictLoop :: "outbound_expectation \<Rightarrow> nat \<Rightarrow> queue_message list \<Rightarrow> unit result" where
  "strictLoop e index [] = Inr ()"
| "strictLoop e index (m # ms) =
     rbind (matchesExpectation m e) (\<lambda>(matched, mismatchReason).
       if matched then strictLoop e (Suc index) ms
       else Inl (Errorf ''verify strict ordering mismatch at index=%d: %s''
              [AInt (int index),
               AErr (case mismatchReason of None \<Rightarrow> Err ''message does not satisfy expectation''
                     | Some r \<Rightarrow> r)]))"

definition evaluateStrictOrdering :: "outbound_expectation \<Rightarrow> queue_message list \<Rightarrow> unit result" where
  "evaluateStrictOrdering e observedByTopic =
     (if int (length observedByTopic) < oe_expectedCount e then
        Inl (Errorf ''verify strict ordering expected at least %d messages, got %d''
               [AInt (oe_expectedCount e), AInt (int (length observedByTopic))])
      else rbind (strictLoop e 0 (take (nat (oe_expectedCount e)) observedByTopic)) (\<lambda>_.
        ensure (\<not> oe_expectedCount e < int (length observedByTopic))
          (Errorf ''verify strict ordering expected exactly %d messages, got %d''
             [AInt (oe_expectedCount e), AInt (int (length observedByTopic))])))"

text \<open>Both entry points return a result beside the error.\<close>

type_synonym outcome = "check_result \<times> err option"

definition fail_with :: "check_result \<Rightarrow> err \<Rightarrow> outcome" where
  "fail_with r e = (r\<lparr>cr_lastMismatchReason := Some e\<rparr>, Some e)"

definition add_last :: "check_result \<Rightarrow> err \<Rightarrow> err" where
  "add_last r reason =
     (case cr_lastMismatchReason r of None \<Rightarrow> reason
      | Some l \<Rightarrow> Errorf ''%s; last mismatch: %s'' [AErr reason, AErr l])"

definition EvaluateAwait :: "outbound_expectation \<Rightarrow> queue_message list \<Rightarrow> bool \<Rightarrow> outcome" where
  "EvaluateAwait e observed windowExpired =
     (case evaluate e observed of
        Inl err \<Rightarrow> (zero_result, Some err)
      | Inr result \<Rightarrow>
          if 0 < oe_expectedCount e then
            (if oe_expectedCount e \<le> cr_matchedCount result then (result, None)
             else fail_with result (add_last result
               (Errorf ''await condition is not met: matched_count=%d, expected_count=%d''
                  [AInt (cr_matchedCount result), AInt (oe_expectedCount e)])))
          else if 0 < cr_matchedCount result then
            fail_with result
              (Errorf ''await condition failed for expected_count=0: first matching message offset=%d''
                 [AInt (msg_offset (cr_observed result ! 0))])
          else if \<not> windowExpired then fail_with result (Err ''await retry window is still open'')
          else (result, None))"

definition EvaluateVerify :: "outbound_expectation \<Rightarrow> queue_message list \<Rightarrow> outcome" where
  "EvaluateVerify e observed =
     (case evaluate e observed of
        Inl err \<Rightarrow> (zero_result, Some err)
      | Inr result \<Rightarrow>
          if oe_expectedCount e = 0 then
            (if cr_matchedCount result = 0 then (result, None)
             else fail_with result (Errorf ''verify expected zero messages, got %d matches''
                                      [AInt (cr_matchedCount result)]))
          else if oe_ordering e = OrderingStrict then
            (case evaluateStrictOrdering e (cr_observed result) of
               Inl strictErr \<Rightarrow> fail_with result strictErr
             | Inr _ \<Rightarrow> (result, None))
          else if cr_matchedCount result \<noteq> oe_expectedCount e then
            fail_with result (add_last result
              (Errorf ''verify expected matched_count=%d, got %d''
                 [AInt (oe_expectedCount e), AInt (cr_matchedCount result)]))
          else (result, None))"

section \<open>Normalisation is a projection\<close>

lemma cloneHeaders_id: "wf_map h \<Longrightarrow> cloneHeaders h = h"
  by (simp add: cloneHeaders_def mcopy_self)

lemma cloneRawMessage_id [simp]: "cloneRawMessage raw = raw"
  by (simp add: cloneRawMessage_def)

lemma cloneOptionalString_id [simp]: "cloneOptionalString v = v"
  by (simp add: cloneOptionalString_def split: option.splits)

lemma defaults_fields:
  assumes "applyExpectationDefaults e = Inr n"
  shows "oe_topic n = oe_topic e" "oe_key n = oe_key e" "oe_headers n = oe_headers e"
    "oe_expectedCount n = oe_expectedCount e" "oe_payload n = oe_payload e"
    "oe_payloadSubset n = oe_payloadSubset e"
    "oe_headersMode n \<in> {HeadersModeExact, HeadersModeSubset}"
    "oe_ordering n \<in> {OrderingStrict, OrderingAny}"
    "oe_headersMode e \<noteq> [] \<Longrightarrow> oe_headersMode n = oe_headersMode e"
    "oe_ordering e \<noteq> [] \<Longrightarrow> oe_ordering n = oe_ordering e"
  using assms by (auto simp: applyExpectationDefaults_def Let_def mode_defs split: if_splits)

lemma defaults_id:
  "oe_headersMode n \<in> {HeadersModeExact, HeadersModeSubset} \<Longrightarrow>
   oe_ordering n \<in> {OrderingStrict, OrderingAny} \<Longrightarrow> applyExpectationDefaults n = Inr n"
  by (auto simp: applyExpectationDefaults_def Let_def mode_defs)

lemma NormalizeExpectation_cases:
  assumes "NormalizeExpectation e = Inr n"
  shows "applyExpectationDefaults (cloneExpectation e) = Inr n" "oe_topic n \<noteq> []" "0 \<le> oe_expectedCount n"
    "validateExpectationPayloads n = Inr ()"
  using assms defaults_fields(1,4) [of "cloneExpectation e" n]
  by (auto simp: NormalizeExpectation_def Let_def validateExpectationTopic_def validateExpectationCount_def)

definition normal_expectation :: "outbound_expectation \<Rightarrow> bool" where
  "normal_expectation e \<longleftrightarrow>
     trim_space (oe_topic e) = oe_topic e \<and> oe_topic e \<noteq> [] \<and> wf_map (oe_headers e) \<and>
     oe_headersMode e \<in> {HeadersModeExact, HeadersModeSubset} \<and>
     oe_ordering e \<in> {OrderingStrict, OrderingAny} \<and> 0 \<le> oe_expectedCount e \<and>
     validateExpectationPayloads e = Inr ()"

lemma normalize_normal:
  assumes "NormalizeExpectation e = Inr n" "wf_map (oe_headers e)"
  shows "normal_expectation n"
  using NormalizeExpectation_cases [OF assms(1)] defaults_fields [of "cloneExpectation e" n] assms(2)
  by (auto simp: normal_expectation_def cloneExpectation_def cloneHeaders_id)

lemma clone_normal: "normal_expectation e \<Longrightarrow> cloneExpectation e = e"
  by (simp add: normal_expectation_def cloneExpectation_def cloneHeaders_id)

lemma normal_normalize: "normal_expectation e \<Longrightarrow> NormalizeExpectation e = Inr e"
  unfolding NormalizeExpectation_def Let_def clone_normal
  by (simp add: validateExpectationTopic_def validateExpectationCount_def defaults_id normal_expectation_def)

lemma normalize_idem:
  "NormalizeExpectation e = Inr n \<Longrightarrow> wf_map (oe_headers e) \<Longrightarrow> NormalizeExpectation n = Inr n"
  by (intro normal_normalize normalize_normal)

section \<open>What it means for a message to satisfy an expectation\<close>

lemma header_entries_ok:
  "fst (matchesHeaderEntries actual es) \<longleftrightarrow> list_all (\<lambda>(k, v). mget actual k = Some v) es"
  by (induction es) (auto split: option.splits if_splits)

lemma submap_same_length:
  assumes "wf_map m" "wf_map n" "submap_by (=) m n" "length m = length n"
  shows "m = n"
proof -
  have d: "distinct m" "distinct n"
    using assms(1,2) by (auto dest!: wf_map_distinct simp: distinct_map)
  have "set m \<subseteq> set n"
    using assms(1-3) by (auto simp: submap_by_def mget_Some_iff)
  moreover have "card (set m) = card (set n)"
    using d assms(4) by (simp add: distinct_card)
  ultimately have "set m = set n" by (simp add: card_subset_eq)
  then have "mget m k = Some v \<longleftrightarrow> mget n k = Some v" for k v
    using assms(1,2) by (simp add: mget_Some_iff)
  then have "mget m k = mget n k" for k by (metis not_None_eq)
  with assms(1,2) show ?thesis by (intro wf_map_ext)
qed

definition headers_sat :: "string gomap \<Rightarrow> string gomap \<Rightarrow> string \<Rightarrow> bool" where
  "headers_sat actual expected mode \<longleftrightarrow>
     (if mode = HeadersModeExact then actual = expected else submap_by (=) expected actual)"

lemma submap_eq_list_all:
  "wf_map m \<Longrightarrow> submap_by (=) m n \<longleftrightarrow> list_all (\<lambda>(k, v). mget n k = Some v) m"
  by (auto simp: submap_by_list_all list_all_iff split: option.splits)

lemma headers_ok:
  assumes "wf_map actual" "wf_map expected"
  shows "fst (matchesHeaders actual expected mode) \<longleftrightarrow> headers_sat actual expected mode"
proof -
  have "submap_by (=) expected actual" if "actual = expected" using that by (simp add: submap_by_def)
  then show ?thesis
    using submap_same_length [OF assms(2,1)] submap_eq_list_all [OF assms(2), of actual]
    by (auto simp: matchesHeaders_def headers_sat_def header_entries_ok)
qed

definition payload_sat :: "string \<Rightarrow> string \<Rightarrow> bool" where
  "payload_sat actual expected \<longleftrightarrow>
     (\<exists>j. decodeStrictJSONAny actual = Inr j \<and> decodeStrictJSONAny expected = Inr j)"

definition payload_subset_sat :: "string \<Rightarrow> string \<Rightarrow> bool" where
  "payload_subset_sat actual part \<longleftrightarrow>
     (\<exists>n m. decodeStrictJSONAny actual = Inr (JObj n) \<and> decodeStrictJSONAny part = Inr (JObj m) \<and>
       json_sub (JObj m) (JObj n))"

definition message_sat :: "queue_message \<Rightarrow> outbound_expectation \<Rightarrow> bool" where
  "message_sat m e \<longleftrightarrow>
     (\<forall>k. oe_key e = Some k \<longrightarrow> msg_key m = Some k) \<and>
     (oe_headers e \<noteq> [] \<longrightarrow> headers_sat (msg_headers m) (oe_headers e) (oe_headersMode e)) \<and>
     (hasRawJSON (oe_payload e) \<longrightarrow> payload_sat (msg_payload m) (oe_payload e)) \<and>
     (hasRawJSON (oe_payloadSubset e) \<longrightarrow> payload_subset_sat (msg_payload m) (oe_payloadSubset e))"

definition matched :: "verdict result \<Rightarrow> bool" where
  "matched r \<longleftrightarrow> (\<exists>x. r = Inr (True, x))"

lemma matched_and_then [simp]: "matched (and_then r s) \<longleftrightarrow> matched r \<and> matched s"
  by (auto simp: matched_def and_then_def split: if_splits)

lemma matched_Inr [simp]: "matched (Inr v) \<longleftrightarrow> fst v"
  by (cases v) (auto simp: matched_def)

lemma matched_Inl [simp]: "\<not> matched (Inl e)"
  by (simp add: matched_def)

lemma matched_rbind: "matched (rbind r f) \<longleftrightarrow> (\<exists>x. r = Inr x \<and> matched (f x))"
  by (cases r) auto

lemma keyMatches_ok: "fst (keyMatches m e) \<longleftrightarrow> (\<forall>k. oe_key e = Some k \<longrightarrow> msg_key m = Some k)"
  by (auto simp: keyMatches_def split: option.splits)

lemma payload_ok: "matched (matchesPayloadExact a e) \<longleftrightarrow> payload_sat a e"
  by (auto simp: matchesPayloadExact_def payload_sat_def matched_rbind cmp_diff_def)

lemma matched_object_case [simp]:
  "matched (case j of JNull \<Rightarrow> Inr (False, r1) | JBool b \<Rightarrow> Inr (False, r2 b) | JNum l \<Rightarrow> Inr (False, r3 l)
      | JStr t \<Rightarrow> Inr (False, r4 t) | JArr js \<Rightarrow> Inr (False, r5 js) | JObj m \<Rightarrow> f m) \<longleftrightarrow>
     (\<exists>m. j = JObj m \<and> matched (f m))"
  "matched (case j of JNull \<Rightarrow> Inl e1 | JBool b \<Rightarrow> Inl (e2 b) | JNum l \<Rightarrow> Inl (e3 l)
      | JStr t \<Rightarrow> Inl (e4 t) | JArr js \<Rightarrow> Inl (e5 js) | JObj m \<Rightarrow> f m) \<longleftrightarrow>
     (\<exists>m. j = JObj m \<and> matched (f m))"
  by (cases j; auto)+

lemma payload_subset_ok: "matched (matchesPayloadSubset a s) \<longleftrightarrow> payload_subset_sat a s"
proof (cases "\<exists>n m. decodeStrictJSONAny a = Inr (JObj n) \<and> decodeStrictJSONAny s = Inr (JObj m)")
  case True
  then obtain n m where "decodeStrictJSONAny a = Inr (JObj n)" "decodeStrictJSONAny s = Inr (JObj m)" by blast
  then show ?thesis
    using subsetMatch_refines [of "JObj n" "JObj m" "''payload''"]
    unfolding matchesPayloadSubset_def payload_subset_sat_def
    by (cases "subsetMatch (JObj n) (JObj m) ''payload''")
       (auto simp del: subsetMatch.simps json_sub.simps)
next
  case False
  then show ?thesis
    unfolding matchesPayloadSubset_def payload_subset_sat_def
    by (auto simp: matched_rbind)
qed

lemma matchesExpectation_matched:
  assumes "wf_map (msg_headers m)" "wf_map (oe_headers e)"
  shows "matched (matchesExpectation m e) \<longleftrightarrow> message_sat m e"
  unfolding matchesExpectation_def message_sat_def
  by (auto simp: keyMatches_ok headers_ok [OF assms] payload_ok payload_subset_ok)

section \<open>Counting\<close>

lemma count_decodes: "is_ok (countMatches e ms c r) \<longleftrightarrow> (\<forall>m \<in> set ms. is_ok (matchesExpectation m e))"
proof (induction ms arbitrary: c r)
  case Nil
  then show ?case by simp
next
  case (Cons m ms)
  then show ?case by (cases "matchesExpectation m e") (auto split: if_splits)
qed

lemma count_matched:
  "countMatches e ms c r = Inr (c', r') \<Longrightarrow>
     c' = c + int (length (filter (\<lambda>m. matched (matchesExpectation m e)) ms))"
proof (induction ms arbitrary: c r)
  case Nil
  then show ?case by simp
next
  case (Cons m ms)
  then obtain b q where mq: "matchesExpectation m e = Inr (b, q)"
    by (cases "matchesExpectation m e") auto
  show ?case using Cons.prems Cons.IH by (fastforce simp: mq split: if_splits)
qed

lemma strictLoop_ok:
  "strictLoop e i ms = Inr () \<longleftrightarrow> (\<forall>m \<in> set ms. matched (matchesExpectation m e))"
proof (induction ms arbitrary: i)
  case Nil
  then show ?case by simp
next
  case (Cons m ms)
  then show ?case by (cases "matchesExpectation m e") (auto split: if_splits)
qed

lemma strict_ok:
  "0 \<le> oe_expectedCount e \<Longrightarrow> evaluateStrictOrdering e ms = Inr () \<longleftrightarrow>
     int (length ms) = oe_expectedCount e \<and> (\<forall>m \<in> set ms. matched (matchesExpectation m e))"
  by (auto simp: evaluateStrictOrdering_def strictLoop_ok)

lemma clone_message: "wf_map (msg_headers m) \<Longrightarrow> cloneMessage m = m"
  by (simp add: cloneMessage_def cloneHeaders_id)

lemma clone_messages: "\<forall>m \<in> set ms. wf_map (msg_headers m) \<Longrightarrow> cloneMessages ms = ms"
  by (simp add: cloneMessages_def clone_message map_idI)

text \<open>The messages of the topic, and those among them that satisfy the expectation.\<close>

definition on_topic :: "outbound_expectation \<Rightarrow> queue_message list \<Rightarrow> queue_message list" where
  "on_topic e ms = filter (\<lambda>m. msg_topic m = oe_topic e) ms"

definition satisfying :: "outbound_expectation \<Rightarrow> queue_message list \<Rightarrow> queue_message list" where
  "satisfying e ms = filter (\<lambda>m. message_sat m e) (on_topic e ms)"

definition comparable :: "outbound_expectation \<Rightarrow> queue_message list \<Rightarrow> bool" where
  "comparable e ms \<longleftrightarrow> (\<forall>m \<in> set (on_topic e ms). is_ok (matchesExpectation m e))"

definition wf_messages :: "queue_message list \<Rightarrow> bool" where
  "wf_messages ms \<longleftrightarrow> (\<forall>m \<in> set ms. wf_map (msg_headers m))"

lemma normal_wf: "normal_expectation e \<Longrightarrow> wf_map (oe_headers e)"
  by (simp add: normal_expectation_def)

lemma evaluate_normal:
  assumes "normal_expectation e" "wf_messages ms"
  shows "is_ok (evaluate e ms) \<longleftrightarrow> comparable e ms"
    and "evaluate e ms = Inr r \<Longrightarrow>
      cr_matchedCount r = int (length (satisfying e ms)) \<and> cr_observed r = on_topic e ms"
proof -
  have eq: "evaluate e ms = rbind (countMatches e (on_topic e ms) 0 None) (\<lambda>(c, q).
      Inr \<lparr>cr_matchedCount = c, cr_observed = cloneMessages (on_topic e ms), cr_lastMismatchReason = q\<rparr>)"
    using normal_normalize [OF assms(1)]
    by (simp add: evaluate_def on_topic_def filterMessagesByTopic_def Let_def)
  have wf: "\<forall>m \<in> set (on_topic e ms). wf_map (msg_headers m)"
    using assms(2) by (simp add: wf_messages_def on_topic_def)
  show "is_ok (evaluate e ms) \<longleftrightarrow> comparable e ms"
    using count_decodes [of e "on_topic e ms" 0 None]
    by (auto simp: eq comparable_def is_ok_iff)
  have "filter (\<lambda>m. matched (matchesExpectation m e)) (on_topic e ms) = satisfying e ms"
    unfolding satisfying_def using wf normal_wf [OF assms(1)]
    by (intro filter_cong) (simp_all add: matchesExpectation_matched)
  then show "cr_matchedCount r = int (length (satisfying e ms)) \<and> cr_observed r = on_topic e ms"
    if "evaluate e ms = Inr r"
    using that by (auto simp: eq clone_messages [OF wf] dest!: count_matched)
qed

section \<open>The verdicts of await and verify\<close>

text \<open>What the two steps promise, in terms of the messages on the topic only.\<close>

definition verify_spec :: "outbound_expectation \<Rightarrow> queue_message list \<Rightarrow> bool" where
  "verify_spec e ms \<longleftrightarrow> comparable e ms \<and>
     int (length (satisfying e ms)) = oe_expectedCount e \<and>
     (oe_ordering e = OrderingStrict \<and> oe_expectedCount e \<noteq> 0 \<longrightarrow> satisfying e ms = on_topic e ms)"

definition await_spec :: "outbound_expectation \<Rightarrow> queue_message list \<Rightarrow> bool \<Rightarrow> bool" where
  "await_spec e ms expired \<longleftrightarrow> comparable e ms \<and>
     (if oe_expectedCount e = 0 then satisfying e ms = [] \<and> expired
      else oe_expectedCount e \<le> int (length (satisfying e ms)))"

lemma snd_fail_with [simp]: "snd (fail_with r e) = Some e"
  by (simp add: fail_with_def)

lemma satisfying_all:
  "satisfying e ms = on_topic e ms \<longleftrightarrow> (\<forall>m \<in> set (on_topic e ms). message_sat m e)"
  by (simp add: satisfying_def filter_id_conv)

lemma await_correct:
  assumes "normal_expectation e" "wf_messages ms"
  shows "snd (EvaluateAwait e ms expired) = None \<longleftrightarrow> await_spec e ms expired"
proof (cases "evaluate e ms")
  case (Inl err)
  then have "\<not> comparable e ms" using evaluate_normal(1) [OF assms] by simp
  with Inl show ?thesis by (simp add: EvaluateAwait_def await_spec_def)
next
  case (Inr r)
  have c: "comparable e ms" using evaluate_normal(1) [OF assms] Inr by simp
  have n: "cr_matchedCount r = int (length (satisfying e ms))" using evaluate_normal(2) [OF assms Inr] by simp
  have "0 \<le> oe_expectedCount e" using assms(1) by (simp add: normal_expectation_def)
  with c n Inr show ?thesis by (auto simp: EvaluateAwait_def await_spec_def)
qed

lemma strict_topic:
  assumes "normal_expectation e" "wf_messages ms"
  shows "evaluateStrictOrdering e (on_topic e ms) = Inr () \<longleftrightarrow>
    int (length (satisfying e ms)) = oe_expectedCount e \<and> satisfying e ms = on_topic e ms"
proof -
  have "matched (matchesExpectation m e) = message_sat m e" if "m \<in> set (on_topic e ms)" for m
    using that assms normal_wf [OF assms(1)]
    by (intro matchesExpectation_matched) (auto simp: wf_messages_def on_topic_def)
  moreover have "0 \<le> oe_expectedCount e" using assms(1) by (simp add: normal_expectation_def)
  ultimately show ?thesis by (auto simp: strict_ok satisfying_all) (metis satisfying_all)+
qed

lemma verify_correct:
  assumes "normal_expectation e" "wf_messages ms"
  shows "snd (EvaluateVerify e ms) = None \<longleftrightarrow> verify_spec e ms"
proof (cases "evaluate e ms")
  case (Inl err)
  then have "\<not> comparable e ms" using evaluate_normal(1) [OF assms] by simp
  with Inl show ?thesis by (simp add: EvaluateVerify_def verify_spec_def)
next
  case (Inr r)
  have c: "comparable e ms" using evaluate_normal(1) [OF assms] Inr by simp
  have n: "cr_matchedCount r = int (length (satisfying e ms))" "cr_observed r = on_topic e ms"
    using evaluate_normal(2) [OF assms Inr] by simp_all
  show ?thesis
    using strict_topic [OF assms]
    by (cases "evaluateStrictOrdering e (on_topic e ms)")
       (auto simp: EvaluateVerify_def verify_spec_def Inr c n)
qed

section \<open>Weaker subsets\<close>

text \<open>
  Replacing the payload subset by one it satisfies never loses a matching message; this is
  what the matcher's interface gives.
\<close>

lemma weaker_subset_sat:
  assumes "message_sat m e"
    and "decodeStrictJSONAny (oe_payloadSubset e) = Inr (JObj y)" "wf_json (JObj y)"
    and "decodeStrictJSONAny s = Inr (JObj x)" "wf_json (JObj x)"
    and "is_ok (subsetMatch (JObj y) (JObj x) p)" and "hasRawJSON (oe_payloadSubset e)"
  shows "message_sat m (e\<lparr>oe_payloadSubset := s\<rparr>)"
proof -
  obtain n where n: "decodeStrictJSONAny (msg_payload m) = Inr (JObj n)" "json_sub (JObj y) (JObj n)"
    using assms(1,2,7) by (auto simp: message_sat_def payload_subset_sat_def simp del: json_sub.simps)
  have "is_ok (subsetMatch (JObj n) (JObj y) p)"
    using n(2) by (simp only: subsetMatch_refines)
  then have "is_ok (subsetMatch (JObj n) (JObj x) p)"
    by (rule js.weaken [OF assms(5,3,6)])
  then have "json_sub (JObj x) (JObj n)"
    by (simp only: subsetMatch_refines)
  then have "payload_subset_sat (msg_payload m) s"
    using n(1) assms(4) by (auto simp: payload_subset_sat_def simp del: json_sub.simps)
  then show ?thesis using assms(1) by (simp add: message_sat_def)
qed

lemma on_topic_update [simp]: "on_topic (e\<lparr>oe_payloadSubset := s\<rparr>) ms = on_topic e ms"
  by (simp add: on_topic_def)

lemma filter_length_mono: "(\<And>x. P x \<Longrightarrow> Q x) \<Longrightarrow> length (filter P xs) \<le> length (filter Q xs)"
  by (induction xs) auto

section \<open>Properties\<close>

text \<open>A normalised expectation is a fixed point of the normalisation.\<close>

theorem NormalizeExpectation_idem:
  assumes "NormalizeExpectation e = Inr n" "wf_map (oe_headers e)"
  shows "NormalizeExpectation n = Inr n"
  using assms by (rule normalize_idem)

definition sample_expectation :: outbound_expectation where
  "sample_expectation = \<lparr>oe_topic = ''t'', oe_key = None, oe_headers = [(''h'', ''1'')],
     oe_headersMode = [], oe_expectedCount = 1, oe_payload = ''1'', oe_payloadSubset = [],
     oe_ordering = OrderingStrict\<rparr>"

definition sample_normal :: outbound_expectation where
  "sample_normal = sample_expectation\<lparr>oe_headersMode := HeadersModeExact\<rparr>"

definition sample_message :: queue_message where
  "sample_message = \<lparr>msg_topic = ''t'', msg_key = None, msg_headers = [(''h'', ''1'')],
     msg_payload = '' 1'', msg_offset = 7\<rparr>"

definition extra_header_message :: queue_message where
  "extra_header_message = sample_message\<lparr>msg_headers := [(''h'', ''1''), (''i'', ''2'')]\<rparr>"

lemma sample_normalizes: "NormalizeExpectation sample_expectation = Inr sample_normal"
  by code_simp

lemma sample_wf: "wf_map (oe_headers sample_expectation)" "wf_messages [sample_message, sample_message\<lparr>msg_topic := ''u''\<rparr>]"
  by (simp_all add: sample_expectation_def sample_message_def wf_messages_def)

theorem NormalizeExpectation_idem_witness:
  "NormalizeExpectation sample_expectation = Inr sample_normal \<and>
   NormalizeExpectation sample_normal = Inr sample_normal"
  using NormalizeExpectation_idem [OF sample_normalizes sample_wf(1)] sample_normalizes by simp

text \<open>
  C24: the verify step accepts exactly when every message of the topic can be compared, the
  number of satisfying messages is the expected one and, with strict ordering, no other
  message is on the topic.
\<close>

theorem EvaluateVerify_correct:
  assumes "NormalizeExpectation e = Inr n" "wf_map (oe_headers e)" "wf_messages ms"
  shows "snd (EvaluateVerify n ms) = None \<longleftrightarrow>
    comparable n ms \<and> int (length (satisfying n ms)) = oe_expectedCount n \<and>
    (oe_ordering n = OrderingStrict \<and> oe_expectedCount n \<noteq> 0 \<longrightarrow> satisfying n ms = on_topic n ms)"
  using verify_correct [OF normalize_normal [OF assms(1,2)] assms(3)] by (simp only: verify_spec_def)

theorem EvaluateVerify_correct_witness:
  "snd (EvaluateVerify sample_normal [sample_message, sample_message\<lparr>msg_topic := ''u''\<rparr>]) = None \<and>
   satisfying sample_normal [sample_message, sample_message\<lparr>msg_topic := ''u''\<rparr>] = [sample_message]"
proof -
  have v: "snd (EvaluateVerify sample_normal [sample_message, sample_message\<lparr>msg_topic := ''u''\<rparr>]) = None"
    by code_simp
  have t: "on_topic sample_normal [sample_message, sample_message\<lparr>msg_topic := ''u''\<rparr>] = [sample_message]"
    by (simp add: on_topic_def sample_normal_def sample_expectation_def sample_message_def)
  show ?thesis
    using EvaluateVerify_correct [OF sample_normalizes sample_wf] v t
    by (simp add: sample_normal_def sample_expectation_def)
qed

text \<open>
  The await step accepts exactly when every message of the topic can be compared and the
  expected number of messages was seen; for zero messages, when none was seen and the retry
  window is over.
\<close>

theorem EvaluateAwait_correct:
  assumes "NormalizeExpectation e = Inr n" "wf_map (oe_headers e)" "wf_messages ms"
  shows "snd (EvaluateAwait n ms windowExpired) = None \<longleftrightarrow>
    comparable n ms \<and>
    (if oe_expectedCount n = 0 then satisfying n ms = [] \<and> windowExpired
     else oe_expectedCount n \<le> int (length (satisfying n ms)))"
  using await_correct [OF normalize_normal [OF assms(1,2)] assms(3)] by (simp only: await_spec_def)

theorem EvaluateAwait_correct_witness:
  "snd (EvaluateAwait sample_normal [sample_message, sample_message\<lparr>msg_topic := ''u''\<rparr>] False) = None \<and>
   1 \<le> length (satisfying sample_normal [sample_message, sample_message\<lparr>msg_topic := ''u''\<rparr>])"
proof -
  have "snd (EvaluateAwait sample_normal [sample_message, sample_message\<lparr>msg_topic := ''u''\<rparr>] False) = None"
    by code_simp
  then show ?thesis
    using EvaluateAwait_correct [OF sample_normalizes sample_wf, of False]
    by (simp add: sample_normal_def sample_expectation_def)
qed

text \<open>
  Whatever verify accepts, await accepts once the retry window is over, and verify accepts
  it under any ordering as well.
\<close>

theorem verify_strongest:
  assumes "NormalizeExpectation e = Inr n" "wf_map (oe_headers e)" "wf_messages ms"
    and "snd (EvaluateVerify n ms) = None"
  shows "snd (EvaluateAwait n ms True) = None \<and>
    snd (EvaluateVerify (n\<lparr>oe_ordering := OrderingAny\<rparr>) ms) = None"
proof
  have n: "normal_expectation n" by (rule normalize_normal [OF assms(1,2)])
  have v: "verify_spec n ms" using assms(4) verify_correct [OF n assms(3)] by simp
  then show "snd (EvaluateAwait n ms True) = None"
    unfolding await_correct [OF n assms(3)] by (auto simp: verify_spec_def await_spec_def)
  let ?a = "n\<lparr>oe_ordering := OrderingAny\<rparr>"
  have a: "normal_expectation ?a"
    using n by (simp add: normal_expectation_def validateExpectationPayloads_def cong: if_cong)
  have same: "matchesExpectation m ?a = matchesExpectation m n" "message_sat m ?a = message_sat m n" for m
    by (simp_all add: matchesExpectation_def message_sat_def keyMatches_def)
  show "snd (EvaluateVerify ?a ms) = None"
    using v unfolding verify_correct [OF a assms(3)]
    by (simp add: verify_spec_def comparable_def satisfying_def on_topic_def same)
qed

theorem verify_strongest_witness:
  "snd (EvaluateAwait sample_normal [sample_message, sample_message\<lparr>msg_topic := ''u''\<rparr>] True) = None"
proof -
  have v: "snd (EvaluateVerify sample_normal [sample_message, sample_message\<lparr>msg_topic := ''u''\<rparr>]) = None"
    by code_simp
  show ?thesis using verify_strongest [OF sample_normalizes sample_wf v] by (rule conjunct1)
qed

text \<open>
  Where the payload subset is replaced by an object it contains, the number of matched
  messages cannot go down.
\<close>

theorem weaker_subset_matches_more:
  assumes "NormalizeExpectation e = Inr n" "NormalizeExpectation (n\<lparr>oe_payloadSubset := s\<rparr>) = Inr n'"
    and "wf_map (oe_headers e)" "wf_messages ms"
    and "hasRawJSON (oe_payloadSubset n)"
    and "decodeStrictJSONAny (oe_payloadSubset n) = Inr (JObj y)" "wf_json (JObj y)"
    and "decodeStrictJSONAny s = Inr (JObj x)" "wf_json (JObj x)"
    and "is_ok (subsetMatch (JObj y) (JObj x) path)"
    and "evaluate n ms = Inr r" "evaluate n' ms = Inr r'"
  shows "cr_matchedCount r \<le> cr_matchedCount r'"
proof -
  let ?w = "n\<lparr>oe_payloadSubset := s\<rparr>"
  have n: "normal_expectation n" by (rule normalize_normal [OF assms(1,3)])
  then have "wf_map (oe_headers ?w)" by (simp add: normal_expectation_def)
  then have n': "normal_expectation n'" by (rule normalize_normal [OF assms(2)])
  have c: "cloneExpectation ?w = ?w"
    using n by (simp add: cloneExpectation_def cloneHeaders_id normal_expectation_def)
  have "oe_headersMode ?w \<in> {HeadersModeExact, HeadersModeSubset}" "oe_ordering ?w \<in> {OrderingStrict, OrderingAny}"
    using n by (simp_all add: normal_expectation_def)
  then have "n' = ?w"
    using NormalizeExpectation_cases(1) [OF assms(2)] defaults_id [of ?w] unfolding c by simp
  moreover have "message_sat m ?w" if "message_sat m n" for m
    by (rule weaker_subset_sat [OF that assms(6,7,8,9,10,5)])
  then have "length (satisfying n ms) \<le> length (satisfying ?w ms)"
    unfolding satisfying_def on_topic_update by (rule filter_length_mono)
  ultimately show ?thesis
    using evaluate_normal(2) [OF n assms(4,11)] evaluate_normal(2) [OF n' assms(4,12)] by simp
qed

definition sample_subset :: outbound_expectation where
  "sample_subset = sample_normal\<lparr>oe_headers := [], oe_payload := [],
     oe_payloadSubset := [CHR 0x7B, CHR 0x22, CHR ''a'', CHR 0x22, CHR '':'', CHR ''1'', CHR 0x7D]\<rparr>"

definition empty_object :: string where "empty_object = [CHR 0x7B, CHR 0x7D]"

theorem weaker_subset_matches_more_witness:
  "\<exists>r r'. evaluate sample_subset [] = Inr r \<and>
     evaluate (sample_subset\<lparr>oe_payloadSubset := empty_object\<rparr>) [] = Inr r' \<and>
     cr_matchedCount r \<le> cr_matchedCount r'"
proof -
  let ?w = "sample_subset\<lparr>oe_payloadSubset := empty_object\<rparr>"
  have n: "NormalizeExpectation sample_subset = Inr sample_subset" "NormalizeExpectation ?w = Inr ?w"
    by code_simp+
  have d: "decodeStrictJSONAny (oe_payloadSubset sample_subset) = Inr (JObj [(''a'', JNum ''1'')])"
    "decodeStrictJSONAny empty_object = Inr (JObj [])" by code_simp+
  have e: "evaluate sample_subset [] = Inr zero_result" "evaluate ?w [] = Inr zero_result" by code_simp+
  have h: "hasRawJSON (oe_payloadSubset sample_subset)" by code_simp
  show ?thesis
    using weaker_subset_matches_more [OF n _ _ h d(1) _ d(2) _ _ e] e
    by (fastforce simp: sample_subset_def sample_normal_def sample_expectation_def wf_messages_def)
qed

text \<open>
  Called on an expectation that was not normalised, verify compares the headers twice and
  differently: with strict ordering and no headers mode it accepts a message that \<open>evaluate\<close>
  did not match, so zero of the one expected message, which the normalised expectation refuses.
\<close>

theorem EvaluateVerify_unnormalised:
  "oe_expectedCount sample_expectation = 1 \<and>
   snd (EvaluateVerify sample_expectation [extra_header_message]) = None \<and>
   cr_matchedCount (fst (EvaluateVerify sample_expectation [extra_header_message])) = 0 \<and>
   snd (EvaluateVerify sample_normal [extra_header_message]) \<noteq> None"
  by code_simp

end
