(* ===== verification/GoValue.thy ===== *)
theory GoValue
  imports Json
begin

text \<open>
  Go values behind the type \<open>any\<close>, as package \<open>reflect\<close> shows them.  Pointers are addresses into
  a heap, so that cyclic values exist; the elements of a container of interface type are
  \<open>VIface\<close>.  Also computations that may not return: \<^const>\<open>None\<close> is a computation that runs
  forever, \<open>Some (Inl e)\<close> one that returns an error.
\<close>

section \<open>Values\<close>

text \<open>A struct field: its name, the value of its json tag, and whether it is exported.\<close>

record field_info =
  fi_name :: string
  fi_jsonTag :: string
  fi_exported :: bool

datatype gval =
    VInvalid \<comment> \<open>the nil interface\<close>
  | VBool bool
  | VInt int
  | VNum string \<comment> \<open>\<open>json.Number\<close>\<close>
  | VStr string
  | VPtr "nat option"
  | VIface "gval option"
  | VSlice "gval list option"
  | VArray "gval list"
  | VMap "(string \<times> gval) list option" \<comment> \<open>a map with string keys\<close>
  | VAnyMap "(gval \<times> gval) list option" \<comment> \<open>a map with other keys\<close>
  | VStruct "(field_info \<times> gval) list"
  | VOther string \<comment> \<open>a value of any other kind\<close>

type_synonym heap = "nat \<Rightarrow> gval option"

text \<open>\<open>reflect.Value.Interface\<close>: an interface value yields what it holds.\<close>

definition to_any :: "gval \<Rightarrow> gval" where
  "to_any v = (case v of VIface None \<Rightarrow> VInvalid | VIface (Some w) \<Rightarrow> w | _ \<Rightarrow> v)"

definition to_iface :: "gval \<Rightarrow> gval" where
  "to_iface v = (if v = VInvalid then VIface None else VIface (Some v))"

lemma to_any_iface [simp]: "to_any (to_iface v) = v"
  by (simp add: to_any_def to_iface_def)

text \<open>A decoded JSON value as an \<open>any\<close>.\<close>

fun json_val :: "json \<Rightarrow> gval" where
  "json_val JNull = VInvalid"
| "json_val (JBool b) = VBool b"
| "json_val (JNum l) = VNum l"
| "json_val (JStr s) = VStr s"
| "json_val (JArr js) = VSlice (Some (map (\<lambda>j. to_iface (json_val j)) js))"
| "json_val (JObj m) = VMap (Some (map (\<lambda>e. (fst e, to_iface (json_val (snd e)))) m))"

lemma mget_map_snd: "mget (map (\<lambda>e. (fst e, f (snd e))) m) k = map_option f (mget m k)"
  by (induction m) (auto simp: mget_Cons)

section \<open>Computations that may not return\<close>

type_synonym 'a comp = "'a result option"

definition comp_bind :: "'a comp \<Rightarrow> ('a \<Rightarrow> 'b comp) \<Rightarrow> 'b comp" where
  "comp_bind m f = (case m of None \<Rightarrow> None | Some (Inl e) \<Rightarrow> Some (Inl e) | Some (Inr x) \<Rightarrow> f x)"

definition comp_err :: "(err \<Rightarrow> err) \<Rightarrow> 'a comp \<Rightarrow> 'a comp" where
  "comp_err g m = map_option (map_err g) m"

lemma comp_bind_simps [simp]:
  "comp_bind None f = None" "comp_bind (Some (Inl e)) f = Some (Inl e)" "comp_bind (Some (Inr x)) f = f x"
  by (simp_all add: comp_bind_def)

lemma comp_bind_cong [fundef_cong]:
  "m = n \<Longrightarrow> (\<And>x. n = Some (Inr x) \<Longrightarrow> f x = g x) \<Longrightarrow> comp_bind m f = comp_bind n g"
  by (auto simp: comp_bind_def split: option.splits sum.splits)

lemma comp_bind_returns:
  "comp_bind m f \<noteq> None \<longleftrightarrow> m \<noteq> None \<and> (\<forall>x. m = Some (Inr x) \<longrightarrow> f x \<noteq> None)"
  by (auto simp: comp_bind_def split: option.splits sum.splits)

lemma comp_bind_ok:
  "comp_bind m f = Some (Inr y) \<longleftrightarrow> (\<exists>x. m = Some (Inr x) \<and> f x = Some (Inr y))"
  by (auto simp: comp_bind_def split: option.splits sum.splits)

lemma comp_err_simps [simp]:
  "comp_err g None = None" "comp_err g (Some r) = Some (map_err g r)"
  by (simp_all add: comp_err_def)

lemma comp_err_returns [simp]: "comp_err g m = None \<longleftrightarrow> m = None"
  by (simp add: comp_err_def)

fun comp_map :: "('a \<Rightarrow> 'b comp) \<Rightarrow> 'a list \<Rightarrow> 'b list comp" where
  "comp_map f [] = Some (Inr [])"
| "comp_map f (x # xs) = comp_bind (f x) (\<lambda>y. comp_bind (comp_map f xs) (\<lambda>ys. Some (Inr (y # ys))))"

lemma comp_map_cong [fundef_cong]:
  "xs = ys \<Longrightarrow> (\<And>x. x \<in> set ys \<Longrightarrow> f x = g x) \<Longrightarrow> comp_map f xs = comp_map g ys"
  by (induction ys arbitrary: xs) auto

lemma comp_map_returns: "(\<And>x. x \<in> set xs \<Longrightarrow> f x \<noteq> None) \<Longrightarrow> comp_map f xs \<noteq> None"
  by (induction xs) (auto simp: comp_bind_returns simp del: not_None_eq)

lemma comp_map_pure: "(\<And>x. x \<in> set xs \<Longrightarrow> f x = Some (Inr (g x))) \<Longrightarrow> comp_map f xs = Some (Inr (map g xs))"
  by (induction xs) auto

section \<open>Pointers\<close>

text \<open>
  A ranking shows that no chain of pointers and interfaces runs forever: every pointer leads to
  a value whose own pointer, behind any interfaces, has a smaller rank.
\<close>

fun top_pointer :: "gval \<Rightarrow> nat option" where
  "top_pointer (VPtr a) = a"
| "top_pointer (VIface (Some v)) = top_pointer v"
| "top_pointer _ = None"

definition ranked :: "(nat \<Rightarrow> nat) \<Rightarrow> heap \<Rightarrow> bool" where
  "ranked rank h \<longleftrightarrow>
     (\<forall>a v b. h a = Some v \<longrightarrow> top_pointer v = Some b \<longrightarrow> rank b < rank a)"

end
