(* ===== verification/RequestTemplate.thy ===== *)
theory RequestTemplate
  imports GoValue Matchers
begin

text \<open>
  \<open>request_template.go\<close>: templates \<open>{{steps.<step-id>.response[.<path>]}}\<close> in the JSON of a
  request, their syntax, the path access into the output of an earlier step by reflection, and
  the substitution.  \<open>json.Marshal\<close> of a substituted value is the parameter \<open>marshal\<close>.
\<close>

section \<open>The syntax of a reference\<close>

definition templatePrefix :: string where "templatePrefix = [CHR 0x7B, CHR 0x7B]"
definition templateSuffix :: string where "templateSuffix = [CHR 0x7D, CHR 0x7D]"
definition templateStepsPrefix :: string where "templateStepsPrefix = ''steps.''"
definition templateResponseSegment :: string where "templateResponseSegment = ''response''"
definition templateMinParts :: nat where "templateMinParts = 2"
definition templatePathOffset :: nat where "templatePathOffset = 2"

record stepTemplateReference =
  ref_stepID :: string
  ref_path :: "string list"

definition requestContainsStepTemplate :: "string \<Rightarrow> bool" where
  "requestContainsStepTemplate raw = contains_str raw (templatePrefix @ templateStepsPrefix)"

text \<open>\<open>Inr None\<close> where the code returns \<open>false\<close> without an error.\<close>

definition parsePathSegment :: "string \<Rightarrow> string \<Rightarrow> string result" where
  "parsePathSegment rawValue pathSegment =
     (let normalizedSegment = trim_space pathSegment in
      if normalizedSegment = [] then
        Inl (Errorf ''unsupported request template %q: path segment is empty'' [AStr rawValue])
      else Inr normalizedSegment)"

definition parseStepTemplateReference :: "string \<Rightarrow> stepTemplateReference option result" where
  "parseStepTemplateReference rawValue =
     (let trimmedValue = trim_space rawValue in
      if \<not> has_prefix trimmedValue templatePrefix \<or> \<not> has_suffix trimmedValue templateSuffix then Inr None
      else
        let expression = trim_space
              (drop (length templatePrefix) (take (length trimmedValue - length templateSuffix) trimmedValue)) in
        if \<not> has_prefix expression templateStepsPrefix then Inr None
        else
          let parts = split_on (CHR ''.'') (trim_prefix expression templateStepsPrefix) in
          if length parts < templateMinParts then
            Inl (Errorf ''unsupported request template %q: expected {{steps.<step-id>.response[.<path>]}}''
                   [AStr rawValue])
          else
            let stepID = trim_space (parts ! 0) in
            if stepID = [] then
              Inl (Errorf ''unsupported request template %q: step id is empty'' [AStr rawValue])
            else if parts ! 1 \<noteq> templateResponseSegment then
              Inl (Errorf ''unsupported request template %q: expected .response after step id'' [AStr rawValue])
            else
              rbind (map_result (parsePathSegment rawValue) (drop templatePathOffset parts))
                (\<lambda>path. Inr (Some \<lparr>ref_stepID = stepID, ref_path = path\<rparr>)))"

section \<open>Path access\<close>

partial_function (option) deref_loop :: "heap \<Rightarrow> gval \<Rightarrow> gval comp" where
  "deref_loop h current =
     (case current of
        VPtr None \<Rightarrow> Some (Inl (Err ''value is nil''))
      | VPtr (Some a) \<Rightarrow> deref_loop h (case h a of None \<Rightarrow> VInvalid | Some v \<Rightarrow> v)
      | VIface None \<Rightarrow> Some (Inl (Err ''value is nil''))
      | VIface (Some v) \<Rightarrow> deref_loop h v
      | _ \<Rightarrow> Some (Inr current))"

definition dereferenceValue :: "heap \<Rightarrow> gval \<Rightarrow> gval comp" where
  "dereferenceValue h v = (if v = VInvalid then Some (Inl (Err ''value is invalid'')) else deref_loop h v)"

text \<open>\<open>strings.Split(tag, ",")[0]\<close>.\<close>

definition json_tag :: "field_info \<Rightarrow> string" where
  "json_tag f = split_on (CHR '','') (fi_jsonTag f) ! 0"

fun findStructFieldByPathSegment :: "(field_info \<times> gval) list \<Rightarrow> string \<Rightarrow> gval option" where
  "findStructFieldByPathSegment [] segment = None"
| "findStructFieldByPathSegment ((f, v) # fs) segment =
     (if \<not> fi_exported f then findStructFieldByPathSegment fs segment
      else if fi_name f = segment then Some v
      else
        let jsonTag = json_tag f in
        if jsonTag = [] \<or> jsonTag = ''-'' then findStructFieldByPathSegment fs segment
        else if jsonTag = segment then Some v
        else findStructFieldByPathSegment fs segment)"

definition resolveIndex :: "gval list \<Rightarrow> string \<Rightarrow> gval result" where
  "resolveIndex items segment =
     (case atoi segment of
        None \<Rightarrow> Inl (Errorf ''segment %q is not a valid index'' [AStr segment])
      | Some index \<Rightarrow>
          if index < 0 \<or> int (length items) \<le> index then
            Inl (Errorf ''index %d is out of range'' [AInt index])
          else Inr (to_any (items ! nat index)))"

definition resolveKind :: "gval \<Rightarrow> string \<Rightarrow> gval result" where
  "resolveKind v segment =
     (case v of
        VMap m \<Rightarrow>
          (case mget (case m of None \<Rightarrow> [] | Some kvs \<Rightarrow> kvs) segment of
             None \<Rightarrow> Inl (Errorf ''key %q is not found'' [AStr segment])
           | Some w \<Rightarrow> Inr (to_any w))
      | VAnyMap _ \<Rightarrow> Inl (Errorf ''map key type %s is not supported'' [AErr (Opaque ''reflect.Type'')])
      | VSlice items \<Rightarrow> resolveIndex (case items of None \<Rightarrow> [] | Some xs \<Rightarrow> xs) segment
      | VArray items \<Rightarrow> resolveIndex items segment
      | VStruct fs \<Rightarrow>
          (case findStructFieldByPathSegment fs segment of
             None \<Rightarrow> Inl (Errorf ''field %q is not found'' [AStr segment])
           | Some w \<Rightarrow> Inr (to_any w))
      | _ \<Rightarrow> Inl (Errorf ''value type %T does not support path access'' []))"

definition resolvePathSegment :: "heap \<Rightarrow> gval \<Rightarrow> string \<Rightarrow> gval comp" where
  "resolvePathSegment h value segment =
     comp_bind (dereferenceValue h value) (\<lambda>v. Some (resolveKind v segment))"

text \<open>The loop over the path; \<open>wrap\<close> adds the reference to an error.\<close>

fun resolvePath :: "heap \<Rightarrow> (err \<Rightarrow> err) \<Rightarrow> gval \<Rightarrow> string list \<Rightarrow> gval comp" where
  "resolvePath h wrap currentValue [] = Some (Inr currentValue)"
| "resolvePath h wrap currentValue (pathSegment # path) =
     comp_bind (comp_err wrap (resolvePathSegment h currentValue pathSegment))
       (\<lambda>nextValue. resolvePath h wrap nextValue path)"

definition resolveTemplateReference :: "heap \<Rightarrow> stepTemplateReference \<Rightarrow> gval gomap \<Rightarrow> gval comp" where
  "resolveTemplateReference h reference stepOutputs =
     (case mget stepOutputs (ref_stepID reference) of
        None \<Rightarrow> Some (Inl (Errorf ''request template references step %q, but its output is not available''
                            [AStr (ref_stepID reference)]))
      | Some stepOutput \<Rightarrow>
          resolvePath h
            (\<lambda>e. Errorf ''request template step %q path %q: %w''
               [AStr (ref_stepID reference), AStr (join_with ''.'' (ref_path reference)), AErr e])
            stepOutput (ref_path reference))"

section \<open>Substitution\<close>

function (sequential) resolveTemplateNode :: "heap \<Rightarrow> json \<Rightarrow> gval gomap \<Rightarrow> gval comp" where
  "resolveTemplateNode h (JStr typedNode) stepOutputs =
     (case parseStepTemplateReference typedNode of
        Inl e \<Rightarrow> Some (Inl e)
      | Inr None \<Rightarrow> Some (Inr (VStr typedNode))
      | Inr (Some reference) \<Rightarrow> resolveTemplateReference h reference stepOutputs)"
| "resolveTemplateNode h (JArr items) stepOutputs =
     comp_bind (comp_map (\<lambda>item. resolveTemplateNode h item stepOutputs) items)
       (\<lambda>resolved. Some (Inr (VSlice (Some (map to_iface resolved)))))"
| "resolveTemplateNode h (JObj m) stepOutputs =
     comp_bind (comp_map (\<lambda>e. comp_bind (resolveTemplateNode h (snd e) stepOutputs)
                                  (\<lambda>v. Some (Inr (fst e, to_iface v)))) m)
       (\<lambda>resolved. Some (Inr (VMap (Some resolved))))"
| "resolveTemplateNode h node stepOutputs = Some (Inr (json_val node))"
  by pat_completeness auto
termination
  by (relation "measure (\<lambda>(h, j, out). size j)")
     (auto simp: less_Suc_eq_le intro: size_list_estimation')

type_synonym marshaller = "heap \<Rightarrow> gval \<Rightarrow> string result"

definition resolveStepRequestTemplate ::
    "marshaller \<Rightarrow> heap \<Rightarrow> string \<Rightarrow> gval gomap \<Rightarrow> string comp" where
  "resolveStepRequestTemplate marshal h raw stepOutputs =
     (case json_decode raw of
        Inl e \<Rightarrow> Some (Inl (Errorf ''decode request template: %w'' [AErr (Opaque ''json.Decode'')]))
      | Inr (payload, _) \<Rightarrow>
          comp_bind (resolveTemplateNode h payload stepOutputs) (\<lambda>resolvedPayload.
            Some (map_err (\<lambda>e. Errorf ''marshal resolved request template: %w'' [AErr e])
                    (marshal h resolvedPayload))))"

section \<open>Dereferencing: when it returns\<close>

lemma deref_simps [simp]:
  "deref_loop h (VPtr None) = Some (Inl (Err ''value is nil''))"
  "deref_loop h (VPtr (Some a)) = deref_loop h (case h a of None \<Rightarrow> VInvalid | Some v \<Rightarrow> v)"
  "deref_loop h (VIface None) = Some (Inl (Err ''value is nil''))"
  "deref_loop h (VIface (Some v)) = deref_loop h v"
  "deref_loop h VInvalid = Some (Inr VInvalid)"
  "deref_loop h (VBool b) = Some (Inr (VBool b))"
  "deref_loop h (VInt i) = Some (Inr (VInt i))"
  "deref_loop h (VNum l) = Some (Inr (VNum l))"
  "deref_loop h (VStr s) = Some (Inr (VStr s))"
  "deref_loop h (VSlice xs) = Some (Inr (VSlice xs))"
  "deref_loop h (VArray ys) = Some (Inr (VArray ys))"
  "deref_loop h (VMap m) = Some (Inr (VMap m))"
  "deref_loop h (VAnyMap n) = Some (Inr (VAnyMap n))"
  "deref_loop h (VStruct fs) = Some (Inr (VStruct fs))"
  "deref_loop h (VOther t) = Some (Inr (VOther t))"
  by (subst deref_loop.simps; simp)+

lemma deref_iface: "top_pointer v = None \<Longrightarrow> deref_loop h v \<noteq> None"
proof (induction v rule: top_pointer.induct)
  case (1 a)
  then show ?case by simp
qed simp_all

lemma deref_top: "top_pointer v = Some a \<Longrightarrow> deref_loop h v = deref_loop h (VPtr (Some a))"
  by (induction v rule: top_pointer.induct) auto

lemma deref_returns:
  assumes "ranked rank h"
  shows "deref_loop h v \<noteq> None"
proof (cases "top_pointer v")
  case None
  then show ?thesis by (rule deref_iface)
next
  case (Some a)
  have "deref_loop h (VPtr (Some a)) \<noteq> None"
  proof (induction "rank a" arbitrary: a rule: less_induct)
    case less
    show ?case
    proof (cases "h a")
      case None
      then show ?thesis by simp
    next
      case (Some w)
      show ?thesis
      proof (cases "top_pointer w")
        case None
        then show ?thesis using deref_iface [of w h] by (simp add: Some)
      next
        case top: (Some b)
        have "rank b < rank a" using assms Some top by (auto simp: ranked_def)
        then show ?thesis using less [of b] deref_top [OF top, of h] by (simp add: Some)
      qed
    qed
  qed
  then show ?thesis unfolding deref_top [OF Some] .
qed

text \<open>A set of addresses whose pointers lead back into the set is never left.\<close>

definition pointer_cycle :: "heap \<Rightarrow> nat set \<Rightarrow> bool" where
  "pointer_cycle h A \<longleftrightarrow> (\<forall>a \<in> A. \<exists>v b. h a = Some v \<and> top_pointer v = Some b \<and> b \<in> A)"

lemma deref_cycle_raw:
  assumes "deref_loop h v = Some r"
  shows "\<forall>a. pointer_cycle h A \<longrightarrow> top_pointer v = Some a \<longrightarrow> a \<notin> A"
proof (rule deref_loop.raw_induct
    [where P = "\<lambda>h v r. \<forall>a. pointer_cycle h A \<longrightarrow> top_pointer v = Some a \<longrightarrow> a \<notin> A", OF _ assms])
  fix deref h v r
  assume ih: "\<And>h v y. deref h v = Some y \<Longrightarrow> \<forall>a. pointer_cycle h A \<longrightarrow> top_pointer v = Some a \<longrightarrow> a \<notin> A"
    and body: "(case v of
        VPtr None \<Rightarrow> Some (Inl (Err ''value is nil''))
      | VPtr (Some a) \<Rightarrow> deref h (case h a of None \<Rightarrow> VInvalid | Some v \<Rightarrow> v)
      | VIface None \<Rightarrow> Some (Inl (Err ''value is nil''))
      | VIface (Some v) \<Rightarrow> deref h v
      | _ \<Rightarrow> Some (Inr v)) = Some (r :: gval result)"
  show "\<forall>a. pointer_cycle h A \<longrightarrow> top_pointer v = Some a \<longrightarrow> a \<notin> A"
  proof (intro allI impI notI)
    fix a assume cycle: "pointer_cycle h A" and top: "top_pointer v = Some a" and a: "a \<in> A"
    show False
    proof (cases "\<exists>w. v = VIface (Some w)")
      case True
      then obtain w where "v = VIface (Some w)" by blast
      then show False using ih [of h w r] body cycle top a by auto
    next
      case False
      then have v: "v = VPtr (Some a)" using top by (cases v rule: top_pointer.cases) auto
      obtain w b where "h a = Some w" "top_pointer w = Some b" "b \<in> A"
        using cycle a by (auto simp: pointer_cycle_def)
      then show False using ih [of h w r] body cycle by (auto simp: v)
    qed
  qed
qed

lemma deref_cycle: "pointer_cycle h A \<Longrightarrow> top_pointer v = Some a \<Longrightarrow> a \<in> A \<Longrightarrow> deref_loop h v = None"
  using deref_cycle_raw by (cases "deref_loop h v") blast+

section \<open>Resolution returns\<close>

lemma dereference_returns: "ranked rank h \<Longrightarrow> dereferenceValue h v \<noteq> None"
  by (simp add: dereferenceValue_def deref_returns del: not_None_eq)

lemma resolvePathSegment_returns: "ranked rank h \<Longrightarrow> resolvePathSegment h v seg \<noteq> None"
  unfolding resolvePathSegment_def comp_bind_returns by (simp add: dereference_returns del: not_None_eq)

lemma resolvePath_returns: "ranked rank h \<Longrightarrow> resolvePath h wrap v path \<noteq> None"
proof (induction path arbitrary: v)
  case Nil
  show ?case by simp
next
  case (Cons seg path)
  then show ?case
    using resolvePathSegment_returns [of rank h v seg] by (simp add: comp_bind_returns del: not_None_eq)
qed

lemma resolveReference_returns: "ranked rank h \<Longrightarrow> resolveTemplateReference h ref out \<noteq> None"
  by (simp add: resolveTemplateReference_def resolvePath_returns del: not_None_eq split: option.split)

lemma resolveNode_returns: "ranked rank h \<Longrightarrow> resolveTemplateNode h j out \<noteq> None"
proof (induction h j out rule: resolveTemplateNode.induct)
  case (1 h s out)
  then show ?case
    by (auto simp: resolveReference_returns simp del: not_None_eq split: sum.split option.split)
next
  case (2 h items out)
  then show ?case by (simp add: comp_bind_returns comp_map_returns del: not_None_eq)
next
  case (3 h m out)
  have "comp_map (\<lambda>e. comp_bind (resolveTemplateNode h (snd e) out) (\<lambda>v. Some (Inr (fst e, to_iface v)))) m \<noteq> None"
    by (rule comp_map_returns) (simp add: comp_bind_returns 3 del: not_None_eq)
  then show ?case by (simp add: comp_bind_returns del: not_None_eq)
qed simp_all

lemma resolveRequest_returns: "ranked rank h \<Longrightarrow> resolveStepRequestTemplate marshal h raw out \<noteq> None"
  unfolding resolveStepRequestTemplate_def
  by (auto simp: comp_bind_returns resolveNode_returns simp del: not_None_eq split: sum.split)

section \<open>Requests without templates\<close>

function template_free :: "json \<Rightarrow> bool" where
  "template_free (JStr s) = (parseStepTemplateReference s = Inr None)"
| "template_free (JArr js) = list_all template_free js"
| "template_free (JObj m) = list_all (\<lambda>e. template_free (snd e)) m"
| "template_free JNull = True"
| "template_free (JBool b) = True"
| "template_free (JNum l) = True"
  by pat_completeness auto
termination
  by (relation "measure size") (auto simp: less_Suc_eq_le intro: size_list_estimation')

lemma resolve_free: "template_free j \<Longrightarrow> resolveTemplateNode h j out = Some (Inr (json_val j))"
proof (induction j rule: template_free.induct)
  case (2 js)
  have "comp_map (\<lambda>j. resolveTemplateNode h j out) js = Some (Inr (map json_val js))"
    by (rule comp_map_pure) (use 2 in \<open>auto simp: list_all_iff\<close>)
  then show ?case by simp
next
  case (3 m)
  have "comp_map (\<lambda>e. comp_bind (resolveTemplateNode h (snd e) out) (\<lambda>v. Some (Inr (fst e, to_iface v)))) m =
      Some (Inr (map (\<lambda>e. (fst e, to_iface (json_val (snd e)))) m))"
    by (rule comp_map_pure) (use 3 in \<open>auto simp: list_all_iff\<close>)
  then show ?case by simp
qed simp_all

section \<open>Paths into JSON outputs\<close>

text \<open>What a path means in a JSON value.\<close>

fun json_lookup :: "json \<Rightarrow> string list \<Rightarrow> json option" where
  "json_lookup j [] = Some j"
| "json_lookup j (seg # path) =
     (case j of
        JObj m \<Rightarrow> (case mget m seg of None \<Rightarrow> None | Some i \<Rightarrow> json_lookup i path)
      | JArr js \<Rightarrow>
          (case atoi seg of None \<Rightarrow> None
           | Some n \<Rightarrow> if 0 \<le> n \<and> n < int (length js) then json_lookup (js ! nat n) path else None)
      | _ \<Rightarrow> None)"

lemma json_segment:
  "resolvePathSegment h (json_val j) seg =
     (case json_lookup j [seg] of
        Some i \<Rightarrow> Some (Inr (json_val i))
      | None \<Rightarrow> Some (Inl (projl (the (resolvePathSegment h (json_val j) seg)))))"
  by (cases j) (auto simp: resolvePathSegment_def dereferenceValue_def resolveKind_def resolveIndex_def
      mget_map_snd [of "\<lambda>j. to_iface (json_val j)"] split: option.splits)

lemma json_path:
  "resolvePath h wrap (json_val j) path = Some (Inr v) \<longleftrightarrow> (\<exists>i. json_lookup j path = Some i \<and> v = json_val i)"
proof (induction path arbitrary: j)
  case Nil
  show ?case by auto
next
  case (Cons seg path)
  show ?case
  proof (cases "json_lookup j [seg]")
    case None
    then have "json_lookup j (seg # path) = None"
      by (cases j) (auto split: option.splits if_splits)
    moreover have "\<exists>e. resolvePathSegment h (json_val j) seg = Some (Inl e)"
      using json_segment [of h j seg] None by auto
    ultimately show ?thesis by auto
  next
    case (Some i)
    then have "json_lookup j (seg # path) = json_lookup i path"
      by (cases j) (auto split: option.splits if_splits)
    moreover have "resolvePathSegment h (json_val j) seg = Some (Inr (json_val i))"
      using json_segment [of h j seg] Some by simp
    ultimately show ?thesis using Cons by simp
  qed
qed

section \<open>Rendering a reference\<close>

definition render_reference :: "stepTemplateReference \<Rightarrow> string" where
  "render_reference r = templatePrefix @ templateStepsPrefix @
     join_with ''.'' (ref_stepID r # templateResponseSegment # ref_path r) @ templateSuffix"

text \<open>A step id or a path segment the syntax can express.\<close>

definition plain_segment :: "string \<Rightarrow> bool" where
  "plain_segment s \<longleftrightarrow> s \<noteq> [] \<and> trim_space s = s \<and> CHR ''.'' \<notin> set s"

lemma join_snoc: "xs \<noteq> [] \<Longrightarrow> join_with sep (xs @ [t]) = join_with sep xs @ sep @ t"
proof (induction xs rule: join_with.induct [of _ sep])
  case (2 sep x)
  then show ?case by simp
next
  case (3 sep x y ys)
  then show ?case by (cases ys) simp_all
qed simp

lemma trim_single: "trim_space [CHR 0x7D] = [CHR 0x7D]" "trim_space templateResponseSegment = templateResponseSegment"
  by code_simp+

lemma last_segment:
  assumes "list_all plain_segment path"
  shows "\<exists>u t. join_with ''.'' (sid # templateResponseSegment # path) = u @ CHR ''.'' # t \<and> t \<noteq> [] \<and> trim_space t = t"
proof (cases path rule: rev_cases)
  case Nil
  then show ?thesis
    by (intro exI [of _ sid] exI [of _ templateResponseSegment])
       (simp add: trim_single, simp add: templateResponseSegment_def)
next
  case (snoc path' t)
  have "join_with ''.'' ((sid # templateResponseSegment # path') @ [t]) =
      join_with ''.'' (sid # templateResponseSegment # path') @ ''.'' @ t"
    by (rule join_snoc) simp
  then show ?thesis
    using assms
    by (intro exI [of _ "join_with ''.'' (sid # templateResponseSegment # path')"] exI [of _ t])
       (simp add: snoc plain_segment_def)
qed

lemma trim_expression:
  assumes "list_all plain_segment path"
  shows "trim_space (templateStepsPrefix @ join_with ''.'' (sid # templateResponseSegment # path)) =
    templateStepsPrefix @ join_with ''.'' (sid # templateResponseSegment # path)"
proof -
  obtain u t where ut: "join_with ''.'' (sid # templateResponseSegment # path) = u @ CHR ''.'' # t"
    "t \<noteq> []" "trim_space t = t"
    using last_segment [OF assms] by blast
  have s: "is_ascii (CHR ''s'')" "[CHR ''s''] \<notin> set space_encodings" "is_ascii (CHR ''.'')"
    by (simp_all add: is_ascii_def space_encodings_def)
  show ?thesis
    using trim_space_append [OF s(1,2) ut(3,2) s(3), of "''teps.'' @ u"]
    unfolding ut(1) by (simp add: templateStepsPrefix_def)
qed

lemma trim_braces: "trim_space (templatePrefix @ e @ templateSuffix) = templatePrefix @ e @ templateSuffix"
proof -
  have b: "is_ascii (CHR 0x7B)" "[CHR 0x7B] \<notin> set space_encodings" "is_ascii (CHR 0x7D)"
    by (simp_all add: is_ascii_def space_encodings_def)
  show ?thesis
    using trim_space_append [OF b(1,2) trim_single(1) _ b(3), of "CHR 0x7B # e"]
    by (simp add: templatePrefix_def templateSuffix_def)
qed

lemma parse_segments: "list_all plain_segment path \<Longrightarrow> map_result (parsePathSegment raw) path = Inr path"
  by (rule map_result_Inr_self) (auto simp: parsePathSegment_def plain_segment_def list_all_iff)

lemma parse_rendered:
  assumes "plain_segment (ref_stepID r)" "list_all plain_segment (ref_path r)"
  shows "parseStepTemplateReference (render_reference r) = Inr (Some r)"
proof -
  let ?e = "templateStepsPrefix @ join_with ''.'' (ref_stepID r # templateResponseSegment # ref_path r)"
  have render: "render_reference r = templatePrefix @ ?e @ templateSuffix" by (simp add: render_reference_def)
  have dots: "\<And>p. p \<in> set (ref_stepID r # templateResponseSegment # ref_path r) \<Longrightarrow> CHR ''.'' \<notin> set p"
    using assms by (auto simp: plain_segment_def list_all_iff templateResponseSegment_def)
  have parts: "split_on (CHR ''.'') (trim_prefix ?e templateStepsPrefix) =
      ref_stepID r # templateResponseSegment # ref_path r"
    unfolding trim_prefix_append by (rule split_on_join) (use dots in auto)
  have pre: "has_prefix (templatePrefix @ ?e @ templateSuffix) templatePrefix"
    "has_suffix (templatePrefix @ ?e @ templateSuffix) templateSuffix" "has_prefix ?e templateStepsPrefix"
    by (simp_all add: has_prefix_def has_suffix_def)
  have inner: "drop (length templatePrefix) (take (length (templatePrefix @ ?e @ templateSuffix) - length templateSuffix)
      (templatePrefix @ ?e @ templateSuffix)) = ?e" by simp
  have sid: "ref_stepID r \<noteq> []" "trim_space (ref_stepID r) = ref_stepID r"
    using assms(1) by (simp_all add: plain_segment_def)
  show ?thesis
    unfolding parseStepTemplateReference_def render trim_braces Let_def inner trim_expression [OF assms(2)] parts
    using pre sid parse_segments [OF assms(2)] by (simp add: templateMinParts_def templatePathOffset_def)
qed

section \<open>Properties\<close>

text \<open>
  C39: the parser reads back every reference whose step id and path segments are non-empty,
  trimmed and free of dots.
\<close>

theorem parse_render:
  assumes "plain_segment (ref_stepID r)" "list_all plain_segment (ref_path r)"
  shows "parseStepTemplateReference (render_reference r) = Inr (Some r)"
  using assms by (rule parse_rendered)

theorem parse_render_witness:
  "parseStepTemplateReference
     (render_reference \<lparr>ref_stepID = ''create'', ref_path = [''items'', ''0'']\<rparr>) =
   Inr (Some \<lparr>ref_stepID = ''create'', ref_path = [''items'', ''0'']\<rparr>)"
proof (rule parse_render)
  show "plain_segment (ref_stepID \<lparr>ref_stepID = ''create'', ref_path = [''items'', ''0'']\<rparr>)" by code_simp
  show "list_all plain_segment (ref_path \<lparr>ref_stepID = ''create'', ref_path = [''items'', ''0'']\<rparr>)" by code_simp
qed

text \<open>
  C40: the resolution of a request template returns, with a value or an error, whenever the
  pointers of the heap are ranked, that is, no chain of pointers is infinite.
\<close>

theorem resolveStepRequestTemplate_returns:
  assumes "ranked rank h"
  shows "resolveStepRequestTemplate marshal h raw stepOutputs \<noteq> None"
  using assms by (rule resolveRequest_returns)

definition one_pointer :: heap where
  "one_pointer a = (if a = 1 then Some (VPtr (Some 0)) else if a = 0 then Some (VStr ''x'') else None)"

theorem resolveStepRequestTemplate_returns_witness:
  "resolveStepRequestTemplate (\<lambda>h v. Inr ''null'') one_pointer ''1'' [(''a'', VPtr (Some 1))] \<noteq> None"
proof (rule resolveStepRequestTemplate_returns)
  show "ranked id one_pointer" by (auto simp: ranked_def one_pointer_def split: if_splits)
qed

text \<open>
  A path into an output that is on, or leads to, a cycle of pointers never returns; there
  is no guard in \<open>dereferenceValue\<close>.
\<close>

theorem resolvePathSegment_diverges:
  assumes "pointer_cycle h A" "top_pointer v = Some a" "a \<in> A"
  shows "resolvePathSegment h v segment = None"
proof -
  have "v \<noteq> VInvalid" using assms(2) by auto
  then show ?thesis by (simp add: resolvePathSegment_def dereferenceValue_def deref_cycle [OF assms])
qed

theorem resolvePathSegment_diverges_witness:
  "resolvePathSegment (\<lambda>_. Some (VIface (Some (VPtr (Some 0))))) (VPtr (Some 0)) ''x'' = None"
  by (rule resolvePathSegment_diverges [of _ "{0}"]) (simp_all add: pointer_cycle_def)

text \<open>
  A path resolves in the output of a step that is a JSON value exactly as in the JSON
  value: object keys, array indices in decimal, nothing else.
\<close>

theorem json_output_path:
  "resolvePath h wrap (json_val j) path = Some (Inr v) \<longleftrightarrow>
     (\<exists>i. json_lookup j path = Some i \<and> v = json_val i)"
  by (rule json_path)

text \<open>
  A request without a reference is passed on as the JSON value it is, whatever the outputs,
  where the marshaller encodes JSON values as \<open>json.Marshal\<close> does.
\<close>

theorem template_free_request:
  assumes "portable j" "template_free j" "\<And>i. marshal h (json_val i) = json_marshal i"
  shows "resolveStepRequestTemplate marshal h (json_enc j) stepOutputs = Some (Inr (json_enc j))"
  using assms(2) json_roundtrip [OF assms(1)] portable_encodable [OF assms(1)]
  by (simp add: resolveStepRequestTemplate_def resolve_free assms(3) json_marshal_def)

text \<open>A marshaller that knows JSON values.\<close>

fun gval_json :: "gval \<Rightarrow> json" where
  "gval_json (VBool b) = JBool b"
| "gval_json (VNum l) = JNum l"
| "gval_json (VStr s) = JStr s"
| "gval_json (VIface (Some v)) = gval_json v"
| "gval_json (VSlice (Some vs)) = JArr (map gval_json vs)"
| "gval_json (VMap (Some m)) = JObj (map (\<lambda>e. (fst e, gval_json (snd e))) m)"
| "gval_json _ = JNull"

lemma gval_json_iface: "gval_json (to_iface v) = gval_json v"
  by (cases v) (auto simp: to_iface_def)

lemma gval_json_val: "gval_json (json_val j) = j"
  by (induction j) (auto simp: gval_json_iface comp_def intro!: map_idI)

theorem template_free_request_witness:
  "resolveStepRequestTemplate (\<lambda>h v. json_marshal (gval_json v)) one_pointer (json_enc (JArr [JNum ''1'', JStr ''a''])) [] =
     Some (Inr (json_enc (JArr [JNum ''1'', JStr ''a''])))"
proof (rule template_free_request)
  show "portable (JArr [JNum ''1'', JStr ''a''])" by code_simp
  show "template_free (JArr [JNum ''1'', JStr ''a''])" by code_simp
qed (simp add: gval_json_val)

text \<open>
  The preliminary check misses references the parser accepts: with white space after the
  opening braces a request is taken for a static one, and the reference reaches the handler as
  plain text.
\<close>

theorem quick_check_incomplete:
  "requestContainsStepTemplate (json_enc (JStr ''{{ steps.a.response }}'')) = False \<and>
   parseStepTemplateReference ''{{ steps.a.response }}'' = Inr (Some \<lparr>ref_stepID = ''a'', ref_path = []\<rparr>)"
  by code_simp

end
