(* ===== verification/CaseModel.thy ===== *)
theory CaseModel
  imports RequestTemplate
begin

text \<open>
  The data shared by the loader and the runner (\<open>models.go\<close>, \<open>interfaces.go\<close>) and the handler
  registries (\<open>registry_map.go\<close>).  The type \<open>'w\<close> is the world a handler acts on: the harness, the
  context of the call, and the heap its values live in.  The locale \<open>handler_registry\<close> is what
  the loader relies on.
\<close>

section \<open>models.go and interfaces.go\<close>

definition StepKindPrepare :: string where "StepKindPrepare = ''prepare''"
definition StepKindAction :: string where "StepKindAction = ''action''"
definition StepKindPublish :: string where "StepKindPublish = ''publish''"
definition StepKindAwait :: string where "StepKindAwait = ''await''"
definition StepKindVerify :: string where "StepKindVerify = ''verify''"
definition StepKindCleanup :: string where "StepKindCleanup = ''cleanup''"
definition ResponseModeExact :: string where "ResponseModeExact = ''exact''"
definition ResponseModePartial :: string where "ResponseModePartial = ''partial''"

lemmas kind_defs = StepKindPrepare_def StepKindAction_def StepKindPublish_def StepKindAwait_def
  StepKindVerify_def StepKindCleanup_def
lemmas response_mode_defs = ResponseModeExact_def ResponseModePartial_def

definition stepKinds :: "string list" where
  "stepKinds = [StepKindPrepare, StepKindAction, StepKindPublish, StepKindAwait, StepKindVerify, StepKindCleanup]"

text \<open>
  The interface \<open>Handler\<close>.  \<open>Invoke\<close> yields the new world, the response and a possible error.
\<close>

record 'w handler =
  h_decodeRequest :: "string \<Rightarrow> gval result"
  h_decodeExpectedResponse :: "string \<Rightarrow> gval result"
  h_invoke :: "'w \<Rightarrow> gval \<Rightarrow> 'w \<times> gval \<times> err option"
  h_normalizeResponse :: "gval \<Rightarrow> gval result"

text \<open>A request is ready, or holds the text of a template that is resolved when the step runs.\<close>

datatype step_request =
    Ready gval
  | StepDynamicRequest string

record awaitRetry =
  ar_timeoutMS :: int
  ar_intervalMS :: int
  ar_maxAttempts :: int

record 'w step =
  st_id :: string
  st_kind :: string
  st_handlerName :: string
  st_handler :: "'w handler option" \<comment> \<open>\<^const>\<open>None\<close> is the nil interface\<close>
  st_request :: step_request
  st_retry :: "awaitRetry option"

record 's assert_section =
  as_code :: 's
  as_messageContains :: string
  as_response :: gval
  as_responseFromStep :: string
  as_responseMode :: string

record ('w, 's) test_case =
  tc_name :: string
  tc_sourcePath :: string
  tc_steps :: "'w step list"
  tc_assert :: "'s assert_section"

text \<open>\<open>StatusCodec\<close> and \<open>ErrorInspector\<close>; \<^const>\<open>None\<close> where \<open>FromError\<close> returns \<open>false\<close>.\<close>

record 's statusCodec =
  sc_parse :: "string \<Rightarrow> 's result"
  sc_success :: 's

type_synonym 's errorInspector = "err \<Rightarrow> ('s \<times> string) option"

section \<open>The request of a step\<close>

definition resolveStepRequest :: "marshaller \<Rightarrow> heap \<Rightarrow> 'w step \<Rightarrow> gval gomap \<Rightarrow> gval comp" where
  "resolveStepRequest marshal h s stepOutputs =
     (case st_request s of
        Ready v \<Rightarrow> Some (Inr v)
      | StepDynamicRequest raw \<Rightarrow>
          (case st_handler s of
             None \<Rightarrow> Some (Inl (Err ''handler is nil''))
           | Some handler \<Rightarrow>
               comp_bind (resolveStepRequestTemplate marshal h raw stepOutputs) (\<lambda>resolvedRaw.
                 Some (map_err (\<lambda>e. Errorf ''decode dynamic request: %w'' [AErr e])
                         (h_decodeRequest handler resolvedRaw)))))"

lemma resolveStepRequest_returns: "ranked rank h \<Longrightarrow> resolveStepRequest marshal h s out \<noteq> None"
  by (simp add: resolveStepRequest_def comp_bind_returns resolveRequest_returns del: not_None_eq
      split: step_request.split option.split)

section \<open>The interface of a handler registry\<close>

text \<open>
  A name resolves exactly when it is reported as supported, and the report is sorted without
  repetitions.
\<close>

locale handler_registry =
  fixes resolve :: "'r \<Rightarrow> string \<Rightarrow> 'h result"
    and supported :: "'r \<Rightarrow> string list"
    and valid :: "'r \<Rightarrow> bool"
  assumes resolve_iff: "valid r \<Longrightarrow> is_ok (resolve r name) \<longleftrightarrow> name \<in> set (supported r)"
    and supported_sorted: "valid r \<Longrightarrow> sorted (supported r) \<and> distinct (supported r)"
begin

text \<open>Sorting the report again, as the loader does, changes nothing.\<close>

lemma sort_supported: "valid r \<Longrightarrow> sort (supported r) = supported r"
  using supported_sorted by (simp add: sorted_sort_id)

lemma unresolved: "valid r \<Longrightarrow> resolve r name = Inl e \<Longrightarrow> name \<notin> set (supported r)"
  using resolve_iff [of r name] by simp

lemma resolved: "valid r \<Longrightarrow> resolve r name = Inr h \<Longrightarrow> name \<in> set (supported r)"
  using resolve_iff [of r name] by simp

end

section \<open>registry\_map.go\<close>

record 'h mapRegistry =
  mr_handlers :: "'h gomap"

definition newMapRegistry :: "'h gomap \<Rightarrow> 'h mapRegistry" where
  "newMapRegistry handlers = \<lparr>mr_handlers = mcopy [] handlers\<rparr>"

definition mapRegistryResolve :: "'h mapRegistry \<Rightarrow> string \<Rightarrow> 'h result" where
  "mapRegistryResolve registry name =
     (case mget (mr_handlers registry) name of
        None \<Rightarrow> Inl (Errorf ''unsupported handler %q'' [AStr name])
      | Some handler \<Rightarrow> Inr handler)"

definition mapRegistrySupported :: "'h mapRegistry \<Rightarrow> string list" where
  "mapRegistrySupported registry = sort (mkeys (mr_handlers registry))"

definition wf_registry :: "'h mapRegistry \<Rightarrow> bool" where
  "wf_registry r \<longleftrightarrow> wf_map (mr_handlers r)"

interpretation mr: handler_registry mapRegistryResolve mapRegistrySupported wf_registry
proof
  show "is_ok (mapRegistryResolve r name) \<longleftrightarrow> name \<in> set (mapRegistrySupported r)" for r :: "'a mapRegistry" and name
    using mget_None_iff [of "mr_handlers r" name]
    by (cases "mget (mr_handlers r) name") (auto simp: mapRegistryResolve_def mapRegistrySupported_def)
  show "sorted (mapRegistrySupported r) \<and> distinct (mapRegistrySupported r)"
    if "wf_registry r" for r :: "'a mapRegistry"
    using mkeys_sorted [of "mr_handlers r"] that by (simp add: mapRegistrySupported_def wf_registry_def)
qed

lemma newMapRegistry_wf: "wf_registry (newMapRegistry handlers)"
  by (simp add: wf_registry_def newMapRegistry_def wf_mcopy)

text \<open>
  A registry resolves exactly the names of the map it was made from, to the handlers given
  there, and reports exactly these names in sorted order.
\<close>

theorem map_registry_correct:
  assumes "wf_map handlers"
  shows "mapRegistryResolve (newMapRegistry handlers) name =
      (case mget handlers name of
         Some h \<Rightarrow> Inr h | None \<Rightarrow> Inl (Errorf ''unsupported handler %q'' [AStr name])) \<and>
    mapRegistrySupported (newMapRegistry handlers) = mkeys handlers"
  using mcopy_self [OF assms] mkeys_sorted [OF assms]
  by (auto simp: mapRegistryResolve_def mapRegistrySupported_def newMapRegistry_def sorted_sort_id
      split: option.splits)

theorem map_registry_correct_witness:
  "mapRegistrySupported (newMapRegistry [(''a'', 1 :: int), (''b'', 2)]) = [''a'', ''b'']"
proof -
  have w: "wf_map [(''a'', 1 :: int), (''b'', 2)]" by code_simp
  show ?thesis using map_registry_correct [OF w, of undefined] by (simp add: mkeys_def)
qed

end
