(* ===== verification/ProtoView.thy ===== *)
theory ProtoView
  imports GoValue
begin

text \<open>
  The comparison view of a response (\<open>runner.go\<close>, second half, and
  \<open>internal/protojsonview/normalize.go\<close>): finding protobuf messages inside a value, and turning
  a value into a JSON-like one in which every message is replaced by its JSON form.

  The functions walk over the heap.  Where the code keeps a set of visited pointers, the model
  keeps the addresses not yet visited, \<open>avail\<close>: it starts as the addresses of the heap, which is
  finite, and a pointer outside it has been visited.  This makes every function total.  What a
  message is, its JSON form and the printing of map keys are parameters.
\<close>

section \<open>reflect.DeepEqual\<close>

text \<open>The elements of a container are smaller than the container.\<close>

named_theorems gval_sizes \<open>sizes of the parts of a value\<close>

lemma size_elem [gval_sizes]: "x \<in> set xs \<Longrightarrow> size x < Suc (size_list size xs)"
  by (induction xs) auto

lemma size_value [gval_sizes]: "(k, v) \<in> set m \<Longrightarrow> size v < Suc (size_list (size_prod (\<lambda>_. 0) size) m)"
  by (induction m) auto

lemma size_key_value [gval_sizes]:
  "(k, v) \<in> set m \<Longrightarrow> size k < Suc (size_list (size_prod size size) m)"
  "(k, v) \<in> set m \<Longrightarrow> size v < Suc (size_list (size_prod size size) m)"
  by (induction m) auto

lemma size_zip:
  "(x, y) \<in> set (zip xs ys) \<Longrightarrow> size (x :: gval) < Suc (size_list size xs)"
  "((k, x), z) \<in> set (zip m n) \<Longrightarrow> size x < Suc (size_list (size_prod (\<lambda>_. 0) size) m)"
  by (rule size_elem, erule set_zip_leftD) (rule size_value, erule set_zip_leftD)

lemma size_removeAll: "x \<in> set xs \<Longrightarrow> length (removeAll x xs) < length xs"
  by (simp add: removeAll_filter_not_eq) (rule length_filter_less, auto)

text \<open>A pair of pointers that is being compared already counts as equal.\<close>

function (sequential) deep_equal :: "heap \<Rightarrow> (nat \<times> nat) list \<Rightarrow> gval \<Rightarrow> gval \<Rightarrow> bool" where
  "deep_equal h avail v w =
     (case v of
        VPtr (Some a) \<Rightarrow>
          (case w of
             VPtr (Some b) \<Rightarrow>
               if a = b \<or> (a, b) \<notin> set avail then True
               else (case h a of
                       None \<Rightarrow> False
                     | Some x \<Rightarrow>
                         (case h b of None \<Rightarrow> False | Some y \<Rightarrow> deep_equal h (removeAll (a, b) avail) x y))
           | _ \<Rightarrow> False)
      | VIface (Some x) \<Rightarrow> (case w of VIface (Some y) \<Rightarrow> deep_equal h avail x y | _ \<Rightarrow> False)
      | VSlice (Some xs) \<Rightarrow>
          (case w of
             VSlice (Some ys) \<Rightarrow>
               length xs = length ys \<and> list_all (\<lambda>e. deep_equal h avail (fst e) (snd e)) (zip xs ys)
           | _ \<Rightarrow> False)
      | VArray xs \<Rightarrow>
          (case w of
             VArray ys \<Rightarrow>
               length xs = length ys \<and> list_all (\<lambda>e. deep_equal h avail (fst e) (snd e)) (zip xs ys)
           | _ \<Rightarrow> False)
      | VMap (Some m) \<Rightarrow>
          (case w of
             VMap (Some n) \<Rightarrow>
               map fst m = map fst n \<and>
               list_all (\<lambda>e. deep_equal h avail (snd (fst e)) (snd (snd e))) (zip m n)
           | _ \<Rightarrow> False)
      | VAnyMap (Some m) \<Rightarrow>
          (case w of
             VAnyMap (Some n) \<Rightarrow>
               length m = length n \<and>
               list_all (\<lambda>e. case map_of n (fst e) of None \<Rightarrow> False | Some y \<Rightarrow> deep_equal h avail (snd e) y) m
           | _ \<Rightarrow> False)
      | VStruct m \<Rightarrow>
          (case w of
             VStruct n \<Rightarrow>
               map fst m = map fst n \<and>
               list_all (\<lambda>e. deep_equal h avail (snd (fst e)) (snd (snd e))) (zip m n)
           | _ \<Rightarrow> False)
      | _ \<Rightarrow> v = w)"
  by pat_completeness auto
termination
  by (relation "measures [\<lambda>(h, avail, v, w). length avail, \<lambda>(h, avail, v, w). size v]")
     (auto intro: size_removeAll dest: size_zip size_key_value)

declare deep_equal.simps [simp del]

section \<open>Messages\<close>

record proto_env =
  pe_isProto :: "gval \<Rightarrow> bool" \<comment> \<open>the type implements \<open>proto.Message\<close>\<close>
  pe_isNil :: "gval \<Rightarrow> bool" \<comment> \<open>nil, for values of other kinds\<close>
  pe_marshal :: "gval \<Rightarrow> string result" \<comment> \<open>\<open>protojson.Marshal\<close> with proto names\<close>
  pe_sprint :: "gval \<Rightarrow> string" \<comment> \<open>\<open>fmt.Sprint\<close>\<close>

definition normalizeMessage :: "proto_env \<Rightarrow> gval \<Rightarrow> gval result" where
  "normalizeMessage env msg =
     (if msg = VInvalid then Inl (Err ''normalize proto message: nil message'')
      else rbind (map_err (\<lambda>e. Errorf ''normalize proto message: %w'' [AErr e]) (pe_marshal env msg)) (\<lambda>raw.
        case json_decode raw of
          Inl e \<Rightarrow> Inl (Errorf ''normalize proto message: %w'' [AErr (Opaque ''json.Decode'')])
        | Inr (normalized, _) \<Rightarrow> Inr (json_val normalized)))"

text \<open>Whether a value is nil, for the kinds that can be.\<close>

definition isNilValue :: "proto_env \<Rightarrow> gval \<Rightarrow> bool" where
  "isNilValue env v =
     (case v of VPtr None \<Rightarrow> True | VIface None \<Rightarrow> True | VSlice None \<Rightarrow> True | VMap None \<Rightarrow> True
      | VAnyMap None \<Rightarrow> True | VOther _ \<Rightarrow> pe_isNil env v | _ \<Rightarrow> False)"

definition isProtoMessageValue :: "proto_env \<Rightarrow> gval \<Rightarrow> bool" where
  "isProtoMessageValue env v \<longleftrightarrow> v \<noteq> VInvalid \<and> pe_isProto env v"

definition normalizeProtoMessageValue :: "proto_env \<Rightarrow> gval \<Rightarrow> gval result" where
  "normalizeProtoMessageValue env v = (if isNilValue env v then Inr VInvalid else normalizeMessage env v)"

section \<open>Finding a message\<close>

function (sequential) containsProtoMessageValue :: "proto_env \<Rightarrow> heap \<Rightarrow> nat list \<Rightarrow> gval \<Rightarrow> bool" where
  "containsProtoMessageValue env h avail v \<longleftrightarrow>
     isProtoMessageValue env v \<or>
     (case v of
        VIface (Some w) \<Rightarrow> containsProtoMessageValue env h avail w
      | VPtr (Some a) \<Rightarrow>
          if a \<notin> set avail then False
          else (case h a of None \<Rightarrow> False | Some w \<Rightarrow> containsProtoMessageValue env h (removeAll a avail) w)
      | VSlice (Some xs) \<Rightarrow> list_ex (containsProtoMessageValue env h avail) xs
      | VArray xs \<Rightarrow> list_ex (containsProtoMessageValue env h avail) xs
      | VMap (Some m) \<Rightarrow>
          list_ex (\<lambda>e. isProtoMessageValue env (VStr (fst e)) \<or> containsProtoMessageValue env h avail (snd e)) m
      | VAnyMap (Some m) \<Rightarrow>
          list_ex (\<lambda>e. containsProtoMessageValue env h avail (fst e) \<or>
                       containsProtoMessageValue env h avail (snd e)) m
      | VStruct fs \<Rightarrow> list_ex (\<lambda>e. containsProtoMessageValue env h avail (snd e)) fs
      | _ \<Rightarrow> False)"
  by pat_completeness auto
termination
  by (relation "measures [\<lambda>(env, h, avail, v). length avail, \<lambda>(env, h, avail, v). size v]")
     (auto intro: size_removeAll dest: gval_sizes)

declare containsProtoMessageValue.simps [simp del]

text \<open>\<open>mem\<close> lists the heap cells; \<open>map_of mem\<close> is the heap.\<close>

definition containsProtoMessage :: "proto_env \<Rightarrow> (nat \<times> gval) list \<Rightarrow> gval \<Rightarrow> bool" where
  "containsProtoMessage env mem v = containsProtoMessageValue env (map_of mem) (map fst mem) v"

section \<open>The JSON-like view\<close>

function (sequential) normalizeProtoMessagesInReflectValue ::
    "proto_env \<Rightarrow> heap \<Rightarrow> nat list \<Rightarrow> gval \<Rightarrow> gval result" where
  "normalizeProtoMessagesInReflectValue env h avail v =
     (if v = VInvalid then Inr VInvalid
      else if isProtoMessageValue env v then normalizeProtoMessageValue env v
      else case v of
        VIface None \<Rightarrow> Inr VInvalid
      | VIface (Some w) \<Rightarrow> normalizeProtoMessagesInReflectValue env h avail w
      | VPtr None \<Rightarrow> Inr VInvalid
      | VPtr (Some a) \<Rightarrow>
          if a \<notin> set avail then Inl (Errorf ''cyclic normalized response at %s'' [AErr (Opaque ''reflect.Type'')])
          else (case h a of
                  None \<Rightarrow> Inr VInvalid
                | Some w \<Rightarrow> normalizeProtoMessagesInReflectValue env h (removeAll a avail) w)
      | VSlice None \<Rightarrow> Inr VInvalid
      | VSlice (Some xs) \<Rightarrow>
          rbind (map_result (normalizeProtoMessagesInReflectValue env h avail) xs)
            (\<lambda>items. Inr (VSlice (Some (map to_iface items))))
      | VArray xs \<Rightarrow>
          rbind (map_result (normalizeProtoMessagesInReflectValue env h avail) xs)
            (\<lambda>items. Inr (VSlice (Some (map to_iface items))))
      | VMap None \<Rightarrow> Inr VInvalid
      | VMap (Some m) \<Rightarrow>
          rbind (map_result (\<lambda>e. rbind (normalizeProtoMessagesInReflectValue env h avail (snd e))
                                  (\<lambda>item. Inr (fst e, to_iface item))) m)
            (\<lambda>items. Inr (VMap (Some (mcopy [] items))))
      | VAnyMap None \<Rightarrow> Inr VInvalid
      | VAnyMap (Some m) \<Rightarrow>
          rbind (map_result (\<lambda>e. rbind (normalizeProtoMessagesInReflectValue env h avail (snd e))
                                  (\<lambda>item. Inr (pe_sprint env (fst e), to_iface item))) m)
            (\<lambda>items. Inr (VMap (Some (mcopy [] items))))
      | VStruct fs \<Rightarrow>
          rbind (map_result (\<lambda>e. rbind (normalizeProtoMessagesInReflectValue env h avail (snd e))
                                  (\<lambda>item. Inr (fi_name (fst e), to_iface item)))
                   (filter (\<lambda>e. fi_exported (fst e)) fs))
            (\<lambda>items. Inr (VMap (Some (mcopy [] items))))
      | _ \<Rightarrow> Inr v)"
  by pat_completeness auto
termination
  by (relation "measures [\<lambda>(env, h, avail, v). length avail, \<lambda>(env, h, avail, v). size v]")
     (auto intro: size_removeAll dest: gval_sizes)

declare normalizeProtoMessagesInReflectValue.simps [simp del]

definition normalizeProtoMessagesInValue :: "proto_env \<Rightarrow> (nat \<times> gval) list \<Rightarrow> gval \<Rightarrow> gval result" where
  "normalizeProtoMessagesInValue env mem v =
     normalizeProtoMessagesInReflectValue env (map_of mem) (map fst mem) v"


section \<open>What the search finds\<close>

text \<open>One step into a value; pointers are followed while their address is in \<open>A\<close>.\<close>

inductive child :: "heap \<Rightarrow> nat set \<Rightarrow> gval \<Rightarrow> gval \<Rightarrow> bool" for h :: heap and A :: "nat set" where
  child_iface: "child h A (VIface (Some w)) w"
| child_ptr: "a \<in> A \<Longrightarrow> h a = Some w \<Longrightarrow> child h A (VPtr (Some a)) w"
| child_slice: "w \<in> set xs \<Longrightarrow> child h A (VSlice (Some xs)) w"
| child_array: "w \<in> set xs \<Longrightarrow> child h A (VArray xs) w"
| child_key: "(k, w) \<in> set m \<Longrightarrow> child h A (VMap (Some m)) (VStr k)"
| child_entry: "(k, w) \<in> set m \<Longrightarrow> child h A (VMap (Some m)) w"
| child_any_key: "(k, w) \<in> set n \<Longrightarrow> child h A (VAnyMap (Some n)) k"
| child_any_entry: "(k, w) \<in> set n \<Longrightarrow> child h A (VAnyMap (Some n)) w"
| child_field: "(f, w) \<in> set fs \<Longrightarrow> child h A (VStruct fs) w"

inductive_simps child_simps [simp]:
  "child h A (VIface x) w" "child h A (VPtr x) w" "child h A (VSlice x) w" "child h A (VArray xs) w"
  "child h A (VMap x) w" "child h A (VAnyMap x) w" "child h A (VStruct fs) w" "child h A VInvalid w"
  "child h A (VBool b) w" "child h A (VInt i) w" "child h A (VNum l) w" "child h A (VStr s) w"
  "child h A (VOther t) w"

abbreviation reach :: "heap \<Rightarrow> nat set \<Rightarrow> gval \<Rightarrow> gval \<Rightarrow> bool" where
  "reach h A \<equiv> (child h A)\<^sup>*\<^sup>*"

lemma child_mono: "child h A v w \<Longrightarrow> A \<subseteq> B \<Longrightarrow> child h B v w"
  by (induction rule: child.induct) auto

lemma reach_mono: "reach h A v w \<Longrightarrow> A \<subseteq> B \<Longrightarrow> reach h B v w"
  by (induction rule: rtranclp_induct) (auto intro: child_mono rtranclp.rtrancl_into_rtrancl)

text \<open>A path need not follow the pointer \<open>a\<close>, except as its first step.\<close>

lemma child_avoid: "child h A v w \<Longrightarrow> child h (A - {a}) v w \<or> h a = Some w"
  by (induction rule: child.induct) auto

lemma reach_avoid: "reach h A v w \<Longrightarrow> reach h (A - {a}) v w \<or> (\<exists>x. h a = Some x \<and> reach h (A - {a}) x w)"
proof (induction rule: converse_rtranclp_induct)
  case base
  then show ?case by blast
next
  case (step v z)
  then show ?case
    using child_avoid [OF step.hyps(1), of a] by (meson converse_rtranclp_into_rtranclp)
qed

lemma reach_step: "reach h A v w \<longleftrightarrow> w = v \<or> (\<exists>z. child h A v z \<and> reach h A z w)"
  by (metis converse_rtranclp_into_rtranclp converse_rtranclpE rtranclp.rtrancl_refl)

definition finds :: "proto_env \<Rightarrow> heap \<Rightarrow> nat set \<Rightarrow> gval \<Rightarrow> bool" where
  "finds env h A v \<longleftrightarrow> (\<exists>w. reach h A v w \<and> isProtoMessageValue env w)"

lemma finds_step: "finds env h A v \<longleftrightarrow> isProtoMessageValue env v \<or> (\<exists>z. child h A v z \<and> finds env h A z)"
  unfolding finds_def by (subst reach_step) blast

lemma finds_ptr:
  assumes "a \<in> A" "h a = Some x"
  shows "finds env h A x \<longleftrightarrow> finds env h (A - {a}) x"
proof
  show "finds env h A x \<Longrightarrow> finds env h (A - {a}) x"
    using reach_avoid [of h A x _ a] assms(2) unfolding finds_def by auto
  show "finds env h (A - {a}) x \<Longrightarrow> finds env h A x"
    unfolding finds_def using reach_mono [of h "A - {a}" x _ A] by blast
qed

lemma finds_str: "finds env h A (VStr k) \<longleftrightarrow> isProtoMessageValue env (VStr k)"
  by (subst finds_step) simp

lemma finds_map:
  "(\<exists>z. child h A (VMap (Some x)) z \<and> finds env h A z) \<longleftrightarrow>
     (\<exists>e \<in> set x. isProtoMessageValue env (VStr (fst e)) \<or> finds env h A (snd e))"
  by (auto simp: Bex_def) (metis finds_str)+

lemma contains_finds: "containsProtoMessageValue env h avail v \<longleftrightarrow> finds env h (set avail) v"
proof (induction env h avail v rule: containsProtoMessageValue.induct)
  case (1 env h avail v)
  note eqs = containsProtoMessageValue.simps [of env h avail v] finds_step [of env h "set avail" v]
  show ?case
  proof (cases v)
    case (VPtr p)
    then show ?thesis
      unfolding eqs using 1 finds_ptr [of _ "set avail" h _ env] by (auto split: option.splits)
  next
    case (VMap m)
    show ?thesis
    proof (cases m)
      case (Some x)
      have "containsProtoMessageValue env h avail (snd e) = finds env h (set avail) (snd e)" if "e \<in> set x" for e
        using 1 VMap Some that by auto
      then show ?thesis unfolding eqs by (simp add: VMap Some finds_map list_ex_iff del: child_simps)
    qed (unfold eqs, simp add: VMap)
  qed (unfold eqs, use 1 in \<open>(fastforce simp: list_ex_iff split: option.splits)+\<close>)
qed

text \<open>
  C29: the search for protobuf messages finds one exactly when a message can be reached from the
  value, through any chain of pointers, interfaces, elements, keys and fields, cycles included.
\<close>

theorem containsProtoMessage_correct:
  "containsProtoMessage env mem v \<longleftrightarrow>
     (\<exists>w. reach (map_of mem) UNIV v w \<and> isProtoMessageValue env w)"
proof -
  have "child (map_of mem) UNIV v w \<Longrightarrow> child (map_of mem) (set (map fst mem)) v w" for v w
    by (induction rule: child.induct) (auto intro: map_of_SomeD rev_image_eqI)
  then have "reach (map_of mem) UNIV v w \<Longrightarrow> reach (map_of mem) (set (map fst mem)) v w" for w
    by (metis (no_types, lifting) mono_rtranclp)
  moreover have "reach (map_of mem) (set (map fst mem)) v w \<Longrightarrow> reach (map_of mem) UNIV v w" for w
    by (rule reach_mono) auto
  ultimately show ?thesis unfolding containsProtoMessage_def contains_finds finds_def by blast
qed


section \<open>What the view is\<close>

text \<open>Values without pointers, structs, arrays and maps with other keys.\<close>

inductive json_like :: "gval \<Rightarrow> bool" where
  "json_like VInvalid"
| "json_like (VBool b)"
| "json_like (VInt i)"
| "json_like (VNum l)"
| "json_like (VStr s)"
| "json_like (VOther t)"
| "json_like (VIface None)"
| "json_like v \<Longrightarrow> json_like (VIface (Some v))"
| "\<forall>x \<in> set xs. json_like x \<Longrightarrow> json_like (VSlice (Some xs))"
| "\<forall>e \<in> set m. json_like (snd e) \<Longrightarrow> json_like (VMap (Some m))"

inductive_simps json_like_simps [simp]:
  "json_like VInvalid" "json_like (VBool b)" "json_like (VInt i)" "json_like (VNum l)" "json_like (VStr s)"
  "json_like (VOther t)" "json_like (VIface x)" "json_like (VSlice x)" "json_like (VArray xs)" "json_like (VMap x)"
  "json_like (VAnyMap x)" "json_like (VStruct fs)" "json_like (VPtr a)"

lemma json_like_to_iface [simp]: "json_like (to_iface v) = json_like v"
  by (simp add: to_iface_def)

lemma json_like_json_val: "json_like (json_val j)"
  by (induction j) (auto simp: json_like_simps)

lemma list_all_mcopy: "list_all P m \<Longrightarrow> list_all P kvs \<Longrightarrow> list_all P (mcopy m kvs)"
  unfolding mcopy_def by (induction kvs arbitrary: m) (auto intro: list_all_mput)

lemma json_like_mcopy: "\<forall>e \<in> set kvs. json_like (snd e) \<Longrightarrow> \<forall>e \<in> set (mcopy [] kvs). json_like (snd e)"
  using list_all_mcopy [of "\<lambda>e. json_like (snd e)" "[]" kvs] by (simp add: list_all_iff)

lemma normalizeMessage_json_like: "normalizeMessage env v = Inr r \<Longrightarrow> json_like r"
  by (cases "pe_marshal env v") (auto simp: normalizeMessage_def json_like_json_val split: if_splits sum.splits)

lemma normalizeProtoMessageValue_json_like: "normalizeProtoMessageValue env v = Inr r \<Longrightarrow> json_like r"
  by (auto simp: normalizeProtoMessageValue_def normalizeMessage_json_like split: if_splits)

lemma map_result_all:
  assumes "map_result f xs = Inr ys" "\<And>x y. x \<in> set xs \<Longrightarrow> f x = Inr y \<Longrightarrow> P y"
  shows "\<forall>y \<in> set ys. P y"
proof -
  have "list_all2 (\<lambda>x y. f x = Inr y) xs ys" using assms(1) by (simp add: map_result_Inr_iff)
  then show ?thesis using assms(2) by (induction rule: list_all2_induct) auto
qed

lemma normalize_message:
  "isProtoMessageValue env v \<Longrightarrow>
     normalizeProtoMessagesInReflectValue env h avail v = normalizeProtoMessageValue env v"
  by (simp add: normalizeProtoMessagesInReflectValue.simps isProtoMessageValue_def)

lemma normalize_parts:
  "\<not> isProtoMessageValue env (VPtr p) \<Longrightarrow> normalizeProtoMessagesInReflectValue env h avail (VPtr p) =
     (case p of None \<Rightarrow> Inr VInvalid
      | Some a \<Rightarrow>
          if a \<notin> set avail then Inl (Errorf ''cyclic normalized response at %s'' [AErr (Opaque ''reflect.Type'')])
          else (case h a of None \<Rightarrow> Inr VInvalid
                | Some w \<Rightarrow> normalizeProtoMessagesInReflectValue env h (removeAll a avail) w))"
  "\<not> isProtoMessageValue env (VIface y) \<Longrightarrow> normalizeProtoMessagesInReflectValue env h avail (VIface y) =
     (case y of None \<Rightarrow> Inr VInvalid | Some w \<Rightarrow> normalizeProtoMessagesInReflectValue env h avail w)"
  "\<not> isProtoMessageValue env (VSlice x) \<Longrightarrow> normalizeProtoMessagesInReflectValue env h avail (VSlice x) =
     (case x of None \<Rightarrow> Inr VInvalid
      | Some xs \<Rightarrow> rbind (map_result (normalizeProtoMessagesInReflectValue env h avail) xs)
                     (\<lambda>items. Inr (VSlice (Some (map to_iface items)))))"
  "\<not> isProtoMessageValue env (VArray xs) \<Longrightarrow> normalizeProtoMessagesInReflectValue env h avail (VArray xs) =
     rbind (map_result (normalizeProtoMessagesInReflectValue env h avail) xs)
       (\<lambda>items. Inr (VSlice (Some (map to_iface items))))"
  by (subst normalizeProtoMessagesInReflectValue.simps, simp split: option.split)+

text \<open>The three kinds of maps and structs share their loop.\<close>

definition normalizeEntries ::
    "proto_env \<Rightarrow> heap \<Rightarrow> nat list \<Rightarrow> ('k \<Rightarrow> string) \<Rightarrow> ('k \<times> gval) list \<Rightarrow> gval result" where
  "normalizeEntries env h avail name m =
     rbind (map_result (\<lambda>e. rbind (normalizeProtoMessagesInReflectValue env h avail (snd e))
                             (\<lambda>item. Inr (name (fst e), to_iface item))) m)
       (\<lambda>items. Inr (VMap (Some (mcopy [] items))))"

lemma normalize_entries:
  "\<not> isProtoMessageValue env (VMap x) \<Longrightarrow> normalizeProtoMessagesInReflectValue env h avail (VMap x) =
     (case x of None \<Rightarrow> Inr VInvalid | Some m \<Rightarrow> normalizeEntries env h avail (\<lambda>k. k) m)"
  "\<not> isProtoMessageValue env (VAnyMap y) \<Longrightarrow> normalizeProtoMessagesInReflectValue env h avail (VAnyMap y) =
     (case y of None \<Rightarrow> Inr VInvalid | Some m \<Rightarrow> normalizeEntries env h avail (pe_sprint env) m)"
  "\<not> isProtoMessageValue env (VStruct fs) \<Longrightarrow> normalizeProtoMessagesInReflectValue env h avail (VStruct fs) =
     normalizeEntries env h avail fi_name (filter (\<lambda>e. fi_exported (fst e)) fs)"
  unfolding normalizeEntries_def
  by (subst normalizeProtoMessagesInReflectValue.simps, simp split: option.split)+

lemma normalizeEntries_json_like:
  assumes "normalizeEntries env h avail name m = Inr r"
    "\<And>e r. e \<in> set m \<Longrightarrow> normalizeProtoMessagesInReflectValue env h avail (snd e) = Inr r \<Longrightarrow> json_like r"
  shows "json_like r"
proof -
  obtain items where items: "map_result (\<lambda>e. rbind (normalizeProtoMessagesInReflectValue env h avail (snd e))
      (\<lambda>item. Inr (name (fst e), to_iface item))) m = Inr items" "r = VMap (Some (mcopy [] items))"
    using assms(1) by (auto simp: normalizeEntries_def)
  have "\<forall>e \<in> set items. json_like (snd e)"
    by (rule map_result_all [OF items(1)]) (auto dest: assms(2))
  then show ?thesis using json_like_mcopy by (simp add: items(2))
qed

lemma normalize_json_like:
  "normalizeProtoMessagesInReflectValue env h avail v = Inr r \<Longrightarrow> json_like r"
proof (induction env h avail v arbitrary: r rule: normalizeProtoMessagesInReflectValue.induct)
  case (1 env h avail v)
  show ?case
  proof (cases "v = VInvalid \<or> isProtoMessageValue env v")
    case True
    then show ?thesis using 1(8) normalizeProtoMessageValue_json_like
      by (auto simp: normalize_message normalizeProtoMessagesInReflectValue.simps [of env h avail VInvalid])
  next
    case False
    then have F: "v \<noteq> VInvalid" "\<not> isProtoMessageValue env v" by simp_all
    show ?thesis
    proof (cases v)
      case (VPtr p)
      then show ?thesis using 1(8) F 1(1) [OF F VPtr] by (auto simp: normalize_parts split: option.splits if_splits)
    next
      case (VIface x)
      then show ?thesis using 1(8) F 1(2) [OF F VIface] by (auto simp: normalize_parts split: option.splits)
    next
      case (VSlice x)
      then show ?thesis using 1(8) F 1(3) [OF F VSlice]
        by (auto simp: normalize_parts split: option.splits dest!: map_result_all [where P = json_like])
    next
      case (VArray x)
      then show ?thesis using 1(8) F 1(4) [OF F VArray]
        by (auto simp: normalize_parts dest!: map_result_all [where P = json_like])
    next
      case (VMap x)
      then show ?thesis using 1(8) F 1(5) [OF F VMap]
        by (auto simp: normalize_entries split: option.splits elim: normalizeEntries_json_like)
    next
      case (VAnyMap x)
      then show ?thesis using 1(8) F 1(6) [OF F VAnyMap]
        by (auto simp: normalize_entries split: option.splits elim: normalizeEntries_json_like)
    next
      case (VStruct x)
      then show ?thesis using 1(8) F 1(7) [OF F VStruct]
        by (auto simp: normalize_entries elim: normalizeEntries_json_like)
    qed (use 1(8) F in \<open>auto simp: normalizeProtoMessagesInReflectValue.simps\<close>)
  qed
qed

lemma list_all_zip_snd_eq:
  "map fst m = map fst n \<Longrightarrow> (\<And>x y. (x, y) \<in> set (zip m n) \<Longrightarrow> f (snd x) (snd y) \<longleftrightarrow> snd x = snd y) \<Longrightarrow>
     list_all (\<lambda>e. f (snd (fst e)) (snd (snd e))) (zip m n) \<longleftrightarrow> m = n"
proof (induction m arbitrary: n)
  case (Cons e m)
  then obtain d n' where n: "n = d # n'" "fst e = fst d" "map fst m = map fst n'" by (cases n) auto
  have "list_all (\<lambda>e. f (snd (fst e)) (snd (snd e))) (zip m n') \<longleftrightarrow> m = n'"
    by (rule Cons.IH [OF n(3)]) (use Cons.prems(2) n(1) in auto)
  then show ?case using n Cons.prems(2) [of e d] by (auto simp: prod_eq_iff)
qed simp

lemma list_all_zip_eq:
  "length xs = length ys \<Longrightarrow> (\<And>x y. (x, y) \<in> set (zip xs ys) \<Longrightarrow> f x y \<longleftrightarrow> x = y) \<Longrightarrow>
     list_all (\<lambda>e. f (fst e) (snd e)) (zip xs ys) \<longleftrightarrow> xs = ys"
  by (induction xs ys rule: list_induct2) auto

text \<open>On such values deep equality is equality.\<close>

lemma deep_equal_json_like: "json_like v \<Longrightarrow> deep_equal h avail v w \<longleftrightarrow> v = w"
proof (induction h avail v w rule: deep_equal.induct)
  case (1 h avail v w)
  note prem = 1(8) and IHs = 1(1-7)
  note eq = deep_equal.simps [of h avail v w]
  show ?case
  proof (cases v)
    case (VIface x)
    then show ?thesis unfolding eq using IHs(2) prem by (cases x) (auto split: gval.split option.split)
  next
    case (VSlice x)
    show ?thesis
    proof (cases "\<exists>xs ys. x = Some xs \<and> w = VSlice (Some ys) \<and> length xs = length ys")
      case True
      then obtain xs ys where xy: "x = Some xs" "w = VSlice (Some ys)" "length xs = length ys" by blast
      have "list_all (\<lambda>e. deep_equal h avail (fst e) (snd e)) (zip xs ys) \<longleftrightarrow> xs = ys"
      proof (rule list_all_zip_eq [OF xy(3)])
        fix a b assume ab: "(a, b) \<in> set (zip xs ys)"
        then have "json_like a" using prem VSlice xy(1) by (auto dest: set_zip_leftD)
        then show "deep_equal h avail a b \<longleftrightarrow> a = b"
          using IHs(3) [of "Some xs" xs "Some ys" ys "(a, b)"] VSlice xy ab by simp
      qed
      then show ?thesis unfolding eq by (simp add: VSlice xy)
    qed (unfold eq, cases w, auto simp: VSlice split: option.splits)
  next
    case (VMap x)
    show ?thesis
    proof (cases "\<exists>xs ys. x = Some xs \<and> w = VMap (Some ys) \<and> map fst xs = map fst ys")
      case True
      then obtain xs ys where xy: "x = Some xs" "w = VMap (Some ys)" "map fst xs = map fst ys" by blast
      have "list_all (\<lambda>e. deep_equal h avail (snd (fst e)) (snd (snd e))) (zip xs ys) \<longleftrightarrow> xs = ys"
      proof (rule list_all_zip_snd_eq [OF xy(3)])
        fix a b assume ab: "(a, b) \<in> set (zip xs ys)"
        then have "json_like (snd a)" using prem VMap xy(1) by (auto dest: set_zip_leftD)
        then show "deep_equal h avail (snd a) (snd b) \<longleftrightarrow> snd a = snd b"
          using IHs(5) [of "Some xs" xs "Some ys" ys "(a, b)"] VMap xy ab by simp
      qed
      then show ?thesis unfolding eq by (simp add: VMap xy)
    qed (unfold eq, cases w, auto simp: VMap split: option.splits)
  qed (unfold eq, use prem in auto)
qed

end
