(* ===== verification/StepRunner.thy ===== *)
theory StepRunner
  imports CaseModel ProtoView
begin

text \<open>
  The execution of one case (\<open>runner.go\<close>): the loop over the steps with its treatment of failed
  and of cleanup steps, one step, and the retries of an await step.

  Everything outside the repository that a step touches is in the world \<open>'w\<close> and in the record
  \<open>runtime\<close>: the context with its deadline, the memory that values point into, \<open>json.Marshal\<close>
  and \<open>fmt.Sprint\<close> of a Go value, and \<open>backoff.Retry\<close>.  What the package \<open>backoff\<close> documents of
  \<open>Retry\<close> is the predicate \<open>retry_contract\<close>, which the properties have as a hypothesis.
\<close>

section \<open>What the runner calls\<close>

text \<open>An operation that is retried fails for now, or, after \<open>backoff.Permanent\<close>, for good.\<close>

datatype retry_error = Transient err | Permanent err

text \<open>The variables of \<open>executeAwaitStep\<close> its operation assigns to.\<close>

record await_vars =
  av_lastObservedOutput :: gval
  av_lastObservedErr :: "err option"
  av_attemptsMade :: int

type_synonym 's operation = "'s \<Rightarrow> 's \<times> gval \<times> retry_error option"
type_synonym 's retrier = "'s operation \<Rightarrow> int \<Rightarrow> 's \<Rightarrow> 's \<times> gval \<times> err option"

record 'w runtime =
  rt_withTimeout :: "int \<Rightarrow> 'w \<Rightarrow> 'w" \<comment> \<open>nanoseconds; the derived context is current afterwards\<close>
  rt_cancel :: "'w \<Rightarrow> 'w" \<comment> \<open>the run context is current again\<close>
  rt_ctxErr :: "'w \<Rightarrow> err option" \<comment> \<open>\<open>Err()\<close> of the current context\<close>
  rt_retry :: "('w \<times> await_vars) retrier" \<comment> \<open>\<open>backoff.Retry\<close>, constant interval in nanoseconds\<close>
  rt_mem :: "'w \<Rightarrow> (nat \<times> gval) list"
  rt_marshal :: marshaller
  rt_sprint :: "'w \<Rightarrow> gval \<Rightarrow> string"

abbreviation rt_heap :: "'w runtime \<Rightarrow> 'w \<Rightarrow> heap" where
  "rt_heap rt w \<equiv> map_of (rt_mem rt w)"

section \<open>One step\<close>

definition stepExecutionError :: "'w step \<Rightarrow> err \<Rightarrow> err" where
  "stepExecutionError s cause =
     Errorf ''step.id=%s kind=%s handler=%s: %w''
       [AStr (st_id s), AStr (st_kind s), AStr (st_handlerName s), AErr cause]"

text \<open>The details are text in the code; here they are an error that is not wrapped.\<close>

definition buildAwaitRetryError ::
    "'w runtime \<Rightarrow> 'w \<Rightarrow> 'w step \<Rightarrow> awaitRetry \<Rightarrow> int \<Rightarrow> gval \<Rightarrow> err option \<Rightarrow> err option \<Rightarrow> err" where
  "buildAwaitRetryError rt w s retryPolicy attemptsMade lastObservedOutput lastObservedErr cause =
     (let details0 = Errorf
            ''await retry exhausted: policy={timeout_ms=%d interval_ms=%d max_attempts=%d} attempts=%d''
            [AInt (ar_timeoutMS retryPolicy), AInt (ar_intervalMS retryPolicy), AInt (ar_maxAttempts retryPolicy),
             AInt attemptsMade];
          details1 = (case cause of None \<Rightarrow> details0
                      | Some c \<Rightarrow> Errorf ''%s cause=%v'' [AText details0, AText c]);
          details2 = (case lastObservedErr of None \<Rightarrow> details1
                      | Some e \<Rightarrow> Errorf ''%s last_error=%v'' [AText details1, AText e]);
          details = (if lastObservedOutput = VInvalid then details2
                     else Errorf ''%s last_response=%v'' [AText details2, AStr (rt_sprint rt w lastObservedOutput)]);
          wrapped = (case lastObservedErr of Some e \<Rightarrow> e
                     | None \<Rightarrow> (case cause of Some c \<Rightarrow> c | None \<Rightarrow> Err ''await retry exhausted''))
      in Errorf ''step.id=%s kind=%s handler=%s: %s: %w''
           [AStr (st_id s), AStr (st_kind s), AStr (st_handlerName s), AText details, AErr wrapped])"

text \<open>A request that is still a template is passed on as the struct it is.\<close>

definition request_value :: "step_request \<Rightarrow> gval" where
  "request_value q = (case q of Ready v \<Rightarrow> v | StepDynamicRequest raw \<Rightarrow> VOther raw)"

definition awaitOperation :: "'w handler \<Rightarrow> gval \<Rightarrow> int \<Rightarrow> ('w \<times> await_vars) operation" where
  "awaitOperation handler request maxAttempts = (\<lambda>(w, vars).
     let n = av_attemptsMade vars + 1;
         (w', stepOutput, invokeErr) = h_invoke handler w request in
     case invokeErr of
       None \<Rightarrow> ((w', vars\<lparr>av_attemptsMade := n\<rparr>), stepOutput, None)
     | Some e \<Rightarrow>
         ((w', \<lparr>av_lastObservedOutput = stepOutput, av_lastObservedErr = Some e, av_attemptsMade = n\<rparr>),
          stepOutput, Some (if maxAttempts \<le> n then Permanent e else Transient e)))"

definition executeAwaitStep :: "'w runtime \<Rightarrow> 'w handler \<Rightarrow> 'w \<Rightarrow> 'w step \<Rightarrow> 'w \<times> gval result" where
  "executeAwaitStep rt handler w s =
     (case st_retry s of
        None \<Rightarrow> (w, Inl (stepExecutionError s (Err ''retry policy is required for await step'')))
      | Some retryPolicy \<Rightarrow>
          if ar_maxAttempts retryPolicy \<le> 0 then
            (w, Inl (buildAwaitRetryError rt w s retryPolicy 0 VInvalid None (Some (Err ''max attempts reached''))))
          else
            let request = request_value (st_request s);
                ((w1, vars), res, retryErr) =
                  rt_retry rt (awaitOperation handler request (ar_maxAttempts retryPolicy))
                    (wrap64 (ar_intervalMS retryPolicy * 1000000))
                    (rt_withTimeout rt (wrap64 (ar_timeoutMS retryPolicy * 1000000)) w,
                     \<lparr>av_lastObservedOutput = VInvalid, av_lastObservedErr = None, av_attemptsMade = 0\<rparr>)
            in case retryErr of
                 None \<Rightarrow> (rt_cancel rt w1, Inr res)
               | Some _ \<Rightarrow>
                   if rt_ctxErr rt w1 \<noteq> None \<and> av_attemptsMade vars < ar_maxAttempts retryPolicy then
                     (let (w2, finalOutput, finalErr) = h_invoke handler w1 request;
                          n = av_attemptsMade vars + 1
                      in case finalErr of
                           None \<Rightarrow> (rt_cancel rt w2, Inr finalOutput)
                         | Some e \<Rightarrow>
                             (rt_cancel rt w2, Inl (buildAwaitRetryError rt w2 s retryPolicy n
                                (if finalOutput \<noteq> VInvalid then finalOutput else av_lastObservedOutput vars)
                                (Some e) (rt_ctxErr rt w2))))
                   else
                     (rt_cancel rt w1, Inl (buildAwaitRetryError rt w1 s retryPolicy (av_attemptsMade vars)
                        (av_lastObservedOutput vars) (av_lastObservedErr vars)
                        (Some (case rt_ctxErr rt w1 of None \<Rightarrow> Err ''max attempts reached'' | Some c \<Rightarrow> c)))))"

definition executeCaseStep :: "'w runtime \<Rightarrow> 'w \<Rightarrow> 'w step \<Rightarrow> 'w \<times> gval result" where
  "executeCaseStep rt w s =
     (case st_handler s of
        None \<Rightarrow> (w, Inl (stepExecutionError s (Err ''handler is nil'')))
      | Some handler \<Rightarrow>
          if st_kind s = StepKindAwait then executeAwaitStep rt handler w s
          else
            (let (w', stepOutput, e) = h_invoke handler w (request_value (st_request s))
             in case e of
                  None \<Rightarrow> (w', Inr stepOutput)
                | Some e \<Rightarrow> (w', Inl (stepExecutionError s e))))"

section \<open>The loop over the steps\<close>

record 'w run_state =
  rs_world :: 'w
  rs_stepOutputs :: "gval gomap"
  rs_stepsByID :: "'w step gomap"
  rs_lastActionStepID :: string
  rs_executionErr :: "err option"

definition initialRun :: "'w \<Rightarrow> 'w run_state" where
  "initialRun w = \<lparr>rs_world = w, rs_stepOutputs = [], rs_stepsByID = [], rs_lastActionStepID = [],
     rs_executionErr = None\<rparr>"

text \<open>A failed cleanup step adds its error, any other failed step sets the error of the run.\<close>

definition failStep :: "'w step \<Rightarrow> err \<Rightarrow> 'w run_state \<Rightarrow> 'w run_state" where
  "failStep s e st =
     st\<lparr>rs_executionErr := Some (if st_kind s = StepKindCleanup then errors_join (rs_executionErr st) e else e)\<rparr>"

text \<open>The body of the loop; \<^const>\<open>None\<close> where the resolution of a template runs forever.\<close>

definition runStep :: "'w runtime \<Rightarrow> 'w step \<Rightarrow> 'w run_state \<Rightarrow> 'w run_state option" where
  "runStep rt s st0 =
     (let st = st0\<lparr>rs_stepsByID := mput (st_id s) s (rs_stepsByID st0)\<rparr> in
      if rs_executionErr st \<noteq> None \<and> st_kind s \<noteq> StepKindCleanup then Some st
      else case resolveStepRequest (rt_marshal rt) (rt_heap rt (rs_world st)) s (rs_stepOutputs st) of
        None \<Rightarrow> None
      | Some (Inl e) \<Rightarrow> Some (failStep s (stepExecutionError s (Errorf ''resolve request: %w'' [AErr e])) st)
      | Some (Inr resolvedRequest) \<Rightarrow>
          (let (w, r) = executeCaseStep rt (rs_world st) (s\<lparr>st_request := Ready resolvedRequest\<rparr>);
               st' = st\<lparr>rs_world := w\<rparr>
           in case r of
                Inl e \<Rightarrow> Some (failStep s e st')
              | Inr stepOutput \<Rightarrow>
                  Some (st'\<lparr>rs_stepOutputs := mput (st_id s) stepOutput (rs_stepOutputs st'),
                            rs_lastActionStepID := (if st_kind s = StepKindAction then st_id s
                                                    else rs_lastActionStepID st')\<rparr>)))"

fun runSteps :: "'w runtime \<Rightarrow> 'w step list \<Rightarrow> 'w run_state \<Rightarrow> 'w run_state option" where
  "runSteps rt [] st = Some st"
| "runSteps rt (s # ss) st = Option.bind (runStep rt s st) (runSteps rt ss)"


section \<open>Retries\<close>

text \<open>
  What \<open>backoff.Retry\<close> documents: the operation runs at least once, its first success is the
  result, a permanent error ends the retries, and after any other failure \<open>Retry\<close> either waits and
  tries again or gives up with an error.  While it waits the world may change by \<open>env\<close>.
\<close>

inductive retry_runs ::
    "('w \<Rightarrow> 'w \<Rightarrow> bool) \<Rightarrow> ('w \<times> 'l) operation \<Rightarrow> 'w \<times> 'l \<Rightarrow> ('w \<times> 'l) \<times> gval \<times> err option \<Rightarrow> bool"
  for env :: "'w \<Rightarrow> 'w \<Rightarrow> bool" and op :: "('w \<times> 'l) operation" where
  succeeds: "op s = (s', v, None) \<Longrightarrow> retry_runs env op s (s', v, None)"
| stops: "op s = (s', v, Some (Permanent e)) \<Longrightarrow> retry_runs env op s (s', v, Some e)"
| gives_up: "op s = ((w, l), v, Some (Transient e)) \<Longrightarrow> env w w' \<Longrightarrow>
    retry_runs env op s ((w', l), v, Some e')"
| again: "op s = ((w, l), v, Some (Transient e)) \<Longrightarrow> env w w' \<Longrightarrow> retry_runs env op (w', l) r \<Longrightarrow>
    retry_runs env op s r"

definition retry_contract :: "('w \<Rightarrow> 'w \<Rightarrow> bool) \<Rightarrow> 'w runtime \<Rightarrow> bool" where
  "retry_contract env rt \<longleftrightarrow> (\<forall>op interval s. retry_runs env op s (rt_retry rt op interval s))"

text \<open>
  A log of the calls of a handler: a call adds its outcome, nothing else the runner does to the
  world changes the log.
\<close>

definition logs_calls ::
    "('w \<Rightarrow> (gval \<times> err option) list) \<Rightarrow> ('w \<Rightarrow> 'w \<Rightarrow> bool) \<Rightarrow> 'w runtime \<Rightarrow> 'w handler \<Rightarrow> bool" where
  "logs_calls log env rt handler \<longleftrightarrow>
     (\<forall>w q w' v e. h_invoke handler w q = (w', v, e) \<longrightarrow> log w' = log w @ [(v, e)]) \<and>
     (\<forall>w w'. env w w' \<longrightarrow> log w' = log w) \<and>
     (\<forall>d w. log (rt_withTimeout rt d w) = log w) \<and> (\<forall>w. log (rt_cancel rt w) = log w)"

definition failed_calls :: "(gval \<times> err option) list \<Rightarrow> bool" where
  "failed_calls cs \<longleftrightarrow> (\<forall>c \<in> set cs. snd c \<noteq> None)"

lemma failed_calls_simps [simp]:
  "failed_calls []" "failed_calls (c # cs) \<longleftrightarrow> snd c \<noteq> None \<and> failed_calls cs"
  "failed_calls (cs @ ds) \<longleftrightarrow> failed_calls cs \<and> failed_calls ds"
  by (auto simp: failed_calls_def)

text \<open>
  The calls an await step made: all but the last failed, and the last one is the outcome.
\<close>

definition await_outcome :: "int \<Rightarrow> (gval \<times> err option) list \<Rightarrow> gval result \<Rightarrow> bool" where
  "await_outcome maxAttempts calls r \<longleftrightarrow>
     calls \<noteq> [] \<and> int (length calls) \<le> maxAttempts \<and> failed_calls (butlast calls) \<and>
     (case r of
        Inr v \<Rightarrow> last calls = (v, None)
      | Inl e \<Rightarrow> (\<exists>c. snd (last calls) = Some c \<and> err_is c e))"

lemma retry_runs_calls:
  assumes "retry_runs env (awaitOperation handler q n) (w, vars) ((w', vars'), v, eo)"
    and "logs_calls log env rt handler" "av_attemptsMade vars < n"
  obtains calls where "log w' = log w @ calls" "calls \<noteq> []" "failed_calls (butlast calls)"
    "av_attemptsMade vars' = av_attemptsMade vars + int (length calls)" "av_attemptsMade vars' \<le> n"
    "if eo = None then last calls = (v, None)
     else snd (last calls) \<noteq> None \<and> snd (last calls) = av_lastObservedErr vars'"
proof -
  define op where "op = awaitOperation handler q n"
  have call: "\<exists>u. log w1 = log w @ [(u, eo')] \<and> u = v' \<and> av_attemptsMade l1 = av_attemptsMade l + 1 \<and>
      (case ro of None \<Rightarrow> eo' = None
       | Some (Permanent e) \<Rightarrow> eo' = Some e \<and> av_lastObservedErr l1 = Some e
       | Some (Transient e) \<Rightarrow> eo' = Some e \<and> av_lastObservedErr l1 = Some e \<and> av_attemptsMade l1 < n)"
    if "op (w, l) = ((w1, l1), v', ro)" "h_invoke handler w q = (w2, v2, eo')" for w l w1 l1 v' ro w2 v2 eo'
    using that assms(2) unfolding op_def logs_calls_def awaitOperation_def
    by (auto simp: Let_def split: option.splits if_splits)
  have "\<exists>calls. log (fst (fst r)) = log (fst s) @ calls \<and> calls \<noteq> [] \<and> failed_calls (butlast calls) \<and>
      av_attemptsMade (snd (fst r)) = av_attemptsMade (snd s) + int (length calls) \<and>
      av_attemptsMade (snd (fst r)) \<le> n \<and>
      (if snd (snd r) = None then last calls = (fst (snd r), None)
       else snd (last calls) \<noteq> None \<and> snd (last calls) = av_lastObservedErr (snd (fst r)))"
    if "retry_runs env op s r" "av_attemptsMade (snd s) < n" for s r
    using that
  proof (induction rule: retry_runs.induct)
    case (succeeds s s' v)
    obtain w l w1 l1 where s: "s = (w, l)" "s' = (w1, l1)" by (cases s; cases s')
    obtain w2 v2 eo' where "h_invoke handler w q = (w2, v2, eo')" by (rule prod_cases3)
    from call [OF succeeds.hyps [unfolded s] this] show ?case
      using succeeds.prems by (auto simp: s intro!: exI [of _ "[(v, None)]"])
  next
    case (stops s s' v e)
    obtain w l w1 l1 where s: "s = (w, l)" "s' = (w1, l1)" by (cases s; cases s')
    obtain w2 v2 eo' where "h_invoke handler w q = (w2, v2, eo')" by (rule prod_cases3)
    from call [OF stops.hyps [unfolded s] this] show ?case
      using stops.prems by (auto simp: s intro!: exI [of _ "[(v, Some e)]"])
  next
    case (gives_up s w1 l1 v e w' e')
    obtain w l where s: "s = (w, l)" by (cases s)
    obtain w2 v2 eo' where "h_invoke handler w q = (w2, v2, eo')" by (rule prod_cases3)
    from call [OF gives_up.hyps(1) [unfolded s] this] show ?case
      using gives_up assms(2) by (auto simp: s logs_calls_def intro!: exI [of _ "[(v, Some e)]"])
  next
    case (again s w1 l1 v e w' r)
    obtain w l where s: "s = (w, l)" by (cases s)
    obtain w2 v2 eo' where "h_invoke handler w q = (w2, v2, eo')" by (rule prod_cases3)
    note c = call [OF again.hyps(1) [unfolded s] this]
    then obtain calls where calls: "log (fst (fst r)) = log w' @ calls" "calls \<noteq> []" "failed_calls (butlast calls)"
      "av_attemptsMade (snd (fst r)) = av_attemptsMade l1 + int (length calls)"
      "av_attemptsMade (snd (fst r)) \<le> n"
      "if snd (snd r) = None then last calls = (fst (snd r), None)
       else snd (last calls) \<noteq> None \<and> snd (last calls) = av_lastObservedErr (snd (fst r))"
      using again.IH by auto
    have "log w' = log w1" using again.hyps(2) assms(2) by (simp add: logs_calls_def)
    then show ?case
      using c calls by (cases "snd (snd r)"; cases "av_lastObservedErr (snd (fst r))") (auto simp: s intro!: exI [of _ "(v, Some e) # calls"])
  qed
  from this [OF assms(1) [folded op_def], unfolded fst_conv snd_conv, OF assms(3)] that show thesis by blast
qed

lemma err_is_buildAwaitRetryError: "err_is c (buildAwaitRetryError rt w s p n out (Some c) cause)"
  by (simp add: buildAwaitRetryError_def Let_def)

lemma err_is_stepExecutionError: "err_is c (stepExecutionError s c)"
  by (simp add: stepExecutionError_def)

text \<open>
  C7: an await step calls its handler at least once and at most \<open>max_attempts\<close> times, also when the
  deadline passes and one last call is made.  It succeeds exactly with the first call that
  succeeds; otherwise every call failed and the error wraps the error of the last one.
\<close>

theorem executeAwaitStep_calls:
  assumes "retry_contract env rt" "logs_calls log env rt handler"
    and "st_retry s = Some p" "0 < ar_maxAttempts p"
    and "executeAwaitStep rt handler w s = (w', r)"
  shows "\<exists>calls. log w' = log w @ calls \<and> await_outcome (ar_maxAttempts p) calls r"
proof -
  let ?q = "request_value (st_request s)" and ?n = "ar_maxAttempts p"
  let ?s0 = "(rt_withTimeout rt (wrap64 (ar_timeoutMS p * 1000000)) w,
    \<lparr>av_lastObservedOutput = VInvalid, av_lastObservedErr = None, av_attemptsMade = 0\<rparr>)"
  obtain w1 vars v eo where run: "rt_retry rt (awaitOperation handler ?q ?n)
      (wrap64 (ar_intervalMS p * 1000000)) ?s0 = ((w1, vars), v, eo)" by (metis prod.exhaust)
  then have "retry_runs env (awaitOperation handler ?q ?n) ?s0 ((w1, vars), v, eo)"
    using assms(1) unfolding retry_contract_def by metis
  from retry_runs_calls [OF this assms(2)] assms(4)
  obtain calls where calls: "log w1 = log (fst ?s0) @ calls" "calls \<noteq> []" "failed_calls (butlast calls)"
    "av_attemptsMade vars = int (length calls)" "av_attemptsMade vars \<le> ?n"
    "if eo = None then last calls = (v, None)
     else snd (last calls) \<noteq> None \<and> snd (last calls) = av_lastObservedErr vars"
    by auto
  have log: "log (fst ?s0) = log w" "log (rt_cancel rt u) = log u" for u
    using assms(2) by (simp_all add: logs_calls_def)
  have failed: "failed_calls calls" if "eo \<noteq> None"
    using calls(2,3,6) that by (cases calls rule: rev_cases) auto
  note r = assms(5) [unfolded executeAwaitStep_def assms(3) option.case Let_def run prod.case]
  show ?thesis
  proof (cases "eo \<noteq> None \<and> rt_ctxErr rt w1 \<noteq> None \<and> av_attemptsMade vars < ?n")
    case True
    obtain w2 out fe where inv: "h_invoke handler w1 ?q = (w2, out, fe)" by (metis prod.exhaust)
    then have "log w2 = log w @ calls @ [(out, fe)]"
      using assms(2) calls(1) log by (simp add: logs_calls_def)
    then show ?thesis
      using r True assms(4) inv log calls(4) failed
      by (intro exI [of _ "calls @ [(out, fe)]"])
         (auto simp: await_outcome_def err_is_buildAwaitRetryError split: option.splits)
  next
    case False
    then show ?thesis
      using r assms(4) log calls
      by (cases "av_lastObservedErr vars"; intro exI [of _ calls]) (auto simp: await_outcome_def err_is_buildAwaitRetryError split: option.splits if_splits)
  qed
qed


text \<open>A world that is the log of its calls, a handler that succeeds at its second call, and a
  retrier that tries twice.\<close>

definition try_twice :: "'s retrier" where
  "try_twice op interval s =
     (let (s1, v, r) = op s in
      case r of
        None \<Rightarrow> (s1, v, None)
      | Some (Permanent e) \<Rightarrow> (s1, v, Some e)
      | Some (Transient e) \<Rightarrow>
          (let (s2, v2, r2) = op s1 in
           case r2 of
             None \<Rightarrow> (s2, v2, None)
           | Some (Permanent e2) \<Rightarrow> (s2, v2, Some e2)
           | Some (Transient e2) \<Rightarrow> (s2, v2, Some e2)))"

type_synonym call_log = "(gval \<times> err option) list"

definition log_runtime :: "call_log runtime" where
  "log_runtime = \<lparr>rt_withTimeout = (\<lambda>d w. w), rt_cancel = (\<lambda>w. w), rt_ctxErr = (\<lambda>w. None),
     rt_retry = try_twice, rt_mem = (\<lambda>w. []), rt_marshal = (\<lambda>h v. json_marshal (gval_json v)),
     rt_sprint = (\<lambda>w v. [])\<rparr>"

definition second_call :: "call_log handler" where
  "second_call = \<lparr>h_decodeRequest = (\<lambda>raw. Inr (VStr raw)), h_decodeExpectedResponse = (\<lambda>raw. Inr (VStr raw)),
     h_invoke = (\<lambda>w q. if w = [] then (w @ [(VInvalid, Some (Err ''not yet''))], VInvalid, Some (Err ''not yet''))
                       else (w @ [(q, None)], q, None)),
     h_normalizeResponse = (\<lambda>v. Inr v)\<rparr>"

definition await_step :: "call_log step" where
  "await_step = \<lparr>st_id = ''a'', st_kind = StepKindAwait, st_handlerName = ''h'', st_handler = Some second_call,
     st_request = Ready (VInt 1), st_retry = Some \<lparr>ar_timeoutMS = 100, ar_intervalMS = 10, ar_maxAttempts = 3\<rparr>\<rparr>"

lemma try_twice_runs: "retry_runs (=) op s (try_twice op interval s)"
proof -
  obtain w1 l1 v r where 1: "op s = ((w1, l1), v, r)" by (metis prod.exhaust)
  obtain w2 l2 v2 r2 where 2: "op (w1, l1) = ((w2, l2), v2, r2)" by (metis prod.exhaust)
  show ?thesis
    using 1 2
    by (auto simp: try_twice_def intro: retry_runs.intros split: option.split retry_error.split)
qed

theorem executeAwaitStep_calls_witness:
  "\<exists>calls. [(VInvalid, Some (Err ''not yet'')), (VInt 1, None)] = [] @ calls \<and> await_outcome 3 calls (Inr (VInt 1))"
proof -
  have c: "retry_contract (=) log_runtime"
    by (simp add: retry_contract_def log_runtime_def try_twice_runs)
  have l: "logs_calls (\<lambda>w. w) (=) log_runtime second_call"
    by (auto simp: logs_calls_def log_runtime_def second_call_def split: if_splits)
  have e: "executeAwaitStep log_runtime second_call [] await_step =
      ([(VInvalid, Some (Err ''not yet'')), (VInt 1, None)], Inr (VInt 1))"
    by (simp add: executeAwaitStep_def await_step_def log_runtime_def second_call_def try_twice_def
        awaitOperation_def request_value_def Let_def)
  show ?thesis
    using executeAwaitStep_calls [OF c l _ _ e, of "\<lparr>ar_timeoutMS = 100, ar_intervalMS = 10, ar_maxAttempts = 3\<rparr>"]
    by (simp add: await_step_def)
qed

section \<open>Failures and cleanup\<close>

text \<open>What a run keeps, apart from the map of the steps, which later steps do not read.\<close>

definition forget_steps :: "'w run_state \<Rightarrow> 'w run_state" where
  "forget_steps st = st\<lparr>rs_stepsByID := []\<rparr>"

lemma forget_eq: "forget_steps a = forget_steps b \<Longrightarrow> \<exists>m. b = a\<lparr>rs_stepsByID := m\<rparr>"
  by (cases a; cases b) (auto simp: forget_steps_def)

lemma runStep_forget:
  "map_option forget_steps (runStep rt s (st\<lparr>rs_stepsByID := m\<rparr>)) = map_option forget_steps (runStep rt s st)"
proof (cases "rs_executionErr st \<noteq> None \<and> st_kind s \<noteq> StepKindCleanup")
  case True
  then show ?thesis by (simp add: runStep_def forget_steps_def Let_def)
next
  case False
  note n = False
  show ?thesis
  proof (cases "resolveStepRequest (rt_marshal rt) (rt_heap rt (rs_world st)) s (rs_stepOutputs st)")
    case None
    then show ?thesis using n by (auto simp: runStep_def Let_def)
  next
    case (Some q)
    show ?thesis
    proof (cases q)
      case (Inl e)
      then show ?thesis using n Some by (auto simp: runStep_def failStep_def forget_steps_def Let_def)
    next
      case (Inr v)
      obtain w x where e: "executeCaseStep rt (rs_world st) (s\<lparr>st_request := Ready v\<rparr>) = (w, x)" by fastforce
      show ?thesis
        using n Some Inr by (cases x) (auto simp: runStep_def failStep_def forget_steps_def Let_def e)
    qed
  qed
qed

lemma runSteps_forget:
  "forget_steps a = forget_steps b \<Longrightarrow>
     map_option forget_steps (runSteps rt ss a) = map_option forget_steps (runSteps rt ss b)"
proof (induction ss arbitrary: a b)
  case (Cons s ss)
  obtain m where "b = a\<lparr>rs_stepsByID := m\<rparr>" using forget_eq [OF Cons.prems] by blast
  then have eq: "map_option forget_steps (runStep rt s b) = map_option forget_steps (runStep rt s a)"
    by (simp add: runStep_forget)
  show ?case
  proof (cases "runStep rt s a")
    case None
    then show ?thesis using eq by simp
  next
    case (Some a1)
    then obtain b1 where b1: "runStep rt s b = Some b1" "forget_steps a1 = forget_steps b1" using eq by auto
    from Cons.IH [OF b1(2)] show ?thesis by (simp only: runSteps.simps Some b1(1) bind.bind_lunit)
  qed
qed simp

text \<open>The error of a run is never lost.\<close>

lemma failStep_keeps: "rs_executionErr st = Some e \<Longrightarrow> st_kind s = StepKindCleanup \<Longrightarrow>
    \<exists>e'. rs_executionErr (failStep s d st) = Some e' \<and> err_is e e'"
  by (simp add: failStep_def)

lemma err_is_trans: "err_is a b \<Longrightarrow> err_is b c \<Longrightarrow> err_is a c"
  and arg_is_trans: "err_is a b \<Longrightarrow> arg_is b x \<Longrightarrow> arg_is a x"
proof (induction b c and b x rule: err_is_arg_is.induct)
  case (1 t f as)
  show ?case
  proof (cases "t = Errorf f as")
    case False
    then obtain x where "x \<in> set as" "arg_is t x" using "1.prems"(2) by (auto simp: list_ex_iff)
    then have "arg_is a x" using "1.IH" "1.prems"(1) by blast
    then show ?thesis using \<open>x \<in> set as\<close> by (auto simp: list_ex_iff)
  qed (use "1.prems" in simp)
next
  case (2 t es)
  show ?case
  proof (cases "t = Join es")
    case False
    then obtain x where "x \<in> set es" "err_is t x" using "2.prems"(2) by (auto simp: list_ex_iff)
    then have "err_is a x" using "2.IH" "2.prems"(1) by blast
    then show ?thesis using \<open>x \<in> set es\<close> by (auto simp: list_ex_iff)
  qed (use "2.prems" in simp)
qed auto

lemma runStep_keeps:
  assumes "runStep rt s st = Some st'" "rs_executionErr st = Some e"
  shows "\<exists>e'. rs_executionErr st' = Some e' \<and> err_is e e'"
  using assms
  by (cases "st_kind s = StepKindCleanup")
     (auto simp: runStep_def Let_def failStep_def split: option.splits sum.splits prod.splits)

lemma runSteps_keeps:
  "runSteps rt ss st = Some st' \<Longrightarrow> rs_executionErr st = Some e \<Longrightarrow>
     \<exists>e'. rs_executionErr st' = Some e' \<and> err_is e e'"
proof (induction ss arbitrary: st e)
  case (Cons s ss)
  then obtain st1 where 1: "runStep rt s st = Some st1" "runSteps rt ss st1 = Some st'"
    by (auto split: bind_splits)
  obtain e1 where e1: "rs_executionErr st1 = Some e1" "err_is e e1"
    using runStep_keeps [OF 1(1) Cons.prems(2)] by blast
  then show ?case using Cons.IH [OF 1(2) e1(1)] err_is_trans by blast
qed simp

text \<open>After a failure exactly the cleanup steps run.\<close>

lemma runSteps_failed:
  "rs_executionErr st \<noteq> None \<Longrightarrow>
     map_option forget_steps (runSteps rt ss st) =
     map_option forget_steps (runSteps rt (filter (\<lambda>s. st_kind s = StepKindCleanup) ss) st)"
proof (induction ss arbitrary: st)
  case (Cons s ss)
  show ?case
  proof (cases "st_kind s = StepKindCleanup")
    case True
    show ?thesis
    proof (cases "runStep rt s st")
      case (Some st1)
      then have "rs_executionErr st1 \<noteq> None" using runStep_keeps Cons.prems by fastforce
      then show ?thesis using True Some Cons.IH by simp
    qed (use True in simp)
  next
    case False
    define st1 where "st1 = st\<lparr>rs_stepsByID := mput (st_id s) s (rs_stepsByID st)\<rparr>"
    have s: "runStep rt s st = Some st1"
      using False Cons.prems by (simp add: runStep_def st1_def)
    have "rs_executionErr st1 \<noteq> None" using Cons.prems by (simp add: st1_def)
    from Cons.IH [OF this] have "map_option forget_steps (runSteps rt ss st1) =
        map_option forget_steps (runSteps rt (filter (\<lambda>s. st_kind s = StepKindCleanup) ss) st1)" .
    also have "\<dots> = map_option forget_steps (runSteps rt (filter (\<lambda>s. st_kind s = StepKindCleanup) ss) st)"
      by (rule runSteps_forget) (simp add: forget_steps_def st1_def)
    finally show ?thesis using False s by simp
  qed
qed simp

lemma runSteps_append: "runSteps rt (xs @ ys) st = Option.bind (runSteps rt xs st) (runSteps rt ys)"
  by (induction xs arbitrary: st) (auto split: bind_splits)

abbreviation run_result :: "'w run_state \<Rightarrow> 'w \<times> gval gomap \<times> err option" where
  "run_result st \<equiv> (rs_world st, rs_stepOutputs st, rs_executionErr st)"

lemma forget_result:
  "map_option forget_steps a = map_option forget_steps b \<Longrightarrow> map_option run_result a = map_option run_result b"
  by (cases a; cases b) (auto dest!: forget_eq)

text \<open>
  What is left to do after a failure, said without the state of the run: the handler of every
  remaining step is called with its resolved request, in order; an output is stored for the
  steps after it; and every error is joined to the error of the run.
\<close>

fun cleanup_all :: "'w runtime \<Rightarrow> 'w step list \<Rightarrow> 'w \<Rightarrow> gval gomap \<Rightarrow> err \<Rightarrow> ('w \<times> gval gomap \<times> err) option" where
  "cleanup_all rt [] w outputs e = Some (w, outputs, e)"
| "cleanup_all rt (s # ss) w outputs e =
     (let failed = (\<lambda>w' d. cleanup_all rt ss w' outputs (Join [e, stepExecutionError s d])) in
      case resolveStepRequest (rt_marshal rt) (rt_heap rt w) s outputs of
        None \<Rightarrow> None
      | Some (Inl d) \<Rightarrow> failed w (Errorf ''resolve request: %w'' [AErr d])
      | Some (Inr request) \<Rightarrow>
          (case st_handler s of
             None \<Rightarrow> failed w (Err ''handler is nil'')
           | Some handler \<Rightarrow>
               (case h_invoke handler w request of
                  (w', v, None) \<Rightarrow> cleanup_all rt ss w' (mput (st_id s) v outputs) e
                | (w', v, Some d) \<Rightarrow> failed w' d)))"

lemma runStep_cleanup:
  assumes "st_kind s = StepKindCleanup" "rs_executionErr st = Some e"
  shows "map_option run_result (Option.bind (runStep rt s st) (runSteps rt ss)) =
    map_option run_result (case resolveStepRequest (rt_marshal rt) (rt_heap rt (rs_world st)) s (rs_stepOutputs st) of
      None \<Rightarrow> None
    | Some (Inl d) \<Rightarrow> runSteps rt ss (st\<lparr>rs_stepsByID := mput (st_id s) s (rs_stepsByID st),
        rs_executionErr := Some (Join [e, stepExecutionError s (Errorf ''resolve request: %w'' [AErr d])])\<rparr>)
    | Some (Inr request) \<Rightarrow>
        (case st_handler s of
           None \<Rightarrow> runSteps rt ss (st\<lparr>rs_stepsByID := mput (st_id s) s (rs_stepsByID st),
             rs_executionErr := Some (Join [e, stepExecutionError s (Err ''handler is nil'')])\<rparr>)
         | Some handler \<Rightarrow>
             (case h_invoke handler (rs_world st) request of
                (w', v, None) \<Rightarrow> runSteps rt ss (st\<lparr>rs_stepsByID := mput (st_id s) s (rs_stepsByID st), rs_world := w',
                  rs_stepOutputs := mput (st_id s) v (rs_stepOutputs st)\<rparr>)
              | (w', v, Some d) \<Rightarrow> runSteps rt ss (st\<lparr>rs_stepsByID := mput (st_id s) s (rs_stepsByID st), rs_world := w',
                  rs_executionErr := Some (Join [e, stepExecutionError s d])\<rparr>))))"
  using assms
  by (auto simp: runStep_def failStep_def executeCaseStep_def request_value_def stepExecutionError_def
      kind_defs Let_def split: option.split sum.split prod.split)

lemma runSteps_cleanup:
  assumes "\<forall>s \<in> set ss. st_kind s = StepKindCleanup" "rs_executionErr st = Some e"
  shows "map_option run_result (runSteps rt ss st) =
    map_option (\<lambda>(w, outputs, e). (w, outputs, Some e)) (cleanup_all rt ss (rs_world st) (rs_stepOutputs st) e)"
  using assms
proof (induction ss arbitrary: st e)
  case (Cons s ss)
  then have "st_kind s = StepKindCleanup" by simp
  from runStep_cleanup [OF this Cons.prems(2), of rt ss] show ?case
    using Cons.prems(1) by (auto simp: Let_def Cons.prems(2) Cons.IH split: option.split sum.split prod.split)
qed simp

text \<open>
  C8: when a step fails, the rest of the case is its cleanup steps and no other step: the handler of
  each of them is called with its resolved request, whether or not an earlier one fails, as
  \<^const>\<open>cleanup_all\<close> says; its outputs and errors are collected, and the error of the failed step stays in
  the error of the run.
\<close>

theorem cleanup_after_failure:
  assumes "runSteps rt pre st0 = Some st" "runStep rt s st = Some st1" "rs_executionErr st1 = Some e"
  shows "map_option run_result (runSteps rt (pre @ s # post) st0) =
      map_option (\<lambda>(w, outputs, e). (w, outputs, Some e))
        (cleanup_all rt (filter (\<lambda>s. st_kind s = StepKindCleanup) post) (rs_world st1) (rs_stepOutputs st1) e) \<and>
    (\<forall>st'. runSteps rt (pre @ s # post) st0 = Some st' \<longrightarrow>
       (\<exists>e'. rs_executionErr st' = Some e' \<and> err_is e e'))"
proof -
  let ?post = "filter (\<lambda>s. st_kind s = StepKindCleanup) post"
  have r: "runSteps rt (pre @ s # post) st0 = runSteps rt post st1"
    using assms(1,2) by (simp add: runSteps_append)
  have "map_option forget_steps (runSteps rt post st1) = map_option forget_steps (runSteps rt ?post st1)"
    using runSteps_failed [of st1 rt post] assms(3) by simp
  then have "map_option run_result (runSteps rt post st1) = map_option run_result (runSteps rt ?post st1)"
    by (rule forget_result)
  moreover have "map_option run_result (runSteps rt ?post st1) =
      map_option (\<lambda>(w, outputs, e). (w, outputs, Some e)) (cleanup_all rt ?post (rs_world st1) (rs_stepOutputs st1) e)"
    by (rule runSteps_cleanup [OF _ assms(3)]) simp
  ultimately show ?thesis unfolding r using runSteps_keeps assms(3) by (intro conjI; force)
qed


definition failing_step :: "string \<Rightarrow> string \<Rightarrow> call_log step" where
  "failing_step i kind = \<lparr>st_id = i, st_kind = kind, st_handlerName = ''h'',
     st_handler = Some (second_call\<lparr>h_invoke := (\<lambda>w q. (w @ [(q, Some (Err i))], VInvalid, Some (Err i)))\<rparr>),
     st_request = Ready (VStr i), st_retry = None\<rparr>"

theorem cleanup_after_failure_witness:
  "map_option run_result (runSteps log_runtime
     [failing_step ''a'' StepKindAction, failing_step ''b'' StepKindVerify, failing_step ''c'' StepKindCleanup,
      failing_step ''d'' StepKindCleanup] (initialRun [])) =
   Some ([(VStr ''a'', Some (Err ''a'')), (VStr ''c'', Some (Err ''c'')), (VStr ''d'', Some (Err ''d''))], [],
     Some (Join [Join [stepExecutionError (failing_step ''a'' StepKindAction) (Err ''a''),
                       stepExecutionError (failing_step ''c'' StepKindCleanup) (Err ''c'')],
                 stepExecutionError (failing_step ''d'' StepKindCleanup) (Err ''d'')]))"
proof -
  let ?a = "failing_step ''a'' StepKindAction"
  have "runStep log_runtime ?a (initialRun []) = Some
     \<lparr>rs_world = [(VStr ''a'', Some (Err ''a''))], rs_stepOutputs = [],
      rs_stepsByID = [(''a'', ?a)], rs_lastActionStepID = [],
      rs_executionErr = Some (stepExecutionError ?a (Err ''a''))\<rparr>"
    by (simp add: runStep_def initialRun_def failing_step_def resolveStepRequest_def executeCaseStep_def
        second_call_def request_value_def failStep_def stepExecutionError_def kind_defs Let_def)
  from cleanup_after_failure [where pre = "[]", OF _ this,
      of "initialRun []" _ "[failing_step ''b'' StepKindVerify, failing_step ''c'' StepKindCleanup,
        failing_step ''d'' StepKindCleanup]"]
  show ?thesis by (simp add: failing_step_def kind_defs resolveStepRequest_def)
qed

end
