(* ===== verification/StructDecode.thy ===== *)
theory StructDecode
  imports Json
begin

text \<open>
  \<open>encoding/json\<close> with a struct as its target and \<open>DisallowUnknownFields\<close>, the way the case files
  and the requests of the preset handlers are decoded, and \<open>strict_json.go\<close>.  The members of an
  object keep their source text, because fields of type \<open>json.RawMessage\<close> hold it.  An error of
  the decoder is the opaque error \<open>json.Decode\<close>.
\<close>

abbreviation decodeErr :: err where "decodeErr \<equiv> Opaque ''json.Decode''"

section \<open>Members with their source text\<close>

text \<open>The text of the value at the front of \<open>s\<close>, without leading white space, and what follows.\<close>

definition raw_value :: "string \<Rightarrow> (string \<times> string) option" where
  "raw_value s =
     (let t = skip_space s in
      case json_decode t of
        Inl _ \<Rightarrow> None
      | Inr (_, rest) \<Rightarrow> Some (take (length t - length rest) t, rest))"

text \<open>The fuel is the length of the text: every member takes at least one byte.\<close>

fun raw_members :: "nat \<Rightarrow> string \<Rightarrow> (string \<times> string) list option" where
  "raw_members 0 s = None"
| "raw_members (Suc n) s =
     (case parse_key s of
        Inl _ \<Rightarrow> None
      | Inr (k, s1) \<Rightarrow>
          (case raw_value s1 of
             None \<Rightarrow> None
           | Some (raw, s2) \<Rightarrow>
               (case next_byte s2 of
                  Inl _ \<Rightarrow> None
                | Inr (c, t) \<Rightarrow>
                    if c = CHR 0x7D then Some [(k, raw)]
                    else if c = CHR '','' then map_option (\<lambda>ms. (k, raw) # ms) (raw_members n t)
                    else None)))"

fun raw_elems :: "nat \<Rightarrow> string \<Rightarrow> string list option" where
  "raw_elems 0 s = None"
| "raw_elems (Suc n) s =
     (case raw_value s of
        None \<Rightarrow> None
      | Some (raw, s2) \<Rightarrow>
          (case next_byte s2 of
             Inl _ \<Rightarrow> None
           | Inr (c, t) \<Rightarrow>
               if c = CHR 0x5D then Some [raw]
               else if c = CHR '','' then map_option (\<lambda>rs. raw # rs) (raw_elems n t)
               else None))"

text \<open>The members of an object, \<^const>\<open>None\<close> for text that is no object.\<close>

definition object_members :: "string \<Rightarrow> (string \<times> string) list option" where
  "object_members s =
     (case next_byte s of
        Inr (c, r) \<Rightarrow>
          if c = CHR 0x7B then
            (case next_byte r of
               Inr (d, _) \<Rightarrow> if d = CHR 0x7D then Some [] else raw_members (Suc (length r)) r
             | Inl _ \<Rightarrow> None)
          else None
      | Inl _ \<Rightarrow> None)"

definition array_elems :: "string \<Rightarrow> string list option" where
  "array_elems s =
     (case next_byte s of
        Inr (c, r) \<Rightarrow>
          if c = CHR 0x5B then
            (case next_byte r of
               Inr (d, _) \<Rightarrow> if d = CHR 0x5D then Some [] else raw_elems (Suc (length r)) r
             | Inl _ \<Rightarrow> None)
          else None
      | Inl _ \<Rightarrow> None)"

section \<open>Field names\<close>

text \<open>
  Names match exactly or under the simple case folding of Unicode; the code points that fold to
  ASCII letters are the letters themselves, U+017F and U+212A.
\<close>

fun fold_name :: "string \<Rightarrow> string" where
  "fold_name [] = []"
| "fold_name (a # s) =
     (if a = CHR 0xC5 \<and> prefix [CHR 0xBF] s then CHR ''S'' # fold_name (drop 1 s)
      else if a = CHR 0xE2 \<and> prefix [CHR 0x84, CHR 0xAA] s then CHR ''K'' # fold_name (drop 2 s)
      else (if 97 \<le> byte a \<and> byte a \<le> 122 then char_of (byte a - 32) else a) # fold_name s)"

definition find_field :: "string list \<Rightarrow> string \<Rightarrow> string option" where
  "find_field names key =
     (if key \<in> set names then Some key else find (\<lambda>n. fold_name n = fold_name key) names)"

text \<open>
  The raw values a decoder stores into the fields, in the order of the source; \<open>null\<close> leaves a
  struct as it is.
\<close>

definition decode_struct :: "string list \<Rightarrow> string \<Rightarrow> (string \<times> string) list result" where
  "decode_struct names raw =
     (if trim_space raw = ''null'' then Inr []
      else case object_members raw of
        None \<Rightarrow> Inl decodeErr
      | Some ms \<Rightarrow>
          map_result (\<lambda>(k, v). case find_field names k of None \<Rightarrow> Inl decodeErr | Some n \<Rightarrow> Inr (n, v)) ms)"

definition field_values :: "(string \<times> string) list \<Rightarrow> string \<Rightarrow> string list" where
  "field_values ms name = map snd (filter (\<lambda>m. fst m = name) ms)"

section \<open>Values of fields\<close>

definition is_null :: "string \<Rightarrow> bool" where
  "is_null raw \<longleftrightarrow> raw = ''null''"

text \<open>Each occurrence of a field is decoded over what the field holds already.\<close>

fun store_all :: "('a \<Rightarrow> string \<Rightarrow> 'a result) \<Rightarrow> 'a \<Rightarrow> string list \<Rightarrow> 'a result" where
  "store_all f v [] = Inr v"
| "store_all f v (raw # raws) = rbind (f v raw) (\<lambda>w. store_all f w raws)"

definition store_string :: "string \<Rightarrow> string \<Rightarrow> string result" where
  "store_string v raw =
     (case json_decode raw of
        Inr (JStr s, _) \<Rightarrow> Inr s | Inr (JNull, _) \<Rightarrow> Inr v | _ \<Rightarrow> Inl decodeErr)"

definition store_int :: "int \<Rightarrow> string \<Rightarrow> int result" where
  "store_int v raw =
     (case json_decode raw of
        Inr (JNum l, _) \<Rightarrow> (case atoi l of Some n \<Rightarrow> Inr n | None \<Rightarrow> Inl decodeErr)
      | Inr (JNull, _) \<Rightarrow> Inr v | _ \<Rightarrow> Inl decodeErr)"

definition store_bool :: "bool \<Rightarrow> string \<Rightarrow> bool result" where
  "store_bool v raw =
     (case json_decode raw of
        Inr (JBool b, _) \<Rightarrow> Inr b | Inr (JNull, _) \<Rightarrow> Inr v | _ \<Rightarrow> Inl decodeErr)"

text \<open>\<open>json.RawMessage\<close> takes the text, also of \<open>null\<close>.\<close>

definition store_raw :: "string \<Rightarrow> string \<Rightarrow> string result" where
  "store_raw v raw = Inr raw"

text \<open>A pointer becomes nil on \<open>null\<close>, and otherwise points to a decoded value.\<close>

definition store_ptr :: "('a \<Rightarrow> string \<Rightarrow> 'a result) \<Rightarrow> 'a \<Rightarrow> 'a option \<Rightarrow> string \<Rightarrow> 'a option result" where
  "store_ptr f zero v raw =
     (if is_null raw then Inr None
      else rbind (f (case v of None \<Rightarrow> zero | Some x \<Rightarrow> x) raw) (\<lambda>x. Inr (Some x)))"

text \<open>A slice: elements already there are decoded over, \<open>null\<close> makes it nil.\<close>

definition store_slice :: "('a \<Rightarrow> string \<Rightarrow> 'a result) \<Rightarrow> 'a \<Rightarrow> 'a list \<Rightarrow> string \<Rightarrow> 'a list result" where
  "store_slice f zero v raw =
     (if is_null raw then Inr []
      else case array_elems raw of
        None \<Rightarrow> Inl decodeErr
      | Some raws \<Rightarrow>
          map_result (\<lambda>(i, r). f (if i < length v then v ! i else zero) r) (zip [0..<length raws] raws))"

definition store_string_map :: "string gomap \<Rightarrow> string \<Rightarrow> string gomap result" where
  "store_string_map v raw =
     (if is_null raw then Inr []
      else case object_members raw of
        None \<Rightarrow> Inl decodeErr
      | Some ms \<Rightarrow>
          rbind (map_result (\<lambda>(k, r). rbind (store_string [] r) (\<lambda>s. Inr (k, s))) ms)
            (\<lambda>kvs. Inr (mcopy v kvs)))"

section \<open>strict\_json.go\<close>

text \<open>
  \<open>DecodeStrictJSON\<close> into a struct whose decoder is \<open>f\<close> over the zero value \<open>zero\<close>: the text
  must be one JSON value and nothing behind it.
\<close>

definition decodeStrictJSON :: "('a \<Rightarrow> string \<Rightarrow> 'a result) \<Rightarrow> 'a \<Rightarrow> string \<Rightarrow> 'a result" where
  "decodeStrictJSON f zero raw =
     (case json_decode raw of
        Inl e \<Rightarrow> Inl (Errorf ''decode json: %w'' [AErr decodeErr])
      | Inr (_, rest) \<Rightarrow>
          rbind (map_err (\<lambda>e. Errorf ''decode json: %w'' [AErr e])
                   (f zero (take (length (skip_space raw) - length rest) (skip_space raw)))) (\<lambda>v.
          rbind (ensure (json_decode rest = Inl DecEOF) (Err ''decode json: trailing data'')) (\<lambda>_.
          Inr v)))"

lemma decodeStrictJSON_whole:
  "decodeStrictJSON f zero raw = Inr v \<Longrightarrow> \<exists>j rest. json_decode raw = Inr (j, rest) \<and> json_decode rest = Inl DecEOF"
  by (auto simp: decodeStrictJSON_def split: sum.splits)

section \<open>The fuel suffices\<close>

lemma rbind_fuel:
  "rbind x f \<noteq> Inl DecFuel \<Longrightarrow> (x \<noteq> Inl DecFuel \<Longrightarrow> y = x) \<Longrightarrow> rbind y f = rbind x f"
  by (cases x) auto

lemmas parse_step = parse_value.simps(2) parse_elems.simps(2) parse_members.simps(2)

text \<open>More fuel does not change what the decoder returns.\<close>

lemma parse_more_fuel:
  "(\<forall>s. parse_value n s \<noteq> Inl DecFuel \<longrightarrow> parse_value (Suc n) s = parse_value n s) \<and>
   (\<forall>s. parse_elems n s \<noteq> Inl DecFuel \<longrightarrow> parse_elems (Suc n) s = parse_elems n s) \<and>
   (\<forall>s m. parse_members n s m \<noteq> Inl DecFuel \<longrightarrow> parse_members (Suc n) s m = parse_members n s m)"
proof (induction n)
  case 0
  show ?case by simp
next
  case (Suc n)
  then have v: "parse_value n s \<noteq> Inl DecFuel \<Longrightarrow> parse_value (Suc n) s = parse_value n s"
    and e: "parse_elems n s \<noteq> Inl DecFuel \<Longrightarrow> parse_elems (Suc n) s = parse_elems n s"
    and m: "parse_members n s ms \<noteq> Inl DecFuel \<Longrightarrow> parse_members (Suc n) s ms = parse_members n s ms" for s ms
    by blast+
  have "parse_value (Suc (Suc n)) s = parse_value (Suc n) s" if "parse_value (Suc n) s \<noteq> Inl DecFuel" for s
  proof (cases "next_byte s")
    case (Inr cr)
    obtain c r where cr: "cr = (c, r)" by (cases cr)
    show ?thesis
      using that
      unfolding parse_value.simps(2) [of n] parse_value.simps(2) [of "Suc n"] Inr cr rbind_simps prod.case
      by (cases "next_byte r")
        (auto split: if_splits simp: rbind_fuel [OF _ m] rbind_fuel [OF _ e] simp del: parse_step)
  qed simp
  moreover have "parse_elems (Suc (Suc n)) s = parse_elems (Suc n) s" if "parse_elems (Suc n) s \<noteq> Inl DecFuel" for s
  proof -
    note elems = parse_elems.simps(2) [of n s] parse_elems.simps(2) [of "Suc n" s]
    have nf: "parse_value n s \<noteq> Inl DecFuel" using that by (auto simp: rbind_Inl_iff)
    show ?thesis
    proof (cases "parse_value n s")
      case (Inr xr)
      obtain x r where xr: "xr = (x, r)" by (cases xr)
      show ?thesis
      proof (cases "next_byte r")
        case (Inr ct)
        obtain c t where ct: "ct = (c, t)" by (cases ct)
        show ?thesis
          using that v [OF nf] \<open>parse_value n s = Inr xr\<close>
          unfolding elems
          by (auto simp: xr Inr ct rbind_fuel [OF _ e] split: if_splits simp del: parse_step)
      qed (use v [OF nf] Inr xr in \<open>simp add: elems del: parse_step\<close>)
    qed (use v [OF nf] in \<open>simp add: elems del: parse_step\<close>)
  qed
  moreover have "parse_members (Suc (Suc n)) s ms = parse_members (Suc n) s ms"
    if "parse_members (Suc n) s ms \<noteq> Inl DecFuel" for s ms
  proof (cases "parse_key s")
    note members = parse_members.simps(2) [of n s] parse_members.simps(2) [of "Suc n" s]
    case (Inr ks)
    obtain k s1 where ks: "ks = (k, s1)" by (cases ks)
    have nf: "parse_value n s1 \<noteq> Inl DecFuel" using that by (auto simp: rbind_Inl_iff Inr ks)
    show ?thesis
    proof (cases "parse_value n s1")
      case val: (Inr xr)
      obtain x r where xr: "xr = (x, r)" by (cases xr)
      show ?thesis
      proof (cases "next_byte r")
        case ct: (Inr ct)
        obtain c t where "ct = (c, t)" by (cases ct)
        then show ?thesis
          using that m [of t "mput k x ms"] v [OF nf] val Inr
          unfolding members
          by (auto simp: xr ks ct split: if_splits simp del: parse_step)
      qed (use v [OF nf] val xr Inr ks in \<open>simp add: members del: parse_step\<close>)
    qed (use v [OF nf] Inr ks in \<open>simp add: members del: parse_step\<close>)
  qed simp
  ultimately show ?case by blast
qed

lemma parse_value_fuel:
  assumes "parse_value n s = Inr r" "n \<le> k"
  shows "parse_value k s = Inr r"
  using assms(2)
proof (induction rule: dec_induct)
  case (step k)
  then show ?case using parse_more_fuel by force
qed (rule assms(1))

text \<open>What the decoder parses at some place of a text it parses there on its own.\<close>

lemma json_decode_parse:
  assumes "parse_value n s = Inr r"
  shows "json_decode s = Inr r"
proof -
  have "skip_space s \<noteq> []" using assms by (cases n) (auto simp: next_byte_def split: list.splits)
  moreover have "parse_value (Suc (2 * length s)) s \<noteq> Inl DecFuel"
    using parse_fuel_aux [of "Suc (2 * length s)"] by (simp del: parse_value.simps)
  then have "parse_value (n + Suc (2 * length s)) s = parse_value (Suc (2 * length s)) s"
  proof (induction n)
    case (Suc n)
    then show ?case using parse_more_fuel [of "n + Suc (2 * length s)"] by (simp del: parse_value.simps)
  qed simp
  then have "parse_value (Suc (2 * length s)) s = Inr r"
    using parse_value_fuel [OF assms, of "n + Suc (2 * length s)"] by (simp del: parse_value.simps)
  ultimately show ?thesis by (simp add: json_decode_def del: parse_value.simps)
qed

lemma next_byte_skip: "next_byte (skip_space s) = next_byte s"
  by (simp add: next_byte_def skip_space_def)

lemma parse_value_skip: "parse_value n (skip_space s) = parse_value n s"
  by (cases n) (simp_all add: next_byte_skip)

lemma raw_value_parse:
  assumes "parse_value n s = Inr (v, r)"
  shows "\<exists>raw. raw_value s = Some (raw, r)"
  using json_decode_parse [of n "skip_space s"] assms by (simp add: raw_value_def parse_value_skip Let_def)

text \<open>The members of a decoded object are found, with the keys of the object.\<close>

lemma raw_members_parse:
  "parse_members n s m = Inr (m', u) \<Longrightarrow> length s < k \<Longrightarrow>
     \<exists>ms. raw_members k s = Some ms \<and> set (map fst m') = set (map fst m) \<union> set (map fst ms)"
proof (induction n arbitrary: s m k)
  case (Suc n)
  obtain key s1 v s2 c t where p: "parse_key s = Inr (key, s1)" "parse_value n s1 = Inr (v, s2)"
    "next_byte s2 = Inr (c, t)"
    and r: "c = CHR 0x7D \<and> m' = mput key v m \<or> c = CHR '','' \<and> parse_members n t (mput key v m) = Inr (m', u)"
    using Suc.prems(1) by (auto split: if_splits)
  obtain raw where raw: "raw_value s1 = Some (raw, s2)" using raw_value_parse [OF p(2)] by blast
  obtain k' where k: "k = Suc k'" using Suc.prems(2) by (cases k) auto
  have "length t < length s"
    using parse_key_length [OF p(1)] parse_length(1) [OF p(2)] next_byte_length [OF p(3)] by simp
  then have t: "length t < k'" using Suc.prems(2) by (simp add: k)
  from r show ?case
  proof (elim disjE conjE)
    assume "c = CHR 0x7D" "m' = mput key v m"
    then show ?thesis using p raw by (simp add: k set_mput [unfolded set_map])
  next
    assume "c = CHR '',''" "parse_members n t (mput key v m) = Inr (m', u)"
    from Suc.IH [OF this(2) t] this(1) obtain ms where "raw_members k' t = Some ms"
      "set (map fst m') = set (map fst (mput key v m)) \<union> set (map fst ms)" by blast
    then show ?thesis using p raw \<open>c = CHR '',''\<close> by (simp add: k set_mput [unfolded set_map])
  qed
qed simp

lemma raw_elems_parse:
  "parse_elems n s = Inr (vs, u) \<Longrightarrow> length s < k \<Longrightarrow> \<exists>raws. raw_elems k s = Some raws \<and> length raws = length vs"
proof (induction n arbitrary: s vs k)
  case (Suc n)
  obtain v s2 c t where p: "parse_value n s = Inr (v, s2)" "next_byte s2 = Inr (c, t)"
    and r: "c = CHR 0x5D \<and> vs = [v] \<or> c = CHR '','' \<and> (\<exists>ws. parse_elems n t = Inr (ws, u) \<and> vs = v # ws)"
    using Suc.prems(1) by (auto split: if_splits)
  obtain raw where raw: "raw_value s = Some (raw, s2)" using raw_value_parse [OF p(1)] by blast
  obtain k' where k: "k = Suc k'" using Suc.prems(2) by (cases k) auto
  have "length t < length s" using parse_length(1) [OF p(1)] next_byte_length [OF p(2)] by simp
  then have t: "length t < k'" using Suc.prems(2) by (simp add: k)
  from r show ?case using p raw Suc.IH [OF _ t] by (auto simp: k)
qed simp

text \<open>
  So a decoded object or array always has its members or elements: neither the fuel nor the second
  pass over the text makes the struct decoder fail.
\<close>

lemma parse_scalar_atom: "parse_scalar s \<noteq> Inr (JObj m, r)" "parse_scalar s \<noteq> Inr (JArr vs, r)"
  by (auto simp: parse_scalar_def split: if_splits option.splits)

lemma json_decode_parses: "json_decode s = Inr x \<Longrightarrow> parse_value (Suc (2 * length s)) s = Inr x"
  by (simp add: json_decode_def del: parse_value.simps split: if_splits)

lemma object_members_total:
  assumes "json_decode s = Inr (JObj m, r)"
  shows "\<exists>ms. object_members s = Some ms \<and> set (map fst m) = set (map fst ms)"
proof -
  obtain u d t where c: "next_byte s = Inr (CHR 0x7B, u)" "next_byte u = Inr (d, t)"
    and m: "if d = CHR 0x7D then m = [] else parse_members (2 * length s) u [] = Inr (m, r)"
    using json_decode_parses [OF assms] by (auto simp: parse_scalar_atom split: if_splits)
  show ?thesis
  proof (cases "d = CHR 0x7D")
    case False
    with m raw_members_parse [of "2 * length s" u "[]" m r "Suc (length u)"] show ?thesis
      by (simp add: object_members_def c)
  qed (use c m in \<open>simp add: object_members_def\<close>)
qed

lemma array_elems_total:
  assumes "json_decode s = Inr (JArr vs, r)"
  shows "\<exists>raws. array_elems s = Some raws \<and> length raws = length vs"
proof -
  obtain u d t where c: "next_byte s = Inr (CHR 0x5B, u)" "next_byte u = Inr (d, t)"
    and m: "if d = CHR 0x5D then vs = [] else parse_elems (2 * length s) u = Inr (vs, r)"
    using json_decode_parses [OF assms] by (auto simp: parse_scalar_atom split: if_splits)
  show ?thesis
  proof (cases "d = CHR 0x5D")
    case False
    with m raw_elems_parse [of "2 * length s" u vs r "Suc (length u)"] show ?thesis
      by (simp add: array_elems_def c)
  qed (use c m in \<open>simp add: array_elems_def\<close>)
qed

text \<open>\<open>DisallowUnknownFields\<close>: an object decodes into the raw values of the fields when it names fields only.\<close>

lemma decode_struct_known:
  assumes "json_decode raw = Inr (JObj m, r)" "trim_space raw \<noteq> ''null''"
  shows "(\<exists>fs. decode_struct names raw = Inr fs) \<longleftrightarrow> (\<forall>k \<in> set (map fst m). find_field names k \<noteq> None)"
proof -
  obtain ms where ms: "object_members raw = Some ms" "set (map fst m) = set (map fst ms)"
    using object_members_total [OF assms(1)] by blast
  have "(\<exists>fs. map_result (\<lambda>(k, v). case find_field names k of None \<Rightarrow> Inl decodeErr | Some n \<Rightarrow> Inr (n, v)) ms = Inr fs) \<longleftrightarrow>
        (\<forall>k \<in> set (map fst ms). find_field names k \<noteq> None)" for ms :: "(string \<times> string) list"
    by (induction ms) (auto split: option.splits)
  then show ?thesis using ms assms(2) by (simp add: decode_struct_def)
qed

end
