(* ===== verification/Jsonc.thy ===== *)
theory Jsonc
  imports JsonEncode
begin

text \<open>
  The comment stripper of \<open>loader.go\<close>: a four-state machine over the bytes of a JSONC file.
  The loop's index is the rest of the source, the \<open>bytes.Buffer\<close> a byte list that grows at
  its end; a handler that sets \<open>advance\<close> makes the loop skip one more byte.
\<close>

section \<open>The machine\<close>

datatype jsoncParserState =
    JsoncStateCode
  | JsoncStateString
  | JsoncStateLineComment
  | JsoncStateBlockComment

definition peekJSONCByte :: "string \<Rightarrow> char option" where
  "peekJSONCByte rest = (case rest of [] \<Rightarrow> None | c # _ \<Rightarrow> Some c)"

definition handleStringState :: "char \<Rightarrow> bool \<Rightarrow> string \<Rightarrow> jsoncParserState \<times> bool \<times> string" where
  "handleStringState current escaped result =
     (let result' = result @ [current] in
      if escaped then (JsoncStateString, False, result')
      else if current = CHR 0x5C then (JsoncStateString, True, result')
      else if current = CHR 0x22 then (JsoncStateCode, False, result')
      else (JsoncStateString, False, result'))"

definition handleLineCommentState :: "char \<Rightarrow> string \<Rightarrow> jsoncParserState \<times> string" where
  "handleLineCommentState current result =
     (if current = CHR 0x0A then (JsoncStateCode, result @ [CHR 0x0A])
      else (JsoncStateLineComment, result))"

definition handleBlockCommentState ::
    "char \<Rightarrow> char option \<Rightarrow> string \<Rightarrow> jsoncParserState \<times> bool \<times> string" where
  "handleBlockCommentState current nxt result =
     (if current = CHR 0x0A then (JsoncStateBlockComment, False, result @ [CHR 0x0A])
      else if current = CHR ''*'' \<and> nxt = Some (CHR ''/'') then (JsoncStateCode, True, result)
      else (JsoncStateBlockComment, False, result))"

definition handleCodeState ::
    "char \<Rightarrow> char option \<Rightarrow> string \<Rightarrow> jsoncParserState \<times> bool \<times> string" where
  "handleCodeState current nxt result =
     (if current = CHR 0x22 then (JsoncStateString, False, result @ [current])
      else if current = CHR ''/'' \<and> nxt = Some (CHR ''/'') then (JsoncStateLineComment, True, result)
      else if current = CHR ''/'' \<and> nxt = Some (CHR ''*'') then (JsoncStateBlockComment, True, result)
      else (JsoncStateCode, False, result @ [current]))"

text \<open>The loop of \<open>stripJSONCComments\<close>: final state and contents of the buffer.\<close>

function stripLoop ::
    "jsoncParserState \<Rightarrow> bool \<Rightarrow> string \<Rightarrow> string \<Rightarrow> jsoncParserState \<times> string" where
  "stripLoop state escaped [] result = (state, result)"
| "stripLoop state escaped (current # rest) result =
     (case state of
        JsoncStateString \<Rightarrow>
          (case handleStringState current escaped result of
             (state', escaped', result') \<Rightarrow> stripLoop state' escaped' rest result')
      | JsoncStateLineComment \<Rightarrow>
          (case handleLineCommentState current result of
             (state', result') \<Rightarrow> stripLoop state' escaped rest result')
      | JsoncStateBlockComment \<Rightarrow>
          (case handleBlockCommentState current (peekJSONCByte rest) result of
             (state', advance, result') \<Rightarrow>
               stripLoop state' escaped (if advance then drop 1 rest else rest) result')
      | JsoncStateCode \<Rightarrow>
          (case handleCodeState current (peekJSONCByte rest) result of
             (state', advance, result') \<Rightarrow>
               stripLoop state' escaped (if advance then drop 1 rest else rest) result'))"
  by pat_completeness auto
termination
  by (relation "measure (\<lambda>(state, escaped, source, result). length source)") auto

declare stripLoop.simps(2) [simp del]

definition stripJSONCComments :: "string \<Rightarrow> string result" where
  "stripJSONCComments source =
     (case stripLoop JsoncStateCode False source [] of
        (state, result) \<Rightarrow>
          if state = JsoncStateBlockComment then Inl (Err ''unterminated block comment'')
          else Inr result)"

section \<open>The machine by cases\<close>

text \<open>What one byte does, as equations the proofs rewrite with.\<close>

lemma peek_simps [simp]: "peekJSONCByte [] = None" "peekJSONCByte (c # s) = Some c"
  by (simp_all add: peekJSONCByte_def)

lemma strip_string:
  "stripLoop JsoncStateString esc (c # s) out =
     (if esc then stripLoop JsoncStateString False s (out @ [c])
      else if c = CHR 0x5C then stripLoop JsoncStateString True s (out @ [c])
      else if c = CHR 0x22 then stripLoop JsoncStateCode False s (out @ [c])
      else stripLoop JsoncStateString False s (out @ [c]))"
  by (simp add: stripLoop.simps(2) handleStringState_def)

lemma strip_line:
  "stripLoop JsoncStateLineComment esc (c # s) out =
     (if c = CHR 0x0A then stripLoop JsoncStateCode esc s (out @ [c])
      else stripLoop JsoncStateLineComment esc s out)"
  by (simp add: stripLoop.simps(2) handleLineCommentState_def)

lemma strip_block:
  "stripLoop JsoncStateBlockComment esc (c # s) out =
     (if c = CHR 0x0A then stripLoop JsoncStateBlockComment esc s (out @ [c])
      else if c = CHR ''*'' \<and> peekJSONCByte s = Some (CHR ''/'') then
        stripLoop JsoncStateCode esc (drop 1 s) out
      else stripLoop JsoncStateBlockComment esc s out)"
  by (simp add: stripLoop.simps(2) handleBlockCommentState_def)

lemma strip_code:
  "stripLoop JsoncStateCode esc (c # s) out =
     (if c = CHR 0x22 then stripLoop JsoncStateString esc s (out @ [c])
      else if c = CHR ''/'' \<and> peekJSONCByte s = Some (CHR ''/'') then
        stripLoop JsoncStateLineComment esc (drop 1 s) out
      else if c = CHR ''/'' \<and> peekJSONCByte s = Some (CHR ''*'') then
        stripLoop JsoncStateBlockComment esc (drop 1 s) out
      else stripLoop JsoncStateCode esc s (out @ [c]))"
  by (simp add: stripLoop.simps(2) handleCodeState_def)

lemmas strip_step = strip_string strip_line strip_block strip_code

text \<open>The buffer only grows: what was written before does not matter to what follows.\<close>

lemma strip_append_out:
  "stripLoop st esc s (p @ out) = apsnd ((@) p) (stripLoop st esc s out)"
proof (induction s arbitrary: st esc out rule: length_induct)
  case (1 s)
  show ?case
  proof (cases s)
    case Nil
    then show ?thesis by simp
  next
    case (Cons c s')
    have "stripLoop st' esc' s' (p @ out') = apsnd ((@) p) (stripLoop st' esc' s' out')"
      "stripLoop st' esc' (drop (Suc 0) s') (p @ out') =
        apsnd ((@) p) (stripLoop st' esc' (drop (Suc 0) s') out')" for st' esc' out'
      using "1.IH" Cons by simp_all
    then show ?thesis
      unfolding Cons by (cases st) (simp_all add: strip_step)
  qed
qed

text \<open>The output and the final state, without the accumulator.\<close>

definition stripped :: "jsoncParserState \<Rightarrow> bool \<Rightarrow> string \<Rightarrow> string" where
  "stripped st esc s = snd (stripLoop st esc s [])"

definition final_state :: "jsoncParserState \<Rightarrow> bool \<Rightarrow> string \<Rightarrow> jsoncParserState" where
  "final_state st esc s = fst (stripLoop st esc s [])"

lemma strip_single:
  "fst (stripLoop st esc s [c]) = fst (stripLoop st esc s [])"
  "snd (stripLoop st esc s [c]) = c # snd (stripLoop st esc s [])"
  using strip_append_out [of st esc s "[c]" "[]"] by simp_all

lemma stripped_Nil [simp]: "stripped st esc [] = []" "final_state st esc [] = st"
  by (simp_all add: stripped_def final_state_def)

lemma stripped_simps:
  "stripped JsoncStateString esc (c # s) =
     c # (if esc then stripped JsoncStateString False s
          else if c = CHR 0x5C then stripped JsoncStateString True s
          else if c = CHR 0x22 then stripped JsoncStateCode False s
          else stripped JsoncStateString False s)"
  "stripped JsoncStateLineComment esc (c # s) =
     (if c = CHR 0x0A then c # stripped JsoncStateCode esc s
      else stripped JsoncStateLineComment esc s)"
  "stripped JsoncStateBlockComment esc (c # s) =
     (if c = CHR 0x0A then c # stripped JsoncStateBlockComment esc s
      else if c = CHR ''*'' \<and> peekJSONCByte s = Some (CHR ''/'') then
        stripped JsoncStateCode esc (drop 1 s)
      else stripped JsoncStateBlockComment esc s)"
  "stripped JsoncStateCode esc (c # s) =
     (if c = CHR 0x22 then c # stripped JsoncStateString esc s
      else if c = CHR ''/'' \<and> peekJSONCByte s = Some (CHR ''/'') then
        stripped JsoncStateLineComment esc (drop 1 s)
      else if c = CHR ''/'' \<and> peekJSONCByte s = Some (CHR ''*'') then
        stripped JsoncStateBlockComment esc (drop 1 s)
      else c # stripped JsoncStateCode esc s)"
  by (simp_all add: stripped_def strip_step strip_single)

lemma final_state_simps:
  "final_state JsoncStateString esc (c # s) =
     (if esc then final_state JsoncStateString False s
      else if c = CHR 0x5C then final_state JsoncStateString True s
      else if c = CHR 0x22 then final_state JsoncStateCode False s
      else final_state JsoncStateString False s)"
  "final_state JsoncStateLineComment esc (c # s) =
     (if c = CHR 0x0A then final_state JsoncStateCode esc s
      else final_state JsoncStateLineComment esc s)"
  "final_state JsoncStateBlockComment esc (c # s) =
     (if c = CHR 0x0A then final_state JsoncStateBlockComment esc s
      else if c = CHR ''*'' \<and> peekJSONCByte s = Some (CHR ''/'') then
        final_state JsoncStateCode esc (drop 1 s)
      else final_state JsoncStateBlockComment esc s)"
  "final_state JsoncStateCode esc (c # s) =
     (if c = CHR 0x22 then final_state JsoncStateString esc s
      else if c = CHR ''/'' \<and> peekJSONCByte s = Some (CHR ''/'') then
        final_state JsoncStateLineComment esc (drop 1 s)
      else if c = CHR ''/'' \<and> peekJSONCByte s = Some (CHR ''*'') then
        final_state JsoncStateBlockComment esc (drop 1 s)
      else final_state JsoncStateCode esc s)"
  by (simp_all add: final_state_def strip_step strip_single)

lemma stripJSONCComments_eq:
  "stripJSONCComments s =
     (if final_state JsoncStateCode False s = JsoncStateBlockComment
      then Inl (Err ''unterminated block comment'') else Inr (stripped JsoncStateCode False s))"
  by (simp add: stripJSONCComments_def stripped_def final_state_def split: prod.splits)

text \<open>
  Induction over the source in the steps the machine makes: one byte, or the two bytes of a
  comment bracket.
\<close>

lemma strip_induct [case_names Nil Cons]:
  assumes "\<And>st esc. P st esc []"
    and "\<And>st esc c s. (\<And>st' esc'. P st' esc' s) \<Longrightarrow> (\<And>st' esc'. P st' esc' (drop 1 s)) \<Longrightarrow> P st esc (c # s)"
  shows "P st esc s"
proof (induction s arbitrary: st esc rule: length_induct)
  case (1 s)
  then show ?case using assms by (cases s) auto
qed

lemma peek_drop: "peekJSONCByte s = Some c \<Longrightarrow> s = c # drop 1 s"
  by (cases s) auto

section \<open>Properties\<close>

text \<open>Every line break of the source is kept, so that positions in later errors agree.\<close>

lemma stripped_newlines:
  "count_list (stripped st esc s) (CHR 0x0A) = count_list s (CHR 0x0A)"
proof (induction st esc s rule: strip_induct)
  case Nil
  show ?case by simp
next
  case (Cons st esc c s)
  have two: "count_list s (CHR 0x0A) = count_list (drop 1 s) (CHR 0x0A)"
    if "peekJSONCByte s = Some d" "d \<noteq> CHR 0x0A" for d
    using that by (cases s) auto
  show ?case
    by (cases st) (auto simp: stripped_simps Cons [simplified] two [simplified])
qed

text \<open>Stripping leaves no comment to strip: the output is a fixed point of the machine.\<close>

fun after_strip :: "jsoncParserState \<Rightarrow> jsoncParserState" where
  "after_strip JsoncStateString = JsoncStateString"
| "after_strip _ = JsoncStateCode"

lemma stripped_head:
  "c \<noteq> CHR ''/'' \<Longrightarrow> stripped JsoncStateCode esc (c # s) = c # tl (stripped JsoncStateCode esc (c # s))"
  by (simp add: stripped_simps)

lemma stripped_peek:
  "peekJSONCByte s \<noteq> Some (CHR ''/'') \<Longrightarrow> peekJSONCByte (stripped JsoncStateCode esc s) = peekJSONCByte s"
  by (cases s) (auto simp: stripped_simps)

lemma stripped_fixed:
  "stripped (after_strip st) esc (stripped st esc s) = stripped st esc s \<and>
   final_state (after_strip st) esc (stripped st esc s) = after_strip (final_state st esc s)"
proof (induction st esc s rule: strip_induct)
  case (Nil st esc)
  show ?case by simp
next
  case (Cons st esc c s)
  note IHs = Cons [of JsoncStateCode, simplified] Cons [of JsoncStateString, simplified]
    Cons [of JsoncStateLineComment, simplified] Cons [of JsoncStateBlockComment, simplified]
  show ?case
    by (cases st) (auto simp: stripped_simps final_state_simps IHs stripped_peek)
qed

section \<open>JSON text is not affected\<close>

text \<open>A piece of code (a piece of a string) that the machine copies and that leaves its state alone.\<close>

definition code_neutral :: "string \<Rightarrow> bool" where
  "code_neutral w \<longleftrightarrow> (\<forall>r. stripped JsoncStateCode False (w @ r) = w @ stripped JsoncStateCode False r \<and>
     final_state JsoncStateCode False (w @ r) = final_state JsoncStateCode False r)"

definition string_neutral :: "string \<Rightarrow> bool" where
  "string_neutral w \<longleftrightarrow> (\<forall>r. stripped JsoncStateString False (w @ r) = w @ stripped JsoncStateString False r \<and>
     final_state JsoncStateString False (w @ r) = final_state JsoncStateString False r)"

lemma code_neutral_Nil [simp]: "code_neutral []"
  by (simp add: code_neutral_def)

lemma code_neutral_append: "code_neutral v \<Longrightarrow> code_neutral w \<Longrightarrow> code_neutral (v @ w)"
  by (simp add: code_neutral_def)

lemma code_neutral_Cons: "c \<noteq> CHR 0x22 \<Longrightarrow> c \<noteq> CHR ''/'' \<Longrightarrow> code_neutral w \<Longrightarrow> code_neutral (c # w)"
  by (simp add: code_neutral_def stripped_simps final_state_simps)

lemma code_neutral_plain: "(\<And>c. c \<in> set w \<Longrightarrow> c \<noteq> CHR 0x22 \<and> c \<noteq> CHR ''/'') \<Longrightarrow> code_neutral w"
  by (induction w) (auto intro: code_neutral_Cons)

lemma string_neutral_Nil [simp]: "string_neutral []"
  by (simp add: string_neutral_def)

lemma string_neutral_append: "string_neutral v \<Longrightarrow> string_neutral w \<Longrightarrow> string_neutral (v @ w)"
  by (simp add: string_neutral_def)

lemma string_neutral_plain:
  "(\<And>c. c \<in> set w \<Longrightarrow> c \<noteq> CHR 0x22 \<and> c \<noteq> CHR 0x5C) \<Longrightarrow> string_neutral w"
  by (induction w) (auto simp: string_neutral_def stripped_simps final_state_simps)

lemma string_neutral_escape: "string_neutral w \<Longrightarrow> string_neutral (CHR 0x5C # d # w)"
  by (simp add: string_neutral_def stripped_simps final_state_simps)

lemma hex_digit_plain: "n < 16 \<Longrightarrow> hex_digit n \<noteq> CHR 0x22 \<and> hex_digit n \<noteq> CHR 0x5C"
  by (auto simp: hex_digit_def char_of_iff_byte) (auto simp: byte_def)

lemma string_neutral_escape_ascii: "string_neutral (escape_ascii c)"
proof (cases "short_escape c")
  case (Some d)
  then show ?thesis by (simp add: escape_ascii_def string_neutral_escape)
next
  case None
  have "byte c div 16 < 16" using byte_less [of c] by (simp add: less_mult_imp_div_less)
  then have "string_neutral [CHR ''0'', CHR ''0'', hex_digit (byte c div 16), hex_digit (byte c mod 16)]"
    using hex_digit_plain [of "byte c div 16"] hex_digit_plain [of "byte c mod 16"]
    by (intro string_neutral_plain) auto
  moreover have "string_neutral [c]"
    using None by (intro string_neutral_plain) (auto simp: short_escape_def)
  ultimately show ?thesis using None by (auto simp: escape_ascii_def intro: string_neutral_escape)
qed

lemma rune_bytes:
  assumes "rune_len (c # s) = k" "\<not> byte c < 128" "d \<in> set (take k (c # s))"
  shows "d \<noteq> CHR 0x22 \<and> d \<noteq> CHR 0x5C"
proof -
  have "128 \<le> byte d"
    using assms
    by (auto simp: rune_len.simps Let_def is_cont_def take_Cons numeral_eq_Suc split: if_splits list.splits)
  then show ?thesis by (auto simp: byte_def)
qed

lemma string_neutral_escape_all: "string_neutral (escape s)"
proof (induction s rule: escape.induct)
  case 1
  show ?case by (simp add: escape.simps)
next
  case (2 c s)
  let ?k = "rune_len (c # s)"
  have u: "string_neutral (CHR 0x5C # ''ufffd'')" "string_neutral (CHR 0x5C # ''u2028'')"
    "string_neutral (CHR 0x5C # ''u2029'')"
    by (intro string_neutral_escape string_neutral_plain; auto)+
  have "string_neutral (take ?k (c # s))" if "\<not> byte c < 128"
    using rune_bytes [OF refl that] by (intro string_neutral_plain) blast
  then have rune: "string_neutral (escape_rune (take ?k (c # s)))" if "\<not> byte c < 128"
    using that u by (simp add: escape_rune_def)
  show ?case
    using 2 rune u(1) string_neutral_append [OF u(1)]
    by (auto simp: escape.simps Let_def intro: string_neutral_append string_neutral_escape_ascii)
qed

lemma code_neutral_quote: "code_neutral (quote s)"
  using string_neutral_escape_all [of s]
  by (simp add: code_neutral_def string_neutral_def quote_def stripped_simps final_state_simps)

lemma code_neutral_join:
  "code_neutral sep \<Longrightarrow> (\<And>w. w \<in> set ws \<Longrightarrow> code_neutral w) \<Longrightarrow> code_neutral (join_with sep ws)"
  by (induction sep ws rule: join_with.induct) (auto intro!: code_neutral_append)

lemma lex_digits_digits: "lex_digits s = (a, b) \<Longrightarrow> list_all is_digit a"
  by (auto simp: lex_digits_def list_all_iff dest: set_takeWhileD)

definition num_char :: "char \<Rightarrow> bool" where
  "num_char c \<longleftrightarrow> is_digit c \<or> c \<in> {CHR ''-'', CHR ''+'', CHR ''.'', CHR ''e'', CHR ''E''}"

lemma lex_number_chars: "lex_number s = Some (l, r) \<Longrightarrow> list_all num_char l"
proof -
  have ds: "list_all num_char a" if "lex_digits s = (a, b)" for s a b
    using lex_digits_digits [OF that] by (auto simp: list_all_iff num_char_def)
  have i: "list_all num_char a" if "lex_int s = Some (a, b)" for s a b
    using that ds by (cases s) (auto simp: lex_int_def num_char_def is_digit_def split: if_splits)
  have f: "list_all num_char a" if "lex_frac s = Some (a, b)" for s a b
    using that ds by (cases s) (auto simp: lex_frac_def num_char_def Let_def split: if_splits prod.splits)
  have g: "list_all num_char (fst (lex_sign s))" for s
    by (auto simp: lex_sign_def num_char_def split: list.splits)
  have e: "list_all num_char a" if "lex_exp s = Some (a, b)" for s a b
    using that ds g [of "tl s"]
    by (cases s) (auto simp: lex_exp_def num_char_def Let_def split: if_splits prod.splits)
  have m: "list_all num_char (fst (lex_minus s))"
    by (auto simp: lex_minus_def num_char_def split: list.splits)
  assume "lex_number s = Some (l, r)"
  then show "list_all num_char l"
    by (rule lex_number_SomeE) (use i f e m in fastforce)
qed

lemma json_enc_neutral: "encodable j \<Longrightarrow> code_neutral (json_enc j)"
proof (induction j rule: encodable.induct)
  case (1 l)
  have "code_neutral l" if "valid_number l"
  proof (rule code_neutral_plain)
    fix c assume "c \<in> set l"
    then have "num_char c"
      using that lex_number_chars [of l] by (auto simp: valid_number_def list_all_iff)
    then show "c \<noteq> CHR 0x22 \<and> c \<noteq> CHR ''/''" by (auto simp: num_char_def is_digit_def)
  qed
  with 1 show ?case by (auto intro: code_neutral_plain)
next
  case (2 js)
  have "code_neutral (join_with '','' (map json_enc js))"
    by (rule code_neutral_join) (use 2 in \<open>auto simp: list_all_iff intro: code_neutral_plain\<close>)
  then show ?case
    by (auto intro!: code_neutral_Cons code_neutral_append)
next
  case (3 m)
  have "code_neutral (join_with '','' (map (\<lambda>e. quote (fst e) @ CHR '':'' # json_enc (snd e)) m))"
    by (rule code_neutral_join)
       (use 3 in \<open>auto simp: list_all_iff
          intro!: code_neutral_append code_neutral_quote code_neutral_Cons intro: code_neutral_plain\<close>)
  then show ?case
    by (auto intro!: code_neutral_Cons code_neutral_append)
next
  case "4_3"
  show ?case by (simp add: code_neutral_quote)
qed (auto intro: code_neutral_plain)

section \<open>What is stripped\<close>

text \<open>Stripping is a projection, and keeps the line breaks.\<close>

theorem stripJSONCComments_idem:
  assumes "stripJSONCComments s = Inr t"
  shows "stripJSONCComments t = Inr t \<and> count_list t (CHR 0x0A) = count_list s (CHR 0x0A)"
proof -
  have t: "t = stripped JsoncStateCode False s" and f: "final_state JsoncStateCode False s \<noteq> JsoncStateBlockComment"
    using assms by (auto simp: stripJSONCComments_eq split: if_splits)
  have "after_strip st \<noteq> JsoncStateBlockComment" for st by (cases st) auto
  then show ?thesis
    using stripped_fixed [of JsoncStateCode False s] by (simp add: stripJSONCComments_eq t stripped_newlines)
qed

text \<open>The inside of a string literal: a backslash protects the byte after it.\<close>

fun literal_body :: "string \<Rightarrow> bool" where
  "literal_body [] = True"
| "literal_body (c # s) =
     (if c = CHR 0x5C then (case s of [] \<Rightarrow> False | d # s' \<Rightarrow> literal_body s')
      else c \<noteq> CHR 0x22 \<and> literal_body s)"

text \<open>
  A JSONC text by its parts, with what is left of it; \<^const>\<open>None\<close> for a text whose last block comment
  is not closed.  Literals are copied, closed or not; a line comment goes up to its line break; of a
  block comment, which ends at the first \<open>*/\<close>, the line breaks are left.
\<close>

inductive jsonc_text :: "string \<Rightarrow> string option \<Rightarrow> bool" where
  empty: "jsonc_text [] (Some [])"
| byte: "c \<noteq> CHR 0x22 \<Longrightarrow> \<not> (c = CHR ''/'' \<and> s \<noteq> [] \<and> hd s \<in> {CHR ''/'', CHR ''*''}) \<Longrightarrow> jsonc_text s t \<Longrightarrow>
    jsonc_text (c # s) (map_option ((#) c) t)"
| literal: "literal_body b \<Longrightarrow> jsonc_text s t \<Longrightarrow>
    jsonc_text (CHR 0x22 # b @ CHR 0x22 # s) (map_option (\<lambda>t. CHR 0x22 # b @ CHR 0x22 # t) t)"
| open_literal: "literal_body b \<Longrightarrow> b' \<in> {b, b @ [CHR 0x5C]} \<Longrightarrow> jsonc_text (CHR 0x22 # b') (Some (CHR 0x22 # b'))"
| line: "CHR 0x0A \<notin> set c \<Longrightarrow> jsonc_text s t \<Longrightarrow>
    jsonc_text (''//'' @ c @ CHR 0x0A # s) (map_option ((#) (CHR 0x0A)) t)"
| last_line: "CHR 0x0A \<notin> set c \<Longrightarrow> jsonc_text (''//'' @ c) (Some [])"
| block: "\<not> contains_str c ''*/'' \<Longrightarrow> jsonc_text s t \<Longrightarrow>
    jsonc_text (''/*'' @ c @ ''*/'' @ s) (map_option ((@) (replicate (count_list c (CHR 0x0A)) (CHR 0x0A))) t)"
| open_block: "\<not> contains_str c ''*/'' \<Longrightarrow> jsonc_text (''/*'' @ c) None"

lemma literal_neutral: "literal_body b \<Longrightarrow> string_neutral b"
proof (induction b rule: literal_body.induct)
  case (2 c s)
  show ?case
  proof (cases "c = CHR 0x5C")
    case True
    then show ?thesis using 2 by (auto intro: string_neutral_escape split: list.splits)
  next
    case False
    then have "string_neutral [c]" using 2(3) by (intro string_neutral_plain) auto
    then show ?thesis using string_neutral_append [of "[c]" s] 2 False by simp
  qed
qed simp

lemma strip_line_comment:
  "CHR 0x0A \<notin> set c \<Longrightarrow>
     stripped JsoncStateLineComment False (c @ CHR 0x0A # s) = CHR 0x0A # stripped JsoncStateCode False s \<and>
     final_state JsoncStateLineComment False (c @ CHR 0x0A # s) = final_state JsoncStateCode False s \<and>
     stripped JsoncStateLineComment False c = [] \<and> final_state JsoncStateLineComment False c = JsoncStateLineComment"
  by (induction c) (auto simp: stripped_simps final_state_simps)

lemma strip_block_comment:
  "\<not> contains_str c ''*/'' \<Longrightarrow>
     stripped JsoncStateBlockComment False (c @ ''*/'' @ s) =
       replicate (count_list c (CHR 0x0A)) (CHR 0x0A) @ stripped JsoncStateCode False s \<and>
     final_state JsoncStateBlockComment False (c @ ''*/'' @ s) = final_state JsoncStateCode False s \<and>
     final_state JsoncStateBlockComment False c = JsoncStateBlockComment"
proof (induction c)
  case (Cons d c)
  then show ?case
    by (cases c) (auto simp: stripped_simps final_state_simps prefix_Cons)
qed (simp add: stripped_simps final_state_simps)

lemma jsonc_text_stripped:
  "jsonc_text s t \<Longrightarrow>
     (case t of None \<Rightarrow> final_state JsoncStateCode False s = JsoncStateBlockComment
      | Some t \<Rightarrow> final_state JsoncStateCode False s \<noteq> JsoncStateBlockComment \<and> stripped JsoncStateCode False s = t)"
proof (induction rule: jsonc_text.induct)
  case (byte c s t)
  then show ?case by (cases s; cases t) (auto simp: stripped_simps final_state_simps)
next
  case (literal b s t)
  then show ?case
    using literal_neutral [OF literal(1)]
    by (cases t) (auto simp: stripped_simps final_state_simps string_neutral_def)
next
  case (open_literal b b')
  have "stripped JsoncStateString False (b @ r) = b @ stripped JsoncStateString False r"
    "final_state JsoncStateString False (b @ r) = final_state JsoncStateString False r" for r
    using literal_neutral [OF open_literal(1)] by (simp_all add: string_neutral_def)
  from this [of "[]"] this [of "[CHR 0x5C]"] show ?case
    using open_literal(2) by (auto simp: stripped_simps final_state_simps)
next
  case (line c s t)
  then show ?case
    using strip_line_comment [OF line(1), of s] by (cases t) (auto simp: stripped_simps final_state_simps)
next
  case (last_line c)
  then show ?case using strip_line_comment [of c] by (simp add: stripped_simps final_state_simps)
next
  case (block c s t)
  then show ?case
    using strip_block_comment [OF block(1), of s] by (cases t) (auto simp: stripped_simps final_state_simps)
next
  case (open_block c)
  then show ?case using strip_block_comment [of c] by (simp add: stripped_simps final_state_simps)
qed simp

text \<open>Every text has such parts.\<close>

lemma literal_split:
  "(\<exists>b r. s = b @ CHR 0x22 # r \<and> literal_body b) \<or> (\<exists>b. literal_body b \<and> s \<in> {b, b @ [CHR 0x5C]})"
proof (induction s rule: literal_body.induct)
  case (2 c s)
  consider "c = CHR 0x22" | "c = CHR 0x5C" "s = []" | d s' where "c = CHR 0x5C" "s = d # s'"
    | "c \<noteq> CHR 0x22" "c \<noteq> CHR 0x5C" by (cases s) auto
  then show ?case
  proof cases
    case 1
    then have "c # s = [] @ CHR 0x22 # s \<and> literal_body []" by simp
    then show ?thesis by blast
  next
    case 2
    then have "literal_body [] \<and> c # s \<in> {[], [] @ [CHR 0x5C]}" by simp
    then show ?thesis by blast
  next
    case (3 d s')
    have e: "literal_body (c # d # b) = literal_body b" for b using 3 by simp
    from "2.IH"(1) [OF 3] show ?thesis
    proof (elim disjE exE conjE)
      fix b r assume "s' = b @ CHR 0x22 # r" "literal_body b"
      then have "c # s = (c # d # b) @ CHR 0x22 # r \<and> literal_body (c # d # b)" using 3 by simp
      then show ?thesis by blast
    next
      fix b assume "literal_body b" "s' \<in> {b, b @ [CHR 0x5C]}"
      then have "literal_body (c # d # b) \<and> c # s \<in> {c # d # b, (c # d # b) @ [CHR 0x5C]}" using 3 by auto
      then show ?thesis by blast
    qed
  next
    case 4
    from "2.IH"(2) [OF 4(2)] show ?thesis
    proof (elim disjE exE conjE)
      fix b r assume "s = b @ CHR 0x22 # r" "literal_body b"
      then have "c # s = (c # b) @ CHR 0x22 # r \<and> literal_body (c # b)" using 4 by simp
      then show ?thesis by blast
    next
      fix b assume "literal_body b" "s \<in> {b, b @ [CHR 0x5C]}"
      then have "literal_body (c # b) \<and> c # s \<in> {c # b, (c # b) @ [CHR 0x5C]}" using 4 by auto
      then show ?thesis by blast
    qed
  qed
qed simp

lemma block_split: "contains_str s ''*/'' \<Longrightarrow> \<exists>c r. s = c @ ''*/'' @ r \<and> \<not> contains_str c ''*/''"
proof (induction s)
  case (Cons d s)
  show ?case
  proof (cases "d = CHR ''*'' \<and> s \<noteq> [] \<and> hd s = CHR ''/''")
    case True
    then have "d # s = [] @ ''*/'' @ tl s \<and> \<not> contains_str [] ''*/''" by (cases s) auto
    then show ?thesis by blast
  next
    case False
    then have "contains_str s ''*/''" using Cons.prems by (cases s) (auto simp: prefix_Cons)
    then obtain c r where c: "s = c @ ''*/'' @ r" "\<not> contains_str c ''*/''" using Cons.IH by blast
    then have "d # s = (d # c) @ ''*/'' @ r \<and> \<not> contains_str (d # c) ''*/''"
      using False by (cases c) (auto simp: prefix_Cons)
    then show ?thesis by blast
  qed
qed simp

lemma jsonc_text_total: "\<exists>t. jsonc_text s t"
proof (induction s rule: length_induct)
  case (1 s)
  show ?case
  proof (cases s)
    case Nil
    then show ?thesis using jsonc_text.empty by blast
  next
    case (Cons c r)
    have ih: "\<exists>t. jsonc_text v t" if "length v < length s" for v using "1.IH" that by blast
    consider "c = CHR 0x22" | u where "c = CHR ''/''" "r = CHR ''/'' # u" | u where "c = CHR ''/''" "r = CHR ''*'' # u"
      | "c \<noteq> CHR 0x22" "\<not> (c = CHR ''/'' \<and> r \<noteq> [] \<and> hd r \<in> {CHR ''/'', CHR ''*''})"
      by (cases r) auto
    then show ?thesis
    proof cases
      case 1
      from literal_split [of r] show ?thesis
      proof (elim disjE exE conjE)
        fix b u assume u: "r = b @ CHR 0x22 # u" "literal_body b"
        then obtain t where "jsonc_text u t" using ih [of u] Cons by auto
        then show ?thesis using Cons 1 u jsonc_text.literal by blast
      qed (use Cons 1 jsonc_text.open_literal in blast)
    next
      case (2 u)
      show ?thesis
      proof (cases "CHR 0x0A \<in> set u")
        case True
        then obtain d v where v: "u = d @ CHR 0x0A # v" "CHR 0x0A \<notin> set d" by (meson split_list_first)
        then obtain t where "jsonc_text v t" using ih [of v] Cons 2 by auto
        then show ?thesis using Cons 2 v jsonc_text.line [of d v] by auto
      qed (use Cons 2 jsonc_text.last_line [of u] in auto)
    next
      case (3 u)
      show ?thesis
      proof (cases "contains_str u ''*/''")
        case True
        then obtain d v where v: "u = d @ ''*/'' @ v" "\<not> contains_str d ''*/''" using block_split by blast
        then obtain t where "jsonc_text v t" using ih [of v] Cons 3 by auto
        then show ?thesis using Cons 3 v jsonc_text.block [of d v] by auto
      qed (use Cons 3 jsonc_text.open_block [of u] in auto)
    next
      case 4
      obtain t where "jsonc_text r t" using ih [of r] Cons by auto
      then show ?thesis using Cons jsonc_text.byte [OF 4] by blast
    qed
  qed
qed

text \<open>
  C25: the stripper returns exactly what is left of the text by its parts (\<^const>\<open>jsonc_text\<close>): code and
  string literals byte by byte, whatever a literal contains, nothing of a comment but its line breaks; and
  it fails exactly when a block comment is not closed.
\<close>

theorem stripJSONCComments_exact:
  "stripJSONCComments s = r \<longleftrightarrow>
     (case r of
        Inr t \<Rightarrow> jsonc_text s (Some t)
      | Inl e \<Rightarrow> jsonc_text s None \<and> e = Err ''unterminated block comment'')"
proof -
  obtain t where t: "jsonc_text s t" using jsonc_text_total by blast
  note strip = jsonc_text_stripped [OF t]
  have u: "t' = t" if "jsonc_text s t'" for t'
    using strip jsonc_text_stripped [OF that] by (cases t; cases t') simp_all
  show ?thesis
  proof (cases t)
    case None
    then have "stripJSONCComments s = Inl (Err ''unterminated block comment'')"
      using strip by (simp add: stripJSONCComments_eq)
    then show ?thesis using None t by (cases r) (auto dest: u)
  next
    case (Some v)
    then have "stripJSONCComments s = Inr v" using strip by (simp add: stripJSONCComments_eq)
    then show ?thesis using Some t by (cases r) (auto dest: u)
  qed
qed

end
