(* ===== verification/Loader.thy ===== *)
theory Loader
  imports CaseModel StructDecode Jsonc
begin

text \<open>
  \<open>loader.go\<close> and \<open>dto.go\<close>: finding the case files of a source, decoding one of them, and
  checking it into the case the runner executes.
\<close>

section \<open>Package path\<close>

definition clean_component :: "bool \<Rightarrow> string list \<Rightarrow> string \<Rightarrow> string list" where
  "clean_component rooted stack c =
     (if c = [] \<or> c = ''.'' then stack
      else if c = ''..'' then
        (if stack \<noteq> [] \<and> last stack \<noteq> ''..'' then butlast stack
         else if rooted then stack else stack @ [c])
      else stack @ [c])"

definition path_clean :: "string \<Rightarrow> string" where
  "path_clean p =
     (let rooted = prefix ''/'' p;
          s = join_with ''/'' (foldl (clean_component rooted) [] (split_on (CHR ''/'') p))
      in if rooted then CHR ''/'' # s else if s = [] then ''.'' else s)"

definition path_join :: "string \<Rightarrow> string \<Rightarrow> string" where
  "path_join a b =
     (if a = [] \<and> b = [] then [] else path_clean (if a = [] then b else a @ CHR ''/'' # b))"

definition path_ext :: "string \<Rightarrow> string" where
  "path_ext p =
     (let r = takeWhile (\<lambda>c. c \<noteq> CHR ''.'' \<and> c \<noteq> CHR ''/'') (rev p)
      in case drop (length r) (rev p) of
           c # _ \<Rightarrow> if c = CHR ''.'' then c # rev r else []
         | [] \<Rightarrow> [])"

section \<open>dto.go\<close>

record awaitRetryFile =
  arf_timeoutMS :: int
  arf_intervalMS :: int
  arf_maxAttempts :: int

record stepFile =
  sf_id :: string
  sf_kind :: string
  sf_handler :: string
  sf_request :: string
  sf_retry :: "awaitRetryFile option"

record assertFileSection =
  af_code :: string
  af_messageContains :: string
  af_response :: string
  af_responseFromStep :: string
  af_responseMode :: string

record caseFile =
  cf_name :: string
  cf_labels :: "string list"
  cf_description :: string
  cf_steps :: "stepFile list"
  cf_assert :: assertFileSection

definition zeroRetry :: awaitRetryFile where
  "zeroRetry = \<lparr>arf_timeoutMS = 0, arf_intervalMS = 0, arf_maxAttempts = 0\<rparr>"

definition zeroStep :: stepFile where
  "zeroStep = \<lparr>sf_id = [], sf_kind = [], sf_handler = [], sf_request = [], sf_retry = None\<rparr>"

definition zeroAssert :: assertFileSection where
  "zeroAssert = \<lparr>af_code = [], af_messageContains = [], af_response = [], af_responseFromStep = [],
     af_responseMode = []\<rparr>"

definition zeroCase :: caseFile where
  "zeroCase = \<lparr>cf_name = [], cf_labels = [], cf_description = [], cf_steps = [], cf_assert = zeroAssert\<rparr>"

definition storeRetry :: "awaitRetryFile \<Rightarrow> string \<Rightarrow> awaitRetryFile result" where
  "storeRetry v raw =
     rbind (decode_struct [''timeout_ms'', ''interval_ms'', ''max_attempts''] raw) (\<lambda>ms.
     rbind (store_all store_int (arf_timeoutMS v) (field_values ms ''timeout_ms'')) (\<lambda>t.
     rbind (store_all store_int (arf_intervalMS v) (field_values ms ''interval_ms'')) (\<lambda>i.
     rbind (store_all store_int (arf_maxAttempts v) (field_values ms ''max_attempts'')) (\<lambda>m.
     Inr \<lparr>arf_timeoutMS = t, arf_intervalMS = i, arf_maxAttempts = m\<rparr>))))"

definition storeStep :: "stepFile \<Rightarrow> string \<Rightarrow> stepFile result" where
  "storeStep v raw =
     rbind (decode_struct [''id'', ''kind'', ''handler'', ''request'', ''retry''] raw) (\<lambda>ms.
     rbind (store_all store_string (sf_id v) (field_values ms ''id'')) (\<lambda>i.
     rbind (store_all store_string (sf_kind v) (field_values ms ''kind'')) (\<lambda>k.
     rbind (store_all store_string (sf_handler v) (field_values ms ''handler'')) (\<lambda>h.
     rbind (store_all store_raw (sf_request v) (field_values ms ''request'')) (\<lambda>q.
     rbind (store_all (store_ptr storeRetry zeroRetry) (sf_retry v) (field_values ms ''retry'')) (\<lambda>r.
     Inr \<lparr>sf_id = i, sf_kind = k, sf_handler = h, sf_request = q, sf_retry = r\<rparr>))))))"

definition storeAssert :: "assertFileSection \<Rightarrow> string \<Rightarrow> assertFileSection result" where
  "storeAssert v raw =
     rbind (decode_struct [''code'', ''message_contains'', ''response'', ''response_from_step'', ''response_mode''] raw) (\<lambda>ms.
     rbind (store_all store_string (af_code v) (field_values ms ''code'')) (\<lambda>c.
     rbind (store_all store_string (af_messageContains v) (field_values ms ''message_contains'')) (\<lambda>m.
     rbind (store_all store_raw (af_response v) (field_values ms ''response'')) (\<lambda>r.
     rbind (store_all store_string (af_responseFromStep v) (field_values ms ''response_from_step'')) (\<lambda>f.
     rbind (store_all store_string (af_responseMode v) (field_values ms ''response_mode'')) (\<lambda>d.
     Inr \<lparr>af_code = c, af_messageContains = m, af_response = r, af_responseFromStep = f,
          af_responseMode = d\<rparr>))))))"

definition storeCase :: "caseFile \<Rightarrow> string \<Rightarrow> caseFile result" where
  "storeCase v raw =
     rbind (decode_struct [''name'', ''labels'', ''description'', ''steps'', ''assert''] raw) (\<lambda>ms.
     rbind (store_all store_string (cf_name v) (field_values ms ''name'')) (\<lambda>n.
     rbind (store_all (store_slice store_string []) (cf_labels v) (field_values ms ''labels'')) (\<lambda>l.
     rbind (store_all store_string (cf_description v) (field_values ms ''description'')) (\<lambda>d.
     rbind (store_all (store_slice storeStep zeroStep) (cf_steps v) (field_values ms ''steps'')) (\<lambda>s.
     rbind (store_all storeAssert (cf_assert v) (field_values ms ''assert'')) (\<lambda>a.
     Inr \<lparr>cf_name = n, cf_labels = l, cf_description = d, cf_steps = s, cf_assert = a\<rparr>))))))"

section \<open>One case\<close>

record 'w registry =
  rg_resolve :: "string \<Rightarrow> 'w handler result"
  rg_supported :: "string list"

definition decodeCaseFile :: "string \<Rightarrow> caseFile result" where
  "decodeCaseFile rawJSON =
     (case json_decode rawJSON of
        Inl e \<Rightarrow> Inl (Errorf ''decode: %w'' [AErr decodeErr])
      | Inr (_, rest) \<Rightarrow>
          rbind (map_err (\<lambda>e. Errorf ''decode: %w'' [AErr e])
                   (storeCase zeroCase (take (length (skip_space rawJSON) - length rest) (skip_space rawJSON)))) (\<lambda>decoded.
          case json_decode rest of
            Inr _ \<Rightarrow> Inl (Err ''unexpected trailing JSON token'')
          | Inl e \<Rightarrow>
              if e \<noteq> DecEOF then Inl (Errorf ''unexpected trailing JSON: %w'' [AErr decodeErr])
              else Inr decoded))"

definition parseStepKind :: "string \<Rightarrow> string \<Rightarrow> string \<Rightarrow> string result" where
  "parseStepKind casePath fieldPath rawKind =
     (let normalized = trim_space rawKind in
      if normalized = [] then
        Inl (Errorf ''%s: field %s.kind is required'' [AStr casePath, AStr fieldPath])
      else if normalized \<in> set stepKinds then Inr normalized
      else Inl (Errorf ''%s: field %s.kind: unsupported kind %q; allowed kinds: prepare, action, publish, await, verify, cleanup''
                  [AStr casePath, AStr fieldPath, AStr normalized]))"

definition mapAwaitRetry ::
    "string \<Rightarrow> string \<Rightarrow> string \<Rightarrow> awaitRetryFile option \<Rightarrow> awaitRetry option result" where
  "mapAwaitRetry casePath fieldPath kind retryFile =
     (let at = [AStr casePath, AStr fieldPath] in
      if kind \<noteq> StepKindAwait then
        (if retryFile \<noteq> None then Inl (Errorf ''%s: field %s.retry is allowed only for kind=await'' at)
         else Inr None)
      else case retryFile of
        None \<Rightarrow> Inl (Errorf ''%s: field %s.retry is required for kind=await'' at)
      | Some r \<Rightarrow>
          if arf_timeoutMS r \<le> 0 then Inl (Errorf ''%s: field %s.retry.timeout_ms must be > 0'' at)
          else if arf_intervalMS r \<le> 0 then Inl (Errorf ''%s: field %s.retry.interval_ms must be > 0'' at)
          else if arf_maxAttempts r \<le> 0 then Inl (Errorf ''%s: field %s.retry.max_attempts must be > 0'' at)
          else Inr (Some \<lparr>ar_timeoutMS = arf_timeoutMS r, ar_intervalMS = arf_intervalMS r,
                          ar_maxAttempts = arf_maxAttempts r\<rparr>))"

definition mapStep :: "string \<Rightarrow> string \<Rightarrow> stepFile \<Rightarrow> 'w registry \<Rightarrow> 'w step result" where
  "mapStep casePath fieldPath rawStep registry =
     (let stepID = trim_space (sf_id rawStep) in
      rbind (ensure (stepID \<noteq> []) (Errorf ''%s: field %s.id is required'' [AStr casePath, AStr fieldPath])) (\<lambda>_.
      rbind (parseStepKind casePath fieldPath (sf_kind rawStep)) (\<lambda>kind.
      let normalizedHandler = trim_space (sf_handler rawStep) in
      rbind (ensure (normalizedHandler \<noteq> [])
        (Errorf ''%s: field %s.handler is required'' [AStr casePath, AStr fieldPath])) (\<lambda>_.
      rbind (map_err (\<lambda>_. Errorf ''%s: field %s.handler: unsupported handler %q; supported handlers: %s''
               [AStr casePath, AStr fieldPath, AStr normalizedHandler,
                AStr (join_with '', '' (sort (rg_supported registry)))])
               (rg_resolve registry normalizedHandler)) (\<lambda>handler.
      rbind (ensure (length (trim_space (sf_request rawStep)) \<noteq> 0)
        (Errorf ''%s: field %s.request is required'' [AStr casePath, AStr fieldPath])) (\<lambda>_.
      rbind (if requestContainsStepTemplate (sf_request rawStep) then Inr (StepDynamicRequest (sf_request rawStep))
             else rbind (map_err (\<lambda>e. Errorf ''%s: decode %s.request: %w'' [AStr casePath, AStr fieldPath, AErr e])
                           (h_decodeRequest handler (sf_request rawStep))) (\<lambda>v. Inr (Ready v))) (\<lambda>request.
      rbind (mapAwaitRetry casePath fieldPath kind (sf_retry rawStep)) (\<lambda>retry.
      Inr \<lparr>st_id = stepID, st_kind = kind, st_handlerName = normalizedHandler, st_handler = Some handler,
           st_request = request, st_retry = retry\<rparr>))))))))"

definition parseResponseMode :: "string \<Rightarrow> string result" where
  "parseResponseMode raw =
     (if raw = [] \<or> raw = ResponseModeExact then Inr ResponseModeExact
      else if raw = ResponseModePartial then Inr ResponseModePartial
      else Inl (Errorf ''unsupported value %q; allowed values are %q and %q''
                  [AStr raw, AStr ResponseModeExact, AStr ResponseModePartial]))"

definition mapSuccessAssertResponse ::
    "string \<Rightarrow> string \<Rightarrow> bool \<Rightarrow> 'w step option \<Rightarrow> string \<Rightarrow> gval result" where
  "mapSuccessAssertResponse casePath rawResponse responseProvided targetStep responseMode =
     (if \<not> responseProvided then Inl (Errorf ''%s: field assert.response is required for code=%v'' [AStr casePath])
      else case targetStep of
        None \<Rightarrow> Inl (Errorf ''%s: field assert.response cannot be decoded because no target step is available''
                       [AStr casePath])
      | Some target \<Rightarrow>
          if responseMode = ResponseModePartial then
            rbind (map_err (\<lambda>e. Errorf ''%s: decode raw assert.response: %w'' [AStr casePath, AErr e])
                     (decodeExpectedJSON rawResponse)) (\<lambda>j. Inr (json_val j))
          else
            rbind (map_err (\<lambda>e. Errorf ''%s: decode raw assert.response: %w'' [AStr casePath, AErr e])
                     (decodeRawExpectedResponse rawResponse)) (\<lambda>rawExpectedResponse.
            if responseTemplateContainsSpecialMatcher rawExpectedResponse then Inr (json_val rawExpectedResponse)
            else case st_handler target of
                   None \<Rightarrow> Inl (Opaque ''nil handler'')
                 | Some handler \<Rightarrow>
                     map_err (\<lambda>e. Errorf ''%s: decode assert.response: %w'' [AStr casePath, AErr e])
                       (h_decodeExpectedResponse handler rawResponse)))"

definition mapAssertSection ::
    "string \<Rightarrow> assertFileSection \<Rightarrow> 's statusCodec \<Rightarrow> 'w step gomap \<Rightarrow> string \<Rightarrow> 's assert_section result" where
  "mapAssertSection casePath assertCase codec stepsByID lastActionStepID =
     rbind (map_err (\<lambda>e. Errorf ''%s: field assert.code: %w'' [AStr casePath, AErr e])
              (sc_parse codec (af_code assertCase))) (\<lambda>code.
     let responseFromStep = trim_space (af_responseFromStep assertCase);
         namedStep = mget stepsByID responseFromStep in
     rbind (ensure (responseFromStep = [] \<or> namedStep \<noteq> None)
       (Errorf ''%s: field assert.response_from_step: unknown step id %q'' [AStr casePath, AStr responseFromStep])) (\<lambda>_.
     let responseProvided = 0 < length (trim_space (af_response assertCase)) in
     rbind (ensure (\<not> (responseProvided \<and> responseFromStep = [] \<and> lastActionStepID = []))
       (Errorf ''%s: field assert.response requires at least one action step when assert.response_from_step is empty''
          [AStr casePath])) (\<lambda>_.
     let targetStep = (if responseFromStep = [] \<and> lastActionStepID \<noteq> []
                       then mget stepsByID lastActionStepID else namedStep) in
     rbind (map_err (\<lambda>e. Errorf ''%s: field assert.response_mode: %w'' [AStr casePath, AErr e])
              (parseResponseMode (af_responseMode assertCase))) (\<lambda>responseMode.
     let loadedAssert = \<lparr>as_code = code, as_messageContains = af_messageContains assertCase,
           as_response = VInvalid, as_responseFromStep = responseFromStep, as_responseMode = responseMode\<rparr> in
     if code \<noteq> sc_success codec then
       (if af_responseMode assertCase \<noteq> [] then
          Inl (Errorf ''%s: field assert.response_mode requires code=%v'' [AStr casePath])
        else Inr loadedAssert)
     else
       rbind (mapSuccessAssertResponse casePath (af_response assertCase) responseProvided targetStep responseMode)
         (\<lambda>expectedResponse. Inr (loadedAssert\<lparr>as_response := expectedResponse\<rparr>))))))"

text \<open>The loop over the steps: the map by id and the id of the last action step are arguments.\<close>

fun mapSteps ::
    "string \<Rightarrow> 'w registry \<Rightarrow> nat \<Rightarrow> stepFile list \<Rightarrow> 'w step gomap \<Rightarrow> string
       \<Rightarrow> ('w step list \<times> 'w step gomap \<times> string) result" where
  "mapSteps casePath registry index [] stepsByID lastActionStepID = Inr ([], stepsByID, lastActionStepID)"
| "mapSteps casePath registry index (fileStep # fileSteps) stepsByID lastActionStepID =
     (let fieldPath = ''steps['' @ nat_digits index @ '']'' in
      rbind (mapStep casePath fieldPath fileStep registry) (\<lambda>loadedStep.
      rbind (ensure (mget stepsByID (st_id loadedStep) = None)
        (Errorf ''%s: field %s.id: duplicate step id %q''
           [AStr casePath, AStr fieldPath, AStr (st_id loadedStep)])) (\<lambda>_.
      rbind (mapSteps casePath registry (Suc index) fileSteps (mput (st_id loadedStep) loadedStep stepsByID)
               (if st_kind loadedStep = StepKindAction then st_id loadedStep else lastActionStepID))
        (\<lambda>(loadedSteps, m, l). Inr (loadedStep # loadedSteps, m, l)))))"

definition mapCaseFile ::
    "string \<Rightarrow> caseFile \<Rightarrow> 'w registry \<Rightarrow> 's statusCodec \<Rightarrow> ('w, 's) test_case result" where
  "mapCaseFile casePath fileCase registry codec =
     (let caseName = trim_space (cf_name fileCase) in
      rbind (ensure (caseName \<noteq> []) (Errorf ''%s: field name is required'' [AStr casePath])) (\<lambda>_.
      rbind (ensure (length (cf_steps fileCase) \<noteq> 0) (Errorf ''%s: field steps is required'' [AStr casePath])) (\<lambda>_.
      rbind (mapSteps casePath registry 0 (cf_steps fileCase) [] []) (\<lambda>(loadedSteps, stepsByID, lastActionStepID).
      rbind (mapAssertSection casePath (cf_assert fileCase) codec stepsByID lastActionStepID) (\<lambda>assertSection.
      Inr \<lparr>tc_name = caseName, tc_sourcePath = casePath, tc_steps = loadedSteps, tc_assert = assertSection\<rparr>)))))"

section \<open>A directory of cases\<close>

record case_source =
  cs_readDir :: "string \<Rightarrow> (string \<times> bool) list result" \<comment> \<open>names, with \<open>IsDir\<close>\<close>
  cs_readFile :: "string \<Rightarrow> string result"

definition loadCase ::
    "case_source \<Rightarrow> string \<Rightarrow> 'w registry \<Rightarrow> 's statusCodec \<Rightarrow> ('w, 's) test_case result" where
  "loadCase source casePath registry codec =
     rbind (map_err (\<lambda>e. Errorf ''read file: %w'' [AErr e]) (cs_readFile source casePath)) (\<lambda>rawCase.
     rbind (map_err (\<lambda>e. Errorf ''strip comments: %w'' [AErr e]) (stripJSONCComments rawCase)) (\<lambda>jsonCase.
     rbind (map_err (\<lambda>e. Errorf ''decode case file: %w'' [AErr e]) (decodeCaseFile jsonCase)) (\<lambda>fileCase.
     mapCaseFile casePath fileCase registry codec)))"

text \<open>
  The recursion follows the directories of the source, which need not be finite; the fuel
  bounds its depth, and \<^const>\<open>None\<close> is the result where it does not suffice.
\<close>

fun listCasePaths :: "nat \<Rightarrow> case_source \<Rightarrow> string \<Rightarrow> string list comp" where
  "listCasePaths 0 source rootDir = None"
| "listCasePaths (Suc n) source rootDir =
     (case cs_readDir source rootDir of
        Inl e \<Rightarrow> Some (Inl (Errorf ''read dir %s: %w'' [AStr rootDir, AErr e]))
      | Inr entries \<Rightarrow>
          comp_bind
            (comp_map (\<lambda>(name, isDir).
                let entryPath = path_join rootDir name in
                if isDir then listCasePaths n source entryPath
                else Some (Inr (if path_ext name = ''.jsonc'' then [entryPath] else []))) entries)
            (\<lambda>casePaths. Some (Inr (sort (concat casePaths)))))"

definition validateUniqueCaseName :: "string gomap \<Rightarrow> string \<Rightarrow> string \<Rightarrow> unit result" where
  "validateUniqueCaseName seenNames caseName casePath =
     (case mget seenNames caseName of
        Some previousPath \<Rightarrow>
          Inl (Errorf ''duplicate case name %q: %s and %s'' [AStr caseName, AStr previousPath, AStr casePath])
      | None \<Rightarrow> Inr ())"

fun loadAll ::
    "case_source \<Rightarrow> 'w registry \<Rightarrow> 's statusCodec \<Rightarrow> string list \<Rightarrow> string gomap \<Rightarrow> ('w, 's) test_case list result" where
  "loadAll source registry codec [] seenNames = Inr []"
| "loadAll source registry codec (casePath # casePaths) seenNames =
     rbind (map_err (\<lambda>e. Errorf ''load %s: %w'' [AStr casePath, AErr e]) (loadCase source casePath registry codec)) (\<lambda>loadedCase.
     rbind (validateUniqueCaseName seenNames (tc_name loadedCase) casePath) (\<lambda>_.
     rbind (loadAll source registry codec casePaths (mput (tc_name loadedCase) casePath seenNames)) (\<lambda>loadedCases.
     Inr (loadedCase # loadedCases))))"

definition loadCases ::
    "nat \<Rightarrow> case_source \<Rightarrow> string \<Rightarrow> 'w registry \<Rightarrow> 's statusCodec \<Rightarrow> ('w, 's) test_case list comp" where
  "loadCases n source rootDir registry codec =
     comp_bind (comp_err (\<lambda>e. Errorf ''list test cases: %w'' [AErr e]) (listCasePaths n source rootDir)) (\<lambda>casePaths.
       Some (if length casePaths = 0 then Inl (Errorf ''no .jsonc cases found in %s'' [AStr rootDir])
             else loadAll source registry codec casePaths []))"


section \<open>What a loaded case satisfies\<close>

definition trimmed :: "string \<Rightarrow> bool" where
  "trimmed s \<longleftrightarrow> s \<noteq> [] \<and> trim_space s = s"

fun wf_retry :: "string \<Rightarrow> awaitRetry option \<Rightarrow> bool" where
  "wf_retry kind None \<longleftrightarrow> kind \<noteq> StepKindAwait"
| "wf_retry kind (Some r) \<longleftrightarrow>
     kind = StepKindAwait \<and> 0 < ar_timeoutMS r \<and> 0 < ar_intervalMS r \<and> 0 < ar_maxAttempts r"

definition wf_step :: "'w step \<Rightarrow> bool" where
  "wf_step s \<longleftrightarrow> trimmed (st_id s) \<and> st_kind s \<in> set stepKinds \<and> trimmed (st_handlerName s) \<and>
     st_handler s \<noteq> None \<and> wf_retry (st_kind s) (st_retry s)"

definition last_action :: "'w step list \<Rightarrow> string option" where
  "last_action steps =
     (case filter (\<lambda>s. st_kind s = StepKindAction) steps of [] \<Rightarrow> None | as \<Rightarrow> Some (st_id (last as)))"

text \<open>The step whose response the assert section is about.\<close>

definition assert_target :: "('w, 's) test_case \<Rightarrow> string option" where
  "assert_target c =
     (if as_responseFromStep (tc_assert c) \<noteq> [] then Some (as_responseFromStep (tc_assert c))
      else last_action (tc_steps c))"

definition wf_case :: "'s \<Rightarrow> ('w, 's) test_case \<Rightarrow> bool" where
  "wf_case success c \<longleftrightarrow>
     trimmed (tc_name c) \<and> tc_steps c \<noteq> [] \<and> list_all wf_step (tc_steps c) \<and>
     distinct (map st_id (tc_steps c)) \<and>
     as_responseMode (tc_assert c) \<in> {ResponseModeExact, ResponseModePartial} \<and>
     (as_responseFromStep (tc_assert c) \<noteq> [] \<longrightarrow>
        as_responseFromStep (tc_assert c) \<in> set (map st_id (tc_steps c))) \<and>
     (as_code (tc_assert c) = success \<longrightarrow>
        (case assert_target c of None \<Rightarrow> False | Some i \<Rightarrow> i \<in> set (map st_id (tc_steps c)))) \<and>
     (as_code (tc_assert c) \<noteq> success \<longrightarrow> as_response (tc_assert c) = VInvalid)"

lemma mapAwaitRetry_ok_iff:
  "mapAwaitRetry cp fp kind rf = Inr r \<longleftrightarrow>
     wf_retry kind r \<and>
     r = map_option (\<lambda>f. \<lparr>ar_timeoutMS = arf_timeoutMS f, ar_intervalMS = arf_intervalMS f,
                          ar_maxAttempts = arf_maxAttempts f\<rparr>) rf"
  by (cases rf; cases r) (auto simp: mapAwaitRetry_def Let_def)

lemma parseStepKind_ok_iff:
  "parseStepKind cp fp raw = Inr k \<longleftrightarrow> k = trim_space raw \<and> k \<in> set stepKinds"
  by (auto simp: parseStepKind_def Let_def stepKinds_def kind_defs)

lemma trimmed_trim_space [simp]: "trimmed (trim_space s) \<longleftrightarrow> trim_space s \<noteq> []"
  by (simp add: trimmed_def)

text \<open>When a step is accepted, and what it is then.\<close>

lemma mapStep_ok_iff:
  "mapStep cp fp raw reg = Inr s \<longleftrightarrow>
     (\<exists>h q.
        trim_space (sf_id raw) \<noteq> [] \<and> trim_space (sf_kind raw) \<in> set stepKinds \<and>
        trim_space (sf_handler raw) \<noteq> [] \<and> rg_resolve reg (trim_space (sf_handler raw)) = Inr h \<and>
        trim_space (sf_request raw) \<noteq> [] \<and>
        (if requestContainsStepTemplate (sf_request raw) then q = StepDynamicRequest (sf_request raw)
         else \<exists>v. h_decodeRequest h (sf_request raw) = Inr v \<and> q = Ready v) \<and>
        wf_retry (trim_space (sf_kind raw)) (st_retry s) \<and>
        mapAwaitRetry cp fp (trim_space (sf_kind raw)) (sf_retry raw) = Inr (st_retry s) \<and>
        s = \<lparr>st_id = trim_space (sf_id raw), st_kind = trim_space (sf_kind raw),
             st_handlerName = trim_space (sf_handler raw), st_handler = Some h, st_request = q,
             st_retry = st_retry s\<rparr>)"
  by (cases s) (auto simp: mapStep_def Let_def parseStepKind_ok_iff mapAwaitRetry_ok_iff)

lemma mapStep_wf: "mapStep cp fp raw reg = Inr s \<Longrightarrow> wf_step s \<and> st_id s = trim_space (sf_id raw)"
  unfolding mapStep_ok_iff wf_step_def by (cases s) auto

lemma last_action_Cons:
  "last_action (s # ss) =
     (case last_action ss of
        Some i \<Rightarrow> Some i
      | None \<Rightarrow> if st_kind s = StepKindAction then Some (st_id s) else None)"
  by (auto simp: last_action_def split: list.splits)

lemma last_action_Nil [simp]: "last_action [] = None"
  by (simp add: last_action_def)

text \<open>The loop over the steps.\<close>

lemma mapSteps_ok:
  assumes "mapSteps cp reg i fs m l = Inr (ss, m', l')" "wf_map m"
  shows "list_all wf_step ss \<and> map st_id ss = map (\<lambda>f. trim_space (sf_id f)) fs \<and> distinct (map st_id ss) \<and>
    set (map st_id ss) \<inter> set (mkeys m) = {} \<and> wf_map m' \<and>
    set (mkeys m') = set (mkeys m) \<union> set (map st_id ss) \<and>
    l' = (case last_action ss of None \<Rightarrow> l | Some a \<Rightarrow> a)"
  using assms
proof (induction fs arbitrary: i m l ss)
  case Nil
  then show ?case by simp
next
  case (Cons f fs)
  obtain s ss1 where s: "mapStep cp (''steps['' @ nat_digits i @ '']'') f reg = Inr s"
    and fresh: "mget m (st_id s) = None" and ss: "ss = s # ss1"
    and rest: "mapSteps cp reg (Suc i) fs (mput (st_id s) s m)
        (if st_kind s = StepKindAction then st_id s else l) = Inr (ss1, m', l')"
    using Cons.prems(1) by (auto simp: Let_def split: prod.splits)
  note ih = Cons.IH [OF rest wf_mput [OF Cons.prems(2)]]
  have "set (mkeys (mput (st_id s) s m)) = insert (st_id s) (set (mkeys m))"
    by (simp add: mkeys_def set_mput [simplified])
  note keys = this
  define ids where "ids = map st_id ss1"
  have ids: "map st_id ss = st_id s # ids" by (simp add: ss ids_def)
  note ih' = ih [folded ids_def, unfolded keys]
  have "distinct ids \<and> set ids \<inter> insert (st_id s) (set (mkeys m)) = {} \<and>
      set (mkeys m') = insert (st_id s) (set (mkeys m)) \<union> set ids" "st_id s \<notin> set (mkeys m)"
    using ih' fresh by (blast, simp add: mget_None_iff)
  then have "distinct (map st_id ss)" "set (map st_id ss) \<inter> set (mkeys m) = {}"
    "set (mkeys m') = set (mkeys m) \<union> set (map st_id ss)"
    unfolding ids by auto
  moreover have "map st_id ss = map (\<lambda>f. trim_space (sf_id f)) (f # fs)"
    unfolding ids using ih' mapStep_wf [OF s] by auto
  moreover have "list_all wf_step ss" using ih mapStep_wf [OF s] by (simp add: ss)
  moreover have "l' = (case last_action ss of None \<Rightarrow> l | Some a \<Rightarrow> a)"
    using ih by (simp add: ss last_action_Cons split: option.splits)
  moreover have "wf_map m'" using ih by simp
  ultimately show ?case by blast
qed

lemma last_action_mem: "last_action ss = Some i \<Longrightarrow> i \<in> set (map st_id ss)"
  by (induction ss) (auto simp: last_action_Cons split: option.splits if_splits)

lemma mapSuccessAssertResponse_target:
  "mapSuccessAssertResponse cp raw p t mode = Inr v \<Longrightarrow> p \<and> t \<noteq> None"
  by (auto simp: mapSuccessAssertResponse_def split: if_splits option.splits)

lemma parseResponseMode_ok: "parseResponseMode r = Inr m \<Longrightarrow> m \<in> {ResponseModeExact, ResponseModePartial}"
  by (auto simp: parseResponseMode_def split: if_splits)

lemma mapAssertSection_parts:
  assumes "mapAssertSection cp a codec byID lastID = Inr s"
  shows "parseResponseMode (af_responseMode a) = Inr (as_responseMode s)"
    and "as_responseFromStep s = [] \<or> mget byID (as_responseFromStep s) \<noteq> None"
    and "if as_code s = sc_success codec then
        \<exists>v. mapSuccessAssertResponse cp (af_response a) (trim_space (af_response a) \<noteq> [])
          (if as_responseFromStep s = [] \<and> lastID \<noteq> [] then mget byID lastID
           else mget byID (as_responseFromStep s)) (as_responseMode s) = Inr v
      else as_response s = VInvalid"
proof -
  define r where "r = trim_space (af_responseFromStep a)"
  obtain code where c: "sc_parse codec (af_code a) = Inr code"
    using assms by (cases "sc_parse codec (af_code a)") (simp_all add: mapAssertSection_def)
  obtain mode where m: "parseResponseMode (af_responseMode a) = Inr mode"
    using assms by (cases "parseResponseMode (af_responseMode a)") (simp_all add: mapAssertSection_def Let_def)
  have r: "r = [] \<or> mget byID r \<noteq> None"
    using assms c m by (simp add: mapAssertSection_def Let_def r_def del: not_None_eq)
  have s: "(if code \<noteq> sc_success codec then
               (if af_responseMode a \<noteq> [] then Inl (Errorf ''%s: field assert.response_mode requires code=%v'' [AStr cp])
                else Inr \<lparr>as_code = code, as_messageContains = af_messageContains a,
                       as_response = VInvalid, as_responseFromStep = r, as_responseMode = mode\<rparr>)
             else rbind (mapSuccessAssertResponse cp (af_response a) (trim_space (af_response a) \<noteq> [])
               (if r = [] \<and> lastID \<noteq> [] then mget byID lastID else mget byID r) mode)
               (\<lambda>v. Inr \<lparr>as_code = code, as_messageContains = af_messageContains a,
                       as_response = v, as_responseFromStep = r, as_responseMode = mode\<rparr>)) = Inr s"
    using assms c m by (simp add: mapAssertSection_def Let_def r_def cong: if_cong del: if_split)
  have "as_code s = code \<and> as_responseFromStep s = r \<and> as_responseMode s = mode \<and>
      (if code \<noteq> sc_success codec then as_response s = VInvalid
       else \<exists>v. mapSuccessAssertResponse cp (af_response a) (trim_space (af_response a) \<noteq> [])
               (if r = [] \<and> lastID \<noteq> [] then mget byID lastID else mget byID r) mode = Inr v)"
    using s by (cases "code = sc_success codec"; cases "af_responseMode a = []") auto
  then show "parseResponseMode (af_responseMode a) = Inr (as_responseMode s)"
    "as_responseFromStep s = [] \<or> mget byID (as_responseFromStep s) \<noteq> None"
    "if as_code s = sc_success codec then
        \<exists>v. mapSuccessAssertResponse cp (af_response a) (trim_space (af_response a) \<noteq> [])
          (if as_responseFromStep s = [] \<and> lastID \<noteq> [] then mget byID lastID
           else mget byID (as_responseFromStep s)) (as_responseMode s) = Inr v
      else as_response s = VInvalid"
    using r m by auto
qed

lemma mapAssertSection_ok:
  assumes "mapAssertSection cp a codec byID lastID = Inr s" "mget byID [] = None"
  shows "as_responseMode s \<in> {ResponseModeExact, ResponseModePartial}"
    and "as_responseFromStep s \<noteq> [] \<longrightarrow> mget byID (as_responseFromStep s) \<noteq> None"
    and "as_code s = sc_success codec \<longrightarrow>
      mget byID (if as_responseFromStep s \<noteq> [] then as_responseFromStep s else lastID) \<noteq> None"
    and "as_code s \<noteq> sc_success codec \<longrightarrow> as_response s = VInvalid"
proof -
  note p = mapAssertSection_parts [OF assms(1)]
  show "as_responseMode s \<in> {ResponseModeExact, ResponseModePartial}" by (rule parseResponseMode_ok [OF p(1)])
  show "as_responseFromStep s \<noteq> [] \<longrightarrow> mget byID (as_responseFromStep s) \<noteq> None" using p(2) by blast
  show "as_code s = sc_success codec \<longrightarrow>
      mget byID (if as_responseFromStep s \<noteq> [] then as_responseFromStep s else lastID) \<noteq> None"
    using p(3) assms(2) by (auto dest!: mapSuccessAssertResponse_target split: if_split_asm)
  show "as_code s \<noteq> sc_success codec \<longrightarrow> as_response s = VInvalid" using p(3) by simp
qed

lemma mapCaseFile_facts:
  assumes "mapCaseFile casePath fileCase registry codec = Inr c"
  shows "wf_case (sc_success codec) c \<and> tc_sourcePath c = casePath \<and>
    tc_name c = trim_space (cf_name fileCase) \<and>
    map st_id (tc_steps c) = map (\<lambda>f. trim_space (sf_id f)) (cf_steps fileCase)"
proof -
  obtain ss byID lastID a where n: "trim_space (cf_name fileCase) \<noteq> []" "cf_steps fileCase \<noteq> []"
    and ss: "mapSteps casePath registry 0 (cf_steps fileCase) [] [] = Inr (ss, byID, lastID)"
    and a: "mapAssertSection casePath (cf_assert fileCase) codec byID lastID = Inr a"
    and c: "c = \<lparr>tc_name = trim_space (cf_name fileCase), tc_sourcePath = casePath, tc_steps = ss, tc_assert = a\<rparr>"
    using assms by (auto simp: mapCaseFile_def Let_def split: prod.splits)
  note ok = mapSteps_ok [OF ss wf_map_Nil]
  have wf: "list_all wf_step ss" and m: "map st_id ss = map (\<lambda>f. trim_space (sf_id f)) (cf_steps fileCase)"
    and dist: "distinct (map st_id ss)" and keys: "set (mkeys byID) = set (mkeys ([] :: 'a step gomap)) \<union> set (map st_id ss)"
    and lastID: "lastID = (case last_action ss of None \<Rightarrow> [] | Some i \<Rightarrow> i)"
    by (insert ok, elim conjE, assumption)+
  have len: "length ss = length (cf_steps fileCase)" by (rule map_eq_imp_length_eq [OF m])
  have ids: "set (mkeys byID) = set (map st_id ss)" using keys by (simp add: mkeys_def)
  have "list_all (\<lambda>s. st_id s \<noteq> []) ss"
    using wf by (auto simp: list_all_iff wf_step_def trimmed_def)
  then have e: "mget byID [] = None" "last_action ss \<noteq> Some []"
    unfolding mget_None_iff ids using last_action_mem [of ss "[]"] by (force simp: list_all_iff)+
  have last: "ss \<noteq> []" "lastID = (case last_action ss of None \<Rightarrow> [] | Some i \<Rightarrow> i)"
    using len n(2) lastID by auto
  note sec = mapAssertSection_ok [OF a e(1), unfolded mget_None_iff ids not_not]
  have "case assert_target c of None \<Rightarrow> False | Some i \<Rightarrow> i \<in> set (map st_id (tc_steps c))"
    if "as_code a = sc_success codec"
  proof (cases "as_responseFromStep a = []")
    case True
    then have "lastID \<in> set (map st_id ss)" using sec(3) that by simp
    moreover have "[] \<notin> set (map st_id ss)" using e(1) ids by (simp add: mget_None_iff)
    ultimately have "last_action ss = Some lastID" using last(2) by (auto split: option.splits)
    then show ?thesis using True \<open>lastID \<in> _\<close> by (simp add: assert_target_def c)
  next
    case False
    then show ?thesis using sec(2) by (simp add: assert_target_def c)
  qed
  then have "as_code (tc_assert c) = sc_success codec \<longrightarrow>
      (case assert_target c of None \<Rightarrow> False | Some i \<Rightarrow> i \<in> set (map st_id (tc_steps c)))"
    by (simp only: c test_case.simps) blast
  moreover have "trimmed (tc_name c)" "tc_steps c \<noteq> []" "list_all wf_step (tc_steps c)"
    "distinct (map st_id (tc_steps c))" "as_responseMode (tc_assert c) \<in> {ResponseModeExact, ResponseModePartial}"
    "as_responseFromStep (tc_assert c) \<noteq> [] \<longrightarrow>
       as_responseFromStep (tc_assert c) \<in> set (map st_id (tc_steps c))"
    "as_code (tc_assert c) \<noteq> sc_success codec \<longrightarrow> as_response (tc_assert c) = VInvalid"
    using sec(1,2,4) n(1) last(1) wf dist by (simp_all add: c)
  ultimately have "wf_case (sc_success codec) c" unfolding wf_case_def by blast
  then show ?thesis using m by (simp add: c)
qed

text \<open>
  A case file that is accepted gives a well-formed case: a name without outer white space,
  at least one step, every step with an id, one of the six kinds, a resolved handler and a retry
  policy exactly when it awaits, no two steps with one id, and, when success is expected, a step
  whose response is compared.  The steps are those of the file, in its order.
\<close>

theorem mapCaseFile_wf:
  assumes "mapCaseFile casePath fileCase registry codec = Inr c"
  shows "wf_case (sc_success codec) c \<and> tc_sourcePath c = casePath \<and>
    tc_name c = trim_space (cf_name fileCase) \<and>
    map st_id (tc_steps c) = map (\<lambda>f. trim_space (sf_id f)) (cf_steps fileCase)"
  by (rule mapCaseFile_facts [OF assms])

definition echo_file :: caseFile where
  "echo_file = \<lparr>cf_name = '' n '', cf_labels = [], cf_description = [],
     cf_steps = [\<lparr>sf_id = ''a '', sf_kind = ''action'', sf_handler = ''h'', sf_request = ''1'', sf_retry = None\<rparr>],
     cf_assert = zeroAssert\<lparr>af_code := ''OK'', af_response := ''1''\<rparr>\<rparr>"

definition echo_handler :: "unit handler" where
  "echo_handler = \<lparr>h_decodeRequest = (\<lambda>raw. Inr (VStr raw)), h_decodeExpectedResponse = (\<lambda>raw. Inr (VStr raw)),
     h_invoke = (\<lambda>w q. (w, q, None)), h_normalizeResponse = (\<lambda>v. Inr v)\<rparr>"

definition echo_registry :: "unit registry" where
  "echo_registry = \<lparr>rg_resolve = mapRegistryResolve (newMapRegistry [(''h'', echo_handler)]),
     rg_supported = mapRegistrySupported (newMapRegistry [(''h'', echo_handler)])\<rparr>"

definition echo_codec :: "string statusCodec" where
  "echo_codec = \<lparr>sc_parse = (\<lambda>s. Inr s), sc_success = ''OK''\<rparr>"

theorem mapCaseFile_wf_witness:
  "case mapCaseFile ''p.jsonc'' echo_file echo_registry echo_codec of
     Inl _ \<Rightarrow> False | Inr c \<Rightarrow> wf_case ''OK'' c \<and> tc_name c = ''n''"
proof -
  have "is_ok (mapCaseFile ''p.jsonc'' echo_file echo_registry echo_codec)" by code_simp
  then obtain c where c: "mapCaseFile ''p.jsonc'' echo_file echo_registry echo_codec = Inr c"
    by (auto simp: is_ok_iff)
  have "trim_space '' n '' = ''n''" by code_simp
  then have "tc_name c = ''n''" using mapCaseFile_wf [OF c] by (simp add: echo_file_def)
  moreover have "sc_success echo_codec = ''OK''" by (simp add: echo_codec_def)
  ultimately show ?thesis using mapCaseFile_wf [OF c] by (simp add: c)
qed


section \<open>Which files are loaded\<close>

text \<open>The case files under a directory.\<close>

inductive case_path :: "case_source \<Rightarrow> string \<Rightarrow> string \<Rightarrow> bool" for source :: case_source where
  here: "cs_readDir source dir = Inr entries \<Longrightarrow> (name, False) \<in> set entries \<Longrightarrow>
    path_ext name = ''.jsonc'' \<Longrightarrow> case_path source dir (path_join dir name)"
| below: "cs_readDir source dir = Inr entries \<Longrightarrow> (name, True) \<in> set entries \<Longrightarrow>
    case_path source (path_join dir name) p \<Longrightarrow> case_path source dir p"

inductive_simps case_path_unfold: "case_path source dir p"

lemma case_path_iff:
  "cs_readDir source dir = Inr entries \<Longrightarrow> case_path source dir p \<longleftrightarrow>
     (\<exists>name. (name, False) \<in> set entries \<and> path_ext name = ''.jsonc'' \<and> p = path_join dir name) \<or>
     (\<exists>name. (name, True) \<in> set entries \<and> case_path source (path_join dir name) p)"
  by (subst case_path_unfold) auto

text \<open>A depth for the directories of a finite source.\<close>

definition dir_depth :: "(string \<Rightarrow> nat) \<Rightarrow> case_source \<Rightarrow> bool" where
  "dir_depth depth source \<longleftrightarrow>
     (\<forall>dir entries name. cs_readDir source dir = Inr entries \<longrightarrow> (name, True) \<in> set entries \<longrightarrow>
        depth (path_join dir name) < depth dir)"

lemma comp_map_ok:
  "comp_map f xs = Some (Inr ys) \<longleftrightarrow> list_all2 (\<lambda>x y. f x = Some (Inr y)) xs ys"
  by (induction xs arbitrary: ys) (auto simp: comp_bind_ok list_all2_Cons1)

lemma comp_map_mono:
  "comp_map f xs = Some r \<Longrightarrow> (\<And>x r. x \<in> set xs \<Longrightarrow> f x = Some r \<Longrightarrow> g x = Some r) \<Longrightarrow> comp_map g xs = Some r"
proof (induction xs arbitrary: r)
  case (Cons x xs)
  obtain q where q: "f x = Some q" using Cons.prems(1) by (cases "f x") auto
  then have "g x = Some q" using Cons.prems(2) by simp
  moreover have "comp_map g xs = Some p" if "comp_map f xs = Some p" for p
    using Cons.IH [OF that] Cons.prems(2) by simp
  ultimately show ?case
    using Cons.prems(1) q by (cases q; cases "comp_map f xs") auto
qed simp

lemma list_all2_concat_iff:
  "list_all2 (\<lambda>x y. set y = F x) xs ys \<Longrightarrow> set (concat ys) = (\<Union>x \<in> set xs. F x)"
  by (induction rule: list_all2_induct) auto

text \<open>What a listing is made of.\<close>

lemma listCasePaths_ok:
  assumes "listCasePaths (Suc n) source dir = Some (Inr ps)"
  obtains entries yss where "cs_readDir source dir = Inr entries" "ps = sort (concat yss)"
    "list_all2 (\<lambda>x ys. (case x of (name, isDir) \<Rightarrow>
       if isDir then listCasePaths n source (path_join dir name)
       else Some (Inr (if path_ext name = ''.jsonc'' then [path_join dir name] else []))) = Some (Inr ys)) entries yss"
proof -
  obtain entries where e: "cs_readDir source dir = Inr entries"
    using assms by (cases "cs_readDir source dir") simp_all
  then have "\<exists>yss. comp_map (\<lambda>(name, isDir).
       let entryPath = path_join dir name in
       if isDir then listCasePaths n source entryPath
       else Some (Inr (if path_ext name = ''.jsonc'' then [entryPath] else []))) entries = Some (Inr yss) \<and>
       ps = sort (concat yss)"
    using assms by (auto simp: comp_bind_ok)
  then show thesis using e that unfolding comp_map_ok Let_def by blast
qed

lemma listCasePaths_set:
  "listCasePaths n source dir = Some (Inr ps) \<Longrightarrow> set ps = {p. case_path source dir p}"
proof (induction n arbitrary: dir ps)
  case 0
  then show ?case by simp
next
  case (Suc n)
  obtain entries yss where e: "cs_readDir source dir = Inr entries" "ps = sort (concat yss)"
    and l: "list_all2 (\<lambda>x ys. (case x of (name, isDir) \<Rightarrow>
       if isDir then listCasePaths n source (path_join dir name)
       else Some (Inr (if path_ext name = ''.jsonc'' then [path_join dir name] else []))) = Some (Inr ys)) entries yss"
    by (rule listCasePaths_ok [OF Suc.prems])
  define F where "F = (\<lambda>(name, isDir).
    if isDir then {p. case_path source (path_join dir name) p}
    else if path_ext name = ''.jsonc'' then {path_join dir name} else {})"
  have "list_all2 (\<lambda>e ys. set ys = F e) entries yss"
    using l by (rule list_all2_mono) (auto simp: F_def Suc.IH split: if_splits prod.splits)
  then have "set ps = (\<Union>x \<in> set entries. F x)"
    using e(2) list_all2_concat_iff by fastforce
  also have "\<dots> = {p. case_path source dir p}"
  proof (rule set_eqI)
    fix p
    have "p \<in> (\<Union>x \<in> set entries. F x) \<longleftrightarrow> (\<exists>name isDir. (name, isDir) \<in> set entries \<and> p \<in> F (name, isDir))"
      by force
    also have "\<dots> \<longleftrightarrow> case_path source dir p"
      unfolding case_path_iff [OF e(1)] ex_bool_eq F_def by auto
    finally show "p \<in> (\<Union>x \<in> set entries. F x) \<longleftrightarrow> p \<in> {p. case_path source dir p}" by simp
  qed
  finally show ?case .
qed

lemma listCasePaths_sorted: "listCasePaths n source dir = Some (Inr ps) \<Longrightarrow> sorted ps"
proof (cases n)
  case (Suc k)
  assume "listCasePaths n source dir = Some (Inr ps)"
  then show ?thesis unfolding Suc by (rule listCasePaths_ok) simp
qed simp

lemma listCasePaths_mono:
  "listCasePaths n source dir = Some r \<Longrightarrow> n \<le> m \<Longrightarrow> listCasePaths m source dir = Some r"
proof (induction n arbitrary: m dir r)
  case 0
  then show ?case by simp
next
  case (Suc n)
  then obtain k where m: "m = Suc k" "n \<le> k" by (cases m) auto
  show ?case
  proof (cases "cs_readDir source dir")
    case (Inl e)
    then show ?thesis using Suc.prems(1) by (simp add: m)
  next
    case (Inr entries)
    let ?f = "\<lambda>n. \<lambda>(name, isDir).
        let entryPath = path_join dir name in
        if isDir then listCasePaths n source entryPath
        else Some (Inr (if path_ext name = ''.jsonc'' then [entryPath] else []))"
    have s: "comp_bind (comp_map (?f n) entries) (\<lambda>c. Some (Inr (sort (concat c)))) = Some r"
      using Suc.prems(1) Inr by simp
    then obtain q where q: "comp_map (?f n) entries = Some q" by (cases "comp_map (?f n) entries") auto
    have "comp_map (?f k) entries = Some q"
      by (rule comp_map_mono [OF q]) (auto simp: Let_def intro: Suc.IH [OF _ m(2)] split: if_splits)
    then show ?thesis using s q Inr by (simp add: m)
  qed
qed

text \<open>A listing ends when the directories have a depth and the fuel exceeds that of the root.\<close>

lemma listCasePaths_returns:
  assumes "dir_depth depth source"
  shows "depth dir < n \<Longrightarrow> listCasePaths n source dir \<noteq> None"
proof (induction n arbitrary: dir)
  case 0
  then show ?case by simp
next
  case (Suc n)
  show ?case
  proof (cases "cs_readDir source dir")
    case (Inl e)
    then show ?thesis by simp
  next
    case (Inr entries)
    have "comp_map (\<lambda>(name, isDir).
        let entryPath = path_join dir name in
        if isDir then listCasePaths n source entryPath
        else Some (Inr (if path_ext name = ''.jsonc'' then [entryPath] else []))) entries \<noteq> None"
    proof (rule comp_map_returns)
      fix x assume x: "x \<in> set entries"
      obtain name isDir where n: "x = (name, isDir)" by (cases x)
      have "isDir \<Longrightarrow> depth (path_join dir name) < depth dir"
        using assms Inr x n unfolding dir_depth_def by (cases isDir) auto
      then show "(case x of (name, isDir) \<Rightarrow>
          let entryPath = path_join dir name in
          if isDir then listCasePaths n source entryPath
          else Some (Inr (if path_ext name = ''.jsonc'' then [entryPath] else []))) \<noteq> None"
        using Suc.IH [of "path_join dir name"] Suc.prems by (auto simp: n Let_def)
    qed
    then show ?thesis using Inr by (simp add: comp_bind_returns del: not_None_eq)
  qed
qed


section \<open>The loaded cases\<close>

lemma validateUniqueCaseName_ok [simp]: "validateUniqueCaseName seen n p = Inr u \<longleftrightarrow> n \<notin> set (mkeys seen)"
  by (auto simp: validateUniqueCaseName_def mget_None_iff [symmetric] split: option.splits)

lemma loadAll_ok_iff:
  "wf_map seen \<Longrightarrow> loadAll source registry codec ps seen = Inr cs \<longleftrightarrow>
     list_all2 (\<lambda>p c. loadCase source p registry codec = Inr c) ps cs \<and>
     distinct (map tc_name cs) \<and> set (map tc_name cs) \<inter> set (mkeys seen) = {}"
proof (induction ps arbitrary: seen cs)
  case (Cons p ps)
  have k: "set (mkeys (mput n p seen)) = insert n (set (mkeys seen))" for n
    by (simp add: mkeys_def set_mput [simplified])
  show ?case by (cases cs) (auto simp: Cons.IH [OF wf_mput [OF Cons.prems]] k)
qed auto

lemma loadCase_ok:
  "loadCase source p registry codec = Inr c \<Longrightarrow> wf_case (sc_success codec) c \<and> tc_sourcePath c = p"
  unfolding loadCase_def by (auto dest: mapCaseFile_facts)

lemma loadCases_ok_iff:
  "loadCases n source root registry codec = Some (Inr cs) \<longleftrightarrow>
     (\<exists>ps. listCasePaths n source root = Some (Inr ps) \<and> ps \<noteq> [] \<and>
        list_all2 (\<lambda>p c. loadCase source p registry codec = Inr c) ps cs \<and> distinct (map tc_name cs))"
  by (auto simp: loadCases_def comp_bind_ok comp_err_def loadAll_ok_iff mkeys_def)

lemma loaded_paths:
  "list_all2 (\<lambda>p c. loadCase source p registry codec = Inr c) ps cs \<Longrightarrow>
     map tc_sourcePath cs = ps \<and> list_all (wf_case (sc_success codec)) cs"
  by (induction rule: list_all2_induct) (auto dest: loadCase_ok)

lemma loaded_file:
  assumes "loadCases n source root registry codec = Some (Inr cs)" "case_path source root p"
  shows "\<exists>c \<in> set cs. loadCase source p registry codec = Inr c"
proof -
  obtain ps where ps: "listCasePaths n source root = Some (Inr ps)"
    and l: "list_all2 (\<lambda>p c. loadCase source p registry codec = Inr c) ps cs"
    using assms(1) unfolding loadCases_ok_iff by blast
  have "p \<in> set ps" using listCasePaths_set [OF ps] assms(2) by blast
  then obtain i where "i < length ps" "ps ! i = p" by (auto simp: in_set_conv_nth)
  then show ?thesis using l by (auto simp: list_all2_conv_all_nth)
qed

text \<open>
  C37: when loading succeeds there is at least one case, every case is well-formed, no two cases
  have one name, and the cases come from exactly the \<open>.jsonc\<close> files under the root directory, in
  the order of their paths.
\<close>

theorem loadCases_sound:
  assumes "loadCases n source root registry codec = Some (Inr cs)"
  shows "cs \<noteq> [] \<and> list_all (wf_case (sc_success codec)) cs \<and> distinct (map tc_name cs) \<and>
    sorted (map tc_sourcePath cs) \<and> set (map tc_sourcePath cs) = {p. case_path source root p}"
proof -
  obtain ps where ps: "listCasePaths n source root = Some (Inr ps)" "ps \<noteq> []"
    and l: "list_all2 (\<lambda>p c. loadCase source p registry codec = Inr c) ps cs" "distinct (map tc_name cs)"
    using assms unfolding loadCases_ok_iff by blast
  note p = loaded_paths [OF l(1)]
  have "cs \<noteq> []" using p ps(2) by auto
  then show ?thesis
    using p l(2) listCasePaths_sorted [OF ps(1)] listCasePaths_set [OF ps(1)] by simp
qed

text \<open>A tree with a case in a nested directory, and a file that is no case.\<close>

definition two_dirs :: case_source where
  "two_dirs = \<lparr>cs_readDir = (\<lambda>d. if d = ''cases'' then Inr [(''notes.txt'', False), (''sub'', True)]
       else if d = ''cases/sub'' then Inr [(''a.jsonc'', False)] else Inl (Err ''not found'')),
     cs_readFile = (\<lambda>p. Inr (''{//'' @ [CHR 0x0A] @
       [CHR 0x22] @ ''name'' @ [CHR 0x22] @ '':'' @ [CHR 0x22] @ ''n'' @ [CHR 0x22] @ '','' @
       [CHR 0x22] @ ''steps'' @ [CHR 0x22] @ '':[{'' @
       [CHR 0x22] @ ''id'' @ [CHR 0x22] @ '':'' @ [CHR 0x22] @ ''s'' @ [CHR 0x22] @ '','' @
       [CHR 0x22] @ ''kind'' @ [CHR 0x22] @ '':'' @ [CHR 0x22] @ ''verify'' @ [CHR 0x22] @ '','' @
       [CHR 0x22] @ ''handler'' @ [CHR 0x22] @ '':'' @ [CHR 0x22] @ ''h'' @ [CHR 0x22] @ '','' @
       [CHR 0x22] @ ''request'' @ [CHR 0x22] @ '':1}]}''))\<rparr>"

theorem loadCases_sound_witness:
  "case loadCases 2 two_dirs ''cases'' echo_registry echo_codec of
     Some (Inr cs) \<Rightarrow> set (map tc_sourcePath cs) = {p. case_path two_dirs ''cases'' p} \<and> cs \<noteq> []
   | _ \<Rightarrow> False"
proof -
  have "(case loadCases 2 two_dirs ''cases'' echo_registry echo_codec of Some r \<Rightarrow> is_ok r | None \<Rightarrow> False)"
    by code_simp
  then obtain cs where cs: "loadCases 2 two_dirs ''cases'' echo_registry echo_codec = Some (Inr cs)"
    by (auto simp: is_ok_iff split: option.splits)
  show ?thesis using loadCases_sound [OF cs] by (simp add: cs)
qed

text \<open>
  C38: loading a source whose directories have a finite depth returns, with every fuel above the
  depth of the root and always with the same result.
\<close>

theorem loadCases_returns:
  assumes "dir_depth depth source" "depth root < n" "n \<le> m"
  shows "loadCases n source root registry codec \<noteq> None \<and>
    loadCases m source root registry codec = loadCases n source root registry codec"
proof -
  obtain r where r: "listCasePaths n source root = Some r"
    using listCasePaths_returns [OF assms(1,2)] by blast
  then show ?thesis
    using listCasePaths_mono [OF r assms(3)] by (cases r) (auto simp: loadCases_def comp_err_def)
qed

theorem loadCases_returns_witness:
  "loadCases 2 two_dirs ''cases'' echo_registry echo_codec \<noteq> None \<and>
   loadCases 7 two_dirs ''cases'' echo_registry echo_codec = loadCases 2 two_dirs ''cases'' echo_registry echo_codec"
proof -
  have "path_join ''cases'' ''sub'' = ''cases/sub''" by code_simp
  then have "dir_depth (\<lambda>d. if d = ''cases'' then 1 else 0) two_dirs"
    by (simp add: dir_depth_def two_dirs_def)
  from loadCases_returns [OF this, of "''cases''" 2 7 echo_registry echo_codec] show ?thesis by simp
qed

end
