(* ===== verification/CaseRunner.thy ===== *)
theory CaseRunner
  imports StepRunner Loader
begin

text \<open>
  The verdict on one case (\<open>runner.go\<close>): \<open>runCase\<close> runs the steps and \<open>assertCaseResult\<close>
  compares the outcome with the assert section.  The record \<open>assert_env\<close> holds the libraries the
  comparison calls: \<open>protojson\<close>, \<open>go-cmp\<close>, \<open>difflib\<close>, the JSON encoder on Go values, and the
  regular expressions.
\<close>

section \<open>The libraries and the configuration\<close>

record 'w assert_env =
  ae_proto :: "'w \<Rightarrow> proto_env"
  ae_cmpDiff :: "'w \<Rightarrow> gval \<Rightarrow> gval \<Rightarrow> string result" \<comment> \<open>\<open>cmp.Diff\<close>; an error is a panic\<close>
  ae_encodeIndented :: "'w \<Rightarrow> gval \<Rightarrow> string result" \<comment> \<open>\<open>json.Encoder\<close> with indentation\<close>
  ae_unifiedDiff :: "string \<Rightarrow> string \<Rightarrow> string result" \<comment> \<open>\<open>difflib\<close> on the lines of two texts\<close>
  ae_regexps :: regexps

record runCasesConfig =
  rc_failFast :: bool
  rc_parallel :: bool
  rc_parallelismLimit :: int
  rc_responseDumpCaseName :: string

section \<open>Comparing normalised responses\<close>

definition deepEqual :: "'w runtime \<Rightarrow> 'w \<Rightarrow> gval \<Rightarrow> gval \<Rightarrow> bool" where
  "deepEqual rt w a b =
     (let cells = map fst (rt_mem rt w) in deep_equal (rt_heap rt w) (List.product cells cells) a b)"

definition safeCmpDiff :: "'w assert_env \<Rightarrow> 'w \<Rightarrow> gval \<Rightarrow> gval \<Rightarrow> string result" where
  "safeCmpDiff ae w expected actual =
     map_err (\<lambda>r. Errorf ''cmp diff panic: %v'' [AText r]) (ae_cmpDiff ae w expected actual)"

definition encodeIndentedJSON :: "'w assert_env \<Rightarrow> 'w \<Rightarrow> gval \<Rightarrow> string result" where
  "encodeIndentedJSON ae w v =
     rbind (ae_encodeIndented ae w v) (\<lambda>s. Inr (rev (dropWhile (\<lambda>c. c = CHR 0x0A) (rev s))))"

definition jsonLikeDiff :: "'w assert_env \<Rightarrow> 'w \<Rightarrow> gval \<Rightarrow> gval \<Rightarrow> string result" where
  "jsonLikeDiff ae w expected actual =
     rbind (map_err (\<lambda>e. Errorf ''encode expected response JSON view: %w'' [AErr e])
              (encodeIndentedJSON ae w expected)) (\<lambda>expectedJSON.
     rbind (map_err (\<lambda>e. Errorf ''encode actual response JSON view: %w'' [AErr e])
              (encodeIndentedJSON ae w actual)) (\<lambda>actualJSON.
     map_err (\<lambda>e. Errorf ''build response JSON diff: %w'' [AErr e])
       (ae_unifiedDiff ae expectedJSON actualJSON)))"

definition compareNormalizedResponses ::
    "'w assert_env \<Rightarrow> 'w runtime \<Rightarrow> 'w \<Rightarrow> gval \<Rightarrow> gval \<Rightarrow> (bool \<times> string) result" where
  "compareNormalizedResponses ae rt w expected actual =
     (let env = ae_proto ae w; mem = rt_mem rt w in
      if \<not> containsProtoMessage env mem expected \<and> \<not> containsProtoMessage env mem actual then
        if deepEqual rt w expected actual then Inr (True, [])
        else rbind (safeCmpDiff ae w expected actual) (\<lambda>diff. Inr (False, diff))
      else
        rbind (map_err (\<lambda>e. Errorf ''normalize expected response protobuf values: %w'' [AErr e])
                 (normalizeProtoMessagesInValue env mem expected)) (\<lambda>expectedView.
        rbind (map_err (\<lambda>e. Errorf ''normalize actual response protobuf values: %w'' [AErr e])
                 (normalizeProtoMessagesInValue env mem actual)) (\<lambda>actualView.
        if deepEqual rt w expectedView actualView then Inr (True, [])
        else rbind (jsonLikeDiff ae w expectedView actualView) (\<lambda>diff. Inr (False, diff)))))"

definition responseMismatchError :: "string \<Rightarrow> string \<Rightarrow> err" where
  "responseMismatchError sourcePath diff =
     (if diff = [] then Errorf ''%q: response mismatch'' [AStr sourcePath]
      else Errorf ''%q: response mismatch (-want +got): %s'' [AStr sourcePath, AStr diff])"

definition assertNormalizedResponseMatch ::
    "'w assert_env \<Rightarrow> 'w runtime \<Rightarrow> 'w \<Rightarrow> string \<Rightarrow> gval \<Rightarrow> gval \<Rightarrow> unit result" where
  "assertNormalizedResponseMatch ae rt w sourcePath expectedNormalized actualNormalized =
     rbind (map_err (\<lambda>e. Errorf ''%q: response comparison failed: %w'' [AStr sourcePath, AErr e])
              (compareNormalizedResponses ae rt w expectedNormalized actualNormalized))
       (\<lambda>(responsesEqual, responseDiff). ensure responsesEqual (responseMismatchError sourcePath responseDiff))"

section \<open>Response templates\<close>

text \<open>
  An expected response with markers is a decoded JSON value: the loader stores no other.  On a
  value that is no JSON value the comparison functions for templates fail.
\<close>

definition template_json :: "gval \<Rightarrow> json option" where
  "template_json v = (let j = gval_json v in if json_val j = v then Some j else None)"

lemma template_json_val [simp]: "template_json (json_val j) = Some j"
  by (simp add: template_json_def gval_json_val)

lemma template_json_Some: "template_json v = Some j \<longleftrightarrow> v = json_val j"
  by (auto simp: template_json_def Let_def gval_json_val)

definition containsSpecialMatcher :: "gval \<Rightarrow> bool" where
  "containsSpecialMatcher v =
     (case template_json v of None \<Rightarrow> False | Some j \<Rightarrow> responseTemplateContainsSpecialMatcher j)"

definition responseTemplateActualView :: "'w runtime \<Rightarrow> 'w \<Rightarrow> gval \<Rightarrow> json result" where
  "responseTemplateActualView rt w actualNormalized =
     rbind (rt_marshal rt (rt_heap rt w) actualNormalized) decodeExpectedJSON"

definition assertExactResponseWithMatchers ::
    "'w assert_env \<Rightarrow> 'w runtime \<Rightarrow> 'w \<Rightarrow> string \<Rightarrow> 'w handler \<Rightarrow> gval \<Rightarrow> gval \<Rightarrow> unit result" where
  "assertExactResponseWithMatchers ae rt w sourcePath handler expectedTemplate actualNormalized =
     rbind (map_err (\<lambda>e. Errorf ''%q: prepare actual response view for response matchers: %w'' [AStr sourcePath, AErr e])
              (responseTemplateActualView rt w actualNormalized)) (\<lambda>actualTemplateView.
     rbind (map_err (\<lambda>e. Errorf ''%q: response comparison failed: %w'' [AStr sourcePath, AErr e])
              (case template_json expectedTemplate of
                 None \<Rightarrow> Inl (Opaque ''value mismatch'')
               | Some j \<Rightarrow> materializeExpectedMatchers (ae_regexps ae) ''$'' j actualTemplateView)) (\<lambda>materializedExpected.
     rbind (map_err (\<lambda>e. Errorf ''%q: encode expected response with response matchers: %w'' [AStr sourcePath, AErr e])
              (rt_marshal rt (rt_heap rt w) (json_val materializedExpected))) (\<lambda>rawExpected.
     rbind (map_err (\<lambda>e. Errorf ''%q: decode expected response with response matchers: %w'' [AStr sourcePath, AErr e])
              (h_decodeExpectedResponse handler rawExpected)) (\<lambda>expectedResponse.
     rbind (map_err (\<lambda>e. Errorf ''%q: normalize expected response with response matchers: %w'' [AStr sourcePath, AErr e])
              (h_normalizeResponse handler expectedResponse)) (\<lambda>expectedNormalized.
     assertNormalizedResponseMatch ae rt w sourcePath expectedNormalized actualNormalized)))))"

definition assertPartialResponseMatch ::
    "'w assert_env \<Rightarrow> 'w runtime \<Rightarrow> 'w \<Rightarrow> string \<Rightarrow> gval \<Rightarrow> gval \<Rightarrow> unit result" where
  "assertPartialResponseMatch ae rt w sourcePath expectedPartial actualNormalized =
     rbind (map_err (\<lambda>e. Errorf ''%q: prepare actual response view for partial comparison: %w'' [AStr sourcePath, AErr e])
              (responseTemplateActualView rt w actualNormalized)) (\<lambda>actualTemplateView.
     map_err (\<lambda>e. Errorf ''%q: response partial mismatch: %w'' [AStr sourcePath, AErr e])
       (case template_json expectedPartial of
          None \<Rightarrow> Inl (Opaque ''value mismatch'')
        | Some j \<Rightarrow> comparePartialResponseValue (ae_regexps ae) ''$'' j actualTemplateView))"

definition assertSuccessfulResponseMatch ::
    "'w assert_env \<Rightarrow> 'w runtime \<Rightarrow> 'w \<Rightarrow> ('w, 's) test_case \<Rightarrow> 'w handler \<Rightarrow> gval \<Rightarrow> unit result" where
  "assertSuccessfulResponseMatch ae rt w testCase handler actualNormalized =
     (let path = tc_sourcePath testCase; a = tc_assert testCase in
      if as_responseMode a = [] \<or> as_responseMode a = ResponseModeExact then
        if containsSpecialMatcher (as_response a) then
          assertExactResponseWithMatchers ae rt w path handler (as_response a) actualNormalized
        else
          rbind (map_err (\<lambda>e. Errorf ''%q: normalize expected response: %w'' [AStr path, AErr e])
                   (h_normalizeResponse handler (as_response a))) (\<lambda>expectedNormalized.
          assertNormalizedResponseMatch ae rt w path expectedNormalized actualNormalized)
      else if as_responseMode a = ResponseModePartial then
        assertPartialResponseMatch ae rt w path (as_response a) actualNormalized
      else Inl (Errorf ''%q: field assert.response_mode: unsupported value %q''
                  [AStr path, AStr (as_responseMode a)]))"

section \<open>The verdict\<close>

definition assertTargetResponse ::
    "string \<Rightarrow> string \<Rightarrow> 'w step gomap \<Rightarrow> gval gomap \<Rightarrow> ('w handler \<times> gval) result" where
  "assertTargetResponse sourcePath targetStepID stepsByID stepOutputs =
     (if targetStepID = [] then Inl (Errorf ''%q: assert target step is not available'' [AStr sourcePath])
      else case mget stepsByID targetStepID of
        None \<Rightarrow> Inl (Errorf ''%q: assert target step %q is not found'' [AStr sourcePath, AStr targetStepID])
      | Some targetStep \<Rightarrow>
          (case st_handler targetStep of
             None \<Rightarrow> Inl (Errorf ''%q: assert target step %q has nil handler'' [AStr sourcePath, AStr targetStepID])
           | Some handler \<Rightarrow>
               (case mget stepOutputs targetStepID of
                  None \<Rightarrow> Inl (Errorf ''%q: response from step %q is not available''
                                 [AStr sourcePath, AStr targetStepID])
                | Some actualResponse \<Rightarrow> Inr (handler, actualResponse))))"

definition assertSuccessMessageContains ::
    "'w runtime \<Rightarrow> 'w \<Rightarrow> string \<Rightarrow> 's assert_section \<Rightarrow> gval \<Rightarrow> unit result" where
  "assertSuccessMessageContains rt w sourcePath a actualNormalized =
     ensure (as_messageContains a = [] \<or> contains_str (rt_sprint rt w actualNormalized) (as_messageContains a))
       (Errorf ''%q: expected successful response to contain %q'' [AStr sourcePath, AStr (as_messageContains a)])"

definition responseDumpError :: "'w assert_env \<Rightarrow> 'w runtime \<Rightarrow> 'w \<Rightarrow> gval \<Rightarrow> err" where
  "responseDumpError ae rt w actualNormalized =
     (case rbind (if containsProtoMessage (ae_proto ae w) (rt_mem rt w) actualNormalized
                  then normalizeProtoMessagesInValue (ae_proto ae w) (rt_mem rt w) actualNormalized
                  else Inr actualNormalized) (encodeIndentedJSON ae w) of
        Inl e \<Rightarrow> Errorf ''response dump failed: %w'' [AErr e]
      | Inr actualResponseJSON \<Rightarrow>
          Err (''ITESTKIT_RESPONSE_DUMP_BEGIN'' @ [CHR 0x0A] @ actualResponseJSON @ [CHR 0x0A] @
               ''ITESTKIT_RESPONSE_DUMP_END''))"

definition assertSuccessfulCaseResult ::
    "'w assert_env \<Rightarrow> 'w runtime \<Rightarrow> ('w, 's) test_case \<Rightarrow> 'w run_state \<Rightarrow> runCasesConfig \<Rightarrow> unit result" where
  "assertSuccessfulCaseResult ae rt testCase st config =
     (let path = tc_sourcePath testCase; a = tc_assert testCase; w = rs_world st in
      rbind (ensure (\<not> (as_response a = VInvalid \<and> as_responseMode a \<noteq> ResponseModePartial))
        (Errorf ''%q: expected response is nil'' [AStr path])) (\<lambda>_.
      let targetStepID = (if trim_space (as_responseFromStep a) = [] then rs_lastActionStepID st
                          else trim_space (as_responseFromStep a)) in
      rbind (assertTargetResponse path targetStepID (rs_stepsByID st) (rs_stepOutputs st)) (\<lambda>(handler, actualResponse).
      rbind (map_err (\<lambda>e. Errorf ''%q: normalize actual response: %w'' [AStr path, AErr e])
               (h_normalizeResponse handler actualResponse)) (\<lambda>actualNormalized.
      rbind (ensure (rc_responseDumpCaseName config = []) (responseDumpError ae rt w actualNormalized)) (\<lambda>_.
      rbind (assertSuccessfulResponseMatch ae rt w testCase handler actualNormalized) (\<lambda>_.
      assertSuccessMessageContains rt w path a actualNormalized))))))"

definition assertExpectedErrorResult ::
    "string \<Rightarrow> 's assert_section \<Rightarrow> err option \<Rightarrow> 's errorInspector option \<Rightarrow> unit result" where
  "assertExpectedErrorResult sourcePath assertSection executionErr inspector =
     (case executionErr of
        None \<Rightarrow> Inl (Errorf ''%q: expected error with code %v, got nil'' [AStr sourcePath])
      | Some e \<Rightarrow>
          (case inspector of
             None \<Rightarrow> Inl (Errorf ''%q: error inspector is nil'' [AStr sourcePath])
           | Some fromError \<Rightarrow>
               (case fromError e of
                  None \<Rightarrow> Inl (Errorf ''%q: failed to inspect error'' [AStr sourcePath])
                | Some (code, message) \<Rightarrow>
                    if code \<noteq> as_code assertSection then
                      Inl (Errorf ''%q: expected error code %v, got %v'' [AStr sourcePath])
                    else
                      ensure (as_messageContains assertSection = [] \<or>
                              contains_str message (as_messageContains assertSection))
                        (Errorf ''%q: expected error message to contain %q''
                           [AStr sourcePath, AStr (as_messageContains assertSection)]))))"

definition assertCaseResult ::
    "'w assert_env \<Rightarrow> 'w runtime \<Rightarrow> ('w, 's) test_case \<Rightarrow> 'w run_state \<Rightarrow> 's errorInspector option \<Rightarrow>
       's statusCodec \<Rightarrow> runCasesConfig \<Rightarrow> unit result" where
  "assertCaseResult ae rt testCase st inspector codec config =
     (if as_code (tc_assert testCase) \<noteq> sc_success codec then
        assertExpectedErrorResult (tc_sourcePath testCase) (tc_assert testCase) (rs_executionErr st) inspector
      else case rs_executionErr st of
        Some e \<Rightarrow> Inl (Errorf ''%q: unexpected error: %w'' [AStr (tc_sourcePath testCase), AErr e])
      | None \<Rightarrow> assertSuccessfulCaseResult ae rt testCase st config)"

text \<open>\<open>newHarness\<close> is the harness factory's \<open>New\<close>.\<close>

definition runCase ::
    "'w assert_env \<Rightarrow> 'w runtime \<Rightarrow> ('w \<Rightarrow> 'w) \<Rightarrow> 's errorInspector option \<Rightarrow> 's statusCodec \<Rightarrow>
       runCasesConfig \<Rightarrow> ('w, 's) test_case \<Rightarrow> 'w \<Rightarrow> ('w \<times> unit result) option" where
  "runCase ae rt newHarness inspector codec config testCase w =
     map_option (\<lambda>st. (rs_world st, assertCaseResult ae rt testCase st inspector codec config))
       (runSteps rt (tc_steps testCase) (initialRun (newHarness w)))"


section \<open>A run without failures\<close>

lemma runStep_ok:
  assumes "runStep rt s st = Some st'" "rs_executionErr st' = None"
  shows "rs_executionErr st = None \<and> rs_stepsByID st' = mput (st_id s) s (rs_stepsByID st) \<and>
    (\<exists>v. rs_stepOutputs st' = mput (st_id s) v (rs_stepOutputs st)) \<and>
    rs_lastActionStepID st' = (if st_kind s = StepKindAction then st_id s else rs_lastActionStepID st)"
proof (cases "rs_executionErr st")
  case None
  obtain q where q: "resolveStepRequest (rt_marshal rt) (rt_heap rt (rs_world st)) s (rs_stepOutputs st) = Some q"
    using assms(1) None by (auto simp: runStep_def Let_def split: option.splits)
  show ?thesis
  proof (cases q)
    case (Inl e)
    then show ?thesis using assms None q by (simp add: runStep_def Let_def failStep_def) auto
  next
    case (Inr v)
    obtain w x where e: "executeCaseStep rt (rs_world st) (s\<lparr>st_request := Ready v\<rparr>) = (w, x)" by fastforce
    show ?thesis using assms None q Inr e by (cases x) (auto simp: runStep_def Let_def failStep_def)
  qed
next
  case (Some e)
  then show ?thesis using runStep_keeps [OF assms(1)] assms(2) by fastforce
qed

text \<open>What a run over \<open>ss\<close> without failures leaves.\<close>

definition ran :: "'w step list \<Rightarrow> 'w run_state \<Rightarrow> 'w run_state \<Rightarrow> bool" where
  "ran ss st st' \<longleftrightarrow>
     (\<forall>i. i \<notin> set (map st_id ss) \<longrightarrow>
        mget (rs_stepsByID st') i = mget (rs_stepsByID st) i \<and>
        mget (rs_stepOutputs st') i = mget (rs_stepOutputs st) i) \<and>
     (\<forall>s \<in> set ss. mget (rs_stepsByID st') (st_id s) = Some s \<and> mget (rs_stepOutputs st') (st_id s) \<noteq> None) \<and>
     rs_lastActionStepID st' = (case last_action ss of None \<Rightarrow> rs_lastActionStepID st | Some i \<Rightarrow> i)"

lemma runSteps_ok:
  assumes "runSteps rt ss st = Some st'" "rs_executionErr st' = None" "distinct (map st_id ss)"
    "wf_map (rs_stepsByID st)" "wf_map (rs_stepOutputs st)"
  shows "rs_executionErr st = None \<and> ran ss st st'"
  using assms
proof (induction ss arbitrary: st)
  case Nil
  then show ?case by (simp add: ran_def)
next
  case (Cons s ss)
  obtain st1 where st1: "runStep rt s st = Some st1" "runSteps rt ss st1 = Some st'"
    using Cons.prems(1) by (auto split: bind_splits)
  have e1: "rs_executionErr st1 = None"
    using runSteps_keeps [OF st1(2)] Cons.prems(2) by (cases "rs_executionErr st1") auto
  note s = runStep_ok [OF st1(1) e1]
  then obtain v where v: "rs_stepOutputs st1 = mput (st_id s) v (rs_stepOutputs st)" by blast
  have ih: "ran ss st1 st'"
    using Cons.IH [OF st1(2) Cons.prems(2)] Cons.prems(3-5) s v by simp
  have d: "st_id s \<notin> set (map st_id ss)" using Cons.prems(3) by simp
  have new: "mget (rs_stepsByID st') (st_id s) = Some s \<and> mget (rs_stepOutputs st') (st_id s) = Some v"
    using ih d s v Cons.prems(4,5) by (simp add: ran_def)
  show ?case
    using ih s v new Cons.prems(4,5) unfolding ran_def
    by (simp add: last_action_Cons split: option.splits)
qed

lemma wf_steps: "wf_case success c \<Longrightarrow> list_all wf_step (tc_steps c) \<and> distinct (map st_id (tc_steps c))"
  by (simp add: wf_case_def)

lemma loaded_ids: "wf_case success c \<Longrightarrow> i \<in> set (map st_id (tc_steps c)) \<Longrightarrow> trimmed i"
  by (auto simp: wf_case_def wf_step_def list_all_iff)

text \<open>
  When every step of a loaded case succeeds, the response the assert section is about is
  available: the errors that report a missing target step, a missing handler or a missing response
  cannot occur.
\<close>

theorem loaded_target_available:
  assumes "wf_case success c" "as_code (tc_assert c) = success"
    and "runSteps rt (tc_steps c) (initialRun w) = Some st" "rs_executionErr st = None"
  shows "\<exists>s \<in> set (tc_steps c). \<exists>h v. assert_target c = Some (st_id s) \<and> st_handler s = Some h \<and>
    mget (rs_stepOutputs st) (st_id s) = Some v \<and>
    assertTargetResponse path
      (if trim_space (as_responseFromStep (tc_assert c)) = [] then rs_lastActionStepID st
       else trim_space (as_responseFromStep (tc_assert c)))
      (rs_stepsByID st) (rs_stepOutputs st) = Inr (h, v)"
proof -
  have r: "ran (tc_steps c) (initialRun w) st"
    using runSteps_ok [OF assms(3,4)] wf_steps [OF assms(1)] by (simp add: initialRun_def)
  obtain i where i: "assert_target c = Some i" "i \<in> set (map st_id (tc_steps c))"
    using assms(1,2) by (auto simp: wf_case_def split: option.splits)
  obtain s where s: "s \<in> set (tc_steps c)" "i = st_id s" using i(2) by auto
  obtain h where h: "st_handler s = Some h"
    using wf_steps [OF assms(1)] s(1) by (auto simp: list_all_iff wf_step_def)
  obtain v where v: "mget (rs_stepOutputs st) i = Some v" "mget (rs_stepsByID st) i = Some s"
    using r s by (auto simp: ran_def)
  have t: "trimmed i" by (rule loaded_ids [OF assms(1) i(2)])
  have "(if trim_space (as_responseFromStep (tc_assert c)) = [] then rs_lastActionStepID st
       else trim_space (as_responseFromStep (tc_assert c))) = i"
    using i(1) r t
    by (auto simp: assert_target_def ran_def trimmed_def initialRun_def split: if_splits option.splits)
  then show ?thesis
    using i(1) s h v t by (intro bexI [of _ s]) (auto simp: assertTargetResponse_def trimmed_def)
qed

section \<open>When a case passes\<close>

text \<open>The agreement of two normalised responses, messages replaced by their JSON form.\<close>

definition responses_agree :: "'w assert_env \<Rightarrow> 'w runtime \<Rightarrow> 'w \<Rightarrow> gval \<Rightarrow> gval \<Rightarrow> bool" where
  "responses_agree ae rt w e a =
     (if containsProtoMessage (ae_proto ae w) (rt_mem rt w) e \<or> containsProtoMessage (ae_proto ae w) (rt_mem rt w) a
      then (\<exists>v. normalizeProtoMessagesInValue (ae_proto ae w) (rt_mem rt w) e = Inr v \<and>
                normalizeProtoMessagesInValue (ae_proto ae w) (rt_mem rt w) a = Inr v)
      else deepEqual rt w e a)"

lemma views_equal:
  "normalizeProtoMessagesInValue env mem v = Inr r \<Longrightarrow> deepEqual rt w r s \<longleftrightarrow> r = s"
  by (simp add: deepEqual_def Let_def deep_equal_json_like normalize_json_like normalizeProtoMessagesInValue_def)

lemma assertNormalizedResponseMatch_ok:
  "assertNormalizedResponseMatch ae rt w path e a = Inr () \<longleftrightarrow> responses_agree ae rt w e a"
  by (auto simp: assertNormalizedResponseMatch_def compareNormalizedResponses_def responses_agree_def
      Let_def views_equal split: if_splits)

lemma runCase_ok:
  "runCase ae rt newHarness inspector codec config c w = Some (w', Inr ()) \<longleftrightarrow>
     (\<exists>st. runSteps rt (tc_steps c) (initialRun (newHarness w)) = Some st \<and> w' = rs_world st \<and>
        assertCaseResult ae rt c st inspector codec config = Inr ())"
  by (auto simp: runCase_def)

lemma assertCaseResult_success_ok:
  assumes "as_code (tc_assert c) = sc_success codec"
  shows "assertCaseResult ae rt c st inspector codec config = Inr () \<longleftrightarrow>
    rs_executionErr st = None \<and> assertSuccessfulCaseResult ae rt c st config = Inr ()"
  using assms by (simp add: assertCaseResult_def split: option.split)

lemma assertSuccessfulCaseResult_ok:
  assumes "rc_responseDumpCaseName config = []"
    and "as_response (tc_assert c) \<noteq> VInvalid \<or> as_responseMode (tc_assert c) = ResponseModePartial"
  shows "assertSuccessfulCaseResult ae rt c st config = Inr () \<longleftrightarrow>
    (\<exists>h v actual.
       assertTargetResponse (tc_sourcePath c)
         (if trim_space (as_responseFromStep (tc_assert c)) = [] then rs_lastActionStepID st
          else trim_space (as_responseFromStep (tc_assert c)))
         (rs_stepsByID st) (rs_stepOutputs st) = Inr (h, v) \<and>
       h_normalizeResponse h v = Inr actual \<and>
       assertSuccessfulResponseMatch ae rt (rs_world st) c h actual = Inr () \<and>
       (as_messageContains (tc_assert c) = [] \<or>
        contains_str (rt_sprint rt (rs_world st) actual) (as_messageContains (tc_assert c))))"
  using assms
  by (simp add: assertSuccessfulCaseResult_def Let_def assertSuccessMessageContains_def split_beta)

lemma assertExpectedErrorResult_ok:
  "assertExpectedErrorResult path a eo inspector = Inr () \<longleftrightarrow>
    (\<exists>e fromError message. eo = Some e \<and> inspector = Some fromError \<and>
       fromError e = Some (as_code a, message) \<and>
       (as_messageContains a = [] \<or> contains_str message (as_messageContains a)))"
proof (cases eo)
  case (Some e)
  show ?thesis
  proof (cases inspector)
    case (Some f)
    then show ?thesis
      using \<open>eo = Some e\<close>
      by (cases "f e") (auto simp: assertExpectedErrorResult_def split: prod.split)
  qed (simp add: assertExpectedErrorResult_def Some)
qed (simp add: assertExpectedErrorResult_def)

text \<open>What a passing run of a loaded case says about its steps.\<close>

lemma passed_run:
  assumes "wf_case (sc_success codec) c" "runCase ae rt factory inspector codec config c w = Some (w', Inr ())"
  shows "\<exists>st. runSteps rt (tc_steps c) (initialRun (factory w)) = Some st \<and> w' = rs_world st \<and>
    (if as_code (tc_assert c) = sc_success codec
     then rs_executionErr st = None \<and> (\<forall>s \<in> set (tc_steps c). mget (rs_stepOutputs st) (st_id s) \<noteq> None) \<and>
       (\<exists>i \<in> set (map st_id (tc_steps c)). assert_target c = Some i)
     else \<exists>e fromError message. rs_executionErr st = Some e \<and> inspector = Some fromError \<and>
       fromError e = Some (as_code (tc_assert c), message))"
proof -
  obtain st where st: "runSteps rt (tc_steps c) (initialRun (factory w)) = Some st" "w' = rs_world st"
    "assertCaseResult ae rt c st inspector codec config = Inr ()"
    using assms(2) by (auto simp: runCase_ok)
  show ?thesis
  proof (cases "as_code (tc_assert c) = sc_success codec")
    case True
    then have e: "rs_executionErr st = None" using st(3) by (simp add: assertCaseResult_success_ok)
    have "ran (tc_steps c) (initialRun (factory w)) st"
      using runSteps_ok [OF st(1) e] wf_steps [OF assms(1)] by (simp add: initialRun_def)
    moreover obtain i where "assert_target c = Some i" "i \<in> set (map st_id (tc_steps c))"
      using assms(1) True by (auto simp: wf_case_def split: option.splits)
    ultimately show ?thesis using st True e by (auto simp: ran_def)
  next
    case False
    then have "assertExpectedErrorResult (tc_sourcePath c) (tc_assert c) (rs_executionErr st) inspector = Inr ()"
      using st(3) by (simp add: assertCaseResult_def)
    then show ?thesis using st(1,2) False by (auto simp: assertExpectedErrorResult_ok)
  qed
qed

text \<open>
  The expectation the response is compared with in exact mode: without markers the normalised
  response of the assert section; with markers the template in which every marker that the JSON form
  of the actual response satisfies is replaced by the value found there, read back and
  normalised by the handler as if it had been in the file.
\<close>

definition exact_expectation ::
    "'w assert_env \<Rightarrow> 'w runtime \<Rightarrow> 'w \<Rightarrow> 'w handler \<Rightarrow> gval \<Rightarrow> gval \<Rightarrow> gval \<Rightarrow> bool" where
  "exact_expectation ae rt w h response actual expected \<longleftrightarrow>
     (if \<exists>template. response = json_val template \<and> responseTemplateContainsSpecialMatcher template
      then \<exists>template view filled raw v. response = json_val template \<and>
        rbind (rt_marshal rt (rt_heap rt w) actual) decodeExpectedJSON = Inr view \<and>
        materializeExpectedMatchers (ae_regexps ae) ''$'' template view = Inr filled \<and>
        rt_marshal rt (rt_heap rt w) (json_val filled) = Inr raw \<and>
        h_decodeExpectedResponse h raw = Inr v \<and> h_normalizeResponse h v = Inr expected
      else h_normalizeResponse h response = Inr expected)"

lemma json_val_eq: "json_val a = json_val b \<longleftrightarrow> a = b"
  by (metis gval_json_val)

lemma containsSpecialMatcher_iff:
  "containsSpecialMatcher response \<longleftrightarrow>
     (\<exists>template. response = json_val template \<and> responseTemplateContainsSpecialMatcher template)"
  by (auto simp: containsSpecialMatcher_def template_json_Some json_val_eq split: option.split)

lemma assertExactResponseWithMatchers_ok:
  "assertExactResponseWithMatchers ae rt w path h (json_val template) actual = Inr () \<longleftrightarrow>
     (\<exists>view filled raw v expected. rbind (rt_marshal rt (rt_heap rt w) actual) decodeExpectedJSON = Inr view \<and>
        materializeExpectedMatchers (ae_regexps ae) ''$'' template view = Inr filled \<and>
        rt_marshal rt (rt_heap rt w) (json_val filled) = Inr raw \<and>
        h_decodeExpectedResponse h raw = Inr v \<and> h_normalizeResponse h v = Inr expected \<and>
        responses_agree ae rt w expected actual)"
  by (auto simp: assertExactResponseWithMatchers_def responseTemplateActualView_def assertNormalizedResponseMatch_ok)

lemma exact_match_ok:
  assumes "as_responseMode (tc_assert c) \<in> {[], ResponseModeExact}"
  shows "assertSuccessfulResponseMatch ae rt w c h actual = Inr () \<longleftrightarrow>
    (\<exists>expected. exact_expectation ae rt w h (as_response (tc_assert c)) actual expected \<and>
       responses_agree ae rt w expected actual)"
proof (cases "containsSpecialMatcher (as_response (tc_assert c))")
  case True
  then obtain template where t: "as_response (tc_assert c) = json_val template"
    "responseTemplateContainsSpecialMatcher template"
    by (auto simp: containsSpecialMatcher_iff)
  show ?thesis
    using assms True t
    by (auto simp: assertSuccessfulResponseMatch_def Let_def exact_expectation_def assertExactResponseWithMatchers_ok
        json_val_eq simp del: rbind_Inr_iff)
next
  case False
  then show ?thesis
    using assms False [unfolded containsSpecialMatcher_iff]
    by (auto simp: assertSuccessfulResponseMatch_def Let_def exact_expectation_def assertNormalizedResponseMatch_ok)
qed

text \<open>
  C4: in exact mode, which is the default, a case that expects success passes exactly when every step
  succeeded and the normalised response of the target step agrees with the expectation
  (\<^const>\<open>exact_expectation\<close>, which may hold markers) and contains the expected text: by deep equality, or,
  as soon as one of them holds a protobuf message, by the equality of their JSON-like views.
\<close>

theorem runCase_exact_verdict:
  assumes "as_code (tc_assert c) = sc_success codec" "rc_responseDumpCaseName config = []"
    and "as_responseMode (tc_assert c) \<in> {[], ResponseModeExact}" "as_response (tc_assert c) \<noteq> VInvalid"
  shows "runCase ae rt newHarness inspector codec config c w = Some (w', Inr ()) \<longleftrightarrow>
    (\<exists>st h v actual expected.
       runSteps rt (tc_steps c) (initialRun (newHarness w)) = Some st \<and> w' = rs_world st \<and>
       rs_executionErr st = None \<and>
       assertTargetResponse (tc_sourcePath c)
         (if trim_space (as_responseFromStep (tc_assert c)) = [] then rs_lastActionStepID st
          else trim_space (as_responseFromStep (tc_assert c)))
         (rs_stepsByID st) (rs_stepOutputs st) = Inr (h, v) \<and>
       h_normalizeResponse h v = Inr actual \<and>
       exact_expectation ae rt w' h (as_response (tc_assert c)) actual expected \<and>
       responses_agree ae rt w' expected actual \<and>
       (as_messageContains (tc_assert c) = [] \<or>
        contains_str (rt_sprint rt w' actual) (as_messageContains (tc_assert c))))"
  using assms
  by (simp add: runCase_ok assertCaseResult_success_ok assertSuccessfulCaseResult_ok exact_match_ok) blast

text \<open>
  C5: in partial mode a case that expects success passes exactly when every step succeeded, the
  JSON form of the normalised response satisfies the expected template in the sense of
  \<^const>\<open>partial_sat\<close>, and the response contains the expected text.
\<close>

theorem runCase_partial_verdict:
  assumes "as_code (tc_assert c) = sc_success codec" "rc_responseDumpCaseName config = []"
    and "as_responseMode (tc_assert c) = ResponseModePartial" "as_response (tc_assert c) = json_val template"
  shows "runCase ae rt newHarness inspector codec config c w = Some (w', Inr ()) \<longleftrightarrow>
    (\<exists>st h v actual view.
       runSteps rt (tc_steps c) (initialRun (newHarness w)) = Some st \<and> w' = rs_world st \<and>
       rs_executionErr st = None \<and>
       assertTargetResponse (tc_sourcePath c)
         (if trim_space (as_responseFromStep (tc_assert c)) = [] then rs_lastActionStepID st
          else trim_space (as_responseFromStep (tc_assert c)))
         (rs_stepsByID st) (rs_stepOutputs st) = Inr (h, v) \<and>
       h_normalizeResponse h v = Inr actual \<and>
       rbind (rt_marshal rt (rt_heap rt w') actual) decodeExpectedJSON = Inr view \<and>
       partial_sat (ae_regexps ae) template view \<and>
       (as_messageContains (tc_assert c) = [] \<or>
        contains_str (rt_sprint rt w' actual) (as_messageContains (tc_assert c))))"
proof -
  have "ResponseModePartial \<noteq> ResponseModeExact" "ResponseModePartial \<noteq> []"
    by (simp_all add: response_mode_defs)
  then have "assertSuccessfulResponseMatch ae rt u c h actual = Inr () \<longleftrightarrow>
      (\<exists>view. rbind (rt_marshal rt (rt_heap rt u) actual) decodeExpectedJSON = Inr view \<and>
         partial_sat (ae_regexps ae) template view)" for u h actual
    using assms by (simp add: assertSuccessfulResponseMatch_def Let_def assertPartialResponseMatch_def
        responseTemplateActualView_def partial_Inr del: rbind_Inr_iff) (simp only: rbind_Inr_iff map_err_Inr_iff partial_Inr)
  then show ?thesis
    using assms by (simp add: runCase_ok assertCaseResult_success_ok assertSuccessfulCaseResult_ok del: rbind_Inr_iff) blast
qed

text \<open>
  C6: a case that expects another status passes exactly when its execution failed with an error
  from which the inspector extracts that status and a message containing the expected text.
\<close>

theorem runCase_expected_error_verdict:
  assumes "as_code (tc_assert c) \<noteq> sc_success codec"
  shows "runCase ae rt newHarness inspector codec config c w = Some (w', Inr ()) \<longleftrightarrow>
    (\<exists>st e fromError message.
       runSteps rt (tc_steps c) (initialRun (newHarness w)) = Some st \<and> w' = rs_world st \<and>
       rs_executionErr st = Some e \<and> inspector = Some fromError \<and>
       fromError e = Some (as_code (tc_assert c), message) \<and>
       (as_messageContains (tc_assert c) = [] \<or> contains_str message (as_messageContains (tc_assert c))))"
  using assms by (simp add: runCase_ok assertCaseResult_def assertExpectedErrorResult_ok)


section \<open>Examples\<close>

text \<open>One action step that answers with its request, and a step that fails.\<close>

definition answer_handler :: "call_log handler" where
  "answer_handler = second_call\<lparr>h_invoke := (\<lambda>w q. (w @ [(q, None)], q, None))\<rparr>"

definition answer_step :: "call_log step" where
  "answer_step = \<lparr>st_id = ''a'', st_kind = StepKindAction, st_handlerName = ''h'',
     st_handler = Some answer_handler,
     st_request = Ready (VNum ''1''), st_retry = None\<rparr>"

definition one_step_case :: "call_log step \<Rightarrow> string \<Rightarrow> string \<Rightarrow> gval \<Rightarrow> (call_log, string) test_case" where
  "one_step_case s code mode response = \<lparr>tc_name = ''n'', tc_sourcePath = ''p'', tc_steps = [s],
     tc_assert = \<lparr>as_code = code, as_messageContains = [], as_response = response,
                  as_responseFromStep = [], as_responseMode = mode\<rparr>\<rparr>"

definition plain_env :: "call_log assert_env" where
  "plain_env = \<lparr>ae_proto = (\<lambda>w. \<lparr>pe_isProto = (\<lambda>v. False), pe_isNil = (\<lambda>v. False),
       pe_marshal = (\<lambda>v. Inl (Opaque ''no message'')), pe_sprint = (\<lambda>v. [])\<rparr>),
     ae_cmpDiff = (\<lambda>w a b. Inr ''differs''), ae_encodeIndented = (\<lambda>w v. Inr []),
     ae_unifiedDiff = (\<lambda>a b. Inr []), ae_regexps = (\<lambda>r. None)\<rparr>"

definition plain_config :: runCasesConfig where
  "plain_config = \<lparr>rc_failFast = True, rc_parallel = False, rc_parallelismLimit = 10, rc_responseDumpCaseName = []\<rparr>"

definition unknown_status :: "string errorInspector" where
  "unknown_status = (\<lambda>e. Some (''Unknown'', []))"

definition answered :: "call_log run_state" where
  "answered = \<lparr>rs_world = [(VNum ''1'', None)], rs_stepOutputs = [(''a'', VNum ''1'')],
     rs_stepsByID = [(''a'', answer_step)], rs_lastActionStepID = ''a'', rs_executionErr = None\<rparr>"

lemma answer_run: "runSteps log_runtime [answer_step] (initialRun []) = Some answered"
  by (simp add: answered_def runStep_def initialRun_def answer_step_def resolveStepRequest_def executeCaseStep_def
      answer_handler_def second_call_def request_value_def kind_defs Let_def)

lemma answered_simps:
  "rs_world answered = [(VNum ''1'', None)]" "rs_lastActionStepID answered = ''a''"
  "rs_executionErr answered = None"
  "assertTargetResponse ''p'' ''a'' (rs_stepsByID answered) (rs_stepOutputs answered) =
     Inr (answer_handler, VNum ''1'')"
  "h_normalizeResponse answer_handler v = Inr v"
  by (simp_all add: answered_def assertTargetResponse_def mget_Cons answer_step_def answer_handler_def second_call_def)

lemmas witness_simps = one_step_case_def plain_config_def echo_codec_def answered_simps answer_run

theorem loaded_target_available_witness:
  "\<exists>h v. assertTargetResponse ''p'' ''a'' [(''a'', answer_step)] [(''a'', VNum ''1'')] = Inr (h, v)"
proof -
  let ?c = "one_step_case answer_step ''OK'' ResponseModeExact (VNum ''1'')"
  have t: "trim_space ''a'' = ''a''" "trim_space ''h'' = ''h''" "trim_space ''n'' = ''n''" by code_simp+
  have "wf_case ''OK'' ?c"
    by (simp add: wf_case_def one_step_case_def answer_step_def wf_step_def trimmed_def t stepKinds_def kind_defs
        assert_target_def last_action_def response_mode_defs)
  from loaded_target_available [OF this, where st = answered and w = "[]" and path = "''p''" and rt = log_runtime]
  have "\<exists>h v. assertTargetResponse ''p''
      (if trim_space (as_responseFromStep (tc_assert ?c)) = [] then rs_lastActionStepID answered
       else trim_space (as_responseFromStep (tc_assert ?c))) (rs_stepsByID answered) (rs_stepOutputs answered) = Inr (h, v)"
    using answer_run by (auto simp: one_step_case_def answered_def)
  then show ?thesis by (simp add: one_step_case_def answered_def)
qed

text \<open>The step answers with a text, the expectation is the marker \<open>$not_empty\<close>.\<close>

definition text_handler :: "call_log handler" where
  "text_handler = answer_handler\<lparr>h_decodeExpectedResponse := (\<lambda>raw. rbind (decodeExpectedJSON raw) (\<lambda>j. Inr (json_val j)))\<rparr>"

definition text_step :: "call_log step" where
  "text_step = answer_step\<lparr>st_handler := Some text_handler, st_request := Ready (VStr ''x'')\<rparr>"

definition not_empty_template :: json where
  "not_empty_template = JObj [(''$not_empty'', JBool True)]"

lemma text_run: "runSteps log_runtime [text_step] (initialRun []) = Some
    \<lparr>rs_world = [(VStr ''x'', None)], rs_stepOutputs = [(''a'', VStr ''x'')],
     rs_stepsByID = [(''a'', text_step)], rs_lastActionStepID = ''a'', rs_executionErr = None\<rparr>"
  by (simp add: runStep_def initialRun_def text_step_def answer_step_def resolveStepRequest_def executeCaseStep_def
      text_handler_def answer_handler_def second_call_def request_value_def kind_defs Let_def)

theorem runCase_exact_verdict_witness:
  "runCase plain_env log_runtime (\<lambda>w. w) (Some unknown_status) echo_codec plain_config
     (one_step_case text_step ''OK'' ResponseModeExact (json_val not_empty_template)) [] =
   Some ([(VStr ''x'', None)], Inr ())"
proof -
  have c: "rbind (rt_marshal log_runtime h (VStr ''x'')) decodeExpectedJSON = Inr (JStr ''x'')"
    "materializeExpectedMatchers (\<lambda>r. None) ''$'' not_empty_template (JStr ''x'') = Inr (JStr ''x'')"
    "rt_marshal log_runtime h (json_val (JStr ''x'')) = Inr ([CHR 0x22, CHR ''x'', CHR 0x22])"
    "decodeExpectedJSON ([CHR 0x22, CHR ''x'', CHR 0x22]) = Inr (JStr ''x'')"
    "responseTemplateContainsSpecialMatcher not_empty_template" for h
    by code_simp+
  have e: "exact_expectation plain_env log_runtime w text_handler (json_val not_empty_template) (VStr ''x'') (VStr ''x'')"
    for w :: call_log
    using c unfolding exact_expectation_def
    by (auto simp: plain_env_def text_handler_def answer_handler_def second_call_def json_val_eq simp del: rbind_Inr_iff)
  have a: "responses_agree plain_env log_runtime w (VStr ''x'') (VStr ''x'')" for w
    by (simp add: responses_agree_def plain_env_def log_runtime_def deepEqual_def containsProtoMessage_def
        containsProtoMessageValue.simps isProtoMessageValue_def deep_equal.simps)
  have n: "h_normalizeResponse text_handler v = Inr v" "as_response (tc_assert (one_step_case s i m r)) = r"
    "st_handler text_step = Some text_handler" for s i m r v
    by (simp_all add: text_handler_def answer_handler_def second_call_def one_step_case_def text_step_def)
  have t: "assertTargetResponse ''p'' ''a'' [(''a'', text_step)] [(''a'', VStr ''x'')] = Inr (text_handler, VStr ''x'')"
    by (simp add: assertTargetResponse_def mget_Cons n)
  show ?thesis
    by (rule runCase_exact_verdict [THEN iffD2])
       (use e a n t text_run in \<open>auto simp: one_step_case_def plain_config_def echo_codec_def not_empty_template_def
          simp del: runSteps.simps\<close>)
qed

definition number_template :: json where
  "number_template = JNum ''1''"

theorem runCase_partial_verdict_witness:
  "runCase plain_env log_runtime (\<lambda>w. w) (Some unknown_status) echo_codec plain_config
     (one_step_case answer_step ''OK'' ResponseModePartial (json_val number_template)) [] =
   Some ([(VNum ''1'', None)], Inr ())"
proof -
  have v: "rbind (rt_marshal log_runtime (rt_heap log_runtime [(VNum ''1'', None)]) (VNum ''1'')) decodeExpectedJSON =
      Inr (JNum ''1'')"
    by code_simp
  have p: "partial_sat (ae_regexps plain_env) (JNum ''1'') (JNum ''1'')" by (simp add: sat_num)
  show ?thesis
    by (rule runCase_partial_verdict [THEN iffD2])
       (use p v in \<open>auto simp: witness_simps number_template_def simp del: runSteps.simps rbind_Inr_iff\<close>)
qed

theorem runCase_expected_error_verdict_witness:
  "runCase plain_env log_runtime (\<lambda>w. w) (Some unknown_status) echo_codec plain_config
     (one_step_case (failing_step ''a'' StepKindAction) ''Unknown'' ResponseModeExact VInvalid) [] =
   Some ([(VStr ''a'', Some (Err ''a''))], Inr ())"
proof -
  have r: "runSteps log_runtime [failing_step ''a'' StepKindAction] (initialRun []) = Some
     \<lparr>rs_world = [(VStr ''a'', Some (Err ''a''))], rs_stepOutputs = [],
      rs_stepsByID = [(''a'', failing_step ''a'' StepKindAction)], rs_lastActionStepID = [],
      rs_executionErr = Some (stepExecutionError (failing_step ''a'' StepKindAction) (Err ''a''))\<rparr>"
    by (simp add: runStep_def initialRun_def failing_step_def resolveStepRequest_def executeCaseStep_def
        second_call_def request_value_def failStep_def stepExecutionError_def kind_defs Let_def)
  show ?thesis
    by (rule runCase_expected_error_verdict [THEN iffD2])
       (use r in \<open>simp_all add: one_step_case_def echo_codec_def unknown_status_def\<close>)
qed

end
