(* ===== verification/Suite.thy ===== *)
theory Suite
  imports CaseRunner "HOL-Library.Multiset"
begin

text \<open>
  The execution of a set of cases (\<open>runner.go\<close>, first part): options, the suite lifecycle, the
  sequential loop, and the two parallel executors as step relations over goroutines.  The
  packages \<open>semaphore\<close> and \<open>errgroup\<close> are parameters with the contracts \<open>semaphore_contract\<close> and
  \<open>errgroup_contract\<close>.
\<close>

section \<open>Options\<close>

definition DefaultParallelCasesLimit :: int where "DefaultParallelCasesLimit = 10"

text \<open>\<open>dumpVar\<close> is the value of the environment variable \<open>ITESTKIT_RESPONSE_DUMP\<close>.\<close>

definition defaultRunCasesConfig :: "string \<Rightarrow> runCasesConfig" where
  "defaultRunCasesConfig dumpVar = \<lparr>rc_failFast = True, rc_parallel = False,
     rc_parallelismLimit = DefaultParallelCasesLimit, rc_responseDumpCaseName = trim_space dumpVar\<rparr>"

definition effectiveParallelismLimit :: "runCasesConfig \<Rightarrow> int" where
  "effectiveParallelismLimit config =
     (if 0 < rc_parallelismLimit config then rc_parallelismLimit config else DefaultParallelCasesLimit)"

type_synonym runCasesOption = "runCasesConfig \<Rightarrow> runCasesConfig"

definition applyRunCasesOptions :: "string \<Rightarrow> runCasesOption option list \<Rightarrow> runCasesConfig" where
  "applyRunCasesOptions dumpVar options =
     (let config = fold (\<lambda>opt config. case opt of None \<Rightarrow> config | Some f \<Rightarrow> f config) options
                     (defaultRunCasesConfig dumpVar)
      in if rc_responseDumpCaseName config \<noteq> [] then config\<lparr>rc_parallel := False\<rparr> else config)"

definition withContinueOnFailure :: runCasesOption where
  "withContinueOnFailure config = config\<lparr>rc_failFast := False\<rparr>"

definition withParallelCases :: runCasesOption where
  "withParallelCases config = config\<lparr>rc_parallel := True\<rparr>"

definition withParallelismLimit :: "int \<Rightarrow> runCasesOption" where
  "withParallelismLimit limit config =
     (let config = config\<lparr>rc_parallel := True\<rparr> in
      if limit \<le> 0 then config else config\<lparr>rc_parallelismLimit := limit\<rparr>)"

section \<open>The suite lifecycle\<close>

text \<open>How a call ends: it returns, panics, or leaves its goroutine (\<open>t.FailNow\<close>).\<close>

datatype 'a outcome = Returned 'a | Panicked string | Exited

definition withSuiteLifecycle ::
    "('w \<Rightarrow> 'w \<times> 'sc result outcome) \<Rightarrow> ('sc \<Rightarrow> 'w \<Rightarrow> 'w \<times> err option outcome) \<Rightarrow>
       ('sc \<Rightarrow> 'w \<Rightarrow> 'w \<times> err option outcome) \<Rightarrow> 'w \<Rightarrow> 'w \<times> err option outcome" where
  "withSuiteLifecycle setupSuite teardownSuite run w =
     (case setupSuite w of
        (w1, Panicked p) \<Rightarrow> (w1, Panicked p)
      | (w1, Exited) \<Rightarrow> (w1, Exited)
      | (w1, Returned (Inl e)) \<Rightarrow> (w1, Returned (Some (Errorf ''setup suite: %w'' [AErr e])))
      | (w1, Returned (Inr suiteContext)) \<Rightarrow>
          (let (w2, r) = run suiteContext w1; (w3, d) = teardownSuite suiteContext w2 in
           case d of
             Panicked p \<Rightarrow> (w3, Panicked p)
           | Exited \<Rightarrow> (w3, Exited)
           | Returned teardownErr \<Rightarrow>
               (case r of
                  Panicked p \<Rightarrow> (w3, Panicked p)
                | Exited \<Rightarrow> (w3, Exited)
                | Returned err \<Rightarrow>
                    (w3, Returned
                      (case teardownErr of
                         None \<Rightarrow> err
                       | Some t \<Rightarrow>
                           let wrapped = Errorf ''teardown suite: %w'' [AErr t] in
                           case err of None \<Rightarrow> Some wrapped | Some e \<Rightarrow> Some (Join [e, wrapped]))))))"

section \<open>One case as a subtest\<close>

definition selectResponseDumpCase :: "('w, 's) test_case list \<Rightarrow> string \<Rightarrow> ('w, 's) test_case list" where
  "selectResponseDumpCase cases caseName =
     (if caseName = [] then cases
      else case find (\<lambda>c. tc_name c = caseName) cases of None \<Rightarrow> [] | Some c \<Rightarrow> [c])"

definition buildCaseExecutionError :: "string \<Rightarrow> bool \<Rightarrow> err option \<Rightarrow> err option" where
  "buildCaseExecutionError caseName ok caseErr =
     (case caseErr of
        Some e \<Rightarrow> Some (Errorf (''--- CASE %q FAILED: ---'' @ [CHR 0x0A] @ ''%w'') [AStr caseName, AErr e])
      | None \<Rightarrow> if ok then None else Some (Errorf ''--- CASE %q FAILED ---'' [AStr caseName]))"

text \<open>
  What the program uses of a \<open>testing.T\<close>.  \<open>tt_selects\<close> are the flags \<open>-run\<close> and \<open>-skip\<close> of \<open>go test\<close>,
  \<open>tt_failFast\<close> is its flag \<open>-failfast\<close>, \<open>tt_failedBefore\<close> tells whether a test has failed,
  \<open>tt_start\<close> makes the \<open>T\<close> of a subtest, \<open>tt_failed\<close> and \<open>tt_fail\<close> read and set the mark of the subtest
  that runs.
\<close>

record 'w testing =
  tt_selects :: "string \<Rightarrow> bool"
  tt_failFast :: bool
  tt_failedBefore :: "'w \<Rightarrow> bool"
  tt_start :: "string \<Rightarrow> 'w \<Rightarrow> 'w"
  tt_failed :: "'w \<Rightarrow> bool"
  tt_fail :: "'w \<Rightarrow> 'w"

text \<open>
  \<open>t.Run\<close>: a subtest the flags leave out is not started and counts as passed; one that leaves its
  goroutine, by \<open>FailNow\<close> or by \<open>SkipNow\<close>, has passed unless it is marked as failed.  The value the
  function leaves is \<^const>\<open>None\<close> unless it returned.  A function that does not end, or panics, which
  ends the whole test binary, gives \<^const>\<open>None\<close>.  A subtest that calls \<open>t.Parallel\<close>, or \<open>FailNow\<close> of
  its parent, is outside the model.
\<close>

definition tRun ::
    "'w testing \<Rightarrow> string \<Rightarrow> ('w \<Rightarrow> ('w \<times> 'r outcome) option) \<Rightarrow> 'w \<Rightarrow> ('w \<times> bool \<times> 'r option) option" where
  "tRun T name f w =
     (if \<not> tt_selects T name \<or> tt_failFast T \<and> tt_failedBefore T w then Some (w, True, None)
      else Option.bind (f (tt_start T name w)) (\<lambda>(w', r).
        case r of
          Returned x \<Rightarrow> Some (w', \<not> tt_failed T w', Some x)
        | Exited \<Rightarrow> Some (w', \<not> tt_failed T w', None)
        | Panicked _ \<Rightarrow> None))"

text \<open>The body of a subtest ends with the result of \<open>runCase\<close>, or leaves its goroutine before.\<close>

type_synonym ('w, 's) subtest_body = "('w, 's) test_case \<Rightarrow> 'w \<Rightarrow> ('w \<times> unit result outcome) option"

text \<open>
  The body of a suite: the factory of the suite makes a harness for the case from the suite context
  (\<open>suiteHarnessFactory\<close>), and \<open>runCase\<close> runs the case with it.  The factory is code of the user with the
  \<open>T\<close> of the subtest at hand: it may leave the goroutine or panic.  So may the handlers; \<open>leaves\<close> is
  the world in which one of them leaves the goroutine, if one does.
\<close>

definition suiteHarnessBody ::
    "'w assert_env \<Rightarrow> 'w runtime \<Rightarrow> ('sc \<Rightarrow> 'w \<Rightarrow> 'w \<times> unit outcome) \<Rightarrow>
       ('sc \<Rightarrow> ('w, 's) test_case \<Rightarrow> 'w \<Rightarrow> 'w option) \<Rightarrow> 's errorInspector option \<Rightarrow> 's statusCodec \<Rightarrow>
       runCasesConfig \<Rightarrow> 'sc \<Rightarrow> ('w, 's) subtest_body" where
  "suiteHarnessBody ae rt newCaseHarness leaves inspector codec config suiteContext testCase w =
     (case newCaseHarness suiteContext w of
        (w1, Panicked p) \<Rightarrow> Some (w1, Panicked p)
      | (w1, Exited) \<Rightarrow> Some (w1, Exited)
      | (w1, Returned _) \<Rightarrow>
          (case leaves suiteContext testCase w1 of
             Some w2 \<Rightarrow> Some (w2, Exited)
           | None \<Rightarrow> map_option (\<lambda>(w', r). (w', Returned r))
               (runCase ae rt (\<lambda>_. w1) inspector codec config testCase w)))"

text \<open>The variable \<open>caseErr\<close> after \<open>t.Run\<close>.\<close>

definition caseErrOf :: "unit result option \<Rightarrow> err option" where
  "caseErrOf r = (case r of Some (Inl e) \<Rightarrow> Some e | _ \<Rightarrow> None)"

definition runParallelCase ::
    "'w testing \<Rightarrow> ('w, 's) subtest_body \<Rightarrow> ('w, 's) test_case \<Rightarrow> 'w \<Rightarrow> ('w \<times> bool \<times> err option) option" where
  "runParallelCase T body testCase w =
     map_option (\<lambda>(w', ok, r). (w', ok, caseErrOf r)) (tRun T (tc_name testCase) (body testCase) w)"

text \<open>The \<open>runner\<close> of \<open>executeCases\<close>: here an error of the case marks the subtest as failed.\<close>

definition runSequentialCase ::
    "'w testing \<Rightarrow> ('w, 's) subtest_body \<Rightarrow> ('w, 's) test_case \<Rightarrow> 'w \<Rightarrow> ('w \<times> err option) option" where
  "runSequentialCase T body testCase w =
     map_option (\<lambda>(w', ok, r). (w', buildCaseExecutionError (tc_name testCase) ok (caseErrOf r)))
       (tRun T (tc_name testCase)
          (\<lambda>w. map_option (\<lambda>(w', r). (case r of Returned (Inl _) \<Rightarrow> tt_fail T w' | _ \<Rightarrow> w', r)) (body testCase w)) w)"

section \<open>The sequential loop\<close>

fun executeLoop ::
    "bool \<Rightarrow> ('c \<Rightarrow> 'w \<Rightarrow> ('w \<times> err option) option) \<Rightarrow> 'c list \<Rightarrow> err list \<Rightarrow> 'w \<Rightarrow> ('w \<times> err option) option" where
  "executeLoop failFast runner [] executionErrors w =
     Some (w, if executionErrors = [] then None else Some (Join executionErrors))"
| "executeLoop failFast runner (c # cs) executionErrors w =
     Option.bind (runner c w) (\<lambda>(w', e).
       case e of
         None \<Rightarrow> executeLoop failFast runner cs executionErrors w'
       | Some e \<Rightarrow>
           if failFast then Some (w', Some e)
           else executeLoop failFast runner cs (executionErrors @ [e]) w')"

definition executeCasesWithRunner ::
    "('c \<Rightarrow> 'w \<Rightarrow> ('w \<times> err option) option) \<Rightarrow> runCasesConfig \<Rightarrow> 'c list \<Rightarrow> 'w \<Rightarrow> ('w \<times> err option) option" where
  "executeCasesWithRunner runner config cases w = executeLoop (rc_failFast config) runner cases [] w"

section \<open>Goroutines\<close>

text \<open>A goroutine waits for its turn, runs its case, or is done.\<close>

datatype phase = Waiting | Running | Finished "err option"

record 'q semaphore =
  sm_acquire :: "'q \<Rightarrow> 'q option" \<comment> \<open>\<^const>\<open>None\<close> where \<open>Acquire\<close> blocks\<close>
  sm_release :: "'q \<Rightarrow> 'q"

text \<open>What the documentation says of \<open>semaphore.NewWeighted(n)\<close> with weights of one.\<close>

definition semaphore_contract :: "int \<Rightarrow> ('q \<Rightarrow> int) \<Rightarrow> 'q semaphore \<Rightarrow> bool" where
  "semaphore_contract n held sm \<longleftrightarrow>
     (\<forall>q. sm_acquire sm q = None \<longleftrightarrow> n \<le> held q) \<and>
     (\<forall>q q'. sm_acquire sm q = Some q' \<longrightarrow> held q' = held q + 1) \<and>
     (\<forall>q. 0 < held q \<longrightarrow> held (sm_release sm q) = held q - 1)"

text \<open>
  \<open>executeCasesInParallelContinue\<close>: every goroutine acquires the semaphore, runs its case, appends
  the error and releases.  When the run context is done, \<open>Acquire\<close> may fail, and the goroutine
  returns.  \<open>result i (ok, caseErr)\<close> says how case \<open>i\<close> can end.
\<close>

record 'q continue_state =
  cs_phases :: "phase list"
  cs_errors :: "err list"
  cs_semaphore :: 'q

inductive continue_step ::
    "'q semaphore \<Rightarrow> string list \<Rightarrow> bool \<Rightarrow> (nat \<Rightarrow> bool \<times> err option \<Rightarrow> bool) \<Rightarrow>
       'q continue_state \<Rightarrow> 'q continue_state \<Rightarrow> bool"
  for sm :: "'q semaphore" and names :: "string list" and contextDone :: bool
    and result :: "nat \<Rightarrow> bool \<times> err option \<Rightarrow> bool" where
  acquire: "i < length (cs_phases st) \<Longrightarrow> cs_phases st ! i = Waiting \<Longrightarrow>
    sm_acquire sm (cs_semaphore st) = Some q \<Longrightarrow>
    continue_step sm names contextDone result st
      (st\<lparr>cs_phases := (cs_phases st)[i := Running], cs_semaphore := q\<rparr>)"
| acquire_fails: "i < length (cs_phases st) \<Longrightarrow> cs_phases st ! i = Waiting \<Longrightarrow> contextDone \<Longrightarrow>
    continue_step sm names contextDone result st (st\<lparr>cs_phases := (cs_phases st)[i := Finished None]\<rparr>)"
| finish: "i < length (cs_phases st) \<Longrightarrow> cs_phases st ! i = Running \<Longrightarrow> result i (ok, caseErr) \<Longrightarrow>
    e = buildCaseExecutionError (names ! i) ok caseErr \<Longrightarrow>
    continue_step sm names contextDone result st
      \<lparr>cs_phases = (cs_phases st)[i := Finished e],
       cs_errors = cs_errors st @ (case e of None \<Rightarrow> [] | Some e \<Rightarrow> [e]),
       cs_semaphore = sm_release sm (cs_semaphore st)\<rparr>"

definition continue_init :: "nat \<Rightarrow> 'q \<Rightarrow> 'q continue_state" where
  "continue_init n q = \<lparr>cs_phases = replicate n Waiting, cs_errors = [], cs_semaphore = q\<rparr>"

definition joinErrors :: "err list \<Rightarrow> err option" where
  "joinErrors es = (if es = [] then None else Some (Join es))"

text \<open>
  \<open>executeCasesInParallelFailFast\<close>: the loop starts the goroutines in order, \<open>Go\<close> blocks at the
  limit; the first error of a goroutine cancels the context and is the result of \<open>Wait\<close>.  A case
  that fails because the context is cancelled counts as passed.
\<close>

record 'g errgroup =
  eg_go :: "'g \<Rightarrow> 'g option" \<comment> \<open>\<^const>\<open>None\<close> where \<open>Go\<close> blocks\<close>
  eg_done :: "err option \<Rightarrow> 'g \<Rightarrow> 'g" \<comment> \<open>a function of the group returns\<close>
  eg_wait :: "'g \<Rightarrow> err option" \<comment> \<open>the error \<open>Wait\<close> returns; the context is done when there is one\<close>

definition errgroup_contract :: "int \<Rightarrow> ('g \<Rightarrow> int) \<Rightarrow> 'g errgroup \<Rightarrow> bool" where
  "errgroup_contract n active eg \<longleftrightarrow>
     (\<forall>g. eg_go eg g = None \<longleftrightarrow> n \<le> active g) \<and>
     (\<forall>g g'. eg_go eg g = Some g' \<longrightarrow> active g' = active g + 1 \<and> eg_wait eg g' = eg_wait eg g) \<and>
     (\<forall>g e. 0 < active g \<longrightarrow> active (eg_done eg e g) = active g - 1) \<and>
     (\<forall>g e. eg_wait eg (eg_done eg e g) = (case eg_wait eg g of None \<Rightarrow> e | Some f \<Rightarrow> Some f))"

text \<open>The error the function given to \<open>Go\<close> returns.\<close>

definition failFastError :: "bool \<Rightarrow> string \<Rightarrow> bool \<Rightarrow> err option \<Rightarrow> err option" where
  "failFastError contextDone name ok caseErr =
     buildCaseExecutionError name ok
       (case caseErr of
          None \<Rightarrow> None
        | Some e \<Rightarrow> if err_is contextCanceled e \<and> contextDone then None else Some e)"

record 'g failfast_state =
  ff_phases :: "phase list"
  ff_group :: 'g

inductive failfast_step ::
    "'g errgroup \<Rightarrow> string list \<Rightarrow> (nat \<Rightarrow> bool \<times> err option \<Rightarrow> bool) \<Rightarrow> 'g failfast_state \<Rightarrow> 'g failfast_state \<Rightarrow> bool"
  for eg :: "'g errgroup" and names :: "string list" and result :: "nat \<Rightarrow> bool \<times> err option \<Rightarrow> bool" where
  start: "i < length (ff_phases st) \<Longrightarrow> ff_phases st ! i = Waiting \<Longrightarrow>
    Waiting \<notin> set (take i (ff_phases st)) \<Longrightarrow> eg_go eg (ff_group st) = Some g \<Longrightarrow>
    failfast_step eg names result st (st\<lparr>ff_phases := (ff_phases st)[i := Running], ff_group := g\<rparr>)"
| return: "i < length (ff_phases st) \<Longrightarrow> ff_phases st ! i = Running \<Longrightarrow> result i (ok, caseErr) \<Longrightarrow>
    e = failFastError (eg_wait eg (ff_group st) \<noteq> None) (names ! i) ok caseErr \<Longrightarrow>
    failfast_step eg names result st
      \<lparr>ff_phases = (ff_phases st)[i := Finished e], ff_group = eg_done eg e (ff_group st)\<rparr>"

text \<open>The loop with its call of \<open>SetLimit\<close>; \<open>eg limit\<close> is the group with that limit.\<close>

definition executeCasesInParallelFailFast ::
    "(int \<Rightarrow> 'g errgroup) \<Rightarrow> runCasesConfig \<Rightarrow> string list \<Rightarrow> (nat \<Rightarrow> bool \<times> err option \<Rightarrow> bool) \<Rightarrow>
       'g failfast_state \<Rightarrow> 'g failfast_state \<Rightarrow> bool" where
  "executeCasesInParallelFailFast eg config = failfast_step (eg (effectiveParallelismLimit config))"

definition failfast_init :: "nat \<Rightarrow> 'g \<Rightarrow> 'g failfast_state" where
  "failfast_init n g = \<lparr>ff_phases = replicate n Waiting, ff_group = g\<rparr>"

text \<open>The steps a goroutine still has to make.\<close>

fun phase_work :: "phase \<Rightarrow> nat" where
  "phase_work Waiting = 2"
| "phase_work Running = 1"
| "phase_work (Finished e) = 0"

definition work :: "phase list \<Rightarrow> nat" where
  "work ps = sum_list (map phase_work ps)"

definition all_finished :: "phase list \<Rightarrow> bool" where
  "all_finished ps \<longleftrightarrow> work ps = 0"

section \<open>Executing the cases of a suite\<close>

text \<open>
  What the parallel executors return for the cases \<open>names\<close>: they wait until every goroutine is done.
  \<open>sm limit\<close> and \<open>eg limit\<close> are the semaphore and the group with that limit.
\<close>

inductive executeCasesInParallel ::
    "(int \<Rightarrow> 'q semaphore) \<Rightarrow> 'q \<Rightarrow> (int \<Rightarrow> 'g errgroup) \<Rightarrow> 'g \<Rightarrow> bool \<Rightarrow> runCasesConfig \<Rightarrow>
       (nat \<Rightarrow> bool \<times> err option \<Rightarrow> bool) \<Rightarrow> string list \<Rightarrow> err option \<Rightarrow> bool"
  for sm :: "int \<Rightarrow> 'q semaphore" and q0 :: 'q and eg :: "int \<Rightarrow> 'g errgroup" and g0 :: 'g
    and contextDone :: bool and config :: runCasesConfig where
  failFast: "rc_failFast config \<Longrightarrow>
    (executeCasesInParallelFailFast eg config names result)\<^sup>*\<^sup>* (failfast_init (length names) g0) st \<Longrightarrow>
    all_finished (ff_phases st) \<Longrightarrow>
    executeCasesInParallel sm q0 eg g0 contextDone config result names
      (eg_wait (eg (effectiveParallelismLimit config)) (ff_group st))"
| continue: "\<not> rc_failFast config \<Longrightarrow>
    (continue_step (sm (effectiveParallelismLimit config)) names contextDone result)\<^sup>*\<^sup>*
      (continue_init (length names) q0) st \<Longrightarrow>
    all_finished (cs_phases st) \<Longrightarrow>
    executeCasesInParallel sm q0 eg g0 contextDone config result names (joinErrors (cs_errors st))"

text \<open>How a case can end in a goroutine of its own, whatever the other cases did to the world.\<close>

inductive parallel_result ::
    "'w testing \<Rightarrow> ('w, 's) subtest_body \<Rightarrow> ('w, 's) test_case list \<Rightarrow> nat \<Rightarrow> bool \<times> err option \<Rightarrow> bool"
  for T :: "'w testing" and body :: "('w, 's) subtest_body" and cases :: "('w, 's) test_case list" where
  "i < length cases \<Longrightarrow> runParallelCase T body (cases ! i) w = Some (w', r) \<Longrightarrow>
   parallel_result T body cases i r"

inductive executeCases ::
    "(int \<Rightarrow> 'q semaphore) \<Rightarrow> 'q \<Rightarrow> (int \<Rightarrow> 'g errgroup) \<Rightarrow> 'g \<Rightarrow> bool \<Rightarrow> 'w testing \<Rightarrow> ('w, 's) subtest_body \<Rightarrow>
       runCasesConfig \<Rightarrow> ('w, 's) test_case list \<Rightarrow> 'w \<Rightarrow> 'w \<Rightarrow> err option \<Rightarrow> bool"
  for sm :: "int \<Rightarrow> 'q semaphore" and q0 :: 'q and eg :: "int \<Rightarrow> 'g errgroup" and g0 :: 'g
    and contextDone :: bool and T :: "'w testing" and body :: "('w, 's) subtest_body"
    and config :: runCasesConfig where
  parallel: "rc_parallel config \<Longrightarrow> selected = selectResponseDumpCase cases (rc_responseDumpCaseName config) \<Longrightarrow>
    executeCasesInParallel sm q0 eg g0 contextDone config (parallel_result T body selected)
      (map tc_name selected) e \<Longrightarrow>
    executeCases sm q0 eg g0 contextDone T body config cases w w' e"
| sequential: "\<not> rc_parallel config \<Longrightarrow> selected = selectResponseDumpCase cases (rc_responseDumpCaseName config) \<Longrightarrow>
    executeCasesWithRunner (runSequentialCase T body) config selected w = Some (w', e) \<Longrightarrow>
    executeCases sm q0 eg g0 contextDone T body config cases w w' e"

text \<open>
  \<open>RunCases\<close>: \<open>body\<close> gets the suite context, \<open>fatal\<close> is \<open>t.Fatalf\<close>, which marks the test as failed
  and leaves the goroutine.  The world of a parallel run is any world the cases may leave.
\<close>

definition reportSuiteError :: "(string \<Rightarrow> 'w \<Rightarrow> 'w) \<Rightarrow> (err \<Rightarrow> string) \<Rightarrow> 'w \<times> err option outcome \<Rightarrow> 'w \<times> unit outcome" where
  "reportSuiteError fatal errorText r =
     (case r of
        (w, Returned None) \<Rightarrow> (w, Returned ())
      | (w, Returned (Some e)) \<Rightarrow> (fatal ([CHR 0x0A] @ errorText e) w, Exited)
      | (w, Panicked p) \<Rightarrow> (w, Panicked p)
      | (w, Exited) \<Rightarrow> (w, Exited))"

inductive runCases ::
    "(int \<Rightarrow> 'q semaphore) \<Rightarrow> 'q \<Rightarrow> (int \<Rightarrow> 'g errgroup) \<Rightarrow> 'g \<Rightarrow> bool \<Rightarrow> 'w testing \<Rightarrow>
       (string \<Rightarrow> 'w \<Rightarrow> 'w) \<Rightarrow> (err \<Rightarrow> string) \<Rightarrow>
       ('w \<Rightarrow> 'w \<times> 'sc result outcome) \<Rightarrow> ('sc \<Rightarrow> 'w \<Rightarrow> 'w \<times> err option outcome) \<Rightarrow>
       ('sc \<Rightarrow> ('w, 's) subtest_body) \<Rightarrow> runCasesConfig \<Rightarrow> ('w, 's) test_case list \<Rightarrow> 'w \<Rightarrow> 'w \<times> unit outcome \<Rightarrow> bool"
  for sm :: "int \<Rightarrow> 'q semaphore" and q0 :: 'q and eg :: "int \<Rightarrow> 'g errgroup" and g0 :: 'g
    and contextDone :: bool and T :: "'w testing" and fatal :: "string \<Rightarrow> 'w \<Rightarrow> 'w" and errorText :: "err \<Rightarrow> string"
    and setupSuite :: "'w \<Rightarrow> 'w \<times> 'sc result outcome" and teardownSuite :: "'sc \<Rightarrow> 'w \<Rightarrow> 'w \<times> err option outcome"
    and body :: "'sc \<Rightarrow> ('w, 's) subtest_body" and config :: runCasesConfig where
  no_setup: "setupSuite w = (w1, r) \<Longrightarrow> (case r of Returned (Inr _) \<Rightarrow> False | _ \<Rightarrow> True) \<Longrightarrow>
    runCases sm q0 eg g0 contextDone T fatal errorText setupSuite teardownSuite body config cases w
      (reportSuiteError fatal errorText (withSuiteLifecycle setupSuite teardownSuite (\<lambda>_ w. (w, Exited)) w))"
| executed: "setupSuite w = (w1, Returned (Inr suiteContext)) \<Longrightarrow>
    executeCases sm q0 eg g0 contextDone T (body suiteContext) config cases w1 w2 e \<Longrightarrow>
    runCases sm q0 eg g0 contextDone T fatal errorText setupSuite teardownSuite body config cases w
      (reportSuiteError fatal errorText
        (withSuiteLifecycle setupSuite teardownSuite (\<lambda>_ _. (w2, Returned e)) w))"

section \<open>The sequential loop: what it returns\<close>

text \<open>Running all cases, whatever their outcomes.\<close>

fun run_all :: "('c \<Rightarrow> 'w \<Rightarrow> ('w \<times> err option) option) \<Rightarrow> 'c list \<Rightarrow> 'w \<Rightarrow> ('w \<times> err option list) option" where
  "run_all runner [] w = Some (w, [])"
| "run_all runner (c # cs) w =
     Option.bind (runner c w) (\<lambda>(w', e). map_option (\<lambda>(w'', es). (w'', e # es)) (run_all runner cs w'))"

definition errors_of :: "err option list \<Rightarrow> err list" where
  "errors_of es = List.map_filter (\<lambda>e. e) es"

lemma errors_of_simps [simp]:
  "errors_of [] = []" "errors_of (None # es) = errors_of es" "errors_of (Some e # es) = e # errors_of es"
  by (simp_all add: errors_of_def List.map_filter_def)

lemma errors_of_Nil: "errors_of es = [] \<longleftrightarrow> set es \<subseteq> {None}"
proof (induction es)
  case (Cons e es)
  then show ?case by (cases e) auto
qed simp

lemma executeLoop_continue:
  "executeLoop False runner cs errs w =
     map_option (\<lambda>(w', es). (w', joinErrors (errs @ errors_of es))) (run_all runner cs w)"
proof (induction cs arbitrary: errs w)
  case (Cons c cs)
  show ?case
  proof (cases "runner c w")
    case (Some r)
    obtain w' e where r: "r = (w', e)" by (cases r)
    show ?thesis by (cases e) (auto simp: Some r Cons.IH option.map_comp comp_def split_beta)
  qed simp
qed (simp add: joinErrors_def)

lemma executeLoop_failFast:
  "executeLoop True runner cs [] w = Some (w', eo) \<longleftrightarrow>
     (case eo of
        None \<Rightarrow> (\<exists>es. run_all runner cs w = Some (w', es) \<and> set es \<subseteq> {None})
      | Some e \<Rightarrow> (\<exists>pre c post w1 es. cs = pre @ c # post \<and> run_all runner pre w = Some (w1, es) \<and>
                     set es \<subseteq> {None} \<and> runner c w1 = Some (w', Some e)))"
proof (induction cs arbitrary: w)
  case Nil
  then show ?case by (auto split: option.splits)
next
  case (Cons c cs)
  show ?case
  proof (cases "runner c w")
    case None
    then show ?thesis
      by (auto simp: Cons_eq_append_conv split: option.splits)
  next
    case (Some r)
    obtain w1 e where r: "r = (w1, e)" by (cases r)
    show ?thesis
    proof (cases e)
      case (Some d)
      then show ?thesis
        using \<open>runner c w = Some r\<close> r
        by (cases eo) (force simp: Cons_eq_append_conv)+
    next
      case None
      have c: "runner c w = Some (w1, None)" using \<open>runner c w = Some r\<close> r None by simp
      show ?thesis
      proof (cases eo)
        case None
        show ?thesis using Cons.IH [of w1] by (auto simp: c None)
      next
        case (Some d)
        have "(\<exists>pre c' post w2 es. c # cs = pre @ c' # post \<and> run_all runner pre w = Some (w2, es) \<and>
              set es \<subseteq> {None} \<and> runner c' w2 = Some (w', Some d)) \<longleftrightarrow>
            (\<exists>pre c' post w2 es. cs = pre @ c' # post \<and> run_all runner pre w1 = Some (w2, es) \<and>
              set es \<subseteq> {None} \<and> runner c' w2 = Some (w', Some d))" (is "?L \<longleftrightarrow> ?R")
        proof
          assume ?L
          then obtain pre c' post w2 es where l: "c # cs = pre @ c' # post" "run_all runner pre w = Some (w2, es)"
            "set es \<subseteq> {None}" "runner c' w2 = Some (w', Some d)" by blast
          then obtain pre' where "pre = c # pre'" using c by (cases pre) auto
          then obtain es' where "cs = pre' @ c' # post" "run_all runner pre' w1 = Some (w2, es')" "set es' \<subseteq> {None}"
            using l c by (auto simp: split_beta)
          then show ?R using l(4) by blast
        next
          assume ?R
          then obtain pre c' post w2 es where "cs = pre @ c' # post" "run_all runner pre w1 = Some (w2, es)"
            "set es \<subseteq> {None}" "runner c' w2 = Some (w', Some d)" by blast
          then show ?L
            by (intro exI [of _ "c # pre"] exI [of _ c'] exI [of _ post] exI [of _ w2] exI [of _ "None # es"])
               (simp add: c)
        qed
        then show ?thesis using Cons.IH [of w1] by (simp add: c Some)
      qed
    qed
  qed
qed

section \<open>Counting goroutines\<close>

definition running :: "phase list \<Rightarrow> nat" where
  "running ps = count (mset ps) Running"

fun phase_errors :: "phase \<Rightarrow> err multiset" where
  "phase_errors (Finished (Some e)) = {#e#}"
| "phase_errors _ = {#}"

definition finished_errors :: "phase list \<Rightarrow> err multiset" where
  "finished_errors ps = \<Sum>\<^sub># (image_mset phase_errors (mset ps))"

lemma mset_upd: "i < length ps \<Longrightarrow> mset (ps[i := p]) = add_mset p (mset ps - {#ps ! i#})"
  by (rule mset_update)

lemma mset_split: "i < length ps \<Longrightarrow> mset ps = add_mset (ps ! i) (mset ps - {#ps ! i#})"
  by (simp add: insert_DiffM)

lemma running_update:
  assumes "i < length ps"
  shows "running (ps[i := p]) + (if ps ! i = Running then 1 else 0) = running ps + (if p = Running then 1 else 0)"
proof -
  define M where "M = mset ps - {#ps ! i#}"
  have "mset ps = add_mset (ps ! i) M" "mset (ps[i := p]) = add_mset p M"
    using mset_split [OF assms] mset_upd [OF assms] by (simp_all add: M_def)
  then show ?thesis by (simp add: running_def)
qed

lemma finished_update:
  assumes "i < length ps"
  shows "finished_errors (ps[i := p]) + phase_errors (ps ! i) = finished_errors ps + phase_errors p"
proof -
  define M where "M = mset ps - {#ps ! i#}"
  have "finished_errors ps = phase_errors (ps ! i) + \<Sum>\<^sub># (image_mset phase_errors M)"
    unfolding finished_errors_def using mset_split [OF assms, folded M_def] by simp
  moreover have "finished_errors (ps[i := p]) = phase_errors p + \<Sum>\<^sub># (image_mset phase_errors M)"
    unfolding finished_errors_def mset_upd [OF assms] M_def [symmetric] by simp
  ultimately show ?thesis by (simp add: ac_simps)
qed

lemma finished_error: "mset (case e of None \<Rightarrow> [] | Some x \<Rightarrow> [x]) = phase_errors (Finished e)"
  by (cases e) simp_all

lemma work_update: "i < length ps \<Longrightarrow> work (ps[i := p]) + phase_work (ps ! i) = work ps + phase_work p"
  unfolding work_def by (induction ps arbitrary: i) (auto split: nat.split)

lemma running_replicate [simp]: "running (replicate n Waiting) = 0"
  by (induction n) (auto simp: running_def)

lemma finished_replicate [simp]: "finished_errors (replicate n Waiting) = {#}"
  by (induction n) (auto simp: finished_errors_def)

lemma all_finished_iff: "all_finished ps \<longleftrightarrow> (\<forall>p \<in> set ps. \<exists>e. p = Finished e)"
proof -
  have "phase_work p = 0 \<longleftrightarrow> (\<exists>e. p = Finished e)" for p by (cases p) auto
  then show ?thesis by (simp add: all_finished_def work_def sum_list_eq_0_iff)
qed

lemma not_finished:
  assumes "\<not> all_finished ps"
  obtains i where "i < length ps" "ps ! i = Waiting \<or> ps ! i = Running"
proof -
  obtain p where "p \<in> set ps" "\<forall>e. p \<noteq> Finished e" using assms by (auto simp: all_finished_iff)
  then show thesis using that by (metis in_set_conv_nth phase.exhaust)
qed

lemma running_pos: "i < length ps \<Longrightarrow> ps ! i = Running \<Longrightarrow> 0 < running ps"
  by (metis count_greater_zero_iff nth_mem_mset running_def)

lemma no_runner: "running ps = 0 \<Longrightarrow> i < length ps \<Longrightarrow> ps ! i \<noteq> Running"
  using running_pos by fastforce

section \<open>Parallel execution without fail-fast\<close>

abbreviation "continue_reach sm names contextDone result \<equiv> (continue_step sm names contextDone result)\<^sup>*\<^sup>*"

lemma continue_invariant:
  assumes "continue_reach sm names contextDone result (continue_init m q0) st"
    and "semaphore_contract n held sm" "held q0 = 0" "0 < n"
  shows "held (cs_semaphore st) = int (running (cs_phases st)) \<and> int (running (cs_phases st)) \<le> n \<and>
    mset (cs_errors st) = finished_errors (cs_phases st) \<and> length (cs_phases st) = m"
  using assms(1)
proof (induction rule: rtranclp_induct)
  case base
  then show ?case using assms(3,4) by (simp add: continue_init_def)
next
  case (step st st')
  note sem = assms(2) [unfolded semaphore_contract_def]
  from step.hyps(2) show ?case
  proof cases
    case (acquire i q)
    then have "held q = held (cs_semaphore st) + 1" "\<not> n \<le> held (cs_semaphore st)"
      using sem by (blast, metis option.distinct(1))
    then show ?thesis
      using acquire step.IH running_update [of i "cs_phases st" Running] finished_update [of i "cs_phases st" Running]
      by simp
  next
    case (acquire_fails i)
    then show ?thesis
      using step.IH running_update [of i "cs_phases st" "Finished None"]
        finished_update [of i "cs_phases st" "Finished None"] by simp
  next
    case (finish i ok caseErr e)
    have "0 < held (cs_semaphore st)" using running_pos [OF finish(2,3)] step.IH by simp
    then have "held (sm_release sm (cs_semaphore st)) = held (cs_semaphore st) - 1" using sem by blast
    then show ?thesis
      using finish step.IH running_update [of i "cs_phases st" "Finished e"]
        finished_update [of i "cs_phases st" "Finished e"]
      by (simp add: finished_error)
  qed
qed

text \<open>Every step makes progress, and there is one as long as a goroutine is not done.\<close>

lemma continue_work: "continue_step sm names contextDone result st st' \<Longrightarrow> work (cs_phases st') < work (cs_phases st)"
proof (induction rule: continue_step.induct)
  case (acquire i st q)
  then show ?case using work_update [of i "cs_phases st" Running] by simp
next
  case (acquire_fails i st)
  then show ?case using work_update [of i "cs_phases st" "Finished None"] by simp
next
  case (finish i st ok caseErr e)
  then show ?case using work_update [of i "cs_phases st" "Finished e"] by simp
qed

lemma continue_progress:
  assumes "continue_reach sm names contextDone result (continue_init m q0) st"
    and "semaphore_contract n held sm" "held q0 = 0" "0 < n"
    and "\<And>i. i < m \<Longrightarrow> \<exists>r. result i r" "\<not> all_finished (cs_phases st)"
  shows "\<exists>st'. continue_step sm names contextDone result st st'"
proof -
  note inv = continue_invariant [OF assms(1-4)]
  obtain i where i: "i < length (cs_phases st)" "cs_phases st ! i = Waiting \<or> cs_phases st ! i = Running"
    by (rule not_finished [OF assms(6)])
  show ?thesis
  proof (cases "\<exists>j < length (cs_phases st). cs_phases st ! j = Running")
    case True
    then obtain j where j: "j < length (cs_phases st)" "cs_phases st ! j = Running" by blast
    then obtain ok caseErr where "result j (ok, caseErr)" using assms(5) inv by (metis prod.exhaust)
    then show ?thesis using continue_step.finish [OF j] by blast
  next
    case False
    then have "running (cs_phases st) = 0"
      by (metis count_eq_zero_iff in_set_conv_nth running_def set_mset_mset)
    then have "\<not> n \<le> held (cs_semaphore st)" using inv assms(4) by simp
    then obtain q where "sm_acquire sm (cs_semaphore st) = Some q"
      using assms(2) unfolding semaphore_contract_def by blast
    then show ?thesis using continue_step.acquire [OF i(1)] i(2) False i(1) by blast
  qed
qed


section \<open>Parallel execution with fail-fast\<close>

abbreviation "failfast_reach eg names result \<equiv> (failfast_step eg names result)\<^sup>*\<^sup>*"

lemma failfast_invariant:
  assumes "failfast_reach eg names result (failfast_init m g0) st"
    and "errgroup_contract n active eg" "active g0 = 0" "eg_wait eg g0 = None" "0 < n"
  shows "active (ff_group st) = int (running (ff_phases st)) \<and> int (running (ff_phases st)) \<le> n \<and>
    length (ff_phases st) = m \<and>
    (case eg_wait eg (ff_group st) of
       None \<Rightarrow> finished_errors (ff_phases st) = {#}
     | Some e \<Rightarrow> e \<in># finished_errors (ff_phases st))"
  using assms(1)
proof (induction rule: rtranclp_induct)
  case base
  then show ?case using assms(3,4,5) by (simp add: failfast_init_def)
next
  case (step st st')
  note eg = assms(2) [unfolded errgroup_contract_def]
  from step.hyps(2) show ?case
  proof cases
    case (start i g)
    have "active g = active (ff_group st) + 1" "eg_wait eg g = eg_wait eg (ff_group st)" "\<not> n \<le> active (ff_group st)"
      using eg start(5) by (blast, blast, metis option.distinct(1))
    then show ?thesis
      using start step.IH running_update [of i "ff_phases st" Running] finished_update [of i "ff_phases st" Running]
      by (simp split: option.splits)
  next
    case (return i ok caseErr e)
    have "0 < active (ff_group st)" using running_pos [OF return(2,3)] step.IH by simp
    then have d: "active (eg_done eg e (ff_group st)) = active (ff_group st) - 1" using eg by blast
    have w: "eg_wait eg (eg_done eg e (ff_group st)) =
        (case eg_wait eg (ff_group st) of None \<Rightarrow> e | Some f \<Rightarrow> Some f)" using eg by blast
    have f: "finished_errors ((ff_phases st)[i := Finished e]) = finished_errors (ff_phases st) + phase_errors (Finished e)"
      using finished_update [OF return(2), of "Finished e"] return(3) by simp
    have r: "Suc (running ((ff_phases st)[i := Finished e])) = running (ff_phases st)"
      using running_update [OF return(2), of "Finished e"] return(3) by simp
    show ?thesis
    proof (cases "eg_wait eg (ff_group st)")
      case None
      then show ?thesis using step.IH d r w f unfolding return(1) by (cases e) simp_all
    next
      case (Some g)
      then show ?thesis using step.IH d r w f unfolding return(1) by simp
    qed
  qed
qed

lemma failfast_work: "failfast_step eg names result st st' \<Longrightarrow> work (ff_phases st') < work (ff_phases st)"
proof (induction rule: failfast_step.induct)
  case (start i st g)
  then show ?case using work_update [of i "ff_phases st" Running] by simp
next
  case (return i st ok caseErr e)
  then show ?case using work_update [of i "ff_phases st" "Finished e"] by simp
qed

lemma first_waiting:
  assumes "Waiting \<in> set ps"
  obtains i where "i < length ps" "ps ! i = Waiting" "Waiting \<notin> set (take i ps)"
proof -
  obtain us vs where "ps = us @ Waiting # vs" "Waiting \<notin> set us" by (meson assms split_list_first)
  then show thesis by (intro that [of "length us"]) auto
qed

lemma failfast_progress:
  assumes "failfast_reach eg names result (failfast_init m g0) st"
    and "errgroup_contract n active eg" "active g0 = 0" "eg_wait eg g0 = None" "0 < n"
    and "\<And>i. i < m \<Longrightarrow> \<exists>r. result i r" "\<not> all_finished (ff_phases st)"
  shows "\<exists>st'. failfast_step eg names result st st'"
proof -
  note inv = failfast_invariant [OF assms(1-5)]
  show ?thesis
  proof (cases "\<exists>j < length (ff_phases st). ff_phases st ! j = Running")
    case True
    then obtain j where j: "j < length (ff_phases st)" "ff_phases st ! j = Running" by blast
    then obtain ok caseErr where "result j (ok, caseErr)" using assms(6) inv by (metis prod.exhaust)
    then show ?thesis using failfast_step.return [OF j] by blast
  next
    case False
    then have "running (ff_phases st) = 0"
      by (metis count_eq_zero_iff in_set_conv_nth running_def set_mset_mset)
    then have "\<not> n \<le> active (ff_group st)" using inv assms(5) by simp
    then obtain g where g: "eg_go eg (ff_group st) = Some g"
      using assms(2) unfolding errgroup_contract_def by blast
    obtain i where i: "i < length (ff_phases st)" "ff_phases st ! i = Waiting"
      using not_finished [OF assms(7)] False by blast
    then have "Waiting \<in> set (ff_phases st)" by (metis nth_mem)
    then show ?thesis using failfast_step.start g by (metis first_waiting)
  qed
qed

section \<open>Reaching the end\<close>

text \<open>A relation that makes progress on a measure, and never stops early, reaches the end.\<close>

lemma progress_reaches:
  fixes m :: "'a \<Rightarrow> nat"
  assumes "\<And>x y. step x y \<Longrightarrow> m y < m x"
    and "\<And>x. step\<^sup>*\<^sup>* x0 x \<Longrightarrow> m x \<noteq> 0 \<Longrightarrow> \<exists>y. step x y"
  shows "step\<^sup>*\<^sup>* x0 x \<Longrightarrow> \<exists>y. step\<^sup>*\<^sup>* x y \<and> m y = 0"
proof (induction "m x" arbitrary: x rule: less_induct)
  case less
  show ?case
  proof (cases "m x = 0")
    case False
    then obtain y where y: "step x y" using assms(2) less.prems by blast
    then have "step\<^sup>*\<^sup>* x0 y" using less.prems by simp
    then obtain z where "step\<^sup>*\<^sup>* y z" "m z = 0" using less.hyps [OF assms(1) [OF y]] by blast
    then show ?thesis using y by (meson converse_rtranclp_into_rtranclp)
  qed blast
qed

section \<open>A green suite\<close>

lemma buildCaseExecutionError_None: "buildCaseExecutionError n ok e = None \<longleftrightarrow> ok \<and> e = None"
  by (simp add: buildCaseExecutionError_def split: option.splits)

text \<open>
  The error of a goroutine that ended comes from a case that ended like that; when the context is
  done, the error of the case may be dropped because it only reports the cancellation.
\<close>

definition ends_as :: "bool \<Rightarrow> string \<Rightarrow> (bool \<times> err option \<Rightarrow> bool) \<Rightarrow> err option \<Rightarrow> bool" where
  "ends_as contextDone name r e \<longleftrightarrow>
     (\<exists>ok caseErr. r (ok, caseErr) \<and>
        (e = buildCaseExecutionError name ok caseErr \<or>
         contextDone \<and> (\<exists>c. caseErr = Some c \<and> err_is contextCanceled c \<and> e = buildCaseExecutionError name ok None)))"

definition explained :: "bool \<Rightarrow> string list \<Rightarrow> (nat \<Rightarrow> bool \<times> err option \<Rightarrow> bool) \<Rightarrow> phase list \<Rightarrow> bool" where
  "explained contextDone names result ps \<longleftrightarrow>
     (\<forall>i e. i < length ps \<longrightarrow> ps ! i = Finished e \<longrightarrow> ends_as contextDone (names ! i) (result i) e)"

lemma ends_as_False: "ends_as False n r e \<longleftrightarrow> (\<exists>ok caseErr. r (ok, caseErr) \<and> e = buildCaseExecutionError n ok caseErr)"
  by (simp add: ends_as_def)

lemma explained_update:
  "explained d names result ps \<Longrightarrow> (\<And>e. p = Finished e \<Longrightarrow> ends_as d (names ! i) (result i) e) \<Longrightarrow>
     explained d names result (ps[i := p])"
  unfolding explained_def by (metis length_list_update nth_list_update_eq nth_list_update_neq)

lemma explained_mono: "explained False names result ps \<Longrightarrow> explained d names result ps"
  unfolding explained_def ends_as_def by meson

lemma continue_explained:
  assumes "continue_reach sm names False result (continue_init m q0) st"
  shows "explained False names result (cs_phases st)"
  using assms
proof (induction rule: rtranclp_induct)
  case base
  then show ?case by (simp add: explained_def continue_init_def)
next
  case (step st st')
  from step.hyps(2) show ?case
  proof cases
    case (finish i ok caseErr e)
    then have "ends_as False (names ! i) (result i) e" unfolding ends_as_False by blast
    then show ?thesis using step.IH finish by (auto intro!: explained_update)
  qed (use step.IH in \<open>auto intro!: explained_update\<close>)
qed

lemma failFastError_running: "failFastError False n ok e = buildCaseExecutionError n ok e"
  by (auto simp: failFastError_def split: option.splits)

lemma failFastError_ends:
  "result i (ok, caseErr) \<Longrightarrow> ends_as d n (result i) (failFastError d n ok caseErr)"
  by (cases caseErr) (auto simp: ends_as_def failFastError_def)

text \<open>As long as there is no error, the context is not done, and no error is dropped.\<close>

lemma failfast_explained:
  assumes "failfast_reach eg names result (failfast_init m g0) st"
    and "errgroup_contract n active eg" "eg_wait eg g0 = None"
  shows "explained (eg_wait eg (ff_group st) \<noteq> None) names result (ff_phases st) \<and>
    (\<forall>e. eg_wait eg (ff_group st) = Some e \<longrightarrow>
       (\<exists>i < m. \<exists>ok caseErr. ff_phases st ! i = Finished (Some e) \<and> result i (ok, caseErr) \<and>
          buildCaseExecutionError (names ! i) ok caseErr = Some e)) \<and>
    length (ff_phases st) = m"
  using assms(1)
proof (induction rule: rtranclp_induct)
  case base
  then show ?case using assms(3) by (simp add: explained_def failfast_init_def)
next
  case (step st st')
  note eg = assms(2) [unfolded errgroup_contract_def]
  from step.hyps(2) show ?case
  proof cases
    case (start i g)
    have "eg_wait eg g = eg_wait eg (ff_group st)" using eg start(5) by blast
    then show ?thesis using step.IH start by (auto intro!: explained_update) (metis nth_list_update_neq phase.distinct(3))
  next
    case (return i ok caseErr e)
    have w: "eg_wait eg (eg_done eg e (ff_group st)) =
        (case eg_wait eg (ff_group st) of None \<Rightarrow> e | Some f \<Rightarrow> Some f)" using eg by blast
    have e: "ends_as (eg_wait eg (ff_group st) \<noteq> None) (names ! i) (result i) e"
      using return(4,5) failFastError_ends by metis
    have x: "explained (eg_wait eg (ff_group st) \<noteq> None) names result ((ff_phases st)[i := Finished e])"
      using step.IH e by (auto intro!: explained_update)
    show ?thesis
    proof (cases "eg_wait eg (ff_group st)")
      case None
      have b: "e = buildCaseExecutionError (names ! i) ok caseErr" using return(5) None by (simp add: failFastError_running)
      have "explained d names result ((ff_phases st)[i := Finished e])" for d
        using x None explained_mono by simp
      moreover have "((ff_phases st)[i := Finished e]) ! i = Finished e" using return(2) by simp
      moreover have "\<exists>j < m. \<exists>ok caseErr. ((ff_phases st)[i := Finished e]) ! j = Finished (Some d) \<and> result j (ok, caseErr) \<and>
          buildCaseExecutionError (names ! j) ok caseErr = Some d" if "e = Some d" for d
        using step.IH return(2,4) b that by (intro exI [of _ i]) auto
      ultimately show ?thesis using step.IH None w unfolding return(1) by auto
    next
      case (Some f)
      then show ?thesis
        using step.IH w x return(3) unfolding return(1)
        by (auto intro!: explained_update) (metis nth_list_update_neq phase.distinct(5))
    qed
  qed
qed

lemma finished_passed:
  assumes "explained False names result ps" "finished_errors ps = {#}" "i < length ps" "ps ! i = Finished e"
  shows "e = None \<and> result i (True, None)"
proof -
  have "phase_errors (ps ! i) = {#}" using assms(2,3) by (auto simp: finished_errors_def)
  then have e: "e = None" using assms(4) by (cases e) simp_all
  then obtain ok caseErr where "result i (ok, caseErr)" "buildCaseExecutionError (names ! i) ok caseErr = None"
    using assms(1,3,4) unfolding explained_def ends_as_False by metis
  then show ?thesis using e by (simp add: buildCaseExecutionError_None)
qed

lemma no_errors_all_passed:
  assumes "explained False names result ps" "all_finished ps" "finished_errors ps = {#}" "i < length ps"
  shows "result i (True, None)"
proof -
  obtain e where "ps ! i = Finished e" using assms(2,4) nth_mem all_finished_iff by blast
  then show ?thesis using finished_passed [OF assms(1,3,4)] by blast
qed

lemma parallel_verdict:
  assumes "executeCasesInParallel sm q0 eg g0 False config result names eo"
    and "semaphore_contract (effectiveParallelismLimit config) held (sm (effectiveParallelismLimit config))" "held q0 = 0"
    and "errgroup_contract (effectiveParallelismLimit config) active (eg (effectiveParallelismLimit config))"
    and "active g0 = 0" "eg_wait (eg (effectiveParallelismLimit config)) g0 = None"
  shows "(eo = None \<longrightarrow> (\<forall>i < length names. result i (True, None))) \<and>
    (\<forall>e. eo = Some e \<longrightarrow> (\<exists>i < length names. \<exists>ok caseErr f. result i (ok, caseErr) \<and>
       buildCaseExecutionError (names ! i) ok caseErr = Some f \<and> err_is f e))"
proof -
  have l: "0 < effectiveParallelismLimit config" by (simp add: effectiveParallelismLimit_def DefaultParallelCasesLimit_def)
  from assms(1) show ?thesis
  proof cases
    case (failFast st)
    note reach = failFast(3) [unfolded executeCasesInParallelFailFast_def]
    note inv = failfast_invariant [OF reach assms(4-6) l]
    note ex = failfast_explained [OF reach assms(4,6)]
    have "eo = None \<longrightarrow> (\<forall>i < length names. result i (True, None))"
      using no_errors_all_passed [of names result "ff_phases st"] failFast(1,4) inv ex by auto
    moreover have "\<exists>i < length names. \<exists>ok caseErr f. result i (ok, caseErr) \<and>
        buildCaseExecutionError (names ! i) ok caseErr = Some f \<and> err_is f e" if eo: "eo = Some e" for e
    proof -
      have "eg_wait (eg (effectiveParallelismLimit config)) (ff_group st) = Some e" using eo failFast(1) by simp
      then obtain i ok caseErr where "i < length names" "result i (ok, caseErr)"
        "buildCaseExecutionError (names ! i) ok caseErr = Some e"
        using ex by blast
      then show ?thesis using err_is_refl by blast
    qed
    ultimately show ?thesis by blast
  next
    case (continue st)
    note inv = continue_invariant [OF continue(3) assms(2,3) l]
    note ex = continue_explained [OF continue(3)]
    have "eo = None \<longrightarrow> (\<forall>i < length names. result i (True, None))"
      using no_errors_all_passed [OF ex continue(4)] inv continue(1) by (auto simp: joinErrors_def split: if_splits)
    moreover have "\<exists>i < length names. \<exists>ok caseErr f. result i (ok, caseErr) \<and>
        buildCaseExecutionError (names ! i) ok caseErr = Some f \<and> err_is f e" if eo: "eo = Some e" for e
    proof -
      obtain f fs where "cs_errors st = f # fs" "e = Join (f # fs)"
        using eo continue(1) by (cases "cs_errors st") (simp_all add: joinErrors_def)
      then have f: "f \<in> set (cs_errors st)" "err_is f e" by simp_all
      have "f \<in># finished_errors (cs_phases st)" using f(1) inv by (metis set_mset_mset)
      then obtain p where "p \<in> set (cs_phases st)" "f \<in># phase_errors p" by (auto simp: finished_errors_def)
      then have "p = Finished (Some f)" by (cases p rule: phase_errors.cases) simp_all
      then obtain i where "i < length (cs_phases st)" "cs_phases st ! i = Finished (Some f)"
        using \<open>p \<in> set (cs_phases st)\<close> by (metis in_set_conv_nth)
      then have "\<exists>ok caseErr. result i (ok, caseErr) \<and> Some f = buildCaseExecutionError (names ! i) ok caseErr"
        using ex unfolding explained_def ends_as_False by blast
      moreover have "i < length names" using \<open>i < length (cs_phases st)\<close> inv by simp
      ultimately have "i < length names"
        "\<exists>ok caseErr. result i (ok, caseErr) \<and> buildCaseExecutionError (names ! i) ok caseErr = Some f"
        by metis+
      then show ?thesis using f(2) by blast
    qed
    ultimately show ?thesis by blast
  qed
qed

lemma run_all_passed:
  assumes "run_all runner cs w = Some (w', es)" "set es \<subseteq> {None}" "c \<in> set cs"
  shows "\<exists>w w'. runner c w = Some (w', None)"
  using assms
proof (induction cs arbitrary: w es)
  case (Cons d cs)
  obtain w1 e where d: "runner d w = Some (w1, e)" using Cons.prems(1) by (cases "runner d w") auto
  obtain es' where cs: "run_all runner cs w1 = Some (w', es')" "es = e # es'"
    using Cons.prems(1) d by (cases "run_all runner cs w1") auto
  then have "e = None" "set es' \<subseteq> {None}" using Cons.prems(2) by auto
  then show ?case using Cons.IH [OF cs(1)] Cons.prems(3) d by auto
qed simp

lemma executeLoop_passed:
  "executeLoop failFast runner cs [] w = Some (w', None) \<longleftrightarrow>
     (\<exists>es. run_all runner cs w = Some (w', es) \<and> set es \<subseteq> {None})"
  by (cases failFast)
     (auto simp: executeLoop_failFast executeLoop_continue joinErrors_def errors_of_Nil split: if_splits)

lemma sequential_passed:
  assumes "executeCasesWithRunner runner config cs w = Some (w', None)" "c \<in> set cs"
  shows "\<exists>w w'. runner c w = Some (w', None)"
  using assms run_all_passed by (metis executeCasesWithRunner_def executeLoop_passed)

text \<open>
  The three ways in which a subtest passes when \<open>go test\<close> does not stop at a failure: the flags leave
  it out, it is skipped, or it returns without an error.
\<close>

definition subtest_passes :: "'w testing \<Rightarrow> ('w, 's) subtest_body \<Rightarrow> ('w, 's) test_case \<Rightarrow> bool" where
  "subtest_passes T body c \<longleftrightarrow>
     \<not> tt_selects T (tc_name c) \<or>
     (\<exists>u v. body c (tt_start T (tc_name c) u) = Some (v, Exited) \<and> \<not> tt_failed T v) \<or>
     (\<exists>u v. body c (tt_start T (tc_name c) u) = Some (v, Returned (Inr ())) \<and> \<not> tt_failed T v)"

lemma tRun_passed:
  assumes "tRun T name f w = Some (w', True, r)" "\<not> tt_failFast T"
  shows "\<not> tt_selects T name \<and> r = None \<or>
    \<not> tt_failed T w' \<and> (f (tt_start T name w) = Some (w', Exited) \<and> r = None \<or>
       (\<exists>x. f (tt_start T name w) = Some (w', Returned x) \<and> r = Some x))"
  using assms
  by (auto simp: tRun_def split: if_splits bind_splits outcome.splits)

lemma caseErrOf_None: "caseErrOf r = None \<longleftrightarrow> r = None \<or> r = Some (Inr ())"
  by (auto simp: caseErrOf_def split: option.split sum.split)

lemma runParallelCase_passed:
  assumes "runParallelCase T body c w = Some (w', True, None)" "\<not> tt_failFast T"
  shows "subtest_passes T body c"
proof -
  obtain r where "tRun T (tc_name c) (body c) w = Some (w', True, r)" "caseErrOf r = None"
    using assms(1) by (auto simp: runParallelCase_def)
  then show ?thesis
    using tRun_passed [OF _ assms(2)] unfolding subtest_passes_def caseErrOf_None by blast
qed

lemma runSequentialCase_passed:
  assumes "runSequentialCase T body c w = Some (w', None)" "\<not> tt_failFast T"
  shows "subtest_passes T body c"
proof -
  let ?f = "\<lambda>w. map_option (\<lambda>(w', r). (case r of Returned (Inl _) \<Rightarrow> tt_fail T w' | _ \<Rightarrow> w', r)) (body c w)"
  obtain r where r: "tRun T (tc_name c) ?f w = Some (w', True, r)" "caseErrOf r = None"
    using assms(1) by (auto simp: runSequentialCase_def buildCaseExecutionError_None)
  have e: "body c u = Some (w', Exited)" if "?f u = Some (w', Exited)" for u using that by auto
  have p: "body c u = Some (w', Returned (Inr ()))" if "?f u = Some (w', Returned (Inr ()))" for u using that by auto
  from tRun_passed [OF r(1) assms(2)] show ?thesis
  proof (elim disjE conjE exE)
    assume "\<not> tt_failed T w'" "?f (tt_start T (tc_name c) w) = Some (w', Exited)"
    then show ?thesis using e unfolding subtest_passes_def by blast
  next
    fix x
    assume x: "\<not> tt_failed T w'" "?f (tt_start T (tc_name c) w) = Some (w', Returned x)" "r = Some x"
    then have "x = Inr ()" using r(2) by (simp add: caseErrOf_None)
    then show ?thesis using x p unfolding subtest_passes_def by blast
  qed (simp add: subtest_passes_def)
qed

text \<open>The ways in which the body of a suite ends without a panic.\<close>

lemma left_body:
  assumes "suiteHarnessBody ae rt newCaseHarness leaves inspector codec config suiteContext c u = Some (v, Exited)"
  shows "newCaseHarness suiteContext u = (v, Exited) \<or>
    (\<exists>h. newCaseHarness suiteContext u = (h, Returned ()) \<and> leaves suiteContext c h = Some v)"
  using assms by (auto simp: suiteHarnessBody_def split: prod.splits outcome.splits option.splits)

lemma passed_body:
  assumes "suiteHarnessBody ae rt newCaseHarness leaves inspector codec config suiteContext c u = Some (v, Returned (Inr ()))"
  shows "\<exists>h. newCaseHarness suiteContext u = (h, Returned ()) \<and>
    runCase ae rt (\<lambda>_. h) inspector codec config c u = Some (v, Inr ())"
  using assms by (auto simp: suiteHarnessBody_def split: prod.splits outcome.splits option.splits)

section \<open>Properties\<close>

text \<open>
  C28: sequentially, without fail-fast, all cases run and the errors of all failed ones are joined in
  order; with fail-fast the cases run up to the first failure, whose error is the result.  Both
  succeed exactly when every case passes, and then leave the same world.
\<close>

theorem sequential_verdict:
  "executeCasesWithRunner runner (config\<lparr>rc_failFast := False\<rparr>) cases w =
     map_option (\<lambda>(w', es). (w', joinErrors (errors_of es))) (run_all runner cases w) \<and>
   (executeCasesWithRunner runner (config\<lparr>rc_failFast := True\<rparr>) cases w = Some (w', None) \<longleftrightarrow>
    executeCasesWithRunner runner (config\<lparr>rc_failFast := False\<rparr>) cases w = Some (w', None)) \<and>
   (executeCasesWithRunner runner (config\<lparr>rc_failFast := True\<rparr>) cases w = Some (w', Some e) \<longleftrightarrow>
    (\<exists>pre c post w1 es. cases = pre @ c # post \<and> run_all runner pre w = Some (w1, es) \<and>
       set es \<subseteq> {None} \<and> runner c w1 = Some (w', Some e)))"
  by (simp add: executeCasesWithRunner_def executeLoop_passed, simp add: executeLoop_continue executeLoop_failFast)

text \<open>
  The parallel executor never runs more cases at once than the limit, and what it has collected
  at any moment are exactly the errors of the cases that have ended.
\<close>

theorem continue_limit:
  assumes "continue_reach sm names contextDone result (continue_init m q0) st"
    and "semaphore_contract (effectiveParallelismLimit config) held sm" "held q0 = 0"
  shows "int (running (cs_phases st)) \<le> effectiveParallelismLimit config \<and>
    mset (cs_errors st) = finished_errors (cs_phases st)"
  using continue_invariant [OF assms] by (simp add: effectiveParallelismLimit_def DefaultParallelCasesLimit_def)

text \<open>
  The parallel executor ends: every step uses up work, and from every state it can reach a state
  in which all goroutines are done is reachable, if every case that runs ends.
\<close>

theorem continue_ends:
  assumes "continue_reach sm names contextDone result (continue_init m q0) st"
    and "semaphore_contract (effectiveParallelismLimit config) held sm" "held q0 = 0"
    and "\<And>i. i < m \<Longrightarrow> \<exists>r. result i r"
  shows "(\<exists>st'. continue_reach sm names contextDone result st st' \<and> all_finished (cs_phases st')) \<and>
    (\<forall>st'. continue_step sm names contextDone result st st' \<longrightarrow> work (cs_phases st') < work (cs_phases st))"
proof -
  have l: "0 < effectiveParallelismLimit config" by (simp add: effectiveParallelismLimit_def DefaultParallelCasesLimit_def)
  have p: "\<exists>y. continue_step sm names contextDone result x y"
    if "continue_reach sm names contextDone result (continue_init m q0) x" "work (cs_phases x) \<noteq> 0" for x
    using continue_progress [OF that(1) assms(2,3) l assms(4)] that(2) by (simp add: all_finished_def)
  have "\<exists>y. continue_reach sm names contextDone result st y \<and> work (cs_phases y) = 0"
    by (rule progress_reaches [OF _ _ assms(1)]) (erule continue_work, erule p, assumption)
  then show ?thesis unfolding all_finished_def using continue_work by blast
qed

text \<open>
  C27: with fail-fast, the parallel executor never runs more cases at once than the configured limit,
  or ten; it always can go on until every case has ended; and as long as \<open>Wait\<close> has no error, every
  case that has ended passed; otherwise the error of \<open>Wait\<close> is that of a case that ended with it, and an
  error of another case is missing only if it reports the cancellation.
\<close>

theorem failfast_verdict:
  assumes "(executeCasesInParallelFailFast eg config names result)\<^sup>*\<^sup>* (failfast_init (length names) g0) st"
    and "\<And>n. 0 < n \<Longrightarrow> errgroup_contract n active (eg n)" "active g0 = 0" "\<And>n. eg_wait (eg n) g0 = None"
    and "\<And>i. i < length names \<Longrightarrow> \<exists>r. result i r"
  shows "int (running (ff_phases st)) \<le>
      (if 0 < rc_parallelismLimit config then rc_parallelismLimit config else 10) \<and>
    (\<exists>st'. (executeCasesInParallelFailFast eg config names result)\<^sup>*\<^sup>* st st' \<and> all_finished (ff_phases st')) \<and>
    (case eg_wait (eg (effectiveParallelismLimit config)) (ff_group st) of
       None \<Rightarrow> \<forall>i e. i < length names \<longrightarrow> ff_phases st ! i = Finished e \<longrightarrow> e = None \<and> result i (True, None)
     | Some e \<Rightarrow>
         (\<exists>i < length names. \<exists>ok caseErr. ff_phases st ! i = Finished (Some e) \<and> result i (ok, caseErr) \<and>
            buildCaseExecutionError (names ! i) ok caseErr = Some e) \<and>
         (\<forall>i e'. i < length names \<longrightarrow> ff_phases st ! i = Finished e' \<longrightarrow> ends_as True (names ! i) (result i) e'))"
proof -
  let ?eg = "eg (effectiveParallelismLimit config)" and ?m = "length names"
  have l: "0 < effectiveParallelismLimit config" by (simp add: effectiveParallelismLimit_def DefaultParallelCasesLimit_def)
  note contract = assms(2) [OF l] and start = assms(4) [of "effectiveParallelismLimit config"]
  note reach = assms(1) [unfolded executeCasesInParallelFailFast_def]
  note inv = failfast_invariant [OF reach contract assms(3) start l]
  note ex = failfast_explained [OF reach contract start]
  have p: "\<exists>y. failfast_step ?eg names result x y"
    if "failfast_reach ?eg names result (failfast_init ?m g0) x" "work (ff_phases x) \<noteq> 0" for x
    using failfast_progress [OF that(1) contract assms(3) start l assms(5)] that(2) by (simp add: all_finished_def)
  have "\<exists>y. failfast_reach ?eg names result st y \<and> work (ff_phases y) = 0"
    by (rule progress_reaches [OF _ _ reach]) (erule failfast_work, erule p, assumption)
  moreover have "int (running (ff_phases st)) \<le> (if 0 < rc_parallelismLimit config then rc_parallelismLimit config else 10)"
    using conjunct1 [OF conjunct2 [OF inv]]
    by (auto simp: effectiveParallelismLimit_def DefaultParallelCasesLimit_def split: if_splits)
  moreover have "e = None \<and> result i (True, None)"
    if "eg_wait ?eg (ff_group st) = None" "i < ?m" "ff_phases st ! i = Finished e" for i e
    using finished_passed [of names result "ff_phases st" i e] that inv ex by simp
  ultimately show ?thesis
    using ex unfolding all_finished_def executeCasesInParallelFailFast_def
    by (auto simp: explained_def split: option.split)
qed

text \<open>A suite that passes ran its selected cases to a passing end.\<close>

lemma passed_suite:
  assumes "runCases sm q0 eg g0 False T fatal errorText setupSuite teardownSuite body config cases w (w', Returned ())"
    and "semaphore_contract (effectiveParallelismLimit config) held (sm (effectiveParallelismLimit config))" "held q0 = 0"
    and "errgroup_contract (effectiveParallelismLimit config) active (eg (effectiveParallelismLimit config))"
    and "active g0 = 0" "eg_wait (eg (effectiveParallelismLimit config)) g0 = None"
    and "c \<in> set (selectResponseDumpCase cases (rc_responseDumpCaseName config))" "\<not> tt_failFast T"
  shows "\<exists>w1 w2 suiteContext. setupSuite w = (w1, Returned (Inr suiteContext)) \<and>
    teardownSuite suiteContext w2 = (w', Returned None) \<and>
    subtest_passes T (body suiteContext) c"
  using assms(1)
proof cases
  case (no_setup w1 r)
  have "withSuiteLifecycle setupSuite teardownSuite (\<lambda>_ w. (w, Exited)) w \<noteq> (v, Returned None)" for v
    using no_setup(2,3) by (cases r) (auto simp: withSuiteLifecycle_def split: sum.splits)
  then have False using no_setup(1) by (auto simp: reportSuiteError_def split: prod.splits outcome.splits option.splits)
  then show ?thesis ..
next
  case (executed w1 suiteContext w2 e)
  have l: "withSuiteLifecycle setupSuite teardownSuite (\<lambda>_ _. (w2, Returned e)) w = (w', Returned None)"
    using executed(1) by (auto simp: reportSuiteError_def split: prod.splits outcome.splits option.splits)
  obtain w3 d where d: "teardownSuite suiteContext w2 = (w3, d)" by fastforce
  have t: "teardownSuite suiteContext w2 = (w', Returned None)" and e: "e = None"
    using l d executed(2) by (auto simp: withSuiteLifecycle_def Let_def split: outcome.splits option.splits)
  let ?cs = "selectResponseDumpCase cases (rc_responseDumpCaseName config)"
  from executed(3) have "subtest_passes T (body suiteContext) c"
  proof cases
    case (parallel selected)
    obtain i where i: "i < length ?cs" "?cs ! i = c" using assms(7) by (auto simp: in_set_conv_nth)
    then have "parallel_result T (body suiteContext) ?cs i (True, None)"
      using parallel_verdict [OF parallel(3) assms(2-6)] e parallel(2) by simp
    then show ?thesis using i(2) runParallelCase_passed [OF _ assms(8)] by cases blast
  next
    case (sequential selected)
    then obtain u v where "runSequentialCase T (body suiteContext) c u = Some (v, None)"
      using sequential_passed [of _ config ?cs w1 w2 c] assms(7) e by blast
    then show ?thesis by (rule runSequentialCase_passed [OF _ assms(8)])
  qed
  then show ?thesis using executed(2) t by blast
qed

text \<open>
  C3: a suite that \<open>RunCases\<close> lets pass, in whatever mode it runs, was set up and torn down without
  an error, and every selected case either was left out by the flags of \<open>go test\<close>, or left its subtest
  early without a failure, which is a skip, or had a run that returned no error and did not mark its
  subtest as failed.
\<close>

theorem green_suite:
  assumes "runCases sm q0 eg g0 False T fatal errorText setupSuite teardownSuite body config cases w (w', Returned ())"
    and "semaphore_contract (effectiveParallelismLimit config) held (sm (effectiveParallelismLimit config))" "held q0 = 0"
    and "errgroup_contract (effectiveParallelismLimit config) active (eg (effectiveParallelismLimit config))"
    and "active g0 = 0" "eg_wait (eg (effectiveParallelismLimit config)) g0 = None"
    and "c \<in> set (selectResponseDumpCase cases (rc_responseDumpCaseName config))" "\<not> tt_failFast T"
  shows "\<exists>w1 w2 suiteContext. setupSuite w = (w1, Returned (Inr suiteContext)) \<and>
    teardownSuite suiteContext w2 = (w', Returned None) \<and>
    (\<not> tt_selects T (tc_name c) \<or>
     (\<exists>u v. body suiteContext c (tt_start T (tc_name c) u) = Some (v, Exited) \<and> \<not> tt_failed T v) \<or>
     (\<exists>u v. body suiteContext c (tt_start T (tc_name c) u) = Some (v, Returned (Inr ())) \<and> \<not> tt_failed T v))"
  using passed_suite [OF assms] unfolding subtest_passes_def .

text \<open>A semaphore and a group that count.\<close>

definition counting_semaphore :: "int \<Rightarrow> int semaphore" where
  "counting_semaphore n = \<lparr>sm_acquire = (\<lambda>q. if q < n then Some (q + 1) else None), sm_release = (\<lambda>q. q - 1)\<rparr>"

definition counting_group :: "int \<Rightarrow> (int \<times> err option) errgroup" where
  "counting_group n = \<lparr>eg_go = (\<lambda>(k, e). if k < n then Some (k + 1, e) else None),
     eg_done = (\<lambda>e (k, f). (k - 1, case f of None \<Rightarrow> e | Some f \<Rightarrow> Some f)), eg_wait = snd\<rparr>"

lemma counting_semaphore: "semaphore_contract n (\<lambda>q. q) (counting_semaphore n)"
  by (auto simp: semaphore_contract_def counting_semaphore_def split: if_splits)

lemma counting_group: "errgroup_contract n fst (counting_group n)"
  by (auto simp: errgroup_contract_def counting_group_def split: if_splits option.splits)

lemma plain_limit: "effectiveParallelismLimit plain_config = 10"
  by (simp add: effectiveParallelismLimit_def plain_config_def)

text \<open>Two cases that both pass, in the middle of their runs.\<close>

abbreviation "both_running \<equiv> \<lparr>cs_phases = [Running, Running], cs_errors = [], cs_semaphore = (2 :: int)\<rparr>"

abbreviation "both_pass \<equiv> (\<lambda>(i :: nat) r. r = (True, None :: err option))"

lemma two_running:
  "continue_reach (counting_semaphore 10) [''a'', ''b''] False both_pass (continue_init 2 0) both_running"
proof -
  let ?one = "\<lparr>cs_phases = [Running, Waiting], cs_errors = [], cs_semaphore = (1 :: int)\<rparr>"
  have "continue_step (counting_semaphore 10) [''a'', ''b''] False both_pass (continue_init 2 0) ?one"
    using continue_step.acquire [of 0 "continue_init 2 (0 :: int)" "counting_semaphore 10" 1]
    by (simp add: continue_init_def counting_semaphore_def numeral_2_eq_2)
  moreover have "continue_step (counting_semaphore 10) [''a'', ''b''] False both_pass ?one both_running"
    using continue_step.acquire [of 1 ?one "counting_semaphore 10" 2] by (simp add: counting_semaphore_def)
  ultimately show ?thesis by (rule converse_rtranclp_into_rtranclp [OF _ r_into_rtranclp])
qed

theorem continue_limit_witness:
  "int (running (cs_phases both_running)) \<le> 10 \<and> mset (cs_errors both_running) = finished_errors (cs_phases both_running)"
  using continue_limit [where config = plain_config, unfolded plain_limit, OF two_running counting_semaphore refl]
  by simp

theorem continue_ends_witness:
  "\<exists>st'. continue_reach (counting_semaphore 10) [''a'', ''b''] False both_pass both_running st' \<and>
     all_finished (cs_phases st')"
  using continue_ends [where config = plain_config, unfolded plain_limit, OF two_running counting_semaphore refl]
  by blast

theorem failfast_verdict_witness:
  "\<exists>st'. (executeCasesInParallelFailFast counting_group plain_config [''a'', ''b''] both_pass)\<^sup>*\<^sup>*
     (failfast_init 2 (0, None)) st' \<and> all_finished (ff_phases st')"
proof -
  have "eg_wait (counting_group n) (0, None) = None" for n by (simp add: counting_group_def)
  from failfast_verdict [where config = plain_config and names = "[''a'', ''b'']" and result = both_pass,
      OF rtranclp.rtrancl_refl counting_group _ this]
  show ?thesis by (simp add: numeral_2_eq_2)
qed

text \<open>A suite with one case, which runs its step and compares the answer.\<close>

abbreviation "answer_case \<equiv> one_step_case answer_step ''OK'' ResponseModeExact (VNum ''1'')"

abbreviation "answer_body \<equiv> (\<lambda>(u :: unit) c w. map_option (\<lambda>(w', r). (w', Returned r))
  (runCase plain_env log_runtime (\<lambda>w. w) (Some unknown_status) echo_codec plain_config c w))"

lemma answer_case_runs:
  "runCase plain_env log_runtime (\<lambda>w. w) (Some unknown_status) echo_codec plain_config answer_case [] =
     Some ([(VNum ''1'', None)], Inr ())"
proof -
  have m: "\<not> containsSpecialMatcher (as_response (tc_assert answer_case))" by code_simp
  have d: "\<not> containsProtoMessage (ae_proto plain_env w) mem (VNum ''1'')" for mem w
    by (simp add: plain_env_def containsProtoMessage_def containsProtoMessageValue.simps isProtoMessageValue_def)
  have e: "deepEqual log_runtime w (VNum ''1'') (VNum ''1'')" for w
    by (simp add: log_runtime_def deepEqual_def deep_equal.simps)
  have a: "assertCaseResult plain_env log_runtime answer_case answered (Some unknown_status) echo_codec plain_config = Inr ()"
    using m d e
    by (simp add: assertCaseResult_def assertSuccessfulCaseResult_def assertSuccessfulResponseMatch_def
        assertNormalizedResponseMatch_def compareNormalizedResponses_def assertSuccessMessageContains_def
        response_mode_defs witness_simps Let_def)
  have "tc_steps answer_case = [answer_step]" by (simp add: one_step_case_def)
  then show ?thesis by (simp only: runCase_def answer_run a option.map answered_simps)
qed

text \<open>\<open>go test\<close> without flags.\<close>

definition plain_testing :: "'w testing" where
  "plain_testing = \<lparr>tt_selects = (\<lambda>n. True), tt_failFast = False, tt_failedBefore = (\<lambda>w. False),
     tt_start = (\<lambda>n w. w), tt_failed = (\<lambda>w. False), tt_fail = (\<lambda>w. w)\<rparr>"

theorem green_suite_witness:
  "\<exists>u v. answer_body () answer_case u = Some (v, Returned (Inr ()))"
proof -
  let ?up = "\<lambda>w :: call_log. (w, Returned (Inr ()) :: unit result outcome)"
  let ?down = "\<lambda>(u :: unit) (w :: call_log). (w, Returned None :: err option outcome)"
  have s: "executeCasesWithRunner (runSequentialCase plain_testing (answer_body ())) plain_config [answer_case] [] =
      Some ([(VNum ''1'', None)], None)"
    using answer_case_runs
    by (simp add: executeCasesWithRunner_def runSequentialCase_def buildCaseExecutionError_def tRun_def plain_testing_def caseErrOf_def)
  have "executeCases counting_semaphore 0 counting_group (0, None) False plain_testing (answer_body ()) plain_config
      [answer_case] [] [(VNum ''1'', None)] None"
    by (rule executeCases.sequential [OF _ refl])
       (use s in \<open>simp_all add: plain_config_def selectResponseDumpCase_def\<close>)
  then have "runCases counting_semaphore 0 counting_group (0, None) False plain_testing (\<lambda>_ w. w) (\<lambda>_. [])
      ?up ?down answer_body plain_config [answer_case] []
      (reportSuiteError (\<lambda>_ w. w) (\<lambda>_. []) (withSuiteLifecycle ?up ?down
         (\<lambda>_ _. ([(VNum ''1'', None)], Returned None)) []))"
    by (rule runCases.executed [rotated]) simp
  then have r: "runCases counting_semaphore 0 counting_group (0, None) False plain_testing (\<lambda>_ w. w) (\<lambda>_. [])
      ?up ?down answer_body plain_config [answer_case] [] ([(VNum ''1'', None)], Returned ())"
    by (simp add: reportSuiteError_def withSuiteLifecycle_def)
  have w: "eg_wait (counting_group (effectiveParallelismLimit plain_config)) (0, None) = None"
    by (simp add: counting_group_def)
  have "answer_body () answer_case u \<noteq> Some (v, Exited)" for u v by auto
  then show ?thesis
    using green_suite [OF r counting_semaphore refl counting_group _ w, of answer_case]
    by (auto simp: plain_config_def selectResponseDumpCase_def plain_testing_def)
qed

end
