(* ===== verification/GoCalendar.thy ===== *)
theory GoCalendar
  imports GoTime
begin

text \<open>
  The calendar of package \<open>time\<close> reads back: the date computed from a day number is a date of the
  calendar, and its day number is that number.  Then the layouts of \<open>time.Time.Format\<close> the
  repository uses, and the parser applied to what they write.
\<close>

section \<open>Years within the period of 400 years\<close>

text \<open>The first day of a year that starts in March, counted within the period.\<close>

definition year_start :: "int \<Rightarrow> int" where
  "year_start y = 365 * y + y div 4 - y div 100"

definition year_of :: "int \<Rightarrow> int" where
  "year_of doe = (doe - doe div 1460 + doe div 36524 - doe div 146096) div 365"

lemma year_of_starts:
  "list_all (\<lambda>y. year_of (year_start y) = y \<and> year_of (year_start (y + 1) - 1) = y) [0..398]"
  by code_simp

lemma year_of_last: "year_of (year_start 399) = 399" "year_of 146096 = 399" "year_of 0 = 0"
  by code_simp+

lemma year_of_step:
  assumes "0 \<le> x" "x < 146096"
  shows "year_of x \<le> year_of (x + 1)"
proof -
  let ?h = "\<lambda>x :: int. x - x div 1460 + x div 36524 - x div 146096"
  have a: "(x + 1) div 36524 \<ge> x div 36524" "x div 146096 = 0" by (simp_all add: assms zdiv_mono1)
  have b: "(x + 1) div 1460 \<le> x div 1460 + 1" by linarith
  have "?h x \<le> ?h (x + 1)"
  proof (cases "x = 146095")
    case False
    then have "(x + 1) div 146096 = 0" using assms by simp
    then show ?thesis using a b by linarith
  qed simp
  then show ?thesis unfolding year_of_def by (rule zdiv_mono1) simp
qed

lemma year_of_mono:
  assumes "0 \<le> x" "x \<le> y" "y \<le> 146096"
  shows "year_of x \<le> year_of y"
  using assms(2,3)
proof (induction y rule: int_ge_induct)
  case (step y)
  then show ?case using year_of_step [of y] assms(1) by linarith
qed simp

lemma year_of_bounds:
  assumes "0 \<le> doe" "doe < 146097"
  shows "0 \<le> year_of doe \<and> year_of doe \<le> 399 \<and> year_start (year_of doe) \<le> doe \<and>
    doe < (if year_of doe = 399 then 146097 else year_start (year_of doe + 1))"
proof -
  let ?y = "year_of doe"
  have r: "0 \<le> ?y" "?y \<le> 399"
    using year_of_mono [of 0 doe] year_of_mono [of doe 146096] assms year_of_last by simp_all
  have at: "year_of (year_start y) = y \<and> year_of (year_start (y + 1) - 1) = y" if "0 \<le> y" "y \<le> 398" for y
    using year_of_starts that by (simp add: list_all_iff)
  have pos: "0 \<le> year_start y" if "0 \<le> y" for y
    using that by (simp add: year_start_def)
  have low: "year_start ?y \<le> doe"
  proof (rule ccontr)
    assume c: "\<not> year_start ?y \<le> doe"
    then have "?y \<noteq> 0" using assms by (auto simp: year_start_def)
    then have y: "0 \<le> ?y - 1" "?y - 1 \<le> 398" using r by simp_all
    have s: "year_start ?y - 1 \<le> 146096" using r by (simp add: year_start_def)
    have "?y \<le> year_of (year_start ?y - 1)"
      by (rule year_of_mono) (use c assms s in simp_all)
    then show False using at [OF y] by simp
  qed
  have high: "doe < year_start (?y + 1)" if "?y \<noteq> 399"
  proof (rule ccontr)
    assume c: "\<not> doe < year_start (?y + 1)"
    have "year_of (year_start (?y + 1)) \<le> ?y"
      by (rule year_of_mono) (use c assms pos [of "?y + 1"] r in simp_all)
    moreover have "year_of (year_start (?y + 1)) = ?y + 1"
      using at [of "?y + 1"] r that year_of_last(1) by (cases "?y + 1 = 399") auto
    ultimately show False by simp
  qed
  show ?thesis using r low high assms by simp
qed

section \<open>Days within a year\<close>

definition month_of :: "int \<Rightarrow> int" where
  "month_of doy = (5 * doy + 2) div 153"

definition day_of :: "int \<Rightarrow> int" where
  "day_of doy = doy - (153 * month_of doy + 2) div 5 + 1"

definition civil_month :: "int \<Rightarrow> int" where
  "civil_month mp = (if mp < 10 then mp + 3 else mp - 9)"

lemma months_of_year:
  "list_all (\<lambda>doy. let mp = month_of doy; d = day_of doy; m = civil_month mp in
     0 \<le> mp \<and> mp \<le> 11 \<and> 1 \<le> m \<and> m \<le> 12 \<and> (m \<le> 2 \<longleftrightarrow> 10 \<le> mp) \<and> 1 \<le> d \<and>
     (d \<le> (if m = 2 then 28 else days_in m 1) \<or> m = 2 \<and> d = 29 \<and> doy = 365)) [0..365]"
  by code_simp

lemma month_day:
  assumes "0 \<le> doy" "doy \<le> 365"
  shows "0 \<le> month_of doy \<and> month_of doy \<le> 11 \<and> 1 \<le> civil_month (month_of doy) \<and> civil_month (month_of doy) \<le> 12 \<and>
    (civil_month (month_of doy) \<le> 2 \<longleftrightarrow> 10 \<le> month_of doy) \<and> 1 \<le> day_of doy \<and>
    (day_of doy \<le> (if civil_month (month_of doy) = 2 then 28 else days_in (civil_month (month_of doy)) 1) \<or>
     civil_month (month_of doy) = 2 \<and> day_of doy = 29 \<and> doy = 365)"
  using months_of_year assms by (simp add: list_all_iff Let_def)

section \<open>The calendar reads back\<close>

lemma civil_from_days_eq:
  "civil_from_days n =
     (let z = n + 719468; doe = z mod 146097; yoe = year_of doe; doy = doe - year_start yoe;
          m = civil_month (month_of doy); y = yoe + z div 146097 * 400
      in (if m \<le> 2 then y + 1 else y, m, day_of doy))"
  by (simp only: civil_from_days_def Let_def year_of_def year_start_def month_of_def day_of_def civil_month_def)

lemma year_length:
  "year_start (y + 1) - year_start y = (if (y + 1) mod 4 = 0 \<and> (y + 1) mod 100 \<noteq> 0 then 366 else 365)"
proof -
  have step: "(y + 1) div k - y div k = (if (y + 1) mod k = 0 then 1 else 0)" if "0 < k" for k :: int
  proof (cases "y mod k + 1 = k")
    case True
    have "y + 1 = k * (y div k) + (y mod k + 1)" by simp
    then have "y + 1 = k * (y div k + 1)" unfolding True by (simp only: distrib_left mult_1_right)
    then obtain q where "y + 1 = k * (q + 1)" "q = y div k" by blast
    then have "(y + 1) div k = y div k + 1" "(y + 1) mod k = 0" using that by (metis less_irrefl nonzero_mult_div_cancel_left, simp)
    then show ?thesis by simp
  next
    case False
    have "0 \<le> y mod k" "y mod k < k" using that by simp_all
    then have l: "0 \<le> y mod k + 1" "y mod k + 1 < k" "y mod k + 1 \<noteq> 0" using False by linarith+
    have e: "y + 1 = k * (y div k) + (y mod k + 1)" by simp
    have "(y + 1) div k = y div k" by (rule int_div_pos_eq [OF e l(1,2)])
    moreover have "(y + 1) mod k = y mod k + 1" by (rule int_mod_pos_eq [OF e l(1,2)])
    ultimately show ?thesis using l(3) by (simp only: if_False diff_self)
  qed
  have "(y + 1) mod 4 = 0" if "(y + 1) mod 100 = 0"
    using mod_mod_cancel [of 4 100 "y + 1"] that by simp
  moreover have "year_start (y + 1) - year_start y =
      365 + ((y + 1) div 4 - y div 4) - ((y + 1) div 100 - y div 100)"
    by (simp add: year_start_def)
  moreover have "(y + 1) div 4 - y div 4 = (if (y + 1) mod 4 = 0 then 1 else 0)" by (rule step) simp
  moreover have "(y + 1) div 100 - y div 100 = (if (y + 1) mod 100 = 0 then 1 else 0)" by (rule step) simp
  ultimately show ?thesis by (cases "(y + 1) mod 4 = 0"; cases "(y + 1) mod 100 = 0") (simp_all only: if_True if_False, simp_all)
qed

lemma leap_year:
  assumes "(y + 1) mod 4 = 0 \<and> ((y + 1) mod 100 \<noteq> 0 \<or> y = 399)"
  shows "is_leap (y + era * 400 + 1)"
proof -
  have "(y + era * 400 + 1) mod k = (y + 1) mod k" if "k dvd 400" for k :: int
  proof -
    have "y + era * 400 + 1 = (y + 1) + era * (400 div k) * k" using that by simp
    then show ?thesis by (simp only: mod_mult_self1)
  qed
  from this [of 4] this [of 100] this [of 400] show ?thesis using assms by (auto simp: is_leap_def)
qed

lemma civil_correct:
  assumes "civil_from_days n = (y, m, d)"
  shows "days_from_civil y m d = n \<and> 1 \<le> m \<and> m \<le> 12 \<and> 1 \<le> d \<and> d \<le> days_in m y"
proof -
  define z where "z = n + 719468"
  define doe where "doe = z mod 146097"
  define era where "era = z div 146097"
  define yoe where "yoe = year_of doe"
  define doy where "doy = doe - year_start yoe"
  define mp where "mp = month_of doy"
  have doe: "0 \<le> doe" "doe < 146097" by (simp_all add: doe_def)
  note yb = year_of_bounds [OF doe, folded yoe_def]
  have step: "year_start (yoe + 1) - year_start yoe = (if (yoe + 1) mod 4 = 0 \<and> (yoe + 1) mod 100 \<noteq> 0 then 366 else 365)"
    by (rule year_length) 
  have s399: "year_start 399 = 145731" by (simp add: year_start_def)
  have doy: "0 \<le> doy" "doy \<le> 365" and leap: "doy = 365 \<Longrightarrow> (yoe + 1) mod 4 = 0 \<and> ((yoe + 1) mod 100 \<noteq> 0 \<or> yoe = 399)"
    unfolding doy_def using yb step s399 by (cases "yoe = 399"; simp split: if_splits)+
  note md = month_day [OF doy, folded mp_def]
  have eq: "m = civil_month mp" "d = day_of doy" "y = (if m \<le> 2 then yoe + era * 400 + 1 else yoe + era * 400)"
    using assms by (auto simp: civil_from_days_eq Let_def z_def doe_def era_def yoe_def doy_def mp_def)
  have yoe: "(yoe + era * 400) mod 400 = yoe" "(yoe + era * 400) div 400 = era" using yb by auto
  have y': "(if m \<le> 2 then y - 1 else y) = yoe + era * 400" using eq(3) by simp
  have m': "(if m \<le> 2 then m + 9 else m - 3) = mp" using eq(1) md by (auto simp: civil_month_def split: if_splits)
  have "days_from_civil y m d = era * 146097 + (year_start yoe + ((153 * mp + 2) div 5 + d - 1)) - 719468"
    unfolding days_from_civil_def y' m' Let_def yoe year_start_def by simp
  also have "(153 * mp + 2) div 5 + d - 1 = doy" using eq(2) by (simp add: day_of_def mp_def)
  also have "era * 146097 + (year_start yoe + doy) - 719468 = n"
    by (simp add: doy_def era_def doe_def z_def)
  finally have n: "days_from_civil y m d = n" .
  have "d \<le> days_in m y"
  proof (cases "m = 2 \<and> d = 29 \<and> doy = 365")
    case True
    from True have "is_leap (yoe + era * 400 + 1)" by (intro leap_year leap) simp
    then show ?thesis using True eq(3) by (simp add: days_in_def)
  next
    case False
    then have "d \<le> (if m = 2 then 28 else days_in m 1)" using md eq(1,2) by auto
    then show ?thesis by (auto simp: days_in_def split: if_splits)
  qed
  then show ?thesis using n md eq(1,2) by simp
qed

text \<open>The years of the day numbers from 0000-03-01 for 9600 years have at most four digits.\<close>

lemma civil_year_range:
  assumes "civil_from_days n = (y, m, d)" "- 719468 \<le> n" "n < 2786860"
  shows "0 \<le> y \<and> y \<le> 9999"
proof -
  define z where "z = n + 719468"
  have z: "0 \<le> z" "z < 24 * 146097" using assms(2,3) by (simp_all add: z_def)
  have era: "0 \<le> z div 146097" "z div 146097 < 24" using z by linarith+
  have "0 \<le> year_of (z mod 146097) \<and> year_of (z mod 146097) \<le> 399"
    using year_of_bounds [of "z mod 146097"] by simp
  then show ?thesis
    using assms(1) era by (auto simp: civil_from_days_eq Let_def z_def split: if_splits)
qed

section \<open>Layouts\<close>

text \<open>\<open>appendInt\<close>: the decimal form, padded with zeros to a width.\<close>

definition append_int :: "nat \<Rightarrow> int \<Rightarrow> string" where
  "append_int w n =
     (let ds = nat_digits (nat \<bar>n\<bar>)
      in (if n < 0 then ''-'' else []) @ replicate (w - length ds) (CHR ''0'') @ ds)"

text \<open>A \<open>time.Time\<close>: nanoseconds since the epoch and the offset of its location in seconds.\<close>

record gotime =
  gt_nanos :: int
  gt_offset :: int

definition local_seconds :: "gotime \<Rightarrow> int" where
  "local_seconds t = gt_nanos t div nanos + gt_offset t"

definition format_day :: "int \<Rightarrow> string" where
  "format_day n =
     (case civil_from_days n of (y, m, d) \<Rightarrow> append_int 4 y @ ''-'' @ append_int 2 m @ ''-'' @ append_int 2 d)"

definition format_clock :: "int \<Rightarrow> string" where
  "format_clock s = append_int 2 (s div 3600) @ '':'' @ append_int 2 (s mod 3600 div 60) @ '':'' @ append_int 2 (s mod 60)"

text \<open>\<open>-07:00\<close>; the offset is divided as Go divides, towards zero.\<close>

definition format_offset :: "int \<Rightarrow> string" where
  "format_offset off =
     (let zone = \<bar>off\<bar> div 60
      in (if off < 0 \<and> zone \<noteq> 0 then ''-'' else ''+'') @ append_int 2 (zone div 60) @ '':'' @ append_int 2 (zone mod 60))"

definition format_date_only :: "gotime \<Rightarrow> string" where
  "format_date_only t = format_day (local_seconds t div 86400)"

text \<open>\<open>2006-01-02 15:04:05-07:00\<close>.\<close>

definition format_timestamp :: "gotime \<Rightarrow> string" where
  "format_timestamp t =
     format_day (local_seconds t div 86400) @ '' '' @ format_clock (local_seconds t mod 86400) @ format_offset (gt_offset t)"

text \<open>\<open>time.RFC3339\<close>, whose \<open>Z07:00\<close> writes \<open>Z\<close> for the offset zero.\<close>

definition format_rfc3339 :: "gotime \<Rightarrow> string" where
  "format_rfc3339 t =
     format_day (local_seconds t div 86400) @ ''T'' @ format_clock (local_seconds t mod 86400) @
       (if gt_offset t = 0 then ''Z'' else format_offset (gt_offset t))"

lemma format_examples:
  "format_rfc3339 \<lparr>gt_nanos = 0, gt_offset = 0\<rparr> = ''1970-01-01T00:00:00Z''"
  "format_timestamp \<lparr>gt_nanos = 0, gt_offset = - 9000\<rparr> = ''1969-12-31 21:30:00-02:30''"
  by code_simp+

section \<open>Numbers of a fixed width\<close>

definition zero_padded :: "nat \<Rightarrow> nat \<Rightarrow> string" where
  "zero_padded w n = replicate (w - length (nat_digits n)) (CHR ''0'') @ nat_digits n"

lemma append_int_padded: "0 \<le> n \<Longrightarrow> append_int w n = zero_padded w (nat n)"
  by (simp add: append_int_def zero_padded_def Let_def)

declare nat_digits.simps [simp del]

lemma digit_char:
  assumes "n < 10"
  shows "is_digit (char_of (48 + n)) \<and> digit_val (char_of (48 + n)) = int n"
proof -
  have "of_char (char_of (48 + n) :: char) = (48 + n :: nat)" using assms by simp
  then show ?thesis using assms by (simp add: is_digit_def digit_val_def)
qed

lemma zero_padded_1: "n < 10 \<Longrightarrow> zero_padded 1 n = [char_of (48 + n)]"
  by (simp add: zero_padded_def nat_digits.simps)

lemma zero_char: "char_of (48 :: nat) = CHR ''0''"
  by code_simp

lemma zero_padded_Suc:
  assumes "0 < w"
  shows "zero_padded (Suc w) n = zero_padded w (n div 10) @ [char_of (48 + n mod 10)]"
proof (cases "n < 10")
  case True
  have "replicate w (CHR ''0'') = replicate (w - 1) (CHR ''0'') @ [CHR ''0'']"
    using assms by (metis Suc_diff_1 replicate_append_same replicate_Suc)
  then show ?thesis using True by (simp add: zero_padded_def nat_digits.simps [of n] nat_digits.simps [of 0] zero_char)
next
  case False
  then show ?thesis by (simp add: zero_padded_def nat_digits.simps [of n])
qed

lemma digits_val_snoc [simp]: "digits_val (s @ [c]) = 10 * digits_val s + digit_val c"
  by (simp add: digits_val_def)

lemma zero_padded:
  assumes "0 < w" "n < 10 ^ w"
  shows "list_all is_digit (zero_padded w n) \<and> length (zero_padded w n) = w \<and> digits_val (zero_padded w n) = int n"
  using assms
proof (induction w arbitrary: n rule: nat_induct_non_zero)
  case 1
  then show ?case using digit_char [of n] zero_padded_1 [of n] by (simp add: digits_val_def)
next
  case (Suc w)
  have "n div 10 < 10 ^ w" using Suc.prems by (simp add: less_mult_imp_div_less mult.commute)
  then have "list_all is_digit (zero_padded w (n div 10)) \<and> length (zero_padded w (n div 10)) = w \<and>
      digits_val (zero_padded w (n div 10)) = int (n div 10)" by (rule Suc.IH)
  moreover have "10 * int (n div 10) + int (n mod 10) = int n"
    by (metis of_nat_add of_nat_mult of_nat_numeral mult_div_mod_eq)
  ultimately show ?case using digit_char [of "n mod 10"] Suc.hyps by (simp add: zero_padded_Suc)
qed

lemma getnum_append_int:
  assumes "0 \<le> n" "n < 100"
  shows "getnum b (append_int 2 n @ s) = Some (n, s)"
proof -
  have z: "list_all is_digit (zero_padded 2 (nat n)) \<and> length (zero_padded 2 (nat n)) = 2 \<and>
      digits_val (zero_padded 2 (nat n)) = int (nat n)"
    by (rule zero_padded) (use assms in simp_all)
  then obtain c d where cd: "zero_padded 2 (nat n) = [c, d]"
    by (auto simp: numeral_2_eq_2 length_Suc_conv)
  then show ?thesis using z assms by (simp add: append_int_padded getnum_def digits_val_def)
qed

lemma get_year_append_int:
  assumes "0 \<le> n" "n < 10000"
  shows "get_year (append_int 4 n @ s) = Some (n, s)"
  using zero_padded [of 4 "nat n"] assms by (simp add: append_int_padded get_year_def)

lemma length_append_int:
  assumes "0 \<le> n" "n < 100"
  shows "length (append_int 2 n) = 2"
  using zero_padded [of 2 "nat n"] assms by (simp add: append_int_padded)

section \<open>The parser reads back what the layout writes\<close>

lemma skip_char_Cons [simp]: "skip_char c (c # s) = Some s"
  by (simp add: skip_char_def)

lemma in_range_Some: "lo \<le> n \<Longrightarrow> n \<le> hi \<Longrightarrow> in_range lo hi (Some (n, s)) = Some (n, s)"
  by (simp add: in_range_def)

lemma get_fraction_zone:
  assumes "hd s \<noteq> CHR ''.''" "hd s \<noteq> CHR '',''"
  shows "get_fraction s = (0, s)"
  using assms by (auto simp: get_fraction_def split: list.splits)

lemma get_zone_digits:
  assumes "0 \<le> h" "h \<le> 24" "0 \<le> mi" "mi \<le> 60"
  shows "get_zone (CHR ''+'' # append_int 2 h @ CHR '':'' # append_int 2 mi) = Some ((h * 60 + mi) * 60, [])"
    and "get_zone (CHR ''-'' # append_int 2 h @ CHR '':'' # append_int 2 mi) = Some (- ((h * 60 + mi) * 60), [])"
proof -
  obtain h1 h2 where h: "append_int 2 h = [h1, h2]"
    using length_append_int [of h] assms by (auto simp: numeral_2_eq_2 length_Suc_conv)
  obtain m1 m2 where m: "append_int 2 mi = [m1, m2]"
    using length_append_int [of mi] assms by (auto simp: numeral_2_eq_2 length_Suc_conv)
  have "getnum True [h1, h2] = Some (h, [])" "getnum True [m1, m2] = Some (mi, [])"
    using getnum_append_int [of h True "[]"] getnum_append_int [of mi True "[]"] assms h m by simp_all
  then show "get_zone (CHR ''+'' # append_int 2 h @ CHR '':'' # append_int 2 mi) = Some ((h * 60 + mi) * 60, [])"
    "get_zone (CHR ''-'' # append_int 2 h @ CHR '':'' # append_int 2 mi) = Some (- ((h * 60 + mi) * 60), [])"
    using assms by (simp_all add: get_zone_def h m in_range_Some)
qed

lemma get_zone_offset:
  assumes "off mod 60 = 0" "\<bar>off\<bar> \<le> 86400"
  shows "get_zone (format_offset off) = Some (off, [])"
proof -
  define z where "z = \<bar>off\<bar> div 60"
  have "\<bar>off\<bar> mod 60 = 0" using assms(1) by (simp add: abs_if zmod_zminus1_eq_if)
  then have abs: "z * 60 = \<bar>off\<bar>" unfolding z_def by auto
  have b: "0 \<le> z div 60" "z div 60 \<le> 24" "0 \<le> z mod 60" "z mod 60 \<le> 60" using abs assms(2) by simp_all
  have "z div 60 * 60 + z mod 60 = z" by simp
  then have g: "get_zone (CHR ''+'' # append_int 2 (z div 60) @ CHR '':'' # append_int 2 (z mod 60)) = Some (z * 60, [])"
    "get_zone (CHR ''-'' # append_int 2 (z div 60) @ CHR '':'' # append_int 2 (z mod 60)) = Some (- (z * 60), [])"
    using get_zone_digits [OF b] by simp_all
  show ?thesis
  proof (cases "off < 0 \<and> z \<noteq> 0")
    case True
    moreover have "format_offset off = CHR ''-'' # append_int 2 (z div 60) @ CHR '':'' # append_int 2 (z mod 60)"
      unfolding format_offset_def Let_def z_def [symmetric] using True by simp
    ultimately show ?thesis using g(2) abs by simp
  next
    case False
    then have "z * 60 = off" using abs by (cases "off < 0") simp_all
    moreover have "format_offset off = CHR ''+'' # append_int 2 (z div 60) @ CHR '':'' # append_int 2 (z mod 60)"
      unfolding format_offset_def Let_def z_def [symmetric] using False by simp
    ultimately show ?thesis using g(1) by simp
  qed
qed

theorem parse_format_rfc3339:
  assumes "civil_from_days (local_seconds t div 86400) = (y, m, d)" "0 \<le> y" "y \<le> 9999"
    and "gt_offset t mod 60 = 0" "\<bar>gt_offset t\<bar> \<le> 86400"
  shows "parse_rfc3339 (format_rfc3339 t) = Some (gt_nanos t div nanos * nanos)"
proof -
  define n where "n = local_seconds t div 86400"
  define c where "c = local_seconds t mod 86400"
  define zone where "zone = (if gt_offset t = 0 then ''Z'' else format_offset (gt_offset t))"
  have civil: "days_from_civil y m d = n" "1 \<le> m" "m \<le> 12" "1 \<le> d" "d \<le> days_in m y"
    using civil_correct [OF assms(1)] by (simp_all add: n_def)
  have "days_in m y \<le> 31" by (simp add: days_in_def)
  then have d: "0 \<le> d" "d < 100" "0 \<le> m" "m < 100" using civil by simp_all
  have c: "0 \<le> c" "c < 86400" by (simp_all add: c_def)
  then have clock: "0 \<le> c div 3600" "c div 3600 \<le> 23" "0 \<le> c mod 3600 div 60" "c mod 3600 div 60 \<le> 59"
    "0 \<le> c mod 60" "c mod 60 \<le> 59" by simp_all
  have "hd (format_offset (gt_offset t)) \<in> {CHR ''+'', CHR ''-''}" by (simp add: format_offset_def Let_def)
  then have z: "get_fraction zone = (0, zone)" "get_zone zone = Some (gt_offset t, [])"
    using get_zone_offset [OF assms(4,5)]
    by (cases "gt_offset t = 0"; auto simp: zone_def get_fraction_zone get_zone_def [of "''Z''"])+
  have sum: "n * 86400 + c div 3600 * 3600 + c mod 3600 div 60 * 60 + c mod 60 - gt_offset t = gt_nanos t div nanos"
  proof -
    have "c mod 60 = c mod 3600 mod 60" by (simp add: mod_mod_cancel)
    then have "c div 3600 * 3600 + c mod 3600 div 60 * 60 + c mod 60 = c"
      by (metis add.assoc div_mult_mod_eq)
    moreover have "n * 86400 + c = local_seconds t" by (simp add: n_def c_def)
    ultimately show ?thesis by (simp add: local_seconds_def)
  qed
  have "format_rfc3339 t = append_int 4 y @ CHR ''-'' # append_int 2 m @ CHR ''-'' # append_int 2 d @ CHR ''T'' #
      append_int 2 (c div 3600) @ CHR '':'' # append_int 2 (c mod 3600 div 60) @ CHR '':'' # append_int 2 (c mod 60) @ zone"
    using assms(1) by (simp add: format_rfc3339_def format_day_def format_clock_def n_def c_def zone_def)
  then show ?thesis
    using assms(2,3) civil d clock sum
    by (simp add: parse_rfc3339_def get_year_append_int getnum_append_int in_range_Some z instant_def)
qed

section \<open>Dates\<close>

lemma zero_padded_digits:
  "list_all is_digit s \<Longrightarrow> s \<noteq> [] \<Longrightarrow> zero_padded (length s) (nat (digits_val s)) = s \<and> 0 \<le> digits_val s"
proof (induction s rule: rev_induct)
  case (snoc c s)
  have c: "is_digit c" using snoc.prems(1) by simp
  have v: "0 \<le> digit_val c" "digit_val c < 10" "char_of (48 + nat (digit_val c)) = c"
  proof -
    define k where "k = of_char c - (48 :: nat)"
    have k: "of_char c = 48 + k" "k < 10" using c by (auto simp: is_digit_def k_def)
    have "char_of (of_char c :: nat) = c" by simp
    then show "0 \<le> digit_val c" "digit_val c < 10" "char_of (48 + nat (digit_val c)) = c"
      using k by (simp_all add: digit_val_def)
  qed
  show ?case
  proof (cases "s = []")
    case True
    then show ?thesis using v zero_padded_1 [of "nat (digit_val c)"] by (simp add: digits_val_def)
  next
    case False
    then have IH: "zero_padded (length s) (nat (digits_val s)) = s" "0 \<le> digits_val s" using snoc by simp_all
    have "nat (10 * digits_val s + digit_val c) = 10 * nat (digits_val s) + nat (digit_val c)"
      using IH(2) v(1) by (simp add: nat_add_distrib nat_mult_distrib)
    then have "nat (digits_val (s @ [c])) div 10 = nat (digits_val s)" "nat (digits_val (s @ [c])) mod 10 = nat (digit_val c)"
      using v by simp_all
    then show ?thesis using False IH v zero_padded_Suc [of "length s" "nat (digits_val (s @ [c]))"] by simp
  qed
qed simp

lemma get_year_Some:
  assumes "get_year s = Some (y, r)"
  shows "s = append_int 4 y @ r \<and> 0 \<le> y \<and> y \<le> 9999"
proof -
  have d: "4 \<le> length s" "list_all is_digit (take 4 s)" "y = digits_val (take 4 s)" "r = drop 4 s"
    using assms by (auto simp: get_year_def split: if_splits)
  then have ne: "take 4 s \<noteq> []" by (cases s) auto
  have z: "zero_padded 4 (nat y) = take 4 s" "0 \<le> y" using zero_padded_digits [OF d(2) ne] d by simp_all
  have "nat y < 10 ^ 4"
  proof (rule ccontr)
    assume "\<not> nat y < 10 ^ 4"
    then have "10000 \<le> y" by simp
    moreover have "y < 10000"
    proof -
      obtain a b c e where t: "take 4 s = [a, b, c, e]"
        using d(1) by (cases s; cases "tl s"; cases "tl (tl s)"; cases "tl (tl (tl s))") auto
      then show ?thesis using d(2,3) by (auto simp: digits_val_def digit_val_def is_digit_def)
    qed
    ultimately show False by simp
  qed
  then show ?thesis using z d by (simp add: append_int_padded)
qed

lemma getnum_Some:
  assumes "getnum True s = Some (n, r)"
  shows "s = append_int 2 n @ r \<and> 0 \<le> n \<and> n < 100"
proof -
  obtain a b where ab: "s = a # b # r" "is_digit a" "is_digit b" "n = 10 * digit_val a + digit_val b"
    using assms by (auto simp: getnum_def split: list.splits if_splits)
  have "zero_padded 2 (nat n) = [a, b] \<and> 0 \<le> n"
    using zero_padded_digits [of "[a, b]"] ab by (simp add: digits_val_def numeral_2_eq_2)
  moreover have "n < 100" using ab by (simp add: digit_val_def is_digit_def)
  ultimately show ?thesis using ab(1) by (simp add: append_int_padded)
qed

lemma skip_char_Some: "skip_char c s = Some r \<longleftrightarrow> s = c # r"
  by (cases s) (auto simp: skip_char_def)

lemma in_range_iff: "in_range lo hi x = Some (n, s) \<longleftrightarrow> x = Some (n, s) \<and> lo \<le> n \<and> n \<le> hi"
  by (auto simp: in_range_def split: option.splits)

text \<open>The date parser accepts exactly the texts of calendar dates.\<close>

lemma parse_date_only_iff:
  "parse_date_only s = Some (y, m, d) \<longleftrightarrow>
     0 \<le> y \<and> y \<le> 9999 \<and> 1 \<le> m \<and> m \<le> 12 \<and> 1 \<le> d \<and> d \<le> days_in m y \<and>
     s = append_int 4 y @ ''-'' @ append_int 2 m @ ''-'' @ append_int 2 d" (is "?l \<longleftrightarrow> ?r")
proof
  assume ?l
  then obtain s1 s2 s3 s4 where p: "get_year s = Some (y, s1)" "s1 = CHR ''-'' # s2" "getnum True s2 = Some (m, s3)"
    "s3 = CHR ''-'' # s4" "getnum True s4 = Some (d, [])" "1 \<le> m" "m \<le> 12" "1 \<le> d" "d \<le> days_in m y"
    by (auto simp: parse_date_only_def bind_eq_Some_conv skip_char_Some in_range_iff split: if_splits)
  then show ?r using get_year_Some [OF p(1)] getnum_Some [OF p(3)] getnum_Some [OF p(5)] by simp
next
  assume r: ?r
  have "days_in m y \<le> 31" by (simp add: days_in_def)
  then have "0 \<le> d" "d < 100" "0 \<le> m" "m < 100" using r by simp_all
  then show ?l
    using r getnum_append_int [of d True "[]"]
    by (simp add: parse_date_only_def get_year_append_int getnum_append_int in_range_Some)
qed

text \<open>A formatted day is parsed as the date of that day.\<close>

lemma parse_format_day:
  assumes "- 719468 \<le> n" "n < 2786860"
  shows "\<exists>y m d. parse_date_only (format_day n) = Some (y, m, d) \<and> days_from_civil y m d = n"
proof -
  obtain y m d where c: "civil_from_days n = (y, m, d)" by (metis prod.exhaust)
  from civil_correct [OF c] civil_year_range [OF c assms] c show ?thesis
    by (auto simp: parse_date_only_iff format_day_def)
qed

end
