(* ===== verification/TestCalendar.thy ===== *)
theory TestCalendar
  imports GoCalendar Loader
begin

text \<open>
  The test calendar (\<open>testcalendar/calendar.go\<close>): macros such as \<open><test_timestamp-1d@-05:00>\<close> in
  the strings of a case file become dates around a fixed point in time.  The package \<open>hujson\<close> is a
  parameter: its syntax trees are the type \<open>hujson\<close>, its functions the record \<open>hujson_lib\<close>.
\<close>

section \<open>Macros\<close>

datatype macroKind = MacroKindDate | MacroKindTimestamp | MacroKindRFC3339Timestamp

text \<open>\<^const>\<open>None\<close> is the nil location; a location is the offset of a fixed zone in seconds.\<close>

record macroToken =
  mt_kind :: macroKind
  mt_offset :: int
  mt_location :: "int option"

definition dateMacroPrefix :: string where "dateMacroPrefix = ''test_date''"
definition timestampMacroPrefix :: string where "timestampMacroPrefix = ''test_timestamp''"
definition rfc3339TimestampMacroPrefix :: string where "rfc3339TimestampMacroPrefix = ''test_rfc3339_timestamp''"
definition dollarDateKey :: string where "dollarDateKey = ''$date''"

definition offsetRankDays :: nat where "offsetRankDays = 0"
definition offsetRankHours :: nat where "offsetRankHours = 1"
definition offsetRankMinutes :: nat where "offsetRankMinutes = 2"

lemmas calendar_consts = dateMacroPrefix_def timestampMacroPrefix_def rfc3339TimestampMacroPrefix_def
  dollarDateKey_def offsetRankDays_def offsetRankHours_def offsetRankMinutes_def

definition macroKindSupportsTimeOffset :: "macroKind \<Rightarrow> bool" where
  "macroKindSupportsTimeOffset kind \<longleftrightarrow> kind = MacroKindTimestamp \<or> kind = MacroKindRFC3339Timestamp"

text \<open>Durations are nanoseconds in 64 bits.\<close>

definition offsetUnitSpec :: "macroKind \<Rightarrow> char \<Rightarrow> string \<Rightarrow> (nat \<times> int) result" where
  "offsetUnitSpec kind unit offset =
     (if unit = CHR ''d'' then Inr (offsetRankDays, 24 * 3600 * nanos)
      else if unit = CHR ''h'' then
        if \<not> macroKindSupportsTimeOffset kind then Inl (Errorf ''hours are not supported in %q'' [AStr offset])
        else Inr (offsetRankHours, 3600 * nanos)
      else if unit = CHR ''m'' then
        if \<not> macroKindSupportsTimeOffset kind then Inl (Errorf ''minutes are not supported in %q'' [AStr offset])
        else Inr (offsetRankMinutes, 60 * nanos)
      else Inl (Errorf ''invalid offset unit in %q'' [AStr offset]))"

definition isUnit :: "char \<Rightarrow> bool" where
  "isUnit c \<longleftrightarrow> c \<in> {CHR ''d'', CHR ''h'', CHR ''m''}"

text \<open>The loop of \<open>parseOffset\<close>; the error of \<open>Atoi\<close> is a value of package \<open>strconv\<close>.\<close>

function offsetLoop :: "macroKind \<Rightarrow> string \<Rightarrow> string \<Rightarrow> bool list \<Rightarrow> int \<Rightarrow> int \<Rightarrow> int result" where
  "offsetLoop kind offset body seenRanks lastRank totalDuration =
     (if body = [] then Inr totalDuration
      else
        let amountText = takeWhile (\<lambda>c. \<not> isUnit c) body; rest = dropWhile (\<lambda>c. \<not> isUnit c) body in
        if rest = [] \<or> amountText = [] then Inl (Errorf ''invalid offset token in %q'' [AStr offset])
        else case atoi amountText of
          None \<Rightarrow> Inl (Opaque ''strconv.NumError'')
        | Some amount \<Rightarrow>
            (case offsetUnitSpec kind (hd rest) offset of
               Inl e \<Rightarrow> Inl e
             | Inr (rank, unitDuration) \<Rightarrow>
                 if seenRanks ! rank then
                   Inl (Errorf ''duplicate offset unit %q in %q'' [AStr [hd rest], AStr offset])
                 else if int rank < lastRank then
                   Inl (Errorf ''invalid offset unit order in %q'' [AStr offset])
                 else
                   offsetLoop kind offset (tl rest) (seenRanks[rank := True]) (int rank)
                     (wrap64 (totalDuration + wrap64 (amount * unitDuration)))))"
  by pat_completeness auto

termination offsetLoop
proof (relation "measure (\<lambda>(kind, offset, body, seenRanks, lastRank, totalDuration). length body)")
  fix body amountText rest
  assume "rest = dropWhile (\<lambda>c. \<not> isUnit c) body" "\<not> (rest = [] \<or> amountText = [])"
  then have "length (tl rest) < length rest" "length rest \<le> length body"
    by (simp_all add: length_dropWhile_le)
  then have "length (tl rest) < length body" by (rule less_le_trans)
  then show "((kind, offset, tl rest, s', l', t'), (kind, offset, body, s, l, t))
      \<in> measure (\<lambda>(kind, offset, body, seenRanks, lastRank, totalDuration). length body)"
    for kind :: macroKind and offset :: string and s s' :: "bool list" and l l' t t' :: int by simp
qed simp

declare offsetLoop.simps [simp del]

definition parseOffset :: "string \<Rightarrow> macroKind \<Rightarrow> int result" where
  "parseOffset offset kind =
     (case offset of
        [] \<Rightarrow> Inr 0
      | sign # body \<Rightarrow>
          if length offset < 3 then Inl (Errorf ''invalid offset %q'' [AStr offset])
          else if sign \<noteq> CHR ''+'' \<and> sign \<noteq> CHR ''-'' then Inl (Errorf ''invalid offset sign in %q'' [AStr offset])
          else if body = [] then Inl (Errorf ''invalid offset %q'' [AStr offset])
          else
            rbind (offsetLoop kind offset body [False, False, False] (- 1) 0) (\<lambda>totalDuration.
              Inr (if sign = CHR ''-'' then wrap64 (- totalDuration) else totalDuration)))"

definition parseFixedTimezone :: "string \<Rightarrow> int result" where
  "parseFixedTimezone raw =
     (let failed = Inl (Errorf ''invalid timezone offset %q'' [AStr raw]) in
      if length raw \<noteq> 6 then failed
      else if raw ! 3 \<noteq> CHR '':'' then failed
      else if raw ! 0 \<noteq> CHR ''+'' \<and> raw ! 0 \<noteq> CHR ''-'' then failed
      else case (atoi (take 2 (drop 1 raw)), atoi (take 2 (drop 4 raw))) of
        (Some hours, Some minutes) \<Rightarrow>
          if 24 \<le> hours \<or> 60 \<le> minutes then failed
          else
            let offsetSeconds = (hours * 60 + minutes) * 60 in
            Inr (if raw ! 0 = CHR ''-'' then - offsetSeconds else offsetSeconds)
      | _ \<Rightarrow> failed)"

definition parseMacroSuffix :: "string \<Rightarrow> (string \<times> int option) result" where
  "parseMacroSuffix suffixPart =
     (case split_on (CHR ''@'') suffixPart of
        [offsetPart] \<Rightarrow> Inr (offsetPart, None)
      | [offsetPart, zone] \<Rightarrow> rbind (parseFixedTimezone zone) (\<lambda>location. Inr (offsetPart, Some location))
      | _ \<Rightarrow> Inl (Errorf ''invalid timezone separator usage in %q'' [AStr suffixPart]))"

text \<open>
  The result of \<open>parseMacroToken\<close>: \<^const>\<open>None\<close> where the text is no macro.  The error is only
  returned together with \<open>isMacro\<close> set, so it needs no third component.
\<close>

definition macroTable :: "(string \<times> macroKind) list" where
  "macroTable = [(dateMacroPrefix, MacroKindDate), (timestampMacroPrefix, MacroKindTimestamp),
     (rfc3339TimestampMacroPrefix, MacroKindRFC3339Timestamp)]"

definition parseMacroToken :: "string \<Rightarrow> macroToken option result" where
  "parseMacroToken v =
     (if has_prefix v ''<test_'' \<and> \<not> has_suffix v ''>'' then Inl (Errorf ''invalid calendar macro %q'' [AStr v])
      else if \<not> has_prefix v ''<'' \<or> \<not> has_suffix v ''>'' then Inr None
      else
        let body = trim_suffix (trim_prefix v ''<'') ''>'' in
        case find (\<lambda>(name, _). has_prefix body name) macroTable of
          Some (name, kind) \<Rightarrow>
            rbind (parseMacroSuffix (trim_prefix body name)) (\<lambda>(offsetPart, location).
            rbind (parseOffset offsetPart kind) (\<lambda>offsetValue.
              Inr (Some \<lparr>mt_kind = kind, mt_offset = offsetValue, mt_location = location\<rparr>)))
        | None \<Rightarrow>
            if has_prefix body ''test_'' then Inl (Errorf ''unsupported calendar macro %q'' [AStr v]) else Inr None)"

section \<open>The calendar\<close>

text \<open>\<open>FixedNow\<close>: 2026-03-01 03:00:00 at UTC+6.\<close>

definition FixedNow :: gotime where
  "FixedNow = \<lparr>gt_nanos = instant (days_from_civil 2026 3 1) 3 0 0 0 21600, gt_offset = 21600\<rparr>"

record calendar =
  cal_now :: gotime

definition newCalendar :: calendar where
  "newCalendar = \<lparr>cal_now = FixedNow\<rparr>"

definition renderTime :: "calendar \<Rightarrow> macroToken \<Rightarrow> gotime" where
  "renderTime cal token =
     (let t = (cal_now cal)\<lparr>gt_nanos := gt_nanos (cal_now cal) + mt_offset token\<rparr>
      in case mt_location token of None \<Rightarrow> t | Some off \<Rightarrow> t\<lparr>gt_offset := off\<rparr>)"

text \<open>\<open>time.Date(y, m, d, 0, 0, 0, 0, time.UTC)\<close> of the local date.\<close>

definition local_midnight :: "gotime \<Rightarrow> gotime" where
  "local_midnight t = \<lparr>gt_nanos = local_seconds t div 86400 * 86400 * nanos, gt_offset = 0\<rparr>"

text \<open>\<^const>\<open>None\<close> where the string stays as it is.\<close>

definition resolveStringValue :: "calendar \<Rightarrow> string \<Rightarrow> string \<Rightarrow> string option result" where
  "resolveStringValue cal v key =
     rbind (parseMacroToken v) (\<lambda>r.
       case r of
         None \<Rightarrow> Inr None
       | Some token \<Rightarrow>
           let t = renderTime cal token;
               unsupported = Inl (Errorf ''macro %q is not supported inside %s'' [AStr v, AStr dollarDateKey])
           in case mt_kind token of
                MacroKindDate \<Rightarrow>
                  Inr (Some (if key = dollarDateKey then format_rfc3339 (local_midnight t) else format_date_only t))
              | MacroKindTimestamp \<Rightarrow> if key = dollarDateKey then unsupported else Inr (Some (format_timestamp t))
              | MacroKindRFC3339Timestamp \<Rightarrow> if key = dollarDateKey then unsupported else Inr (Some (format_rfc3339 t)))"

section \<open>Syntax trees\<close>

text \<open>
  The white space and comments around a value are its \<open>extra\<close>; a literal is kept as it is written,
  member names are values as well.
\<close>

datatype hujson =
    HLiteral (extra: "string \<times> string") string
  | HObject (extra: "string \<times> string") "(hujson \<times> hujson) list" string
  | HArray (extra: "string \<times> string") "hujson list" string

record hujson_lib =
  hj_parse :: "string \<Rightarrow> hujson result"
  hj_kind :: "string \<Rightarrow> char" \<comment> \<open>\<open>Literal.Kind\<close>\<close>
  hj_text :: "string \<Rightarrow> string" \<comment> \<open>\<open>Literal.String\<close>\<close>
  hj_string :: "string \<Rightarrow> string" \<comment> \<open>\<open>hujson.String\<close>\<close>
  hj_standardize :: "hujson \<Rightarrow> hujson"
  hj_pack :: "hujson \<Rightarrow> string"

definition resolveLiteral :: "hujson_lib \<Rightarrow> calendar \<Rightarrow> string \<times> string \<Rightarrow> string \<Rightarrow> string \<Rightarrow> hujson result" where
  "resolveLiteral lib cal ex key literal =
     (if hj_kind lib literal \<noteq> CHR 0x22 then Inr (HLiteral ex literal)
      else rbind (resolveStringValue cal (hj_text lib literal) key) (\<lambda>resolved.
        case resolved of
          None \<Rightarrow> Inr (HLiteral ex literal)
        | Some s \<Rightarrow> Inr (HLiteral ex (hj_string lib s))))"

definition objectMemberKey :: "hujson_lib \<Rightarrow> hujson \<Rightarrow> string result" where
  "objectMemberKey lib name =
     (case name of
        HLiteral _ literal \<Rightarrow>
          if hj_kind lib literal = CHR 0x22 then Inr (hj_text lib literal)
          else Inl (Err ''HuJSON object member name must be a string literal'')
      | _ \<Rightarrow> Inl (Err ''HuJSON object member name must be a string literal''))"

text \<open>
  The values are replaced in place, in order; an error leaves the rest as it is, and
  \<open>transformJSONC\<close> then drops the whole tree.
\<close>

fun resolveValue :: "hujson_lib \<Rightarrow> calendar \<Rightarrow> string \<Rightarrow> hujson \<Rightarrow> hujson result" where
  "resolveValue lib cal key (HLiteral ex literal) = resolveLiteral lib cal ex key literal"
| "resolveValue lib cal key (HObject ex members after) =
     rbind (map_result (\<lambda>(name, v).
         rbind (objectMemberKey lib name) (\<lambda>memberKey.
         rbind (resolveValue lib cal memberKey v) (\<lambda>v'. Inr (name, v')))) members)
       (\<lambda>members'. Inr (HObject ex members' after))"
| "resolveValue lib cal key (HArray ex elements after) =
     rbind (map_result (resolveValue lib cal []) elements) (\<lambda>elements'. Inr (HArray ex elements' after))"

definition transformJSONC :: "hujson_lib \<Rightarrow> calendar \<Rightarrow> string \<Rightarrow> string result" where
  "transformJSONC lib cal content =
     rbind (hj_parse lib content) (\<lambda>ast.
     rbind (resolveValue lib cal [] ast) (\<lambda>ast'. Inr (hj_pack lib (hj_standardize lib ast'))))"

text \<open>\<open>WrapSource\<close>: only case files are transformed.\<close>

definition resolvingReadFile :: "hujson_lib \<Rightarrow> calendar \<Rightarrow> case_source \<Rightarrow> string \<Rightarrow> string result" where
  "resolvingReadFile lib cal source name =
     rbind (cs_readFile source name) (\<lambda>content.
       if path_ext name \<noteq> ''.jsonc'' then Inr content else transformJSONC lib cal content)"

definition wrapSource :: "hujson_lib \<Rightarrow> calendar \<Rightarrow> case_source \<Rightarrow> case_source" where
  "wrapSource lib cal source =
     \<lparr>cs_readDir = cs_readDir source, cs_readFile = resolvingReadFile lib cal source\<rparr>"


section \<open>The grammar of offsets\<close>

text \<open>The units in the order in which they may occur.\<close>

datatype offset_unit = Days | Hours | Minutes

fun unit_rank :: "offset_unit \<Rightarrow> nat" where
  "unit_rank Days = 0" | "unit_rank Hours = 1" | "unit_rank Minutes = 2"

instantiation offset_unit :: linorder
begin

definition less_eq_offset_unit :: "offset_unit \<Rightarrow> offset_unit \<Rightarrow> bool" where
  "a \<le> b \<longleftrightarrow> unit_rank a \<le> unit_rank b"

definition less_offset_unit :: "offset_unit \<Rightarrow> offset_unit \<Rightarrow> bool" where
  "a < b \<longleftrightarrow> unit_rank a < unit_rank b"

instance
proof
  fix a b :: offset_unit
  show "a \<le> b \<Longrightarrow> b \<le> a \<Longrightarrow> a = b"
    by (cases a; cases b) (simp_all add: less_eq_offset_unit_def)
qed (auto simp: less_eq_offset_unit_def less_offset_unit_def)

end

fun unit_char :: "offset_unit \<Rightarrow> char" where
  "unit_char Days = CHR ''d''" | "unit_char Hours = CHR ''h''" | "unit_char Minutes = CHR ''m''"

fun unit_nanos :: "offset_unit \<Rightarrow> int" where
  "unit_nanos Days = 24 * 3600 * nanos" | "unit_nanos Hours = 3600 * nanos" | "unit_nanos Minutes = 60 * nanos"

text \<open>An offset is a list of amounts, as they are written, with their units.\<close>

type_synonym offset_items = "(string \<times> offset_unit) list"

definition render_items :: "offset_items \<Rightarrow> string" where
  "render_items items = concat (map (\<lambda>(t, u). t @ [unit_char u]) items)"

definition wf_items :: "macroKind \<Rightarrow> offset_items \<Rightarrow> bool" where
  "wf_items kind items \<longleftrightarrow> sorted_wrt (<) (map snd items) \<and>
     list_all (\<lambda>(t, u). atoi t \<noteq> None \<and> (u = Days \<or> macroKindSupportsTimeOffset kind)) items"

definition duration :: "offset_items \<Rightarrow> int" where
  "duration items = sum_list (map (\<lambda>(t, u). the (atoi t) * unit_nanos u) items)"

lemma items_simps [simp]:
  "render_items [] = []" "render_items ((t, u) # items) = t @ unit_char u # render_items items"
  "wf_items kind []"
  "wf_items kind ((t, u) # items) \<longleftrightarrow> (\<forall>v \<in> set (map snd items). u < v) \<and> atoi t \<noteq> None \<and>
     (u = Days \<or> macroKindSupportsTimeOffset kind) \<and> wf_items kind items"
  "duration [] = 0" "duration ((t, u) # items) = the (atoi t) * unit_nanos u + duration items"
  by (auto simp: render_items_def wf_items_def duration_def)

lemma isUnit_unit_char [simp]: "isUnit (unit_char u)"
  by (cases u) (simp_all add: isUnit_def)

lemma offsetUnitSpec_ok:
  "offsetUnitSpec kind c offset = Inr (r, d) \<longleftrightarrow>
     (\<exists>u. c = unit_char u \<and> (u = Days \<or> macroKindSupportsTimeOffset kind) \<and> r = unit_rank u \<and> d = unit_nanos u)"
proof
  assume "offsetUnitSpec kind c offset = Inr (r, d)"
  then consider "c = unit_char Days \<and> r = 0 \<and> d = unit_nanos Days"
    | "c = unit_char Hours \<and> macroKindSupportsTimeOffset kind \<and> r = 1 \<and> d = unit_nanos Hours"
    | "c = unit_char Minutes \<and> macroKindSupportsTimeOffset kind \<and> r = 2 \<and> d = unit_nanos Minutes"
    by (auto simp: offsetUnitSpec_def calendar_consts split: if_splits)
  then show "\<exists>u. c = unit_char u \<and> (u = Days \<or> macroKindSupportsTimeOffset kind) \<and> r = unit_rank u \<and> d = unit_nanos u"
    by cases (metis unit_rank.simps)+
next
  assume "\<exists>u. c = unit_char u \<and> (u = Days \<or> macroKindSupportsTimeOffset kind) \<and> r = unit_rank u \<and> d = unit_nanos u"
  then obtain u where "c = unit_char u" "u = Days \<or> macroKindSupportsTimeOffset kind" "r = unit_rank u" "d = unit_nanos u"
    by blast
  then show "offsetUnitSpec kind c offset = Inr (r, d)"
    by (cases u) (simp_all add: offsetUnitSpec_def calendar_consts)
qed

lemma digit_not_unit: "is_digit c \<Longrightarrow> \<not> isUnit c"
  by (auto simp: is_digit_def isUnit_def)

lemma atoi_text:
  assumes "atoi t = Some n"
  shows "t \<noteq> [] \<and> (\<forall>c \<in> set t. \<not> isUnit c)"
proof (cases t)
  case (Cons c r)
  have "\<not> isUnit (CHR ''-'')" "\<not> isUnit (CHR ''+'')" by (simp_all add: isUnit_def)
  then show ?thesis using assms Cons
    by (auto simp: atoi_def Let_def list_all_iff digit_not_unit split: if_splits)
qed (use assms in \<open>simp add: atoi_def\<close>)

lemma wrap64_period: "wrap64 (a + k * 18446744073709551616) = wrap64 a"
proof -
  have "a + k * 18446744073709551616 + 9223372036854775808 = (a + 9223372036854775808) + k * 18446744073709551616"
    by simp
  then show ?thesis unfolding wrap64_def by (simp only: mod_mult_self1)
qed

lemma wrap64_shift:
  obtains k where "wrap64 a = a + k * 18446744073709551616"
proof
  show "wrap64 a = a + - ((a + 9223372036854775808) div 18446744073709551616) * 18446744073709551616"
    unfolding wrap64_def by (simp add: minus_div_mult_eq_mod [symmetric])
qed

lemma wrap64_add_left [simp]: "wrap64 (wrap64 a + b) = wrap64 (a + b)"
proof -
  obtain k where "wrap64 a = a + k * 18446744073709551616" by (rule wrap64_shift)
  then show ?thesis using wrap64_period [of "a + b" k] by (simp add: ac_simps)
qed

lemma wrap64_add_right [simp]: "wrap64 (a + wrap64 b) = wrap64 (a + b)"
  using wrap64_add_left [of b a] by (simp add: add.commute)

lemma wrap64_uminus [simp]: "wrap64 (- wrap64 a) = wrap64 (- a)"
proof -
  obtain k where "wrap64 a = a + k * 18446744073709551616" by (rule wrap64_shift)
  then show ?thesis using wrap64_period [of "- a" "- k"] by simp
qed

lemma wrap64_wrap64 [simp]: "wrap64 (wrap64 a) = wrap64 a"
  using wrap64_add_left [of a 0] by simp

section \<open>What parseOffset accepts\<close>

definition ranks_ok :: "bool list \<Rightarrow> int \<Rightarrow> bool" where
  "ranks_ok seen prev \<longleftrightarrow> length seen = 3 \<and> (\<forall>u. seen ! unit_rank u \<longrightarrow> int (unit_rank u) \<le> prev) \<and>
     (\<forall>u. int (unit_rank u) = prev \<longrightarrow> seen ! unit_rank u)"

lemma rank_bound: "unit_rank u < 3"
  by (cases u) simp_all

lemma ranks_ok_start: "ranks_ok [False, False, False] (- 1)"
proof -
  have "\<not> [False, False, False] ! unit_rank u" for u by (cases u) simp_all
  then show ?thesis by (simp add: ranks_ok_def)
qed

lemma ranks_ok_step:
  assumes "ranks_ok seen prev" "prev < int (unit_rank u)"
  shows "ranks_ok (seen[unit_rank u := True]) (int (unit_rank u))"
  using assms rank_bound [of u] unfolding ranks_ok_def
  by (auto simp: nth_list_update split: if_splits)

lemma ranks_ok_next:
  assumes "ranks_ok seen prev"
  shows "\<not> seen ! unit_rank u \<and> \<not> int (unit_rank u) < prev \<longleftrightarrow> prev < int (unit_rank u)"
proof -
  have "int (unit_rank u) \<le> prev" if "seen ! unit_rank u" using assms that by (simp add: ranks_ok_def)
  moreover have "seen ! unit_rank u" if "int (unit_rank u) = prev" using assms that by (simp add: ranks_ok_def)
  ultimately show ?thesis by linarith
qed

lemma takeWhile_item:
  assumes "\<forall>c \<in> set t. \<not> isUnit c"
  shows "takeWhile (\<lambda>c. \<not> isUnit c) (t @ unit_char u # s) = t"
    and "dropWhile (\<lambda>c. \<not> isUnit c) (t @ unit_char u # s) = unit_char u # s"
  using assms by (simp_all add: takeWhile_append2 dropWhile_append2)


lemma offsetLoop_ok:
  assumes "ranks_ok seen prev" "wrap64 acc = acc"
  shows "offsetLoop kind offset body seen prev acc = Inr d \<longleftrightarrow>
    (\<exists>items. body = render_items items \<and> wf_items kind items \<and>
       (\<forall>u \<in> set (map snd items). prev < int (unit_rank u)) \<and> d = wrap64 (acc + duration items))"
    (is "?loop \<longleftrightarrow> ?items")
  using assms
proof (induction kind offset body seen prev acc arbitrary: d rule: offsetLoop.induct)
  case (1 kind offset body seen prev acc)
  let ?t = "takeWhile (\<lambda>c. \<not> isUnit c) body" and ?r = "dropWhile (\<lambda>c. \<not> isUnit c) body"
  note eq = offsetLoop.simps [of kind offset body seen prev acc]
  have IH: "offsetLoop kind offset (tl ?r) (seen[unit_rank u := True]) (int (unit_rank u))
        (wrap64 (acc + n * unit_nanos u)) = Inr d \<longleftrightarrow>
      (\<exists>items. tl ?r = render_items items \<and> wf_items kind items \<and>
        (\<forall>v \<in> set (map snd items). int (unit_rank u) < int (unit_rank v)) \<and>
        d = wrap64 (acc + n * unit_nanos u + duration items))"
    if "body \<noteq> []" "?r \<noteq> []" "?t \<noteq> []" "atoi ?t = Some n"
      "offsetUnitSpec kind (hd ?r) offset = Inr (unit_rank u, unit_nanos u)" "prev < int (unit_rank u)" for u n d
  proof -
    have c: "\<not> (?r = [] \<or> ?t = [])" "\<not> seen ! unit_rank u" "\<not> int (unit_rank u) < prev"
      using ranks_ok_next [OF 1(2)] that(2,3,6) by blast+
    show ?thesis
      using 1(1) [OF that(1) refl refl c(1) that(4,5) refl c(2,3) ranks_ok_step [OF 1(2) that(6)] wrap64_wrap64, of d]
      by (simp only: wrap64_add_left wrap64_add_right)
  qed
  show ?case (is "?loop \<longleftrightarrow> ?items")
  proof
    assume ?loop
    show ?items
    proof (cases "body = []")
      case True
      then show ?thesis using \<open>?loop\<close> 1(3) by (intro exI [of _ "[]"]) (simp add: offsetLoop.simps)
    next
      case False
      have ne: "?r \<noteq> []" "?t \<noteq> []" using \<open>?loop\<close> False by (auto simp: eq Let_def split: if_splits)
      obtain n where n: "atoi ?t = Some n"
        using \<open>?loop\<close> False ne by (cases "atoi ?t") (simp_all add: eq Let_def del: dropWhile_eq_Nil_conv split: if_splits)
      obtain r dur where spec: "offsetUnitSpec kind (hd ?r) offset = Inr (r, dur)"
        using \<open>?loop\<close> False ne n
        by (cases "offsetUnitSpec kind (hd ?r) offset") (auto simp: eq Let_def simp del: dropWhile_eq_Nil_conv)
      then obtain u where u: "hd ?r = unit_char u" "u = Days \<or> macroKindSupportsTimeOffset kind"
        "r = unit_rank u" "dur = unit_nanos u" by (auto simp: offsetUnitSpec_ok)
      have c: "\<not> seen ! unit_rank u" "\<not> int (unit_rank u) < prev"
        using \<open>?loop\<close> False ne n spec u(3)
        by (simp_all add: eq Let_def del: dropWhile_eq_Nil_conv split: if_splits)
      then have p: "prev < int (unit_rank u)" using ranks_ok_next [OF 1(2)] by blast
      have "offsetLoop kind offset (tl ?r) (seen[unit_rank u := True]) (int (unit_rank u))
          (wrap64 (acc + n * unit_nanos u)) = Inr d"
        using \<open>?loop\<close> False ne n spec u(3,4) c by (simp add: eq Let_def del: dropWhile_eq_Nil_conv)
      then have "\<exists>items. tl ?r = render_items items \<and> wf_items kind items \<and>
          (\<forall>v \<in> set (map snd items). int (unit_rank u) < int (unit_rank v)) \<and>
          d = wrap64 (acc + n * unit_nanos u + duration items)"
        using IH [OF False ne n spec [unfolded u(3,4)] p] by blast
      then obtain items where items: "tl ?r = render_items items" "wf_items kind items"
        "\<forall>v \<in> set (map snd items). unit_rank u < unit_rank v" "d = wrap64 (acc + n * unit_nanos u + duration items)"
        by auto
      have "body = ?t @ unit_char u # tl ?r"
        using ne(1) u(1) by (metis list.collapse takeWhile_dropWhile_id)
      then have "body = render_items ((?t, u) # items)" using items(1) by simp
      moreover have "wf_items kind ((?t, u) # items)"
        using items(2,3) n u(2) by (simp add: less_offset_unit_def)
      moreover have "\<forall>v \<in> set (map snd ((?t, u) # items)). prev < int (unit_rank v)"
        using p items(3) by auto
      moreover have "d = wrap64 (acc + duration ((?t, u) # items))"
        using items(4) n by (simp add: ac_simps)
      ultimately show ?thesis by blast
    qed
  next
    assume ?items
    then obtain items where items: "body = render_items items" "wf_items kind items"
      "\<forall>u \<in> set (map snd items). prev < int (unit_rank u)" "d = wrap64 (acc + duration items)" by blast
    show ?loop
    proof (cases items)
      case Nil
      then show ?thesis using items 1(3) by (simp add: offsetLoop.simps)
    next
      case (Cons item rest)
      obtain t u where tu: "item = (t, u)" by (cases item)
      obtain n where n: "atoi t = Some n" using items(2) Cons tu by auto
      note t = atoi_text [OF n]
      have b: "?t = t" "?r = unit_char u # render_items rest" "body \<noteq> []"
        using items(1) Cons tu takeWhile_item [of t u] t by simp_all
      have u: "u = Days \<or> macroKindSupportsTimeOffset kind" "prev < int (unit_rank u)"
        using items(2,3) Cons tu by simp_all
      have spec: "offsetUnitSpec kind (hd ?r) offset = Inr (unit_rank u, unit_nanos u)"
        using u(1) b by (auto simp: offsetUnitSpec_ok)
      have c: "\<not> seen ! unit_rank u" "\<not> int (unit_rank u) < prev" using ranks_ok_next [OF 1(2)] u(2) by blast+
      have ne: "?r \<noteq> []" "?t \<noteq> []" "atoi ?t = Some n" using b t n by simp_all
      have "offsetLoop kind offset (tl ?r) (seen[unit_rank u := True]) (int (unit_rank u))
          (wrap64 (acc + n * unit_nanos u)) = Inr d"
        unfolding IH [OF b(3) ne spec u(2)]
        by (rule exI [of _ rest]) (use b n items(2-4) Cons tu in \<open>auto simp: less_offset_unit_def ac_simps\<close>)
      then show ?thesis using b t n spec c by (simp add: eq Let_def)
    qed
  qed
qed


lemma parseOffset_ok:
  "parseOffset offset kind = Inr d \<longleftrightarrow>
     offset = [] \<and> d = 0 \<or>
     (\<exists>sign items. sign \<in> {CHR ''+'', CHR ''-''} \<and> items \<noteq> [] \<and> offset = sign # render_items items \<and>
        wf_items kind items \<and> d = wrap64 (if sign = CHR ''-'' then - duration items else duration items))"
    (is "?parse \<longleftrightarrow> ?spec")
proof (cases offset)
  case Nil
  then show ?thesis by (auto simp: parseOffset_def)
next
  case (Cons sign body)
  have loop: "offsetLoop kind offset body [False, False, False] (- 1) 0 = Inr e \<longleftrightarrow>
      (\<exists>items. body = render_items items \<and> wf_items kind items \<and> e = wrap64 (duration items))" for e
    using offsetLoop_ok [OF ranks_ok_start, of 0 kind offset body e] by (simp add: wrap64_def)
  show ?thesis
  proof
    assume p: ?parse
    then have g: "sign = CHR ''+'' \<or> sign = CHR ''-''" "body \<noteq> []"
      using Cons by (auto simp: parseOffset_def split: if_splits)
    obtain e where e: "offsetLoop kind offset body [False, False, False] (- 1) 0 = Inr e"
      "d = (if sign = CHR ''-'' then wrap64 (- e) else e)"
      using p Cons by (auto simp: parseOffset_def rbind_Inr_iff split: if_splits)
    then obtain items where i: "body = render_items items" "wf_items kind items" "e = wrap64 (duration items)"
      by (auto simp: loop)
    then have "items \<noteq> []" using g(2) by auto
    then show ?spec using g i e(2) Cons by (intro disjI2 exI [of _ sign] exI [of _ items]) simp
  next
    assume ?spec
    then obtain items where i: "sign \<in> {CHR ''+'', CHR ''-''}" "items \<noteq> []" "body = render_items items"
      "wf_items kind items" "d = wrap64 (if sign = CHR ''-'' then - duration items else duration items)"
      using Cons by auto
    obtain t u rest where it: "items = (t, u) # rest" using i(2) by (cases items) auto
    then have "t \<noteq> []" using i(4) atoi_text by auto
    then have "3 \<le> length offset" "body \<noteq> []" using Cons i(3) it by (cases t; simp)+
    moreover have "offsetLoop kind offset body [False, False, False] (- 1) 0 = Inr (wrap64 (duration items))"
      using i(3,4) loop by blast
    ultimately show ?parse using Cons i(1,5) by (auto simp: parseOffset_def)
  qed
qed

section \<open>Time zones\<close>

lemma digits_val_bound:
  "list_all is_digit s \<Longrightarrow> 0 \<le> digits_val s \<and> digits_val s < 10 ^ length s"
proof (induction s rule: rev_induct)
  case (snoc c s)
  then show ?case using digit_val_range [of c] by auto
qed (simp add: digits_val_def)

lemma atoi_two:
  assumes "atoi [a, b] = Some n"
  shows "- 9 \<le> n \<and> n \<le> 99"
proof -
  have one: "0 \<le> digits_val [b] \<and> digits_val [b] < 10" if "is_digit b" using digits_val_bound [of "[b]"] that by simp
  have two: "0 \<le> digits_val [a, b] \<and> digits_val [a, b] < 100" if "is_digit a" "is_digit b"
    using digits_val_bound [of "[a, b]"] that by simp
  show ?thesis using assms one two by (auto simp: atoi_def Let_def split: if_splits)
qed

lemma parseFixedTimezone_offset:
  assumes "parseFixedTimezone raw = Inr off"
  shows "off mod 60 = 0 \<and> \<bar>off\<bar> \<le> 86400"
proof -
  have l: "length raw = 6" using assms by (auto simp: parseFixedTimezone_def Let_def split: if_splits)
  obtain h mi where hm: "atoi (take 2 (drop 1 raw)) = Some h" "atoi (take 2 (drop 4 raw)) = Some mi" "h < 24" "mi < 60"
    "off = (h * 60 + mi) * 60 \<or> off = - ((h * 60 + mi) * 60)"
    using assms by (auto simp: parseFixedTimezone_def Let_def split: if_splits option.splits)
  obtain a b c d e f where "raw = [a, b, c, d, e, f]"
    using l by (auto simp: length_Suc_conv eval_nat_numeral)
  then have "- 9 \<le> h" "- 9 \<le> mi" using hm(1,2) atoi_two by auto
  then show ?thesis using hm(3-5) by auto
qed


section \<open>Rendered times\<close>

lemma FixedNow_nanos: "gt_nanos FixedNow = 1772312400 * nanos" "gt_offset FixedNow = 21600"
  by code_simp+

lemma parseOffset_range: "parseOffset offset kind = Inr d \<Longrightarrow> min_int64 \<le> d \<and> d \<le> max_int64"
  using wrap64_range by (auto simp: parseOffset_ok) (auto simp: min_int64_def max_int64_def)

lemma token_ok:
  assumes "parseMacroToken v = Inr (Some token)"
  shows "min_int64 \<le> mt_offset token \<and> mt_offset token \<le> max_int64 \<and>
    (\<forall>off. mt_location token = Some off \<longrightarrow> off mod 60 = 0 \<and> \<bar>off\<bar> \<le> 86400)"
proof -
  obtain suf offsetPart location kind d where t: "parseMacroSuffix suf = Inr (offsetPart, location)"
    "parseOffset offsetPart kind = Inr d" "token = \<lparr>mt_kind = kind, mt_offset = d, mt_location = location\<rparr>"
    using assms by (auto simp: parseMacroToken_def Let_def rbind_Inr_iff split: if_splits option.splits)
  have "off mod 60 = 0 \<and> \<bar>off\<bar> \<le> 86400" if "location = Some off" for off
    using t(1) that parseFixedTimezone_offset
    by (auto simp: parseMacroSuffix_def rbind_Inr_iff split: list.splits)
  then show ?thesis using parseOffset_range [OF t(2)] t(3) by simp
qed

lemma renderTime_ok:
  assumes "parseMacroToken v = Inr (Some token)"
  defines "t \<equiv> renderTime newCalendar token"
  shows "gt_nanos t = gt_nanos FixedNow + mt_offset token \<and> gt_offset t mod 60 = 0 \<and> \<bar>gt_offset t\<bar> \<le> 86400 \<and>
    - 719468 \<le> local_seconds t div 86400 \<and> local_seconds t div 86400 < 2786860"
proof -
  note ok = token_ok [OF assms(1)]
  have n: "gt_nanos t = gt_nanos FixedNow + mt_offset token"
    by (simp add: t_def renderTime_def newCalendar_def Let_def split: option.splits)
  have o: "gt_offset t mod 60 = 0" "\<bar>gt_offset t\<bar> \<le> 86400"
    using ok by (auto simp: t_def renderTime_def newCalendar_def Let_def FixedNow_nanos split: option.splits)
  have "- 10000000000 \<le> gt_nanos t div nanos" "gt_nanos t div nanos \<le> 12000000000"
    unfolding n FixedNow_nanos nanos_def using ok unfolding min_int64_def max_int64_def by linarith+
  then have "- 10000100000 \<le> local_seconds t" "local_seconds t \<le> 12000100000"
    using o(2) by (simp_all add: local_seconds_def)
  then have "- 719468 \<le> local_seconds t div 86400" "local_seconds t div 86400 < 2786860" by linarith+
  then show ?thesis using n o by simp
qed

lemma format_render:
  assumes "- 719468 \<le> local_seconds t div 86400" "local_seconds t div 86400 < 2786860"
    and "gt_offset t mod 60 = 0" "\<bar>gt_offset t\<bar> \<le> 86400"
  shows "parse_rfc3339 (format_rfc3339 t) = Some (gt_nanos t div nanos * nanos)"
proof -
  obtain y m d where c: "civil_from_days (local_seconds t div 86400) = (y, m, d)" by (metis prod_cases3)
  show ?thesis
    by (rule parse_format_rfc3339 [OF c _ _ assms(3,4)]) (use civil_year_range [OF c assms(1,2)] in simp_all)
qed

lemma local_seconds_midnight: "local_seconds (local_midnight t) = local_seconds t div 86400 * 86400"
  by (simp add: local_midnight_def local_seconds_def [of "\<lparr>gt_nanos = _, gt_offset = _\<rparr>"] nanos_def)

lemma format_midnight:
  assumes "- 719468 \<le> local_seconds t div 86400" "local_seconds t div 86400 < 2786860"
  shows "parse_rfc3339 (format_rfc3339 (local_midnight t)) = Some (local_seconds t div 86400 * 86400 * nanos)"
proof -
  have "local_seconds (local_midnight t) div 86400 = local_seconds t div 86400"
    unfolding local_seconds_midnight by simp
  moreover have "gt_nanos (local_midnight t) div nanos * nanos = local_seconds t div 86400 * 86400 * nanos"
    "gt_offset (local_midnight t) = 0" by (simp_all add: local_midnight_def nanos_def)
  ultimately show ?thesis using format_render [of "local_midnight t"] assms by simp
qed

text \<open>
  C13: the text a macro is replaced by reads back as the time that was asked for.  A full RFC 3339
  timestamp denotes, in whole seconds, the fixed point in time moved by the offset of the macro,
  whatever zone it is written in; a date under the key \<open>$date\<close> denotes midnight, in UTC, of the date
  the moved time has in the zone of the macro.
\<close>

theorem resolved_instant:
  assumes "parseMacroToken v = Inr (Some token)" "resolveStringValue newCalendar v key = Inr (Some s)"
  shows "(mt_kind token = MacroKindRFC3339Timestamp \<longrightarrow>
       parse_rfc3339 s = Some ((gt_nanos FixedNow + mt_offset token) div nanos * nanos)) \<and>
    (mt_kind token = MacroKindDate \<and> key = dollarDateKey \<longrightarrow>
       parse_rfc3339 s = Some (local_seconds (renderTime newCalendar token) div 86400 * 86400 * nanos))"
proof (intro conjI impI)
  note r = renderTime_ok [OF assms(1)]
  {
    assume "mt_kind token = MacroKindRFC3339Timestamp"
    then have "s = format_rfc3339 (renderTime newCalendar token)"
      using assms by (auto simp: resolveStringValue_def Let_def split: if_splits)
    then show "parse_rfc3339 s = Some ((gt_nanos FixedNow + mt_offset token) div nanos * nanos)"
      using r by (simp add: format_render)
  }
  assume "mt_kind token = MacroKindDate \<and> key = dollarDateKey"
  then have "s = format_rfc3339 (local_midnight (renderTime newCalendar token))"
    using assms by (auto simp: resolveStringValue_def Let_def split: if_splits)
  then show "parse_rfc3339 s = Some (local_seconds (renderTime newCalendar token) div 86400 * 86400 * nanos)"
    using r by (simp only: format_midnight)
qed

theorem resolved_instant_witness:
  "parse_rfc3339 ''2026-02-28T19:00:00-02:00'' = Some (1772312400 * nanos)"
proof -
  have "parse_rfc3339 ''2026-02-28T19:00:00-02:00'' = Some ((gt_nanos FixedNow + mt_offset
      \<lparr>mt_kind = MacroKindRFC3339Timestamp, mt_offset = 0, mt_location = Some (- 7200)\<rparr>) div nanos * nanos)"
  proof (rule resolved_instant [THEN conjunct1, THEN mp])
    show "parseMacroToken ''<test_rfc3339_timestamp@-02:00>'' =
        Inr (Some \<lparr>mt_kind = MacroKindRFC3339Timestamp, mt_offset = 0, mt_location = Some (- 7200)\<rparr>)" by code_simp
    show "resolveStringValue newCalendar ''<test_rfc3339_timestamp@-02:00>'' [] = Inr (Some ''2026-02-28T19:00:00-02:00'')"
      by code_simp
  qed simp
  then show ?thesis by (simp add: FixedNow_nanos nanos_def)
qed

text \<open>
  C14: an offset is accepted exactly when it is empty, or a sign followed by amounts with units of
  which each occurs at most once, in the order days, hours, minutes, and the last two only in
  timestamps; an amount is whatever \<open>strconv.Atoi\<close> reads.  The result is their sum in 64 bits.
\<close>

theorem parseOffset_correct:
  "parseOffset offset kind = Inr d \<longleftrightarrow>
     offset = [] \<and> d = 0 \<or>
     (\<exists>sign items. sign \<in> {CHR ''+'', CHR ''-''} \<and> items \<noteq> [] \<and> offset = sign # render_items items \<and>
        wf_items kind items \<and> d = wrap64 (if sign = CHR ''-'' then - duration items else duration items))"
  by (rule parseOffset_ok)

text \<open>
  The arithmetic of offsets is not checked: 106752 days, which do not fit a duration, move the
  time into the past, and a second sign is accepted in amounts and in time zones.
\<close>

theorem offset_wraps:
  "parseOffset ''+106752d'' MacroKindDate = Inr (- 9223371273709551616) \<and>
   parseOffset ''+-1d'' MacroKindDate = Inr (- 86400 * nanos) \<and>
   parseFixedTimezone ''+-1:-1'' = Inr (- 3660)"
  by (intro conjI) code_simp+


section \<open>Syntax trees without macros\<close>

fun macro_free :: "hujson_lib \<Rightarrow> hujson \<Rightarrow> bool" where
  "macro_free lib (HLiteral ex literal) \<longleftrightarrow>
     hj_kind lib literal = CHR 0x22 \<longrightarrow> parseMacroToken (hj_text lib literal) = Inr None"
| "macro_free lib (HObject ex members after) \<longleftrightarrow>
     list_all (\<lambda>(name, v). is_ok (objectMemberKey lib name) \<and> macro_free lib v) members"
| "macro_free lib (HArray ex elements after) \<longleftrightarrow> list_all (macro_free lib) elements"

lemma resolve_macro_free:
  "macro_free lib v \<Longrightarrow> resolveValue lib cal key v = Inr v"
proof (induction lib cal key v rule: resolveValue.induct)
  case (1 lib cal key ex literal)
  then show ?case by (simp add: resolveLiteral_def resolveStringValue_def)
next
  case (2 lib cal key ex members after)
  have "map_result (\<lambda>(name, v). rbind (objectMemberKey lib name) (\<lambda>memberKey.
      rbind (resolveValue lib cal memberKey v) (\<lambda>v'. Inr (name, v')))) members = Inr members"
  proof (rule map_result_Inr_self)
    fix m assume m: "m \<in> set members"
    obtain name v where nv: "m = (name, v)" by (cases m)
    then have "is_ok (objectMemberKey lib name)" "macro_free lib v" using 2(2) m by (auto simp: list_all_iff)
    then show "(case m of (name, v) \<Rightarrow> rbind (objectMemberKey lib name) (\<lambda>memberKey.
        rbind (resolveValue lib cal memberKey v) (\<lambda>v'. Inr (name, v')))) = Inr m"
      using 2(1) [OF m nv [symmetric]] nv by (cases "objectMemberKey lib name") auto
  qed
  then show ?case by simp
next
  case (3 lib cal key ex elements after)
  have "map_result (resolveValue lib cal []) elements = Inr elements"
    by (rule map_result_Inr_self) (use 3 in \<open>auto simp: list_all_iff\<close>)
  then show ?case by simp
qed

text \<open>What the calendar writes starts with a digit or a minus sign, never with a bracket.\<close>

lemma nat_digits_hd: "\<exists>(d :: nat) s. d < 10 \<and> nat_digits n = char_of (48 + d) # s"
proof (induction n rule: nat_digits.induct)
  case (1 n)
  show ?case
  proof (cases "n < 10")
    case True
    then show ?thesis by (intro exI [of _ n] exI [of _ "[]"]) (simp add: nat_digits.simps)
  next
    case False
    then obtain d :: nat and s where "d < 10" "nat_digits (n div 10) = char_of (48 + d) # s" using 1 by blast
    then show ?thesis using False by (subst nat_digits.simps) auto
  qed
qed

lemma append_int_hd: "\<exists>c s. append_int w n = c # s \<and> c \<noteq> CHR ''<''"
proof -
  obtain d :: nat and s where d: "d < 10" "nat_digits (nat \<bar>n\<bar>) = char_of (48 + d) # s" using nat_digits_hd by blast
  have "of_char (char_of (48 + d) :: char) = (48 + d :: nat)" using d(1) by simp
  moreover have "of_char (CHR ''<'') = (60 :: nat)" by simp
  ultimately have "char_of (48 + d) \<noteq> CHR ''<''" using d(1) by fastforce
  then show ?thesis using d by (cases "w - length (nat_digits (nat \<bar>n\<bar>))") (auto simp: append_int_def Let_def)
qed

lemma written_no_macro:
  assumes "s = format_rfc3339 t \<or> s = format_timestamp t \<or> s = format_date_only t"
  shows "parseMacroToken s = Inr None"
proof -
  obtain y m d where "civil_from_days (local_seconds t div 86400) = (y, m, d)" by (metis prod_cases3)
  moreover obtain c r where "append_int 4 y = c # r" "c \<noteq> CHR ''<''" using append_int_hd by blast
  ultimately obtain r' where "s = c # r'" "c \<noteq> CHR ''<''"
    using assms by (auto simp: format_rfc3339_def format_timestamp_def format_date_only_def format_day_def)
  then show ?thesis by (simp add: parseMacroToken_def has_prefix_def)
qed

lemma resolveStringValue_cases:
  assumes "resolveStringValue cal v key = Inr r"
  shows "r = None \<and> parseMacroToken v = Inr None \<or> (\<exists>s. r = Some s \<and> parseMacroToken s = Inr None)"
proof -
  obtain p where p: "parseMacroToken v = Inr p" using assms by (auto simp: resolveStringValue_def rbind_Inr_iff)
  show ?thesis
  proof (cases p)
    case None
    then show ?thesis using assms p by (simp add: resolveStringValue_def)
  next
    case (Some token)
    then show ?thesis using assms p written_no_macro
      by (cases "mt_kind token") (auto simp: resolveStringValue_def Let_def local_midnight_def split: if_splits)
  qed
qed

lemma resolveLiteral_macro_free:
  assumes "resolveLiteral lib cal ex key literal = Inr v"
    and "\<And>s. hj_kind lib (hj_string lib s) = CHR 0x22" "\<And>s. hj_text lib (hj_string lib s) = s"
  shows "macro_free lib v"
proof (cases "hj_kind lib literal = CHR 0x22")
  case True
  then obtain r where r: "resolveStringValue cal (hj_text lib literal) key = Inr r"
    "v = (case r of None \<Rightarrow> HLiteral ex literal | Some s \<Rightarrow> HLiteral ex (hj_string lib s))"
    using assms(1) by (auto simp: resolveLiteral_def rbind_Inr_iff split: option.splits)
  show ?thesis using resolveStringValue_cases [OF r(1)] r(2) assms(3) by auto
qed (use assms(1) in \<open>auto simp: resolveLiteral_def\<close>)

lemma resolve_leaves_no_macro:
  assumes "\<And>s. hj_kind lib (hj_string lib s) = CHR 0x22" "\<And>s. hj_text lib (hj_string lib s) = s"
  shows "resolveValue lib cal key v = Inr v' \<Longrightarrow> macro_free lib v'"
proof (induction v arbitrary: key v')
  case (HLiteral ex literal)
  then show ?case using resolveLiteral_macro_free [OF _ assms] by simp
next
  case (HObject ex members after)
  then obtain members' where members': "v' = HObject ex members' after"
    "list_all2 (\<lambda>m m'. (case m of (name, v) \<Rightarrow> rbind (objectMemberKey lib name) (\<lambda>memberKey.
       rbind (resolveValue lib cal memberKey v) (\<lambda>v'. Inr (name, v')))) = Inr m') members members'"
    by (auto simp: rbind_Inr_iff map_result_Inr_iff)
  have m: "v' = HObject ex members' after"
    "list_all2 (\<lambda>(name, v) (name', v'). name' = name \<and>
       (\<exists>k. objectMemberKey lib name = Inr k \<and> resolveValue lib cal k v = Inr v')) members members'"
    by (fact members'(1)) (rule list_all2_mono [OF members'(2)], auto simp: rbind_Inr_iff)
  have "is_ok (objectMemberKey lib name) \<and> macro_free lib u" if u: "(name, u) \<in> set members'" for name u
  proof -
    obtain i where i: "i < length members'" "members' ! i = (name, u)" using u by (auto simp: in_set_conv_nth)
    obtain n x where nx: "members ! i = (n, x)" by (cases "members ! i")
    have "i < length members" using i(1) m(2) by (simp add: list_all2_lengthD)
    then have "(n, x) \<in> set members" using nx by (metis nth_mem)
    moreover obtain k where "name = n" "objectMemberKey lib n = Inr k" "resolveValue lib cal k x = Inr u"
      using list_all2_nthD2 [OF m(2) i(1)] i(2) nx by auto
    ultimately show ?thesis using HObject.IH(2) by (force simp: is_ok_iff)
  qed
  then show ?case using m(1) by (auto simp: list_all_iff)
next
  case (HArray ex elements after)
  then obtain elements' where e: "v' = HArray ex elements' after"
    "list_all2 (\<lambda>v v'. resolveValue lib cal [] v = Inr v') elements elements'"
    by (auto simp: rbind_Inr_iff map_result_Inr_iff)
  have "macro_free lib u" if u: "u \<in> set elements'" for u
  proof -
    obtain i where i: "i < length elements'" "elements' ! i = u" using u by (auto simp: in_set_conv_nth)
    then have "resolveValue lib cal [] (elements ! i) = Inr u" using list_all2_nthD2 [OF e(2)] by auto
    moreover have "elements ! i \<in> set elements" using i(1) e(2) by (simp add: list_all2_lengthD)
    ultimately show ?thesis using HArray.IH by blast
  qed
  then show ?case using e(1) by (auto simp: list_all_iff)
qed

text \<open>
  The substitution leaves no macro behind and changes nothing else: a tree without macros stays
  as it is, so a file that was transformed once is a fixed point.  The tree keeps its shape, its keys
  and its comments, since only string literals are ever replaced.
\<close>

theorem substitution_fixed_point:
  assumes "\<And>s. hj_kind lib (hj_string lib s) = CHR 0x22" "\<And>s. hj_text lib (hj_string lib s) = s"
    and "resolveValue lib cal key v = Inr v'"
  shows "macro_free lib v' \<and> resolveValue lib cal' key' v' = Inr v' \<and>
    (macro_free lib u \<longrightarrow> resolveValue lib cal' key' u = Inr u)"
  using resolve_leaves_no_macro [OF assms] resolve_macro_free by blast


text \<open>A library without escapes, and a tree with one macro.\<close>

definition plain_hujson :: hujson_lib where
  "plain_hujson = \<lparr>hj_parse = (\<lambda>s. Inr (HLiteral ([], []) s)), hj_kind = hd, hj_text = (\<lambda>l. butlast (tl l)),
     hj_string = (\<lambda>s. CHR 0x22 # s @ [CHR 0x22]), hj_standardize = (\<lambda>v. v), hj_pack = (\<lambda>v. [])\<rparr>"

definition dated_member :: "string \<Rightarrow> hujson" where
  "dated_member s = HObject ([], [])
     [(HLiteral ([], []) (hj_string plain_hujson ''day''), HLiteral ([], []) (hj_string plain_hujson s))] []"

theorem substitution_fixed_point_witness:
  "resolveValue plain_hujson newCalendar [] (dated_member ''<test_date+1d>'') = Inr (dated_member ''2026-03-02'') \<and>
   resolveValue plain_hujson newCalendar [] (dated_member ''2026-03-02'') = Inr (dated_member ''2026-03-02'')"
proof -
  have r: "resolveValue plain_hujson newCalendar [] (dated_member ''<test_date+1d>'') = Inr (dated_member ''2026-03-02'')"
    by code_simp
  show ?thesis
    using substitution_fixed_point [OF _ _ r, of newCalendar "[]"] r by (simp add: plain_hujson_def)
qed

end
