(* ===== verification/NetHttp.thy ===== *)
theory NetHttp
  imports GoMap
begin

text \<open>
  What the HTTP components use of the standard library: canonical header names
  (\<open>net/http.CanonicalHeaderKey\<close>), and the form decoder \<open>net/url.ParseQuery\<close>.  A
  \<open>map[string][]string\<close> is an optional map, \<^const>\<open>None\<close> being the nil map, which the code
  distinguishes from an empty one.
\<close>

type_synonym values_map = "string list gomap option"

definition entries :: "values_map \<Rightarrow> string list gomap" where
  "entries v = (case v of None \<Rightarrow> [] | Some m \<Rightarrow> m)"

definition wf_values :: "values_map \<Rightarrow> bool" where
  "wf_values v \<longleftrightarrow> wf_map (entries v)"

lemma entries_simps [simp]: "entries None = []" "entries (Some m) = m"
  by (simp_all add: entries_def)

section \<open>Header names\<close>

definition is_lower :: "char \<Rightarrow> bool" where
  "is_lower c \<longleftrightarrow> (97 :: nat) \<le> of_char c \<and> of_char c \<le> (122 :: nat)"

definition is_upper :: "char \<Rightarrow> bool" where
  "is_upper c \<longleftrightarrow> (65 :: nat) \<le> of_char c \<and> of_char c \<le> (90 :: nat)"

definition to_upper :: "char \<Rightarrow> char" where
  "to_upper c = (if is_lower c then char_of (of_char c - 32 :: nat) else c)"

definition to_lower :: "char \<Rightarrow> char" where
  "to_lower c = (if is_upper c then char_of (of_char c + 32 :: nat) else c)"

definition token_char :: "char \<Rightarrow> bool" where
  "token_char c \<longleftrightarrow> is_digit c \<or> is_lower c \<or> is_upper c \<or>
     c \<in> {CHR ''!'', CHR ''#'', CHR ''$'', CHR ''%'', CHR ''&'', CHR 0x27, CHR ''*'', CHR ''+'', CHR ''-'',
           CHR ''.'', CHR ''^'', CHR ''_'', CHR 0x60, CHR ''|'', CHR ''~''}"

fun canonical_letters :: "bool \<Rightarrow> string \<Rightarrow> string" where
  "canonical_letters upper [] = []"
| "canonical_letters upper (c # s) =
     (if upper then to_upper c else to_lower c) # canonical_letters (c = CHR ''-'') s"

definition canonicalHeaderKey :: "string \<Rightarrow> string" where
  "canonicalHeaderKey s = (if list_all token_char s then canonical_letters True s else s)"

lemma of_char_of [simp]: "n < 256 \<Longrightarrow> of_char (char_of n :: char) = (n :: nat)"
  by simp

lemma to_upper_cases: "to_upper c = c \<or> (is_lower c \<and> is_upper (to_upper c))"
  by (auto simp: to_upper_def is_lower_def is_upper_def)

lemma to_lower_cases: "to_lower c = c \<or> (is_upper c \<and> is_lower (to_lower c))"
  by (auto simp: to_lower_def is_lower_def is_upper_def)

lemma not_lower_upper: "is_upper c \<Longrightarrow> \<not> is_lower c"
  by (simp add: is_lower_def is_upper_def)

lemma to_upper_idem [simp]: "to_upper (to_upper c) = to_upper c"
proof (cases "to_upper c = c")
  case False
  then have "\<not> is_lower (to_upper c)" using to_upper_cases [of c] not_lower_upper by blast
  then show ?thesis by (subst to_upper_def) simp
qed simp

lemma to_lower_idem [simp]: "to_lower (to_lower c) = to_lower c"
proof (cases "to_lower c = c")
  case False
  then have "\<not> is_upper (to_lower c)" using to_lower_cases [of c] not_lower_upper by blast
  then show ?thesis by (subst to_lower_def) simp
qed simp

lemma dash_case: "to_upper c = CHR ''-'' \<longleftrightarrow> c = CHR ''-''" "to_lower c = CHR ''-'' \<longleftrightarrow> c = CHR ''-''"
proof -
  have d: "\<not> is_upper (CHR ''-'')" "\<not> is_lower (CHR ''-'')" by (simp_all add: is_lower_def is_upper_def)
  then show "to_upper c = CHR ''-'' \<longleftrightarrow> c = CHR ''-''" "to_lower c = CHR ''-'' \<longleftrightarrow> c = CHR ''-''"
    using to_upper_cases [of c] to_lower_cases [of c] by (auto simp: to_upper_def to_lower_def)
qed

lemma token_upper: "token_char c \<Longrightarrow> token_char (to_upper c)"
  using to_upper_cases [of c] by (auto simp: token_char_def)

lemma token_lower: "token_char c \<Longrightarrow> token_char (to_lower c)"
  using to_lower_cases [of c] by (auto simp: token_char_def)

lemma canonical_letters_idem: "canonical_letters u (canonical_letters u s) = canonical_letters u s"
  by (induction u s rule: canonical_letters.induct) (auto simp: dash_case)

lemma canonical_letters_token: "list_all token_char s \<Longrightarrow> list_all token_char (canonical_letters u s)"
  by (induction u s rule: canonical_letters.induct) (auto simp: token_upper token_lower)

lemma canonicalHeaderKey_idem [simp]: "canonicalHeaderKey (canonicalHeaderKey s) = canonicalHeaderKey s"
  by (simp add: canonicalHeaderKey_def canonical_letters_idem canonical_letters_token)

lemma token_not_space: "list_all token_char s \<Longrightarrow> trim_space s = s"
proof -
  assume t: "list_all token_char s"
  have first: "w \<in> set space_encodings \<Longrightarrow> \<not> list_all token_char w \<and> \<not> list_all token_char (rev w)" for w
    by (auto simp: space_encodings_def token_char_def is_digit_def is_lower_def is_upper_def)
  have pre: "list_all token_char w" if "prefix w u" "list_all token_char u" for w u
    using that by (auto simp: prefix_def)
  have "\<not> starts_any space_encodings s"
    using first pre [OF _ t] by (auto simp: starts_any_def)
  then have l: "trim_left s = s" unfolding trim_left_def by (rule strip_any_id)
  have r: "list_all token_char (rev s)" using t by (simp add: list_all_iff)
  have "\<not> starts_any (map rev space_encodings) (rev s)"
  proof
    assume "starts_any (map rev space_encodings) (rev s)"
    then obtain w where w: "w \<in> set space_encodings" "prefix (rev w) (rev s)"
      by (auto simp: starts_any_def)
    show False using pre [OF w(2) r] first [OF w(1)] by simp
  qed
  then have "strip_any (map rev space_encodings) (rev s) = rev s" by (rule strip_any_id)
  then show ?thesis by (simp add: trim_space_def l trim_right_def)
qed

section \<open>Form values\<close>

definition unhex :: "char \<Rightarrow> nat option" where
  "unhex c = (let n = of_char c in
     if 48 \<le> n \<and> n \<le> 57 then Some (n - 48)
     else if 97 \<le> n \<and> n \<le> 102 then Some (n - 87)
     else if 65 \<le> n \<and> n \<le> 70 then Some (n - 55)
     else None)"

text \<open>\<open>url.QueryUnescape\<close>; \<^const>\<open>None\<close> where it reports an escape error.\<close>

fun query_unescape :: "string \<Rightarrow> string option" where
  "query_unescape [] = Some []"
| "query_unescape (c # s) =
     (if c = CHR ''%'' then
        (case s of
           a # b # r \<Rightarrow>
             (case (unhex a, unhex b) of
                (Some p, Some q) \<Rightarrow> map_option (\<lambda>t. char_of (16 * p + q) # t) (query_unescape r)
              | _ \<Rightarrow> None)
         | _ \<Rightarrow> None)
      else map_option (\<lambda>t. (if c = CHR ''+'' then CHR '' '' else c) # t) (query_unescape s))"

definition cut_at :: "char \<Rightarrow> string \<Rightarrow> string \<times> string" where
  "cut_at c s = (takeWhile (\<lambda>x. x \<noteq> c) s, drop 1 (dropWhile (\<lambda>x. x \<noteq> c) s))"

definition parse_pair :: "string \<Rightarrow> (string \<times> string) option" where
  "parse_pair p =
     (let (k, v) = cut_at (CHR ''='') p in
      case (query_unescape k, query_unescape v) of (Some k', Some v') \<Rightarrow> Some (k', v') | _ \<Rightarrow> None)"

definition add_value :: "string list gomap \<Rightarrow> string \<times> string \<Rightarrow> string list gomap" where
  "add_value m kv = mput (fst kv) ((case mget m (fst kv) of None \<Rightarrow> [] | Some vs \<Rightarrow> vs) @ [snd kv]) m"

text \<open>\<open>url.ParseQuery\<close>: \<^const>\<open>None\<close> where it returns an error beside the values.\<close>

definition parse_query :: "string \<Rightarrow> string list gomap option" where
  "parse_query s =
     (let ps = filter (\<lambda>p. p \<noteq> []) (split_on (CHR ''&'') s) in
      if list_ex (\<lambda>p. CHR '';'' \<in> set p \<or> parse_pair p = None) ps then None
      else Some (foldl (\<lambda>m p. add_value m (the (parse_pair p))) [] ps))"

lemma wf_add_value: "wf_map m \<Longrightarrow> wf_map (add_value m kv)"
  by (simp add: add_value_def wf_mput)

lemma wf_parse_query: "parse_query s = Some m \<Longrightarrow> wf_map m"
proof -
  have "wf_map n \<Longrightarrow> wf_map (foldl (\<lambda>m p. add_value m (the (parse_pair p))) n ps)" for n ps
    by (induction ps arbitrary: n) (auto intro: wf_add_value)
  then show "parse_query s = Some m \<Longrightarrow> wf_map m" by (auto simp: parse_query_def Let_def split: if_splits)
qed

end
