(* ===== verification/HttpMock.thy ===== *)
theory HttpMock
  imports JsonSubset NetHttp "HOL-Library.Multiset"
begin

text \<open>
  Package \<open>httpmock\<close> without its server: the plan (\<open>models.go\<close>), its normalisation
  (\<open>normalize.go\<close>, \<open>clone.go\<close>) and the comparison of one request with one planned call
  (\<open>matcher.go\<close>).  A mismatch is \<^const>\<open>Inl\<close> of its reason.  Go's maps are visited in the order of their keys;
  for maps whose keys stay distinct under canonicalisation no result depends on that order.
\<close>

section \<open>models.go\<close>

definition QueryModeExact :: string where "QueryModeExact = ''exact''"
definition QueryModeSubset :: string where "QueryModeSubset = ''subset''"
definition HttpHeadersModeExact :: string where "HttpHeadersModeExact = ''exact''"
definition HttpHeadersModeSubset :: string where "HttpHeadersModeSubset = ''subset''"
definition PlanOrderingStrict :: string where "PlanOrderingStrict = ''strict''"
definition PlanOrderingAny :: string where "PlanOrderingAny = ''any''"
definition CountModeExact :: string where "CountModeExact = ''exact''"
definition CountModeAtLeast :: string where "CountModeAtLeast = ''at_least''"

lemmas http_mode_defs = QueryModeExact_def QueryModeSubset_def HttpHeadersModeExact_def
  HttpHeadersModeSubset_def PlanOrderingStrict_def PlanOrderingAny_def CountModeExact_def
  CountModeAtLeast_def

record http_response =
  hr_status :: int
  hr_headers :: values_map
  hr_body :: string
  hr_rawBody :: "string option"

record call_expectation =
  ce_name :: string
  ce_expectedCount :: int
  ce_countMode :: string
  ce_method :: string
  ce_path :: string
  ce_query :: values_map
  ce_queryMode :: string
  ce_headers :: values_map
  ce_headersMode :: string
  ce_headersPresent :: "string list"
  ce_body :: string
  ce_bodySubset :: string
  ce_rawBody :: "string option"
  ce_formBody :: values_map
  ce_formBodySubset :: values_map
  ce_response :: http_response

record plan =
  pl_calls :: "call_expectation list"
  pl_ordering :: string

record observed_request =
  or_method :: string
  or_path :: string
  or_query :: values_map
  or_headers :: values_map
  or_body :: string

record http_check_result =
  hc_matchedCount :: int
  hc_observed :: "observed_request list"
  hc_lastMismatchReason :: "err option"

section \<open>clone.go\<close>

definition cloneStringPointer :: "string option \<Rightarrow> string option" where
  "cloneStringPointer value = (case value of None \<Rightarrow> None | Some cloned \<Rightarrow> Some cloned)"

definition cloneStrings :: "string list \<Rightarrow> string list" where
  "cloneStrings values = [] @ values"

definition httpCloneRawMessage :: "string \<Rightarrow> string" where
  "httpCloneRawMessage raw = [] @ raw"

definition cloneValues :: "values_map \<Rightarrow> values_map" where
  "cloneValues values =
     (case values of None \<Rightarrow> None | Some m \<Rightarrow> Some (mcopy [] (map (\<lambda>(key, items). (key, [] @ items)) m)))"

definition cloneHeader :: "string list gomap \<Rightarrow> values_map" where
  "cloneHeader header = Some (mcopy [] (map (\<lambda>(key, values). (canonicalHeaderKey key, [] @ values)) header))"

definition canonicalizeHeaderValues :: "values_map \<Rightarrow> values_map" where
  "canonicalizeHeaderValues headers =
     (case headers of None \<Rightarrow> None
      | Some m \<Rightarrow> Some (mcopy [] (map (\<lambda>(key, values). (canonicalHeaderKey (trim_space key), [] @ values)) m)))"

definition canonicalizeHeaderNames :: "string list \<Rightarrow> string list" where
  "canonicalizeHeaderNames headers =
     map canonicalHeaderKey (filter (\<lambda>trimmedHeader. trimmedHeader \<noteq> []) (map trim_space headers))"

definition cloneResponse :: "http_response \<Rightarrow> http_response" where
  "cloneResponse r = \<lparr>hr_status = hr_status r, hr_headers = cloneValues (hr_headers r),
     hr_body = httpCloneRawMessage (hr_body r), hr_rawBody = cloneStringPointer (hr_rawBody r)\<rparr>"

definition cloneCall :: "call_expectation \<Rightarrow> call_expectation" where
  "cloneCall c = \<lparr>
     ce_name = ce_name c, ce_expectedCount = ce_expectedCount c, ce_countMode = ce_countMode c,
     ce_method = ce_method c, ce_path = ce_path c,
     ce_query = cloneValues (ce_query c), ce_queryMode = ce_queryMode c,
     ce_headers = cloneValues (ce_headers c), ce_headersMode = ce_headersMode c,
     ce_headersPresent = cloneStrings (ce_headersPresent c),
     ce_body = httpCloneRawMessage (ce_body c), ce_bodySubset = httpCloneRawMessage (ce_bodySubset c),
     ce_rawBody = cloneStringPointer (ce_rawBody c),
     ce_formBody = cloneValues (ce_formBody c), ce_formBodySubset = cloneValues (ce_formBodySubset c),
     ce_response = cloneResponse (ce_response c)\<rparr>"

definition clonePlan :: "plan \<Rightarrow> plan" where
  "clonePlan p = \<lparr>pl_calls = map cloneCall (pl_calls p), pl_ordering = pl_ordering p\<rparr>"

definition cloneObservedRequests :: "observed_request list \<Rightarrow> observed_request list" where
  "cloneObservedRequests requests =
     map (\<lambda>q. \<lparr>or_method = or_method q, or_path = or_path q, or_query = cloneValues (or_query q),
               or_headers = cloneValues (or_headers q), or_body = or_body q\<rparr>) requests"

section \<open>normalize.go\<close>

definition httpHasRawJSON :: "string \<Rightarrow> bool" where
  "httpHasRawJSON raw \<longleftrightarrow> 0 < length (trim_space raw)"

text \<open>
  The second \<open>Decode\<close> has a \<open>struct{}\<close> as its target: it succeeds on an object, and on
  \<open>null\<close>, and only then does the code speak of trailing data.
\<close>

definition decodes_into_empty_struct :: "string \<Rightarrow> bool" where
  "decodes_into_empty_struct rest =
     (case json_decode rest of
        Inr (JObj _, _) \<Rightarrow> True
      | Inr (JNull, _) \<Rightarrow> True
      | _ \<Rightarrow> False)"

definition httpDecodeStrictJSONAny :: "string \<Rightarrow> json result" where
  "httpDecodeStrictJSONAny raw =
     (case json_decode raw of
        Inl e \<Rightarrow> Inl (Errorf ''decode json: %w'' [AErr (Opaque ''json.Decode'')])
      | Inr (value, rest) \<Rightarrow>
          if decodes_into_empty_struct rest then Inl (Err ''decode json: trailing data'') else Inr value)"

definition validateStrictJSON :: "string \<Rightarrow> string \<Rightarrow> unit result" where
  "validateStrictJSON raw fieldName =
     (case json_decode raw of
        Inl e \<Rightarrow> Inl (Errorf ''field %s: decode json: %w'' [AStr fieldName, AErr (Opaque ''json.Decode'')])
      | Inr (value, rest) \<Rightarrow>
          if decodes_into_empty_struct rest
          then Inl (Errorf ''field %s: decode json: trailing data'' [AStr fieldName]) else Inr ())"

definition validateTopLevelJSONObject :: "string \<Rightarrow> string \<Rightarrow> unit result" where
  "validateTopLevelJSONObject raw fieldName =
     rbind (map_err (\<lambda>e. Errorf ''field %s: %w'' [AStr fieldName, AErr e]) (httpDecodeStrictJSONAny raw))
       (\<lambda>value. ensure (case value of JObj _ \<Rightarrow> True | _ \<Rightarrow> False)
          (Errorf ''field %s must be a JSON object'' [AStr fieldName]))"

definition validateRequestBodyFields :: "call_expectation \<Rightarrow> unit result" where
  "validateRequestBodyFields c =
     rbind (if httpHasRawJSON (ce_body c) then validateStrictJSON (ce_body c) ''body'' else Inr ()) (\<lambda>_.
     rbind (if httpHasRawJSON (ce_bodySubset c)
            then validateTopLevelJSONObject (ce_bodySubset c) ''body_subset'' else Inr ()) (\<lambda>_.
     let setCount = of_bool (httpHasRawJSON (ce_body c)) + of_bool (httpHasRawJSON (ce_bodySubset c))
           + of_bool (ce_rawBody c \<noteq> None) + of_bool (ce_formBody c \<noteq> None)
           + (of_bool (ce_formBodySubset c \<noteq> None) :: int)
     in ensure (\<not> 1 < setCount)
          (Err ''exactly one of fields body, body_subset, raw_body, form_body, and form_body_subset can be set'')))"

definition validateResponse :: "http_response \<Rightarrow> unit result" where
  "validateResponse r =
     (if hr_status r < 100 \<or> 999 < hr_status r then Inl (Err ''field status must be between 100 and 999'')
      else if httpHasRawJSON (hr_body r) \<and> hr_rawBody r \<noteq> None then
        Inl (Err ''fields body and raw_body are mutually exclusive'')
      else if httpHasRawJSON (hr_body r) then validateStrictJSON (hr_body r) ''body''
      else Inr ())"

definition with_default :: "string \<Rightarrow> string \<Rightarrow> string" where
  "with_default d mode = (if mode = [] then d else mode)"

definition normalizeCall :: "call_expectation \<Rightarrow> call_expectation result" where
  "normalizeCall call =
     (let n = call\<lparr>
        ce_method := trim_space (ce_method call),
        ce_path := trim_space (ce_path call),
        ce_queryMode := with_default QueryModeExact (ce_queryMode call),
        ce_headersMode := with_default HttpHeadersModeExact (ce_headersMode call),
        ce_countMode := with_default CountModeExact (ce_countMode call)\<rparr> in
      rbind (ensure (\<not> ce_expectedCount n < 0)
        (Err ''field expected_count must be greater than or equal to 0'')) (\<lambda>_.
      rbind (ensure (ce_method n \<noteq> []) (Err ''field method is required'')) (\<lambda>_.
      rbind (ensure (ce_path n \<noteq> []) (Err ''field path is required'')) (\<lambda>_.
      rbind (ensure (ce_queryMode n = QueryModeExact \<or> ce_queryMode n = QueryModeSubset)
        (Errorf ''field query_mode has unsupported value %q; allowed values: exact, subset''
           [AStr (ce_queryMode n)])) (\<lambda>_.
      rbind (ensure (ce_headersMode n = HttpHeadersModeExact \<or> ce_headersMode n = HttpHeadersModeSubset)
        (Errorf ''field headers_mode has unsupported value %q; allowed values: exact, subset''
           [AStr (ce_headersMode n)])) (\<lambda>_.
      rbind (ensure (ce_countMode n = CountModeExact \<or> ce_countMode n = CountModeAtLeast)
        (Errorf ''field count_mode has unsupported value %q; allowed values: exact, at_least''
           [AStr (ce_countMode n)])) (\<lambda>_.
      rbind (validateRequestBodyFields n) (\<lambda>_.
      rbind (map_err (\<lambda>e. Errorf ''field response: %w'' [AErr e]) (validateResponse (ce_response n))) (\<lambda>_.
      Inr (n\<lparr>
        ce_query := cloneValues (ce_query call),
        ce_headers := canonicalizeHeaderValues (ce_headers call),
        ce_headersPresent := canonicalizeHeaderNames (ce_headersPresent call),
        ce_body := httpCloneRawMessage (ce_body call),
        ce_bodySubset := httpCloneRawMessage (ce_bodySubset call),
        ce_rawBody := cloneStringPointer (ce_rawBody call),
        ce_formBody := cloneValues (ce_formBody call),
        ce_formBodySubset := cloneValues (ce_formBodySubset call),
        ce_response := cloneResponse (ce_response call)\<rparr>))))))))))"

fun normalizeCalls :: "nat \<Rightarrow> call_expectation list \<Rightarrow> call_expectation list result" where
  "normalizeCalls index [] = Inr []"
| "normalizeCalls index (c # cs) =
     rbind (map_err (\<lambda>e. Errorf ''calls[%d]: %w'' [AInt (int index), AErr e]) (normalizeCall c)) (\<lambda>n.
     rbind (normalizeCalls (Suc index) cs) (\<lambda>ns. Inr (n # ns)))"

definition normalizePlan :: "plan \<Rightarrow> plan result" where
  "normalizePlan p =
     (let ordering = with_default PlanOrderingAny (pl_ordering p) in
      rbind (ensure (ordering = PlanOrderingStrict \<or> ordering = PlanOrderingAny)
        (Errorf ''field ordering has unsupported value %q; allowed values: strict, any''
           [AStr (pl_ordering p)])) (\<lambda>_.
      rbind (normalizeCalls 0 (pl_calls p)) (\<lambda>calls.
      Inr \<lparr>pl_calls = calls, pl_ordering = ordering\<rparr>)))"

definition responseBodyBytes :: "http_response \<Rightarrow> string" where
  "responseBodyBytes r =
     (case hr_rawBody r of
        Some raw \<Rightarrow> raw
      | None \<Rightarrow> if httpHasRawJSON (hr_body r) then hr_body r else [])"

section \<open>matcher.go: one request against one call\<close>

definition sameStringMultiset :: "string list \<Rightarrow> string list \<Rightarrow> bool" where
  "sameStringMultiset actual expected \<longleftrightarrow>
     (if length actual \<noteq> length expected then False else sort actual = sort expected)"

fun matchValueEntries :: "string \<Rightarrow> string list gomap \<Rightarrow> (string \<times> string list) list \<Rightarrow> unit result" where
  "matchValueEntries field actual [] = Inr ()"
| "matchValueEntries field actual ((key, expectedValues) # rest) =
     (case mget actual key of
        None \<Rightarrow> Inl (Errorf ''%s mismatch: key %q is missing'' [AStr field, AStr key])
      | Some actualValues \<Rightarrow>
          if \<not> sameStringMultiset actualValues expectedValues then
            Inl (Errorf ''%s mismatch: key %q values differ'' [AStr field, AStr key])
          else matchValueEntries field actual rest)"

definition matchValues :: "string \<Rightarrow> string \<Rightarrow> string list gomap \<Rightarrow> string list gomap \<Rightarrow> unit result" where
  "matchValues field mode actual expected =
     (if mode = ''exact'' \<and> length actual \<noteq> length expected then
        Inl (Errorf ''%s mismatch: expected %d keys, got %d''
               [AStr field, AInt (int (length expected)), AInt (int (length actual))])
      else matchValueEntries field actual expected)"

fun matchHeaderPresence :: "string list gomap \<Rightarrow> string list \<Rightarrow> unit result" where
  "matchHeaderPresence actual [] = Inr ()"
| "matchHeaderPresence actual (headerName # rest) =
     (if mget actual headerName = None
      then Inl (Errorf ''headers_present mismatch: header %q is missing'' [AStr headerName])
      else matchHeaderPresence actual rest)"

definition matchHeaders :: "call_expectation \<Rightarrow> observed_request \<Rightarrow> unit result" where
  "matchHeaders call request =
     (if ce_headers call = None \<and> length (ce_headersPresent call) = 0 then Inr ()
      else
        let actualHeaders = entries (canonicalizeHeaderValues (or_headers request)) in
        rbind (case ce_headers call of
                 None \<Rightarrow> Inr ()
               | Some expected \<Rightarrow> matchValues ''headers'' (ce_headersMode call) actualHeaders expected)
          (\<lambda>_. matchHeaderPresence actualHeaders (ce_headersPresent call)))"

definition matchFormBody :: "string \<Rightarrow> string \<Rightarrow> string list gomap \<Rightarrow> string \<Rightarrow> unit result" where
  "matchFormBody field mode expected actualRaw =
     (case parse_query actualRaw of
        None \<Rightarrow> Inl (Errorf ''%s mismatch: parse actual form body: %v'' [AStr field, AErr (Opaque ''url.ParseQuery'')])
      | Some actual \<Rightarrow> matchValues field mode actual expected)"

definition matchExactJSONBody :: "string \<Rightarrow> string \<Rightarrow> unit result" where
  "matchExactJSONBody expected actualRaw =
     rbind (map_err (\<lambda>e. Errorf ''body mismatch: decode actual json: %v'' [AErr e])
              (httpDecodeStrictJSONAny actualRaw)) (\<lambda>actual.
     rbind (map_err (\<lambda>e. Errorf ''body mismatch: decode expected json: %v'' [AErr e])
              (httpDecodeStrictJSONAny expected)) (\<lambda>expectedValue.
     ensure (actual = expectedValue) (Err ''body mismatch: json values differ'')))"

definition matchSubsetJSONBody :: "string \<Rightarrow> string \<Rightarrow> unit result" where
  "matchSubsetJSONBody expected actualRaw =
     rbind (map_err (\<lambda>e. Errorf ''body_subset mismatch: decode actual json: %v'' [AErr e])
              (httpDecodeStrictJSONAny actualRaw)) (\<lambda>actual.
     rbind (map_err (\<lambda>e. Errorf ''body_subset mismatch: decode expected json: %v'' [AErr e])
              (httpDecodeStrictJSONAny expected)) (\<lambda>expectedValue.
     map_err (\<lambda>(mismatchPath, mismatchReason).
                Errorf ''body_subset mismatch at %s: %s'' [AStr mismatchPath, AErr mismatchReason])
       (subsetMatch actual expectedValue ''$'')))"

definition matchBody :: "call_expectation \<Rightarrow> observed_request \<Rightarrow> unit result" where
  "matchBody call request =
     (if httpHasRawJSON (ce_body call) then matchExactJSONBody (ce_body call) (or_body request)
      else if httpHasRawJSON (ce_bodySubset call) then matchSubsetJSONBody (ce_bodySubset call) (or_body request)
      else case ce_rawBody call of
        Some raw \<Rightarrow>
          ensure (or_body request = raw)
            (Errorf ''raw_body mismatch: expected %q, got %q'' [AStr raw, AStr (or_body request)])
      | None \<Rightarrow>
          (case ce_formBody call of
             Some form \<Rightarrow> matchFormBody ''form_body'' QueryModeExact form (or_body request)
           | None \<Rightarrow>
               (case ce_formBodySubset call of
                  Some form \<Rightarrow> matchFormBody ''form_body_subset'' QueryModeSubset form (or_body request)
                | None \<Rightarrow> Inr ())))"

definition matchesCall :: "call_expectation \<Rightarrow> observed_request \<Rightarrow> unit result" where
  "matchesCall call request =
     rbind (ensure (or_method request = ce_method call)
       (Errorf ''method mismatch: expected %s, got %s'' [AStr (ce_method call), AStr (or_method request)])) (\<lambda>_.
     rbind (ensure (or_path request = ce_path call)
       (Errorf ''path mismatch: expected %s, got %s'' [AStr (ce_path call), AStr (or_path request)])) (\<lambda>_.
     rbind (case ce_query call of
              None \<Rightarrow> Inr ()
            | Some expected \<Rightarrow> matchValues ''query'' (ce_queryMode call) (entries (or_query request)) expected) (\<lambda>_.
     rbind (matchHeaders call request) (\<lambda>_.
     matchBody call request))))"

section \<open>Values as multisets\<close>

lemma sameStringMultiset_iff: "sameStringMultiset actual expected \<longleftrightarrow> mset actual = mset expected"
  unfolding sameStringMultiset_def
  by (metis mset_sort properties_for_sort size_mset sorted_sort)

definition values_sat :: "string list gomap \<Rightarrow> string list gomap \<Rightarrow> bool" where
  "values_sat actual expected \<longleftrightarrow> submap_by (\<lambda>e a. mset a = mset e) expected actual"

lemma entries_sat:
  assumes "wf_map expected"
  shows "matchValueEntries field actual expected = Inr () \<longleftrightarrow> values_sat actual expected"
proof -
  have "matchValueEntries field actual es = Inr () \<longleftrightarrow>
      list_all (\<lambda>(k, e). case mget actual k of None \<Rightarrow> False | Some a \<Rightarrow> mset a = mset e) es" for es
    by (induction es) (auto simp: sameStringMultiset_iff split: option.splits if_splits)
  then show ?thesis by (simp add: values_sat_def submap_by_list_all [OF assms])
qed

lemma submap_keys: "submap_by P m n \<Longrightarrow> wf_map m \<Longrightarrow> wf_map n \<Longrightarrow> set (mkeys m) \<subseteq> set (mkeys n)"
  by (auto simp: submap_by_def mkeys_def mget_Some_iff) (force simp: mget_Some_iff)

lemma matchValues_subset:
  "wf_map expected \<Longrightarrow> mode \<noteq> ''exact'' \<Longrightarrow> matchValues field mode actual expected = Inr () \<longleftrightarrow> values_sat actual expected"
  by (simp add: matchValues_def entries_sat)

text \<open>The exact mode only counts keys; together with the loop this compares the key sets.\<close>

lemma matchValues_exact:
  assumes "wf_map expected" "wf_map actual"
  shows "matchValues field ''exact'' actual expected = Inr () \<longleftrightarrow>
    values_sat actual expected \<and> set (mkeys actual) = set (mkeys expected)"
proof -
  have d: "distinct (mkeys expected)" "distinct (mkeys actual)"
    using assms by (simp_all add: mkeys_def wf_map_distinct)
  have l: "length m = length (mkeys m)" for m :: "string list gomap" by (simp add: mkeys_def)
  have "length actual = length expected \<longleftrightarrow> set (mkeys actual) = set (mkeys expected)"
    if s: "values_sat actual expected"
  proof
    assume "length actual = length expected"
    then have "card (set (mkeys expected)) = card (set (mkeys actual))"
      by (simp add: d distinct_card l [symmetric])
    moreover have "set (mkeys expected) \<subseteq> set (mkeys actual)"
      using s assms unfolding values_sat_def by (intro submap_keys)
    ultimately show "set (mkeys actual) = set (mkeys expected)" by (metis card_subset_eq List.finite_set)
  next
    assume "set (mkeys actual) = set (mkeys expected)"
    then show "length actual = length expected" using d by (metis distinct_card l)
  qed
  then show ?thesis by (auto simp: matchValues_def entries_sat [OF assms(1)])
qed

section \<open>Normal plans\<close>

lemma trim_canonical: "trim_space (canonicalHeaderKey (trim_space s)) = canonicalHeaderKey (trim_space s)"
  by (simp add: canonicalHeaderKey_def token_not_space canonical_letters_token)

lemma canonical_name_idem:
  "canonicalHeaderKey (trim_space (canonicalHeaderKey (trim_space s))) = canonicalHeaderKey (trim_space s)"
  by (simp add: trim_canonical)

lemma canonicalHeaderKey_Nil [simp]: "canonicalHeaderKey s = [] \<longleftrightarrow> s = []"
  by (cases s) (auto simp: canonicalHeaderKey_def)

lemma canonicalizeHeaderNames_idem:
  "canonicalizeHeaderNames (canonicalizeHeaderNames hs) = canonicalizeHeaderNames hs"
  unfolding canonicalizeHeaderNames_def
  by (induction hs) (auto simp: canonical_name_idem trim_canonical)

lemma mcopy_keys: "(k, v) \<in> set (mcopy [] kvs) \<Longrightarrow> (k, v) \<in> set kvs"
proof -
  assume a: "(k, v) \<in> set (mcopy [] kvs)"
  have "wf_map (mcopy [] kvs)" by (rule wf_mcopy) simp
  then have "mget (mcopy [] kvs) k = Some v" using a by (simp add: mget_Some_iff)
  then have "map_of (rev kvs) k = Some v"
    by (simp add: mget_mcopy split: option.splits)
  then show "(k, v) \<in> set kvs" by (metis map_of_SomeD set_rev)
qed

lemma cloneValues_id: "wf_values v \<Longrightarrow> cloneValues v = v"
  by (auto simp: cloneValues_def wf_values_def mcopy_self split: option.splits)

lemma canonicalizeHeaderValues_wf: "wf_values (canonicalizeHeaderValues v)"
  by (auto simp: canonicalizeHeaderValues_def wf_values_def split: option.splits)

lemma canonicalizeHeaderValues_idem:
  "canonicalizeHeaderValues (canonicalizeHeaderValues v) = canonicalizeHeaderValues v"
proof (cases v)
  case None
  then show ?thesis by (simp add: canonicalizeHeaderValues_def)
next
  case (Some m)
  let ?n = "mcopy [] (map (\<lambda>(key, values). (canonicalHeaderKey (trim_space key), [] @ values)) m)"
  have "map (\<lambda>(key, values). (canonicalHeaderKey (trim_space key), [] @ values)) ?n = ?n"
    by (rule map_idI) (auto dest!: mcopy_keys simp: canonical_name_idem)
  moreover have "mcopy [] ?n = ?n" by (rule mcopy_self) auto
  ultimately show ?thesis by (simp add: canonicalizeHeaderValues_def Some)
qed

lemma clone_simps [simp]:
  "cloneStringPointer p = p" "httpCloneRawMessage r = r" "cloneStrings xs = xs"
  by (simp_all add: cloneStringPointer_def httpCloneRawMessage_def cloneStrings_def split: option.splits)

definition wf_response :: "http_response \<Rightarrow> bool" where
  "wf_response r \<longleftrightarrow> wf_values (hr_headers r)"

lemma cloneResponse_id: "wf_response r \<Longrightarrow> cloneResponse r = r"
  by (simp add: cloneResponse_def wf_response_def cloneValues_id)

definition wf_call :: "call_expectation \<Rightarrow> bool" where
  "wf_call c \<longleftrightarrow> wf_values (ce_query c) \<and> wf_values (ce_headers c) \<and> wf_values (ce_formBody c) \<and>
     wf_values (ce_formBodySubset c) \<and> wf_response (ce_response c)"

definition wf_plan :: "plan \<Rightarrow> bool" where
  "wf_plan p \<longleftrightarrow> list_all wf_call (pl_calls p)"

lemma cloneCall_id: "wf_call c \<Longrightarrow> cloneCall c = c"
  by (simp add: cloneCall_def wf_call_def cloneValues_id cloneResponse_id)

lemma clonePlan_id: "wf_plan p \<Longrightarrow> clonePlan p = p"
  by (simp add: clonePlan_def wf_plan_def cloneCall_id list_all_iff map_idI)

definition normal_call :: "call_expectation \<Rightarrow> bool" where
  "normal_call c \<longleftrightarrow> wf_call c \<and>
     trim_space (ce_method c) = ce_method c \<and> ce_method c \<noteq> [] \<and>
     trim_space (ce_path c) = ce_path c \<and> ce_path c \<noteq> [] \<and> 0 \<le> ce_expectedCount c \<and>
     ce_queryMode c \<in> {QueryModeExact, QueryModeSubset} \<and>
     ce_headersMode c \<in> {HttpHeadersModeExact, HttpHeadersModeSubset} \<and>
     ce_countMode c \<in> {CountModeExact, CountModeAtLeast} \<and>
     canonicalizeHeaderValues (ce_headers c) = ce_headers c \<and>
     canonicalizeHeaderNames (ce_headersPresent c) = ce_headersPresent c \<and>
     validateRequestBodyFields c = Inr () \<and> validateResponse (ce_response c) = Inr ()"

lemma with_default_nonempty: "mode \<noteq> [] \<Longrightarrow> with_default d mode = mode"
  by (simp add: with_default_def)

lemma validateRequestBodyFields_cong:
  "ce_body c = ce_body d \<Longrightarrow> ce_bodySubset c = ce_bodySubset d \<Longrightarrow> ce_rawBody c = ce_rawBody d \<Longrightarrow>
   ce_formBody c = ce_formBody d \<Longrightarrow> ce_formBodySubset c = ce_formBodySubset d \<Longrightarrow>
   validateRequestBodyFields c = validateRequestBodyFields d"
  by (simp add: validateRequestBodyFields_def cong: if_cong)

lemma normalizeCall_normal:
  assumes "wf_call c" "normalizeCall c = Inr n"
  shows "normal_call n"
proof -
  let ?n = "c\<lparr>ce_method := trim_space (ce_method c), ce_path := trim_space (ce_path c),
      ce_queryMode := with_default QueryModeExact (ce_queryMode c),
      ce_headersMode := with_default HttpHeadersModeExact (ce_headersMode c),
      ce_countMode := with_default CountModeExact (ce_countMode c)\<rparr>"
  have n: "n = ?n\<lparr>ce_query := cloneValues (ce_query c), ce_headers := canonicalizeHeaderValues (ce_headers c),
        ce_headersPresent := canonicalizeHeaderNames (ce_headersPresent c), ce_body := ce_body c,
        ce_bodySubset := ce_bodySubset c, ce_rawBody := ce_rawBody c,
        ce_formBody := cloneValues (ce_formBody c), ce_formBodySubset := cloneValues (ce_formBodySubset c),
        ce_response := cloneResponse (ce_response c)\<rparr>"
    and v: "validateRequestBodyFields ?n = Inr ()" and r: "validateResponse (ce_response c) = Inr ()"
    and rest: "\<not> ce_expectedCount c < 0" "trim_space (ce_method c) \<noteq> []" "trim_space (ce_path c) \<noteq> []"
      "ce_queryMode ?n \<in> {QueryModeExact, QueryModeSubset}"
      "ce_headersMode ?n \<in> {HttpHeadersModeExact, HttpHeadersModeSubset}"
      "ce_countMode ?n \<in> {CountModeExact, CountModeAtLeast}"
    using assms(2) by (auto simp: normalizeCall_def Let_def)
  have "validateRequestBodyFields n = validateRequestBodyFields ?n"
    using assms(1) by (intro validateRequestBodyFields_cong) (simp_all add: n wf_call_def cloneValues_id)
  then show ?thesis
    using assms(1) v r rest
    by (simp add: normal_call_def n wf_call_def cloneValues_id cloneResponse_id canonicalizeHeaderValues_wf
        canonicalizeHeaderValues_idem canonicalizeHeaderNames_idem)
qed

lemma mode_nonempty:
  "m \<in> {QueryModeExact, QueryModeSubset} \<Longrightarrow> m \<noteq> []"
  "m \<in> {HttpHeadersModeExact, HttpHeadersModeSubset} \<Longrightarrow> m \<noteq> []"
  "m \<in> {CountModeExact, CountModeAtLeast} \<Longrightarrow> m \<noteq> []"
  "m \<in> {PlanOrderingStrict, PlanOrderingAny} \<Longrightarrow> m \<noteq> []"
  by (auto simp: http_mode_defs)

lemma normal_normalizeCall:
  assumes "normal_call c"
  shows "normalizeCall c = Inr c"
proof -
  note n = assms [unfolded normal_call_def]
  have m: "ce_queryMode c \<noteq> []" "ce_headersMode c \<noteq> []" "ce_countMode c \<noteq> []"
    using n by (auto simp: http_mode_defs)
  have "c\<lparr>ce_method := trim_space (ce_method c), ce_path := trim_space (ce_path c),
      ce_queryMode := with_default QueryModeExact (ce_queryMode c),
      ce_headersMode := with_default HttpHeadersModeExact (ce_headersMode c),
      ce_countMode := with_default CountModeExact (ce_countMode c)\<rparr> = c"
    using n m by (simp add: with_default_nonempty)
  then show ?thesis
    using n unfolding normalizeCall_def Let_def
    by (simp add: cloneValues_id cloneResponse_id wf_call_def)
qed

lemma normalizeCalls_list: "normalizeCalls i cs = Inr ns \<Longrightarrow> list_all2 (\<lambda>c n. normalizeCall c = Inr n) cs ns"
  by (induction cs arbitrary: i ns) auto

lemma normalizeCalls_id: "list_all normal_call ns \<Longrightarrow> normalizeCalls i ns = Inr ns"
  by (induction ns arbitrary: i) (auto simp: normal_normalizeCall)

definition normal_plan :: "plan \<Rightarrow> bool" where
  "normal_plan p \<longleftrightarrow> pl_ordering p \<in> {PlanOrderingStrict, PlanOrderingAny} \<and> list_all normal_call (pl_calls p)"

lemma normalizePlan_normal:
  assumes "wf_plan p" "normalizePlan p = Inr n"
  shows "normal_plan n"
proof -
  have cs: "list_all2 (\<lambda>c n. normalizeCall c = Inr n) (pl_calls p) (pl_calls n)"
    and o: "pl_ordering n \<in> {PlanOrderingStrict, PlanOrderingAny}"
    using assms(2) by (auto simp: normalizePlan_def Let_def dest: normalizeCalls_list)
  have "normal_call (pl_calls n ! i)" if "i < length (pl_calls n)" for i
  proof (rule normalizeCall_normal)
    have i: "i < length (pl_calls p)" using that cs by (simp add: list_all2_lengthD)
    then show "wf_call (pl_calls p ! i)" using assms(1) by (simp add: wf_plan_def list_all_length)
    show "normalizeCall (pl_calls p ! i) = Inr (pl_calls n ! i)" using cs i by (rule list_all2_nthD)
  qed
  with o show ?thesis by (simp add: normal_plan_def list_all_length)
qed

lemma normal_normalizePlan: "normal_plan p \<Longrightarrow> normalizePlan p = Inr p"
  by (auto simp: normalizePlan_def Let_def normal_plan_def normalizeCalls_id with_default_nonempty mode_nonempty)

lemma normal_wf_plan: "normal_plan p \<Longrightarrow> wf_plan p"
  by (simp add: normal_plan_def wf_plan_def normal_call_def list_all_iff)

end
