(* ===== verification/HttpMockServer.thy ===== *)
theory HttpMockServer
  imports HttpMock
begin

text \<open>
  Package \<open>httpmock\<close>: the verdict on a sequence of observed requests (\<open>matcher.go\<close>) and the
  server (\<open>server.go\<close>), a state machine whose steps are the planning of calls and the requests
  it serves.  A request appends and takes its snapshot under one lock, so it is one step.
\<close>

section \<open>Evaluation\<close>

definition expectedTotal :: "call_expectation list \<Rightarrow> int" where
  "expectedTotal calls = foldl (\<lambda>total c. wrap64 (total + ce_expectedCount c)) 0 calls"

definition expandCalls :: "call_expectation list \<Rightarrow> call_expectation list" where
  "expandCalls calls = concat (map (\<lambda>c. replicate (nat (ce_expectedCount c)) c) calls)"

definition describeObservedRequest :: "observed_request \<Rightarrow> err" where
  "describeObservedRequest q = Errorf ''%s %s'' [AStr (or_method q), AStr (or_path q)]"

type_synonym http_outcome = "http_check_result \<times> err option"

definition start_result :: "observed_request list \<Rightarrow> http_check_result" where
  "start_result observed = \<lparr>hc_matchedCount = 0, hc_observed = cloneObservedRequests observed,
     hc_lastMismatchReason = None\<rparr>"

definition strictMismatch :: "http_check_result \<Rightarrow> nat \<Rightarrow> err \<Rightarrow> http_outcome" where
  "strictMismatch result index reason =
     (result\<lparr>hc_lastMismatchReason := Some reason\<rparr>,
      Some (Errorf ''strict ordering mismatch at request %d: %s'' [AInt (int index), AErr reason]))"

definition count_one :: "http_check_result \<Rightarrow> http_check_result" where
  "count_one r = r\<lparr>hc_matchedCount := hc_matchedCount r + 1\<rparr>"

text \<open>The loop over \<open>range limit\<close>: both lists are walked until the shorter one ends.\<close>

fun strictPrefix ::
    "http_check_result \<Rightarrow> nat \<Rightarrow> call_expectation list \<Rightarrow> observed_request list \<Rightarrow> http_outcome" where
  "strictPrefix result index (c # cs) (q # qs) =
     (case matchesCall c q of
        Inl reason \<Rightarrow> strictMismatch result index reason
      | Inr _ \<Rightarrow> strictPrefix (count_one result) (Suc index) cs qs)"
| "strictPrefix result index _ _ = (result, None)"

fun strictExtra ::
    "http_check_result \<Rightarrow> nat \<Rightarrow> call_expectation \<Rightarrow> observed_request list \<Rightarrow> http_outcome" where
  "strictExtra result index lastExpected [] = (result, None)"
| "strictExtra result index lastExpected (q # qs) =
     (case matchesCall lastExpected q of
        Inl reason \<Rightarrow> strictMismatch result index reason
      | Inr _ \<Rightarrow> strictExtra (count_one result) (Suc index) lastExpected qs)"

definition evaluateStrictExtraObserved ::
    "http_check_result \<Rightarrow> call_expectation list \<Rightarrow> observed_request list \<Rightarrow> bool \<Rightarrow> http_outcome" where
  "evaluateStrictExtraObserved result expected observed final =
     (if length expected = 0 then
        (let d = describeObservedRequest (observed ! 0) in
         (result\<lparr>hc_lastMismatchReason := Some d\<rparr>, Some (Errorf ''unexpected request: %s'' [AErr d])))
      else
        let lastExpected = expected ! (length expected - 1) in
        if ce_countMode lastExpected \<noteq> CountModeAtLeast \<and> final then
          (result, Some (Errorf ''expected observed request count=%d, got %d''
                     [AInt (int (length expected)), AInt (int (length observed))]))
        else if ce_countMode lastExpected \<noteq> CountModeAtLeast then (result, None)
        else strictExtra result (length expected) lastExpected (drop (length expected) observed))"

definition and_check :: "http_outcome \<Rightarrow> (http_check_result \<Rightarrow> http_outcome) \<Rightarrow> http_outcome" where
  "and_check r f = (case r of (result, Some e) \<Rightarrow> (result, Some e) | (result, None) \<Rightarrow> f result)"

definition evaluateStrict :: "plan \<Rightarrow> observed_request list \<Rightarrow> bool \<Rightarrow> http_outcome" where
  "evaluateStrict p observed final =
     (let expected = expandCalls (pl_calls p) in
      and_check (strictPrefix (start_result observed) 0 expected observed) (\<lambda>result.
      and_check (if length expected < length observed
                 then evaluateStrictExtraObserved result expected observed final
                 else (result, None)) (\<lambda>result.
        if \<not> final \<and> hc_matchedCount result < int (length expected) then
          (result, Some (Errorf ''expected matched_count=%d, got %d''
                     [AInt (int (length expected)), AInt (hc_matchedCount result)]))
        else if final \<and> length observed < length expected then
          (result, Some (Errorf ''expected observed request count=%d, got %d''
                     [AInt (int (length expected)), AInt (int (length observed))]))
        else (result, None))))"

text \<open>
  \<open>evaluateAny\<close>: the inner loop walks the requests beside the flags \<open>used\<close> and returns the new
  flags, \<open>matchedForCall\<close> and the last reason; \<open>break\<close> leaves the remaining flags as they are.
\<close>

fun scanCall ::
    "call_expectation \<Rightarrow> (bool \<times> observed_request) list \<Rightarrow> int \<Rightarrow> err option \<Rightarrow> bool list \<times> int \<times> err option" where
  "scanCall call [] matchedForCall reason = ([], matchedForCall, reason)"
| "scanCall call ((used, q) # rest) matchedForCall reason =
     (if used then
        (let (us, n, r) = scanCall call rest matchedForCall reason in (used # us, n, r))
      else case matchesCall call q of
        Inl mismatch \<Rightarrow>
          (let (us, n, r) = scanCall call rest matchedForCall (Some mismatch) in (used # us, n, r))
      | Inr _ \<Rightarrow>
          if ce_countMode call = CountModeExact \<and> matchedForCall + 1 = ce_expectedCount call then
            (True # map fst rest, matchedForCall + 1, reason)
          else (let (us, n, r) = scanCall call rest (matchedForCall + 1) reason in (True # us, n, r)))"

fun anyCalls ::
    "call_expectation list \<Rightarrow> call_expectation list \<Rightarrow> observed_request list \<Rightarrow> bool list \<Rightarrow> http_check_result
       \<Rightarrow> bool list \<times> http_outcome" where
  "anyCalls all [] observed used result = (used, result, None)"
| "anyCalls all (call # calls) observed used result =
     (if ce_expectedCount call = 0 then anyCalls all calls observed used result
      else
        let (used', matchedForCall, reason) = scanCall call (zip used observed) 0 (hc_lastMismatchReason result);
            result' = result\<lparr>hc_matchedCount := hc_matchedCount result + matchedForCall,
                            hc_lastMismatchReason := reason\<rparr>
        in if matchedForCall < ce_expectedCount call then
             (let message = Errorf ''expected matched_count=%d, got %d''
                    [AInt (expectedTotal all), AInt (hc_matchedCount result')]
              in (used', result', Some (case reason of None \<Rightarrow> message
                                        | Some r \<Rightarrow> Errorf ''%s: %s'' [AErr message, AErr r])))
           else anyCalls all calls observed used' result')"

definition evaluateAny :: "plan \<Rightarrow> observed_request list \<Rightarrow> bool \<Rightarrow> http_outcome" where
  "evaluateAny p observed final =
     (let (used, outcome) = anyCalls (pl_calls p) (pl_calls p) observed (replicate (length observed) False)
            (start_result observed)
      in and_check outcome (\<lambda>result.
           case (if final then find (\<lambda>(isUsed, q). \<not> isUsed) (zip used observed) else None) of
             None \<Rightarrow> (result, None)
           | Some (_, q) \<Rightarrow>
               (let d = describeObservedRequest q in
                (result\<lparr>hc_lastMismatchReason := Some d\<rparr>, Some (Errorf ''unexpected request: %s'' [AErr d])))))"

definition httpEvaluate :: "plan \<Rightarrow> observed_request list \<Rightarrow> bool \<Rightarrow> http_outcome" where
  "httpEvaluate p observed final =
     (if pl_ordering p = PlanOrderingStrict then evaluateStrict p observed final
      else evaluateAny p observed final)"

section \<open>The response to a request\<close>

text \<open>\<^const>\<open>None\<close> where the code returns \<open>false\<close>.\<close>

definition respond_if :: "call_expectation \<Rightarrow> observed_request \<Rightarrow> http_response option" where
  "respond_if call q = (case matchesCall call q of Inl _ \<Rightarrow> None | Inr _ \<Rightarrow> Some (ce_response call))"

definition strictResponseForRequest :: "plan \<Rightarrow> observed_request list \<Rightarrow> http_response option" where
  "strictResponseForRequest p observed =
     (let expected = expandCalls (pl_calls p); index = length observed - 1 in
      if length observed = 0 then None
      else if length expected = 0 then None
      else if length expected \<le> index then
        (let lastExpected = expected ! (length expected - 1) in
         if ce_countMode lastExpected \<noteq> CountModeAtLeast then None
         else respond_if lastExpected (observed ! index))
      else respond_if (expected ! index) (observed ! index))"

definition seenBy :: "call_expectation \<Rightarrow> observed_request list \<Rightarrow> int" where
  "seenBy call observed = int (length (filter (\<lambda>q. is_ok (matchesCall call q)) observed))"

fun anyResponse :: "call_expectation list \<Rightarrow> observed_request list \<Rightarrow> observed_request \<Rightarrow> http_response option" where
  "anyResponse [] observed current = None"
| "anyResponse (call # calls) observed current =
     (case matchesCall call current of
        Inl _ \<Rightarrow> anyResponse calls observed current
      | Inr _ \<Rightarrow>
          if ce_countMode call = CountModeAtLeast \<or> seenBy call observed \<le> ce_expectedCount call
          then Some (ce_response call)
          else anyResponse calls observed current)"

definition responseForRequest ::
    "plan \<Rightarrow> observed_request list \<Rightarrow> observed_request \<Rightarrow> http_response option" where
  "responseForRequest p observed current =
     (if pl_ordering p = PlanOrderingStrict then strictResponseForRequest p observed
      else anyResponse (pl_calls p) observed current)"

section \<open>server.go\<close>

text \<open>
  An incoming request as \<open>net/http\<close> hands it over.  The body is \<^const>\<open>None\<close> where it is nil,
  and otherwise the bytes the reader yields, with the flag that it then fails instead of
  reporting the end of the stream.
\<close>

record http_request =
  rq_method :: string
  rq_path :: string
  rq_query :: "string list gomap"
  rq_header :: "string list gomap"
  rq_body :: "(string \<times> bool) option"

record server =
  sv_plan :: plan
  sv_observed :: "observed_request list"
  sv_maxRequestBodyBytes :: int
  sv_passThrough :: bool

text \<open>
  What the server writes: a status with headers and a body, or the delegation of the request
  to the handler of a pass-through server.
\<close>

datatype reply =
    Reply int "string list gomap" string
  | Delegate observed_request

definition defaultMaxRequestBodyBytes :: int where "defaultMaxRequestBodyBytes = 1024 * 1024"

definition emptyPlan :: plan where "emptyPlan = \<lparr>pl_calls = [], pl_ordering = []\<rparr>"

definition withMaxRequestBodyBytes :: "int \<Rightarrow> int \<Rightarrow> int" where
  "withMaxRequestBodyBytes n cfg = (if 0 < n then n else cfg)"

definition newServer :: "int option list \<Rightarrow> server" where
  "newServer opts = \<lparr>sv_plan = emptyPlan, sv_observed = [],
     sv_maxRequestBodyBytes =
       foldl (\<lambda>cfg opt. case opt of None \<Rightarrow> cfg | Some n \<Rightarrow> withMaxRequestBodyBytes n cfg)
         defaultMaxRequestBodyBytes opts,
     sv_passThrough = False\<rparr>"

definition newPassThroughServer :: "int option list \<Rightarrow> server" where
  "newPassThroughServer opts = (newServer opts)\<lparr>sv_passThrough := True\<rparr>"

text \<open>
  \<open>io.ReadAll(io.LimitReader(reader, limit+1))\<close>: the sum wraps; a limit that is not positive
  yields nothing, and a failure behind the limit is not seen.
\<close>

definition readBoundedBody :: "(string \<times> bool) option \<Rightarrow> int \<Rightarrow> string result" where
  "readBoundedBody reader limit =
     (case reader of
        None \<Rightarrow> Inr []
      | Some (bytes, fails) \<Rightarrow>
          let n = wrap64 (limit + 1);
              body = (if int (length bytes) \<le> n then bytes else take (nat n) bytes)
          in if fails \<and> int (length bytes) < n
             then Inl (Errorf ''read request body: %w'' [AErr (Opaque ''Read'')])
             else if limit < int (length body) then Inl (Err ''request body exceeds limit'')
             else Inr body)"

definition readObservedRequest :: "server \<Rightarrow> http_request \<Rightarrow> observed_request result" where
  "readObservedRequest s q =
     rbind (readBoundedBody (rq_body q) (sv_maxRequestBodyBytes s)) (\<lambda>body.
       Inr \<lparr>or_method = rq_method q, or_path = rq_path q, or_query = cloneValues (Some (rq_query q)),
            or_headers = cloneHeader (rq_header q), or_body = body\<rparr>)"

text \<open>\<open>writer.Header().Add\<close> over the planned headers, then the status and the body.\<close>

definition writePlannedResponse :: "http_response \<Rightarrow> reply" where
  "writePlannedResponse r =
     Reply (hr_status r)
       (foldl (\<lambda>h (name, value). add_value h (canonicalHeaderKey name, value)) []
          (concat (map (\<lambda>(name, values). map (\<lambda>v. (name, v)) values) (entries (hr_headers r)))))
       (responseBodyBytes r)"

text \<open>\<open>http.Error\<close>.\<close>

definition httpError :: "string \<Rightarrow> int \<Rightarrow> reply" where
  "httpError message code =
     Reply code [(''Content-Type'', [''text/plain; charset=utf-8'']), (''X-Content-Type-Options'', [''nosniff''])]
       (message @ [CHR 0x0A])"

definition serveHTTP :: "server \<Rightarrow> http_request \<Rightarrow> server \<times> reply" where
  "serveHTTP s q =
     (case readObservedRequest s q of
        Inl _ \<Rightarrow> (s, httpError ''httpmock request body is too large'' 413)
      | Inr observed \<Rightarrow>
          let s' = s\<lparr>sv_observed := sv_observed s @ [observed]\<rparr>;
              snapshot = cloneObservedRequests (sv_observed s')
          in case responseForRequest (clonePlan (sv_plan s')) snapshot observed of
               None \<Rightarrow> (s', Reply 500 [] ''unexpected httpmock request'')
             | Some response \<Rightarrow>
                 if sv_passThrough s' then (s', Delegate observed)
                 else (s', writePlannedResponse response))"

text \<open>\<open>ctxErr\<close> is the value of \<open>ctx.Err()\<close>.\<close>

definition serverPlan :: "err option \<Rightarrow> server \<Rightarrow> plan \<Rightarrow> server \<times> unit result" where
  "serverPlan ctxErr s p =
     (case ctxErr of
        Some err \<Rightarrow> (s, Inl (Errorf ''plan http calls: %w'' [AErr err]))
      | None \<Rightarrow>
          (case normalizePlan p of
             Inl err \<Rightarrow> (s, Inl err)
           | Inr normalized \<Rightarrow> (s\<lparr>sv_plan := normalized, sv_observed := []\<rparr>, Inr ())))"

definition serverAwait :: "server \<Rightarrow> http_outcome" where
  "serverAwait s = httpEvaluate (clonePlan (sv_plan s)) (cloneObservedRequests (sv_observed s)) False"

definition serverVerify :: "err option \<Rightarrow> server \<Rightarrow> http_outcome" where
  "serverVerify ctxErr s =
     (case ctxErr of
        Some err \<Rightarrow> (\<lparr>hc_matchedCount = 0, hc_observed = [], hc_lastMismatchReason = None\<rparr>,
                     Some (Errorf ''verify http calls: %w'' [AErr err]))
      | None \<Rightarrow> httpEvaluate (clonePlan (sv_plan s)) (cloneObservedRequests (sv_observed s)) True)"

section \<open>Strict ordering\<close>

abbreviation "fits c q \<equiv> is_ok (matchesCall c q)"

lemma mismatch_simps [simp]: "snd (strictMismatch r i e) = Some (Errorf ''strict ordering mismatch at request %d: %s'' [AInt (int i), AErr e])"
  by (simp add: strictMismatch_def)

lemma count_one_simps [simp]: "hc_matchedCount (count_one r) = hc_matchedCount r + 1"
  by (simp add: count_one_def)

lemma snd_and_check: "snd (and_check r f) = None \<longleftrightarrow> snd r = None \<and> snd (f (fst r)) = None"
  by (auto simp: and_check_def split: prod.splits option.splits)

lemma strictPrefix_ok:
  "snd (strictPrefix r i cs qs) = None \<longleftrightarrow> list_all (\<lambda>(c, q). fits c q) (zip cs qs)"
  by (induction r i cs qs rule: strictPrefix.induct) (auto split: sum.splits)

lemma strictPrefix_count:
  "snd (strictPrefix r i cs qs) = None \<Longrightarrow>
     hc_matchedCount (fst (strictPrefix r i cs qs)) = hc_matchedCount r + int (min (length cs) (length qs))"
  by (induction r i cs qs rule: strictPrefix.induct) (auto split: sum.splits)

lemma strictExtra_ok: "snd (strictExtra r i c qs) = None \<longleftrightarrow> list_all (fits c) qs"
  by (induction r i c qs rule: strictExtra.induct) (auto split: sum.splits)

lemma strictExtra_count:
  "snd (strictExtra r i c qs) = None \<Longrightarrow> hc_matchedCount r \<le> hc_matchedCount (fst (strictExtra r i c qs))"
  by (induction r i c qs rule: strictExtra.induct) (auto split: sum.splits)

lemma extra_ok:
  "snd (evaluateStrictExtraObserved r ex obs final) = None \<longleftrightarrow>
     ex \<noteq> [] \<and> (ce_countMode (last ex) \<noteq> CountModeAtLeast \<and> \<not> final \<or>
       ce_countMode (last ex) = CountModeAtLeast \<and> list_all (fits (last ex)) (drop (length ex) obs))"
  by (auto simp: evaluateStrictExtraObserved_def Let_def last_conv_nth strictExtra_ok)

lemma extra_count:
  "snd (evaluateStrictExtraObserved r ex obs final) = None \<Longrightarrow>
     hc_matchedCount r \<le> hc_matchedCount (fst (evaluateStrictExtraObserved r ex obs final))"
  by (auto simp: evaluateStrictExtraObserved_def Let_def strictExtra_count split: if_splits)

lemma start_simps [simp]: "hc_matchedCount (start_result obs) = 0"
  by (simp add: start_result_def)

text \<open>The slot of the \<open>k\<close>-th request of a strict plan: the call it is compared with.\<close>

definition slot :: "call_expectation list \<Rightarrow> nat \<Rightarrow> call_expectation option" where
  "slot ex k =
     (if k < length ex then Some (ex ! k)
      else if ex \<noteq> [] \<and> ce_countMode (last ex) = CountModeAtLeast then Some (last ex) else None)"

definition slots_ok :: "call_expectation list \<Rightarrow> observed_request list \<Rightarrow> bool" where
  "slots_ok ex obs \<longleftrightarrow> (\<forall>k < length obs. \<exists>c. slot ex k = Some c \<and> fits c (obs ! k))"

lemma list_all_drop: "list_all P (drop n xs) \<longleftrightarrow> (\<forall>k. n \<le> k \<and> k < length xs \<longrightarrow> P (xs ! k))"
proof
  assume a: "list_all P (drop n xs)"
  show "\<forall>k. n \<le> k \<and> k < length xs \<longrightarrow> P (xs ! k)"
  proof (intro allI impI)
    fix k assume k: "n \<le> k \<and> k < length xs"
    then have "k - n < length (drop n xs)" by (simp add: diff_less_mono)
    with a have "P (drop n xs ! (k - n))" unfolding list_all_length by blast
    moreover have "drop n xs ! (k - n) = xs ! k" using k by (simp add: nth_drop del: length_drop)
    ultimately show "P (xs ! k)" by (simp only:)
  qed
qed (simp add: list_all_length)

lemma slots_split:
  "slots_ok ex obs \<longleftrightarrow> list_all (\<lambda>(c, q). fits c q) (zip ex obs) \<and>
     (length ex < length obs \<longrightarrow> ex \<noteq> [] \<and> ce_countMode (last ex) = CountModeAtLeast \<and>
        list_all (fits (last ex)) (drop (length ex) obs))"
proof (cases "length ex < length obs")
  case False
  then have "slot ex k = Some (ex ! k)" if "k < length obs" for k
    using that by (simp add: slot_def)
  with False show ?thesis by (simp add: slots_ok_def list_all_length)
next
  case True
  have split: "(\<forall>k < length obs. Q k) \<longleftrightarrow>
      (\<forall>k < length ex. Q k) \<and> (\<forall>k. length ex \<le> k \<and> k < length obs \<longrightarrow> Q k)" for Q
    using True by (meson le_less_linear order_less_trans)
  have low: "k < length ex \<Longrightarrow> (\<exists>c. slot ex k = Some c \<and> fits c q) \<longleftrightarrow> fits (ex ! k) q" for k q
    by (simp add: slot_def)
  have high: "length ex \<le> k \<Longrightarrow> (\<exists>c. slot ex k = Some c \<and> fits c q) \<longleftrightarrow>
      ex \<noteq> [] \<and> ce_countMode (last ex) = CountModeAtLeast \<and> fits (last ex) q" for k q
    by (simp add: slot_def)
  have "slots_ok ex obs \<longleftrightarrow> (\<forall>k < length ex. fits (ex ! k) (obs ! k)) \<and>
      (\<forall>k. length ex \<le> k \<and> k < length obs \<longrightarrow>
         ex \<noteq> [] \<and> ce_countMode (last ex) = CountModeAtLeast \<and> fits (last ex) (obs ! k))"
    unfolding slots_ok_def split using low high by auto
  moreover have "(\<forall>k. length ex \<le> k \<and> k < length obs \<longrightarrow>
         ex \<noteq> [] \<and> ce_countMode (last ex) = CountModeAtLeast \<and> fits (last ex) (obs ! k)) \<longleftrightarrow>
      ex \<noteq> [] \<and> ce_countMode (last ex) = CountModeAtLeast \<and> list_all (fits (last ex)) (drop (length ex) obs)"
    using True unfolding list_all_drop by blast
  ultimately show ?thesis using True by (simp add: list_all_length)
qed

lemma evaluateStrict_final:
  "snd (evaluateStrict p obs True) = None \<longleftrightarrow>
     length (expandCalls (pl_calls p)) \<le> length obs \<and> slots_ok (expandCalls (pl_calls p)) obs"
  unfolding evaluateStrict_def Let_def snd_and_check slots_split
  by (auto simp: strictPrefix_ok extra_ok)

lemma strict_response_slot:
  assumes "k < length obs"
  shows "strictResponseForRequest p (take (Suc k) obs) =
    (case slot (expandCalls (pl_calls p)) k of
       None \<Rightarrow> None
     | Some c \<Rightarrow> if fits c (obs ! k) then Some (ce_response c) else None)"
proof -
  have l: "length (take (Suc k) obs) = Suc k" "take (Suc k) obs ! k = obs ! k"
    using assms by auto
  have f: "respond_if c q = (if fits c q then Some (ce_response c) else None)" for c q
    by (cases "matchesCall c q") (auto simp: respond_if_def)
  show ?thesis
    unfolding strictResponseForRequest_def Let_def l(1) slot_def
    by (simp add: f l(2) last_conv_nth not_less)
qed

lemma strict_served:
  "slots_ok (expandCalls (pl_calls p)) obs \<longleftrightarrow>
     (\<forall>k < length obs. strictResponseForRequest p (take (Suc k) obs) \<noteq> None)"
  unfolding slots_ok_def by (auto simp: strict_response_slot split: option.splits)

lemma evaluateStrict_await:
  assumes "snd (evaluateStrict p obs True) = None"
  shows "snd (evaluateStrict p obs False) = None"
proof -
  let ?ex = "expandCalls (pl_calls p)"
  let ?r = "strictPrefix (start_result obs) 0 ?ex obs"
  have le: "length ?ex \<le> length obs" and ok: "snd ?r = None"
    and extra: "length ?ex < length obs \<Longrightarrow>
      snd (evaluateStrictExtraObserved (fst ?r) ?ex obs False) = None"
    using assms by (auto simp: evaluateStrict_final slots_split strictPrefix_ok extra_ok)
  have n: "hc_matchedCount (fst ?r) = int (length ?ex)"
    using strictPrefix_count [OF ok] le by (simp add: min_def)
  show ?thesis
    unfolding evaluateStrict_def Let_def snd_and_check
    using ok extra n extra_count [OF extra] by auto
qed

section \<open>Any ordering\<close>

text \<open>The requests no call has used yet.\<close>

definition free :: "(bool \<times> observed_request) list \<Rightarrow> observed_request list" where
  "free ps = map snd (filter (\<lambda>p. \<not> fst p) ps)"

lemma free_simps [simp]: "free [] = []" "free ((u, q) # ps) = (if u then free ps else q # free ps)"
  by (simp_all add: free_def)

lemma free_flags: "free (zip (map fst ps) (map snd ps)) = free ps"
  by (simp add: zip_map_fst_snd)

lemma scanCall_groups:
  "scanCall c ps m r = (us, n, r') \<Longrightarrow>
     length us = length ps \<and>
     (\<exists>g. mset (free ps) = mset g + mset (free (zip us (map snd ps))) \<and> list_all (fits c) g \<and>
        n = m + int (length g) \<and>
        (ce_countMode c = CountModeExact \<and> m < ce_expectedCount c \<longrightarrow> n \<le> ce_expectedCount c))"
proof (induction c ps m r arbitrary: us n r' rule: scanCall.induct)
  case (1 c m r)
  then show ?case by simp
next
  case (2 c used q rest m r)
  show ?case
  proof (cases used)
    case True
    obtain us1 where s: "scanCall c rest m r = (us1, n, r')" "us = True # us1"
      using 2(4) True by (auto split: prod.splits)
    show ?thesis using 2(1) [OF True s(1)] by (simp add: True s(2))
  next
    case unused: False
    show ?thesis
    proof (cases "matchesCall c q")
      case (Inl e)
      obtain us1 where s: "scanCall c rest m (Some e) = (us1, n, r')" "us = False # us1"
        using 2(4) unused Inl by (auto split: prod.splits)
      show ?thesis using 2(2) [OF unused Inl s(1)] by (auto simp: unused s(2))
    next
      case (Inr u)
      then have q: "fits c q" by simp
      show ?thesis
      proof (cases "ce_countMode c = CountModeExact \<and> m + 1 = ce_expectedCount c")
        case True
        then have "us = True # map fst rest" "n = m + 1" using 2(4) unused Inr by auto
        then show ?thesis
          using True q by (auto simp: unused free_flags intro!: exI [of _ "[q]"])
      next
        case False
        obtain us1 where s: "scanCall c rest (m + 1) r = (us1, n, r')" "us = True # us1"
          using 2(4) unused Inr False by (auto split: prod.splits)
        obtain g where l: "length us1 = length rest"
          and g: "mset (free rest) = mset g + mset (free (zip us1 (map snd rest)))" "list_all (fits c) g"
            "n = m + 1 + int (length g)"
            "ce_countMode c = CountModeExact \<and> m + 1 < ce_expectedCount c \<longrightarrow> n \<le> ce_expectedCount c"
          using 2(3) [OF unused Inr False s(1)] by blast
        show ?thesis
          using False g q by (auto simp: unused s(2) l intro!: exI [of _ "q # g"])
      qed
    qed
  qed
qed

text \<open>What a call must have been given.\<close>

definition group_ok :: "call_expectation \<Rightarrow> observed_request list \<Rightarrow> bool" where
  "group_ok c g \<longleftrightarrow> list_all (fits c) g \<and>
     (if ce_expectedCount c = 0 then g = []
      else ce_expectedCount c \<le> int (length g) \<and>
        (ce_countMode c = CountModeExact \<longrightarrow> int (length g) = ce_expectedCount c))"

lemma anyCalls_groups:
  "anyCalls all cs obs used res = (used', res', None) \<Longrightarrow> length used = length obs \<Longrightarrow>
   list_all (\<lambda>c. 0 \<le> ce_expectedCount c) cs \<Longrightarrow>
     length used' = length obs \<and>
     (\<exists>gs. list_all2 group_ok cs gs \<and>
        mset (free (zip used obs)) = mset (concat gs) + mset (free (zip used' obs)))"
proof (induction all cs obs used res arbitrary: used' res' rule: anyCalls.induct)
  case (1 all obs used res)
  then show ?case by auto
next
  case (2 all c cs obs used res)
  show ?case
  proof (cases "ce_expectedCount c = 0")
    case True
    then obtain gs where "length used' = length obs" "list_all2 group_ok cs gs"
      "mset (free (zip used obs)) = mset (concat gs) + mset (free (zip used' obs))"
      using 2 by auto
    moreover have "group_ok c []" using True by (simp add: group_ok_def)
    ultimately show ?thesis by (intro conjI exI [of _ "[] # gs"]) auto
  next
    case False
    obtain us n r where s: "scanCall c (zip used obs) 0 (hc_lastMismatchReason res) = (us, n, r)"
      by (cases "scanCall c (zip used obs) 0 (hc_lastMismatchReason res)")
    let ?res = "res\<lparr>hc_matchedCount := hc_matchedCount res + n, hc_lastMismatchReason := r\<rparr>"
    have n: "\<not> n < ce_expectedCount c" and rest: "anyCalls all cs obs us ?res = (used', res', None)"
      using 2(3) False by (auto simp: s Let_def split: if_splits)
    obtain g where l: "length us = length (zip used obs)"
      and g: "mset (free (zip used obs)) = mset g + mset (free (zip us (map snd (zip used obs))))"
        "list_all (fits c) g" "n = int (length g)"
        "ce_countMode c = CountModeExact \<and> 0 < ce_expectedCount c \<longrightarrow> n \<le> ce_expectedCount c"
      using scanCall_groups [OF s] by auto
    have lu: "length us = length obs" using l 2(4) by simp
    have z: "map snd (zip used obs) = obs" using 2(4) by simp
    obtain gs where gs: "length used' = length obs" "list_all2 group_ok cs gs"
      "mset (free (zip us obs)) = mset (concat gs) + mset (free (zip used' obs))"
      using 2(2) [OF False s [symmetric] refl refl refl n rest lu] 2(5) by auto
    have "group_ok c g" using g n False 2(5) by (auto simp: group_ok_def)
    then show ?thesis
      using gs g(1) by (intro conjI exI [of _ "g # gs"]) (auto simp: z)
  qed
qed

lemma free_unused: "length qs = n \<Longrightarrow> free (zip (replicate n False) qs) = qs"
  by (induction qs arbitrary: n) (auto simp: free_def)

lemma find_unused: "find (\<lambda>(isUsed, q). \<not> isUsed) ps = None \<longleftrightarrow> free ps = []"
  by (auto simp: free_def find_None_iff filter_empty_conv)

lemma evaluateAny_sound:
  assumes "snd (evaluateAny p obs True) = None" "list_all (\<lambda>c. 0 \<le> ce_expectedCount c) (pl_calls p)"
  shows "\<exists>gs. list_all2 group_ok (pl_calls p) gs \<and> mset (concat gs) = mset obs"
proof -
  let ?a = "anyCalls (pl_calls p) (pl_calls p) obs (replicate (length obs) False) (start_result obs)"
  obtain used r where a: "?a = (used, r, None)" and f: "find (\<lambda>(isUsed, q). \<not> isUsed) (zip used obs) = None"
    using assms(1) by (auto simp: evaluateAny_def Let_def snd_and_check split: prod.splits option.splits)
  obtain gs where gs: "list_all2 group_ok (pl_calls p) gs"
    "mset (free (zip (replicate (length obs) False) obs)) = mset (concat gs) + mset (free (zip used obs))"
    using anyCalls_groups [OF a _ assms(2)] by auto
  have "free (zip used obs) = []" using f by (simp add: find_unused)
  with gs show ?thesis by (intro exI [of _ gs]) (simp add: free_unused)
qed

lemma evaluateAny_await: "snd (evaluateAny p obs True) = None \<Longrightarrow> snd (evaluateAny p obs False) = None"
  by (auto simp: evaluateAny_def Let_def snd_and_check split: prod.splits)

section \<open>The server as a state machine\<close>

definition wf_http_request :: "http_request \<Rightarrow> bool" where
  "wf_http_request q \<longleftrightarrow> wf_map (rq_query q)"

inductive server_step :: "server \<Rightarrow> server \<Rightarrow> bool" where
  step_plan: "wf_plan p \<Longrightarrow> serverPlan ctxErr s p = (s', r) \<Longrightarrow> server_step s s'"
| step_serve: "wf_http_request q \<Longrightarrow> serveHTTP s q = (s', reply) \<Longrightarrow> server_step s s'"

inductive server_reachable :: "server \<Rightarrow> bool" where
  reach_new: "server_reachable (newServer opts)"
| reach_new_pass: "server_reachable (newPassThroughServer opts)"
| reach_step: "server_reachable s \<Longrightarrow> server_step s s' \<Longrightarrow> server_reachable s'"

inductive_cases server_stepE: "server_step s s'"

definition wf_observed :: "observed_request \<Rightarrow> bool" where
  "wf_observed q \<longleftrightarrow> wf_values (or_query q) \<and> wf_values (or_headers q)"

definition server_inv :: "server \<Rightarrow> bool" where
  "server_inv s \<longleftrightarrow>
     (normal_plan (sv_plan s) \<or> sv_plan s = emptyPlan) \<and>
     0 < sv_maxRequestBodyBytes s \<and>
     (\<forall>q \<in> set (sv_observed s). wf_observed q \<and> int (length (or_body q)) \<le> sv_maxRequestBodyBytes s)"

lemma cloneObserved_id: "\<forall>q \<in> set qs. wf_observed q \<Longrightarrow> cloneObservedRequests qs = qs"
  unfolding cloneObservedRequests_def
  by (rule map_idI) (simp add: wf_observed_def cloneValues_id)

lemma server_inv_plan: "server_inv s \<Longrightarrow> clonePlan (sv_plan s) = sv_plan s"
  unfolding server_inv_def
proof (elim conjE disjE)
  show "clonePlan (sv_plan s) = sv_plan s" if "normal_plan (sv_plan s)"
    using that by (intro clonePlan_id normal_wf_plan)
  show "clonePlan (sv_plan s) = sv_plan s" if "sv_plan s = emptyPlan"
    using that by (simp add: emptyPlan_def clonePlan_def)
qed

lemma server_inv_observed: "server_inv s \<Longrightarrow> cloneObservedRequests (sv_observed s) = sv_observed s"
  by (auto simp: server_inv_def intro: cloneObserved_id)

lemma server_inv_new: "server_inv (newServer opts)" "server_inv (newPassThroughServer opts)"
proof -
  have "0 < cfg \<Longrightarrow> 0 < foldl (\<lambda>cfg opt. case opt of None \<Rightarrow> cfg | Some n \<Rightarrow> withMaxRequestBodyBytes n cfg) cfg opts"
    for cfg :: int
    by (induction opts arbitrary: cfg) (auto simp: withMaxRequestBodyBytes_def split: option.splits)
  then show "server_inv (newServer opts)" "server_inv (newPassThroughServer opts)"
    by (simp_all add: server_inv_def newServer_def newPassThroughServer_def defaultMaxRequestBodyBytes_def)
qed

lemma readBoundedBody_bound: "readBoundedBody b limit = Inr body \<Longrightarrow> 0 < limit \<Longrightarrow> int (length body) \<le> limit"
  by (auto simp: readBoundedBody_def Let_def split: option.splits if_splits)

lemma readObserved_wf:
  "readObservedRequest s q = Inr ob \<Longrightarrow> wf_http_request q \<Longrightarrow> 0 < sv_maxRequestBodyBytes s \<Longrightarrow>
     wf_observed ob \<and> int (length (or_body ob)) \<le> sv_maxRequestBodyBytes s"
  by (auto simp: readObservedRequest_def wf_observed_def wf_values_def cloneValues_def cloneHeader_def
      dest: readBoundedBody_bound)

lemma serveHTTP_state:
  "fst (serveHTTP s q) =
     (case readObservedRequest s q of Inl _ \<Rightarrow> s | Inr ob \<Rightarrow> s\<lparr>sv_observed := sv_observed s @ [ob]\<rparr>)"
  by (auto simp: serveHTTP_def Let_def split: sum.splits option.splits)

lemma server_step_inv: "server_step s s' \<Longrightarrow> server_inv s \<Longrightarrow> server_inv s'"
proof (erule server_stepE)
  fix p ctxErr r
  assume "server_inv s" "wf_plan p" "serverPlan ctxErr s p = (s', r)"
  then show "server_inv s'"
    by (auto simp: serverPlan_def server_inv_def dest: normalizePlan_normal split: option.splits sum.splits)
next
  fix q rep
  assume inv: "server_inv s" and q: "wf_http_request q" and "serveHTTP s q = (s', rep)"
  then have s': "s' = fst (serveHTTP s q)" by simp
  have pos: "0 < sv_maxRequestBodyBytes s" using inv by (simp add: server_inv_def)
  show "server_inv s'"
    using inv readObserved_wf [OF _ q pos]
    unfolding s' serveHTTP_state server_inv_def
    by (cases "readObservedRequest s q") auto
qed

lemma reachable_inv: "server_reachable s \<Longrightarrow> server_inv s"
  by (induction rule: server_reachable.induct) (auto simp: server_inv_new server_step_inv)

lemma server_views:
  assumes "server_inv s"
  shows "serverAwait s = httpEvaluate (sv_plan s) (sv_observed s) False"
    "serverVerify None s = httpEvaluate (sv_plan s) (sv_observed s) True"
  by (simp_all add: serverAwait_def serverVerify_def server_inv_plan [OF assms] server_inv_observed [OF assms])

lemma expandCalls_set: "c \<in> set (expandCalls cs) \<Longrightarrow> c \<in> set cs"
  by (auto simp: expandCalls_def split: if_splits)

lemma any_response_call:
  "anyResponse cs obs q = Some r \<Longrightarrow> \<exists>c \<in> set cs. fits c q \<and> r = ce_response c"
  by (induction cs obs q rule: anyResponse.induct) (auto split: sum.splits if_splits)

lemma response_of_call:
  assumes "responseForRequest p (obs @ [q]) q = Some r"
  shows "\<exists>c \<in> set (pl_calls p). fits c q \<and> r = ce_response c"
proof (cases "pl_ordering p = PlanOrderingStrict")
  case True
  then have "strictResponseForRequest p (take (Suc (length obs)) (obs @ [q])) = Some r"
    using assms by (simp add: responseForRequest_def)
  then obtain c where c: "slot (expandCalls (pl_calls p)) (length obs) = Some c" "fits c q" "r = ce_response c"
    by (subst (asm) strict_response_slot) (auto split: option.splits if_splits)
  have "c \<in> set (expandCalls (pl_calls p))" using c(1) by (auto simp: slot_def split: if_splits)
  with c show ?thesis using expandCalls_set by blast
next
  case False
  then show ?thesis using assms by (simp add: responseForRequest_def any_response_call)
qed

section \<open>Sample servers\<close>

definition ok_response :: "string \<Rightarrow> http_response" where
  "ok_response body = \<lparr>hr_status = 200, hr_headers = None, hr_body = [], hr_rawBody = Some body\<rparr>"

definition get_call :: "string \<Rightarrow> int \<Rightarrow> string \<Rightarrow> string \<Rightarrow> call_expectation" where
  "get_call path n mode body = \<lparr>ce_name = [], ce_expectedCount = n, ce_countMode = mode, ce_method = ''GET'',
     ce_path = path, ce_query = None, ce_queryMode = [], ce_headers = None, ce_headersMode = [],
     ce_headersPresent = [], ce_body = [], ce_bodySubset = [], ce_rawBody = None, ce_formBody = None,
     ce_formBodySubset = None, ce_response = ok_response body\<rparr>"

definition sample_plan :: plan where
  "sample_plan = \<lparr>pl_calls = [get_call ''/a'' 1 [] ''1'', get_call ''/b'' 1 CountModeAtLeast ''2''],
     pl_ordering = PlanOrderingStrict\<rparr>"

definition get_request :: "string \<Rightarrow> http_request" where
  "get_request path = \<lparr>rq_method = ''GET'', rq_path = path, rq_query = [], rq_header = [], rq_body = None\<rparr>"

definition planned_server :: "plan \<Rightarrow> server" where
  "planned_server p = fst (serverPlan None (newServer []) p)"

definition serve_all :: "server \<Rightarrow> string list \<Rightarrow> server" where
  "serve_all s paths = foldl (\<lambda>s path. fst (serveHTTP s (get_request path))) s paths"

lemma serve_all_reachable: "server_reachable s \<Longrightarrow> server_reachable (serve_all s paths)"
  unfolding serve_all_def
proof (induction paths arbitrary: s)
  case Nil
  then show ?case by simp
next
  case (Cons path paths)
  have "server_step s (fst (serveHTTP s (get_request path)))"
    by (rule step_serve [of "get_request path" _ _ "snd (serveHTTP s (get_request path))"])
       (simp_all add: wf_http_request_def get_request_def)
  then show ?case using Cons by (simp add: reach_step)
qed

lemma planned_reachable: "wf_plan p \<Longrightarrow> server_reachable (planned_server p)"
  unfolding planned_server_def
  by (rule reach_step [OF reach_new [of "[]"]], rule step_plan [of p None _ _ "snd (serverPlan None (newServer []) p)"])
     simp_all

lemma sample_wf_plan: "wf_plan sample_plan"
  by (simp add: wf_plan_def sample_plan_def get_call_def wf_call_def wf_values_def wf_response_def ok_response_def)

lemma sample_reachable: "server_reachable (serve_all (planned_server sample_plan) paths)"
  by (intro serve_all_reachable planned_reachable sample_wf_plan)

definition query_call :: "call_expectation" where
  "query_call = (get_call ''/a'' 1 [] ''2'')\<lparr>ce_query := Some [(''x'', [''1''])]\<rparr>"

definition query_request :: http_request where
  "query_request = (get_request ''/a'')\<lparr>rq_query := [(''x'', [''1''])]\<rparr>"

section \<open>Properties\<close>

text \<open>A normalised plan is a fixed point of the normalisation.\<close>

theorem normalizePlan_idem:
  assumes "wf_plan p" "normalizePlan p = Inr n"
  shows "normalizePlan n = Inr n"
  using assms by (intro normal_normalizePlan normalizePlan_normal)

theorem normalizePlan_idem_witness:
  "\<exists>n. normalizePlan sample_plan = Inr n \<and> n \<noteq> sample_plan \<and> normalizePlan n = Inr n"
proof -
  have "is_ok (normalizePlan sample_plan) \<and> normalizePlan sample_plan \<noteq> Inr sample_plan" by code_simp
  then show ?thesis using normalizePlan_idem [OF sample_wf_plan] by (auto simp: is_ok_iff)
qed

text \<open>
  C22: in every reachable state of the server the plan is normal (or no plan was made), the limit
  is positive, and no recorded body is longer than it.
\<close>

theorem server_invariant:
  assumes "server_reachable s"
  shows "(normalizePlan (sv_plan s) = Inr (sv_plan s) \<or> sv_plan s = emptyPlan) \<and>
    0 < sv_maxRequestBodyBytes s \<and>
    (\<forall>q \<in> set (sv_observed s). int (length (or_body q)) \<le> sv_maxRequestBodyBytes s)"
  using reachable_inv [OF assms] by (auto simp: server_inv_def normal_normalizePlan)

theorem server_invariant_witness:
  "normalizePlan (sv_plan (serve_all (planned_server sample_plan) [''/a''])) =
     Inr (sv_plan (serve_all (planned_server sample_plan) [''/a'']))"
proof -
  have "sv_plan (serve_all (planned_server sample_plan) [''/a'']) \<noteq> emptyPlan" by code_simp
  then show ?thesis using server_invariant [OF sample_reachable] by blast
qed

text \<open>
  C20: under strict ordering the final verification accepts exactly when the server answered
  every request since the plan with a planned response and at least the expanded number of
  calls arrived.
\<close>

theorem strict_verify_iff_answered:
  assumes "server_reachable s" "pl_ordering (sv_plan s) = PlanOrderingStrict"
  shows "snd (serverVerify None s) = None \<longleftrightarrow>
    length (expandCalls (pl_calls (sv_plan s))) \<le> length (sv_observed s) \<and>
    (\<forall>k < length (sv_observed s).
       responseForRequest (sv_plan s) (take (Suc k) (sv_observed s)) (sv_observed s ! k) \<noteq> None)"
  unfolding server_views(2) [OF reachable_inv [OF assms(1)]] httpEvaluate_def responseForRequest_def assms(2)
  by (simp add: evaluateStrict_final strict_served)

theorem strict_verify_iff_answered_witness:
  "snd (serverVerify None (serve_all (planned_server sample_plan) [''/a'', ''/b'', ''/b''])) = None \<and>
   responseForRequest (sv_plan (planned_server sample_plan))
     (take (Suc 2) (sv_observed (serve_all (planned_server sample_plan) [''/a'', ''/b'', ''/b''])))
     (sv_observed (serve_all (planned_server sample_plan) [''/a'', ''/b'', ''/b'']) ! 2) \<noteq> None"
proof -
  let ?s = "serve_all (planned_server sample_plan) [''/a'', ''/b'', ''/b'']"
  have v: "snd (serverVerify None ?s) = None" and o: "pl_ordering (sv_plan ?s) = PlanOrderingStrict"
    and l: "length (sv_observed ?s) = 3" and p: "sv_plan ?s = sv_plan (planned_server sample_plan)"
    by code_simp+
  have "\<forall>k < 3. responseForRequest (sv_plan (planned_server sample_plan)) (take (Suc k) (sv_observed ?s))
      (sv_observed ?s ! k) \<noteq> None"
    using strict_verify_iff_answered [OF sample_reachable o] v unfolding l p by blast
  from this [rule_format, of 2] v show ?thesis by simp
qed

text \<open>What the verification accepts, the await check accepts too.\<close>

theorem verify_then_await:
  assumes "server_reachable s" "snd (serverVerify None s) = None"
  shows "snd (serverAwait s) = None"
  using assms(2) unfolding server_views [OF reachable_inv [OF assms(1)]] httpEvaluate_def
  by (auto simp: evaluateStrict_await evaluateAny_await split: if_splits)

theorem verify_then_await_witness:
  "snd (serverAwait (serve_all (planned_server sample_plan) [''/a'', ''/b''])) = None"
proof -
  have "snd (serverVerify None (serve_all (planned_server sample_plan) [''/a'', ''/b''])) = None" by code_simp
  then show ?thesis by (rule verify_then_await [OF sample_reachable])
qed

text \<open>
  C21: under any other ordering an accepting verification gives a distribution of all observed
  requests over the planned calls: every request fits the call it is given to, a call with
  \<open>exact\<close> counting gets exactly, one with \<open>at_least\<close> at least its expected number, and a call
  with the expected number zero gets none.
\<close>

theorem any_verify_sound:
  assumes "server_reachable s" "pl_ordering (sv_plan s) \<noteq> PlanOrderingStrict"
    and "snd (serverVerify None s) = None"
  shows "\<exists>gs. list_all2 group_ok (pl_calls (sv_plan s)) gs \<and> mset (concat gs) = mset (sv_observed s)"
proof (rule evaluateAny_sound)
  note inv = reachable_inv [OF assms(1)]
  show "snd (evaluateAny (sv_plan s) (sv_observed s) True) = None"
    using assms(2,3) by (simp add: server_views [OF inv] httpEvaluate_def)
  show "list_all (\<lambda>c. 0 \<le> ce_expectedCount c) (pl_calls (sv_plan s))"
    using inv by (auto simp: server_inv_def emptyPlan_def normal_plan_def list_all_iff normal_call_def)
qed

definition any_plan :: "call_expectation list \<Rightarrow> plan" where
  "any_plan calls = \<lparr>pl_calls = calls, pl_ordering = PlanOrderingAny\<rparr>"

theorem any_verify_sound_witness:
  "\<exists>gs. list_all2 group_ok (pl_calls (sv_plan (planned_server (any_plan [get_call ''/a'' 1 [] ''1''])))) gs \<and>
     length (concat gs) = 1"
proof -
  let ?p = "any_plan [get_call ''/a'' 1 [] ''1'']"
  let ?s = "serve_all (planned_server ?p) [''/a'']"
  have w: "wf_plan ?p"
    by (simp add: wf_plan_def any_plan_def get_call_def wf_call_def wf_values_def wf_response_def ok_response_def)
  have r: "server_reachable ?s" by (intro serve_all_reachable planned_reachable w)
  have v: "snd (serverVerify None ?s) = None" and o: "pl_ordering (sv_plan ?s) \<noteq> PlanOrderingStrict"
    and l: "length (sv_observed ?s) = 1" and p: "sv_plan ?s = sv_plan (planned_server ?p)"
    by code_simp+
  obtain gs where "list_all2 group_ok (pl_calls (sv_plan ?s)) gs" "mset (concat gs) = mset (sv_observed ?s)"
    using any_verify_sound [OF r o v] by blast
  then show ?thesis using l unfolding p by (metis size_mset)
qed

text \<open>
  The planned call that is due for a request after \<open>earlier\<close> ones.  Under strict ordering the calls
  are due in the order of the plan, each as often as expected, and the last one for ever if it is
  counted with \<open>at_least\<close>; under any other ordering the first call that fits and is not used up.
\<close>

definition due_call :: "plan \<Rightarrow> observed_request list \<Rightarrow> observed_request \<Rightarrow> call_expectation option" where
  "due_call p earlier q =
     (if pl_ordering p = PlanOrderingStrict then
        (let schedule = concat (map (\<lambda>c. replicate (nat (ce_expectedCount c)) c) (pl_calls p));
             k = length earlier;
             due = (if k < length schedule then Some (schedule ! k)
                    else if schedule \<noteq> [] \<and> ce_countMode (last schedule) = CountModeAtLeast then Some (last schedule)
                    else None)
         in case due of None \<Rightarrow> None | Some c \<Rightarrow> if fits c q then Some c else None)
      else find (\<lambda>c. fits c q \<and> (ce_countMode c = CountModeAtLeast \<or>
             int (length (filter (fits c) earlier)) < ce_expectedCount c)) (pl_calls p))"

lemma anyResponse_due:
  "anyResponse calls (earlier @ [q]) q =
     map_option ce_response (find (\<lambda>c. fits c q \<and> (ce_countMode c = CountModeAtLeast \<or>
        int (length (filter (fits c) earlier)) < ce_expectedCount c)) calls)"
  by (induction calls) (auto simp: seenBy_def split: sum.splits)

lemma strictResponse_due:
  assumes "pl_ordering p = PlanOrderingStrict"
  shows "strictResponseForRequest p (earlier @ [q]) = map_option ce_response (due_call p earlier q)"
proof -
  define schedule where "schedule = expandCalls (pl_calls p)"
  have d: "concat (map (\<lambda>c. replicate (nat (ce_expectedCount c)) c) (pl_calls p)) = schedule"
    by (simp add: schedule_def expandCalls_def)
  have "respond_if c q = (if fits c q then Some (ce_response c) else None)" for c
    by (simp add: respond_if_def split: sum.split)
  then show ?thesis
    by (cases "schedule = []")
       (auto simp: strictResponseForRequest_def due_call_def assms d schedule_def [symmetric] Let_def last_conv_nth)
qed

lemma response_due: "responseForRequest p (earlier @ [q]) q = map_option ce_response (due_call p earlier q)"
  by (simp add: responseForRequest_def strictResponse_due anyResponse_due) (simp add: due_call_def)

text \<open>
  C23: the server records every request whose body it can read, and answers it with the response of
  the planned call that is due (\<^const>\<open>due_call\<close>), or, in pass-through mode, delegates it; exactly when no call
  is due, it answers with the message for an unexpected request.  A body it cannot read is
  answered with the status 413, and nothing is recorded.
\<close>

theorem served_replies:
  assumes "server_reachable s" "wf_http_request q"
  shows "(case readObservedRequest s q of
       Inl _ \<Rightarrow> serveHTTP s q = (s, httpError ''httpmock request body is too large'' 413)
     | Inr ob \<Rightarrow> serveHTTP s q =
         (s\<lparr>sv_observed := sv_observed s @ [ob]\<rparr>,
          case due_call (sv_plan s) (sv_observed s) ob of
            None \<Rightarrow> Reply 500 [] ''unexpected httpmock request''
          | Some c \<Rightarrow> if sv_passThrough s then Delegate ob else writePlannedResponse (ce_response c)))"
proof (cases "readObservedRequest s q")
  case (Inl e)
  then show ?thesis by (simp add: serveHTTP_def)
next
  case (Inr ob)
  have inv: "server_inv (s\<lparr>sv_observed := sv_observed s @ [ob]\<rparr>)"
    using server_step_inv [OF step_serve [OF assms(2), of s] reachable_inv [OF assms(1)]]
      serveHTTP_state [of s q] by (metis Inr fst_conv old.sum.simps(6) surj_pair)
  note views = server_inv_plan [OF inv, simplified] server_inv_observed [OF inv, simplified]
  show ?thesis
    by (simp add: serveHTTP_def Inr views Let_def response_due split: option.split)
qed

theorem served_replies_witness:
  "snd (serveHTTP (planned_server sample_plan) (get_request ''/a'')) = Reply 200 [] ''1''"
proof -
  let ?s = "planned_server sample_plan"
  have r: "server_reachable ?s" by (rule planned_reachable [OF sample_wf_plan])
  have q: "wf_http_request (get_request ''/a'')" by (simp add: wf_http_request_def get_request_def)
  have d: "case readObservedRequest ?s (get_request ''/a'') of Inl _ \<Rightarrow> False
    | Inr ob \<Rightarrow> (case due_call (sv_plan ?s) (sv_observed ?s) ob of None \<Rightarrow> False
        | Some c \<Rightarrow> writePlannedResponse (ce_response c) = Reply 200 [] ''1'') \<and> \<not> sv_passThrough ?s"
    by code_simp
  show ?thesis
    using served_replies [OF r q] d by (auto split: sum.splits option.splits)
qed

text \<open>
  The response to a request under \<open>any\<close> ordering counts all requests that fit a call, also
  those another call answered: with the same call planned twice the second request is refused
  as unexpected, although the verification accepts both.
\<close>

theorem repeated_call_refused:
  "let s = planned_server (any_plan [get_call ''/a'' 1 [] ''1'', get_call ''/a'' 1 [] ''2'']) in
   snd (serveHTTP s (get_request ''/a'')) = Reply 200 [] ''1'' \<and>
   snd (serveHTTP (serve_all s [''/a'']) (get_request ''/a'')) = Reply 500 [] ''unexpected httpmock request'' \<and>
   snd (serverVerify None (serve_all s [''/a'', ''/a''])) = None"
  by code_simp

text \<open>
  An \<open>at_least\<close> call with the expected number zero is answered with its response, and yet
  the verification reports the request as unexpected.
\<close>

theorem at_least_zero_refused:
  "let s = planned_server (any_plan [get_call ''/a'' 0 CountModeAtLeast ''1'']) in
   snd (serveHTTP s (get_request ''/a'')) = Reply 200 [] ''1'' \<and>
   snd (serverVerify None (serve_all s [''/a''])) \<noteq> None"
  by code_simp

text \<open>
  Under \<open>any\<close> ordering the verdict depends on the order of the requests: the first call
  takes the first request that fits it, which may be the only one that fits the second call.
\<close>

theorem any_order_matters:
  "let s = planned_server (any_plan [get_call ''/a'' 1 [] ''1'', query_call]);
       run = (\<lambda>qs. foldl (\<lambda>s q. fst (serveHTTP s q)) s qs)
   in snd (serverVerify None (run [get_request ''/a'', query_request])) = None \<and>
      snd (serverVerify None (run [query_request, get_request ''/a''])) \<noteq> None"
  by code_simp

text \<open>
  With the largest limit the bound \<open>limit+1\<close> wraps to a negative number, so the recorded
  body is empty whatever was sent.
\<close>

theorem largest_limit_drops_body:
  "readBoundedBody (Some (bytes, fails)) max_int64 = Inr []"
  by (simp add: readBoundedBody_def Let_def wrap64_def max_int64_def)

end
