(* ===== verification/JsonPortable.thy ===== *)
theory JsonPortable
  imports JsonEncode
begin

text \<open>
  Whatever the decoder of \<open>encoding/json\<close> returns is portable: its strings are valid UTF-8, its
  numbers are number literals and its objects are proper maps.  So the encoder accepts it, and
  decoding what was encoded gives the same value again.
\<close>

section \<open>Strings\<close>

lemma utf8_ok_append: "utf8_ok a \<Longrightarrow> utf8_ok b \<Longrightarrow> utf8_ok (a @ b)"
proof (induction a rule: utf8_ok.induct)
  case (2 c s)
  define k where "k = rune_len (c # s)"
  have k: "k \<noteq> 0" "utf8_ok (drop k (c # s))"
    using "2.prems"(1) by (simp_all add: utf8_ok.simps Let_def k_def split: if_splits)
  have le: "k \<le> length (c # s)" unfolding k_def by (rule rune_len_bound)
  have "rune_len (take k (c # s) @ (drop k (c # s) @ b)) = k"
    by (rule rune_len_take [OF k_def [symmetric] k(1)])
  then have "rune_len (c # s @ b) = k" by (metis append_Cons append_assoc append_take_drop_id)
  moreover have "drop k (c # s @ b) = drop k (c # s) @ b" using le by (metis append_Cons drop_append drop_0 diff_is_0_eq)
  moreover have "utf8_ok (drop k (c # s) @ b)" using "2.IH" [OF k_def] k "2.prems"(2) by simp
  ultimately show ?case using k(1) by (simp add: utf8_ok.simps(2) Let_def)
qed simp

lemma utf8_ok_whole: "rune_len s = length s \<Longrightarrow> utf8_ok s"
  by (cases s) (simp_all add: utf8_ok.simps Let_def)

lemma utf8_ok_replacement: "utf8_ok replacement"
  by (rule utf8_ok_whole) (simp add: replacement_def rune_len.simps is_cont_def byte_def)

lemma byte_char_of [simp]: "n < 256 \<Longrightarrow> byte (char_of n) = n"
  by (simp add: byte_def)

lemma utf8_ok_3:
  fixes n b c :: nat
  assumes "224 \<le> n" "n < 240" "b < 64" "c < 64" "n = 224 \<Longrightarrow> 32 \<le> b" "n = 237 \<Longrightarrow> b < 32"
  shows "utf8_ok [char_of n, char_of (128 + b), char_of (128 + c)]"
proof (rule utf8_ok_whole)
  have "byte (char_of n) = n" "byte (char_of (128 + b)) = 128 + b" "byte (char_of (128 + c)) = 128 + c"
    using assms by simp_all
  then show "rune_len [char_of n, char_of (128 + b), char_of (128 + c)] = length [char_of n, char_of (128 + b), char_of (128 + c)]"
    using assms by (simp add: rune_len.simps is_cont_def)
qed

lemma utf8_ok_4:
  fixes n b c d :: nat
  assumes "240 \<le> n" "n < 245" "b < 64" "c < 64" "d < 64" "n = 240 \<Longrightarrow> 16 \<le> b" "n = 244 \<Longrightarrow> b < 16"
  shows "utf8_ok [char_of n, char_of (128 + b), char_of (128 + c), char_of (128 + d)]"
proof (rule utf8_ok_whole)
  have "byte (char_of n) = n" "byte (char_of (128 + b)) = 128 + b" "byte (char_of (128 + c)) = 128 + c"
    "byte (char_of (128 + d)) = 128 + d"
    using assms by simp_all
  then show "rune_len [char_of n, char_of (128 + b), char_of (128 + c), char_of (128 + d)] =
      length [char_of n, char_of (128 + b), char_of (128 + c), char_of (128 + d)]"
    using assms by (simp add: rune_len.simps is_cont_def)
qed

lemma utf8_ok_encode_rune: "utf8_ok (encode_rune r)"
proof -
  consider "r < 128" | "128 \<le> r" "r < 2048" | "(55296 \<le> r \<and> r < 57344) \<or> 1114111 < r"
    | "2048 \<le> r" "r < 65536" "\<not> (55296 \<le> r \<and> r < 57344)" | "65536 \<le> r" "r \<le> 1114111" by linarith
  then show ?thesis
  proof cases
    case 1
    then show ?thesis by (intro utf8_ok_whole) (simp add: encode_rune_def rune_len.simps)
  next
    case 2
    then have "192 + r div 64 < 224" "194 \<le> 192 + r div 64" by auto
    then show ?thesis using 2 by (intro utf8_ok_whole) (simp add: encode_rune_def rune_len.simps is_cont_def)
  next
    case 3
    then have "encode_rune r = replacement" by (auto simp: encode_rune_def)
    then show ?thesis by (simp add: utf8_ok_replacement)
  next
    case 4
    then have a: "224 + r div 4096 < 240" by auto
    have b: "32 \<le> r div 64 mod 64" if "r div 4096 = 0"
    proof -
      have "r < 4096" using that by auto
      then have "r div 64 < 64" "32 \<le> r div 64" using 4(1) by auto
      then show ?thesis by simp
    qed
    have c: "r div 4096 = 13 \<Longrightarrow> r div 64 mod 64 < 32"
    proof -
      assume d: "r div 4096 = 13"
      then have "53248 \<le> r" "r < 57344" by auto
      then have "r < 55296" using 4(3) by auto
      then have "r div 64 < 864" "832 \<le> r div 64" using \<open>53248 \<le> r\<close> by auto
      moreover from this have "r div 64 div 64 = 13" by auto
      ultimately show ?thesis using mult_div_mod_eq [of 64 "r div 64"] by linarith
    qed
    have e: "encode_rune r = [char_of (224 + r div 4096), char_of (128 + r div 64 mod 64), char_of (128 + r mod 64)]"
      using 4 by (auto simp: encode_rune_def)
    show ?thesis unfolding e by (rule utf8_ok_3) (use a b c in simp_all)
  next
    case 5
    then have a: "240 + r div 262144 < 245" by auto
    have b: "16 \<le> r div 4096 mod 64" if "r div 262144 = 0"
    proof -
      have "r < 262144" using that by auto
      then have "r div 4096 < 64" "16 \<le> r div 4096" using 5(1) by auto
      then show ?thesis by simp
    qed
    have c: "r div 262144 = 4 \<Longrightarrow> r div 4096 mod 64 < 16"
    proof -
      assume "r div 262144 = 4"
      then have "1048576 \<le> r" by auto
      then have "256 \<le> r div 4096" "r div 4096 < 272" using 5(2) by auto
      moreover from this have "r div 4096 div 64 = 4" by auto
      ultimately show ?thesis using mult_div_mod_eq [of 64 "r div 4096"] by linarith
    qed
    have e: "encode_rune r = [char_of (240 + r div 262144), char_of (128 + r div 4096 mod 64),
        char_of (128 + r div 64 mod 64), char_of (128 + r mod 64)]"
      using 5 by (simp add: encode_rune_def)
    show ?thesis unfolding e by (rule utf8_ok_4) (use a b c in simp_all)
  qed
qed

lemma lex_string_utf8: "lex_string s = Inr (t, r) \<Longrightarrow> utf8_ok t"
proof (induction s arbitrary: t r rule: lex_string.induct)
  case 1
  then show ?case by (simp add: lex_string.simps)
next
  case (2 c s)
  have one: "utf8_ok (d # u)" if "simple_escape e = Some d" "utf8_ok u" for d e u
  proof -
    have "byte d < 128" using that(1) by (auto simp: simple_escape_def byte_def split: if_splits)
    then show ?thesis using that(2) by (simp add: utf8_ok.simps Let_def rune_len.simps)
  qed
  have run: "utf8_ok (take k (c # s))" if "k = rune_len (c # s)" "k \<noteq> 0" for k
  proof (rule utf8_ok_whole)
    have "rune_len (take k (c # s) @ []) = k" by (rule rune_len_take) (use that in simp_all)
    moreover have "k \<le> length (c # s)" using rune_len_bound [of "c # s"] that by simp
    ultimately show "rune_len (take k (c # s)) = length (take k (c # s))" by simp
  qed
  note IH = "2.IH" and prem = "2.prems"
  consider "c = CHR 0x22" | "c \<noteq> CHR 0x22" "c = CHR 0x5C" | "c \<noteq> CHR 0x22" "c \<noteq> CHR 0x5C" by blast
  then show ?case
  proof cases
    case 1
    with prem show ?thesis by (auto simp: lex_string.simps utf8_ok.simps)
  next
    case 2
    obtain e q where s: "s = e # q" using prem 2 by (cases s) (simp_all add: lex_string.simps)
    show ?thesis
      using prem IH(1-4) [OF 2 s] utf8_ok_encode_rune utf8_ok_replacement 2 s
      by (subst (asm) lex_string.simps)
         (auto simp: push_Inr_iff intro!: utf8_ok_append one split: if_splits option.splits)
  next
    case 3
    then show ?thesis
      using prem IH(5,6) [OF 3] run utf8_ok_replacement
      by (subst (asm) lex_string.simps)
         (auto simp: push_Inr_iff Let_def intro!: utf8_ok_append split: if_splits)
  qed
qed

section \<open>Numbers\<close>

definition num_tail :: "string \<Rightarrow> string \<Rightarrow> bool" where
  "num_tail starts x \<longleftrightarrow> x = [] \<or> hd x \<in> set starts"

lemma lex_digits_cut:
  assumes "lex_digits s = (a, b)" "num_tail ''.eE'' x"
  shows "lex_digits (a @ x) = (a, x)"
proof -
  have all: "\<And>c. c \<in> set a \<Longrightarrow> is_digit c" using assms(1) by (auto simp: lex_digits_def dest: set_takeWhileD)
  have stop: "takeWhile is_digit x = []" "dropWhile is_digit x = x"
    using assms(2) by (cases x; auto simp: num_tail_def is_digit_def)+
  show ?thesis using all stop by (simp add: lex_digits_def takeWhile_append2 dropWhile_append2)
qed

lemma lex_int_cut:
  assumes "lex_int s = Some (a, b)" "num_tail ''.eE'' x"
  shows "lex_int (a @ x) = Some (a, x) \<and> a \<noteq> [] \<and> is_digit (hd a)"
proof (cases s)
  case (Cons c r)
  show ?thesis
  proof (cases "c = CHR ''0''")
    case True
    then show ?thesis using assms Cons by (auto simp: lex_int_def is_digit_def)
  next
    case False
    then have d: "is_digit c" "lex_digits s = (a, b)" using assms(1) Cons by (auto simp: lex_int_def split: if_splits)
    then obtain a' where a: "a = c # a'" using Cons by (auto simp: lex_digits_def)
    show ?thesis using lex_digits_cut [OF d(2) assms(2)] d(1) a False by (simp add: lex_int_def)
  qed
qed (use assms in \<open>simp add: lex_int_def\<close>)

lemma lex_frac_cut:
  assumes "lex_frac s = Some (a, b)" "num_tail ''eE'' x"
  shows "lex_frac (a @ x) = Some (a, x) \<and> num_tail ''.'' a"
proof (cases "\<exists>r. s = CHR ''.'' # r")
  case True
  then obtain r where r: "s = CHR ''.'' # r" by blast
  obtain ds where ds: "lex_digits r = (ds, b)" "ds \<noteq> []" "a = CHR ''.'' # ds"
    using assms(1) r by (auto simp: lex_frac_def Let_def split: if_splits prod.splits)
  have "num_tail ''.eE'' x" using assms(2) by (auto simp: num_tail_def)
  then show ?thesis using lex_digits_cut [OF ds(1)] ds(2,3) by (simp add: lex_frac_def num_tail_def)
next
  case False
  then have "a = []" using assms(1) by (cases s) (auto simp: lex_frac_def split: if_splits)
  moreover have "lex_frac x = Some ([], x)" using assms(2) by (cases x) (auto simp: lex_frac_def num_tail_def)
  ultimately show ?thesis by (simp add: num_tail_def)
qed

lemma lex_exp_cut:
  assumes "lex_exp s = Some (a, b)"
  shows "lex_exp a = Some (a, []) \<and> num_tail ''eE'' a"
proof (cases "\<exists>c r. s = c # r \<and> (c = CHR ''e'' \<or> c = CHR ''E'')")
  case True
  then obtain c r where c: "s = c # r" "c = CHR ''e'' \<or> c = CHR ''E''" by blast
  obtain sg r' where sg: "lex_sign r = (sg, r')" by (cases "lex_sign r")
  obtain ds where ds: "lex_digits r' = (ds, b)" "ds \<noteq> []" "a = c # sg @ ds"
    using assms c sg by (auto simp: lex_exp_def Let_def split: if_splits prod.splits)
  have d: "lex_digits ds = (ds, [])" using lex_digits_cut [OF ds(1), of "[]"] by (simp add: num_tail_def)
  have "hd ds \<in> set (takeWhile is_digit r')" using ds(1,2) by (simp add: lex_digits_def)
  then have "is_digit (hd ds)" by (rule set_takeWhileD [THEN conjunct2])
  then have "lex_sign (sg @ ds) = (sg, ds)"
    using sg ds(2) by (cases r; cases ds) (auto simp: lex_sign_def is_digit_def split: if_splits)
  then show ?thesis using c(2) ds d by (auto simp: lex_exp_def num_tail_def)
next
  case False
  then have "a = []" using assms by (cases s) (auto simp: lex_exp_def split: if_splits)
  then show ?thesis by (simp add: lex_exp_def num_tail_def)
qed

lemma lex_number_valid:
  assumes "lex_number s = Some (l, r)"
  shows "valid_number l"
proof -
  obtain a r1 b r2 c where p: "lex_int (snd (lex_minus s)) = Some (a, r1)" "lex_frac r1 = Some (b, r2)"
    "lex_exp r2 = Some (c, r)" "l = fst (lex_minus s) @ a @ b @ c"
    using assms by (rule lex_number_SomeE)
  have c: "lex_exp c = Some (c, [])" "num_tail ''eE'' c" using lex_exp_cut [OF p(3)] by simp_all
  have b: "lex_frac (b @ c) = Some (b, c)" "num_tail ''.'' b" using lex_frac_cut [OF p(2) c(2)] by simp_all
  have "num_tail ''.eE'' (b @ c)" using b(2) c(2) by (cases b) (auto simp: num_tail_def)
  then have a: "lex_int (a @ b @ c) = Some (a, b @ c)" "a \<noteq> []" "is_digit (hd a)"
    using lex_int_cut [OF p(1)] by simp_all
  have "lex_minus l = (fst (lex_minus s), a @ b @ c)"
    using a(2,3) p(4) by (cases s; cases a) (auto simp: lex_minus_def is_digit_def split: if_splits)
  then show ?thesis using a b c p(4) by (simp add: valid_number_def lex_number_def)
qed

section \<open>Values\<close>

lemma portable_put: "portable (JObj m) \<Longrightarrow> utf8_ok k \<Longrightarrow> portable v \<Longrightarrow> portable (JObj (mput k v m))"
  by (simp add: list_all_mput)

lemma parse_scalar_portable: "parse_scalar s = Inr (j, r) \<Longrightarrow> portable j"
  by (auto simp: parse_scalar_def dest: lex_string_utf8 lex_number_valid split: if_splits option.splits)

lemma parse_key_utf8: "parse_key s = Inr (k, r) \<Longrightarrow> utf8_ok k"
  by (auto simp: parse_key_def dest: lex_string_utf8 split: if_splits)

lemma parse_portable_aux:
  "(\<forall>s j r. parse_value n s = Inr (j, r) \<longrightarrow> portable j) \<and>
   (\<forall>s js r. parse_elems n s = Inr (js, r) \<longrightarrow> list_all portable js) \<and>
   (\<forall>s m m' r. portable (JObj m) \<longrightarrow> parse_members n s m = Inr (m', r) \<longrightarrow> portable (JObj m'))"
proof (induction n)
  case 0
  show ?case by simp
next
  case (Suc n)
  then have v: "parse_value n s = Inr (j, r) \<Longrightarrow> portable j"
    and e: "parse_elems n s = Inr (js, r) \<Longrightarrow> list_all portable js"
    and m: "portable (JObj m) \<Longrightarrow> parse_members n s m = Inr (m', r) \<Longrightarrow> portable (JObj m')"
    for s j js m m' r
    by blast+
  have m0: "parse_members n s [] = Inr (m', r) \<Longrightarrow> portable (JObj m')" for s m' r
    by (rule m) simp_all
  have "portable j" if "parse_value (Suc n) s = Inr (j, r)" for s j r
    using that by (auto split: if_splits dest!: e m0 parse_scalar_portable)
  moreover have "list_all portable js" if "parse_elems (Suc n) s = Inr (js, r)" for s js r
    using that by (auto split: if_splits dest!: e v)
  moreover have "portable (JObj m')"
    if m_wf: "portable (JObj m)" and p: "parse_members (Suc n) s m = Inr (m', r)" for s m m' r
    using p m_wf by (auto simp del: portable.simps split: if_splits dest: v parse_key_utf8 intro: portable_put m)
  ultimately show ?case by blast
qed

lemma json_decode_portable: "json_decode s = Inr (j, r) \<Longrightarrow> portable j"
  using parse_portable_aux [THEN conjunct1, rule_format]
  by (auto simp: json_decode_def simp del: parse_value.simps split: if_splits)

lemma decode_encode_decode: "json_decode s = Inr (j, r) \<Longrightarrow> json_decode (json_enc j) = Inr (j, [])"
  by (rule json_roundtrip [OF json_decode_portable])

section \<open>An encoded value is not blank\<close>

lemma strip_any_Nil: "strip_any encs s = [] \<Longrightarrow> s \<noteq> [] \<Longrightarrow> \<exists>w \<in> set encs. w \<noteq> [] \<and> suffix w s"
proof (induction encs s rule: strip_any.induct)
  case (1 encs s)
  then obtain w where w: "find (\<lambda>w. w \<noteq> [] \<and> prefix w s) encs = Some w"
    by (subst (asm) (2) strip_any.simps) (auto split: option.splits)
  then have in_encs: "w \<in> set encs" "w \<noteq> []" "prefix w s" by (auto simp: find_Some_iff)
  have rest: "strip_any encs (drop (length w) s) = []" using 1(2) w by (subst (asm) strip_any.simps) simp
  show ?case
  proof (cases "drop (length w) s = []")
    case True
    then have "w = s" using in_encs(3) by (auto simp: prefix_def)
    then show ?thesis using in_encs by blast
  next
    case False
    then obtain v where "v \<in> set encs" "v \<noteq> []" "suffix v (drop (length w) s)" using 1(1) [OF w rest] by blast
    then show ?thesis using suffix_order.trans [OF _ suffix_drop] by blast
  qed
qed

lemma trim_space_not_Nil:
  assumes "is_ascii c" "[c] \<notin> set space_encodings"
  shows "trim_space (c # s) \<noteq> []"
proof
  have no: "\<not> starts_any space_encodings (c # s)" by (rule start_Cons [OF assms])
  assume "trim_space (c # s) = []"
  then have "strip_any (map rev space_encodings) (rev (c # s)) = []"
    using no by (simp add: trim_space_def trim_left_def trim_right_def strip_any_id)
  then obtain w where "w \<in> set (map rev space_encodings)" "w \<noteq> []" "suffix w (rev (c # s))"
    using strip_any_Nil by blast
  then have "rev w \<in> set space_encodings" "rev w \<noteq> []" "prefix (rev w) (c # s)"
    by (auto simp: suffix_to_prefix)
  then show False using no by (auto simp: starts_any_def)
qed

lemma json_enc_not_blank:
  assumes "portable j"
  shows "trim_space (json_enc j) \<noteq> []"
proof -
  have d: "is_ascii c \<and> [c] \<notin> set space_encodings" if "is_digit c \<or> c = CHR ''-''" for c
  proof -
    have "33 \<le> byte c \<and> byte c < 128" using that by (auto simp: is_digit_def byte_def)
    then show ?thesis by (auto simp: is_ascii_def byte_def space_encodings_def)
  qed
  have "\<exists>c s. json_enc j = c # s \<and> is_ascii c \<and> [c] \<notin> set space_encodings"
  proof (cases j)
    case (JNum l)
    then have "valid_number l" using assms by simp
    with valid_number_hd obtain c s where l: "l = c # s" and c: "is_digit c \<or> c = CHR ''-''" by blast
    then show ?thesis using JNum d [OF c] by auto
  next
    case (JBool b)
    then show ?thesis by (cases b) (auto simp: is_ascii_def space_encodings_def)
  qed (auto simp: quote_def is_ascii_def space_encodings_def)
  then show ?thesis using trim_space_not_Nil by fastforce
qed

end
