(* ===== verification/AnyDecode.thy ===== *)
theory AnyDecode
  imports JsonPortable StructDecode
begin

text \<open>
  Decoding into a value of type \<open>any\<close> and into maps, which the preset handlers add to the struct
  decoder of theory \<open>StructDecode\<close>.
\<close>

section \<open>Numbers in a value of type \<open>any\<close>\<close>

text \<open>
  Without \<open>UseNumber\<close> a number is decoded into a \<open>float64\<close>.  The parameter \<open>f64\<close> stands for
  \<open>strconv\<close>: it gives the text the encoder writes for the \<open>float64\<close> a literal denotes, or the error
  of a literal out of range.  A decoded value is represented by the literals it is written with.
\<close>

type_synonym float64_text = "string \<Rightarrow> string result"

fun any_value :: "float64_text \<Rightarrow> json \<Rightarrow> json result" where
  "any_value f64 (JNum l) = rbind (f64 l) (\<lambda>t. Inr (JNum t))"
| "any_value f64 (JArr js) = rbind (map_result (any_value f64) js) (\<lambda>xs. Inr (JArr xs))"
| "any_value f64 (JObj m) =
     rbind (map_result (\<lambda>e. rbind (any_value f64 (snd e)) (\<lambda>v. Inr (fst e, v))) m) (\<lambda>m'. Inr (JObj m'))"
| "any_value f64 j = Inr j"

text \<open>What is documented: the text is a number literal that denotes the same \<open>float64\<close>.\<close>

definition float64_contract :: "float64_text \<Rightarrow> bool" where
  "float64_contract f64 \<longleftrightarrow> (\<forall>l t. f64 l = Inr t \<longrightarrow> valid_number t \<and> f64 t = Inr t)"

lemma map_result_source: "map_result f xs = Inr ys \<Longrightarrow> y \<in> set ys \<Longrightarrow> \<exists>x \<in> set xs. f x = Inr y"
  by (induction xs arbitrary: ys) auto

lemma any_value_stable:
  "float64_contract f64 \<Longrightarrow> any_value f64 j = Inr k \<Longrightarrow> any_value f64 k = Inr k"
proof (induction f64 j arbitrary: k rule: any_value.induct)
  case (1 f64 l)
  then show ?case by (auto simp: float64_contract_def)
next
  case (2 f64 js)
  then obtain ks where ks: "map_result (any_value f64) js = Inr ks" "k = JArr ks" by auto
  have "any_value f64 y = Inr y" if "y \<in> set ks" for y
    using map_result_source [OF ks(1) that] "2.IH" "2.prems"(1) by blast
  then show ?case using ks map_result_Inr_self [of ks "any_value f64"] by simp
next
  case (3 f64 m)
  let ?g = "\<lambda>e :: string \<times> json. rbind (any_value f64 (snd e)) (\<lambda>v. Inr (fst e, v))"
  obtain m' where m': "map_result ?g m = Inr m'" "k = JObj m'" using 3 by auto
  have "?g y = Inr y" if "y \<in> set m'" for y
    using map_result_source [OF m'(1) that] "3.IH" "3.prems"(1) by fastforce
  then show ?case using m' map_result_Inr_self [of m' ?g] by simp
qed auto

lemma any_value_portable:
  "float64_contract f64 \<Longrightarrow> any_value f64 j = Inr k \<Longrightarrow> portable j \<Longrightarrow> portable k"
proof (induction f64 j arbitrary: k rule: any_value.induct)
  case (1 f64 l)
  then show ?case by (auto simp: float64_contract_def)
next
  case (2 f64 js)
  then obtain ks where ks: "map_result (any_value f64) js = Inr ks" "k = JArr ks" by auto
  have "portable x" if "x \<in> set js" for x using "2.prems"(3) that by (simp add: list_all_iff)
  then have "portable y" if "y \<in> set ks" for y
    using map_result_source [OF ks(1) that] "2.IH" "2.prems"(1) by blast
  then show ?case using ks by (simp add: list_all_iff)
next
  case (3 f64 m)
  let ?g = "\<lambda>e :: string \<times> json. rbind (any_value f64 (snd e)) (\<lambda>v. Inr (fst e, v))"
  obtain m' where m': "map_result ?g m = Inr m'" "k = JObj m'" using 3 by auto
  have keys: "map_result ?g m = Inr m' \<Longrightarrow> map fst m' = map fst m" for m m'
    by (induction m arbitrary: m') auto
  have "utf8_ok (fst x) \<and> portable (snd x)" if "x \<in> set m" for x using "3.prems"(3) that by (simp add: list_all_iff)
  then have "utf8_ok (fst y) \<and> portable (snd y)" if "y \<in> set m'" for y
    using map_result_source [OF m'(1) that] "3.IH" "3.prems"(1) by fastforce
  then show ?case using "3.prems"(3) m' keys [OF m'(1)] by (simp add: list_all_iff wf_map_def)
qed auto

text \<open>The decoder for a target of type \<open>any\<close>: numbers become \<open>float64\<close>, see \<^const>\<open>any_value\<close>.\<close>

definition storeAny :: "float64_text \<Rightarrow> json \<Rightarrow> string \<Rightarrow> json result" where
  "storeAny f64 v raw =
     (case json_decode raw of Inl _ \<Rightarrow> Inl decodeErr | Inr (j, _) \<Rightarrow> any_value f64 j)"

text \<open>A map: every value is decoded over a fresh one, \<open>null\<close> makes it nil.\<close>

definition store_map :: "('a \<Rightarrow> string \<Rightarrow> 'a result) \<Rightarrow> 'a \<Rightarrow> 'a gomap \<Rightarrow> string \<Rightarrow> 'a gomap result" where
  "store_map f zero v raw =
     (if is_null raw then Inr []
      else case object_members raw of
        None \<Rightarrow> Inl decodeErr
      | Some ms \<Rightarrow>
          rbind (map_result (\<lambda>(k, r). rbind (f zero r) (\<lambda>x. Inr (k, x))) ms) (\<lambda>kvs. Inr (mcopy v kvs)))"

lemma store_string_map: "store_string_map = store_map store_string []"
  by (intro ext) (simp add: store_string_map_def store_map_def)

text \<open>A struct without fields.\<close>

definition storeEmpty :: "unit \<Rightarrow> string \<Rightarrow> unit result" where
  "storeEmpty v raw = rbind (decode_struct [] raw) (\<lambda>_. Inr ())"

text \<open>A reason is kept as an error whose text it is; the empty text is no reason.\<close>

definition text_reason :: "string \<Rightarrow> err option" where
  "text_reason s = (if s = [] then None else Some (Err s))"

section \<open>Decoded maps are proper\<close>

lemma store_all_inv:
  assumes "\<And>v raw w. P v \<Longrightarrow> f v raw = Inr w \<Longrightarrow> P w"
  shows "P v \<Longrightarrow> store_all f v raws = Inr w \<Longrightarrow> P w"
  by (induction raws arbitrary: v) (auto dest: assms)

lemma store_string_map_wf: "wf_map v \<Longrightarrow> store_string_map v raw = Inr m \<Longrightarrow> wf_map m"
  by (auto simp: store_string_map_def split: if_splits option.splits)

lemma store_map_wf: "wf_map v \<Longrightarrow> store_map f zero v raw = Inr m \<Longrightarrow> wf_map m"
  by (auto simp: store_map_def split: if_splits option.splits)

text \<open>Decoded texts are valid.\<close>

lemma store_string_utf8: "store_string v raw = Inr s \<Longrightarrow> utf8_ok v \<Longrightarrow> utf8_ok s"
  using json_decode_portable [of raw] by (auto simp: store_string_def split: sum.splits json.splits)

lemma store_strings_utf8: "store_all store_string v raws = Inr s \<Longrightarrow> utf8_ok v \<Longrightarrow> utf8_ok s"
  using store_all_inv [of utf8_ok store_string] store_string_utf8 by blast

end
