(* ===== verification/HttpMockHandlers.thy ===== *)
theory HttpMockHandlers
  imports HttpMockServer AnyDecode CaseModel
begin

text \<open>
  The preset handlers of \<open>httpmock/handlers.go\<close> and their registry (\<open>registry.go\<close>): decoding of plans
  and of expected results, the calls of the mock server of theory \<open>HttpMockServer\<close>, and what a case
  of plan, requests, await and verify steps amounts to.  \<open>HTTPMock()\<close> of the case harness is the
  server itself.
\<close>

section \<open>Values the handlers exchange\<close>

definition PlanHTTPCallsHandlerName :: string where "PlanHTTPCallsHandlerName = ''PlanHTTPCalls''"
definition AwaitHTTPCallsHandlerName :: string where "AwaitHTTPCallsHandlerName = ''AwaitHTTPCalls''"
definition VerifyHTTPCallsHandlerName :: string where "VerifyHTTPCallsHandlerName = ''VerifyHTTPCalls''"

record planHTTPCallsResponse =
  phr_planned :: bool
  phr_expectedCalls :: int

text \<open>A value of type \<open>any\<close> with its dynamic type; \<open>OtherHTTPValue\<close> holds the name of any other type.\<close>

datatype http_value =
    PlanValue plan
  | EmptyHTTPRequestPtr
  | PlanHTTPResponsePtr planHTTPCallsResponse
  | HTTPCheckResultValue http_check_result
  | HTTPCheckResultPtr http_check_result
  | OtherHTTPValue string

fun http_type_name :: "http_value \<Rightarrow> string" where
  "http_type_name (PlanValue _) = ''httpmock.Plan''"
| "http_type_name EmptyHTTPRequestPtr = ''*httpmock.emptyRequest''"
| "http_type_name (PlanHTTPResponsePtr _) = ''*httpmock.PlanHTTPCallsResponse''"
| "http_type_name (HTTPCheckResultValue _) = ''httpmock.CheckResult''"
| "http_type_name (HTTPCheckResultPtr _) = ''*httpmock.CheckResult''"
| "http_type_name (OtherHTTPValue t) = t"

section \<open>Decoding\<close>

text \<open>A field of type \<open>map[string][]string\<close>; an object makes a nil map a map.\<close>

definition store_values :: "values_map \<Rightarrow> string \<Rightarrow> values_map result" where
  "store_values v raw =
     (if is_null raw then Inr None
      else rbind (store_map (store_slice store_string []) [] (entries v) raw) (\<lambda>m. Inr (Some m)))"

definition zeroHTTPResponse :: http_response where
  "zeroHTTPResponse = \<lparr>hr_status = 0, hr_headers = None, hr_body = [], hr_rawBody = None\<rparr>"

definition storeHTTPResponse :: "http_response \<Rightarrow> string \<Rightarrow> http_response result" where
  "storeHTTPResponse v raw =
     rbind (decode_struct [''status'', ''headers'', ''body'', ''raw_body''] raw) (\<lambda>ms.
     rbind (store_all store_int (hr_status v) (field_values ms ''status'')) (\<lambda>s.
     rbind (store_all store_values (hr_headers v) (field_values ms ''headers'')) (\<lambda>h.
     rbind (store_all store_raw (hr_body v) (field_values ms ''body'')) (\<lambda>b.
     rbind (store_all (store_ptr store_string []) (hr_rawBody v) (field_values ms ''raw_body'')) (\<lambda>rb.
     Inr \<lparr>hr_status = s, hr_headers = h, hr_body = b, hr_rawBody = rb\<rparr>)))))"

definition zeroCall :: call_expectation where
  "zeroCall = \<lparr>ce_name = [], ce_expectedCount = 0, ce_countMode = [], ce_method = [], ce_path = [], ce_query = None,
     ce_queryMode = [], ce_headers = None, ce_headersMode = [], ce_headersPresent = [], ce_body = [],
     ce_bodySubset = [], ce_rawBody = None, ce_formBody = None, ce_formBodySubset = None,
     ce_response = zeroHTTPResponse\<rparr>"

definition storeCall :: "call_expectation \<Rightarrow> string \<Rightarrow> call_expectation result" where
  "storeCall v raw =
     rbind (decode_struct [''name'', ''expected_count'', ''count_mode'', ''method'', ''path'', ''query'', ''query_mode'',
              ''headers'', ''headers_mode'', ''headers_present'', ''body'', ''body_subset'', ''raw_body'',
              ''form_body'', ''form_body_subset'', ''response''] raw) (\<lambda>ms.
     rbind (store_all store_string (ce_name v) (field_values ms ''name'')) (\<lambda>nm.
     rbind (store_all store_int (ce_expectedCount v) (field_values ms ''expected_count'')) (\<lambda>c.
     rbind (store_all store_string (ce_countMode v) (field_values ms ''count_mode'')) (\<lambda>cm.
     rbind (store_all store_string (ce_method v) (field_values ms ''method'')) (\<lambda>m.
     rbind (store_all store_string (ce_path v) (field_values ms ''path'')) (\<lambda>p.
     rbind (store_all store_values (ce_query v) (field_values ms ''query'')) (\<lambda>q.
     rbind (store_all store_string (ce_queryMode v) (field_values ms ''query_mode'')) (\<lambda>qm.
     rbind (store_all store_values (ce_headers v) (field_values ms ''headers'')) (\<lambda>h.
     rbind (store_all store_string (ce_headersMode v) (field_values ms ''headers_mode'')) (\<lambda>hm.
     rbind (store_all (store_slice store_string []) (ce_headersPresent v) (field_values ms ''headers_present'')) (\<lambda>hp.
     rbind (store_all store_raw (ce_body v) (field_values ms ''body'')) (\<lambda>b.
     rbind (store_all store_raw (ce_bodySubset v) (field_values ms ''body_subset'')) (\<lambda>bs.
     rbind (store_all (store_ptr store_string []) (ce_rawBody v) (field_values ms ''raw_body'')) (\<lambda>rb.
     rbind (store_all store_values (ce_formBody v) (field_values ms ''form_body'')) (\<lambda>fb.
     rbind (store_all store_values (ce_formBodySubset v) (field_values ms ''form_body_subset'')) (\<lambda>fs.
     rbind (store_all storeHTTPResponse (ce_response v) (field_values ms ''response'')) (\<lambda>r.
     Inr \<lparr>ce_name = nm, ce_expectedCount = c, ce_countMode = cm, ce_method = m, ce_path = p, ce_query = q,
       ce_queryMode = qm, ce_headers = h, ce_headersMode = hm, ce_headersPresent = hp, ce_body = b,
       ce_bodySubset = bs, ce_rawBody = rb, ce_formBody = fb, ce_formBodySubset = fs, ce_response = r\<rparr>)))))))))))))))))"

definition storePlan :: "plan \<Rightarrow> string \<Rightarrow> plan result" where
  "storePlan v raw =
     rbind (decode_struct [''calls'', ''ordering''] raw) (\<lambda>ms.
     rbind (store_all (store_slice storeCall zeroCall) (pl_calls v) (field_values ms ''calls'')) (\<lambda>cs.
     rbind (store_all store_string (pl_ordering v) (field_values ms ''ordering'')) (\<lambda>ord.
     Inr \<lparr>pl_calls = cs, pl_ordering = ord\<rparr>)))"

definition storePlanHTTPResponse :: "planHTTPCallsResponse \<Rightarrow> string \<Rightarrow> planHTTPCallsResponse result" where
  "storePlanHTTPResponse v raw =
     rbind (decode_struct [''planned'', ''expected_calls''] raw) (\<lambda>ms.
     rbind (store_all store_bool (phr_planned v) (field_values ms ''planned'')) (\<lambda>p.
     rbind (store_all store_int (phr_expectedCalls v) (field_values ms ''expected_calls'')) (\<lambda>c.
     Inr \<lparr>phr_planned = p, phr_expectedCalls = c\<rparr>)))"

definition zeroObserved :: observed_request where
  "zeroObserved = \<lparr>or_method = [], or_path = [], or_query = None, or_headers = None, or_body = []\<rparr>"

definition storeObserved :: "observed_request \<Rightarrow> string \<Rightarrow> observed_request result" where
  "storeObserved v raw =
     rbind (decode_struct [''method'', ''path'', ''query'', ''headers'', ''body''] raw) (\<lambda>ms.
     rbind (store_all store_string (or_method v) (field_values ms ''method'')) (\<lambda>m.
     rbind (store_all store_string (or_path v) (field_values ms ''path'')) (\<lambda>p.
     rbind (store_all store_values (or_query v) (field_values ms ''query'')) (\<lambda>q.
     rbind (store_all store_values (or_headers v) (field_values ms ''headers'')) (\<lambda>h.
     rbind (store_all store_string (or_body v) (field_values ms ''body'')) (\<lambda>b.
     Inr \<lparr>or_method = m, or_path = p, or_query = q, or_headers = h, or_body = b\<rparr>))))))"

definition zeroHTTPResult :: http_check_result where
  "zeroHTTPResult = \<lparr>hc_matchedCount = 0, hc_observed = [], hc_lastMismatchReason = None\<rparr>"

text \<open>As it is only used on the zero value, the reason it starts from is the empty text.\<close>

definition storeHTTPCheckResult :: "http_check_result \<Rightarrow> string \<Rightarrow> http_check_result result" where
  "storeHTTPCheckResult v raw =
     rbind (decode_struct [''matched_count'', ''observed_requests'', ''last_mismatch_reason''] raw) (\<lambda>ms.
     rbind (store_all store_int (hc_matchedCount v) (field_values ms ''matched_count'')) (\<lambda>c.
     rbind (store_all (store_slice storeObserved zeroObserved) (hc_observed v) (field_values ms ''observed_requests'')) (\<lambda>obs.
     rbind (store_all store_string [] (field_values ms ''last_mismatch_reason'')) (\<lambda>r.
     Inr \<lparr>hc_matchedCount = c, hc_observed = obs, hc_lastMismatchReason = text_reason r\<rparr>))))"

text \<open>The common part of the decoders: an empty text, not a blank one, is the zero value.\<close>

definition decodeUnlessEmpty :: "('a \<Rightarrow> string \<Rightarrow> 'a result) \<Rightarrow> 'a \<Rightarrow> ('a \<Rightarrow> http_value) \<Rightarrow> string \<Rightarrow> http_value result" where
  "decodeUnlessEmpty store zero value raw =
     (if length raw = 0 then Inr (value zero)
      else rbind (decodeStrictJSON store zero raw) (\<lambda>v. Inr (value v)))"

definition planHTTPDecodeRequest :: "string \<Rightarrow> http_value result" where
  "planHTTPDecodeRequest raw =
     rbind (decodeStrictJSON storePlan emptyPlan raw) (\<lambda>p.
     rbind (normalizePlan p) (\<lambda>normalized. Inr (PlanValue normalized)))"

definition planHTTPDecodeExpectedResponse :: "string \<Rightarrow> http_value result" where
  "planHTTPDecodeExpectedResponse =
     decodeUnlessEmpty storePlanHTTPResponse \<lparr>phr_planned = False, phr_expectedCalls = 0\<rparr> PlanHTTPResponsePtr"

definition awaitHTTPDecodeRequest :: "string \<Rightarrow> http_value result" where
  "awaitHTTPDecodeRequest = decodeUnlessEmpty storeEmpty () (\<lambda>_. EmptyHTTPRequestPtr)"

definition awaitHTTPDecodeExpectedResponse :: "string \<Rightarrow> http_value result" where
  "awaitHTTPDecodeExpectedResponse = decodeUnlessEmpty storeHTTPCheckResult zeroHTTPResult HTTPCheckResultPtr"

definition verifyHTTPDecodeRequest :: "string \<Rightarrow> http_value result" where
  "verifyHTTPDecodeRequest = decodeUnlessEmpty storeEmpty () (\<lambda>_. EmptyHTTPRequestPtr)"

definition verifyHTTPDecodeExpectedResponse :: "string \<Rightarrow> http_value result" where
  "verifyHTTPDecodeExpectedResponse = decodeUnlessEmpty storeHTTPCheckResult zeroHTTPResult HTTPCheckResultPtr"

section \<open>Invocations\<close>

text \<open>
  The new server, the response (\<^const>\<open>None\<close> is nil) and the error: a failed check returns both its
  result and an error.
\<close>

type_synonym http_answer = "http_value option \<times> err option"

definition planHTTPInvoke :: "err option \<Rightarrow> server \<Rightarrow> http_value \<Rightarrow> server \<times> http_answer" where
  "planHTTPInvoke ctxErr s request =
     (case request of
        PlanValue p \<Rightarrow>
          (case serverPlan ctxErr s p of
             (s', Inl e) \<Rightarrow> (s', None, Some e)
           | (s', Inr _) \<Rightarrow>
               (s', Some (PlanHTTPResponsePtr \<lparr>phr_planned = True, phr_expectedCalls = expectedTotal (pl_calls p)\<rparr>), None))
      | _ \<Rightarrow> (s, None, Some (Errorf ''PlanHTTPCalls received invalid request type: %T'' [AStr (http_type_name request)])))"

definition awaitHTTPInvoke :: "err option \<Rightarrow> server \<Rightarrow> http_value \<Rightarrow> server \<times> http_answer" where
  "awaitHTTPInvoke ctxErr s request =
     (if request \<noteq> EmptyHTTPRequestPtr then
        (s, None, Some (Errorf ''AwaitHTTPCalls received invalid request type: %T'' [AStr (http_type_name request)]))
      else (s, apfst (\<lambda>r. Some (HTTPCheckResultValue r)) (serverAwait s)))"

definition verifyHTTPInvoke :: "err option \<Rightarrow> server \<Rightarrow> http_value \<Rightarrow> server \<times> http_answer" where
  "verifyHTTPInvoke ctxErr s request =
     (if request \<noteq> EmptyHTTPRequestPtr then
        (s, None, Some (Errorf ''VerifyHTTPCalls received invalid request type: %T'' [AStr (http_type_name request)]))
      else (s, apfst (\<lambda>r. Some (HTTPCheckResultValue r)) (serverVerify ctxErr s)))"

section \<open>The handlers and their registry\<close>

datatype httpMockHandler = PlanHTTPCallsHandler | AwaitHTTPCallsHandler | VerifyHTTPCallsHandler

fun httpDecodeRequest :: "httpMockHandler \<Rightarrow> string \<Rightarrow> http_value result" where
  "httpDecodeRequest PlanHTTPCallsHandler = planHTTPDecodeRequest"
| "httpDecodeRequest AwaitHTTPCallsHandler = awaitHTTPDecodeRequest"
| "httpDecodeRequest VerifyHTTPCallsHandler = verifyHTTPDecodeRequest"

fun httpDecodeExpectedResponse :: "httpMockHandler \<Rightarrow> string \<Rightarrow> http_value result" where
  "httpDecodeExpectedResponse PlanHTTPCallsHandler = planHTTPDecodeExpectedResponse"
| "httpDecodeExpectedResponse AwaitHTTPCallsHandler = awaitHTTPDecodeExpectedResponse"
| "httpDecodeExpectedResponse VerifyHTTPCallsHandler = verifyHTTPDecodeExpectedResponse"

fun httpInvoke :: "httpMockHandler \<Rightarrow> err option \<Rightarrow> server \<Rightarrow> http_value \<Rightarrow> server \<times> http_answer" where
  "httpInvoke PlanHTTPCallsHandler = planHTTPInvoke"
| "httpInvoke AwaitHTTPCallsHandler = awaitHTTPInvoke"
| "httpInvoke VerifyHTTPCallsHandler = verifyHTTPInvoke"

text \<open>Every handler returns the response unchanged.\<close>

definition httpNormalizeResponse :: "httpMockHandler \<Rightarrow> http_value \<Rightarrow> http_value result" where
  "httpNormalizeResponse handler response = Inr response"

datatype 'c http_mock_registered = HTTPMockPreset httpMockHandler | HTTPMockCustom 'c

definition newHTTPMockRegistry :: "'c gomap \<Rightarrow> 'c http_mock_registered mapRegistry" where
  "newHTTPMockRegistry customHandlers =
     newMapRegistry (mcopy (mcopy [] [
         (PlanHTTPCallsHandlerName, HTTPMockPreset PlanHTTPCallsHandler),
         (AwaitHTTPCallsHandlerName, HTTPMockPreset AwaitHTTPCallsHandler),
         (VerifyHTTPCallsHandlerName, HTTPMockPreset VerifyHTTPCallsHandler)])
       (map (\<lambda>(name, h). (name, HTTPMockCustom h)) customHandlers))"

section \<open>Decoded plans are proper\<close>

lemma store_values_wf: "wf_values v \<Longrightarrow> store_values v raw = Inr w \<Longrightarrow> wf_values w"
  by (auto simp: store_values_def wf_values_def entries_def split: if_splits option.splits
      intro: store_map_wf store_map_wf [OF wf_map_Nil])

lemmas stored_values_wf = store_all_inv [of wf_values store_values, OF store_values_wf]

lemma storeHTTPResponse_wf: "wf_response v \<Longrightarrow> storeHTTPResponse v raw = Inr w \<Longrightarrow> wf_response w"
  by (auto simp: storeHTTPResponse_def wf_response_def intro: stored_values_wf)

lemmas stored_response_wf = store_all_inv [of wf_response storeHTTPResponse, OF storeHTTPResponse_wf]

lemma storeCall_wf: "wf_call v \<Longrightarrow> storeCall v raw = Inr w \<Longrightarrow> wf_call w"
  by (auto simp: storeCall_def wf_call_def intro: stored_values_wf stored_response_wf)

text \<open>What holds of decoded elements holds of the elements of a decoded slice.\<close>

lemma store_slice_inv:
  assumes "\<And>v raw w. P v \<Longrightarrow> f v raw = Inr w \<Longrightarrow> P w" "P zero"
  shows "list_all P v \<Longrightarrow> store_slice f zero v raw = Inr w \<Longrightarrow> list_all P w"
proof -
  assume v: "list_all P v" and w: "store_slice f zero v raw = Inr w"
  show "list_all P w"
  proof (cases "is_null raw")
    case True
    then show ?thesis using w by (simp add: store_slice_def)
  next
    case False
    let ?f = "\<lambda>(i, r). f (if i < length v then v ! i else zero) r"
    obtain raws where raws: "map_result ?f (zip [0..<length raws] raws) = Inr w"
      using w False by (auto simp: store_slice_def split: option.splits)
    have "P y" if y: "y \<in> set w" for y
    proof -
      obtain x where x: "?f x = Inr y" using map_result_source [OF raws y] by blast
      obtain i r where "x = (i, r)" by fastforce
      moreover have "P (if i < length v then v ! i else zero)" using v assms(2) by (simp add: list_all_length)
      ultimately show ?thesis using x assms(1) by simp
    qed
    then show ?thesis by (simp add: list_all_iff)
  qed
qed

lemma zeroCall_wf: "wf_call zeroCall"
  by (simp add: wf_call_def zeroCall_def wf_values_def wf_response_def zeroHTTPResponse_def)

lemmas stored_calls_wf = store_all_inv [of "list_all wf_call" "store_slice storeCall zeroCall",
    OF store_slice_inv [of wf_call storeCall zeroCall, OF storeCall_wf zeroCall_wf]]

lemma storePlan_wf: "wf_plan v \<Longrightarrow> storePlan v raw = Inr w \<Longrightarrow> wf_plan w"
  by (auto simp: storePlan_def wf_plan_def intro: stored_calls_wf)

lemma decoded_plan_normal:
  assumes "planHTTPDecodeRequest raw = Inr q"
  shows "\<exists>p. q = PlanValue p \<and> normal_plan p"
proof -
  obtain p n where p: "decodeStrictJSON storePlan emptyPlan raw = Inr p" "normalizePlan p = Inr n" "q = PlanValue n"
    using assms by (auto simp: planHTTPDecodeRequest_def)
  then obtain t where "storePlan emptyPlan t = Inr p" by (auto simp: decodeStrictJSON_def split: sum.splits)
  moreover have "wf_plan emptyPlan" by (simp add: emptyPlan_def wf_plan_def)
  ultimately have "wf_plan p" using storePlan_wf by blast
  then show ?thesis using p normalizePlan_normal by blast
qed

section \<open>Serving requests between the steps\<close>

fun serveRequests :: "server \<Rightarrow> http_request list \<Rightarrow> server \<times> reply list" where
  "serveRequests s [] = (s, [])"
| "serveRequests s (q # qs) =
     (let (s', r) = serveHTTP s q; (s'', rs) = serveRequests s' qs in (s'', r # rs))"

abbreviation unexpectedReply :: reply where
  "unexpectedReply \<equiv> Reply 500 [] ''unexpected httpmock request''"

text \<open>The requests a server records: those whose body it can read.\<close>

definition recorded :: "server \<Rightarrow> http_request list \<Rightarrow> observed_request list" where
  "recorded s qs = concat (map (\<lambda>q. case readObservedRequest s q of Inl _ \<Rightarrow> [] | Inr ob \<Rightarrow> [ob]) qs)"

text \<open>Every request of \<open>qs\<close>, arriving after those of \<open>pre\<close>, has a planned response.\<close>

fun answered :: "plan \<Rightarrow> observed_request list \<Rightarrow> observed_request list \<Rightarrow> bool" where
  "answered p pre [] \<longleftrightarrow> True"
| "answered p pre (q # qs) \<longleftrightarrow> responseForRequest p (pre @ [q]) q \<noteq> None \<and> answered p (pre @ [q]) qs"

lemma answered_append: "answered p pre (qs @ rs) \<longleftrightarrow> answered p pre qs \<and> answered p (pre @ qs) rs"
  by (induction qs arbitrary: pre) auto

lemma recorded_append: "recorded s (qs @ rs) = recorded s qs @ recorded s rs"
  by (simp add: recorded_def)

lemma recorded_limit: "sv_maxRequestBodyBytes s' = sv_maxRequestBodyBytes s \<Longrightarrow> recorded s' = recorded s"
  by (simp add: recorded_def readObservedRequest_def fun_eq_iff)

lemma answered_slots:
  assumes "pl_ordering p = PlanOrderingStrict"
  shows "answered p [] obs \<longleftrightarrow> slots_ok (expandCalls (pl_calls p)) obs"
proof -
  have "answered p pre qs \<longleftrightarrow>
      (\<forall>k < length qs. strictResponseForRequest p (take (Suc (length pre + k)) (pre @ qs)) \<noteq> None)" for pre qs
  proof (induction qs arbitrary: pre)
    case (Cons q qs)
    show ?case
      unfolding answered.simps Cons.IH All_less_Suc2 length_Cons
      by (simp add: responseForRequest_def assms)
  qed simp
  from this [of "[]" obs] show ?thesis by (simp add: strict_served)
qed

lemma served_step:
  assumes "server_inv s" "wf_http_request q" "readObservedRequest s q = Inr ob"
    and "\<forall>c \<in> set (pl_calls (sv_plan s)). writePlannedResponse (ce_response c) \<noteq> unexpectedReply"
  shows "snd (serveHTTP s q) = unexpectedReply \<longleftrightarrow> responseForRequest (sv_plan s) (sv_observed s @ [ob]) ob = None"
proof -
  have inv: "server_inv (s\<lparr>sv_observed := sv_observed s @ [ob]\<rparr>)"
    using server_step_inv [OF step_serve [OF assms(2), of s] assms(1)] serveHTTP_state [of s q] assms(3)
    by (metis fst_conv old.sum.simps(6) surj_pair)
  note views = server_inv_plan [OF inv, simplified] server_inv_observed [OF inv, simplified]
  show ?thesis
    using response_of_call [of "sv_plan s" "sv_observed s" ob] assms(4)
    by (auto simp: serveHTTP_def assms(3) views Let_def split: option.splits)
qed

lemma served_unreadable:
  "readObservedRequest s q = Inl e \<Longrightarrow> fst (serveHTTP s q) = s \<and> snd (serveHTTP s q) \<noteq> unexpectedReply"
  by (simp add: serveHTTP_def httpError_def)

text \<open>What a run of requests leaves: the recorded requests, and a reply for each.\<close>

lemma serveRequests_run:
  assumes "server_inv s" "\<forall>q \<in> set qs. wf_http_request q" "serveRequests s qs = (s', rs)"
    and "\<forall>c \<in> set (pl_calls (sv_plan s)). writePlannedResponse (ce_response c) \<noteq> unexpectedReply"
  shows "server_inv s' \<and> sv_plan s' = sv_plan s \<and> sv_maxRequestBodyBytes s' = sv_maxRequestBodyBytes s \<and>
    sv_observed s' = sv_observed s @ recorded s qs \<and>
    (unexpectedReply \<in> set rs \<longleftrightarrow> \<not> answered (sv_plan s) (sv_observed s) (recorded s qs))"
  using assms
proof (induction qs arbitrary: s rs)
  case Nil
  then show ?case by (simp add: recorded_def)
next
  case (Cons q qs)
  obtain s1 r where r: "serveHTTP s q = (s1, r)" by fastforce
  obtain rs1 where rs: "serveRequests s1 qs = (s', rs1)" "rs = r # rs1"
    using Cons.prems(3) r by (auto split: prod.splits)
  have inv: "server_inv s1" using server_step_inv [OF step_serve [OF _ r]] Cons.prems(1,2) by simp
  show ?case
  proof (cases "readObservedRequest s q")
    case (Inl e)
    then have "s1 = s" "r \<noteq> unexpectedReply" using served_unreadable [OF Inl] r by simp_all
    then show ?thesis using Cons.IH [OF inv _ rs(1)] Cons.prems rs(2) Inl by (auto simp: recorded_def)
  next
    case (Inr ob)
    have s1: "s1 = s\<lparr>sv_observed := sv_observed s @ [ob]\<rparr>" using serveHTTP_state [of s q] Inr r by simp
    have rec: "recorded s (q # qs) = ob # recorded s1 qs"
      using recorded_limit [of s1 s] Inr by (simp add: s1 recorded_def)
    have "r = unexpectedReply \<longleftrightarrow> responseForRequest (sv_plan s) (sv_observed s @ [ob]) ob = None"
      using served_step [OF Cons.prems(1) _ Inr Cons.prems(4)] Cons.prems(2) r by simp
    then show ?thesis using Cons.IH [OF inv _ rs(1)] Cons.prems rs(2) unfolding rec by (auto simp: s1)
  qed
qed

lemma evaluateStrict_await_length:
  assumes "snd (evaluateStrict p obs False) = None"
  shows "length (expandCalls (pl_calls p)) \<le> length obs"
proof (rule ccontr)
  let ?ex = "expandCalls (pl_calls p)"
  let ?r = "strictPrefix (start_result obs) 0 ?ex obs"
  assume short: "\<not> length ?ex \<le> length obs"
  have ok: "snd ?r = None" and n: "\<not> hc_matchedCount (fst ?r) < int (length ?ex)"
    using assms short by (auto simp: evaluateStrict_def Let_def snd_and_check split: if_splits)
  then show False using strictPrefix_count [OF ok] short by (simp add: min_def)
qed

section \<open>A case with planned calls\<close>

lemma plan_invoked_http:
  assumes "server_inv s0" "normal_plan p"
  shows "planHTTPInvoke None s0 (PlanValue p) = (s0\<lparr>sv_plan := p, sv_observed := []\<rparr>,
      Some (PlanHTTPResponsePtr \<lparr>phr_planned = True, phr_expectedCalls = expectedTotal (pl_calls p)\<rparr>), None) \<and>
    server_inv (s0\<lparr>sv_plan := p, sv_observed := []\<rparr>)"
  using assms by (simp add: planHTTPInvoke_def serverPlan_def normal_normalizePlan server_inv_def)

lemma check_answers:
  assumes "server_inv s"
  shows "snd (snd (verifyHTTPInvoke None s EmptyHTTPRequestPtr)) = snd (httpEvaluate (sv_plan s) (sv_observed s) True)"
    "snd (snd (awaitHTTPInvoke ctxErr s EmptyHTTPRequestPtr)) = snd (httpEvaluate (sv_plan s) (sv_observed s) False)"
  by (simp_all add: verifyHTTPInvoke_def awaitHTTPInvoke_def server_views [OF assms])

text \<open>
  C10: a whole check of outbound HTTP calls through the preset handlers, under strict ordering: the
  plan step with a decoded request succeeds and reports the number of calls; however many requests
  arrive before the await step and before the verify step, the verify step succeeds exactly when no
  request was answered as unexpected and at least the planned number of requests with a readable
  body arrived; the await step only succeeds when that number arrived before it, and does succeed
  when moreover no request was answered as unexpected.
\<close>

theorem http_mock_case:
  assumes "server_reachable s0" "httpDecodeRequest PlanHTTPCallsHandler raw = Inr q"
    and "q = PlanValue p" "pl_ordering p = PlanOrderingStrict"
    and "\<forall>c \<in> set (pl_calls p). writePlannedResponse (ce_response c) \<noteq> unexpectedReply"
    and "\<forall>q \<in> set (before @ after). wf_http_request q"
  shows "\<exists>s1 s2 s3 replies replies'.
    httpInvoke PlanHTTPCallsHandler None s0 q = (s1, Some (PlanHTTPResponsePtr
      \<lparr>phr_planned = True, phr_expectedCalls = expectedTotal (pl_calls p)\<rparr>), None) \<and>
    serveRequests s1 before = (s2, replies) \<and> serveRequests s2 after = (s3, replies') \<and>
    (snd (snd (httpInvoke VerifyHTTPCallsHandler None s3 EmptyHTTPRequestPtr)) = None \<longleftrightarrow>
      unexpectedReply \<notin> set (replies @ replies') \<and>
      length (expandCalls (pl_calls p)) \<le> length (recorded s0 (before @ after))) \<and>
    (snd (snd (httpInvoke AwaitHTTPCallsHandler ctxErr s2 EmptyHTTPRequestPtr)) = None \<longrightarrow>
      length (expandCalls (pl_calls p)) \<le> length (recorded s0 before)) \<and>
    (unexpectedReply \<notin> set replies \<and> length (expandCalls (pl_calls p)) \<le> length (recorded s0 before) \<longrightarrow>
      snd (snd (httpInvoke AwaitHTTPCallsHandler ctxErr s2 EmptyHTTPRequestPtr)) = None)"
proof -
  let ?s1 = "s0\<lparr>sv_plan := p, sv_observed := []\<rparr>"
  let ?n = "length (expandCalls (pl_calls p))"
  have "normal_plan p" using decoded_plan_normal assms(2,3) by auto
  note plan = plan_invoked_http [OF reachable_inv [OF assms(1)] this]
  have rec1: "recorded ?s1 = recorded s0" by (rule recorded_limit) simp
  obtain s2 rs where r2: "serveRequests ?s1 before = (s2, rs)" by fastforce
  obtain s3 rs' where r3: "serveRequests s2 after = (s3, rs')" by fastforce
  have run2: "server_inv s2" "sv_plan s2 = p" "sv_maxRequestBodyBytes s2 = sv_maxRequestBodyBytes s0"
    "sv_observed s2 = recorded s0 before" "unexpectedReply \<in> set rs \<longleftrightarrow> \<not> answered p [] (recorded s0 before)"
    using serveRequests_run [OF _ _ r2] plan assms(5,6) rec1 by auto
  have rec2: "recorded s2 = recorded s0" by (rule recorded_limit) (rule run2(3))
  have run3: "server_inv s3" "sv_plan s3 = p" "sv_observed s3 = recorded s0 (before @ after)"
    "unexpectedReply \<in> set rs' \<longleftrightarrow> \<not> answered p (recorded s0 before) (recorded s0 after)"
    using serveRequests_run [OF run2(1) _ r3] run2 assms(5,6) rec2 by (auto simp: recorded_append)
  have "snd (snd (verifyHTTPInvoke None s3 EmptyHTTPRequestPtr)) = None \<longleftrightarrow>
      ?n \<le> length (recorded s0 (before @ after)) \<and> answered p [] (recorded s0 (before @ after))"
    by (simp add: check_answers [OF run3(1)] run3 httpEvaluate_def assms(4) evaluateStrict_final answered_slots)
  moreover have "unexpectedReply \<notin> set (rs @ rs') \<longleftrightarrow> answered p [] (recorded s0 (before @ after))"
    using run2(5) run3(4) by (auto simp: recorded_append answered_append)
  moreover have await: "snd (snd (awaitHTTPInvoke ctxErr s2 EmptyHTTPRequestPtr)) =
      snd (evaluateStrict p (recorded s0 before) False)"
    by (simp add: check_answers [OF run2(1)] run2 httpEvaluate_def assms(4))
  moreover have "?n \<le> length (recorded s0 before) \<Longrightarrow> answered p [] (recorded s0 before) \<Longrightarrow>
      snd (evaluateStrict p (recorded s0 before) False) = None"
    using evaluateStrict_await [of p "recorded s0 before"] answered_slots [OF assms(4)] by (simp add: evaluateStrict_final)
  ultimately show ?thesis
    using plan r2 r3 run2(5) evaluateStrict_await_length [of p "recorded s0 before"] assms(3) by auto
qed

definition call_text :: string where
  "call_text = ''{\"expected_count\":1,\"method\":\"GET\",\"path\":\"/a\",\"response\":{\"status\":200}}''"

definition calls_request :: string where
  "calls_request = ''{\"ordering\":\"strict\",\"calls\":['' @ call_text @ '']}''"

definition calls_plan :: plan where
  "calls_plan = \<lparr>pl_calls = [(get_call ''/a'' 1 CountModeExact [])
      \<lparr>ce_queryMode := QueryModeExact, ce_headersMode := HttpHeadersModeExact,
       ce_response := \<lparr>hr_status = 200, hr_headers = None, hr_body = [], hr_rawBody = None\<rparr>\<rparr>],
     pl_ordering = PlanOrderingStrict\<rparr>"

text \<open>The request is decoded level by level.\<close>

definition decoded_call :: call_expectation where
  "decoded_call = zeroCall\<lparr>ce_expectedCount := 1, ce_method := ''GET'', ce_path := ''/a'',
     ce_response := zeroHTTPResponse\<lparr>hr_status := 200\<rparr>\<rparr>"

lemma call_decoded: "storeCall zeroCall call_text = Inr decoded_call"
  by code_simp

lemma calls_split: "array_elems (''['' @ call_text @ '']'') = Some [call_text]" "\<not> is_null (''['' @ call_text @ '']'')"
  by code_simp+

lemma request_split:
  "decode_struct [''calls'', ''ordering''] calls_request =
     Inr [(''ordering'', [CHR 0x22] @ ''strict'' @ [CHR 0x22]), (''calls'', ''['' @ call_text @ '']'')]"
  by code_simp

lemma request_whole:
  "case json_decode calls_request of Inr (_, rest) \<Rightarrow> rest = [] | Inl _ \<Rightarrow> False"
  "skip_space calls_request = calls_request" "json_decode [] = Inl DecEOF"
  by code_simp+

lemma request_stored: "storePlan emptyPlan calls_request = Inr \<lparr>pl_calls = [decoded_call], pl_ordering = PlanOrderingStrict\<rparr>"
proof -
  have "store_string [] ([CHR 0x22] @ ''strict'' @ [CHR 0x22]) = Inr ''strict''" by code_simp
  then show ?thesis
    using calls_split call_decoded
    by (simp add: storePlan_def request_split field_values_def emptyPlan_def store_slice_def PlanOrderingStrict_def
        del: append_Cons)
qed

lemma calls_request_decoded: "httpDecodeRequest PlanHTTPCallsHandler calls_request = Inr (PlanValue calls_plan)"
proof -
  obtain j where "json_decode calls_request = Inr (j, [])" using request_whole(1) by (auto split: sum.splits)
  then have "decodeStrictJSON storePlan emptyPlan calls_request = Inr \<lparr>pl_calls = [decoded_call], pl_ordering = PlanOrderingStrict\<rparr>"
    using request_stored by (simp add: decodeStrictJSON_def request_whole(2,3) ensure_def)
  moreover have "normalizePlan \<lparr>pl_calls = [decoded_call], pl_ordering = PlanOrderingStrict\<rparr> = Inr calls_plan" by code_simp
  ultimately show ?thesis by (simp add: planHTTPDecodeRequest_def)
qed

definition calls_server :: server where
  "calls_server = fst (httpInvoke PlanHTTPCallsHandler None (newServer []) (PlanValue calls_plan))"

text \<open>One planned request, then one too many: the await step passes, the verify step fails.\<close>

theorem http_mock_case_witness:
  "\<exists>s2 s3 replies replies'. serveRequests calls_server [get_request ''/a''] = (s2, replies) \<and>
     snd (snd (httpInvoke AwaitHTTPCallsHandler None s2 EmptyHTTPRequestPtr)) = None \<and>
     serveRequests s2 [get_request ''/a''] = (s3, replies') \<and>
     snd (snd (httpInvoke VerifyHTTPCallsHandler None s3 EmptyHTTPRequestPtr)) \<noteq> None"
proof -
  let ?q = "[get_request ''/a'']"
  note d = calls_request_decoded
  have o: "pl_ordering calls_plan = PlanOrderingStrict" by (simp add: calls_plan_def)
  have c: "\<forall>c \<in> set (pl_calls calls_plan). writePlannedResponse (ce_response c) \<noteq> unexpectedReply"
    by (simp add: calls_plan_def writePlannedResponse_def)
  have w: "\<forall>q \<in> set (?q @ ?q). wf_http_request q" by (simp add: wf_http_request_def get_request_def)
  have n: "length (expandCalls (pl_calls calls_plan)) = 1" "length (recorded (newServer []) ?q) = 1"
    and r1: "unexpectedReply \<notin> set (snd (serveRequests calls_server ?q))"
    and r2: "unexpectedReply \<in> set (snd (serveRequests (fst (serveRequests calls_server ?q)) ?q))"
    by code_simp+
  show ?thesis
    using http_mock_case [OF reach_new [of "[]"] d refl o c w, where ctxErr = None] n r1 r2
    unfolding calls_server_def by (elim exE conjE) auto
qed

end
