(* ===== verification/KafkaHarness.thy ===== *)
theory KafkaHarness
  imports Probe "HOL-Library.Multiset"
begin

text \<open>
  The Kafka harness (\<open>queue/kafkaproducer/harness.go\<close>): topics with the namespace of a case,
  publishing, and the plan/await/verify operations over the messages read from the broker.  The
  client library \<open>sarama\<close> is a parameter, the record \<open>sarama\<close> over a world \<open>'w\<close>; a context is part
  of the world.
\<close>

section \<open>Names\<close>

definition namespaceJoiner :: string where "namespaceJoiner = ''-''"

fun normalizeBrokers :: "string list \<Rightarrow> string list" where
  "normalizeBrokers [] = []"
| "normalizeBrokers (broker # brokers) =
     (if trim_space broker = [] then normalizeBrokers brokers
      else trim_space broker # normalizeBrokers brokers)"

text \<open>
  \<open>strings.ToLower\<close> as far as the loop tells letters apart: the ASCII letters, and U+0130 and U+212A,
  whose lower forms are \<open>i\<close> and \<open>k\<close>.  Every other letter has a lower form outside ASCII.
\<close>

fun lower_ascii :: "string \<Rightarrow> string" where
  "lower_ascii [] = []"
| "lower_ascii (a # s) =
     (if a = CHR 0xC4 \<and> prefix [CHR 0xB0] s then CHR ''i'' # lower_ascii (drop 1 s)
      else if a = CHR 0xE2 \<and> prefix [CHR 0x84, CHR 0xAA] s then CHR ''k'' # lower_ascii (drop 2 s)
      else (if 65 \<le> (of_char a :: nat) \<and> (of_char a :: nat) \<le> 90 then char_of (of_char a + 32 :: nat) else a)
           # lower_ascii s)"

definition topic_char :: "char \<Rightarrow> bool" where
  "topic_char c \<longleftrightarrow> (97 \<le> (of_char c :: nat) \<and> (of_char c :: nat) \<le> 122) \<or> is_digit c \<or>
     c \<in> {CHR ''-'', CHR ''_'', CHR ''.''}"

text \<open>
  The loop of \<open>normalizeNamespace\<close>.  It goes over code points; going over bytes gives the same text,
  since the bytes of a code point outside ASCII are all replaced and only the first one writes a dash.
\<close>

fun namespaceLoop :: "bool \<Rightarrow> string \<Rightarrow> string" where
  "namespaceLoop previousDash [] = []"
| "namespaceLoop previousDash (symbol # s) =
     (if topic_char symbol then symbol # namespaceLoop (symbol = CHR ''-'') s
      else if previousDash then namespaceLoop previousDash s
      else CHR ''-'' # namespaceLoop True s)"

definition trim_dashes :: "string \<Rightarrow> string" where
  "trim_dashes s = rev (dropWhile (\<lambda>c. c = CHR ''-'') (rev (dropWhile (\<lambda>c. c = CHR ''-'') s)))"

definition normalizeNamespace :: "string \<Rightarrow> string" where
  "normalizeNamespace namespace =
     (let normalized = lower_ascii (trim_space namespace) in
      if normalized = [] then [] else trim_dashes (namespaceLoop False normalized))"

definition resolveTopic :: "string \<Rightarrow> string \<Rightarrow> string" where
  "resolveTopic caseNamespace baseTopic =
     (let normalizedTopic = trim_space baseTopic in
      if caseNamespace = [] then normalizedTopic
      else if normalizedTopic = [] then caseNamespace
      else caseNamespace @ namespaceJoiner @ normalizedTopic)"

section \<open>Messages\<close>

record harnessHeader =
  hh_key :: string
  hh_value :: string

text \<open>A nil key and an empty one are both \<^term>\<open>[]\<close>: the code only asks for the length.\<close>

record harnessMessage =
  hm_topic :: string
  hm_key :: string
  hm_value :: string
  hm_headers :: "harnessHeader list"
  hm_offset :: int

record publishMessage =
  pm_topic :: string
  pm_key :: "string option"
  pm_headers :: "string gomap"
  pm_payload :: string

definition kafkaCloneHeaders :: "string gomap \<Rightarrow> string gomap" where
  "kafkaCloneHeaders headers = (if length headers = 0 then [] else mcopy [] headers)"

definition cloneOptionalStringAsBytes :: "string option \<Rightarrow> string" where
  "cloneOptionalStringAsBytes v = (case v of None \<Rightarrow> [] | Some s \<Rightarrow> s)"

text \<open>\<open>order\<close> lists the entries of a map in the order Go iterates over them.\<close>

definition mapToKafkaHeaders :: "(string gomap \<Rightarrow> (string \<times> string) list) \<Rightarrow> string gomap \<Rightarrow> harnessHeader list" where
  "mapToKafkaHeaders order headers =
     (if length headers = 0 then []
      else map (\<lambda>(key, v). \<lparr>hh_key = key, hh_value = v\<rparr>) (order headers))"

definition mapFromKafkaMessage :: "harnessMessage \<Rightarrow> queue_message" where
  "mapFromKafkaMessage message = \<lparr>
     msg_topic = hm_topic message,
     msg_key = (if 0 < length (hm_key message) then Some (hm_key message) else None),
     msg_headers = fold (\<lambda>header headers. mput (hh_key header) (hh_value header) headers) (hm_headers message) [],
     msg_payload = hm_value message,
     msg_offset = hm_offset message\<rparr>"

section \<open>Readers and writers\<close>

text \<open>The interfaces \<open>messageWriter\<close> and \<open>messageReader\<close>.\<close>

record 'w messageWriter =
  mw_writeMessages :: "harnessMessage list \<Rightarrow> 'w \<Rightarrow> 'w \<times> err option"
  mw_close :: "'w \<Rightarrow> 'w \<times> err option"

record 'w messageReader =
  mr_fetchMessage :: "'w \<Rightarrow> 'w \<times> harnessMessage result" \<comment> \<open>with the timeout of \<open>pollBatchTimeout\<close>\<close>
  mr_close :: "'w \<Rightarrow> 'w \<times> err option"

record 'w harness =
  hn_caseNamespace :: string
  hn_writer :: "'w messageWriter option"
  hn_reader :: "'w messageReader option"
  hn_plan :: "outbound_expectation option"
  hn_observed :: "queue_message list"

text \<open>The functions the harness is given, and what it asks of the run time.\<close>

record 'w kafka_env =
  ke_ensureTopic :: "string \<Rightarrow> 'w \<Rightarrow> 'w \<times> err option"
  ke_newReader :: "string \<Rightarrow> 'w \<Rightarrow> 'w \<times> 'w messageReader result"
  ke_windowExpired :: "'w \<Rightarrow> bool" \<comment> \<open>the context has a deadline, and it is over\<close>
  ke_order :: "string gomap \<Rightarrow> (string \<times> string) list"

section \<open>Publishing\<close>

text \<open>\<^const>\<open>None\<close> where the call panics: after \<open>CleanupBroker\<close> the writer is nil.\<close>

definition publishRaw ::
    "'w kafka_env \<Rightarrow> 'w harness \<Rightarrow> publishMessage \<Rightarrow> 'w \<Rightarrow> ('w \<times> err option) option" where
  "publishRaw env h message w =
     (let normalizedTopic = resolveTopic (hn_caseNamespace h) (pm_topic message) in
      if normalizedTopic = [] then Some (w, Some (Err ''publish topic is required''))
      else case ke_ensureTopic env normalizedTopic w of
        (w1, Some e) \<Rightarrow> Some (w1, Some (Errorf ''ensure topic %q: %w'' [AStr normalizedTopic, AErr e]))
      | (w1, None) \<Rightarrow>
          (case hn_writer h of
             None \<Rightarrow> None
           | Some writer \<Rightarrow>
               let kafkaMessage = \<lparr>hm_topic = normalizedTopic, hm_key = cloneOptionalStringAsBytes (pm_key message),
                     hm_value = pm_payload message, hm_headers = mapToKafkaHeaders (ke_order env) (pm_headers message),
                     hm_offset = 0\<rparr>
               in case mw_writeMessages writer [kafkaMessage] w1 of
                    (w2, Some e) \<Rightarrow> Some (w2, Some (Errorf ''write kafka message: %w'' [AErr e]))
                  | (w2, None) \<Rightarrow> Some (w2, None)))"

text \<open>\<open>marshalled\<close> is the result of \<open>json.Marshal(payload)\<close>.\<close>

definition publishJSON ::
    "'w kafka_env \<Rightarrow> 'w harness \<Rightarrow> string \<Rightarrow> string option \<Rightarrow> string gomap \<Rightarrow> string result \<Rightarrow> 'w \<Rightarrow>
       ('w \<times> err option) option" where
  "publishJSON env h topic key headers marshalled w =
     (case marshalled of
        Inl e \<Rightarrow> Some (w, Some (Errorf ''marshal payload: %w'' [AErr e]))
      | Inr payloadRaw \<Rightarrow>
          publishRaw env h \<lparr>pm_topic = topic, pm_key = key, pm_headers = kafkaCloneHeaders headers,
            pm_payload = payloadRaw\<rparr> w)"

section \<open>Plan, await, verify, cleanup\<close>

definition planOutbound ::
    "'w kafka_env \<Rightarrow> 'w harness \<Rightarrow> outbound_expectation \<Rightarrow> 'w \<Rightarrow> 'w \<times> 'w harness \<times> err option" where
  "planOutbound env h expectation w =
     (case NormalizeExpectation expectation of
        Inl e \<Rightarrow> (w, h, Some e)
      | Inr n \<Rightarrow>
          let normalized = n\<lparr>oe_topic := resolveTopic (hn_caseNamespace h) (oe_topic n)\<rparr> in
          case ke_ensureTopic env (oe_topic normalized) w of
            (w1, Some e) \<Rightarrow> (w1, h, Some (Errorf ''ensure topic %q: %w'' [AStr (oe_topic normalized), AErr e]))
          | (w1, None) \<Rightarrow>
              (case ke_newReader env (oe_topic normalized) w1 of
                 (w2, Inl e) \<Rightarrow> (w2, h, Some (Errorf ''create reader: %w'' [AErr e]))
               | (w2, Inr reader) \<Rightarrow>
                   let h' = h\<lparr>hn_reader := Some reader, hn_plan := Some normalized, hn_observed := []\<rparr> in
                   (case hn_reader h of
                      None \<Rightarrow> (w2, h', None)
                    | Some old \<Rightarrow>
                        (case mr_close old w2 of
                           (w3, Some e) \<Rightarrow> (w3, h, Some (Errorf ''replace reader: %w'' [AErr e]))
                         | (w3, None) \<Rightarrow> (w3, h', None)))))"

text \<open>
  The loop of \<open>pollMessagesLocked\<close> goes on as long as messages arrive, which may be forever.
\<close>

partial_function (option) pollLoop ::
    "'w messageReader \<Rightarrow> queue_message list \<Rightarrow> 'w \<Rightarrow> ('w \<times> queue_message list \<times> err option) option" where
  "pollLoop reader observed w =
     (case mr_fetchMessage reader w of
        (w', Inl e) \<Rightarrow>
          Some (w', observed,
            if err_is contextCanceled e \<or> err_is contextDeadlineExceeded e then None
            else Some (Errorf ''fetch kafka message: %w'' [AErr e]))
      | (w', Inr message) \<Rightarrow> pollLoop reader (observed @ [mapFromKafkaMessage message]) w')"

definition pollMessagesLocked :: "'w harness \<Rightarrow> 'w \<Rightarrow> ('w \<times> 'w harness \<times> err option) option" where
  "pollMessagesLocked h w =
     (case hn_reader h of
        None \<Rightarrow> Some (w, h, Some (Err ''kafka reader is not initialized''))
      | Some reader \<Rightarrow>
          map_option (\<lambda>(w', observed, e). (w', h\<lparr>hn_observed := observed\<rparr>, e)) (pollLoop reader (hn_observed h) w))"

definition requirePlanLocked :: "'w harness \<Rightarrow> outbound_expectation result" where
  "requirePlanLocked h =
     (case hn_plan h of None \<Rightarrow> Inl (Err ''outbound plan is not initialized'') | Some p \<Rightarrow> Inr p)"

definition normalizeResultTopics :: "'w harness \<Rightarrow> check_result \<Rightarrow> check_result" where
  "normalizeResultTopics h r =
     (if hn_caseNamespace h = [] then r
      else r\<lparr>cr_observed := map (\<lambda>m. m\<lparr>msg_topic := trim_prefix (msg_topic m) (hn_caseNamespace h @ namespaceJoiner)\<rparr>)
             (cr_observed r)\<rparr>)"

text \<open>The part \<open>AwaitOutbound\<close> and \<open>VerifyOutbound\<close> share; the check gets the world after the poll.\<close>

definition checkOutbound ::
    "('w \<Rightarrow> outbound_expectation \<Rightarrow> queue_message list \<Rightarrow> outcome) \<Rightarrow> 'w harness \<Rightarrow> 'w \<Rightarrow>
       ('w \<times> 'w harness \<times> outcome) option" where
  "checkOutbound check h w =
     map_option (\<lambda>(w', h', e).
       case e of
         Some e \<Rightarrow> (w', h', zero_result, Some e)
       | None \<Rightarrow>
           (case requirePlanLocked h' of
              Inl e \<Rightarrow> (w', h', zero_result, Some e)
            | Inr p \<Rightarrow> (w', h', apfst (normalizeResultTopics h') (check w' p (hn_observed h')))))
       (pollMessagesLocked h w)"

definition awaitOutbound :: "'w kafka_env \<Rightarrow> 'w harness \<Rightarrow> 'w \<Rightarrow> ('w \<times> 'w harness \<times> outcome) option" where
  "awaitOutbound env = checkOutbound (\<lambda>w p observed. EvaluateAwait p observed (ke_windowExpired env w))"

definition verifyOutbound :: "'w harness \<Rightarrow> 'w \<Rightarrow> ('w \<times> 'w harness \<times> outcome) option" where
  "verifyOutbound = checkOutbound (\<lambda>w p observed. EvaluateVerify p observed)"

definition join_error :: "err option \<Rightarrow> string \<Rightarrow> err option \<Rightarrow> err option" where
  "join_error joinedErr format e =
     (case e of None \<Rightarrow> joinedErr | Some e \<Rightarrow> Some (errors_join joinedErr (Errorf format [AErr e])))"

definition cleanupBroker :: "'w harness \<Rightarrow> 'w \<Rightarrow> 'w \<times> 'w harness \<times> err option" where
  "cleanupBroker h w =
     (let (w1, e1) = (case hn_reader h of None \<Rightarrow> (w, None) | Some reader \<Rightarrow> mr_close reader w);
          joinedErr = join_error None ''close reader: %w'' e1;
          (w2, e2) = (case hn_writer h of None \<Rightarrow> (w1, None) | Some writer \<Rightarrow> mw_close writer w1)
      in (w2, h\<lparr>hn_reader := None, hn_writer := None, hn_plan := None, hn_observed := []\<rparr>,
          join_error joinedErr ''close writer: %w'' e2))"

section \<open>A harness is created\<close>

text \<open>\<open>producer\<close> is what \<open>sarama.NewSyncProducer\<close> returns, behind the interface of the writer.\<close>

definition newHarness :: "string list \<Rightarrow> string \<Rightarrow> 'w messageWriter result \<Rightarrow> 'w harness result" where
  "newHarness brokers caseNamespace producer =
     (if normalizeBrokers brokers = [] then Inl (Err ''kafka brokers are required'')
      else case producer of
        Inl e \<Rightarrow> Inl (Errorf ''create kafka producer: %w'' [AErr e])
      | Inr writer \<Rightarrow>
          Inr \<lparr>hn_caseNamespace = normalizeNamespace caseNamespace, hn_writer = Some writer, hn_reader = None,
               hn_plan = None, hn_observed = []\<rparr>)"

section \<open>The sarama adapters\<close>

record producerMessage =
  pr_topic :: string
  pr_key :: "string option"
  pr_value :: "string option"
  pr_headers :: "(string \<times> string) list"

record consumerMessage =
  cm_topic :: string
  cm_key :: string
  cm_value :: string
  cm_headers :: "(string \<times> string) option list" \<comment> \<open>\<^const>\<open>None\<close> is a nil pointer\<close>
  cm_offset :: int

text \<open>What the three-way \<open>select\<close> of \<open>FetchMessage\<close> takes.\<close>

datatype fetchEvent =
    ContextDone err
  | ConsumerFailed err
  | ChannelClosed
  | Received consumerMessage

text \<open>
  \<open>sa_race before after\<close> tells who wins in \<open>runWithContext\<close>: \<^const>\<open>None\<close> the operation, otherwise the
  context, with the world in which the caller goes on while the operation is still under way.
\<close>

record 'w sarama =
  sa_ctxErr :: "'w \<Rightarrow> err option"
  sa_race :: "'w \<Rightarrow> 'w \<Rightarrow> 'w option"
  sa_send :: "producerMessage \<Rightarrow> 'w \<Rightarrow> 'w \<times> err option"
  sa_newAdmin :: "'w \<Rightarrow> 'w \<times> err option"
  sa_createTopic :: "string \<Rightarrow> 'w \<Rightarrow> 'w \<times> err option"
  sa_closeAdmin :: "'w \<Rightarrow> 'w"
  sa_newConsumer :: "'w \<Rightarrow> 'w \<times> err option"
  sa_consumePartition :: "string \<Rightarrow> 'w \<Rightarrow> 'w \<times> err option"
  sa_nextEvent :: "'w \<Rightarrow> 'w \<times> fetchEvent"
  sa_closePartition :: "'w \<Rightarrow> 'w \<times> err option"
  sa_closeConsumer :: "'w \<Rightarrow> 'w \<times> err option"
  sa_isAlreadyExists :: "err \<Rightarrow> bool" \<comment> \<open>\<open>errors.Is(err, sarama.ErrTopicAlreadyExists)\<close>\<close>
  sa_lowerText :: "err \<Rightarrow> string" \<comment> \<open>the text of an error, in lower case\<close>

definition runWithContext :: "'w sarama \<Rightarrow> ('w \<Rightarrow> 'w \<times> err option) \<Rightarrow> 'w \<Rightarrow> 'w \<times> err option" where
  "runWithContext sa operation w =
     (let (w1, e) = operation w in
      case sa_race sa w w1 of None \<Rightarrow> (w1, e) | Some w2 \<Rightarrow> (w2, sa_ctxErr sa w2))"

definition isTopicAlreadyExistsError :: "'w sarama \<Rightarrow> err \<Rightarrow> bool" where
  "isTopicAlreadyExistsError sa e \<longleftrightarrow> sa_isAlreadyExists sa e \<or> contains_str (sa_lowerText sa e) ''already exists''"

definition ensureTopic :: "'w sarama \<Rightarrow> string \<Rightarrow> 'w \<Rightarrow> 'w \<times> err option" where
  "ensureTopic sa topic w =
     (if topic = [] then (w, Some (Err ''topic is required''))
      else case sa_ctxErr sa w of
        Some e \<Rightarrow> (w, Some e)
      | None \<Rightarrow>
          (case sa_newAdmin sa w of
             (w1, Some e) \<Rightarrow> (w1, Some (Errorf ''create cluster admin: %w'' [AErr e]))
           | (w1, None) \<Rightarrow>
               (let (w2, e) = runWithContext sa (sa_createTopic sa topic) w1 in
                (sa_closeAdmin sa w2,
                 case e of
                   None \<Rightarrow> None
                 | Some e \<Rightarrow>
                     if isTopicAlreadyExistsError sa e then None
                     else Some (Errorf ''create topic: %w'' [AErr e])))))"

definition toSaramaRecordHeaders :: "harnessHeader list \<Rightarrow> (string \<times> string) list" where
  "toSaramaRecordHeaders headers =
     (if length headers = 0 then [] else map (\<lambda>header. (hh_key header, hh_value header)) headers)"

fun fromSaramaRecordHeaders :: "(string \<times> string) option list \<Rightarrow> harnessHeader list" where
  "fromSaramaRecordHeaders [] = []"
| "fromSaramaRecordHeaders (None # headers) = fromSaramaRecordHeaders headers"
| "fromSaramaRecordHeaders (Some (key, v) # headers) =
     \<lparr>hh_key = key, hh_value = v\<rparr> # fromSaramaRecordHeaders headers"

definition toProducerMessage :: "harnessMessage \<Rightarrow> producerMessage" where
  "toProducerMessage message = \<lparr>
     pr_topic = hm_topic message,
     pr_key = (if 0 < length (hm_key message) then Some (hm_key message) else None),
     pr_value = (if 0 < length (hm_value message) then Some (hm_value message) else None),
     pr_headers = toSaramaRecordHeaders (hm_headers message)\<rparr>"

fun saramaWriteMessages :: "'w sarama \<Rightarrow> harnessMessage list \<Rightarrow> 'w \<Rightarrow> 'w \<times> err option" where
  "saramaWriteMessages sa [] w = (w, None)"
| "saramaWriteMessages sa (message # messages) w =
     (case sa_ctxErr sa w of
        Some e \<Rightarrow> (w, Some e)
      | None \<Rightarrow>
          (case runWithContext sa (\<lambda>w. apsnd (map_option (\<lambda>e. Errorf ''send kafka message: %w'' [AErr e]))
                  (sa_send sa (toProducerMessage message) w)) w of
             (w1, Some e) \<Rightarrow> (w1, Some e)
           | (w1, None) \<Rightarrow> saramaWriteMessages sa messages w1))"

definition fromConsumerMessage :: "consumerMessage \<Rightarrow> harnessMessage" where
  "fromConsumerMessage message = \<lparr>
     hm_topic = cm_topic message, hm_key = cm_key message, hm_value = cm_value message,
     hm_headers = fromSaramaRecordHeaders (cm_headers message), hm_offset = cm_offset message\<rparr>"

definition ioEOF :: err where "ioEOF = Opaque ''io.EOF''"

definition saramaFetchMessage :: "'w sarama \<Rightarrow> 'w \<Rightarrow> 'w \<times> harnessMessage result" where
  "saramaFetchMessage sa w =
     apsnd (\<lambda>event. case event of
         ContextDone e \<Rightarrow> Inl e
       | ConsumerFailed e \<Rightarrow> Inl e
       | ChannelClosed \<Rightarrow> Inl ioEOF
       | Received message \<Rightarrow> Inr (fromConsumerMessage message)) (sa_nextEvent sa w)"

text \<open>The reader adapter: which of its two consumers are not nil.\<close>

record saramaReader =
  sr_consumer :: bool
  sr_partitionConsumer :: bool

definition newSaramaReader :: "'w sarama \<Rightarrow> string \<Rightarrow> 'w \<Rightarrow> 'w \<times> saramaReader result" where
  "newSaramaReader sa topic w =
     (case sa_newConsumer sa w of
        (w1, Some e) \<Rightarrow> (w1, Inl (Errorf ''create kafka consumer: %w'' [AErr e]))
      | (w1, None) \<Rightarrow>
          (case sa_consumePartition sa topic w1 of
             (w2, Some e) \<Rightarrow> (fst (sa_closeConsumer sa w2), Inl (Errorf ''create partition consumer: %w'' [AErr e]))
           | (w2, None) \<Rightarrow> (w2, Inr \<lparr>sr_consumer = True, sr_partitionConsumer = True\<rparr>)))"

definition saramaReaderClose :: "'w sarama \<Rightarrow> saramaReader \<Rightarrow> 'w \<Rightarrow> 'w \<times> saramaReader \<times> err option" where
  "saramaReaderClose sa reader w =
     (let (w1, e1) = (if sr_partitionConsumer reader then sa_closePartition sa w else (w, None));
          joinedErr = join_error None ''close partition consumer: %w'' e1;
          (w2, e2) = (if sr_consumer reader then sa_closeConsumer sa w1 else (w1, None))
      in (w2, \<lparr>sr_consumer = False, sr_partitionConsumer = False\<rparr>, join_error joinedErr ''close consumer: %w'' e2))"

section \<open>Names are safe for topics\<close>

lemma topic_char_ascii:
  assumes "topic_char c"
  shows "is_ascii c \<and> [c] \<notin> set space_encodings"
proof -
  have n: "of_char c < (128 :: nat)" "33 \<le> (of_char c :: nat)"
    using assms by (auto simp: topic_char_def is_digit_def)
  have "c \<noteq> d" if "(of_char d :: nat) < 33" for d using n(2) that by auto
  then have "c \<notin> {CHR 0x20, CHR 0x09, CHR 0x0A, CHR 0x0B, CHR 0x0C, CHR 0x0D}" by auto
  then show ?thesis using n(1) by (simp add: is_ascii_def space_encodings_def)
qed

lemma namespaceLoop_chars: "c \<in> set (namespaceLoop b s) \<Longrightarrow> topic_char c"
  by (induction b s rule: namespaceLoop.induct) (auto simp: topic_char_def split: if_splits)

lemma namespaceLoop_id: "list_all topic_char s \<Longrightarrow> namespaceLoop b s = s"
  by (induction s arbitrary: b) auto

lemma lower_ascii_id: "list_all topic_char s \<Longrightarrow> lower_ascii s = s"
proof (induction s rule: lower_ascii.induct)
  case (2 a s)
  then have "a \<noteq> CHR 0xC4" "a \<noteq> CHR 0xE2" "\<not> (65 \<le> (of_char a :: nat) \<and> (of_char a :: nat) \<le> 90)"
    by (auto simp: topic_char_def is_digit_def)
  then show ?case using 2 by auto
qed simp

lemma trim_dashes_set: "set (trim_dashes s) \<subseteq> set s"
  unfolding trim_dashes_def by (auto dest!: set_dropWhileD)

lemma trim_dashes_ends:
  "trim_dashes s = [] \<or> hd (trim_dashes s) \<noteq> CHR ''-'' \<and> last (trim_dashes s) \<noteq> CHR ''-''"
proof -
  define t where "t = dropWhile (\<lambda>c. c = CHR ''-'') s"
  define r where "r = dropWhile (\<lambda>c. c = CHR ''-'') (rev t)"
  obtain zs where zs: "rev t = zs @ r" using suffix_dropWhile unfolding suffix_def r_def by blast
  have "hd (rev r) \<noteq> CHR ''-'' \<and> last (rev r) \<noteq> CHR ''-''" if ne: "r \<noteq> []"
  proof
    have t: "t \<noteq> []" using zs ne by auto
    have "last r = hd t" using zs ne t by (metis last_appendR last_rev)
    moreover have "hd t \<noteq> CHR ''-''" using hd_dropWhile t unfolding t_def by fast
    ultimately show "hd (rev r) \<noteq> CHR ''-''" using ne by (simp add: hd_rev)
    have "hd r \<noteq> CHR ''-''" using hd_dropWhile ne unfolding r_def by fast
    then show "last (rev r) \<noteq> CHR ''-''" using ne by (simp add: last_rev)
  qed
  then show ?thesis by (auto simp: trim_dashes_def t_def [symmetric] r_def [symmetric])
qed

lemma trim_dashes_id:
  assumes "s = [] \<or> hd s \<noteq> CHR ''-'' \<and> last s \<noteq> CHR ''-''"
  shows "trim_dashes s = s"
proof (cases s)
  case (Cons c t)
  then have "dropWhile (\<lambda>c. c = CHR ''-'') s = s" using assms by simp
  moreover have "dropWhile (\<lambda>c. c = CHR ''-'') (rev s) = rev s"
    using assms Cons by (cases "rev s") (auto simp: last_conv_nth hd_rev [symmetric])
  ultimately show ?thesis by (simp add: trim_dashes_def)
qed (simp add: trim_dashes_def)

definition topic_name :: "string \<Rightarrow> bool" where
  "topic_name s \<longleftrightarrow> list_all topic_char s \<and> (s = [] \<or> hd s \<noteq> CHR ''-'' \<and> last s \<noteq> CHR ''-'')"

lemma trim_space_chars:
  assumes "list_all topic_char s"
  shows "trim_space s = s"
proof (rule trim_space_id)
  have ascii: "w = [c]" if "w \<in> set space_encodings" "c \<in> set w" "is_ascii c" for w c
  proof -
    have "\<not> 2 \<le> length w" using long_encodings that by blast
    then show ?thesis using that(2) by (cases w) (simp_all add: not_less_eq_eq [symmetric])
  qed
  show "\<not> starts_any space_encodings s"
    using assms topic_char_ascii start_Cons by (cases s) (auto simp: starts_any_def)
  show "\<not> starts_any (map rev space_encodings) (rev s)"
  proof
    assume "starts_any (map rev space_encodings) (rev s)"
    then obtain w where w: "w \<in> set space_encodings" "w \<noteq> []" "prefix (rev w) (rev s)" by (auto simp: starts_any_def)
    then obtain c where c: "c \<in> set w" "c \<in> set s"
      by (metis last_in_set set_mono_prefix set_rev subsetD)
    then have "topic_char c" using assms by (auto simp: list_all_iff)
    then show False using ascii [OF w(1) c(1)] w(1) topic_char_ascii by blast
  qed
qed

lemma normalizeNamespace_name: "topic_name (normalizeNamespace s)"
proof -
  let ?n = "namespaceLoop False (lower_ascii (trim_space s))"
  have "list_all topic_char (trim_dashes ?n)"
    using trim_dashes_set [of ?n] namespaceLoop_chars by (auto simp: list_all_iff)
  then show ?thesis
    using trim_dashes_ends [of ?n] by (simp add: topic_name_def normalizeNamespace_def Let_def)
qed

lemma normalizeNamespace_id: "topic_name s \<Longrightarrow> normalizeNamespace s = s"
  using trim_dashes_id [of s]
  by (simp add: topic_name_def normalizeNamespace_def trim_space_chars lower_ascii_id namespaceLoop_id Let_def)

section \<open>A published message comes back\<close>

lemma headers_back:
  "fold (\<lambda>header headers. mput (hh_key header) (hh_value header) headers)
     (map (\<lambda>(key, v). \<lparr>hh_key = key, hh_value = v\<rparr>) kvs) m = mcopy m kvs"
  by (induction kvs arbitrary: m) (auto simp: mcopy_def)

lemma fromSarama_toSarama: "fromSaramaRecordHeaders (map Some (toSaramaRecordHeaders headers)) = headers"
proof -
  have "fromSaramaRecordHeaders (map Some (map (\<lambda>header. (hh_key header, hh_value header)) headers)) = headers"
    by (induction headers) auto
  then show ?thesis by (simp add: toSaramaRecordHeaders_def)
qed

lemma headers_any_order:
  assumes "wf_map headers" "mset hs = mset headers"
  shows "mcopy [] hs = headers"
proof -
  have "distinct (map fst hs)"
    using wf_map_distinct [OF assms(1)] assms(2) by (metis mset_map mset_eq_imp_distinct_iff)
  then have "mcopy [] hs = mcopy [] headers"
    unfolding mcopy_def by (intro gm.puts_perm assms(2)) simp
  then show ?thesis by (simp add: mcopy_self assms(1))
qed

text \<open>What the broker delivers of a message it was sent.\<close>

definition delivers :: "producerMessage \<Rightarrow> consumerMessage \<Rightarrow> bool" where
  "delivers p c \<longleftrightarrow> cm_topic c = pr_topic p \<and> cm_key c = (case pr_key p of None \<Rightarrow> [] | Some k \<Rightarrow> k) \<and>
     cm_value c = (case pr_value p of None \<Rightarrow> [] | Some v \<Rightarrow> v) \<and> cm_headers c = map Some (pr_headers p)"

lemma message_back:
  assumes "wf_map headers" "mset (order headers) = mset headers"
    and "delivers (toProducerMessage \<lparr>hm_topic = t, hm_key = cloneOptionalStringAsBytes key, hm_value = payload,
           hm_headers = mapToKafkaHeaders order headers, hm_offset = 0\<rparr>) c"
  shows "mapFromKafkaMessage (fromConsumerMessage c) =
    \<lparr>msg_topic = t, msg_key = (if key = Some [] then None else key), msg_headers = headers, msg_payload = payload,
     msg_offset = cm_offset c\<rparr>"
proof -
  have "order headers = []" if "headers = []" using assms(2) that by simp
  then show ?thesis
    using assms(3) headers_any_order [OF assms(1,2)]
    by (auto simp: delivers_def toProducerMessage_def fromConsumerMessage_def mapFromKafkaMessage_def fromSarama_toSarama
        mapToKafkaHeaders_def headers_back cloneOptionalStringAsBytes_def split: option.splits)
qed

section \<open>The topics of a namespace\<close>

lemma resolveTopic_trimmed:
  assumes "topic_name ns"
  shows "trim_space (resolveTopic ns t) = resolveTopic ns t"
proof (cases ns)
  case Nil
  then show ?thesis by (simp add: resolveTopic_def)
next
  case (Cons c u)
  then have c: "topic_char c" using assms by (simp add: topic_name_def)
  have d: "topic_char (CHR ''-'')" by (simp add: topic_char_def)
  show ?thesis
  proof (cases "trim_space t = []")
    case True
    then show ?thesis using Cons assms trim_space_chars by (simp add: resolveTopic_def topic_name_def)
  next
    case False
    then have "trim_space (c # u @ CHR ''-'' # trim_space t) = c # u @ CHR ''-'' # trim_space t"
      using topic_char_ascii [OF c] topic_char_ascii [OF d] by (intro trim_space_append) simp_all
    then show ?thesis using Cons False by (simp add: resolveTopic_def namespaceJoiner_def Let_def)
  qed
qed

lemma resolveTopic_inject: "resolveTopic ns t = resolveTopic ns u \<longleftrightarrow> trim_space t = trim_space u"
  by (auto simp: resolveTopic_def namespaceJoiner_def Let_def)

lemma resolveTopic_Nil: "trim_space t \<noteq> [] \<Longrightarrow> resolveTopic ns t \<noteq> []"
  by (simp add: resolveTopic_def Let_def)

section \<open>The invariant of a harness\<close>

definition harness_inv :: "'w harness \<Rightarrow> bool" where
  "harness_inv h \<longleftrightarrow> topic_name (hn_caseNamespace h) \<and> wf_messages (hn_observed h) \<and>
     (\<forall>p. hn_plan h = Some p \<longrightarrow> normal_expectation p \<and> hn_reader h \<noteq> None \<and>
        (\<exists>t. oe_topic p = resolveTopic (hn_caseNamespace h) t))"

lemma normal_resolved:
  assumes "normal_expectation n" "topic_name ns"
  shows "normal_expectation (n\<lparr>oe_topic := resolveTopic ns (oe_topic n)\<rparr>)"
proof -
  have "validateExpectationPayloads (n\<lparr>oe_topic := t\<rparr>) = validateExpectationPayloads n" for t
    by (simp add: validateExpectationPayloads_def Let_def)
  then show ?thesis
    using assms resolveTopic_trimmed [OF assms(2)] resolveTopic_Nil
    by (simp add: normal_expectation_def)
qed

lemma newHarness_inv:
  assumes "newHarness brokers ns producer = Inr h"
  shows "harness_inv h"
  using assms normalizeNamespace_name
  by (auto simp: newHarness_def harness_inv_def wf_messages_def split: sum.splits if_splits)

text \<open>A plan either changes nothing in the harness, or starts the observation anew.\<close>

lemma planOutbound_cases:
  assumes "planOutbound env h e w = (w', h', r)"
  shows "(\<exists>err. r = Some err) \<and> h' = h \<or>
    r = None \<and> (\<exists>n reader. NormalizeExpectation e = Inr n \<and>
      h' = h\<lparr>hn_reader := Some reader,
             hn_plan := Some (n\<lparr>oe_topic := resolveTopic (hn_caseNamespace h) (oe_topic n)\<rparr>), hn_observed := []\<rparr>)"
  using assms by (auto simp: planOutbound_def Let_def split: sum.splits prod.splits option.splits)

lemma planOutbound_inv:
  assumes "planOutbound env h e w = (w', h', r)" "harness_inv h" "wf_map (oe_headers e)"
  shows "harness_inv h'"
  using planOutbound_cases [OF assms(1)] assms(2)
proof (elim disjE conjE exE)
  fix n reader
  assume n: "NormalizeExpectation e = Inr n"
    and h': "h' = h\<lparr>hn_reader := Some reader,
      hn_plan := Some (n\<lparr>oe_topic := resolveTopic (hn_caseNamespace h) (oe_topic n)\<rparr>), hn_observed := []\<rparr>"
  have "normal_expectation n" by (rule normalize_normal [OF n assms(3)])
  then show ?thesis
    using assms(2) normal_resolved [of n "hn_caseNamespace h"] by (auto simp: harness_inv_def h' wf_messages_def)
qed simp

lemma fold_mput_wf: "wf_map m \<Longrightarrow> wf_map (fold (\<lambda>header headers. mput (hh_key header) (hh_value header) headers) hs m)"
  by (induction hs arbitrary: m) auto

lemma mapFromKafkaMessage_wf: "wf_map (msg_headers (mapFromKafkaMessage m))"
  by (simp add: mapFromKafkaMessage_def fold_mput_wf)

lemma pollLoop_wf:
  "pollLoop reader observed w = Some y \<Longrightarrow> wf_messages observed \<longrightarrow> wf_messages (fst (snd y))"
proof (rule pollLoop.raw_induct [where P = "\<lambda>_ observed _ y. wf_messages observed \<longrightarrow> wf_messages (fst (snd y))"])
  fix f reader observed w and y :: "'a \<times> queue_message list \<times> err option"
  assume IH: "\<And>reader observed w y. f reader observed w = Some y \<Longrightarrow> wf_messages observed \<longrightarrow> wf_messages (fst (snd y))"
    and y: "(case mr_fetchMessage reader w of
        (w', Inl e) \<Rightarrow>
          Some (w', observed,
            if err_is contextCanceled e \<or> err_is contextDeadlineExceeded e then None
            else Some (Errorf ''fetch kafka message: %w'' [AErr e]))
      | (w', Inr message) \<Rightarrow> f reader (observed @ [mapFromKafkaMessage message]) w') = Some y"
  obtain w' r where "mr_fetchMessage reader w = (w', r)" by fastforce
  moreover have "wf_messages (observed @ [mapFromKafkaMessage m]) = wf_messages observed" for m
    by (auto simp: wf_messages_def mapFromKafkaMessage_wf)
  ultimately show "wf_messages observed \<longrightarrow> wf_messages (fst (snd y))" using y IH by (cases r) auto
qed

text \<open>A check keeps the plan and the reader, and adds what it has read to the observed messages.\<close>

lemma checkOutbound_keeps:
  assumes "checkOutbound check h w = Some (w', h', out)" "wf_messages (hn_observed h)"
  shows "\<exists>observed. h' = h\<lparr>hn_observed := observed\<rparr> \<and> wf_messages observed"
proof -
  obtain v g e where poll: "pollMessagesLocked h w = Some (v, g, e)"
    using assms(1) by (cases "pollMessagesLocked h w") (auto simp: checkOutbound_def)
  then have "g = h'"
    using assms(1) by (cases e; cases "requirePlanLocked g") (auto simp: checkOutbound_def)
  then obtain p where p: "pollMessagesLocked h w = Some p" "fst (snd p) = h'" using poll by simp
  show ?thesis
  proof (cases "hn_reader h")
    case None
    then have "h' = h\<lparr>hn_observed := hn_observed h\<rparr>" using p by (auto simp: pollMessagesLocked_def)
    then show ?thesis using assms(2) by blast
  next
    case (Some reader)
    then obtain y where "pollLoop reader (hn_observed h) w = Some y" "h' = h\<lparr>hn_observed := fst (snd y)\<rparr>"
      using p by (auto simp: pollMessagesLocked_def)
    moreover have "wf_messages (fst (snd y))"
      using pollLoop_wf [OF calculation(1), THEN mp, OF assms(2)] .
    ultimately show ?thesis by (intro exI [of _ "fst (snd y)"] conjI)
  qed
qed

lemma cleanupBroker_state:
  "fst (snd (cleanupBroker h w)) = h\<lparr>hn_reader := None, hn_writer := None, hn_plan := None, hn_observed := []\<rparr>"
  by (simp add: cleanupBroker_def Let_def split_beta)

text \<open>The operations of a case on its harness, in any order, while the world goes on by itself.\<close>

inductive harness_step :: "'w kafka_env \<Rightarrow> 'w harness \<times> 'w \<Rightarrow> 'w harness \<times> 'w \<Rightarrow> bool"
  for env :: "'w kafka_env" where
  plan: "planOutbound env h e w = (w', h', r) \<Longrightarrow> wf_map (oe_headers e) \<Longrightarrow> harness_step env (h, w) (h', w')"
| await: "awaitOutbound env h w = Some (w', h', out) \<Longrightarrow> harness_step env (h, w) (h', w')"
| verify: "verifyOutbound h w = Some (w', h', out) \<Longrightarrow> harness_step env (h, w) (h', w')"
| cleanup: "cleanupBroker h w = (w', h', r) \<Longrightarrow> harness_step env (h, w) (h', w')"
| publish: "publishRaw env h m w = Some (w', r) \<Longrightarrow> harness_step env (h, w) (h, w')"
| world: "harness_step env (h, w) (h, w')"

inductive_cases harness_stepE: "harness_step env (h, w) (h', w')"

lemma harness_step_inv:
  assumes "harness_step env (h, w) (h', w')" "harness_inv h"
  shows "harness_inv h'"
  using assms(1)
proof cases
  case (plan e r)
  then show ?thesis using planOutbound_inv [OF _ assms(2)] by simp
next
  case (await out)
  then obtain obs where "h' = h\<lparr>hn_observed := obs\<rparr>" "wf_messages obs"
    using checkOutbound_keeps [OF await [unfolded awaitOutbound_def]] assms(2) by (auto simp: harness_inv_def)
  then show ?thesis using assms(2) by (simp add: harness_inv_def)
next
  case (verify out)
  then obtain obs where "h' = h\<lparr>hn_observed := obs\<rparr>" "wf_messages obs"
    using checkOutbound_keeps [OF verify [unfolded verifyOutbound_def]] assms(2) by (auto simp: harness_inv_def)
  then show ?thesis using assms(2) by (simp add: harness_inv_def)
next
  case (cleanup r)
  then have "h' = h\<lparr>hn_reader := None, hn_writer := None, hn_plan := None, hn_observed := []\<rparr>"
    using cleanupBroker_state [of h w] by simp
  then show ?thesis using assms(2) by (simp add: harness_inv_def wf_messages_def)
qed (use assms(2) in simp_all)

lemma reachable_harness_inv:
  "(harness_step env)\<^sup>*\<^sup>* s t \<Longrightarrow> harness_inv (fst s) \<Longrightarrow> harness_inv (fst t)"
proof (induction rule: rtranclp_induct)
  case (step t u)
  then show ?case by (cases t; cases u) (auto dest: harness_step_inv)
qed

section \<open>Polling a broker\<close>

text \<open>
  A reader hands out the messages that are pending, one after the other, and reports the end of the
  waiting time when there is none.  An adapter whose consumer reports no error is such a reader if
  \<open>pending\<close> are the messages its \<open>select\<close> will pick before the end of the context.
\<close>

definition reader_contract :: "('w \<Rightarrow> harnessMessage list) \<Rightarrow> 'w messageReader \<Rightarrow> bool" where
  "reader_contract pending reader \<longleftrightarrow>
     (\<forall>w m ms. pending w = m # ms \<longrightarrow>
        (\<exists>w'. mr_fetchMessage reader w = (w', Inr m) \<and> pending w' = ms)) \<and>
     (\<forall>w. pending w = [] \<longrightarrow>
        (\<exists>w'. mr_fetchMessage reader w = (w', Inl contextDeadlineExceeded) \<and> pending w' = []))"

text \<open>
  One poll, whatever the reader does in it: the messages it handed out before it reported the end of the
  waiting time, or an error, which is that of the poll.  For the adapter \<^const>\<open>saramaFetchMessage\<close> these
  are the events its \<open>select\<close> picked; once the context is done it may pick either.
\<close>

inductive polls :: "'w messageReader \<Rightarrow> 'w \<Rightarrow> harnessMessage list \<Rightarrow> 'w \<Rightarrow> err option \<Rightarrow> bool" for reader :: "'w messageReader" where
  waited: "mr_fetchMessage reader w = (w', Inl e) \<Longrightarrow> err_is contextCanceled e \<or> err_is contextDeadlineExceeded e \<Longrightarrow>
    polls reader w [] w' None"
| failed: "mr_fetchMessage reader w = (w', Inl e) \<Longrightarrow> \<not> err_is contextCanceled e \<Longrightarrow> \<not> err_is contextDeadlineExceeded e \<Longrightarrow>
    polls reader w [] w' (Some (Errorf ''fetch kafka message: %w'' [AErr e]))"
| fetched: "mr_fetchMessage reader w = (w1, Inr m) \<Longrightarrow> polls reader w1 ms w' e \<Longrightarrow> polls reader w (m # ms) w' e"

lemma pollLoop_polls:
  "polls reader w ms w' e \<Longrightarrow> pollLoop reader observed w = Some (w', observed @ map mapFromKafkaMessage ms, e)"
proof (induction arbitrary: observed rule: polls.induct)
  case (waited w w' e)
  then show ?case by (subst pollLoop.simps) auto
next
  case (failed w w' e)
  then show ?case by (subst pollLoop.simps) auto
next
  case (fetched w w1 m ms w' e)
  then show ?case by (subst pollLoop.simps) simp
qed

lemma polls_pending:
  assumes "reader_contract pending reader"
  shows "\<exists>w'. polls reader w (pending w) w' None \<and> pending w' = []"
proof (induction "pending w" arbitrary: w)
  case Nil
  then obtain w' where "mr_fetchMessage reader w = (w', Inl contextDeadlineExceeded)" "pending w' = []"
    using assms by (metis reader_contract_def)
  then show ?case using polls.waited Nil [symmetric] by fastforce
next
  case (Cons m ms)
  then obtain w1 where w1: "mr_fetchMessage reader w = (w1, Inr m)" "pending w1 = ms"
    using assms by (metis reader_contract_def)
  then show ?case using Cons.hyps(1) [of w1] Cons.hyps(2) [symmetric] polls.fetched [OF w1(1)] by auto
qed

lemma checkOutbound_polls:
  assumes "harness_inv h" "hn_plan h = Some p" "hn_reader h = Some reader" "polls reader w ms w' e"
    and observed_def: "observed = hn_observed h @ map mapFromKafkaMessage ms"
  shows "checkOutbound check h w = Some (w', h\<lparr>hn_observed := observed\<rparr>,
      case e of Some e \<Rightarrow> (zero_result, Some e) | None \<Rightarrow> apfst (normalizeResultTopics h) (check w' p observed)) \<and>
    normal_expectation p \<and> wf_messages observed"
proof -
  have w': "pollLoop reader (hn_observed h) w = Some (w', observed, e)"
    using pollLoop_polls [OF assms(4)] unfolding observed_def .
  have "wf_messages observed"
    using assms(1) mapFromKafkaMessage_wf by (auto simp: harness_inv_def wf_messages_def observed_def)
  moreover have "normal_expectation p" using assms(1,2) by (simp add: harness_inv_def)
  moreover have "normalizeResultTopics (h\<lparr>hn_observed := observed\<rparr>) = normalizeResultTopics h"
    by (rule ext) (simp add: normalizeResultTopics_def)
  ultimately show ?thesis
    using w' assms(2,3) by (cases e) (simp_all add: checkOutbound_def pollMessagesLocked_def requirePlanLocked_def)
qed

lemma checkOutbound_pending:
  assumes "harness_inv h" "hn_plan h = Some p" "hn_reader h = Some reader" "reader_contract pending reader"
    and observed_def: "observed = hn_observed h @ map mapFromKafkaMessage (pending w)"
  shows "\<exists>w'. checkOutbound check h w =
      Some (w', h\<lparr>hn_observed := observed\<rparr>, apfst (normalizeResultTopics h) (check w' p observed)) \<and>
    pending w' = [] \<and> normal_expectation p \<and> wf_messages observed"
proof -
  obtain w' where "polls reader w (pending w) w' None" "pending w' = []" using polls_pending [OF assms(4)] by blast
  then show ?thesis using checkOutbound_polls [OF assms(1-3) _ observed_def] by fastforce
qed

section \<open>Properties\<close>

text \<open>
  Whatever the operations of a case do with its harness, a plan it holds is a normalised
  expectation on a topic of its namespace, there is a reader for it, and the observed messages have
  proper headers.
\<close>

theorem harness_invariant:
  assumes "newHarness brokers namespace producer = Inr h0" "(harness_step env)\<^sup>*\<^sup>* (h0, w0) (h, w)"
    and "hn_plan h = Some p"
  shows "NormalizeExpectation p = Inr p \<and> hn_reader h \<noteq> None \<and> wf_messages (hn_observed h) \<and>
    (\<exists>t. oe_topic p = resolveTopic (hn_caseNamespace h) t)"
  using reachable_harness_inv [OF assms(2)] newHarness_inv [OF assms(1)] assms(3)
  by (simp add: harness_inv_def normal_normalize)

text \<open>
  With a plan and a reader that hands out the pending messages, the verify step of a case ends,
  reads all of them, and succeeds exactly when the messages read since the plan fulfil it in the sense
  of \<^const>\<open>verify_spec\<close>; the await step likewise with \<^const>\<open>await_spec\<close>.
\<close>

theorem outbound_checks:
  assumes "newHarness brokers namespace producer = Inr h0" "(harness_step env)\<^sup>*\<^sup>* (h0, w0) (h, w)"
    and "hn_plan h = Some p" "hn_reader h = Some reader" "reader_contract pending reader"
  shows "\<exists>w' r e r' e'. pending w' = [] \<and>
    verifyOutbound h w = Some (w', h\<lparr>hn_observed := hn_observed h @ map mapFromKafkaMessage (pending w)\<rparr>, r, e) \<and>
    (e = None \<longleftrightarrow> verify_spec p (hn_observed h @ map mapFromKafkaMessage (pending w))) \<and>
    awaitOutbound env h w = Some (w', h\<lparr>hn_observed := hn_observed h @ map mapFromKafkaMessage (pending w)\<rparr>, r', e') \<and>
    (e' = None \<longleftrightarrow> await_spec p (hn_observed h @ map mapFromKafkaMessage (pending w)) (ke_windowExpired env w'))"
proof -
  let ?obs = "hn_observed h @ map mapFromKafkaMessage (pending w)"
  have inv: "harness_inv h" using reachable_harness_inv [OF assms(2)] newHarness_inv [OF assms(1)] by simp
  note pending = checkOutbound_pending [OF inv assms(3-5) refl]
  obtain w1 where v: "verifyOutbound h w =
      Some (w1, h\<lparr>hn_observed := ?obs\<rparr>, apfst (normalizeResultTopics h) (EvaluateVerify p ?obs))"
    "pending w1 = []" "normal_expectation p" "wf_messages ?obs"
    unfolding verifyOutbound_def using pending [where w = w and check = "\<lambda>w p ms. EvaluateVerify p ms"] by blast
  obtain w2 where a: "awaitOutbound env h w =
      Some (w2, h\<lparr>hn_observed := ?obs\<rparr>, apfst (normalizeResultTopics h) (EvaluateAwait p ?obs (ke_windowExpired env w2)))"
    unfolding awaitOutbound_def using pending [where w = w and check = "\<lambda>w p ms. EvaluateAwait p ms (ke_windowExpired env w)"] by blast
  have "w2 = w1"
    using v(1) a by (auto simp: verifyOutbound_def awaitOutbound_def checkOutbound_def split: option.splits sum.splits)
  then show ?thesis
    using v a verify_correct [OF v(3,4)] await_correct [OF v(3,4), of "ke_windowExpired env w1"]
    by (cases "EvaluateVerify p ?obs"; cases "EvaluateAwait p ?obs (ke_windowExpired env w1)") auto
qed

text \<open>
  C11: what is published comes back: a message that went through the writer, a broker that delivers it
  and the reader is observed with its topic, headers and payload, in whatever order the headers were
  written, and with its key, except that an empty key comes back as none.
\<close>

theorem publish_roundtrip:
  assumes "wf_map headers" "mset (order headers) = mset headers"
    and "delivers (toProducerMessage \<lparr>hm_topic = t, hm_key = cloneOptionalStringAsBytes key, hm_value = payload,
           hm_headers = mapToKafkaHeaders order headers, hm_offset = 0\<rparr>) c"
  shows "mapFromKafkaMessage (fromConsumerMessage c) =
    \<lparr>msg_topic = t, msg_key = (if key = Some [] then None else key), msg_headers = headers, msg_payload = payload,
     msg_offset = cm_offset c\<rparr>"
  by (rule message_back [OF assms])

text \<open>
  A normalised namespace is made of lower case letters, digits, dots, underscores and dashes only,
  has no dash at its ends, is a fixed point of the normalisation, and topics below it carry no white
  space at their ends.
\<close>

theorem normalizeNamespace_safe:
  "list_all topic_char (normalizeNamespace s) \<and>
   take 1 (normalizeNamespace s) \<noteq> ''-'' \<and> take 1 (rev (normalizeNamespace s)) \<noteq> ''-'' \<and>
   normalizeNamespace (normalizeNamespace s) = normalizeNamespace s \<and>
   trim_space (resolveTopic (normalizeNamespace s) t) = resolveTopic (normalizeNamespace s) t"
proof -
  have name: "topic_name (normalizeNamespace s)" by (rule normalizeNamespace_name)
  have "take 1 n \<noteq> ''-'' \<and> take 1 (rev n) \<noteq> ''-''" if "topic_name n" for n
    using that by (cases n; cases "rev n") (auto simp: topic_name_def hd_rev [symmetric])
  then show ?thesis
    using name normalizeNamespace_id [OF name] resolveTopic_trimmed [OF name] by (simp add: topic_name_def)
qed

text \<open>
  Within a namespace two topics are resolved to the same one exactly when they only differ in
  white space around them; different namespaces, however, share topics, and different names of cases
  share a namespace.
\<close>

theorem topic_isolation:
  "(resolveTopic ns t = resolveTopic ns u \<longleftrightarrow> trim_space t = trim_space u) \<and>
   resolveTopic (normalizeNamespace ''a'') ''b-c'' = resolveTopic (normalizeNamespace ''a-b'') ''c'' \<and>
   normalizeNamespace ''a/b'' = normalizeNamespace ''A b''"
proof -
  have "resolveTopic (normalizeNamespace ''a'') ''b-c'' = resolveTopic (normalizeNamespace ''a-b'') ''c'' \<and>
   normalizeNamespace ''a/b'' = normalizeNamespace ''A b''" by code_simp
  then show ?thesis using resolveTopic_inject by blast
qed

text \<open>A broker with the pending messages as its world.\<close>

definition queue_reader :: "harnessMessage list messageReader" where
  "queue_reader = \<lparr>mr_fetchMessage = (\<lambda>w. case w of [] \<Rightarrow> ([], Inl contextDeadlineExceeded) | m # ms \<Rightarrow> (ms, Inr m)),
     mr_close = (\<lambda>w. (w, None))\<rparr>"

definition queue_env :: "harnessMessage list kafka_env" where
  "queue_env = \<lparr>ke_ensureTopic = (\<lambda>t w. (w, None)), ke_newReader = (\<lambda>t w. (w, Inr queue_reader)),
     ke_windowExpired = (\<lambda>w. True), ke_order = (\<lambda>m. m)\<rparr>"

definition queue_writer :: "harnessMessage list messageWriter" where
  "queue_writer = \<lparr>mw_writeMessages = (\<lambda>ms w. (w @ ms, None)), mw_close = (\<lambda>w. (w, None))\<rparr>"

definition fresh_harness :: "harnessMessage list harness" where
  "fresh_harness = \<lparr>hn_caseNamespace = ''n'', hn_writer = Some queue_writer, hn_reader = None, hn_plan = None,
     hn_observed = []\<rparr>"

definition planned_harness :: "harnessMessage list harness" where
  "planned_harness = fresh_harness\<lparr>hn_reader := Some queue_reader,
     hn_plan := Some (sample_normal\<lparr>oe_topic := ''n-t''\<rparr>)\<rparr>"

definition wanted_message :: harnessMessage where
  "wanted_message = \<lparr>hm_topic = ''n-t'', hm_key = [], hm_value = ''1'', hm_headers = [\<lparr>hh_key = ''h'', hh_value = ''1''\<rparr>],
     hm_offset = 0\<rparr>"

lemma queue_contract: "reader_contract (\<lambda>w. w) queue_reader"
  by (simp add: reader_contract_def queue_reader_def)

lemma fresh: "newHarness [''b''] ''N'' (Inr queue_writer) = Inr fresh_harness"
proof -
  have "normalizeBrokers [''b''] = [''b'']" "normalizeNamespace ''N'' = ''n''" by code_simp+
  then show ?thesis by (simp add: newHarness_def fresh_harness_def)
qed

lemma planned: "(harness_step queue_env)\<^sup>*\<^sup>* (fresh_harness, []) (planned_harness, [wanted_message])"
proof -
  have t: "resolveTopic ''n'' (oe_topic sample_normal) = ''n-t''" by code_simp
  have "planOutbound queue_env fresh_harness sample_expectation [] = ([], planned_harness, None)"
    using sample_normalizes t
    by (simp add: planOutbound_def queue_env_def fresh_harness_def planned_harness_def)
  then have p: "harness_step queue_env (fresh_harness, []) (planned_harness, [])"
    by (rule harness_step.plan) (rule sample_wf)
  have w: "harness_step queue_env (planned_harness, []) (planned_harness, [wanted_message])"
    by (rule harness_step.world)
  show ?thesis by (rule rtranclp.rtrancl_into_rtrancl [OF r_into_rtranclp [where r = "harness_step queue_env", OF p] w])
qed

lemma planned_simps:
  "hn_plan planned_harness = Some (sample_normal\<lparr>oe_topic := ''n-t''\<rparr>)"
  "hn_reader planned_harness = Some queue_reader" "hn_observed planned_harness = []"
  by (simp_all add: planned_harness_def fresh_harness_def)

theorem harness_invariant_witness:
  "NormalizeExpectation (sample_normal\<lparr>oe_topic := ''n-t''\<rparr>) = Inr (sample_normal\<lparr>oe_topic := ''n-t''\<rparr>)"
  using harness_invariant [OF fresh planned planned_simps(1)] by simp

theorem outbound_checks_witness:
  "\<exists>w' h' r e. verifyOutbound planned_harness [wanted_message] = Some (w', h', r, e) \<and> w' = []"
  using outbound_checks [OF fresh planned planned_simps(1,2) queue_contract] by blast

theorem publish_roundtrip_witness:
  "mapFromKafkaMessage (fromConsumerMessage \<lparr>cm_topic = ''n-t'', cm_key = [], cm_value = ''1'',
     cm_headers = [Some (''b'', ''2''), Some (''a'', ''1'')], cm_offset = 7\<rparr>) =
   \<lparr>msg_topic = ''n-t'', msg_key = None, msg_headers = [(''a'', ''1''), (''b'', ''2'')], msg_payload = ''1'', msg_offset = 7\<rparr>"
proof -
  have "wf_map [(''a'', ''1''), (''b'', ''2'')]" by code_simp
  then show ?thesis
    using publish_roundtrip [of "[(''a'', ''1''), (''b'', ''2'')]" rev "''n-t''" "Some []" "''1''"
        "\<lparr>cm_topic = ''n-t'', cm_key = [], cm_value = ''1'', cm_headers = [Some (''b'', ''2''), Some (''a'', ''1'')],
          cm_offset = 7\<rparr>"]
    by (simp add: delivers_def toProducerMessage_def mapToKafkaHeaders_def toSaramaRecordHeaders_def
        cloneOptionalStringAsBytes_def)
qed

end
