(* ===== verification/ItestHandlers.thy ===== *)
theory ItestHandlers
  imports KafkaHarness AnyDecode CaseModel "HOL-Library.Product_Lexorder"
begin

text \<open>
  The preset handlers for outbound messages (\<open>queue/itest\<close>): decoding of requests and expected
  responses, the calls of the harness, the stable form of a check result, and the registry.  The
  locale \<open>outbound_harness\<close> is the interface \<open>OutboundHarness\<close> with what a step relies on; the
  harness of theory \<open>KafkaHarness\<close> is its instance.
\<close>

section \<open>Values the handlers exchange\<close>

definition PlanOutboundHandlerName :: string where "PlanOutboundHandlerName = ''PlanOutbound''"
definition AwaitOutboundHandlerName :: string where "AwaitOutboundHandlerName = ''AwaitOutbound''"
definition VerifyOutboundHandlerName :: string where "VerifyOutboundHandlerName = ''VerifyOutbound''"
definition CleanupBrokerHandlerName :: string where "CleanupBrokerHandlerName = ''CleanupBroker''"

record planOutboundResponse =
  por_topic :: string
  por_expectedCount :: int
  por_planned :: bool

record cleanupBrokerResponse =
  cbr_cleaned :: bool

text \<open>
  A value of type \<open>any\<close> with its dynamic type, as far as the type assertions of the handlers tell
  them apart; \<open>Other\<close> holds the name of any other type.
\<close>

datatype outbound_value =
    ExpectationValue outbound_expectation
  | EmptyRequestPtr
  | PlanResponsePtr planOutboundResponse
  | CheckResultValue check_result
  | CheckResultPtr "check_result option"
  | CleanupResponsePtr cleanupBrokerResponse
  | OtherValue string

fun type_name :: "outbound_value \<Rightarrow> string" where
  "type_name (ExpectationValue _) = ''probe.OutboundExpectation''"
| "type_name EmptyRequestPtr = ''*itest.emptyRequest''"
| "type_name (PlanResponsePtr _) = ''*itest.PlanOutboundResponse''"
| "type_name (CheckResultValue _) = ''probe.CheckResult''"
| "type_name (CheckResultPtr _) = ''*probe.CheckResult''"
| "type_name (CleanupResponsePtr _) = ''*itest.CleanupBrokerResponse''"
| "type_name (OtherValue t) = t"

section \<open>Decoding\<close>

definition zeroExpectation :: outbound_expectation where
  "zeroExpectation = \<lparr>oe_topic = [], oe_key = None, oe_headers = [], oe_headersMode = [], oe_expectedCount = 0,
     oe_payload = [], oe_payloadSubset = [], oe_ordering = []\<rparr>"

definition storeExpectation :: "outbound_expectation \<Rightarrow> string \<Rightarrow> outbound_expectation result" where
  "storeExpectation v raw =
     rbind (decode_struct [''topic'', ''key'', ''headers'', ''headers_mode'', ''expected_count'', ''payload'',
              ''payload_subset'', ''ordering''] raw) (\<lambda>ms.
     rbind (store_all store_string (oe_topic v) (field_values ms ''topic'')) (\<lambda>t.
     rbind (store_all (store_ptr store_string []) (oe_key v) (field_values ms ''key'')) (\<lambda>k.
     rbind (store_all store_string_map (oe_headers v) (field_values ms ''headers'')) (\<lambda>h.
     rbind (store_all store_string (oe_headersMode v) (field_values ms ''headers_mode'')) (\<lambda>hm.
     rbind (store_all store_int (oe_expectedCount v) (field_values ms ''expected_count'')) (\<lambda>c.
     rbind (store_all store_raw (oe_payload v) (field_values ms ''payload'')) (\<lambda>p.
     rbind (store_all store_raw (oe_payloadSubset v) (field_values ms ''payload_subset'')) (\<lambda>ps.
     rbind (store_all store_string (oe_ordering v) (field_values ms ''ordering'')) (\<lambda>ord.
     Inr \<lparr>oe_topic = t, oe_key = k, oe_headers = h, oe_headersMode = hm, oe_expectedCount = c, oe_payload = p,
       oe_payloadSubset = ps, oe_ordering = ord\<rparr>)))))))))"

definition zeroMessage :: queue_message where
  "zeroMessage = \<lparr>msg_topic = [], msg_key = None, msg_headers = [], msg_payload = [], msg_offset = 0\<rparr>"

definition storeMessage :: "queue_message \<Rightarrow> string \<Rightarrow> queue_message result" where
  "storeMessage v raw =
     rbind (decode_struct [''topic'', ''key'', ''headers'', ''payload'', ''offset''] raw) (\<lambda>ms.
     rbind (store_all store_string (msg_topic v) (field_values ms ''topic'')) (\<lambda>t.
     rbind (store_all (store_ptr store_string []) (msg_key v) (field_values ms ''key'')) (\<lambda>k.
     rbind (store_all store_string_map (msg_headers v) (field_values ms ''headers'')) (\<lambda>h.
     rbind (store_all store_raw (msg_payload v) (field_values ms ''payload'')) (\<lambda>p.
     rbind (store_all store_int (msg_offset v) (field_values ms ''offset'')) (\<lambda>off.
     Inr \<lparr>msg_topic = t, msg_key = k, msg_headers = h, msg_payload = p, msg_offset = off\<rparr>))))))"

text \<open>\<open>storeCheckResult\<close> decodes into a result without a reason, the only way it is used.\<close>

definition storeCheckResult :: "check_result \<Rightarrow> string \<Rightarrow> check_result result" where
  "storeCheckResult v raw =
     rbind (decode_struct [''matched_count'', ''observed_messages'', ''last_mismatch_reason''] raw) (\<lambda>ms.
     rbind (store_all store_int (cr_matchedCount v) (field_values ms ''matched_count'')) (\<lambda>c.
     rbind (store_all (store_slice storeMessage zeroMessage) (cr_observed v) (field_values ms ''observed_messages'')) (\<lambda>obs.
     rbind (store_all store_string [] (field_values ms ''last_mismatch_reason'')) (\<lambda>r.
     Inr \<lparr>cr_matchedCount = c, cr_observed = obs, cr_lastMismatchReason = text_reason r\<rparr>))))"

definition storePlanResponse :: "planOutboundResponse \<Rightarrow> string \<Rightarrow> planOutboundResponse result" where
  "storePlanResponse v raw =
     rbind (decode_struct [''topic'', ''expected_count'', ''planned''] raw) (\<lambda>ms.
     rbind (store_all store_string (por_topic v) (field_values ms ''topic'')) (\<lambda>t.
     rbind (store_all store_int (por_expectedCount v) (field_values ms ''expected_count'')) (\<lambda>c.
     rbind (store_all store_bool (por_planned v) (field_values ms ''planned'')) (\<lambda>p.
     Inr \<lparr>por_topic = t, por_expectedCount = c, por_planned = p\<rparr>))))"

definition storeCleanupResponse :: "cleanupBrokerResponse \<Rightarrow> string \<Rightarrow> cleanupBrokerResponse result" where
  "storeCleanupResponse v raw =
     rbind (decode_struct [''cleaned''] raw) (\<lambda>ms.
     rbind (store_all store_bool (cbr_cleaned v) (field_values ms ''cleaned'')) (\<lambda>c. Inr \<lparr>cbr_cleaned = c\<rparr>))"

text \<open>The common part: a blank text is the zero value, an error is wrapped.\<close>

definition decodeOptional :: "string \<Rightarrow> ('a \<Rightarrow> string \<Rightarrow> 'a result) \<Rightarrow> 'a \<Rightarrow> ('a \<Rightarrow> outbound_value) \<Rightarrow> string \<Rightarrow> outbound_value result" where
  "decodeOptional format store zero value raw =
     (if length (trim_space raw) = 0 then Inr (value zero)
      else case decodeStrictJSON store zero raw of
        Inl e \<Rightarrow> Inl (Errorf format [AErr e])
      | Inr v \<Rightarrow> Inr (value v))"

definition planDecodeRequest :: "string \<Rightarrow> outbound_value result" where
  "planDecodeRequest raw =
     (case decodeStrictJSON storeExpectation zeroExpectation raw of
        Inl e \<Rightarrow> Inl (Errorf ''decode PlanOutbound request: %w'' [AErr e])
      | Inr expectation \<Rightarrow>
          (case NormalizeExpectation expectation of
             Inl e \<Rightarrow> Inl (Errorf ''validate PlanOutbound request: %w'' [AErr e])
           | Inr normalized \<Rightarrow> Inr (ExpectationValue normalized)))"

definition planDecodeExpectedResponse :: "string \<Rightarrow> outbound_value result" where
  "planDecodeExpectedResponse =
     decodeOptional ''decode PlanOutbound response: %w'' storePlanResponse
       \<lparr>por_topic = [], por_expectedCount = 0, por_planned = False\<rparr> PlanResponsePtr"

definition awaitDecodeRequest :: "string \<Rightarrow> outbound_value result" where
  "awaitDecodeRequest = decodeOptional ''decode AwaitOutbound request: %w'' storeEmpty () (\<lambda>_. EmptyRequestPtr)"

definition awaitDecodeExpectedResponse :: "string \<Rightarrow> outbound_value result" where
  "awaitDecodeExpectedResponse =
     decodeOptional ''decode AwaitOutbound response: %w'' storeCheckResult zero_result (\<lambda>r. CheckResultPtr (Some r))"

definition verifyDecodeRequest :: "string \<Rightarrow> outbound_value result" where
  "verifyDecodeRequest = decodeOptional ''decode VerifyOutbound request: %w'' storeEmpty () (\<lambda>_. EmptyRequestPtr)"

definition verifyDecodeExpectedResponse :: "string \<Rightarrow> outbound_value result" where
  "verifyDecodeExpectedResponse =
     decodeOptional ''decode VerifyOutbound response: %w'' storeCheckResult zero_result (\<lambda>r. CheckResultPtr (Some r))"

definition cleanupDecodeRequest :: "string \<Rightarrow> outbound_value result" where
  "cleanupDecodeRequest = decodeOptional ''decode CleanupBroker request: %w'' storeEmpty () (\<lambda>_. EmptyRequestPtr)"

definition cleanupDecodeExpectedResponse :: "string \<Rightarrow> outbound_value result" where
  "cleanupDecodeExpectedResponse =
     decodeOptional ''decode CleanupBroker response: %w'' storeCleanupResponse \<lparr>cbr_cleaned = False\<rparr> CleanupResponsePtr"

section \<open>The stable form of a check result\<close>

definition castProbeCheckResult :: "outbound_value \<Rightarrow> check_result result" where
  "castProbeCheckResult response =
     (case response of
        CheckResultValue typedResult \<Rightarrow> Inr typedResult
      | CheckResultPtr (Some typedResult) \<Rightarrow> Inr typedResult
      | _ \<Rightarrow> Inl (Errorf ''invalid check result type: %T'' [AStr (type_name response)]))"

definition canonicalizeRawJSON :: "float64_text \<Rightarrow> string \<Rightarrow> string result" where
  "canonicalizeRawJSON f64 raw =
     (if length (trim_space raw) = 0 then Inr []
      else rbind (decodeStrictJSON (storeAny f64) JNull raw) (\<lambda>payload.
        map_err (\<lambda>e. Errorf ''marshal json: %w'' [AErr e]) (json_marshal payload)))"

definition normalizeObserved :: "float64_text \<Rightarrow> queue_message \<Rightarrow> queue_message result" where
  "normalizeObserved f64 message =
     (case canonicalizeRawJSON f64 (msg_payload message) of
        Inl e \<Rightarrow> Inl (Errorf ''normalize observed payload: %w'' [AErr e])
      | Inr normalizedPayload \<Rightarrow> Inr \<lparr>msg_topic = msg_topic message, msg_key = msg_key message,
          msg_headers = msg_headers message, msg_payload = normalizedPayload, msg_offset = msg_offset message\<rparr>)"

definition message_less :: "queue_message \<Rightarrow> queue_message \<Rightarrow> bool" where
  "message_less left right \<longleftrightarrow>
     (if msg_topic left \<noteq> msg_topic right then msg_topic left < msg_topic right
      else msg_offset left < msg_offset right)"

text \<open>\<open>sortSlice less\<close> stands for \<open>sort.Slice\<close>, which may permute elements none of which is less.\<close>

definition normalizeProbeCheckResult ::
    "float64_text \<Rightarrow> ((queue_message \<Rightarrow> queue_message \<Rightarrow> bool) \<Rightarrow> queue_message list \<Rightarrow> queue_message list) \<Rightarrow>
       outbound_value \<Rightarrow> check_result result" where
  "normalizeProbeCheckResult f64 sortSlice response =
     rbind (castProbeCheckResult response) (\<lambda>r.
     rbind (map_result (normalizeObserved f64) (cr_observed r)) (\<lambda>normalizedMessages.
     Inr \<lparr>cr_matchedCount = cr_matchedCount r, cr_observed = sortSlice message_less normalizedMessages,
       cr_lastMismatchReason = cr_lastMismatchReason r\<rparr>))"

section \<open>The calls of the harness\<close>

text \<open>
  The interface \<open>OutboundHarness\<close> over a state \<open>'s\<close>, which includes the context of the step.
  \<^const>\<open>None\<close> is a call that does not return.
\<close>

record 's outboundHarness =
  oh_planOutbound :: "outbound_expectation \<Rightarrow> 's \<Rightarrow> 's \<times> err option"
  oh_awaitOutbound :: "'s \<Rightarrow> ('s \<times> outcome) option"
  oh_verifyOutbound :: "'s \<Rightarrow> ('s \<times> outcome) option"
  oh_cleanupBroker :: "'s \<Rightarrow> 's \<times> err option"

type_synonym 's invocation = "('s \<times> outbound_value result) option"

definition invalidRequest :: "string \<Rightarrow> outbound_value \<Rightarrow> err" where
  "invalidRequest format request = Errorf format [AStr (type_name request)]"

definition planInvoke :: "'s outboundHarness \<Rightarrow> outbound_value \<Rightarrow> 's \<Rightarrow> 's invocation" where
  "planInvoke harness request s =
     (case request of
        ExpectationValue expectation \<Rightarrow>
          (case oh_planOutbound harness expectation s of
             (s', Some e) \<Rightarrow> Some (s', Inl e)
           | (s', None) \<Rightarrow> Some (s', Inr (PlanResponsePtr
               \<lparr>por_topic = oe_topic expectation, por_expectedCount = oe_expectedCount expectation, por_planned = True\<rparr>)))
      | _ \<Rightarrow> Some (s, Inl (invalidRequest ''PlanOutbound received invalid request type: %T'' request)))"

definition checkInvoke ::
    "string \<Rightarrow> ('s \<Rightarrow> ('s \<times> outcome) option) \<Rightarrow> outbound_value \<Rightarrow> 's \<Rightarrow> 's invocation" where
  "checkInvoke format check request s =
     (if request \<noteq> EmptyRequestPtr then Some (s, Inl (invalidRequest format request))
      else map_option (\<lambda>(s', result, e). (s', case e of Some e \<Rightarrow> Inl e | None \<Rightarrow> Inr (CheckResultValue result)))
             (check s))"

definition awaitInvoke :: "'s outboundHarness \<Rightarrow> outbound_value \<Rightarrow> 's \<Rightarrow> 's invocation" where
  "awaitInvoke harness = checkInvoke ''AwaitOutbound received invalid request type: %T'' (oh_awaitOutbound harness)"

definition verifyInvoke :: "'s outboundHarness \<Rightarrow> outbound_value \<Rightarrow> 's \<Rightarrow> 's invocation" where
  "verifyInvoke harness = checkInvoke ''VerifyOutbound received invalid request type: %T'' (oh_verifyOutbound harness)"

definition cleanupInvoke :: "'s outboundHarness \<Rightarrow> outbound_value \<Rightarrow> 's \<Rightarrow> 's invocation" where
  "cleanupInvoke harness request s =
     (if request \<noteq> EmptyRequestPtr then
        Some (s, Inl (invalidRequest ''CleanupBroker received invalid request type: %T'' request))
      else case oh_cleanupBroker harness s of
        (s', Some e) \<Rightarrow> Some (s', Inl e)
      | (s', None) \<Rightarrow> Some (s', Inr (CleanupResponsePtr \<lparr>cbr_cleaned = True\<rparr>)))"

section \<open>The handlers and their registry\<close>

datatype presetHandler = PlanOutboundHandler | AwaitOutboundHandler | VerifyOutboundHandler | CleanupBrokerHandler

fun decodeRequest :: "presetHandler \<Rightarrow> string \<Rightarrow> outbound_value result" where
  "decodeRequest PlanOutboundHandler = planDecodeRequest"
| "decodeRequest AwaitOutboundHandler = awaitDecodeRequest"
| "decodeRequest VerifyOutboundHandler = verifyDecodeRequest"
| "decodeRequest CleanupBrokerHandler = cleanupDecodeRequest"

fun decodeExpectedResponse :: "presetHandler \<Rightarrow> string \<Rightarrow> outbound_value result" where
  "decodeExpectedResponse PlanOutboundHandler = planDecodeExpectedResponse"
| "decodeExpectedResponse AwaitOutboundHandler = awaitDecodeExpectedResponse"
| "decodeExpectedResponse VerifyOutboundHandler = verifyDecodeExpectedResponse"
| "decodeExpectedResponse CleanupBrokerHandler = cleanupDecodeExpectedResponse"

fun invoke :: "presetHandler \<Rightarrow> 's outboundHarness \<Rightarrow> outbound_value \<Rightarrow> 's \<Rightarrow> 's invocation" where
  "invoke PlanOutboundHandler = planInvoke"
| "invoke AwaitOutboundHandler = awaitInvoke"
| "invoke VerifyOutboundHandler = verifyInvoke"
| "invoke CleanupBrokerHandler = cleanupInvoke"

fun normalizeResponse ::
    "float64_text \<Rightarrow> ((queue_message \<Rightarrow> queue_message \<Rightarrow> bool) \<Rightarrow> queue_message list \<Rightarrow> queue_message list) \<Rightarrow>
       presetHandler \<Rightarrow> outbound_value \<Rightarrow> outbound_value result" where
  "normalizeResponse f64 sortSlice PlanOutboundHandler response = Inr response"
| "normalizeResponse f64 sortSlice AwaitOutboundHandler response =
     rbind (normalizeProbeCheckResult f64 sortSlice response) (\<lambda>r. Inr (CheckResultValue r))"
| "normalizeResponse f64 sortSlice VerifyOutboundHandler response =
     rbind (normalizeProbeCheckResult f64 sortSlice response) (\<lambda>r. Inr (CheckResultValue r))"
| "normalizeResponse f64 sortSlice CleanupBrokerHandler response = Inr response"

text \<open>A registry of preset handlers and of handlers the user brings, which replace presets of their name.\<close>

datatype 'c registered = Preset presetHandler | Custom 'c

definition newOutboundRegistry :: "'c gomap \<Rightarrow> 'c registered mapRegistry" where
  "newOutboundRegistry customHandlers =
     newMapRegistry (mcopy (mcopy [] [
         (PlanOutboundHandlerName, Preset PlanOutboundHandler),
         (AwaitOutboundHandlerName, Preset AwaitOutboundHandler),
         (VerifyOutboundHandlerName, Preset VerifyOutboundHandler),
         (CleanupBrokerHandlerName, Preset CleanupBrokerHandler)])
       (map (\<lambda>(name, h). (name, Custom h)) customHandlers))"

section \<open>The canonical form of a payload\<close>

lemma json_enc_start: "portable j \<Longrightarrow> skip_space (json_enc j) = json_enc j"
  by (erule json_enc_hd) (simp add: skip_space_def)

lemma canonicalizeRawJSON_cases:
  assumes "float64_contract f64" "canonicalizeRawJSON f64 raw = Inr p"
  shows "p = [] \<and> trim_space raw = [] \<or> (\<exists>k. portable k \<and> any_value f64 k = Inr k \<and> p = json_enc k)"
proof (cases "trim_space raw = []")
  case False
  then obtain k where k: "decodeStrictJSON (storeAny f64) JNull raw = Inr k" "json_marshal k = Inr p"
    using assms(2) by (auto simp: canonicalizeRawJSON_def)
  then obtain t where "storeAny f64 JNull t = Inr k"
    by (auto simp: decodeStrictJSON_def split: sum.splits)
  then obtain j r where "json_decode t = Inr (j, r)" "any_value f64 j = Inr k"
    by (auto simp: storeAny_def split: sum.splits)
  then have "portable k" "any_value f64 k = Inr k"
    using assms(1) any_value_portable any_value_stable json_decode_portable by blast+
  moreover have "p = json_enc k" using k(2) by (simp add: json_marshal_def split: if_splits)
  ultimately show ?thesis by blast
qed (use assms in \<open>simp add: canonicalizeRawJSON_def\<close>)

lemma canonicalizeRawJSON_enc:
  assumes "portable k" "any_value f64 k = Inr k"
  shows "canonicalizeRawJSON f64 (json_enc k) = Inr (json_enc k)"
proof -
  have "storeAny f64 JNull (json_enc k) = Inr k" using assms by (simp add: storeAny_def json_roundtrip)
  then have "decodeStrictJSON (storeAny f64) JNull (json_enc k) = Inr k"
    using assms(1) by (simp add: decodeStrictJSON_def json_roundtrip json_enc_start ensure_def json_decode_def [of "[]"] skip_space_def [of "[]"])
  then show ?thesis
    using assms json_enc_not_blank portable_encodable by (simp add: canonicalizeRawJSON_def json_marshal_def)
qed

lemma canonicalizeRawJSON_stable:
  assumes "float64_contract f64" "canonicalizeRawJSON f64 raw = Inr p"
  shows "canonicalizeRawJSON f64 p = Inr p"
  using canonicalizeRawJSON_cases [OF assms]
proof (elim disjE conjE exE)
  fix k assume "portable k" "any_value f64 k = Inr k" "p = json_enc k"
  then show ?thesis using canonicalizeRawJSON_enc by simp
qed (simp add: canonicalizeRawJSON_def)

section \<open>The order of the messages\<close>

abbreviation message_key :: "queue_message \<Rightarrow> string \<times> int" where
  "message_key m \<equiv> (msg_topic m, msg_offset m)"

lemma message_less_key: "message_less a b \<longleftrightarrow> message_key a < message_key b"
  by (auto simp: message_less_def less_prod_simp)

text \<open>What \<open>sort.Slice\<close> does with this order: a permutation in which no element is less than an earlier one.\<close>

definition sorts_messages ::
    "((queue_message \<Rightarrow> queue_message \<Rightarrow> bool) \<Rightarrow> queue_message list \<Rightarrow> queue_message list) \<Rightarrow> bool" where
  "sorts_messages sortSlice \<longleftrightarrow>
     (\<forall>ms. mset (sortSlice message_less ms) = mset ms \<and>
           sorted_wrt (\<lambda>a b. \<not> message_less b a) (sortSlice message_less ms))"

lemma sorts_messages_key:
  assumes "sorts_messages sortSlice" "distinct (map message_key ms)"
  shows "sortSlice message_less ms = sort_key message_key ms"
proof -
  have "sorted_wrt (\<lambda>a b. message_key a \<le> message_key b) (sortSlice message_less ms)"
    using assms(1) unfolding sorts_messages_def message_less_key not_less by blast
  then have "sorted (map message_key (sortSlice message_less ms))" by (simp add: sorted_wrt_map)
  moreover have "mset ms = mset (sortSlice message_less ms)" using assms(1) by (simp add: sorts_messages_def)
  moreover have "inj_on message_key (set ms)" using assms(2) by (simp add: distinct_map)
  ultimately show ?thesis by (metis sort_key_inj_key_eq)
qed

lemma normalizeObserved_Inr:
  "normalizeObserved f64 m = Inr n \<longleftrightarrow>
     (\<exists>p. canonicalizeRawJSON f64 (msg_payload m) = Inr p \<and> n = m\<lparr>msg_payload := p\<rparr>)"
  by (cases m) (auto simp: normalizeObserved_def split: sum.splits)

lemma normalizeObserved_key: "normalizeObserved f64 m = Inr n \<Longrightarrow> message_key n = message_key m"
  by (auto simp: normalizeObserved_Inr)

lemma normalizeObserveds_keys:
  "map_result (normalizeObserved f64) ms = Inr ns \<Longrightarrow> map message_key ns = map message_key ms"
  by (induction ms arbitrary: ns) (auto dest: normalizeObserved_key)

lemma normalizeObserved_stable:
  "float64_contract f64 \<Longrightarrow> normalizeObserved f64 m = Inr n \<Longrightarrow> normalizeObserved f64 n = Inr n"
proof -
  assume f64: "float64_contract f64" and "normalizeObserved f64 m = Inr n"
  then obtain p where p: "canonicalizeRawJSON f64 (msg_payload m) = Inr p" "n = m\<lparr>msg_payload := p\<rparr>"
    by (auto simp: normalizeObserved_Inr)
  then show ?thesis using canonicalizeRawJSON_stable [OF f64 p(1)] by (simp add: normalizeObserved_Inr)
qed

lemma map_result_ok: "map_result f xs = Inr ys \<Longrightarrow> ys = map (\<lambda>x. projr (f x)) xs \<and> (\<forall>x \<in> set xs. is_ok (f x))"
  by (induction xs arbitrary: ys) auto

lemma map_result_projr: "\<forall>x \<in> set xs. is_ok (f x) \<Longrightarrow> map_result f xs = Inr (map (\<lambda>x. projr (f x)) xs)"
proof (induction xs)
  case (Cons x xs)
  then obtain y where "f x = Inr y" by (auto simp: is_ok_iff)
  with Cons show ?case by simp
qed simp

text \<open>With distinct places in the topics the order of observation does not matter.\<close>

lemma normalize_permuted:
  assumes "sorts_messages sort1" "sorts_messages sort2" "mset ms = mset ms'" "distinct (map message_key ms)"
    and "map_result (normalizeObserved f64) ms = Inr ns"
  shows "\<exists>ns'. map_result (normalizeObserved f64) ms' = Inr ns' \<and> sort2 message_less ns' = sort1 message_less ns"
proof -
  let ?g = "\<lambda>m. projr (normalizeObserved f64 m)"
  have ns: "ns = map ?g ms" and ok: "\<forall>x \<in> set ms. is_ok (normalizeObserved f64 x)"
    using map_result_ok [OF assms(5)] by simp_all
  have "set ms' = set ms" using assms(3) mset_eq_setD by metis
  then have ns': "map_result (normalizeObserved f64) ms' = Inr (map ?g ms')" using ok map_result_projr by metis
  have d: "distinct (map message_key ns)" using normalizeObserveds_keys [OF assms(5)] assms(4) by simp
  have m: "mset (map ?g ms') = mset ns" using assms(3) by (simp add: ns)
  have "mset (map message_key (map ?g ms')) = mset (map message_key ns)" using m by (simp only: mset_map)
  then have d': "distinct (map message_key (map ?g ms'))" using d mset_eq_imp_distinct_iff by blast
  have "sort2 message_less (map ?g ms') = sort_key message_key (map ?g ms')" by (rule sorts_messages_key [OF assms(2) d'])
  also have "\<dots> = sort_key message_key ns"
  proof (rule sort_key_inj_key_eq)
    show "mset (map ?g ms') = mset (sort_key message_key ns)" using m by simp
    show "inj_on message_key (set (map ?g ms'))" using d' by (simp add: distinct_map del: map_map)
    show "sorted (map message_key (sort_key message_key ns))" by simp
  qed
  also have "\<dots> = sort1 message_less ns" by (rule sorts_messages_key [OF assms(1) d, symmetric])
  finally show ?thesis using ns' by blast
qed

section \<open>A decoded plan is a normalised expectation\<close>

lemma storeExpectation_wf:
  assumes "storeExpectation v raw = Inr e" "wf_map (oe_headers v)"
  shows "wf_map (oe_headers e)"
proof -
  obtain raws where "store_all store_string_map (oe_headers v) raws = Inr (oe_headers e)"
    using assms(1) by (auto simp: storeExpectation_def)
  then show ?thesis using store_all_inv [of wf_map store_string_map] store_string_map_wf assms(2) by blast
qed

lemma planDecodeRequest_normal:
  assumes "planDecodeRequest raw = Inr q"
  shows "\<exists>e. q = ExpectationValue e \<and> normal_expectation e"
proof -
  obtain e n where e: "decodeStrictJSON storeExpectation zeroExpectation raw = Inr e"
    "NormalizeExpectation e = Inr n" "q = ExpectationValue n"
    using assms by (auto simp: planDecodeRequest_def split: sum.splits)
  then obtain t where "storeExpectation zeroExpectation t = Inr e"
    by (auto simp: decodeStrictJSON_def split: sum.splits)
  then have "wf_map (oe_headers e)" using storeExpectation_wf by (simp add: zeroExpectation_def)
  then show ?thesis using e normalize_normal by blast
qed

section \<open>The interface of a harness\<close>

text \<open>
  What the steps rely on.  \<open>seen s\<close> are the messages a check in state \<open>s\<close> will look at, \<open>drift\<close> is
  what happens between the steps of a case.
\<close>

locale outbound_harness =
  fixes H :: "'s outboundHarness"
    and ok :: "'s \<Rightarrow> bool"
    and planned :: "'s \<Rightarrow> outbound_expectation option"
    and seen :: "'s \<Rightarrow> queue_message list"
    and expired :: "'s \<Rightarrow> bool"
    and drift :: "'s \<Rightarrow> 's \<Rightarrow> bool"
  assumes plan_law: "ok s \<Longrightarrow> normal_expectation e \<Longrightarrow> oh_planOutbound H e s = (s', r) \<Longrightarrow>
      ok s' \<and> (r = None \<longrightarrow> planned s' \<noteq> None)"
    and verify_law: "ok s \<Longrightarrow> planned s = Some p \<Longrightarrow> \<exists>s' r e. oh_verifyOutbound H s = Some (s', r, e) \<and>
      ok s' \<and> planned s' = Some p \<and> seen s' = seen s \<and> (e = None \<longleftrightarrow> verify_spec p (seen s))"
    and await_law: "ok s \<Longrightarrow> planned s = Some p \<Longrightarrow> \<exists>s' r e. oh_awaitOutbound H s = Some (s', r, e) \<and>
      ok s' \<and> planned s' = Some p \<and> seen s' = seen s \<and> (e = None \<longleftrightarrow> await_spec p (seen s) (expired s'))"
    and cleanup_law: "ok s \<Longrightarrow> oh_cleanupBroker H s = (s', r) \<Longrightarrow> ok s' \<and> planned s' = None"
    and drift_law: "ok s \<Longrightarrow> drift s s' \<Longrightarrow> ok s' \<and> planned s' = planned s"
begin

lemma plan_step:
  assumes "ok s" "planDecodeRequest raw = Inr q"
  shows "\<exists>s' r. planInvoke H q s = Some (s', r) \<and> ok s' \<and> (is_ok r \<longrightarrow> planned s' \<noteq> None)"
proof -
  obtain e where e: "q = ExpectationValue e" "normal_expectation e" using planDecodeRequest_normal [OF assms(2)] by blast
  obtain s' r where r: "oh_planOutbound H e s = (s', r)" by fastforce
  then show ?thesis using plan_law [OF assms(1) e(2) r] e(1) by (cases r) (simp_all add: planInvoke_def)
qed

lemma check_step:
  assumes "check s = Some (s', r, e)"
  shows "checkInvoke format check EmptyRequestPtr s =
    Some (s', case e of Some e \<Rightarrow> Inl e | None \<Rightarrow> Inr (CheckResultValue r))"
  using assms by (simp add: checkInvoke_def)

lemma verify_step:
  assumes "ok s" "planned s = Some p"
  shows "\<exists>s' r. verifyInvoke H EmptyRequestPtr s = Some (s', r) \<and> ok s' \<and> planned s' = Some p \<and>
    seen s' = seen s \<and> (is_ok r \<longleftrightarrow> verify_spec p (seen s))"
proof -
  obtain s' r e where v: "oh_verifyOutbound H s = Some (s', r, e)" "ok s'" "planned s' = Some p" "seen s' = seen s"
    "e = None \<longleftrightarrow> verify_spec p (seen s)"
    using verify_law [OF assms] by blast
  then show ?thesis
    unfolding verifyInvoke_def using check_step [of "oh_verifyOutbound H", OF v(1)] by (cases e) auto
qed

lemma await_step:
  assumes "ok s" "planned s = Some p"
  shows "\<exists>s' r. awaitInvoke H EmptyRequestPtr s = Some (s', r) \<and> ok s' \<and> planned s' = Some p \<and>
    seen s' = seen s \<and> (is_ok r \<longleftrightarrow> await_spec p (seen s) (expired s'))"
proof -
  obtain s' r e where v: "oh_awaitOutbound H s = Some (s', r, e)" "ok s'" "planned s' = Some p" "seen s' = seen s"
    "e = None \<longleftrightarrow> await_spec p (seen s) (expired s')"
    using await_law [OF assms] by blast
  then show ?thesis
    unfolding awaitInvoke_def using check_step [of "oh_awaitOutbound H", OF v(1)] by (cases e) auto
qed

text \<open>An await step, some time, and the verify step: both look at the plan that was made.\<close>

lemma await_then_verify:
  assumes "ok s" "planned s = Some p"
  shows "\<exists>s1 r1. awaitInvoke H EmptyRequestPtr s = Some (s1, r1) \<and>
    (is_ok r1 \<longleftrightarrow> await_spec p (seen s) (expired s1)) \<and>
    (\<forall>s2. drift s1 s2 \<longrightarrow> (\<exists>s3 r3. verifyInvoke H EmptyRequestPtr s2 = Some (s3, r3) \<and> (is_ok r3 \<longleftrightarrow> verify_spec p (seen s2))))"
proof -
  obtain s1 r1 where a: "awaitInvoke H EmptyRequestPtr s = Some (s1, r1)" "ok s1" "planned s1 = Some p"
    "is_ok r1 \<longleftrightarrow> await_spec p (seen s) (expired s1)"
    using await_step [OF assms] by blast
  have "\<exists>s3 r3. verifyInvoke H EmptyRequestPtr s2 = Some (s3, r3) \<and> (is_ok r3 \<longleftrightarrow> verify_spec p (seen s2))"
    if "drift s1 s2" for s2
    using verify_step [of s2 p] drift_law [OF a(2) that] a(3) by auto
  then show ?thesis using a by blast
qed

end

section \<open>The Kafka harness provides it\<close>

definition kafkaOutbound :: "'w kafka_env \<Rightarrow> ('w \<times> 'w harness) outboundHarness" where
  "kafkaOutbound env = \<lparr>
     oh_planOutbound = (\<lambda>e (w, h). let (w', h', r) = planOutbound env h e w in ((w', h'), r)),
     oh_awaitOutbound = (\<lambda>(w, h). map_option (\<lambda>(w', h', out). ((w', h'), out)) (awaitOutbound env h w)),
     oh_verifyOutbound = (\<lambda>(w, h). map_option (\<lambda>(w', h', out). ((w', h'), out)) (verifyOutbound h w)),
     oh_cleanupBroker = (\<lambda>(w, h). let (w', h', r) = cleanupBroker h w in ((w', h'), r))\<rparr>"

text \<open>All readers, those in use and those to be created, hand out the pending messages.\<close>

definition kafka_ok :: "('w \<Rightarrow> harnessMessage list) \<Rightarrow> 'w kafka_env \<Rightarrow> 'w \<times> 'w harness \<Rightarrow> bool" where
  "kafka_ok pending env s \<longleftrightarrow> harness_inv (snd s) \<and>
     (\<forall>reader. hn_reader (snd s) = Some reader \<longrightarrow> reader_contract pending reader) \<and>
     (\<forall>t w w' reader. ke_newReader env t w = (w', Inr reader) \<longrightarrow> reader_contract pending reader)"

definition kafka_seen :: "('w \<Rightarrow> harnessMessage list) \<Rightarrow> 'w \<times> 'w harness \<Rightarrow> queue_message list" where
  "kafka_seen pending s = hn_observed (snd s) @ map mapFromKafkaMessage (pending (fst s))"

lemma harness_inv_observed:
  "harness_inv h \<Longrightarrow> wf_messages obs \<Longrightarrow> harness_inv (h\<lparr>hn_observed := obs\<rparr>)"
  by (simp add: harness_inv_def)

lemma kafka_check:
  assumes "kafka_ok pending env (w, h)" "hn_plan h = Some p"
  shows "\<exists>w' obs. checkOutbound check h w = Some (w', h\<lparr>hn_observed := obs\<rparr>, apfst (normalizeResultTopics h) (check w' p obs)) \<and>
    obs = kafka_seen pending (w, h) \<and> pending w' = [] \<and> normal_expectation p \<and> wf_messages obs \<and>
    kafka_ok pending env (w', h\<lparr>hn_observed := obs\<rparr>) \<and> kafka_seen pending (w', h\<lparr>hn_observed := obs\<rparr>) = obs"
proof -
  have inv: "harness_inv h" using assms(1) by (simp add: kafka_ok_def)
  then obtain reader where reader: "hn_reader h = Some reader" using assms(2) by (auto simp: harness_inv_def)
  then have "reader_contract pending reader" using assms(1) by (simp add: kafka_ok_def)
  note pending = checkOutbound_pending [OF inv assms(2) reader this refl]
  obtain w' where w': "checkOutbound check h w = Some (w', h\<lparr>hn_observed := kafka_seen pending (w, h)\<rparr>,
      apfst (normalizeResultTopics h) (check w' p (kafka_seen pending (w, h))))"
    "pending w' = []" "normal_expectation p" "wf_messages (kafka_seen pending (w, h))"
    unfolding kafka_seen_def fst_conv snd_conv using pending [where w = w and check = check] by blast
  moreover have "kafka_ok pending env (w', h\<lparr>hn_observed := kafka_seen pending (w, h)\<rparr>)"
    using assms(1) harness_inv_observed [OF inv w'(4)] by (simp add: kafka_ok_def)
  ultimately show ?thesis by (intro exI conjI) (simp_all add: kafka_seen_def)
qed

interpretation kh: outbound_harness "kafkaOutbound env" "kafka_ok pending env" "\<lambda>s. hn_plan (snd s)"
    "kafka_seen pending" "\<lambda>s. ke_windowExpired env (fst s)" "\<lambda>s s'. snd s' = snd s"
  for env :: "'w kafka_env" and pending
proof
  fix s s' :: "'w \<times> 'w harness" and e p r
  assume ok: "kafka_ok pending env s"
  obtain w h where s: "s = (w, h)" by (cases s)
  have inv: "harness_inv h" using ok by (simp add: kafka_ok_def s)
  {
    assume e: "normal_expectation e" and "oh_planOutbound (kafkaOutbound env) e s = (s', r)"
    then obtain w' h' where s': "s' = (w', h')" and p: "planOutbound env h e w = (w', h', r)"
      by (auto simp: kafkaOutbound_def s split: prod.splits)
    have "harness_inv h'" using planOutbound_inv [OF p inv normal_wf [OF e]] .
    moreover have "reader_contract pending reader" if "hn_reader h' = Some reader" for reader
      using p ok that by (auto simp: planOutbound_def kafka_ok_def s Let_def split: sum.splits prod.splits option.splits)
    moreover have "r = None \<longrightarrow> hn_plan h' \<noteq> None" using planOutbound_cases [OF p] by auto
    ultimately show "kafka_ok pending env s' \<and> (r = None \<longrightarrow> hn_plan (snd s') \<noteq> None)"
      using ok by (simp add: kafka_ok_def s')
  next
    assume plan: "hn_plan (snd s) = Some p"
    note check = kafka_check [OF ok [unfolded s], of p]
    obtain w' obs where v: "verifyOutbound h w =
        Some (w', h\<lparr>hn_observed := obs\<rparr>, apfst (normalizeResultTopics h) (EvaluateVerify p obs))"
      "obs = kafka_seen pending (w, h)" "normal_expectation p" "wf_messages obs"
      "kafka_ok pending env (w', h\<lparr>hn_observed := obs\<rparr>)" "kafka_seen pending (w', h\<lparr>hn_observed := obs\<rparr>) = obs"
      unfolding verifyOutbound_def using check [where check = "\<lambda>w p ms. EvaluateVerify p ms"] plan s by auto
    show "\<exists>s' r e. oh_verifyOutbound (kafkaOutbound env) s = Some (s', r, e) \<and> kafka_ok pending env s' \<and>
        hn_plan (snd s') = Some p \<and> kafka_seen pending s' = kafka_seen pending s \<and>
        (e = None \<longleftrightarrow> verify_spec p (kafka_seen pending s))"
      using v plan verify_correct [OF v(3,4)]
      by (cases "EvaluateVerify p obs") (auto simp: kafkaOutbound_def s)
  next
    assume plan: "hn_plan (snd s) = Some p"
    note check = kafka_check [OF ok [unfolded s], of p]
    obtain w' obs where v: "awaitOutbound env h w = Some (w', h\<lparr>hn_observed := obs\<rparr>,
          apfst (normalizeResultTopics h) (EvaluateAwait p obs (ke_windowExpired env w')))"
      "obs = kafka_seen pending (w, h)" "normal_expectation p" "wf_messages obs"
      "kafka_ok pending env (w', h\<lparr>hn_observed := obs\<rparr>)" "kafka_seen pending (w', h\<lparr>hn_observed := obs\<rparr>) = obs"
      unfolding awaitOutbound_def
      using check [where check = "\<lambda>w p ms. EvaluateAwait p ms (ke_windowExpired env w)"] plan s by auto
    show "\<exists>s' r e. oh_awaitOutbound (kafkaOutbound env) s = Some (s', r, e) \<and> kafka_ok pending env s' \<and>
        hn_plan (snd s') = Some p \<and> kafka_seen pending s' = kafka_seen pending s \<and>
        (e = None \<longleftrightarrow> await_spec p (kafka_seen pending s) (ke_windowExpired env (fst s')))"
      using v plan await_correct [OF v(3,4), of "ke_windowExpired env w'"]
      by (cases "EvaluateAwait p obs (ke_windowExpired env w')") (auto simp: kafkaOutbound_def s)
  next
    assume "oh_cleanupBroker (kafkaOutbound env) s = (s', r)"
    then have "snd s' = h\<lparr>hn_reader := None, hn_writer := None, hn_plan := None, hn_observed := []\<rparr>"
      using cleanupBroker_state [of h w] by (auto simp: kafkaOutbound_def s split: prod.splits)
    then show "kafka_ok pending env s' \<and> hn_plan (snd s') = None"
      using ok inv by (simp add: kafka_ok_def harness_inv_def wf_messages_def)
  next
    assume "snd s' = snd s"
    then show "kafka_ok pending env s' \<and> hn_plan (snd s') = hn_plan (snd s)" using ok by (simp add: kafka_ok_def)
  }
qed

section \<open>Properties\<close>

lemma checkInvoke_verdict:
  "checkInvoke format check EmptyRequestPtr s = Some (s', r) \<Longrightarrow> check s = Some (s'', out) \<Longrightarrow> s' = s''"
  by (cases out) (auto simp: checkInvoke_def)

text \<open>
  C9: a whole outbound check through the preset handlers: after a plan step with a decoded request,
  an await step and a later verify step both return, whatever happened in between, and succeed
  exactly when the messages that arrived since the plan fulfil the plan in the sense of
  \<^const>\<open>await_spec\<close> and \<^const>\<open>verify_spec\<close>; the response of the plan step shows the topic and the count
  of the request.
\<close>

theorem outbound_case:
  assumes "newHarness brokers namespace producer = Inr h0"
    and "\<forall>t w w' reader. ke_newReader env t w = (w', Inr reader) \<longrightarrow> reader_contract pending reader"
    and "decodeRequest PlanOutboundHandler raw = Inr q"
    and "invoke PlanOutboundHandler (kafkaOutbound env) q (w0, h0) = Some ((w1, h1), Inr resp)"
  shows "\<exists>e p w2' h2 r2 s3 r3. q = ExpectationValue e \<and>
    resp = PlanResponsePtr \<lparr>por_topic = oe_topic e, por_expectedCount = oe_expectedCount e, por_planned = True\<rparr> \<and>
    p = e\<lparr>oe_topic := resolveTopic (hn_caseNamespace h0) (oe_topic e)\<rparr> \<and>
    invoke AwaitOutboundHandler (kafkaOutbound env) EmptyRequestPtr (w2, h1) = Some ((w2', h2), r2) \<and>
    (is_ok r2 \<longleftrightarrow> await_spec p (map mapFromKafkaMessage (pending w2)) (ke_windowExpired env w2')) \<and>
    invoke VerifyOutboundHandler (kafkaOutbound env) EmptyRequestPtr (w3, h2) = Some (s3, r3) \<and>
    (is_ok r3 \<longleftrightarrow> verify_spec p (map mapFromKafkaMessage (pending w2 @ pending w3)))"
proof -
  have inv0: "harness_inv h0" and fresh: "hn_reader h0 = None"
    using newHarness_inv [OF assms(1)] assms(1) by (auto simp: newHarness_def split: sum.splits if_splits)
  have ok0: "kafka_ok pending env (w0, h0)" using inv0 fresh assms(2) by (simp add: kafka_ok_def)
  obtain e where e: "q = ExpectationValue e" "normal_expectation e"
    using planDecodeRequest_normal assms(3) by auto
  let ?p = "e\<lparr>oe_topic := resolveTopic (hn_caseNamespace h0) (oe_topic e)\<rparr>"
  have plan: "planOutbound env h0 e w0 = (w1, h1, None)"
    and resp: "resp = PlanResponsePtr \<lparr>por_topic = oe_topic e, por_expectedCount = oe_expectedCount e, por_planned = True\<rparr>"
    using assms(4) e(1) by (auto simp: planInvoke_def kafkaOutbound_def split: prod.splits option.splits)
  have h1: "hn_plan h1 = Some ?p" "hn_observed h1 = []"
    using planOutbound_cases [OF plan] normal_normalize [OF e(2)] by auto
  have "kafka_ok pending env (w1, h1)"
    using kh.plan_law [OF ok0 e(2), of "(w1, h1)" None] plan by (simp add: kafkaOutbound_def)
  then have ok2: "kafka_ok pending env (w2, h1)" using kh.drift_law [of pending env "(w1, h1)" "(w2, h1)"] by simp
  have seen2: "kafka_seen pending (w2, h1) = map mapFromKafkaMessage (pending w2)" by (simp add: kafka_seen_def h1)
  obtain s2 r2 where a: "awaitInvoke (kafkaOutbound env) EmptyRequestPtr (w2, h1) = Some (s2, r2)"
    "kafka_ok pending env s2" "hn_plan (snd s2) = Some ?p"
    "is_ok r2 \<longleftrightarrow> await_spec ?p (map mapFromKafkaMessage (pending w2)) (ke_windowExpired env (fst s2))"
    using kh.await_step [OF ok2, of ?p] h1(1) seen2 by auto
  obtain w2' where st: "awaitOutbound env h1 w2 =
      Some (w2', h1\<lparr>hn_observed := map mapFromKafkaMessage (pending w2)\<rparr>, apfst (normalizeResultTopics h1)
        (EvaluateAwait ?p (map mapFromKafkaMessage (pending w2)) (ke_windowExpired env w2')))"
    unfolding awaitOutbound_def
    using kafka_check [OF ok2 h1(1), where check = "\<lambda>w p ms. EvaluateAwait p ms (ke_windowExpired env w)"] seen2 by auto
  have s2: "s2 = (w2', h1\<lparr>hn_observed := map mapFromKafkaMessage (pending w2)\<rparr>)" (is "_ = (_, ?h2)")
    using checkInvoke_verdict [OF a(1) [unfolded awaitInvoke_def]] st by (simp add: kafkaOutbound_def)
  have ok3: "kafka_ok pending env (w3, ?h2)" using kh.drift_law [OF a(2), of "(w3, ?h2)"] s2 by simp
  obtain s3 r3 where "verifyInvoke (kafkaOutbound env) EmptyRequestPtr (w3, ?h2) = Some (s3, r3)"
    "is_ok r3 \<longleftrightarrow> verify_spec ?p (kafka_seen pending (w3, ?h2))"
    using kh.verify_step [OF ok3, of ?p] h1(1) by auto
  moreover have "kafka_seen pending (w3, ?h2) = map mapFromKafkaMessage (pending w2 @ pending w3)"
    by (simp add: kafka_seen_def)
  ultimately show ?thesis using e(1) resp a s2 by auto
qed

text \<open>
  C35: the stable form of a check result does not depend on the order in which the messages were
  observed nor on how the library sorts, as long as no two messages share topic and offset; it has
  the same messages in the order of topic and offset, each payload written anew from its JSON
  value, and it is its own stable form.
\<close>

theorem normalize_canonical:
  assumes "sorts_messages sort1" "sorts_messages sort2" "float64_contract f64"
    and "distinct (map message_key (cr_observed r))"
    and "normalizeProbeCheckResult f64 sort1 (CheckResultValue r) = Inr n"
    and "mset (cr_observed r') = mset (cr_observed r)" "cr_matchedCount r' = cr_matchedCount r"
    and "cr_lastMismatchReason r' = cr_lastMismatchReason r"
  shows "normalizeProbeCheckResult f64 sort2 (CheckResultPtr (Some r')) = Inr n \<and>
    normalizeProbeCheckResult f64 sort2 (CheckResultValue n) = Inr n \<and>
    cr_matchedCount n = cr_matchedCount r \<and> cr_lastMismatchReason n = cr_lastMismatchReason r \<and>
    (\<exists>ns. map_result (normalizeObserved f64) (cr_observed r) = Inr ns \<and> cr_observed n = sort_key message_key ns)"
proof -
  obtain ns where ns: "map_result (normalizeObserved f64) (cr_observed r) = Inr ns"
    "n = \<lparr>cr_matchedCount = cr_matchedCount r, cr_observed = sort1 message_less ns,
      cr_lastMismatchReason = cr_lastMismatchReason r\<rparr>"
    using assms(5) by (auto simp: normalizeProbeCheckResult_def castProbeCheckResult_def)
  obtain ns' where ns': "map_result (normalizeObserved f64) (cr_observed r') = Inr ns'"
    "sort2 message_less ns' = sort1 message_less ns"
    using normalize_permuted [OF assms(1,2) assms(6) [symmetric] assms(4) ns(1)] by blast
  have first: "normalizeProbeCheckResult f64 sort2 (CheckResultPtr (Some r')) = Inr n"
    using ns' ns(2) assms(7,8) by (simp add: normalizeProbeCheckResult_def castProbeCheckResult_def)
  have d: "distinct (map message_key ns)" using normalizeObserveds_keys [OF ns(1)] assms(4) by simp
  have obs: "cr_observed n = sort_key message_key ns" using sorts_messages_key [OF assms(1) d] by (simp add: ns(2))
  have "normalizeObserved f64 m = Inr m" if "m \<in> set (cr_observed n)" for m
    using map_result_source [OF ns(1), of m] that obs normalizeObserved_stable [OF assms(3)] by auto
  then have self: "map_result (normalizeObserved f64) (cr_observed n) = Inr (cr_observed n)" by (rule map_result_Inr_self)
  have "distinct (map message_key (cr_observed n))"
    using d obs mset_eq_imp_distinct_iff [of "map message_key (cr_observed n)" "map message_key ns"] by simp
  then have "sort2 message_less (cr_observed n) = sort_key message_key (cr_observed n)"
    by (rule sorts_messages_key [OF assms(2)])
  also have "\<dots> = cr_observed n" by (simp add: obs sorted_sort_id sort_key_id_if_sorted)
  finally have second: "normalizeProbeCheckResult f64 sort2 (CheckResultValue n) = Inr n"
    using self by (simp add: normalizeProbeCheckResult_def castProbeCheckResult_def)
  show ?thesis using first second ns obs by simp
qed

text \<open>Concrete inputs: the broker of \<^const>\<open>queue_env\<close>, an insertion sort, and integers of one digit.\<close>

definition plan_request :: string where
  "plan_request = ''{\"topic\":\"t\",\"expected_count\":0}''"

definition plan_expectation :: outbound_expectation where
  "plan_expectation = \<lparr>oe_topic = ''t'', oe_key = None, oe_headers = [], oe_headersMode = HeadersModeExact,
     oe_expectedCount = 0, oe_payload = [], oe_payloadSubset = [], oe_ordering = OrderingAny\<rparr>"

lemma plan_request_decoded: "decodeRequest PlanOutboundHandler plan_request = Inr (ExpectationValue plan_expectation)"
  by code_simp

definition insertion_sort :: "(queue_message \<Rightarrow> queue_message \<Rightarrow> bool) \<Rightarrow> queue_message list \<Rightarrow> queue_message list" where
  "insertion_sort lt ms = sort_key message_key ms"

lemma insertion_sort_sorts: "sorts_messages insertion_sort"
proof -
  have "sorted_wrt (\<lambda>a b. message_key a \<le> message_key b) (sort_key message_key ms)" for ms
    using sorted_sort_key [of message_key ms] unfolding sorted_wrt_map .
  then show ?thesis unfolding sorts_messages_def insertion_sort_def message_less_key not_less mset_sort by blast
qed

definition digit_text :: float64_text where
  "digit_text l = (if l \<in> {''1'', ''2''} then Inr l else if l = ''1.0'' then Inr ''1'' else Inl (Opaque ''range''))"

lemma digit_text_contract: "float64_contract digit_text"
proof -
  have "valid_number ''1''" "valid_number ''2''" by code_simp+
  then show ?thesis by (simp add: float64_contract_def digit_text_def)
qed

definition expecting_none :: "harnessMessage list harness" where
  "expecting_none = fresh_harness\<lparr>hn_reader := Some queue_reader, hn_plan := Some (plan_expectation\<lparr>oe_topic := ''n-t''\<rparr>)\<rparr>"

lemma queue_readers: "\<forall>t w w' reader. ke_newReader queue_env t w = (w', Inr reader) \<longrightarrow> reader_contract (\<lambda>w. w) reader"
  by (simp add: queue_env_def queue_contract)

lemma plan_invoked:
  "invoke PlanOutboundHandler (kafkaOutbound queue_env) (ExpectationValue plan_expectation) ([], fresh_harness) =
     Some (([], expecting_none), Inr (PlanResponsePtr \<lparr>por_topic = ''t'', por_expectedCount = 0, por_planned = True\<rparr>))"
proof -
  have n: "NormalizeExpectation plan_expectation = Inr plan_expectation" by code_simp
  have t: "resolveTopic ''n'' ''t'' = ''n-t''" by code_simp
  have "planOutbound queue_env fresh_harness plan_expectation [] = ([], expecting_none, None)"
    using n t by (simp add: planOutbound_def queue_env_def fresh_harness_def expecting_none_def plan_expectation_def Let_def)
  then show ?thesis by (simp add: planInvoke_def kafkaOutbound_def plan_expectation_def)
qed

theorem outbound_case_witness:
  "\<exists>w2 h2 r2 s3 r3.
    invoke AwaitOutboundHandler (kafkaOutbound queue_env) EmptyRequestPtr ([], expecting_none) = Some ((w2, h2), r2) \<and>
    invoke VerifyOutboundHandler (kafkaOutbound queue_env) EmptyRequestPtr ([wanted_message], h2) = Some (s3, r3)"
  using outbound_case [OF fresh queue_readers plan_request_decoded plan_invoked, where ?w2.0 = "[]" and ?w3.0 = "[wanted_message]"]
  by blast

text \<open>Two messages of one topic, observed in both orders; the first payload is a number with a fraction.\<close>

definition later_message :: queue_message where
  "later_message = \<lparr>msg_topic = ''t'', msg_key = None, msg_headers = [], msg_payload = '' 1.0'', msg_offset = 8\<rparr>"

definition earlier_message :: queue_message where
  "earlier_message = \<lparr>msg_topic = ''t'', msg_key = None, msg_headers = [], msg_payload = ''2'', msg_offset = 7\<rparr>"

definition two_observed :: "queue_message list \<Rightarrow> check_result" where
  "two_observed ms = \<lparr>cr_matchedCount = 2, cr_observed = ms, cr_lastMismatchReason = None\<rparr>"

theorem normalize_canonical_witness:
  "normalizeProbeCheckResult digit_text insertion_sort (CheckResultPtr (Some (two_observed [earlier_message, later_message]))) =
     Inr (two_observed [earlier_message, later_message\<lparr>msg_payload := ''1''\<rparr>])"
proof -
  have n: "normalizeProbeCheckResult digit_text insertion_sort (CheckResultValue (two_observed [later_message, earlier_message])) =
     Inr (two_observed [earlier_message, later_message\<lparr>msg_payload := ''1''\<rparr>])" by code_simp
  have d: "distinct (map message_key (cr_observed (two_observed [later_message, earlier_message])))"
    by (simp add: two_observed_def later_message_def earlier_message_def)
  show ?thesis
    using normalize_canonical [OF insertion_sort_sorts insertion_sort_sorts digit_text_contract d n,
        of "two_observed [earlier_message, later_message]"]
    by (simp add: two_observed_def)
qed

end
