(* ===== verification/KafkaSuite.thy ===== *)
theory KafkaSuite
  imports KafkaHarness
begin

text \<open>
  The lifecycle of the Kafka container of a test suite (\<open>queue/kafkaproducer/suite.go\<close>).  The
  container library is a parameter, the record \<open>kafkaContainers\<close> over a world \<open>'w\<close>; containers are
  values of type \<open>'c\<close>.
\<close>

record ('w, 'c) kafkaContainers =
  kc_run :: "'w \<Rightarrow> 'w \<times> 'c result"
  kc_brokers :: "'c \<Rightarrow> 'w \<Rightarrow> 'w \<times> string list result"
  kc_terminate :: "'c \<Rightarrow> 'w \<Rightarrow> 'w \<times> err option"

record 'c kafkaSuite =
  ks_container :: "'c option"
  ks_brokers :: "string list"

definition startSuite :: "('w, 'c) kafkaContainers \<Rightarrow> 'w \<Rightarrow> 'w \<times> 'c kafkaSuite result" where
  "startSuite lib w =
     (case kc_run lib w of
        (w1, Inl e) \<Rightarrow> (w1, Inl (Errorf ''start kafka container: %w'' [AErr e]))
      | (w1, Inr container) \<Rightarrow>
          (case kc_brokers lib container w1 of
             (w2, Inl e) \<Rightarrow>
               (case kc_terminate lib container w2 of
                  (w3, Some terminateErr) \<Rightarrow> (w3, Inl (errors_join
                     (Some (Errorf ''read kafka brokers: %w'' [AErr e]))
                     (Errorf ''terminate kafka container: %w'' [AErr terminateErr])))
                | (w3, None) \<Rightarrow> (w3, Inl (Errorf ''read kafka brokers: %w'' [AErr e])))
           | (w2, Inr brokers) \<Rightarrow> (w2, Inr \<lparr>ks_container = Some container, ks_brokers = brokers\<rparr>)))"

text \<open>The methods have a pointer receiver; \<^const>\<open>None\<close> is a nil suite.\<close>

definition suiteBrokers :: "'c kafkaSuite option \<Rightarrow> string list" where
  "suiteBrokers suite = (case suite of None \<Rightarrow> [] | Some s \<Rightarrow> ks_brokers s)"

definition suiteNewHarness :: "'c kafkaSuite option \<Rightarrow> string \<Rightarrow> 'w messageWriter result \<Rightarrow> 'w harness result" where
  "suiteNewHarness suite caseNamespace producer =
     (case suite of
        None \<Rightarrow> Inl (Err ''kafka suite is nil'')
      | Some s \<Rightarrow> newHarness (ks_brokers s) caseNamespace producer)"

definition suiteClose ::
    "('w, 'c) kafkaContainers \<Rightarrow> 'c kafkaSuite option \<Rightarrow> 'w \<Rightarrow> 'w \<times> 'c kafkaSuite option \<times> err option" where
  "suiteClose lib suite w =
     (case suite of
        None \<Rightarrow> (w, suite, None)
      | Some s \<Rightarrow>
          (case ks_container s of
             None \<Rightarrow> (w, suite, None)
           | Some container \<Rightarrow>
               (case kc_terminate lib container w of
                  (w', Some e) \<Rightarrow> (w', suite, Some (Errorf ''terminate kafka container: %w'' [AErr e]))
                | (w', None) \<Rightarrow> (w', Some (s\<lparr>ks_container := None, ks_brokers := []\<rparr>), None))))"

section \<open>No container is left behind\<close>

text \<open>
  What the library documents: a successful run adds a new container to those running, reading the
  brokers changes none, and a successful termination removes the container.
\<close>

definition container_contract :: "('w \<Rightarrow> 'c set) \<Rightarrow> ('w, 'c) kafkaContainers \<Rightarrow> bool" where
  "container_contract running lib \<longleftrightarrow>
     (\<forall>w w' c. kc_run lib w = (w', Inr c) \<longrightarrow> c \<notin> running w \<and> running w' = insert c (running w)) \<and>
     (\<forall>w w' c r. kc_brokers lib c w = (w', r) \<longrightarrow> running w' = running w) \<and>
     (\<forall>w w' c. kc_terminate lib c w = (w', None) \<longrightarrow> running w' = running w - {c})"

lemma contract_facts:
  assumes "container_contract running lib"
  shows "kc_run lib w = (w', Inr c) \<Longrightarrow> c \<notin> running w \<and> running w' = insert c (running w)"
    and "kc_brokers lib c w = (w', r) \<Longrightarrow> running w' = running w"
    and "kc_terminate lib c w = (w', None) \<Longrightarrow> running w' = running w - {c}"
  using assms unfolding container_contract_def by blast+

lemma startSuite_running:
  assumes "container_contract running lib" "startSuite lib w = (w', Inr s)"
  shows "\<exists>c. ks_container s = Some c \<and> c \<notin> running w \<and> running w' = insert c (running w)"
  using assms(2) contract_facts(1,2) [OF assms(1)]
  by (fastforce simp: startSuite_def split: prod.splits sum.splits option.splits)

text \<open>A start that fails after the container ran leaves none, unless the termination failed as well.\<close>

lemma startSuite_failed:
  assumes "container_contract running lib" "kc_run lib w = (w1, Inr c)" "startSuite lib w = (w', Inl e)"
  shows "running w' = running w \<or> (\<exists>e1 e2. e = errors_join (Some e1) (Errorf ''terminate kafka container: %w'' [AErr e2]))"
proof -
  obtain w2 r where b: "kc_brokers lib c w1 = (w2, r)" by fastforce
  obtain w3 t where t: "kc_terminate lib c w2 = (w3, t)" by fastforce
  show ?thesis
    using contract_facts(1) [OF assms(1,2)] contract_facts(2) [OF assms(1) b] contract_facts(3) [OF assms(1)] t assms(2,3) b
    by (cases t; cases r) (auto simp: startSuite_def)
qed

text \<open>Closing stops the container; closing again does nothing, and after an error it can be repeated.\<close>

lemma suiteClose_once:
  assumes "container_contract running lib" "ks_container s = Some c"
  shows "case suiteClose lib (Some s) w of
      (w', suite, None) \<Rightarrow> running w' = running w - {c} \<and> suiteBrokers suite = [] \<and>
        (\<forall>w. suiteClose lib suite w = (w, suite, None))
    | (w', suite, Some e) \<Rightarrow> suite = Some s"
  using contract_facts(3) [OF assms(1), of c w] assms(2)
  by (auto simp: suiteClose_def suiteBrokers_def split: prod.splits option.splits)

text \<open>A suite that was started and closed leaves the containers as they were.\<close>

lemma suite_lifecycle:
  assumes "container_contract running lib" "startSuite lib w = (w1, Inr s)"
    and "running w2 = running w1" "suiteClose lib (Some s) w2 = (w3, suite, None)"
  shows "running w3 = running w"
proof -
  obtain c where c: "ks_container s = Some c" "c \<notin> running w" "running w1 = insert c (running w)"
    using startSuite_running [OF assms(1,2)] by blast
  then show ?thesis using suiteClose_once [OF assms(1) c(1), of w2] assms(3,4) by auto
qed

text \<open>A harness of a suite that is nil or closed is refused.\<close>

lemma closed_suite_harness:
  "is_ok (suiteNewHarness suite ns producer) \<Longrightarrow> suiteBrokers suite \<noteq> []"
  by (auto simp: suiteNewHarness_def suiteBrokers_def newHarness_def split: option.splits if_splits)

end
