(* ===== verification/HttpServer.thy ===== *)
theory HttpServer
  imports AnyDecode NetHttp CaseModel
begin

text \<open>
  The preset handler for HTTP calls (\<open>httpserver/handler.go\<close>, \<open>httpserver/registry.go\<close>): the
  request that is built from a fixture, the cookie jar of a case, the CSRF header, the captured
  parts of the response and its stable form.  The HTTP handler under test, the parsing of URLs and
  of \<open>Set-Cookie\<close> headers are parameters, fields of the record \<open>http_runtime\<close> over a world \<open>'w\<close>.
\<close>

section \<open>Requests, responses and cookies\<close>

definition defaultBaseURL :: string where "defaultBaseURL = ''http://itestkit.local''"
definition bodyKey :: string where "bodyKey = ''body''"
definition cookiesKey :: string where "cookiesKey = ''cookies''"
definition headersKey :: string where "headersKey = ''headers''"
definition httpOnlyKey :: string where "httpOnlyKey = ''http_only''"
definition maxAgeKey :: string where "maxAgeKey = ''max_age''"
definition pathKey :: string where "pathKey = ''path''"
definition sameSiteKey :: string where "sameSiteKey = ''same_site''"
definition secureKey :: string where "secureKey = ''secure''"
definition statusKey :: string where "statusKey = ''status''"
definition valueKey :: string where "valueKey = ''value''"

record csrfConfig =
  csrf_cookie :: string
  csrf_header :: string

record requestSpec =
  rq_method :: string
  rq_path :: string
  rq_query :: "string gomap"
  rq_headers :: "string gomap"
  rq_body :: string
  rq_rawBody :: "string option"
  rq_responseBody :: string
  rq_useCookies :: bool
  rq_csrf :: "csrfConfig option"
  rq_captureHeaders :: "string list"
  rq_captureCookies :: "string list"

record cookie =
  co_value :: string
  co_path :: string
  co_httpOnly :: bool
  co_secure :: bool
  co_sameSite :: string
  co_maxAge :: int

text \<open>A value of type \<open>any\<close>: JSON data with numbers as \<open>float64\<close>, or what a hook returned. \<open>JNull\<close> is nil.\<close>

datatype body_value = DecodedBody json | HookBody gval

record response =
  rs_status :: int
  rs_headers :: "string list gomap"
  rs_cookies :: "cookie gomap"
  rs_body :: body_value

text \<open>\<open>http.Cookie\<close>, its fields that the code reads; \<open>hc_sameSite\<close> is the constant of type \<open>http.SameSite\<close>.\<close>

record httpCookie =
  hc_name :: string
  hc_value :: string
  hc_quoted :: bool
  hc_path :: string
  hc_httpOnly :: bool
  hc_secure :: bool
  hc_sameSite :: int
  hc_maxAge :: int

type_synonym cookieJar = "httpCookie gomap"

definition newCookieJar :: cookieJar where
  "newCookieJar = []"

text \<open>\<open>http.Request\<close> as it is built; the body is read by the handler.\<close>

record httpRequest =
  hr_method :: string
  hr_url :: string
  hr_host :: string
  hr_header :: "string list gomap"
  hr_body :: string

text \<open>
  What is left in the recorder when the handler is done: the status, the headers of the recorder,
  the headers that were sent, which are frozen by the first write, the body.
\<close>

record recorded =
  rc_code :: int
  rc_header :: "string list gomap"
  rc_sentHeader :: "string list gomap"
  rc_body :: string

record url =
  ur_scheme :: string
  ur_host :: string
  ur_path :: string
  ur_rawQuery :: string
  ur_fragment :: string
  ur_rawFragment :: string
  ur_others :: string \<comment> \<open>the fields the code copies\<close>

record 'w http_runtime =
  rt_parseURL :: "string \<Rightarrow> url result"
  rt_urlString :: "url \<Rightarrow> string"
  rt_newRequest :: "string \<Rightarrow> string \<Rightarrow> string result" \<comment> \<open>method, URL; the host of the request\<close>
  rt_equalFold :: "string \<Rightarrow> string \<Rightarrow> bool"
  rt_order :: "string gomap \<Rightarrow> (string \<times> string) list" \<comment> \<open>the order of a \<open>range\<close> over a map\<close>
  rt_setCookies :: "string list gomap \<Rightarrow> httpCookie list" \<comment> \<open>\<open>Response.Cookies\<close>\<close>
  rt_f64 :: float64_text

text \<open>A hook gets the request, the status, the headers sent and the body; \<^const>\<open>None\<close>: not handled.\<close>

type_synonym 'w bodyNormalizer =
  "requestSpec \<Rightarrow> int \<Rightarrow> string list gomap \<Rightarrow> string \<Rightarrow> 'w \<Rightarrow> 'w \<times> body_value option result"

record 'w callHandlerConfig =
  cc_baseURL :: string
  cc_bodyNormalizer :: "'w bodyNormalizer option"

type_synonym 'w callOption = "'w callHandlerConfig \<Rightarrow> 'w callHandlerConfig"

definition withBaseURL :: "string \<Rightarrow> 'w callOption" where
  "withBaseURL rawURL config = config\<lparr>cc_baseURL := trim_space rawURL\<rparr>"

definition withBodyNormalizer :: "'w bodyNormalizer option \<Rightarrow> 'w callOption" where
  "withBodyNormalizer normalizer config = config\<lparr>cc_bodyNormalizer := normalizer\<rparr>"

definition newCallHandler :: "'w callOption list \<Rightarrow> 'w callHandlerConfig" where
  "newCallHandler options =
     (let config = fold (\<lambda>option config. option config) options
            \<lparr>cc_baseURL = defaultBaseURL, cc_bodyNormalizer = None\<rparr>
      in if cc_baseURL config = [] then config\<lparr>cc_baseURL := defaultBaseURL\<rparr> else config)"

section \<open>Decoding\<close>

definition zeroRequest :: requestSpec where
  "zeroRequest = \<lparr>rq_method = [], rq_path = [], rq_query = [], rq_headers = [], rq_body = [], rq_rawBody = None,
     rq_responseBody = [], rq_useCookies = False, rq_csrf = None, rq_captureHeaders = [], rq_captureCookies = []\<rparr>"

definition storeCSRF :: "csrfConfig \<Rightarrow> string \<Rightarrow> csrfConfig result" where
  "storeCSRF v raw =
     rbind (decode_struct [''cookie'', ''header''] raw) (\<lambda>ms.
     rbind (store_all store_string (csrf_cookie v) (field_values ms ''cookie'')) (\<lambda>c.
     rbind (store_all store_string (csrf_header v) (field_values ms ''header'')) (\<lambda>h.
     Inr \<lparr>csrf_cookie = c, csrf_header = h\<rparr>)))"

definition storeRequest :: "requestSpec \<Rightarrow> string \<Rightarrow> requestSpec result" where
  "storeRequest v raw =
     rbind (decode_struct [''method'', ''path'', ''query'', ''headers'', ''body'', ''raw_body'', ''response_body'',
              ''use_cookies'', ''csrf'', ''capture_headers'', ''capture_cookies''] raw) (\<lambda>ms.
     rbind (store_all store_string (rq_method v) (field_values ms ''method'')) (\<lambda>m.
     rbind (store_all store_string (rq_path v) (field_values ms ''path'')) (\<lambda>p.
     rbind (store_all store_string_map (rq_query v) (field_values ms ''query'')) (\<lambda>q.
     rbind (store_all store_string_map (rq_headers v) (field_values ms ''headers'')) (\<lambda>h.
     rbind (store_all store_raw (rq_body v) (field_values ms ''body'')) (\<lambda>b.
     rbind (store_all (store_ptr store_string []) (rq_rawBody v) (field_values ms ''raw_body'')) (\<lambda>rb.
     rbind (store_all store_raw (rq_responseBody v) (field_values ms ''response_body'')) (\<lambda>resp.
     rbind (store_all store_bool (rq_useCookies v) (field_values ms ''use_cookies'')) (\<lambda>uc.
     rbind (store_all (store_ptr storeCSRF \<lparr>csrf_cookie = [], csrf_header = []\<rparr>) (rq_csrf v) (field_values ms ''csrf'')) (\<lambda>cs.
     rbind (store_all (store_slice store_string []) (rq_captureHeaders v) (field_values ms ''capture_headers'')) (\<lambda>ch.
     rbind (store_all (store_slice store_string []) (rq_captureCookies v) (field_values ms ''capture_cookies'')) (\<lambda>cc.
     Inr \<lparr>rq_method = m, rq_path = p, rq_query = q, rq_headers = h, rq_body = b, rq_rawBody = rb,
       rq_responseBody = resp, rq_useCookies = uc, rq_csrf = cs, rq_captureHeaders = ch, rq_captureCookies = cc\<rparr>))))))))))))"

definition zeroCookie :: cookie where
  "zeroCookie = \<lparr>co_value = [], co_path = [], co_httpOnly = False, co_secure = False, co_sameSite = [], co_maxAge = 0\<rparr>"

definition storeCookie :: "cookie \<Rightarrow> string \<Rightarrow> cookie result" where
  "storeCookie v raw =
     rbind (decode_struct [''value'', ''path'', ''http_only'', ''secure'', ''same_site'', ''max_age''] raw) (\<lambda>ms.
     rbind (store_all store_string (co_value v) (field_values ms ''value'')) (\<lambda>val.
     rbind (store_all store_string (co_path v) (field_values ms ''path'')) (\<lambda>p.
     rbind (store_all store_bool (co_httpOnly v) (field_values ms ''http_only'')) (\<lambda>h.
     rbind (store_all store_bool (co_secure v) (field_values ms ''secure'')) (\<lambda>s.
     rbind (store_all store_string (co_sameSite v) (field_values ms ''same_site'')) (\<lambda>ss.
     rbind (store_all store_int (co_maxAge v) (field_values ms ''max_age'')) (\<lambda>ma.
     Inr \<lparr>co_value = val, co_path = p, co_httpOnly = h, co_secure = s, co_sameSite = ss, co_maxAge = ma\<rparr>)))))))"

definition storeBody :: "float64_text \<Rightarrow> body_value \<Rightarrow> string \<Rightarrow> body_value result" where
  "storeBody f64 v raw = rbind (storeAny f64 JNull raw) (\<lambda>j. Inr (DecodedBody j))"

definition zeroResponse :: response where
  "zeroResponse = \<lparr>rs_status = 0, rs_headers = [], rs_cookies = [], rs_body = DecodedBody JNull\<rparr>"

definition storeResponse :: "float64_text \<Rightarrow> response \<Rightarrow> string \<Rightarrow> response result" where
  "storeResponse f64 v raw =
     rbind (decode_struct [''status'', ''headers'', ''cookies'', ''body''] raw) (\<lambda>ms.
     rbind (store_all store_int (rs_status v) (field_values ms ''status'')) (\<lambda>st.
     rbind (store_all (store_map (store_slice store_string []) []) (rs_headers v) (field_values ms ''headers'')) (\<lambda>h.
     rbind (store_all (store_map storeCookie zeroCookie) (rs_cookies v) (field_values ms ''cookies'')) (\<lambda>c.
     rbind (store_all (storeBody f64) (rs_body v) (field_values ms ''body'')) (\<lambda>b.
     Inr \<lparr>rs_status = st, rs_headers = h, rs_cookies = c, rs_body = b\<rparr>)))))"

definition callDecodeRequest :: "string \<Rightarrow> requestSpec result" where
  "callDecodeRequest raw =
     map_err (\<lambda>e. Errorf ''decode HTTP request: %w'' [AErr e]) (decodeStrictJSON storeRequest zeroRequest raw)"

definition callDecodeExpectedResponse :: "float64_text \<Rightarrow> string \<Rightarrow> response result" where
  "callDecodeExpectedResponse f64 raw =
     map_err (\<lambda>e. Errorf ''decode HTTP response: %w'' [AErr e]) (decodeStrictJSON (storeResponse f64) zeroResponse raw)"

section \<open>The cookie jar\<close>

definition validCookieValueByte :: "char \<Rightarrow> bool" where
  "validCookieValueByte c \<longleftrightarrow> (32 :: nat) \<le> of_char c \<and> of_char c < (127 :: nat) \<and>
     c \<noteq> CHR 0x22 \<and> c \<noteq> CHR '';'' \<and> c \<noteq> CHR 0x5C"

definition sanitizeCookieName :: "string \<Rightarrow> string" where
  "sanitizeCookieName s = map (\<lambda>c. if c = CHR 0x0A \<or> c = CHR 0x0D then CHR ''-'' else c) s"

definition sanitizeCookieValue :: "string \<Rightarrow> bool \<Rightarrow> string" where
  "sanitizeCookieValue s quoted =
     (let v = filter validCookieValueByte s in
      if v = [] then v
      else if CHR '' '' \<in> set v \<or> CHR '','' \<in> set v \<or> quoted then CHR 0x22 # v @ [CHR 0x22]
      else v)"

definition headerSet :: "string \<Rightarrow> string \<Rightarrow> httpRequest \<Rightarrow> httpRequest" where
  "headerSet name v q = q\<lparr>hr_header := mput (canonicalHeaderKey name) [v] (hr_header q)\<rparr>"

definition headerGet :: "string list gomap \<Rightarrow> string \<Rightarrow> string" where
  "headerGet header name =
     (case mget header (canonicalHeaderKey name) of Some (v # _) \<Rightarrow> v | _ \<Rightarrow> [])"

text \<open>\<open>Request.AddCookie\<close>\<close>

definition addCookie :: "httpCookie \<Rightarrow> httpRequest \<Rightarrow> httpRequest" where
  "addCookie c q =
     (let s = sanitizeCookieName (hc_name c) @ ''='' @ sanitizeCookieValue (hc_value c) (hc_quoted c);
          present = headerGet (hr_header q) ''Cookie''
      in headerSet ''Cookie'' (if present \<noteq> [] then present @ ''; '' @ s else s) q)"

text \<open>The names of a map are sorted already, see \<^const>\<open>mkeys\<close>.\<close>

definition attach :: "cookieJar \<Rightarrow> httpRequest \<Rightarrow> httpRequest" where
  "attach jar request =
     fold (\<lambda>name q. case mget jar name of Some c \<Rightarrow> addCookie c q | None \<Rightarrow> q) (sort (mkeys jar)) request"

definition cookieValue :: "cookieJar \<Rightarrow> string \<Rightarrow> string option" where
  "cookieValue jar name = (case mget jar name of None \<Rightarrow> None | Some cookie \<Rightarrow> Some (hc_value cookie))"

fun storeCookies :: "cookieJar \<Rightarrow> httpCookie list \<Rightarrow> cookieJar" where
  "storeCookies jar [] = jar"
| "storeCookies jar (cookie # cookies) =
     storeCookies (if hc_maxAge cookie < 0 then mdel (hc_name cookie) jar else mput (hc_name cookie) cookie jar) cookies"

section \<open>The request\<close>

definition buildRequestBody :: "requestSpec \<Rightarrow> string result" where
  "buildRequestBody request =
     (if 0 < length (rq_body request) \<and> rq_rawBody request \<noteq> None then
        Inl (Err ''body and raw_body are mutually exclusive'')
      else case rq_rawBody request of Some raw \<Rightarrow> Inr raw | None \<Rightarrow> Inr (rq_body request))"

text \<open>\<open>url.QueryEscape\<close> and \<open>Values.Encode\<close>, for values with one entry each.\<close>

definition hex_upper :: "nat \<Rightarrow> char" where
  "hex_upper n = char_of (if n < 10 then 48 + n else 55 + n)"

definition query_char :: "char \<Rightarrow> bool" where
  "query_char c \<longleftrightarrow> is_digit c \<or> is_lower c \<or> is_upper c \<or> c \<in> {CHR ''-'', CHR ''_'', CHR ''.'', CHR ''~''}"

fun query_escape :: "string \<Rightarrow> string" where
  "query_escape [] = []"
| "query_escape (c # s) =
     (if query_char c then c # query_escape s
      else if c = CHR '' '' then CHR ''+'' # query_escape s
      else CHR ''%'' # hex_upper (of_char c div 16) # hex_upper (of_char c mod 16) # query_escape s)"

definition encode_query :: "string gomap \<Rightarrow> string" where
  "encode_query values =
     join_with ''&'' (map (\<lambda>(k, v). query_escape k @ ''='' @ query_escape v) values)"

definition buildRequestURL :: "'w http_runtime \<Rightarrow> string \<Rightarrow> string \<Rightarrow> string gomap \<Rightarrow> string result" where
  "buildRequestURL rt baseURL path query =
     (case rt_parseURL rt baseURL of
        Inl e \<Rightarrow> Inl (Errorf ''parse base URL: %w'' [AErr e])
      | Inr parsedBaseURL \<Rightarrow>
          if ur_scheme parsedBaseURL = [] \<or> ur_host parsedBaseURL = [] then
            Inl (Errorf ''base URL must include scheme and host: %q'' [AStr baseURL])
          else
            let queryValues = mcopy [] query;
                requestURL = parsedBaseURL\<lparr>ur_path := path, ur_rawQuery := encode_query queryValues,
                  ur_fragment := [], ur_rawFragment := []\<rparr>
            in Inr (rt_urlString rt requestURL))"

fun setHeaders :: "'w http_runtime \<Rightarrow> (string \<times> string) list \<Rightarrow> httpRequest \<Rightarrow> httpRequest" where
  "setHeaders rt [] q = q"
| "setHeaders rt ((name, v) # hs) q =
     setHeaders rt hs (if rt_equalFold rt name ''Host'' then q\<lparr>hr_host := v\<rparr> else headerSet name v q)"

definition buildHTTPRequest :: "'w http_runtime \<Rightarrow> string \<Rightarrow> requestSpec \<Rightarrow> httpRequest result" where
  "buildHTTPRequest rt baseURL request =
     (let method = trim_space (rq_method request) in
      if method = [] then Inl (Err ''method is required'')
      else if list_ex (\<lambda>c. c \<in> {CHR '' '', CHR 0x09, CHR 0x0D, CHR 0x0A}) method then
        Inl (Errorf ''method must be an HTTP token without whitespace: %q'' [AStr (rq_method request)])
      else let path = trim_space (rq_path request) in
      if path = [] then Inl (Err ''path is required'')
      else if \<not> has_prefix path ''/'' then Inl (Errorf ''path must start with /: %q'' [AStr (rq_path request)])
      else if contains_str path ''?'' then Inl (Err ''path must not contain query string; use query field'')
      else
        rbind (buildRequestBody request) (\<lambda>requestBody.
        rbind (buildRequestURL rt baseURL path (rq_query request)) (\<lambda>requestURL.
        case rt_newRequest rt method requestURL of
          Inl e \<Rightarrow> Inl (Errorf ''build HTTP request: %w'' [AErr e])
        | Inr host \<Rightarrow>
            Inr (setHeaders rt (rt_order rt (rq_headers request))
                   \<lparr>hr_method = method, hr_url = requestURL, hr_host = host, hr_header = [], hr_body = requestBody\<rparr>))))"

definition hasManualHeader :: "'w http_runtime \<Rightarrow> string gomap \<Rightarrow> string \<Rightarrow> bool" where
  "hasManualHeader rt headers headerName \<longleftrightarrow>
     list_ex (\<lambda>(name, _). rt_equalFold rt (trim_space name) headerName) headers"

definition applyCSRFHeader ::
    "'w http_runtime \<Rightarrow> httpRequest \<Rightarrow> requestSpec \<Rightarrow> cookieJar option \<Rightarrow> httpRequest result" where
  "applyCSRFHeader rt httpRequest request jar =
     (case rq_csrf request of
        None \<Rightarrow> Inr httpRequest
      | Some csrf \<Rightarrow>
          let cookieName = trim_space (csrf_cookie csrf) in
          if cookieName = [] then Inl (Err ''csrf.cookie is required'')
          else let headerName = trim_space (csrf_header csrf) in
          if headerName = [] then Inl (Err ''csrf.header is required'')
          else if hasManualHeader rt (rq_headers request) headerName then
            Inl (Errorf ''csrf header %q is already set in request headers'' [AStr headerName])
          else case jar of
            None \<Rightarrow> Inl (Err ''csrf requires harness method HTTPCookieJar() *httpserver.CookieJar'')
          | Some jar \<Rightarrow>
              (case cookieValue jar cookieName of
                 None \<Rightarrow> Inl (Errorf ''csrf cookie %q is not available in HTTPCookieJar'' [AStr cookieName])
               | Some v \<Rightarrow> Inr (headerSet headerName v httpRequest)))"

section \<open>The response\<close>

definition sameSiteString :: "int \<Rightarrow> string" where
  "sameSiteString sameSite =
     (if sameSite = 1 then ''Default'' else if sameSite = 2 then ''Lax''
      else if sameSite = 3 then ''Strict'' else if sameSite = 4 then ''None'' else ''Default'')"

definition normalizeHTTPCookie :: "httpCookie \<Rightarrow> cookie" where
  "normalizeHTTPCookie c = \<lparr>co_value = hc_value c, co_path = hc_path c, co_httpOnly = hc_httpOnly c,
     co_secure = hc_secure c, co_sameSite = sameSiteString (hc_sameSite c), co_maxAge = hc_maxAge c\<rparr>"

text \<open>\<^const>\<open>None\<close> stands for the result that is not present.\<close>

definition decodeHTTPResponseBody :: "float64_text \<Rightarrow> string \<Rightarrow> string \<Rightarrow> body_value option result" where
  "decodeHTTPResponseBody f64 rawBody contentType =
     (let trimmedBody = trim_space rawBody in
      if length trimmedBody = 0 then Inr None
      else if \<not> contains_str (map to_lower contentType) ''json'' then Inr (Some (DecodedBody (JStr trimmedBody)))
      else case json_decode trimmedBody of
        Inl _ \<Rightarrow> Inl (Errorf ''decode JSON HTTP response: %w'' [AErr decodeErr])
      | Inr (j, rest) \<Rightarrow>
          (case any_value f64 j of
             Inl e \<Rightarrow> Inl (Errorf ''decode JSON HTTP response: %w'' [AErr e])
           | Inr body \<Rightarrow>
               if json_decode rest \<noteq> Inl DecEOF then Inl (Err ''decode JSON HTTP response: trailing data'')
               else Inr (Some (DecodedBody body))))"

definition normalizeHTTPResponseBody ::
    "'w http_runtime \<Rightarrow> 'w bodyNormalizer option \<Rightarrow> requestSpec \<Rightarrow> recorded \<Rightarrow> 'w \<Rightarrow> 'w \<times> body_value option result" where
  "normalizeHTTPResponseBody rt normalizer request recorder w =
     (let decoded = decodeHTTPResponseBody (rt_f64 rt) (rc_body recorder) (headerGet (rc_header recorder) ''Content-Type'') in
      case normalizer of
        None \<Rightarrow> (w, decoded)
      | Some hook \<Rightarrow>
          (case hook request (rc_code recorder) (rc_sentHeader recorder) (rc_body recorder) w of
             (w', Inl e) \<Rightarrow> (w', Inl (Errorf ''normalize HTTP response body: %w'' [AErr e]))
           | (w', Inr (Some body)) \<Rightarrow> (w', Inr (Some body))
           | (w', Inr None) \<Rightarrow> (w', decoded)))"

definition captureHTTPHeaders :: "string list gomap \<Rightarrow> string list \<Rightarrow> string list gomap" where
  "captureHTTPHeaders header captureHeaders =
     foldl (\<lambda>headers headerName.
         let trimmedName = trim_space headerName in
         if trimmedName = [] then headers
         else mput trimmedName
                (case mget header (canonicalHeaderKey trimmedName) of None \<Rightarrow> [] | Some values \<Rightarrow> values) headers)
       [] captureHeaders"

definition captureHTTPCookies :: "httpCookie list \<Rightarrow> string list \<Rightarrow> cookie gomap" where
  "captureHTTPCookies cookies captureCookies =
     (let requested = filter (\<lambda>trimmedName. trimmedName \<noteq> []) (map trim_space captureCookies) in
      foldl (\<lambda>captured c. if hc_name c \<in> set requested then mput (hc_name c) (normalizeHTTPCookie c) captured else captured)
        [] cookies)"

text \<open>\<open>HTTPHandler\<close> returns the handler under test, or nil; \<open>jar\<close> is the jar of the case, or nil.\<close>

type_synonym 'w http_handler = "httpRequest \<Rightarrow> 'w \<Rightarrow> 'w \<times> recorded"

definition executeHTTPRequest ::
    "'w http_runtime \<Rightarrow> 'w http_handler option \<Rightarrow> cookieJar option \<Rightarrow> requestSpec \<Rightarrow> httpRequest \<Rightarrow>
       'w bodyNormalizer option \<Rightarrow> 'w \<Rightarrow> 'w \<times> cookieJar option \<times> response result" where
  "executeHTTPRequest rt httpHandler jar requestSpec request normalizer w =
     (case httpHandler of
        None \<Rightarrow> (w, jar, Inl (Err ''HTTPHandler returned nil''))
      | Some serve \<Rightarrow>
          let (w1, recorder) = serve request w;
              cookies = rt_setCookies rt (rc_sentHeader recorder);
              jar' = map_option (\<lambda>j. storeCookies j cookies) jar;
              (w2, body) = normalizeHTTPResponseBody rt normalizer requestSpec recorder w1
          in (w2, jar',
              rbind body (\<lambda>body.
              Inr \<lparr>rs_status = rc_code recorder,
                   rs_headers = captureHTTPHeaders (rc_header recorder) (rq_captureHeaders requestSpec),
                   rs_cookies = captureHTTPCookies cookies (rq_captureCookies requestSpec),
                   rs_body = (case body of None \<Rightarrow> DecodedBody JNull | Some v \<Rightarrow> v)\<rparr>)))"

section \<open>The handler\<close>

datatype http_value = RequestPtr requestSpec | ResponsePtr response | ResponseValue response | OtherHTTP string

fun http_type :: "http_value \<Rightarrow> string" where
  "http_type (RequestPtr _) = ''*httpserver.Request''"
| "http_type (ResponsePtr _) = ''*httpserver.Response''"
| "http_type (ResponseValue _) = ''httpserver.Response''"
| "http_type (OtherHTTP t) = t"

definition callInvoke ::
    "'w http_runtime \<Rightarrow> 'w callHandlerConfig \<Rightarrow> 'w http_handler option \<Rightarrow> cookieJar option \<Rightarrow> http_value \<Rightarrow> 'w \<Rightarrow>
       'w \<times> cookieJar option \<times> response result" where
  "callInvoke rt config httpHandler jar request w =
     (case request of
        RequestPtr typedRequest \<Rightarrow>
          (case buildHTTPRequest rt (cc_baseURL config) typedRequest of
             Inl e \<Rightarrow> (w, jar, Inl e)
           | Inr httpRequest \<Rightarrow>
               if rq_useCookies typedRequest \<and> jar = None then
                 (w, jar, Inl (Err ''use_cookies requires harness method HTTPCookieJar() *httpserver.CookieJar''))
               else
                 let attached = (case jar of
                       Some j \<Rightarrow> if rq_useCookies typedRequest then attach j httpRequest else httpRequest
                     | None \<Rightarrow> httpRequest)
                 in (case applyCSRFHeader rt attached typedRequest jar of
                       Inl e \<Rightarrow> (w, jar, Inl e)
                     | Inr final \<Rightarrow>
                         executeHTTPRequest rt httpHandler jar typedRequest final (cc_bodyNormalizer config) w))
      | _ \<Rightarrow> (w, jar, Inl (Errorf ''CallHTTP received invalid request type: %T'' [AStr (http_type request)])))"

text \<open>The maps a response is turned into.\<close>

datatype norm_value =
    NInt int
  | NStr string
  | NBool bool
  | NHeaders "string list gomap"
  | NCookies "norm_value gomap gomap"
  | NBody body_value

definition normalizeCookie :: "cookie \<Rightarrow> norm_value gomap" where
  "normalizeCookie c =
     (let cookieMap = mcopy [] [(valueKey, NStr (co_value c)), (pathKey, NStr (co_path c)),
            (httpOnlyKey, NBool (co_httpOnly c)), (secureKey, NBool (co_secure c)), (sameSiteKey, NStr (co_sameSite c))]
      in if co_maxAge c \<noteq> 0 then mput maxAgeKey (NInt (co_maxAge c)) cookieMap else cookieMap)"

definition normalizeCookiesForResponse :: "cookie gomap \<Rightarrow> norm_value gomap gomap" where
  "normalizeCookiesForResponse cookies = mvalmap normalizeCookie cookies"

definition normalizeTyped :: "response \<Rightarrow> norm_value gomap" where
  "normalizeTyped r =
     (let n1 = mput statusKey (NInt (rs_status r)) [];
          n2 = (if 0 < length (rs_headers r) then mput headersKey (NHeaders (rs_headers r)) n1 else n1);
          n3 = (if 0 < length (rs_cookies r) then mput cookiesKey (NCookies (normalizeCookiesForResponse (rs_cookies r))) n2
                else n2)
      in if rs_body r \<noteq> DecodedBody JNull then mput bodyKey (NBody (rs_body r)) n3 else n3)"

definition callNormalizeResponse :: "http_value \<Rightarrow> norm_value gomap result" where
  "callNormalizeResponse response =
     (case response of
        ResponsePtr r \<Rightarrow> Inr (normalizeTyped r)
      | ResponseValue r \<Rightarrow> Inr (normalizeTyped r)
      | _ \<Rightarrow> Inl (Errorf ''CallHTTP received invalid response type: %T'' [AStr (http_type response)]))"

section \<open>The registry\<close>

definition CallHTTPHandlerName :: string where "CallHTTPHandlerName = ''CallHTTP''"

datatype ('w, 'c) http_registered = CallHandler "'w callHandlerConfig" | CustomHandler 'c

definition newHttpRegistry :: "'c gomap \<Rightarrow> 'w callOption list \<Rightarrow> ('w, 'c) http_registered mapRegistry" where
  "newHttpRegistry customHandlers options =
     newMapRegistry (mcopy (mcopy [] [(CallHTTPHandlerName, CallHandler (newCallHandler options))])
       (map (\<lambda>(name, h). (name, CustomHandler h)) customHandlers))"

section \<open>The query arrives as it was written\<close>

lemma unhex_upper: "n < 16 \<Longrightarrow> unhex (hex_upper n) = Some n"
  by (auto simp: unhex_def hex_upper_def Let_def)

lemma query_char_plain: "query_char c \<Longrightarrow> c \<noteq> CHR ''%'' \<and> c \<noteq> CHR ''+''"
  by (auto simp: query_char_def is_digit_def is_lower_def is_upper_def)

lemma query_unescape_escape [simp]: "query_unescape (query_escape s) = Some s"
proof (induction s)
  case (Cons c s)
  have n: "of_char c < (256 :: nat)" by (rule nat_of_char_less_256)
  have "unhex (hex_upper (of_char c div 16)) = Some (of_char c div 16)" by (rule unhex_upper, rule less_mult_imp_div_less) (use n in simp)
  moreover have "unhex (hex_upper (of_char c mod 16)) = Some (of_char c mod 16)" by (rule unhex_upper) simp
  moreover have "char_of (16 * (of_char c div 16) + of_char c mod 16 :: nat) = c" by simp
  ultimately show ?case using Cons query_char_plain [of c] by auto
qed simp

definition escaped_char :: "char \<Rightarrow> bool" where
  "escaped_char c \<longleftrightarrow> query_char c \<or> c = CHR ''+'' \<or> c = CHR ''%''"

lemma query_char_hex: "n < 16 \<Longrightarrow> query_char (hex_upper n)"
  by (auto simp: query_char_def hex_upper_def is_digit_def is_upper_def)

lemma query_escape_chars: "c \<in> set (query_escape s) \<Longrightarrow> escaped_char c"
proof (induction s)
  case (Cons d s)
  have n: "of_char d < (256 :: nat)" by (rule nat_of_char_less_256)
  have "query_char (hex_upper (of_char d div 16))" by (rule query_char_hex, rule less_mult_imp_div_less) (use n in simp)
  moreover have "query_char (hex_upper (of_char d mod 16))" by (rule query_char_hex) simp
  ultimately show ?case using Cons by (auto simp: escaped_char_def split: if_splits)
qed simp

lemma escaped_not_special: "escaped_char c \<Longrightarrow> c \<noteq> CHR ''&'' \<and> c \<noteq> CHR ''='' \<and> c \<noteq> CHR '';''"
  by (auto simp: escaped_char_def query_char_def is_digit_def is_lower_def is_upper_def)

lemma query_escape_free: "CHR ''&'' \<notin> set (query_escape s)" "CHR ''='' \<notin> set (query_escape s)" "CHR '';'' \<notin> set (query_escape s)"
  using query_escape_chars escaped_not_special by blast+

definition query_pair :: "string \<times> string \<Rightarrow> string" where
  "query_pair e = query_escape (fst e) @ ''='' @ query_escape (snd e)"

lemma parse_query_pair: "parse_pair (query_pair e) = Some e"
proof -
  have "c \<noteq> CHR ''=''" if "c \<in> set (query_escape (fst e))" for c
    using that query_escape_free(2) by blast
  then have "cut_at (CHR ''='') (query_pair e) = (query_escape (fst e), query_escape (snd e))"
    by (simp add: cut_at_def query_pair_def takeWhile_append2 dropWhile_append2)
  then show ?thesis by (simp add: parse_pair_def)
qed

lemma fold_add_value:
  "wf_map q \<Longrightarrow> distinct (map fst m @ map fst q) \<Longrightarrow> wf_map m \<Longrightarrow>
     mget (foldl add_value m q) k = (case mget q k of Some v \<Rightarrow> Some [v] | None \<Rightarrow> mget m k)"
proof (induction q arbitrary: m)
  case (Cons e q)
  have fresh: "mget m (fst e) = None" using Cons.prems(2) by (auto simp: mget_None_iff mkeys_def)
  then have m: "add_value m e = mput (fst e) [snd e] m" by (simp add: add_value_def)
  have "distinct (map fst (mput (fst e) [snd e] m) @ map fst q)"
    using Cons.prems set_mput [of "fst e" "[snd e]" m] wf_map_distinct [of "mput (fst e) [snd e] m"]
    by (simp del: set_map)
  then have "mget (foldl add_value (add_value m e) q) k =
      (case mget q k of Some v \<Rightarrow> Some [v] | None \<Rightarrow> mget (add_value m e) k)"
    using Cons.IH [of "add_value m e"] Cons.prems m by simp
  moreover have "mget q k = None" if "k = fst e"
    using Cons.prems(2) that by (auto simp: mget_None_iff mkeys_def)
  ultimately show ?case using m Cons.prems(3) by (auto simp: mget_Cons split: option.splits)
qed simp

lemma query_roundtrip_aux:
  assumes "wf_map q"
  shows "parse_query (encode_query q) = Some (mvalmap (\<lambda>v. [v]) q)"
proof -
  have enc: "encode_query q = join_with ''&'' (map query_pair q)"
    unfolding encode_query_def by (rule arg_cong [of _ _ "join_with _"]) (simp add: query_pair_def case_prod_beta)
  have free: "CHR ''&'' \<notin> set p \<and> CHR '';'' \<notin> set p \<and> p \<noteq> []" if "p \<in> set (map query_pair q)" for p
    using that query_escape_free by (auto simp: query_pair_def)
  have ps: "filter (\<lambda>p. p \<noteq> []) (split_on (CHR ''&'') (encode_query q)) = map query_pair q"
  proof (cases q)
    case (Cons e q')
    then have "split_on (CHR ''&'') (join_with ''&'' (map query_pair q)) = map query_pair q"
      by (intro split_on_join) (use free in auto)
    then show ?thesis using free by (simp add: enc)
  qed (simp add: encode_query_def)
  have "\<not> list_ex (\<lambda>p. CHR '';'' \<in> set p \<or> parse_pair p = None) (map query_pair q)"
    using free parse_query_pair by (auto simp: list_ex_iff)
  then have "parse_query (encode_query q) = Some (foldl add_value [] q)"
    unfolding parse_query_def Let_def ps by (simp add: foldl_map parse_query_pair)
  moreover have "foldl add_value [] q = mvalmap (\<lambda>v. [v]) q"
  proof (rule wf_map_ext)
    have "wf_map m \<Longrightarrow> wf_map (foldl add_value m q)" for m by (induction q arbitrary: m) (auto simp: wf_add_value)
    then show "wf_map (foldl add_value [] q)" by simp
    show "wf_map (mvalmap (\<lambda>v. [v]) q)" using assms by simp
    show "mget (foldl add_value [] q) k = mget (mvalmap (\<lambda>v. [v]) q) k" for k
      using fold_add_value [OF assms, of "[]" k] wf_map_distinct [OF assms] by (simp split: option.splits)
  qed
  ultimately show ?thesis by simp
qed

section \<open>The jar\<close>

definition jar_ok :: "cookieJar \<Rightarrow> bool" where
  "jar_ok jar \<longleftrightarrow> wf_map jar \<and> list_all (\<lambda>e. hc_name (snd e) = fst e \<and> 0 \<le> hc_maxAge (snd e)) jar"

lemma jar_ok_put: "jar_ok jar \<Longrightarrow> 0 \<le> hc_maxAge c \<Longrightarrow> jar_ok (mput (hc_name c) c jar)"
  by (simp add: jar_ok_def list_all_mput)

lemma jar_ok_del: "jar_ok jar \<Longrightarrow> jar_ok (mdel n jar)"
  by (auto simp: jar_ok_def mdel_def list_all_iff wf_mdel [unfolded mdel_def])

lemma storeCookies_ok: "jar_ok jar \<Longrightarrow> jar_ok (storeCookies jar cs)"
  by (induction jar cs rule: storeCookies.induct) (auto simp: jar_ok_put jar_ok_del)

lemma storeCookies_append: "storeCookies jar (cs @ ds) = storeCookies (storeCookies jar cs) ds"
  by (induction jar cs rule: storeCookies.induct) simp_all

lemma mget_storeCookies:
  "wf_map jar \<Longrightarrow> mget (storeCookies jar cs) n =
     (case find (\<lambda>c. hc_name c = n) (rev cs) of
        None \<Rightarrow> mget jar n
      | Some c \<Rightarrow> if hc_maxAge c < 0 then None else Some c)"
proof (induction cs rule: rev_induct)
  case (snoc c cs)
  have "wf_map jar' \<Longrightarrow> wf_map (storeCookies jar' cs)" for jar' by (induction jar' cs rule: storeCookies.induct) auto
  then have "wf_map (storeCookies jar cs)" using snoc.prems .
  then show ?case using snoc by (simp add: storeCookies_append mget_mdel)
qed simp

section \<open>The headers of the request\<close>

lemma cookie_key [simp]: "canonicalHeaderKey ''Cookie'' = ''Cookie''"
  by code_simp

lemma headerSet_wf: "wf_map (hr_header q) \<Longrightarrow> wf_map (hr_header (headerSet n v q))"
  by (simp add: headerSet_def)

lemma headerSet_get:
  "wf_map (hr_header q) \<Longrightarrow>
     mget (hr_header (headerSet n v q)) k = (if k = canonicalHeaderKey n then Some [v] else mget (hr_header q) k)"
  by (simp add: headerSet_def)

definition same_request :: "httpRequest \<Rightarrow> httpRequest \<Rightarrow> bool" where
  "same_request p q \<longleftrightarrow> hr_method p = hr_method q \<and> hr_url p = hr_url q \<and> hr_body p = hr_body q"

lemma same_request_simps [simp]:
  "same_request (headerSet n v q) r = same_request q r" "same_request (q\<lparr>hr_host := h\<rparr>) r = same_request q r"
  "same_request q q"
  by (simp_all add: same_request_def headerSet_def)

lemma setHeaders_same: "same_request (setHeaders rt hs q) r = same_request q r"
  by (induction rt hs q rule: setHeaders.induct) simp_all

lemma setHeaders_wf: "wf_map (hr_header q) \<Longrightarrow> wf_map (hr_header (setHeaders rt hs q))"
  by (induction rt hs q rule: setHeaders.induct) (simp_all add: headerSet_wf)

lemma setHeaders_get:
  assumes "wf_map (hr_header q)" "\<not> rt_equalFold rt name ''Host''"
    and "\<forall>e \<in> set hs. canonicalHeaderKey (fst e) = canonicalHeaderKey name \<longrightarrow> e = (name, v)"
    and "(name, v) \<in> set hs \<or> mget (hr_header q) (canonicalHeaderKey name) = Some [v]"
  shows "mget (hr_header (setHeaders rt hs q)) (canonicalHeaderKey name) = Some [v]"
  using assms
proof (induction rt hs q rule: setHeaders.induct)
  case (2 rt n x hs q)
  let ?q = "if rt_equalFold rt n ''Host'' then q\<lparr>hr_host := x\<rparr> else headerSet n x q"
  have wf: "wf_map (hr_header ?q)" using 2(2) by (simp add: headerSet_wf)
  have same: "n = name \<and> x = v" if "canonicalHeaderKey n = canonicalHeaderKey name" using 2(4) that by simp
  have "(name, v) \<in> set hs \<or> mget (hr_header ?q) (canonicalHeaderKey name) = Some [v]"
  proof (cases "canonicalHeaderKey n = canonicalHeaderKey name")
    case True
    then have "\<not> rt_equalFold rt n ''Host''" "x = v" using same 2(3) by auto
    then show ?thesis using 2(2) True by (simp add: headerSet_get)
  next
    case False
    then have "(name, v) \<in> set hs \<or> mget (hr_header q) (canonicalHeaderKey name) = Some [v]" using 2(5) by auto
    then show ?thesis using False 2(2) by (simp add: headerSet_get)
  qed
  then have "mget (hr_header (setHeaders rt hs ?q)) (canonicalHeaderKey name) = Some [v]"
    using 2(1) [OF wf 2(3)] 2(4) by simp
  then show ?case by simp
qed simp

section \<open>Attached cookies\<close>

definition render_cookie :: "httpCookie \<Rightarrow> string" where
  "render_cookie c = sanitizeCookieName (hc_name c) @ ''='' @ sanitizeCookieValue (hc_value c) (hc_quoted c)"

lemma render_cookie_not_Nil [simp]: "render_cookie c \<noteq> []"
  by (simp add: render_cookie_def)

definition present_parts :: "string \<Rightarrow> string list" where
  "present_parts p = (if p = [] then [] else [p])"

lemma join_with_first: "join_with sep (join_with sep [p, r] # ps) = join_with sep (p # r # ps)"
  by (cases ps) simp_all

lemma addCookie_get:
  "wf_map (hr_header q) \<Longrightarrow>
     headerGet (hr_header (addCookie c q)) ''Cookie'' =
       join_with ''; '' (present_parts (headerGet (hr_header q) ''Cookie'') @ [render_cookie c])"
  by (simp add: addCookie_def headerGet_def headerSet_get render_cookie_def present_parts_def Let_def)

lemma addCookie_wf: "wf_map (hr_header q) \<Longrightarrow> wf_map (hr_header (addCookie c q))"
  by (simp add: addCookie_def headerSet_wf Let_def)

lemma addCookies_get:
  "wf_map (hr_header q) \<Longrightarrow>
     headerGet (hr_header (fold addCookie cs q)) ''Cookie'' =
       join_with ''; '' (present_parts (headerGet (hr_header q) ''Cookie'') @ map render_cookie cs)"
proof (induction cs arbitrary: q)
  case Nil
  then show ?case by (simp add: present_parts_def)
next
  case (Cons c cs)
  let ?p = "headerGet (hr_header q) ''Cookie''"
  have new: "headerGet (hr_header (addCookie c q)) ''Cookie'' = join_with ''; '' (present_parts ?p @ [render_cookie c])"
    by (rule addCookie_get [OF Cons.prems])
  have "join_with ''; '' (present_parts ?p @ [render_cookie c]) \<noteq> []" by (simp add: present_parts_def)
  then have "headerGet (hr_header (fold addCookie cs (addCookie c q))) ''Cookie'' =
      join_with ''; '' (join_with ''; '' (present_parts ?p @ [render_cookie c]) # map render_cookie cs)"
    using Cons.IH [OF addCookie_wf [OF Cons.prems]] new by (simp add: present_parts_def)
  also have "\<dots> = join_with ''; '' (present_parts ?p @ map render_cookie (c # cs))"
    using join_with_first [of "''; ''" ?p "render_cookie c" "map render_cookie cs"] by (simp add: present_parts_def)
  finally show ?case by simp
qed

lemma fold_lookup:
  "wf_map m \<Longrightarrow> set ks \<subseteq> set (mkeys m) \<Longrightarrow>
     fold (\<lambda>name q. case mget m name of Some c \<Rightarrow> f c q | None \<Rightarrow> q) ks q = fold f (map (\<lambda>k. the (mget m k)) ks) q"
proof (induction ks arbitrary: q)
  case (Cons k ks)
  then obtain c where "mget m k = Some c" using mget_None_iff [of m k] by auto
  with Cons show ?case by simp
qed simp

lemma map_the_mget: "wf_map m \<Longrightarrow> map (\<lambda>k. the (mget m k)) (mkeys m) = map snd m"
  by (rule nth_equalityI)
     (auto simp: mkeys_def nth_mem mget_Some_iff [THEN iffD2, of m "fst (m ! i)" "snd (m ! i)" for i])

lemma attach_cookies:
  assumes "wf_map jar"
  shows "attach jar q = fold addCookie (map snd jar) q"
  unfolding attach_def
  using mkeys_sorted [OF assms] fold_lookup [OF assms, of "mkeys jar" addCookie q] map_the_mget [OF assms]
  by (simp add: sorted_sort_id)

lemma addCookies_other:
  "wf_map (hr_header q) \<Longrightarrow> k \<noteq> ''Cookie'' \<Longrightarrow> mget (hr_header (fold addCookie cs q)) k = mget (hr_header q) k"
  by (induction cs arbitrary: q) (simp_all add: addCookie_wf, simp add: addCookie_def headerSet_get Let_def)

lemma addCookies_wf: "wf_map (hr_header q) \<Longrightarrow> wf_map (hr_header (fold addCookie cs q))"
  by (induction cs arbitrary: q) (simp_all add: addCookie_wf)

lemma addCookies_same: "same_request (fold addCookie cs q) r = same_request q r"
  by (induction cs arbitrary: q) (simp_all add: addCookie_def Let_def)

section \<open>A call\<close>

lemma buildHTTPRequest_ok:
  assumes "buildHTTPRequest rt baseURL spec = Inr q"
  shows "\<exists>url host. buildRequestURL rt baseURL (trim_space (rq_path spec)) (rq_query spec) = Inr url \<and>
    rt_newRequest rt (trim_space (rq_method spec)) url = Inr host \<and>
    (rq_body spec = [] \<or> rq_rawBody spec = None) \<and>
    q = setHeaders rt (rt_order rt (rq_headers spec))
      \<lparr>hr_method = trim_space (rq_method spec), hr_url = url, hr_host = host, hr_header = [],
       hr_body = (case rq_rawBody spec of Some raw \<Rightarrow> raw | None \<Rightarrow> rq_body spec)\<rparr>"
proof -
  obtain body url where b: "buildRequestBody spec = Inr body"
    and u: "buildRequestURL rt baseURL (trim_space (rq_path spec)) (rq_query spec) = Inr url"
    and q: "(case rt_newRequest rt (trim_space (rq_method spec)) url of
          Inl e \<Rightarrow> Inl (Errorf ''build HTTP request: %w'' [AErr e])
        | Inr host \<Rightarrow>
            Inr (setHeaders rt (rt_order rt (rq_headers spec))
                   \<lparr>hr_method = trim_space (rq_method spec), hr_url = url, hr_host = host, hr_header = [], hr_body = body\<rparr>)) = Inr q"
    using assms by (auto simp: buildHTTPRequest_def Let_def split: if_splits)
  have "body = (case rq_rawBody spec of Some raw \<Rightarrow> raw | None \<Rightarrow> rq_body spec) \<and> (rq_body spec = [] \<or> rq_rawBody spec = None)"
    using b by (auto simp: buildRequestBody_def split: if_splits option.splits)
  then show ?thesis using u q by (cases "rt_newRequest rt (trim_space (rq_method spec)) url") auto
qed

lemma applyCSRFHeader_ok:
  assumes "applyCSRFHeader rt q spec jar = Inr p"
  shows "rq_csrf spec = None \<and> p = q \<or>
    (\<exists>csrf j c. rq_csrf spec = Some csrf \<and> jar = Some j \<and> mget j (trim_space (csrf_cookie csrf)) = Some c \<and>
      \<not> hasManualHeader rt (rq_headers spec) (trim_space (csrf_header csrf)) \<and>
      p = headerSet (trim_space (csrf_header csrf)) (hc_value c) q)"
  using assms
  by (auto simp: applyCSRFHeader_def cookieValue_def Let_def split: option.splits if_splits)

lemma executeHTTPRequest_ok:
  assumes "executeHTTPRequest rt handler jar spec q hook w = (w', jar', Inr r)"
  shows "\<exists>serve w1 recorder body. handler = Some serve \<and> serve q w = (w1, recorder) \<and>
    normalizeHTTPResponseBody rt hook spec recorder w1 = (w', Inr body) \<and> (hook = None \<longrightarrow> w' = w1) \<and>
    jar' = map_option (\<lambda>j. storeCookies j (rt_setCookies rt (rc_sentHeader recorder))) jar \<and>
    rs_status r = rc_code recorder \<and> rs_body r = (case body of None \<Rightarrow> DecodedBody JNull | Some v \<Rightarrow> v)"
proof (cases handler)
  case (Some serve)
  obtain w1 recorder where s: "serve q w = (w1, recorder)" by fastforce
  obtain w2 body where n: "normalizeHTTPResponseBody rt hook spec recorder w1 = (w2, body)" by fastforce
  have "w2 = w1" if "hook = None" using n that by (auto simp: normalizeHTTPResponseBody_def Let_def split: if_splits sum.splits)
  then show ?thesis using assms Some s n by (cases body) (auto simp: executeHTTPRequest_def Let_def)
qed (use assms in \<open>simp add: executeHTTPRequest_def\<close>)

text \<open>The request the handler under test gets.\<close>

definition attached :: "requestSpec \<Rightarrow> cookieJar option \<Rightarrow> httpRequest \<Rightarrow> httpRequest" where
  "attached spec jar q =
     (case jar of Some j \<Rightarrow> if rq_useCookies spec then attach j q else q | None \<Rightarrow> q)"

lemma callInvoke_ok:
  assumes "callInvoke rt config handler jar (RequestPtr spec) w = (w', jar', Inr r)"
  shows "\<exists>q p. buildHTTPRequest rt (cc_baseURL config) spec = Inr q \<and>
    applyCSRFHeader rt (attached spec jar q) spec jar = Inr p \<and>
    executeHTTPRequest rt handler jar spec p (cc_bodyNormalizer config) w = (w', jar', Inr r)"
  using assms
  by (auto simp: callInvoke_def attached_def Let_def split: sum.splits if_splits)

lemma attached_wf: "wf_map (hr_header q) \<Longrightarrow> pred_option wf_map jar \<Longrightarrow> wf_map (hr_header (attached spec jar q))"
  by (auto simp: attached_def attach_cookies addCookies_wf split: option.splits)

lemma attached_other:
  "wf_map (hr_header q) \<Longrightarrow> pred_option wf_map jar \<Longrightarrow> k \<noteq> ''Cookie'' \<or> \<not> rq_useCookies spec \<Longrightarrow>
     mget (hr_header (attached spec jar q)) k = mget (hr_header q) k"
  by (auto simp: attached_def attach_cookies addCookies_other split: option.splits)

lemma attached_same: "pred_option wf_map jar \<Longrightarrow> same_request (attached spec jar q) r = same_request q r"
  by (auto simp: attached_def attach_cookies addCookies_same split: option.splits)

text \<open>What is documented of \<open>strings.EqualFold\<close>: it does not see the case of ASCII letters.\<close>

definition fold_contract :: "(string \<Rightarrow> string \<Rightarrow> bool) \<Rightarrow> bool" where
  "fold_contract eq \<longleftrightarrow> (\<forall>a b. canonicalHeaderKey a = canonicalHeaderKey b \<longrightarrow> eq a b)"

lemma manual_header_detected:
  assumes "fold_contract (rt_equalFold rt)" "(name, v) \<in> set headers"
    and "canonicalHeaderKey name = canonicalHeaderKey (trim_space h)"
  shows "hasManualHeader rt headers (trim_space h)"
proof -
  have "trim_space name = name"
  proof (cases "list_all token_char name")
    case False
    then have c: "canonicalHeaderKey name = name" by (auto simp: canonicalHeaderKey_def)
    show ?thesis
    proof (cases "list_all token_char (trim_space h)")
      case True
      then have "name = canonical_letters True (trim_space h)"
        using assms(3) c by (simp add: canonicalHeaderKey_def)
      then have "list_all token_char name" using canonical_letters_token [OF True] by simp
      then show ?thesis using False by simp
    next
      case False
      then have "name = trim_space h" using assms(3) c by (auto simp: canonicalHeaderKey_def)
      then show ?thesis by simp
    qed
  qed (rule token_not_space)
  then have "rt_equalFold rt (trim_space name) (trim_space h)" using assms(1,3) by (simp add: fold_contract_def)
  then show ?thesis using assms(2) by (auto simp: hasManualHeader_def list_ex_iff)
qed

section \<open>Properties\<close>

text \<open>A header of the fixture that is not the host, not shared with the cookies, and has its name to itself.\<close>

definition plain_header :: "'w http_runtime \<Rightarrow> requestSpec \<Rightarrow> string \<Rightarrow> string \<Rightarrow> bool" where
  "plain_header rt spec name v \<longleftrightarrow>
     (name, v) \<in> set (rq_headers spec) \<and> \<not> rt_equalFold rt name ''Host'' \<and>
     (canonicalHeaderKey name \<noteq> ''Cookie'' \<or> \<not> rq_useCookies spec) \<and>
     (\<forall>e \<in> set (rq_headers spec). canonicalHeaderKey (fst e) = canonicalHeaderKey name \<longrightarrow> e = (name, v))"

text \<open>
  C30: when a call succeeds, the handler under test was called exactly once, with the method, the URL and
  the body of the fixture: the world it left is the final one, or, with a body normaliser, the one the
  normaliser was called in.  Every header of the fixture that is not the host, not the \<open>Cookie\<close> header of a
  fixture with \<open>use_cookies\<close>, and not there twice under one canonical name (\<^const>\<open>plain_header\<close>) arrived
  unchanged; the CSRF header carries the value of its cookie; the jar took the cookies that were
  sent, and the response shows the status and the body that were recorded.
\<close>

theorem call_success:
  assumes call: "callInvoke rt config handler jar (RequestPtr spec) w = (w', jar', Inr r)"
    and fold: "fold_contract (rt_equalFold rt)" and jar: "pred_option wf_map jar"
    and order: "set (rt_order rt (rq_headers spec)) = set (rq_headers spec)"
  shows "\<exists>serve q w1 recorder. handler = Some serve \<and> serve q w = (w1, recorder) \<and>
    hr_method q = trim_space (rq_method spec) \<and>
    buildRequestURL rt (cc_baseURL config) (trim_space (rq_path spec)) (rq_query spec) = Inr (hr_url q) \<and>
    hr_body q = (case rq_rawBody spec of Some raw \<Rightarrow> raw | None \<Rightarrow> rq_body spec) \<and>
    (plain_header rt spec name v \<longrightarrow> mget (hr_header q) (canonicalHeaderKey name) = Some [v]) \<and>
    (\<forall>csrf. rq_csrf spec = Some csrf \<longrightarrow> (\<exists>j c. jar = Some j \<and> mget j (trim_space (csrf_cookie csrf)) = Some c \<and>
       mget (hr_header q) (canonicalHeaderKey (trim_space (csrf_header csrf))) = Some [hc_value c])) \<and>
    jar' = map_option (\<lambda>j. storeCookies j (rt_setCookies rt (rc_sentHeader recorder))) jar \<and>
    (cc_bodyNormalizer config = None \<longrightarrow> w' = w1) \<and>
    (\<exists>body. normalizeHTTPResponseBody rt (cc_bodyNormalizer config) spec recorder w1 = (w', Inr body) \<and>
       rs_status r = rc_code recorder \<and> rs_body r = (case body of None \<Rightarrow> DecodedBody JNull | Some v \<Rightarrow> v))"
proof -
  obtain q0 p where q0: "buildHTTPRequest rt (cc_baseURL config) spec = Inr q0"
    and p: "applyCSRFHeader rt (attached spec jar q0) spec jar = Inr p"
    and exec: "executeHTTPRequest rt handler jar spec p (cc_bodyNormalizer config) w = (w', jar', Inr r)"
    using callInvoke_ok [OF call] by blast
  obtain url host where url: "buildRequestURL rt (cc_baseURL config) (trim_space (rq_path spec)) (rq_query spec) = Inr url"
    and q0_def: "q0 = setHeaders rt (rt_order rt (rq_headers spec))
      \<lparr>hr_method = trim_space (rq_method spec), hr_url = url, hr_host = host, hr_header = [],
       hr_body = (case rq_rawBody spec of Some raw \<Rightarrow> raw | None \<Rightarrow> rq_body spec)\<rparr>" (is "_ = setHeaders rt _ ?bare")
    using buildHTTPRequest_ok [OF q0] by blast
  have wf0: "wf_map (hr_header q0)" unfolding q0_def by (rule setHeaders_wf) simp
  have wf: "wf_map (hr_header (attached spec jar q0))" by (rule attached_wf [OF wf0 jar])
  note cs = applyCSRFHeader_ok [OF p]
  have "same_request q0 ?bare" unfolding q0_def setHeaders_same by simp
  then have "same_request (attached spec jar q0) ?bare" by (simp add: attached_same [OF jar])
  then have same: "same_request p ?bare" using cs by auto
  have plain: "mget (hr_header p) (canonicalHeaderKey name) = Some [v]" if h: "plain_header rt spec name v"
  proof -
    have "mget (hr_header q0) (canonicalHeaderKey name) = Some [v]"
      unfolding q0_def by (rule setHeaders_get) (use h order in \<open>simp_all add: plain_header_def\<close>)
    then have a: "mget (hr_header (attached spec jar q0)) (canonicalHeaderKey name) = Some [v]"
      using attached_other [OF wf0 jar] h by (simp add: plain_header_def)
    from cs show ?thesis
    proof (elim disjE exE conjE)
      fix csrf j c
      assume no: "\<not> hasManualHeader rt (rq_headers spec) (trim_space (csrf_header csrf))"
        and p': "p = headerSet (trim_space (csrf_header csrf)) (hc_value c) (attached spec jar q0)"
      have "canonicalHeaderKey name \<noteq> canonicalHeaderKey (trim_space (csrf_header csrf))"
        using manual_header_detected [OF fold, of name v "rq_headers spec"] h no by (auto simp: plain_header_def)
      then show ?thesis using a by (simp add: p' headerSet_get [OF wf])
    qed (use a in simp)
  qed
  have csrf: "\<forall>csrf. rq_csrf spec = Some csrf \<longrightarrow> (\<exists>j c. jar = Some j \<and> mget j (trim_space (csrf_cookie csrf)) = Some c \<and>
       mget (hr_header p) (canonicalHeaderKey (trim_space (csrf_header csrf))) = Some [hc_value c])"
    using cs
  proof (elim disjE exE conjE)
    fix c0 j c
    assume "rq_csrf spec = Some c0" "jar = Some j" "mget j (trim_space (csrf_cookie c0)) = Some c"
      "p = headerSet (trim_space (csrf_header c0)) (hc_value c) (attached spec jar q0)"
    then show ?thesis using headerSet_get [OF wf] by simp
  qed simp
  have "hr_method p = trim_space (rq_method spec)" "hr_url p = url"
    "hr_body p = (case rq_rawBody spec of Some raw \<Rightarrow> raw | None \<Rightarrow> rq_body spec)"
    using same by (simp_all add: same_request_def)
  then show ?thesis
    using executeHTTPRequest_ok [OF exec] url plain csrf
    by (elim exE conjE) (intro exI conjI impI, assumption+, (simp | blast)+)
qed

text \<open>
  C31: the cookie jar after any sequence of responses: a name has the cookie that was set last, unless
  it was deleted by a negative age; attaching the jar writes one \<open>Cookie\<close> header with a manual value
  first and then all live cookies in the order of their names.
\<close>

theorem cookie_jar:
  assumes "wf_map (hr_header q)"
  shows "cookieValue (foldl storeCookies newCookieJar css) n =
      (case find (\<lambda>c. hc_name c = n) (rev (concat css)) of
         None \<Rightarrow> None | Some c \<Rightarrow> if hc_maxAge c < 0 then None else Some (hc_value c)) \<and>
    jar_ok (foldl storeCookies newCookieJar css) \<and>
    headerGet (hr_header (attach (foldl storeCookies newCookieJar css) q)) ''Cookie'' =
      join_with ''; '' (present_parts (headerGet (hr_header q) ''Cookie'') @
        map (\<lambda>e. render_cookie (snd e)) (foldl storeCookies newCookieJar css))"
proof -
  have flat: "foldl storeCookies jar css = storeCookies jar (concat css)" for jar
    by (induction css arbitrary: jar) (simp_all add: storeCookies_append)
  have ok: "jar_ok (foldl storeCookies newCookieJar css)"
    unfolding flat by (rule storeCookies_ok) (simp add: jar_ok_def newCookieJar_def)
  then have "wf_map (foldl storeCookies newCookieJar css)" by (simp add: jar_ok_def)
  then have att: "headerGet (hr_header (attach (foldl storeCookies newCookieJar css) q)) ''Cookie'' =
      join_with ''; '' (present_parts (headerGet (hr_header q) ''Cookie'') @
        map (\<lambda>e. render_cookie (snd e)) (foldl storeCookies newCookieJar css))"
    using addCookies_get [OF assms] by (simp add: attach_cookies comp_def)
  have "mget (foldl storeCookies newCookieJar css) n =
      (case find (\<lambda>c. hc_name c = n) (rev (concat css)) of
         None \<Rightarrow> None | Some c \<Rightarrow> if hc_maxAge c < 0 then None else Some c)"
    unfolding flat newCookieJar_def using mget_storeCookies [of "[]" "concat css" n] by (simp split: option.split)
  then show ?thesis using ok att by (simp add: cookieValue_def split: option.split)
qed

text \<open>
  The URL of a request keeps scheme and host of the base URL, has the path of the fixture and no
  fragment, and its query is read back as exactly the fields of the fixture, whatever characters
  they contain.
\<close>

theorem request_url_roundtrip:
  assumes "wf_map query" "rt_parseURL rt baseURL = Inr base" "ur_scheme base \<noteq> []" "ur_host base \<noteq> []"
  shows "\<exists>u. buildRequestURL rt baseURL path query = Inr (rt_urlString rt u) \<and>
    ur_scheme u = ur_scheme base \<and> ur_host u = ur_host base \<and> ur_path u = path \<and> ur_fragment u = [] \<and>
    parse_query (ur_rawQuery u) = Some (mvalmap (\<lambda>v. [v]) query)"
proof -
  let ?u = "base\<lparr>ur_path := path, ur_rawQuery := encode_query query, ur_fragment := [], ur_rawFragment := []\<rparr>"
  have "buildRequestURL rt baseURL path query = Inr (rt_urlString rt ?u)"
    using assms mcopy_self [OF assms(1)] by (simp add: buildRequestURL_def)
  then show ?thesis using query_roundtrip_aux [OF assms(1)] by (intro exI [of _ ?u]) simp
qed

text \<open>A run time without hooks, a base URL without a path, and a handler that answers with the token it got.\<close>

definition plain_url :: url where
  "plain_url = \<lparr>ur_scheme = ''http'', ur_host = ''h'', ur_path = [], ur_rawQuery = [], ur_fragment = [],
     ur_rawFragment = [], ur_others = []\<rparr>"

definition plain_runtime :: "unit http_runtime" where
  "plain_runtime = \<lparr>rt_parseURL = (\<lambda>s. Inr plain_url), rt_urlString = (\<lambda>u. ur_path u @ ''?'' @ ur_rawQuery u),
     rt_newRequest = (\<lambda>m u. Inr ''h''), rt_equalFold = (\<lambda>a b. map to_lower a = map to_lower b), rt_order = (\<lambda>m. m),
     rt_setCookies = (\<lambda>h. []), rt_f64 = (\<lambda>l. Inr l)\<rparr>"

definition echo_handler :: "unit http_handler" where
  "echo_handler q w = (w, \<lparr>rc_code = 200, rc_header = [], rc_sentHeader = [], rc_body = headerGet (hr_header q) ''X-Csrf''\<rparr>)"

definition session_cookie :: httpCookie where
  "session_cookie = \<lparr>hc_name = ''s'', hc_value = ''v'', hc_quoted = False, hc_path = ''/'', hc_httpOnly = True,
     hc_secure = False, hc_sameSite = 2, hc_maxAge = 0\<rparr>"

definition csrf_request :: requestSpec where
  "csrf_request = zeroRequest\<lparr>rq_method := ''GET'', rq_path := ''/p'', rq_headers := [(''x-a'', ''1'')],
     rq_useCookies := True, rq_csrf := Some \<lparr>csrf_cookie = ''s'', csrf_header = ''X-CSRF''\<rparr>\<rparr>"

lemma to_lower_upper: "to_lower (to_upper c) = to_lower c"
proof (cases "is_lower c")
  case True
  then have "of_char c - 32 < (256 :: nat)" "\<not> is_upper c" by (auto simp: is_lower_def is_upper_def)
  then show ?thesis using True by (auto simp: to_lower_def to_upper_def is_lower_def is_upper_def)
qed (simp add: to_upper_def)

lemma lower_canonical: "map to_lower (canonicalHeaderKey s) = map to_lower s"
proof -
  have "map to_lower (canonical_letters u s) = map to_lower s" for u
    by (induction s arbitrary: u) (simp_all add: to_lower_upper)
  then show ?thesis by (simp add: canonicalHeaderKey_def)
qed

lemma plain_fold: "fold_contract (rt_equalFold plain_runtime)"
proof -
  have eq: "rt_equalFold plain_runtime = (\<lambda>a b. map to_lower a = map to_lower b)" by (simp add: plain_runtime_def)
  show ?thesis
    unfolding fold_contract_def eq
  proof (intro allI impI)
    fix a b assume same: "canonicalHeaderKey a = canonicalHeaderKey b"
    have "map to_lower (canonicalHeaderKey a) = map to_lower (canonicalHeaderKey b)" by (simp only: same)
    then show "map to_lower a = map to_lower b" unfolding lower_canonical .
  qed
qed

definition csrf_response :: response where
  "csrf_response = zeroResponse\<lparr>rs_status := 200, rs_body := DecodedBody (JStr ''v'')\<rparr>"

lemma csrf_called:
  "callInvoke plain_runtime (newCallHandler []) (Some echo_handler) (Some [(''s'', session_cookie)]) (RequestPtr csrf_request) () =
     ((), Some [(''s'', session_cookie)], Inr csrf_response)"
  by code_simp

theorem call_success_witness:
  "\<exists>q. echo_handler q () = ((), \<lparr>rc_code = 200, rc_header = [], rc_sentHeader = [], rc_body = ''v''\<rparr>) \<and>
     mget (hr_header q) ''X-A'' = Some [''1''] \<and> mget (hr_header q) ''X-Csrf'' = Some [''v''] \<and> hr_method q = ''GET''"
proof -
  have o: "set (rt_order plain_runtime (rq_headers csrf_request)) = set (rq_headers csrf_request)"
    by (simp add: plain_runtime_def)
  have j: "pred_option wf_map (Some [(''s'', session_cookie)])" by simp
  have h: "plain_header plain_runtime csrf_request ''x-a'' ''1''" by code_simp
  have k: "canonicalHeaderKey ''x-a'' = ''X-A''" "canonicalHeaderKey (trim_space ''X-CSRF'') = ''X-Csrf''"
    "canonicalHeaderKey ''X-Csrf'' = ''X-Csrf''" "trim_space ''s'' = ''s''" "trim_space ''GET'' = ''GET''" by code_simp+
  obtain serve q w1 recorder where "Some echo_handler = Some serve" "serve q () = (w1, recorder)"
    "hr_method q = trim_space (rq_method csrf_request)"
    "plain_header plain_runtime csrf_request ''x-a'' ''1'' \<longrightarrow> mget (hr_header q) (canonicalHeaderKey ''x-a'') = Some [''1'']"
    "\<forall>csrf. rq_csrf csrf_request = Some csrf \<longrightarrow> (\<exists>j c. Some [(''s'', session_cookie)] = Some j \<and>
       mget j (trim_space (csrf_cookie csrf)) = Some c \<and>
       mget (hr_header q) (canonicalHeaderKey (trim_space (csrf_header csrf))) = Some [hc_value c])"
    using call_success [OF csrf_called plain_fold j o, of "''x-a''" "''1''"] by blast
  then show ?thesis
    using h k by (intro exI [of _ q]) (simp add: echo_handler_def headerGet_def csrf_request_def mget_Cons session_cookie_def)
qed

theorem cookie_jar_witness:
  "cookieValue (foldl storeCookies newCookieJar [[session_cookie], [session_cookie\<lparr>hc_value := ''x''\<rparr>]]) ''s'' = Some ''x''"
  using cookie_jar [of "\<lparr>hr_method = ''GET'', hr_url = ''/'', hr_host = ''h'', hr_header = [], hr_body = []\<rparr>"
      "[[session_cookie], [session_cookie\<lparr>hc_value := ''x''\<rparr>]]" "''s''"]
  by (simp add: session_cookie_def)

theorem request_url_roundtrip_witness:
  "\<exists>u. buildRequestURL plain_runtime ''b'' ''/p'' [(''a b'', ''1&2='')] = Inr (rt_urlString plain_runtime u) \<and>
     parse_query (ur_rawQuery u) = Some [(''a b'', [''1&2=''])]"
proof -
  have "wf_map [(''a b'', ''1&2='')]" by simp
  moreover have "rt_parseURL plain_runtime ''b'' = Inr plain_url" by (simp add: plain_runtime_def)
  ultimately show ?thesis
    using request_url_roundtrip [of "[(''a b'', ''1&2='')]" plain_runtime "''b''" plain_url "''/p''"]
    by (auto simp: plain_url_def mvalmap_def)
qed

end
