(* ===== verification/Grpc.thy ===== *)
theory Grpc
  imports CaseModel GoCalendar JsonPortable
begin

text \<open>
  Package \<open>grpc\<close>: status codes (\<open>codec.go\<close>), handler specs and their adapter (\<open>spec.go\<close>,
  \<open>json.go\<close>), the registry (\<open>registry.go\<close>), which is a second instance of the locale
  \<open>handler_registry\<close>, and the decoder that accepts dates as strings
  (\<open>json_google_date.go\<close>).  Protobuf messages are the values of a type \<open>'m\<close>; what the code asks of
  the protobuf and gRPC libraries are fields of records.
\<close>

section \<open>Status codes\<close>

text \<open>The constants of package \<open>codes\<close>; \<open>OtherCode\<close> is any other number a status may carry.\<close>

datatype grpc_code =
    OK | Canceled | Unknown | InvalidArgument | DeadlineExceeded | NotFound | AlreadyExists
  | PermissionDenied | ResourceExhausted | FailedPrecondition | Aborted | OutOfRange | Unimplemented
  | Internal | Unavailable | DataLoss | Unauthenticated | OtherCode nat

definition supportedGRPCCodes :: "grpc_code list" where
  "supportedGRPCCodes =
     [OK, Canceled, Unknown, InvalidArgument, DeadlineExceeded, NotFound, AlreadyExists, PermissionDenied,
      ResourceExhausted, FailedPrecondition, Aborted, OutOfRange, Unimplemented, Internal, Unavailable, DataLoss,
      Unauthenticated]"

text \<open>\<open>name\<close> is the method \<open>Code.String\<close>.\<close>

definition grpcCodeNames :: "(grpc_code \<Rightarrow> string) \<Rightarrow> string list" where
  "grpcCodeNames name = map name supportedGRPCCodes"

definition supportedCodeNames :: "(grpc_code \<Rightarrow> string) \<Rightarrow> string list" where
  "supportedCodeNames name = grpcCodeNames name"

text \<open>The loop of \<open>Parse\<close>; the code that is returned beside an error is not used by a caller.\<close>

fun parseLoop :: "(grpc_code \<Rightarrow> string) \<Rightarrow> string \<Rightarrow> grpc_code list \<Rightarrow> grpc_code result" where
  "parseLoop name raw [] = Inl (Errorf ''unsupported code: %q'' [AStr raw])"
| "parseLoop name raw (code # codes) = (if raw = name code then Inr code else parseLoop name raw codes)"

definition grpcStatusCodec :: "(grpc_code \<Rightarrow> string) \<Rightarrow> grpc_code statusCodec" where
  "grpcStatusCodec name = \<lparr>sc_parse = (\<lambda>raw. parseLoop name raw supportedGRPCCodes), sc_success = OK\<rparr>"

text \<open>\<open>fromStatus\<close> is \<open>status.FromError\<close> with the code and the message of the status, \<open>text\<close> is \<open>Error\<close>.\<close>

definition grpcErrorInspector :: "(err \<Rightarrow> string) \<Rightarrow> (err \<Rightarrow> (grpc_code \<times> string) option) \<Rightarrow> grpc_code errorInspector" where
  "grpcErrorInspector text fromStatus e =
     (if err_is contextCanceled e then Some (Canceled, text e)
      else if err_is contextDeadlineExceeded e then Some (DeadlineExceeded, text e)
      else case fromStatus e of None \<Rightarrow> None | Some (code, message) \<Rightarrow> Some (code, message))"

section \<open>Handler specs\<close>

text \<open>A value of type \<open>any\<close>: a protobuf message, or a value of another type, given by its name.\<close>

datatype 'm proto_value = ProtoMessage 'm | NoMessage string

text \<open>The functions of a spec, \<^const>\<open>None\<close> where they are nil; a decode hook fills a fresh message.\<close>

record ('w, 'm) handlerSpec =
  hs_newRequest :: "'m option"
  hs_newResponse :: "'m option"
  hs_decodeRequestJSON :: "(string \<Rightarrow> 'm \<Rightarrow> 'm result) option"
  hs_decodeExpectedResponseJSON :: "(string \<Rightarrow> 'm \<Rightarrow> 'm result) option"
  hs_invoke :: "('m \<Rightarrow> 'w \<Rightarrow> 'w \<times> 'm result) option"
  hs_normalizeResponse :: "('m \<Rightarrow> gval result) option"

text \<open>What the code uses of the protobuf library.\<close>

record 'm protobuf =
  pb_unmarshal :: "string \<Rightarrow> 'm \<Rightarrow> 'm result"
  pb_normalize :: "'m \<Rightarrow> gval result" \<comment> \<open>\<open>protojsonview.NormalizeMessage\<close>\<close>
  pb_typeName :: "'m \<Rightarrow> string"

text \<open>\<open>req\<close> and \<open>resp\<close> are the types a message must have for the type assertions of the closures.\<close>

definition newHandlerSpec ::
    "'m protobuf \<Rightarrow> string \<Rightarrow> 'm \<Rightarrow> 'm \<Rightarrow> ('m \<Rightarrow> bool) \<Rightarrow> ('m \<Rightarrow> bool) \<Rightarrow> ('m \<Rightarrow> 'w \<Rightarrow> 'w \<times> 'm result) \<Rightarrow>
       ('m \<Rightarrow> gval result) option \<Rightarrow> ('w, 'm) handlerSpec" where
  "newHandlerSpec pb handlerName newRequest newResponse req resp invoke hook = \<lparr>
     hs_newRequest = Some newRequest, hs_newResponse = Some newResponse,
     hs_decodeRequestJSON = None, hs_decodeExpectedResponseJSON = None,
     hs_invoke = Some (\<lambda>request w.
       if \<not> req request then
         (w, Inl (Errorf ''handler %s received invalid request type: got %T'' [AStr handlerName, AStr (pb_typeName pb request)]))
       else invoke request w),
     hs_normalizeResponse = Some (\<lambda>response.
       case hook of
         None \<Rightarrow> pb_normalize pb response
       | Some n \<Rightarrow>
           if \<not> resp response then
             Inl (Errorf ''handler %s received invalid response type: got %T'' [AStr handlerName, AStr (pb_typeName pb response)])
           else n response)\<rparr>"

text \<open>\<open>msg\<close> is \<^const>\<open>None\<close> for a nil message.\<close>

definition decodeProtoJSON :: "'m protobuf \<Rightarrow> string \<Rightarrow> 'm option \<Rightarrow> 'm result" where
  "decodeProtoJSON pb raw msg =
     (case msg of
        None \<Rightarrow> Inl (Err ''decode proto json: nil message'')
      | Some m \<Rightarrow> map_err (\<lambda>e. Errorf ''decode proto json: %w'' [AErr e]) (pb_unmarshal pb raw m))"

section \<open>The registry and the adapter\<close>

record ('w, 'm) grpcRegistry =
  gr_specs :: "('w, 'm) handlerSpec gomap"

definition newGrpcRegistry :: "('w, 'm) handlerSpec gomap \<Rightarrow> ('w, 'm) grpcRegistry" where
  "newGrpcRegistry specs = \<lparr>gr_specs = mcopy [] specs\<rparr>"

definition grpcResolve :: "('w, 'm) grpcRegistry \<Rightarrow> string \<Rightarrow> ('w, 'm) handlerSpec result" where
  "grpcResolve reg name =
     (case mget (gr_specs reg) name of
        None \<Rightarrow> Inl (Errorf ''unsupported handler %q'' [AStr name])
      | Some spec \<Rightarrow>
          if hs_newRequest spec = None then Inl (Errorf ''handler %q has nil NewRequest'' [AStr name])
          else if hs_newResponse spec = None then Inl (Errorf ''handler %q has nil NewResponse'' [AStr name])
          else if hs_invoke spec = None then Inl (Errorf ''handler %q has nil Invoke'' [AStr name])
          else Inr spec)"

definition grpcSupported :: "('w, 'm) grpcRegistry \<Rightarrow> string list" where
  "grpcSupported reg = sort (mkeys (gr_specs reg))"

text \<open>\<open>desc\<close> holds the names of the methods of a service, \<^const>\<open>None\<close> is nil.\<close>

definition serviceMethodNames :: "string list option \<Rightarrow> string list" where
  "serviceMethodNames desc = (case desc of None \<Rightarrow> [] | Some methods \<Rightarrow> sort methods)"

text \<open>The adapter of a resolved spec: its functions \<open>NewRequest\<close>, \<open>NewResponse\<close> and \<open>Invoke\<close> are not nil.\<close>

definition decodeWith :: "'m protobuf \<Rightarrow> (string \<Rightarrow> 'm \<Rightarrow> 'm result) option \<Rightarrow> 'm \<Rightarrow> string \<Rightarrow> 'm proto_value result" where
  "decodeWith pb hook fresh raw =
     rbind (case hook of Some decodeJSON \<Rightarrow> decodeJSON raw fresh | None \<Rightarrow> decodeProtoJSON pb raw (Some fresh)) (\<lambda>m.
     Inr (ProtoMessage m))"

definition adapterDecodeRequest :: "'m protobuf \<Rightarrow> ('w, 'm) handlerSpec \<Rightarrow> string \<Rightarrow> 'm proto_value result" where
  "adapterDecodeRequest pb spec raw = decodeWith pb (hs_decodeRequestJSON spec) (the (hs_newRequest spec)) raw"

definition adapterDecodeExpectedResponse :: "'m protobuf \<Rightarrow> ('w, 'm) handlerSpec \<Rightarrow> string \<Rightarrow> 'm proto_value result" where
  "adapterDecodeExpectedResponse pb spec raw =
     decodeWith pb (hs_decodeExpectedResponseJSON spec) (the (hs_newResponse spec)) raw"

definition adapterInvoke :: "('w, 'm) handlerSpec \<Rightarrow> 'm proto_value \<Rightarrow> 'w \<Rightarrow> 'w \<times> 'm proto_value result" where
  "adapterInvoke spec request w =
     (case request of
        NoMessage t \<Rightarrow> (w, Inl (Errorf ''request type %T does not implement proto.Message'' [AStr t]))
      | ProtoMessage m \<Rightarrow> apsnd (\<lambda>r. rbind r (\<lambda>x. Inr (ProtoMessage x))) (the (hs_invoke spec) m w))"

definition adapterNormalizeResponse :: "'m protobuf \<Rightarrow> ('w, 'm) handlerSpec \<Rightarrow> 'm proto_value \<Rightarrow> gval result" where
  "adapterNormalizeResponse pb spec response =
     (case response of
        NoMessage t \<Rightarrow> Inl (Errorf ''response type %T does not implement proto.Message'' [AStr t])
      | ProtoMessage m \<Rightarrow>
          (case hs_normalizeResponse spec of None \<Rightarrow> pb_normalize pb m | Some n \<Rightarrow> n m))"

section \<open>Dates as strings\<close>

text \<open>
  Message descriptors are values of a type \<open>'d\<close>, since a message may contain itself; a field knows
  its names, whether it is repeated, and the descriptor of its messages, if it holds messages.
\<close>

record 'd field_descriptor =
  fd_name :: string
  fd_jsonName :: string
  fd_isList :: bool
  fd_message :: "'d option"

record 'd descriptors =
  ds_fields :: "'d \<Rightarrow> 'd field_descriptor list"
  ds_fullName :: "'d \<Rightarrow> string"

definition decodeJSONValueWithNumbers :: "string \<Rightarrow> json result" where
  "decodeJSONValueWithNumbers raw =
     (case json_decode raw of
        Inl _ \<Rightarrow> Inl (Errorf ''decode json: %w'' [AErr (Opaque ''json.Decode'')])
      | Inr (v, rest) \<Rightarrow>
          if json_decode rest \<noteq> Inl DecEOF then Inl (Err ''decode json: trailing data'') else Inr v)"

definition findProtoFieldByJSONKey :: "'d descriptors \<Rightarrow> 'd \<Rightarrow> string \<Rightarrow> 'd field_descriptor option" where
  "findProtoFieldByJSONKey D descriptor jsonKey =
     find (\<lambda>f. fd_name f = jsonKey \<or> fd_jsonName f = jsonKey) (ds_fields D descriptor)"

definition int_literal :: "int \<Rightarrow> json" where
  "int_literal n = JNum ((if n < 0 then ''-'' else []) @ nat_digits (nat \<bar>n\<bar>))"

definition normalizeGoogleDateString :: "string \<Rightarrow> json result" where
  "normalizeGoogleDateString v =
     (case parse_date_only v of
        None \<Rightarrow> Inl (Errorf ''parse google.type.Date: %w'' [AErr (Opaque ''time.Parse'')])
      | Some (y, m, d) \<Rightarrow>
          Inr (JObj (mcopy [] [(''year'', int_literal y), (''month'', int_literal m), (''day'', int_literal d)])))"

text \<open>A normalised value: decoded JSON, containers that were rebuilt, and the empty \<open>json.RawMessage\<close>.\<close>

datatype norm =
    NormJSON json
  | NormArr "norm list"
  | NormObj "(string \<times> norm) list"
  | NormEmptyRaw \<comment> \<open>\<open>json.RawMessage{}\<close>\<close>

lemma json_member_size: "e \<in> set m \<Longrightarrow> size (snd e) < size (JObj m)"
  by (induction m) (auto simp: size_prod_simp)

lemma json_element_size: "v \<in> set vs \<Longrightarrow> size v < size (JArr vs)"
  by (induction vs) auto

text \<open>
  The three mutually recursive functions.  Of several members that cannot be normalised the code
  reports any one; the model reports the first in the order of the keys.
\<close>

function (sequential) normalizeDateMessage :: "'d descriptors \<Rightarrow> json \<Rightarrow> 'd \<Rightarrow> norm result"
and normalizeDateField :: "'d descriptors \<Rightarrow> json \<Rightarrow> 'd field_descriptor \<Rightarrow> norm result"
and normalizeDateSingular :: "'d descriptors \<Rightarrow> json \<Rightarrow> 'd field_descriptor \<Rightarrow> norm result" where
  "normalizeDateMessage D (JObj m) descriptor =
     rbind (map_result (\<lambda>e.
       case findProtoFieldByJSONKey D descriptor (fst e) of
         None \<Rightarrow> Inr (fst e, NormJSON (snd e))
       | Some f \<Rightarrow>
           rbind (map_err (\<lambda>err. Errorf ''normalize field %q: %w'' [AStr (fst e), AErr err])
                    (normalizeDateField D (snd e) f)) (\<lambda>n. Inr (fst e, n))) m) (\<lambda>m'.
     Inr (NormObj m'))"
| "normalizeDateMessage D v descriptor = Inr (NormJSON v)"
| "normalizeDateField D JNull f = Inr NormEmptyRaw"
| "normalizeDateField D (JArr vs) f =
     (if fd_isList f then rbind (map_result (\<lambda>v. normalizeDateSingular D v f) vs) (\<lambda>ns. Inr (NormArr ns))
      else normalizeDateSingular D (JArr vs) f)"
| "normalizeDateField D v f =
     (if fd_isList f then Inr (NormJSON v) else normalizeDateSingular D v f)"
| "normalizeDateSingular D v f =
     (case fd_message f of
        None \<Rightarrow> Inr (NormJSON v)
      | Some descriptor \<Rightarrow>
          if ds_fullName D descriptor = ''google.type.Date'' then
            (case v of
               JStr s \<Rightarrow> rbind (normalizeGoogleDateString s) (\<lambda>j. Inr (NormJSON j))
             | _ \<Rightarrow> Inr (NormJSON v))
          else normalizeDateMessage D v descriptor)"
  by pat_completeness auto

termination
  by (relation "measures [\<lambda>x. case x of
        Inl (D, v, descriptor) \<Rightarrow> size v
      | Inr (Inl (D, v, f)) \<Rightarrow> size v
      | Inr (Inr (D, v, f)) \<Rightarrow> size v,
      \<lambda>x. case x of Inl _ \<Rightarrow> 0 | Inr (Inl _) \<Rightarrow> 2 | Inr (Inr _) \<Rightarrow> 1]")
     (auto dest: json_member_size json_element_size)

text \<open>
  The encoder: an empty \<open>json.RawMessage\<close> is no JSON text, so \<open>json.Marshal\<close> fails on it.
\<close>

fun norm_json :: "norm \<Rightarrow> json result" where
  "norm_json (NormJSON j) = Inr j"
| "norm_json (NormArr ns) = rbind (map_result norm_json ns) (\<lambda>js. Inr (JArr js))"
| "norm_json (NormObj m) = rbind (map_result (\<lambda>e. rbind (norm_json (snd e)) (\<lambda>j. Inr (fst e, j))) m) (\<lambda>m'. Inr (JObj m'))"
| "norm_json NormEmptyRaw = Inl (Opaque ''json: error calling MarshalJSON for type json.RawMessage'')"

definition normalizeProtoJSON :: "'d descriptors \<Rightarrow> string \<Rightarrow> 'd \<Rightarrow> string result" where
  "normalizeProtoJSON D raw descriptor =
     rbind (decodeJSONValueWithNumbers raw) (\<lambda>v.
     rbind (normalizeDateMessage D v descriptor) (\<lambda>normalizedValue.
     map_err (\<lambda>e. Errorf ''marshal normalized proto json: %w'' [AErr e])
       (rbind (norm_json normalizedValue) json_marshal)))"

text \<open>\<open>msg\<close> is the message with its descriptor, \<^const>\<open>None\<close> for nil; without JSON it stays as it is.\<close>

definition decodeProtoJSONWithGoogleDateStrings ::
    "'m protobuf \<Rightarrow> 'd descriptors \<Rightarrow> string \<Rightarrow> ('m \<times> 'd) option \<Rightarrow> 'm result" where
  "decodeProtoJSONWithGoogleDateStrings pb D raw msg =
     (case msg of
        None \<Rightarrow> Inl (Err ''decode proto json with google date strings: nil message'')
      | Some (m, descriptor) \<Rightarrow>
          if length raw = 0 then Inr m
          else case normalizeProtoJSON D raw descriptor of
            Inl e \<Rightarrow> Inl (Errorf ''prepare proto json with google date strings: %w'' [AErr e])
          | Inr normalizedRaw \<Rightarrow> decodeProtoJSON pb normalizedRaw (Some m))"

section \<open>What the protobuf decoder gets\<close>

text \<open>
  The relation between the JSON of a fixture and the JSON that is decoded: date strings at fields of
  type \<open>google.type.Date\<close> are replaced, everything else is the same; a known field is not null.
\<close>

definition date_json :: "int \<Rightarrow> int \<Rightarrow> int \<Rightarrow> json" where
  "date_json y m d = JObj [(''day'', int_literal d), (''month'', int_literal m), (''year'', int_literal y)]"

inductive date_view :: "'d descriptors \<Rightarrow> 'd \<Rightarrow> json \<Rightarrow> json \<Rightarrow> bool"
  and field_view :: "'d descriptors \<Rightarrow> 'd field_descriptor \<Rightarrow> json \<Rightarrow> json \<Rightarrow> bool"
  and single_view :: "'d descriptors \<Rightarrow> 'd field_descriptor \<Rightarrow> json \<Rightarrow> json \<Rightarrow> bool"
  for D :: "'d descriptors" where
  view_object: "list_all2 (\<lambda>e e'. fst e' = fst e \<and>
      (findProtoFieldByJSONKey D d (fst e) = None \<longrightarrow> snd e' = snd e) \<and>
      (\<forall>f. findProtoFieldByJSONKey D d (fst e) = Some f \<longrightarrow> field_view D f (snd e) (snd e'))) m m' \<Longrightarrow>
    date_view D d (JObj m) (JObj m')"
| view_other: "(\<And>m. v \<noteq> JObj m) \<Longrightarrow> date_view D d v v"
| view_list: "fd_isList f \<Longrightarrow> list_all2 (single_view D f) vs vs' \<Longrightarrow> field_view D f (JArr vs) (JArr vs')"
| view_no_list: "fd_isList f \<Longrightarrow> (\<And>vs. v \<noteq> JArr vs) \<Longrightarrow> v \<noteq> JNull \<Longrightarrow> field_view D f v v"
| view_single: "\<not> fd_isList f \<Longrightarrow> v \<noteq> JNull \<Longrightarrow> single_view D f v v' \<Longrightarrow> field_view D f v v'"
| view_scalar: "fd_message f = None \<Longrightarrow> single_view D f v v"
| view_date: "fd_message f = Some d \<Longrightarrow> ds_fullName D d = ''google.type.Date'' \<Longrightarrow>
    parse_date_only s = Some (y, mo, dd) \<Longrightarrow> single_view D f (JStr s) (date_json y mo dd)"
| view_date_other: "fd_message f = Some d \<Longrightarrow> ds_fullName D d = ''google.type.Date'' \<Longrightarrow> (\<And>s. v \<noteq> JStr s) \<Longrightarrow>
    single_view D f v v"
| view_message: "fd_message f = Some d \<Longrightarrow> ds_fullName D d \<noteq> ''google.type.Date'' \<Longrightarrow> date_view D d v v' \<Longrightarrow>
    single_view D f v v'"

inductive_simps view_obj_simps: "date_view D d (JObj m) v'"
inductive_simps view_null_simps: "field_view D f JNull v'"
inductive_simps view_arr_simps: "field_view D f (JArr vs) v'"
inductive_simps view_single_simps: "single_view D f v v'"

lemma date_object: "normalizeGoogleDateString s = Inr j \<longleftrightarrow>
    (\<exists>y m d. parse_date_only s = Some (y, m, d) \<and> j = date_json y m d)"
proof -
  have "mcopy [] [(''year'', a), (''month'', b), (''day'', c)] = [(''day'', c), (''month'', b), (''year'', a)]"
    for a b c :: json
    by (simp add: mcopy_def)
  then show ?thesis by (auto simp: normalizeGoogleDateString_def date_json_def split: option.splits)
qed

definition as_json :: "norm result \<Rightarrow> json result" where
  "as_json r = rbind r norm_json"

lemma as_json_simps [simp]: "as_json (Inr n) = norm_json n" "as_json (Inl e) = Inl e"
  by (simp_all add: as_json_def)

lemma as_json_date [simp]: "as_json (rbind r (\<lambda>j. Inr (NormJSON j))) = r"
  by (cases r) simp_all

lemma map_result_bind:
  "rbind (map_result g xs) (map_result h) = Inr ys \<longleftrightarrow> list_all2 (\<lambda>x y. rbind (g x) h = Inr y) xs ys"
proof (induction xs arbitrary: ys)
  case (Cons x xs)
  have "rbind (map_result g (x # xs)) (map_result h) = Inr ys \<longleftrightarrow>
      (\<exists>a as b bs. g x = Inr a \<and> map_result g xs = Inr as \<and> h a = Inr b \<and> map_result h as = Inr bs \<and> ys = b # bs)"
    by auto
  also have "\<dots> \<longleftrightarrow> (\<exists>b bs. rbind (g x) h = Inr b \<and> rbind (map_result g xs) (map_result h) = Inr bs \<and> ys = b # bs)"
    by auto
  finally show ?case using Cons.IH by (cases ys) auto
qed auto

text \<open>One member of an object.\<close>

lemma member_view:
  assumes "\<And>f v'. found = Some f \<Longrightarrow> as_json (nf f) = Inr v' \<longleftrightarrow> view f v'"
  shows "rbind (case found of None \<Rightarrow> Inr (k, NormJSON v)
        | Some f \<Rightarrow> rbind (map_err g (nf f)) (\<lambda>n. Inr (k, n)))
      (\<lambda>e. rbind (norm_json (snd e)) (\<lambda>j. Inr (fst e, j))) = Inr e' \<longleftrightarrow>
    fst e' = k \<and> (found = None \<longrightarrow> snd e' = v) \<and> (\<forall>f. found = Some f \<longrightarrow> view f (snd e'))"
proof (cases found)
  case None
  then show ?thesis by (cases e') auto
next
  case (Some f)
  have "as_json (nf f) = Inr (snd e') \<longleftrightarrow> view f (snd e')" by (rule assms [OF Some])
  then show ?thesis using Some by (cases e') (auto simp: as_json_def)
qed

lemma normalize_view:
  shows "as_json (normalizeDateMessage D v d) = Inr v' \<longleftrightarrow> date_view D d v v'"
    and "as_json (normalizeDateField D v f) = Inr v' \<longleftrightarrow> field_view D f v v'"
    and "as_json (normalizeDateSingular D v f) = Inr v' \<longleftrightarrow> single_view D f v v'"
proof (induction D v d and D v f and D v f arbitrary: v' and v' and v'
    rule: normalizeDateMessage_normalizeDateField_normalizeDateSingular.induct)
  case (1 D m d)
  let ?g = "\<lambda>e. case findProtoFieldByJSONKey D d (fst e) of
       None \<Rightarrow> Inr (fst e, NormJSON (snd e))
     | Some f \<Rightarrow>
         rbind (map_err (\<lambda>err. Errorf ''normalize field %q: %w'' [AStr (fst e), AErr err])
                  (normalizeDateField D (snd e) f)) (\<lambda>n. Inr (fst e, n))"
  let ?h = "\<lambda>e. rbind (norm_json (snd e)) (\<lambda>j. Inr (fst e, j))"
  have mem: "rbind (?g e) ?h = Inr e' \<longleftrightarrow> fst e' = fst e \<and> (findProtoFieldByJSONKey D d (fst e) = None \<longrightarrow> snd e' = snd e) \<and>
      (\<forall>f. findProtoFieldByJSONKey D d (fst e) = Some f \<longrightarrow> field_view D f (snd e) (snd e'))"
    if "e \<in> set m" for e e'
    by (rule member_view [where nf = "normalizeDateField D (snd e)" and view = "\<lambda>f. field_view D f (snd e)"])
       (rule "1.IH" [OF that])
  have "as_json (normalizeDateMessage D (JObj m) d) = Inr v' \<longleftrightarrow>
      (\<exists>m'. v' = JObj m' \<and> rbind (map_result ?g m) (map_result ?h) = Inr m')"
    by (auto simp: as_json_def)
  also have "\<dots> \<longleftrightarrow> (\<exists>m'. v' = JObj m' \<and> list_all2 (\<lambda>e e'. rbind (?g e) ?h = Inr e') m m')"
    unfolding map_result_bind ..
  also have "\<dots> \<longleftrightarrow> date_view D d (JObj m) v'"
  proof -
    have "list_all2 (\<lambda>e e'. rbind (?g e) ?h = Inr e') m m' \<longleftrightarrow>
        list_all2 (\<lambda>e e'. fst e' = fst e \<and> (findProtoFieldByJSONKey D d (fst e) = None \<longrightarrow> snd e' = snd e) \<and>
          (\<forall>f. findProtoFieldByJSONKey D d (fst e) = Some f \<longrightarrow> field_view D f (snd e) (snd e'))) m m'" for m'
      by (rule list.rel_cong) (use mem in auto)
    then show ?thesis by (simp add: view_obj_simps)
  qed
  finally show ?case .
next
  case (3 D f)
  then show ?case by (simp add: view_null_simps)
next
  case (4 D vs f)
  show ?case
  proof (cases "fd_isList f")
    case True
    have el: "rbind (normalizeDateSingular D v f) norm_json = Inr v' \<longleftrightarrow> single_view D f v v'"
      if "v \<in> set vs" for v v'
      using 4(1) [OF True that] by (simp add: as_json_def)
    have "as_json (normalizeDateField D (JArr vs) f) = Inr v' \<longleftrightarrow>
        (\<exists>js. v' = JArr js \<and> rbind (map_result (\<lambda>v. normalizeDateSingular D v f) vs) (map_result norm_json) = Inr js)"
      using True by (auto simp: as_json_def)
    also have "\<dots> \<longleftrightarrow> (\<exists>js. v' = JArr js \<and> list_all2 (single_view D f) vs js)"
    proof -
      have "list_all2 (\<lambda>v v'. rbind (normalizeDateSingular D v f) norm_json = Inr v') vs js \<longleftrightarrow>
          list_all2 (single_view D f) vs js" for js
        by (rule list.rel_cong) (use el in auto)
      then show ?thesis unfolding map_result_bind by simp
    qed
    finally show ?thesis using True by (auto simp: view_arr_simps)
  next
    case False
    then show ?thesis using 4(2) by (simp add: view_arr_simps)
  qed
next
  case (6 D v f)
  show ?case
  proof (cases "fd_message f")
    case None
    then show ?thesis by (auto simp: view_single_simps)
  next
    case (Some d)
    show ?thesis
    proof (cases "ds_fullName D d = ''google.type.Date''")
      case True
      then show ?thesis using Some by (cases v) (auto simp: view_single_simps simp: date_object)
    next
      case False
      then show ?thesis using 6 [OF Some False] Some by (auto simp: view_single_simps)
    qed
  qed
qed (auto elim: date_view.cases field_view.cases intro: date_view_field_view_single_view.intros)

section \<open>The decoded JSON is portable\<close>

lemma nat_digits_digits: "list_all is_digit (nat_digits n)"
proof (induction n rule: nat_digits.induct)
  case (1 n)
  then show ?case
    using digit_char [of n] digit_char [of "n mod 10"] by (subst nat_digits.simps) auto
qed

lemma nat_digits_no_zero: "0 < n \<Longrightarrow> nat_digits n \<noteq> [] \<and> hd (nat_digits n) \<noteq> CHR ''0''"
proof (induction n rule: nat_digits.induct)
  case (1 n)
  show ?case
  proof (cases "n < 10")
    case True
    have "of_char (char_of (48 + n) :: char) = (48 + n :: nat)" "of_char (CHR ''0'') = (48 :: nat)" using True by simp_all
    then have "char_of (48 + n) \<noteq> (CHR ''0'')" using 1(2) by (metis less_add_same_cancel1 less_irrefl)
    then show ?thesis using True by (simp add: nat_digits.simps [of n])
  next
    case False
    then have "nat_digits (n div 10) \<noteq> [] \<and> hd (nat_digits (n div 10)) \<noteq> CHR ''0''" using 1 by simp
    then show ?thesis using False by (simp add: nat_digits.simps [of n])
  qed
qed

lemma valid_nat_digits: "valid_number (nat_digits n)"
proof (cases "n = 0")
  case True
  then have "nat_digits n = ''0''" by (simp add: nat_digits.simps zero_char)
  then show ?thesis by (simp add: valid_number_def lex_number_def lex_minus_def lex_int_def lex_frac_def lex_exp_def)
next
  case False
  then obtain c ds where c: "nat_digits n = c # ds" "c \<noteq> CHR ''0''"
    using nat_digits_no_zero [of n] by (cases "nat_digits n") auto
  have d: "is_digit c" "list_all is_digit ds" using nat_digits_digits [of n] c(1) by simp_all
  then have "c \<noteq> CHR ''-''" by (auto simp: is_digit_def)
  moreover have "lex_digits (c # ds) = (c # ds, [])"
    using d by (simp add: lex_digits_def takeWhile_eq_all_conv [THEN iffD2] list_all_iff)
  ultimately show ?thesis
    using c d by (simp add: valid_number_def lex_number_def lex_minus_def lex_int_def lex_frac_def lex_exp_def)
qed

lemma portable_date: "0 \<le> y \<Longrightarrow> 0 \<le> m \<Longrightarrow> 0 \<le> d \<Longrightarrow> portable (date_json y m d)"
proof -
  have u: "utf8_ok ''year''" "utf8_ok ''month''" "utf8_ok ''day''" by code_simp+
  have w: "wf_map [(''day'', a), (''month'', b), (''year'', c)]" for a b c :: json by simp
  assume "0 \<le> y" "0 \<le> m" "0 \<le> d"
  then show ?thesis using u w valid_nat_digits by (simp add: date_json_def int_literal_def)
qed

lemma list_all2_source: "list_all2 P xs ys \<Longrightarrow> y \<in> set ys \<Longrightarrow> \<exists>x \<in> set xs. P x y"
  by (induction rule: list_all2_induct) auto

lemma view_portable:
  shows "date_view D d v v' \<Longrightarrow> portable v \<Longrightarrow> portable v'"
    and "field_view D f v v' \<Longrightarrow> portable v \<Longrightarrow> portable v'"
    and "single_view D f v v' \<Longrightarrow> portable v \<Longrightarrow> portable v'"
proof (induction rule: date_view_field_view_single_view.inducts)
  case (view_object d m m')
  have keys: "map fst m' = map fst m" using view_object(1) by (induction rule: list_all2_induct) auto
  have "utf8_ok (fst e') \<and> portable (snd e')" if mem: "e' \<in> set m'" for e'
  proof -
    obtain e where em: "e \<in> set m" and all: "fst e' = fst e \<and>
        (findProtoFieldByJSONKey D d (fst e) = None \<longrightarrow> snd e' = snd e) \<and>
        (\<forall>f. findProtoFieldByJSONKey D d (fst e) = Some f \<longrightarrow>
          field_view D f (snd e) (snd e') \<and> (portable (snd e) \<longrightarrow> portable (snd e')))"
      using list_all2_source [OF view_object(1) mem] by (elim bexE)
    have "utf8_ok (fst e) \<and> portable (snd e)" using view_object(2) em by (simp add: list_all_iff)
    then show ?thesis using all by (cases "findProtoFieldByJSONKey D d (fst e)") auto
  qed
  then show ?case using keys view_object(2) by (simp add: list_all_iff wf_map_def)
next
  case (view_list f vs vs')
  have "portable v'" if "v' \<in> set vs'" for v'
    using list_all2_source [OF view_list(2) that] view_list(3) by (auto simp: list_all_iff)
  then show ?case by (simp add: list_all_iff)
next
  case (view_date f d s y mo dd)
  then show ?case by (auto simp: parse_date_only_iff intro: portable_date)
qed simp_all

section \<open>The registry is a handler registry\<close>

text \<open>
  A registry whose specs have all the functions they need.  Without that a name is reported as
  supported and still refused by \<open>Resolve\<close>.
\<close>

definition complete_spec :: "('w, 'm) handlerSpec \<Rightarrow> bool" where
  "complete_spec spec \<longleftrightarrow> hs_newRequest spec \<noteq> None \<and> hs_newResponse spec \<noteq> None \<and> hs_invoke spec \<noteq> None"

definition complete_registry :: "('w, 'm) grpcRegistry \<Rightarrow> bool" where
  "complete_registry reg \<longleftrightarrow> wf_map (gr_specs reg) \<and> list_all (\<lambda>e. complete_spec (snd e)) (gr_specs reg)"

lemma grpcResolve_iff:
  "grpcResolve reg name = Inr spec \<longleftrightarrow> mget (gr_specs reg) name = Some spec \<and> complete_spec spec"
  by (auto simp: grpcResolve_def complete_spec_def split: option.splits)

interpretation gr: handler_registry grpcResolve grpcSupported complete_registry
proof
  fix r :: "('w, 'm) grpcRegistry" and name
  assume r: "complete_registry r"
  show "is_ok (grpcResolve r name) \<longleftrightarrow> name \<in> set (grpcSupported r)"
  proof (cases "mget (gr_specs r) name")
    case None
    then show ?thesis using mget_None_iff [of "gr_specs r" name] by (simp add: is_ok_iff grpcResolve_iff grpcSupported_def)
  next
    case (Some spec)
    then have "complete_spec spec" using r mget_mem [OF Some] by (auto simp: complete_registry_def list_all_iff)
    then show ?thesis
      using Some mget_None_iff [of "gr_specs r" name] by (auto simp: is_ok_iff grpcResolve_iff grpcSupported_def)
  qed
  show "sorted (grpcSupported r) \<and> distinct (grpcSupported r)"
    using mkeys_sorted [of "gr_specs r"] r by (simp add: grpcSupported_def complete_registry_def)
qed

lemma newHandlerSpec_complete: "complete_spec (newHandlerSpec pb name newReq newResp req resp call hook)"
  by (simp add: complete_spec_def newHandlerSpec_def)

section \<open>Properties\<close>

lemma json_marshal_portable: "portable v \<Longrightarrow> json_marshal v = Inr (json_enc v)"
  by (simp add: json_marshal_def portable_encodable)

text \<open>
  C32: preparing the JSON of a fixture succeeds exactly when the text is one JSON value in which every
  string at a \<open>google.type.Date\<close> field is a calendar date and no known field is null; the text
  that results is read back as the value of the fixture with the dates, and nothing else, replaced.
\<close>

theorem google_dates_replaced:
  "normalizeProtoJSON D raw descriptor = Inr r \<longleftrightarrow>
     (\<exists>v rest v'. json_decode raw = Inr (v, rest) \<and> json_decode rest = Inl DecEOF \<and>
        date_view D descriptor v v' \<and> r = json_enc v' \<and> json_decode r = Inr (v', []))"
proof -
  have "normalizeProtoJSON D raw descriptor = Inr r \<longleftrightarrow>
      (\<exists>v rest v'. json_decode raw = Inr (v, rest) \<and> json_decode rest = Inl DecEOF \<and>
        as_json (normalizeDateMessage D v descriptor) = Inr v' \<and> json_marshal v' = Inr r)"
    by (auto simp: normalizeProtoJSON_def decodeJSONValueWithNumbers_def as_json_def split: sum.splits)
  also have "\<dots> \<longleftrightarrow> (\<exists>v rest v'. json_decode raw = Inr (v, rest) \<and> json_decode rest = Inl DecEOF \<and>
        date_view D descriptor v v' \<and> json_marshal v' = Inr r)"
    by (simp only: normalize_view)
  also have "\<dots> \<longleftrightarrow> (\<exists>v rest v'. json_decode raw = Inr (v, rest) \<and> json_decode rest = Inl DecEOF \<and>
        date_view D descriptor v v' \<and> r = json_enc v' \<and> json_decode r = Inr (v', []))"
  proof -
    have "json_marshal v' = Inr r \<longleftrightarrow> r = json_enc v' \<and> json_decode r = Inr (v', [])"
      if "json_decode raw = Inr (v, rest)" "date_view D descriptor v v'" for v rest v'
    proof -
      have "portable v'" by (rule view_portable(1) [OF that(2) json_decode_portable [OF that(1)]])
      then show ?thesis using json_marshal_portable json_roundtrip by auto
    qed
    then show ?thesis by blast
  qed
  finally show ?thesis .
qed

text \<open>
  C33: a date string is replaced exactly when it is a calendar date in the form year, month, day with
  four, two and two digits, and then by the three numbers of this date.
\<close>

theorem date_string_exact:
  "normalizeGoogleDateString s = Inr j \<longleftrightarrow>
     (\<exists>y m d. 0 \<le> y \<and> y \<le> 9999 \<and> 1 \<le> m \<and> m \<le> 12 \<and> 1 \<le> d \<and> d \<le> days_in m y \<and>
        s = append_int 4 y @ ''-'' @ append_int 2 m @ ''-'' @ append_int 2 d \<and> j = date_json y m d)"
  by (simp add: date_object parse_date_only_iff)

text \<open>
  When the codes have distinct names, the status codec reads the name of a supported code as that
  code, and refuses every text that is not reported as a supported name.
\<close>

theorem status_codec_roundtrip:
  assumes "distinct (grpcCodeNames name)"
  shows "(sc_parse (grpcStatusCodec name) raw = Inr c \<longleftrightarrow> c \<in> set supportedGRPCCodes \<and> raw = name c) \<and>
    (is_ok (sc_parse (grpcStatusCodec name) raw) \<longleftrightarrow> raw \<in> set (supportedCodeNames name)) \<and>
    sc_success (grpcStatusCodec name) = OK"
proof -
  have loop: "distinct (map name codes) \<Longrightarrow> parseLoop name raw codes = Inr c \<longleftrightarrow> c \<in> set codes \<and> raw = name c" for codes c
    by (induction codes) auto
  have ok: "is_ok (parseLoop name raw codes) \<longleftrightarrow> raw \<in> set (map name codes)" for codes
    by (induction codes) auto
  show ?thesis
    using assms loop [of supportedGRPCCodes c] ok [of supportedGRPCCodes]
    by (simp add: grpcStatusCodec_def grpcCodeNames_def supportedCodeNames_def)
qed

text \<open>A known field that is null makes the preparation fail.\<close>

lemma null_field_refused:
  assumes "json_decode raw = Inr (JObj m, rest)" "(k, JNull) \<in> set m" "findProtoFieldByJSONKey D descriptor k = Some f"
  shows "\<not> is_ok (normalizeProtoJSON D raw descriptor)"
proof
  assume "is_ok (normalizeProtoJSON D raw descriptor)"
  then obtain v' where "as_json (normalizeDateMessage D (JObj m) descriptor) = Inr v'"
    using assms(1) by (auto simp: is_ok_iff normalizeProtoJSON_def decodeJSONValueWithNumbers_def as_json_def split: if_splits)
  then have "date_view D descriptor (JObj m) v'" by (simp only: normalize_view)
  then obtain m' where l: "list_all2 (\<lambda>e e'. fst e' = fst e \<and>
      (findProtoFieldByJSONKey D descriptor (fst e) = None \<longrightarrow> snd e' = snd e) \<and>
      (\<forall>f. findProtoFieldByJSONKey D descriptor (fst e) = Some f \<longrightarrow> field_view D f (snd e) (snd e'))) m m'"
    by (auto simp: view_obj_simps)
  obtain i where i: "i < length m" "m ! i = (k, JNull)" using assms(2) by (auto simp: in_set_conv_nth)
  have "field_view D f JNull (snd (m' ! i))" using list_all2_nthD [OF l i(1)] i(2) assms(3) by simp
  then show False by (simp add: view_null_simps)
qed

text \<open>The names of \<open>codes.Code.String\<close>.\<close>

fun code_name :: "grpc_code \<Rightarrow> string" where
  "code_name OK = ''OK''"
| "code_name Canceled = ''Canceled''"
| "code_name Unknown = ''Unknown''"
| "code_name InvalidArgument = ''InvalidArgument''"
| "code_name DeadlineExceeded = ''DeadlineExceeded''"
| "code_name NotFound = ''NotFound''"
| "code_name AlreadyExists = ''AlreadyExists''"
| "code_name PermissionDenied = ''PermissionDenied''"
| "code_name ResourceExhausted = ''ResourceExhausted''"
| "code_name FailedPrecondition = ''FailedPrecondition''"
| "code_name Aborted = ''Aborted''"
| "code_name OutOfRange = ''OutOfRange''"
| "code_name Unimplemented = ''Unimplemented''"
| "code_name Internal = ''Internal''"
| "code_name Unavailable = ''Unavailable''"
| "code_name DataLoss = ''DataLoss''"
| "code_name Unauthenticated = ''Unauthenticated''"
| "code_name (OtherCode n) = ''Code('' @ nat_digits n @ '')''"

lemma code_names_distinct: "distinct (grpcCodeNames code_name)"
  by (simp add: grpcCodeNames_def supportedGRPCCodes_def)

theorem status_codec_roundtrip_witness:
  "sc_parse (grpcStatusCodec code_name) ''NotFound'' = Inr NotFound \<and>
   is_ok (sc_parse (grpcStatusCodec code_name) ''notFound'') = False"
  using status_codec_roundtrip [OF code_names_distinct, of "''NotFound''" NotFound]
    status_codec_roundtrip [OF code_names_distinct, of "''notFound''" NotFound]
  by (simp add: supportedGRPCCodes_def supportedCodeNames_def grpcCodeNames_def)

end
