(* ===== verification/Bufconn.thy ===== *)
theory Bufconn
  imports Json
begin

text \<open>
  Package \<open>grpc/bufconn\<close>: an in-memory gRPC server and a client connection for one test
  (\<open>client.go\<close>, \<open>server.go\<close>).  What the helpers do to the listener, the server and the connection
  is recorded as a list of events; what the libraries and the functions of the test answer are
  fields of the record \<open>bufconn_env\<close>.  The end of the test runs the registered cleanup.
\<close>

section \<open>Options\<close>

definition defaultBufSize :: int where "defaultBufSize = 1024 * 1024"
definition defaultTarget :: string where "defaultTarget = ''passthrough:///bufnet''"

text \<open>Server options and dial options are values of types \<open>'so\<close> and \<open>'do\<close>.\<close>

record ('so, 'do) bufconnConfig =
  bc_bufSize :: int
  bc_target :: string
  bc_serverOptions :: "'so list"
  bc_dialOptions :: "'do list"

type_synonym ('so, 'do) bufconnOption = "('so, 'do) bufconnConfig \<Rightarrow> ('so, 'do) bufconnConfig"

definition newBufconnConfig :: "('so, 'do) bufconnConfig" where
  "newBufconnConfig = \<lparr>bc_bufSize = defaultBufSize, bc_target = defaultTarget, bc_serverOptions = [], bc_dialOptions = []\<rparr>"

definition withBufSize :: "int \<Rightarrow> ('so, 'do) bufconnOption" where
  "withBufSize n cfg = (if 0 < n then cfg\<lparr>bc_bufSize := n\<rparr> else cfg)"

definition withTarget :: "string \<Rightarrow> ('so, 'do) bufconnOption" where
  "withTarget target cfg = (if target \<noteq> [] then cfg\<lparr>bc_target := target\<rparr> else cfg)"

definition withServerOptions :: "'so list \<Rightarrow> ('so, 'do) bufconnOption" where
  "withServerOptions opts cfg = cfg\<lparr>bc_serverOptions := bc_serverOptions cfg @ opts\<rparr>"

definition withDialOptions :: "'do list \<Rightarrow> ('so, 'do) bufconnOption" where
  "withDialOptions opts cfg = cfg\<lparr>bc_dialOptions := bc_dialOptions cfg @ opts\<rparr>"

text \<open>\<^const>\<open>None\<close> is a nil option.\<close>

fun applyOptions :: "('so, 'do) bufconnOption option list \<Rightarrow> ('so, 'do) bufconnOption" where
  "applyOptions [] cfg = cfg"
| "applyOptions (None # opts) cfg = applyOptions opts cfg"
| "applyOptions (Some opt # opts) cfg = applyOptions opts (opt cfg)"

text \<open>\<open>dialer\<close> and \<open>insecure\<close> are the two options every connection needs.\<close>

definition dialOptionsForListener :: "'do \<Rightarrow> 'do \<Rightarrow> 'do list \<Rightarrow> 'do list" where
  "dialOptionsForListener dialer insecure extraOptions = [dialer, insecure] @ extraOptions"

section \<open>The life of server and connection\<close>

datatype ('so, 'do) bufconn_event =
    is_Listened: Listened int
  | is_ServerCreated: ServerCreated "'so list"
  | Registered
  | ServeStarted
  | Dialed string "'do list"
  | ConnCreated
  | ListenerClosed
  | ServerStopped
  | ConnClosed
  | TestErrorf err

text \<open>What a call does besides its events: it panics with a value, or ends the test by \<open>Goexit\<close>.\<close>

datatype 'a ending = Returned 'a | Panicked string | Fatal err | Exited

record ('do, 'c) bufconn_env =
  be_register :: "unit ending option" \<comment> \<open>\<^const>\<open>None\<close>: the function is nil\<close>
  be_newClient :: "'c ending option"
  be_dialErr :: "err option"
  be_listenerCloseErr :: "err option"
  be_connCloseErr :: "err option"
  be_dialer :: 'do
  be_insecure :: 'do

text \<open>The variables the closure \<open>cleanup\<close> shares with the function, and whether \<open>t.Cleanup\<close> knows it.\<close>

record ('so, 'do) bufconn_state =
  bs_serveStarted :: bool
  bs_conn :: bool
  bs_cleaned :: bool \<comment> \<open>\<open>cleanupOnce\<close>\<close>
  bs_registered :: bool
  bs_events :: "('so, 'do) bufconn_event list"

definition emit :: "('so, 'do) bufconn_event list \<Rightarrow> ('so, 'do) bufconn_state \<Rightarrow> ('so, 'do) bufconn_state" where
  "emit es st = st\<lparr>bs_events := bs_events st @ es\<rparr>"

definition close_events :: "('so, 'do) bufconn_event \<Rightarrow> string \<Rightarrow> err option \<Rightarrow> ('so, 'do) bufconn_event list" where
  "close_events closed format e =
     closed # (case e of None \<Rightarrow> [] | Some err \<Rightarrow> [TestErrorf (Errorf format [AErr err])])"

definition bufconnCleanup ::
    "('do, 'c) bufconn_env \<Rightarrow> ('so, 'do) bufconn_state \<Rightarrow> ('so, 'do) bufconn_state" where
  "bufconnCleanup env st =
     (if bs_cleaned st then st
      else emit ((if \<not> bs_serveStarted st then close_events ListenerClosed ''close listener: %v'' (be_listenerCloseErr env) else [])
             @ [ServerStopped]
             @ (if bs_conn st then close_events ConnClosed ''close conn: %v'' (be_connCloseErr env) else []))
           (st\<lparr>bs_cleaned := True\<rparr>))"

definition start_state :: "('so, 'do) bufconn_state" where
  "start_state = \<lparr>bs_serveStarted = False, bs_conn = False, bs_cleaned = False, bs_registered = False, bs_events = []\<rparr>"

text \<open>The deferred function: a panic runs the cleanup and goes on; \<open>recover\<close> sees no panic otherwise.\<close>

definition deferred ::
    "('do, 'c) bufconn_env \<Rightarrow> ('so, 'do) bufconn_state \<times> 'a ending \<Rightarrow> ('so, 'do) bufconn_state \<times> 'a ending" where
  "deferred env r = (case r of (st, Panicked p) \<Rightarrow> (bufconnCleanup env st, Panicked p) | _ \<Rightarrow> r)"

text \<open>What the two constructors have in common, up to the running server; \<open>rest\<close> goes on from there.\<close>

definition withServer ::
    "('do, 'c) bufconn_env \<Rightarrow> ('so, 'do) bufconnConfig \<Rightarrow> unit ending \<Rightarrow>
       (('so, 'do) bufconn_state \<Rightarrow> ('so, 'do) bufconn_state \<times> 'a ending) \<Rightarrow> ('so, 'do) bufconn_state \<times> 'a ending" where
  "withServer env cfg register rest =
     (let st = emit [Listened (bc_bufSize cfg), ServerCreated (bc_serverOptions cfg)] start_state;
          st = st\<lparr>bs_registered := True\<rparr>;
          st' = emit [Registered] st
      in deferred env
           (case register of
              Panicked p \<Rightarrow> (st', Panicked p)
            | Fatal e \<Rightarrow> (st', Fatal e)
            | Exited \<Rightarrow> (st', Exited)
            | Returned _ \<Rightarrow> rest (emit [ServeStarted] (st'\<lparr>bs_serveStarted := True\<rparr>))))"

definition newBufconnClient ::
    "('do, 'c) bufconn_env \<Rightarrow> ('so, 'do) bufconnOption option list \<Rightarrow> ('so, 'do) bufconn_state \<times> 'c ending" where
  "newBufconnClient env opts =
     (case be_register env of
        None \<Rightarrow> (start_state, Fatal (Err ''register function is nil''))
      | Some register \<Rightarrow>
          (case be_newClient env of
             None \<Rightarrow> (start_state, Fatal (Err ''newClient function is nil''))
           | Some newClient \<Rightarrow>
               let cfg = applyOptions opts newBufconnConfig in
               withServer env cfg register (\<lambda>st.
                 let dialOptions = dialOptionsForListener (be_dialer env) (be_insecure env) (bc_dialOptions cfg);
                     st = emit [Dialed (bc_target cfg) dialOptions] st
                 in case be_dialErr env of
                      Some e \<Rightarrow> (bufconnCleanup env st, Fatal (Errorf ''dial bufconn: %v'' [AErr e]))
                    | None \<Rightarrow> ((emit [ConnCreated] st)\<lparr>bs_conn := True\<rparr>, newClient))))"

record 'do bufconnServer =
  bv_target :: string
  bv_dialOptions :: "'do list"

definition newBufconnServer ::
    "('do, 'c) bufconn_env \<Rightarrow> ('so, 'do) bufconnOption option list \<Rightarrow>
       ('so, 'do) bufconn_state \<times> 'do bufconnServer ending" where
  "newBufconnServer env opts =
     (case be_register env of
        None \<Rightarrow> (start_state, Fatal (Err ''register function is nil''))
      | Some register \<Rightarrow>
          let cfg = applyOptions opts newBufconnConfig in
          withServer env cfg register (\<lambda>st.
            (st, Returned \<lparr>bv_target = bc_target cfg,
               bv_dialOptions = dialOptionsForListener (be_dialer env) (be_insecure env) (bc_dialOptions cfg)\<rparr>)))"

definition serverDialOptions :: "'do bufconnServer \<Rightarrow> 'do list \<Rightarrow> 'do list" where
  "serverDialOptions server extraOptions = bv_dialOptions server @ extraOptions"

text \<open>When the test has ended, the functions given to \<open>t.Cleanup\<close> have run.\<close>

definition testEnd :: "('do, 'c) bufconn_env \<Rightarrow> ('so, 'do) bufconn_state \<Rightarrow> ('so, 'do) bufconn_state" where
  "testEnd env st = (if bs_registered st then bufconnCleanup env st else st)"

section \<open>Every resource is released once\<close>

definition count_event :: "('so, 'do) bufconn_event \<Rightarrow> ('so, 'do) bufconn_event list \<Rightarrow> nat" where
  "count_event e es = length (filter (\<lambda>x. x = e) es)"

text \<open>
  How often the listener is closed in the course of the events.  As grpc-go documents it, a server
  that serves the listener closes it when it is stopped, and \<open>Serve\<close> on a stopped server closes it
  at once; a server that was never told to serve it leaves it alone.
\<close>

fun listenerClosings :: "bool \<Rightarrow> bool \<Rightarrow> ('so, 'do) bufconn_event list \<Rightarrow> nat" where
  "listenerClosings served stopped [] = 0"
| "listenerClosings served stopped (e # es) =
     (case e of
        ListenerClosed \<Rightarrow> Suc (listenerClosings served stopped es)
      | ServeStarted \<Rightarrow> (if stopped then 1 else 0) + listenerClosings True stopped es
      | ServerStopped \<Rightarrow> (if served \<and> \<not> stopped then 1 else 0) + listenerClosings served True es
      | _ \<Rightarrow> listenerClosings served stopped es)"

text \<open>
  Every server that was created is stopped once, every connection that was made is closed once, and
  every listener is closed once, by the helper or by the server that serves it.
\<close>

definition released :: "('so, 'do) bufconn_event list \<Rightarrow> bool" where
  "released es \<longleftrightarrow>
     count_event ServerStopped es = length (filter is_ServerCreated es) \<and>
     count_event ConnClosed es = count_event ConnCreated es \<and>
     listenerClosings False False es = length (filter is_Listened es)"

lemmas bufconn_defs = released_def count_event_def testEnd_def bufconnCleanup_def emit_def close_events_def
  withServer_def deferred_def start_state_def Let_def

lemma client_released: "released (bs_events (testEnd env (fst (newBufconnClient env opts))))"
proof (cases "be_register env")
  case (Some register)
  show ?thesis
  proof (cases "be_newClient env")
    case (Some newClient)
    show ?thesis
      by (cases register; cases newClient; cases "be_dialErr env"; cases "be_listenerCloseErr env"; cases "be_connCloseErr env")
         (simp_all add: bufconn_defs newBufconnClient_def \<open>be_register env = Some register\<close> Some)
  qed (simp add: bufconn_defs newBufconnClient_def Some)
qed (simp add: bufconn_defs newBufconnClient_def)

lemma server_released: "released (bs_events (testEnd env (fst (newBufconnServer env opts))))"
proof (cases "be_register env")
  case (Some register)
  show ?thesis
    by (cases register; cases "be_listenerCloseErr env") (simp_all add: bufconn_defs newBufconnServer_def Some)
qed (simp add: bufconn_defs newBufconnServer_def)

text \<open>
  C34: however the creation of a client or of a server ends, by a result, a failed dial, a panic of
  the functions of the test or the end of the test in them, once the test has ended every server that
  was created was stopped exactly once, every connection that was made was closed exactly once, and
  every listener was closed exactly once: directly, or by the server if it was told to serve it.
\<close>

theorem bufconn_released:
  fixes env :: "('do, 'c) bufconn_env" and opts :: "('so, 'do) bufconnOption option list"
  shows "released (bs_events (testEnd env (fst (newBufconnClient env opts)))) \<and>
    released (bs_events (testEnd env (fst (newBufconnServer env opts))))"
  by (intro conjI client_released server_released)

end
