(* ===== verification/ExampleKit.thy ===== *)
theory ExampleKit
  imports StepRunner AnyDecode "HOL-Library.Countable"
begin

text \<open>
  What the sample services below \<open>docs/itestkit/examples\<close> share: handlers whose requests and responses are
  pointers to structs, errors that carry a status, and an await step that polls such a handler.  Every
  package has a datatype with one constructor for each struct type it passes as \<open>any\<close>.
\<close>

section \<open>Pointers to structs\<close>

text \<open>
  A pointer to a struct as a value of type \<open>any\<close>.  Its address stands for the struct it points to, so
  that pointers to equal structs are deeply equal, and a type assertion tells the types apart.
\<close>

locale boxing =
  fixes box :: "'v \<Rightarrow> gval" and unbox :: "gval \<Rightarrow> 'v option"
  assumes unbox_box: "unbox (box v) = Some v"
    and boxed: "box v \<noteq> VInvalid"
begin

lemma box_inject: "box v = box u \<longleftrightarrow> v = u"
  by (metis option.inject unbox_box)

end

definition box_ptr :: "'v :: countable \<Rightarrow> gval" where
  "box_ptr v = VPtr (Some (to_nat v))"

definition unbox_ptr :: "gval \<Rightarrow> 'v :: countable option" where
  "unbox_ptr g = (case g of VPtr (Some a) \<Rightarrow> Some (from_nat a) | _ \<Rightarrow> None)"

interpretation ptr: boxing box_ptr unbox_ptr
  by unfold_locales (simp_all add: box_ptr_def unbox_ptr_def)

text \<open>A pointer result: where the code returns \<open>nil\<close> it becomes a typed nil pointer.\<close>

definition box_result :: "'v :: countable option \<Rightarrow> gval" where
  "box_result r = (case r of None \<Rightarrow> VPtr None | Some v \<Rightarrow> box_ptr v)"

section \<open>Handlers\<close>

text \<open>
  The four methods of a handler over the structs \<open>'v\<close> of its package.  \<open>serve\<close> yields \<^const>\<open>None\<close> for a
  request of another type, and the new client, the response and the error otherwise.  The client of
  the case is the first component of the world; nothing else in the world concerns it.
\<close>

type_synonym ('c, 'v) service = "'c \<Rightarrow> 'v \<Rightarrow> ('c \<times> 'v option \<times> err option) option"

definition exampleHandler ::
    "string \<Rightarrow> (string \<Rightarrow> 'v result) \<Rightarrow> (string \<Rightarrow> 'v result) \<Rightarrow> ('c, 'v :: countable) service \<Rightarrow> ('c \<times> 'x) handler" where
  "exampleHandler name decodeReq decodeResp serve = \<lparr>
     h_decodeRequest = (\<lambda>raw. rbind (decodeReq raw) (\<lambda>v. Inr (box_ptr v))),
     h_decodeExpectedResponse = (\<lambda>raw. rbind (decodeResp raw) (\<lambda>v. Inr (box_ptr v))),
     h_invoke = (\<lambda>(client, x) request.
       case Option.bind (unbox_ptr request) (serve client) of
         None \<Rightarrow> ((client, x), VInvalid, Some (Errorf (name @ '' received invalid request type: %T'') []))
       | Some (client', response, e) \<Rightarrow> ((client', x), box_result response, e)),
     h_normalizeResponse = (\<lambda>response. Inr response)\<rparr>"

lemma exampleHandler_invoke:
  "serve client v = Some (client', response, e) \<Longrightarrow>
     h_invoke (exampleHandler name dreq dresp serve) (client, x) (box_ptr v) = ((client', x), box_result response, e)"
  by (simp add: exampleHandler_def ptr.unbox_box)

text \<open>
  The decoders of a handler: an error is wrapped with the name of what is decoded; some accept an
  empty text as the zero value.
\<close>

definition wrapDecode :: "string \<Rightarrow> ('a \<Rightarrow> string \<Rightarrow> 'a result) \<Rightarrow> 'a \<Rightarrow> string \<Rightarrow> 'a result" where
  "wrapDecode what store zero raw =
     map_err (\<lambda>e. Errorf (''decode '' @ what @ '': %w'') [AErr e]) (decodeStrictJSON store zero raw)"

definition decodeOrZero :: "string \<Rightarrow> ('a \<Rightarrow> string \<Rightarrow> 'a result) \<Rightarrow> 'a \<Rightarrow> string \<Rightarrow> 'a result" where
  "decodeOrZero what store zero raw = (if length raw = 0 then Inr zero else wrapDecode what store zero raw)"

text \<open>Structs with a single field.\<close>

definition storeString1 :: "string \<Rightarrow> string \<Rightarrow> string \<Rightarrow> string result" where
  "storeString1 name v raw =
     rbind (decode_struct [name] raw) (\<lambda>ms. store_all store_string v (field_values ms name))"

definition storeInt1 :: "string \<Rightarrow> int \<Rightarrow> string \<Rightarrow> int result" where
  "storeInt1 name v raw =
     rbind (decode_struct [name] raw) (\<lambda>ms. store_all store_int v (field_values ms name))"

definition storeBool1 :: "string \<Rightarrow> bool \<Rightarrow> string \<Rightarrow> bool result" where
  "storeBool1 name v raw =
     rbind (decode_struct [name] raw) (\<lambda>ms. store_all store_bool v (field_values ms name))"

text \<open>A struct that is passed as \<open>any\<close> is tagged with its type.\<close>

definition tagged :: "('a \<Rightarrow> 'v) \<Rightarrow> (string \<Rightarrow> 'a result) \<Rightarrow> string \<Rightarrow> 'v result" where
  "tagged tag decode raw = rbind (decode raw) (\<lambda>v. Inr (tag v))"

section \<open>Upper case\<close>

text \<open>
  \<open>strings.ToUpper\<close> up to characters that no name contains: besides the ASCII letters, U+0131 and U+017F
  have ASCII letters as their upper case.  Any other character stays what it is here; its upper case
  is neither an ASCII character nor white space.
\<close>

fun to_upper_names :: "string \<Rightarrow> string" where
  "to_upper_names [] = []"
| "to_upper_names (a # s) =
     (if a = CHR 0xC4 \<and> prefix [CHR 0xB1] s then CHR ''I'' # to_upper_names (drop 1 s)
      else if a = CHR 0xC5 \<and> prefix [CHR 0xBF] s then CHR ''S'' # to_upper_names (drop 1 s)
      else (if 97 \<le> byte a \<and> byte a \<le> 122 then char_of (byte a - 32) else a) # to_upper_names s)"

section \<open>Errors with a status\<close>

text \<open>
  The error struct of a package: \<open>tag\<close> is the name of its type.  The message is given by the error
  whose text it is.
\<close>

definition statusError :: "string \<Rightarrow> string \<Rightarrow> err \<Rightarrow> err" where
  "statusError tag code message = Errorf tag [AStr code, AText message]"

fun find_some :: "('a \<Rightarrow> 'b option) \<Rightarrow> 'a list \<Rightarrow> 'b option" where
  "find_some f [] = None"
| "find_some f (x # xs) = (case f x of None \<Rightarrow> find_some f xs | Some y \<Rightarrow> Some y)"

lemma find_some_cong [fundef_cong]:
  "xs = ys \<Longrightarrow> (\<And>x. x \<in> set ys \<Longrightarrow> f x = g x) \<Longrightarrow> find_some f xs = find_some g ys"
  by (induction ys arbitrary: xs) (auto split: option.split)

text \<open>\<open>errors.As\<close> with this type as its target: the first such error in the tree of wrapped errors.\<close>

definition status_parts :: "string \<Rightarrow> string \<Rightarrow> earg list \<Rightarrow> (string \<times> err) option" where
  "status_parts tag f as =
     (case as of [AStr code, AText message] \<Rightarrow> if f = tag then Some (code, message) else None | _ \<Rightarrow> None)"

fun as_statusError :: "string \<Rightarrow> err \<Rightarrow> (string \<times> err) option"
and arg_statusError :: "string \<Rightarrow> earg \<Rightarrow> (string \<times> err) option" where
  "as_statusError tag (Errorf f as) =
     (case status_parts tag f as of Some p \<Rightarrow> Some p | None \<Rightarrow> find_some (arg_statusError tag) as)"
| "as_statusError tag (Join es) = find_some (as_statusError tag) es"
| "as_statusError tag (Opaque s) = None"
| "arg_statusError tag (AErr e) = as_statusError tag e"
| "arg_statusError tag (AStr _) = None"
| "arg_statusError tag (AInt _) = None"
| "arg_statusError tag (AVal _) = None"
| "arg_statusError tag (AText _) = None"

lemma as_statusError_self [simp]: "as_statusError tag (statusError tag code message) = Some (code, message)"
  by (simp add: statusError_def status_parts_def)

text \<open>The status survives what the runner wraps around the error of a step.\<close>

lemma as_statusError_step: "as_statusError tag (stepExecutionError s e) = as_statusError tag e"
  by (simp add: stepExecutionError_def status_parts_def split: option.split)

section \<open>Polling\<close>

text \<open>
  \<open>backoff.Retry\<close> with a patient policy: unlike in \<^const>\<open>retry_runs\<close> it gives up only when the context
  of the call is done.
\<close>

inductive patient_runs ::
    "'w runtime \<Rightarrow> ('w \<Rightarrow> 'w \<Rightarrow> bool) \<Rightarrow> ('w \<times> 'l) operation \<Rightarrow> 'w \<times> 'l \<Rightarrow> ('w \<times> 'l) \<times> gval \<times> err option \<Rightarrow> bool"
  for rt :: "'w runtime" and env :: "'w \<Rightarrow> 'w \<Rightarrow> bool" and op :: "('w \<times> 'l) operation" where
  succeeds: "op s = (s', v, None) \<Longrightarrow> patient_runs rt env op s (s', v, None)"
| stops: "op s = (s', v, Some (Permanent e)) \<Longrightarrow> patient_runs rt env op s (s', v, Some e)"
| expires: "op s = ((w, l), v, Some (Transient e)) \<Longrightarrow> env w w' \<Longrightarrow> rt_ctxErr rt w' \<noteq> None \<Longrightarrow>
    patient_runs rt env op s ((w', l), v, Some e')"
| again: "op s = ((w, l), v, Some (Transient e)) \<Longrightarrow> env w w' \<Longrightarrow> patient_runs rt env op (w', l) r \<Longrightarrow>
    patient_runs rt env op s r"

inductive_cases patient_runsE: "patient_runs rt env op s r"

text \<open>
  What \<open>backoff\<close> documents as the default of \<open>WithMaxElapsedTime\<close>, in nanoseconds: \<open>Retry\<close> also gives up when
  the next wait would end later than 15 minutes after its start.  The runner does not change the
  default.  With a policy whose timeout and interval add up to less, the context is done before.
\<close>

definition DefaultMaxElapsedTime :: int where "DefaultMaxElapsedTime = 15 * 60 * 1000000000"

definition within_elapsed :: "awaitRetry \<Rightarrow> bool" where
  "within_elapsed p \<longleftrightarrow>
     wrap64 (ar_timeoutMS p * 1000000) + wrap64 (ar_intervalMS p * 1000000) < DefaultMaxElapsedTime"

text \<open>
  What a case of an example relies on: the retries are patient within that time, and neither waiting
  nor a change of the context touches the client.
\<close>

definition patient :: "(('c \<times> 'x) \<Rightarrow> ('c \<times> 'x) \<Rightarrow> bool) \<Rightarrow> ('c \<times> 'x) runtime \<Rightarrow> bool" where
  "patient env rt \<longleftrightarrow>
     (\<forall>op timeout interval w l. timeout + interval < DefaultMaxElapsedTime \<longrightarrow>
        patient_runs rt env op (rt_withTimeout rt timeout w, l)
          (rt_retry rt op interval (rt_withTimeout rt timeout w, l))) \<and>
     (\<forall>w w'. env w w' \<longrightarrow> fst w' = fst w) \<and>
     (\<forall>d w. fst (rt_withTimeout rt d w) = fst w) \<and> (\<forall>w. fst (rt_cancel rt w) = fst w)"

lemma patient_retry:
  "patient env rt \<Longrightarrow> within_elapsed p \<Longrightarrow>
     patient_runs rt env op (rt_withTimeout rt (wrap64 (ar_timeoutMS p * 1000000)) w, l)
       (rt_retry rt op (wrap64 (ar_intervalMS p * 1000000)) (rt_withTimeout rt (wrap64 (ar_timeoutMS p * 1000000)) w, l))"
  unfolding patient_def within_elapsed_def by blast

text \<open>A handler answers a request from the client alone.\<close>

definition answers :: "('c \<times> 'x) handler \<Rightarrow> gval \<Rightarrow> 'c \<Rightarrow> 'c \<Rightarrow> gval \<Rightarrow> err option \<Rightarrow> bool" where
  "answers handler q c c' v e \<longleftrightarrow> (\<forall>x. h_invoke handler (c, x) q = ((c', x), v, e))"

lemma answers_example:
  "serve client v = Some (client', response, e) \<Longrightarrow>
     answers (exampleHandler name dreq dresp serve) (box_ptr v) client client' (box_result response) e"
  by (simp add: answers_def exampleHandler_invoke)

text \<open>
  When the first call fails and the second one succeeds, an await step with at least two attempts
  succeeds, even if the deadline passes in between: then the runner makes the second call itself.
\<close>

lemma await_second_call:
  assumes rt: "patient env rt"
    and "answers handler (request_value (st_request s)) c0 c1 v1 (Some e1)"
    and "answers handler (request_value (st_request s)) c1 c2 v2 None"
    and "st_retry s = Some p" "2 \<le> ar_maxAttempts p" "within_elapsed p"
  shows "\<exists>x'. executeAwaitStep rt handler (c0, x) s = ((c2, x'), Inr v2)"
proof -
  let ?q = "request_value (st_request s)" and ?n = "ar_maxAttempts p"
  let ?w0 = "rt_withTimeout rt (wrap64 (ar_timeoutMS p * 1000000)) (c0, x)"
  let ?vars = "\<lparr>av_lastObservedOutput = VInvalid, av_lastObservedErr = None, av_attemptsMade = 0\<rparr>"
  let ?op = "awaitOperation handler ?q ?n"
  have fsts: "fst (rt_withTimeout rt d w) = fst w" "fst (rt_cancel rt w) = fst w" "env w w' \<Longrightarrow> fst w' = fst w" for w w' d
    using rt unfolding patient_def by blast+
  note pat = patient_retry [OF rt assms(6)]
  obtain x0 where w0: "?w0 = (c0, x0)" using fsts(1) by (metis fst_conv prod.collapse)
  have inv: "h_invoke handler (c0, y) ?q = ((c1, y), v1, Some e1)" "h_invoke handler (c1, y) ?q = ((c2, y), v2, None)" for y
    using assms(2,3) by (auto simp: answers_def)
  let ?vars1 = "\<lparr>av_lastObservedOutput = v1, av_lastObservedErr = Some e1, av_attemptsMade = 1\<rparr>"
  have op1: "?op ((c0, x0), ?vars) = (((c1, x0), ?vars1), v1, Some (Transient e1))"
    using assms(5) inv(1) by (simp add: awaitOperation_def)
  have op2: "?op ((c1, y), ?vars1) = (((c2, y), ?vars1\<lparr>av_attemptsMade := 2\<rparr>), v2, None)" for y
    using inv(2) by (simp add: awaitOperation_def)
  obtain w1 vars res err where run: "rt_retry rt ?op (wrap64 (ar_intervalMS p * 1000000)) ((c0, x0), ?vars) = ((w1, vars), res, err)"
    by (metis prod.exhaust)
  have "err = None \<and> res = v2 \<and> fst w1 = c2 \<or>
      err \<noteq> None \<and> rt_ctxErr rt w1 \<noteq> None \<and> vars = ?vars1 \<and> fst w1 = c1"
    using pat [of ?op "(c0, x)" ?vars] unfolding w0 run
  proof (cases rule: patient_runs.cases)
    case (again w l v e w')
    then have l: "l = ?vars1" "fst w' = c1" using op1 fsts(3) [of w w'] by auto
    then obtain y where "w' = (c1, y)" by (cases w') auto
    with again(3) l op2 [of y] show ?thesis by (auto elim: patient_runsE)
  qed (use op1 fsts(3) in auto)
  then show ?thesis
  proof (elim disjE conjE)
    assume h: "err = None" "res = v2" "fst w1 = c2"
    obtain x' where "rt_cancel rt w1 = (c2, x')" using fsts(2) [of w1] h by (metis prod.collapse)
    then show ?thesis using assms(4,5) run h by (simp add: executeAwaitStep_def Let_def w0)
  next
    assume h: "err \<noteq> None" "rt_ctxErr rt w1 \<noteq> None" "vars = ?vars1" "fst w1 = c1"
    then obtain y where y: "w1 = (c1, y)" by (cases w1) auto
    obtain x' where "rt_cancel rt (c2, y) = (c2, x')" using fsts(2) [of "(c2, y)"] by (metis fst_conv prod.collapse)
    then show ?thesis using assms(4,5) run h inv(2) [of y] by (auto simp: executeAwaitStep_def Let_def w0 y)
  qed
qed

text \<open>
  When no call can succeed from the clients that satisfy \<open>I\<close>, the await step fails with the error of a
  call, wrapped so that its status stays visible.
\<close>

lemma as_statusError_await:
  "as_statusError tag (buildAwaitRetryError rt w s p n out (Some e) cause) = as_statusError tag e"
  by (simp add: buildAwaitRetryError_def Let_def status_parts_def split: option.split)

lemma patient_never:
  assumes "patient_runs rt env (awaitOperation handler q n) t r"
    and env: "\<And>w w'. env w w' \<Longrightarrow> fst w' = fst w"
    and calls: "\<And>c. I c \<Longrightarrow> \<exists>c' v e. answers handler q c c' v (Some e) \<and> I c' \<and> Q e"
    and "I (fst (fst t))"
  shows "snd (snd r) \<noteq> None \<and> I (fst (fst (fst r))) \<and>
    (\<exists>e. av_lastObservedErr (snd (fst r)) = Some e \<and> Q e)"
proof -
  have op: "\<exists>e c'. u = (((c', x), l\<lparr>av_lastObservedOutput := fst (snd u), av_lastObservedErr := Some e,
        av_attemptsMade := av_attemptsMade l + 1\<rparr>), fst (snd u),
      Some (if n \<le> av_attemptsMade l + 1 then Permanent e else Transient e)) \<and> I c' \<and> Q e"
    if "awaitOperation handler q n ((c, x), l) = u" "I c" for c x l u
    using calls [OF that(2)] that(1) by (cases l) (fastforce simp: answers_def awaitOperation_def)
  show ?thesis
    using assms(1,4)
  proof (induction rule: patient_runs.induct)
    case (succeeds t t' v)
    then show ?case using op [of "fst (fst t)" "snd (fst t)" "snd t"] by fastforce
  next
    case (stops t t' v e)
    then show ?case using op [of "fst (fst t)" "snd (fst t)" "snd t"] by fastforce
  next
    case (expires t w l v e w' e')
    then show ?case using op [of "fst (fst t)" "snd (fst t)" "snd t"] env [of w w'] by fastforce
  next
    case (again t w l v e w' r)
    then show ?case using op [of "fst (fst t)" "snd (fst t)" "snd t"] env [of w w'] by fastforce
  qed
qed

lemma await_never:
  assumes rt: "patient env rt"
    and calls: "\<And>c. I c \<Longrightarrow> \<exists>c' v e. answers handler (request_value (st_request s)) c c' v (Some e) \<and> I c' \<and> Q e"
    and "I c0" "st_retry s = Some p" "0 < ar_maxAttempts p" "within_elapsed p"
  shows "\<exists>w' e0 e. executeAwaitStep rt handler (c0, x) s = (w', Inl e) \<and> I (fst w') \<and> Q e0 \<and>
    as_statusError tag e = as_statusError tag e0"
proof -
  let ?q = "request_value (st_request s)" and ?n = "ar_maxAttempts p"
  let ?w0 = "rt_withTimeout rt (wrap64 (ar_timeoutMS p * 1000000)) (c0, x)"
  let ?vars = "\<lparr>av_lastObservedOutput = VInvalid, av_lastObservedErr = None, av_attemptsMade = 0\<rparr>"
  have fsts: "fst (rt_withTimeout rt d w) = fst w" "fst (rt_cancel rt w) = fst w" "env w w' \<Longrightarrow> fst w' = fst w" for w w' d
    using rt unfolding patient_def by blast+
  note pat = patient_retry [OF rt assms(6)]
  obtain w1 vars res err where run: "rt_retry rt (awaitOperation handler ?q ?n)
      (wrap64 (ar_intervalMS p * 1000000)) (?w0, ?vars) = ((w1, vars), res, err)"
    by (metis prod.exhaust)
  have "patient_runs rt env (awaitOperation handler ?q ?n) (?w0, ?vars) ((w1, vars), res, err)"
    using pat run by metis
  from patient_never [OF this fsts(3) calls] assms(3) fsts(1)
  have r: "err \<noteq> None" "I (fst w1)" "\<exists>e. av_lastObservedErr vars = Some e \<and> Q e" by auto
  obtain c1 y where w1: "w1 = (c1, y)" by (cases w1)
  obtain c2 v2 e2 where last: "answers handler ?q c1 c2 v2 (Some e2)" "I c2" "Q e2"
    using calls [of c1] r(2) by (auto simp: w1)
  show ?thesis
  proof (cases "rt_ctxErr rt w1 \<noteq> None \<and> av_attemptsMade vars < ?n")
    case True
    obtain y' where c: "rt_cancel rt (c2, y) = (c2, y')"
      using fsts(2) [of "(c2, y)"] by (cases "rt_cancel rt (c2, y)") auto
    have "\<exists>e. executeAwaitStep rt handler (c0, x) s = ((c2, y'), Inl e) \<and> as_statusError tag e = as_statusError tag e2"
      using True assms(4,5) run r(1) last(1) c
      by (auto simp: executeAwaitStep_def Let_def w1 answers_def as_statusError_await)
    then show ?thesis using last(2,3) by fastforce
  next
    case False
    obtain e0 where e0: "av_lastObservedErr vars = Some e0" "Q e0" using r(3) by blast
    obtain y' where c: "rt_cancel rt w1 = (c1, y')"
      using fsts(2) [of w1] by (cases "rt_cancel rt w1") (auto simp: w1)
    have "\<exists>e. executeAwaitStep rt handler (c0, x) s = ((c1, y'), Inl e) \<and> as_statusError tag e = as_statusError tag e0"
      using False assms(4,5) run r(1) e0(1) c
      by (auto simp: executeAwaitStep_def Let_def as_statusError_await)
    then show ?thesis using r(2) e0(2) by (fastforce simp: w1)
  qed
qed

text \<open>
  A method that is polled: from a client on which it waits, its first call fails and the second one
  settles the client with an answer.
\<close>

locale polled =
  fixes poll :: "'c \<Rightarrow> 'r \<Rightarrow> 'c \<times> 'a \<times> err option"
    and waiting :: "'c \<Rightarrow> 'r \<Rightarrow> bool" and settled :: "'c \<Rightarrow> 'r \<Rightarrow> 'c" and answer :: "'c \<Rightarrow> 'r \<Rightarrow> 'a"
  assumes settles: "waiting c r \<Longrightarrow>
    \<exists>c1 a e. poll c r = (c1, a, Some e) \<and> poll c1 r = (settled c r, answer c r, None)"
begin

lemma await_settled:
  assumes "patient env rt" "waiting c r" "st_retry s = Some p" "2 \<le> ar_maxAttempts p" "within_elapsed p"
    and handler: "\<And>c c' a e. poll c r = (c', a, e) \<Longrightarrow>
      answers handler (request_value (st_request s)) c c' (out a) e"
  shows "\<exists>x'. executeAwaitStep rt handler (c, x) s = ((settled c r, x'), Inr (out (answer c r)))"
proof -
  obtain c1 a e where "poll c r = (c1, a, Some e)" "poll c1 r = (settled c r, answer c r, None)"
    using settles [OF assms(2)] by blast
  from await_second_call [OF assms(1) handler [OF this(1)] handler [OF this(2)] assms(3-5)] show ?thesis .
qed

end

section \<open>Steps of a case\<close>

text \<open>A step as the loader builds it: the handler comes from the registry, the request is decoded.\<close>

definition exampleStep ::
    "'w handler mapRegistry \<Rightarrow> string \<Rightarrow> string \<Rightarrow> string \<Rightarrow> 'v :: countable \<Rightarrow> awaitRetry option \<Rightarrow> 'w step" where
  "exampleStep registry i kind name request retry = \<lparr>st_id = i, st_kind = kind, st_handlerName = name,
     st_handler = (case mapRegistryResolve registry name of Inl _ \<Rightarrow> None | Inr h \<Rightarrow> Some h),
     st_request = Ready (box_ptr request), st_retry = retry\<rparr>"

text \<open>A run without an error so far: the client and the recorded outputs.\<close>

definition run_at :: "'c \<Rightarrow> gval gomap \<Rightarrow> ('c \<times> 'x) run_state \<Rightarrow> bool" where
  "run_at c outs st \<longleftrightarrow> fst (rs_world st) = c \<and> rs_stepOutputs st = outs \<and> wf_map outs \<and>
     rs_executionErr st = None"

lemma run_at_initial [simp]: "run_at c [] (initialRun (c, x))"
  by (simp add: run_at_def initialRun_def)

text \<open>How the rest of a case ends.\<close>

definition ends :: "'w runtime \<Rightarrow> 'w step list \<Rightarrow> 'w run_state \<Rightarrow> ('w run_state \<Rightarrow> bool) \<Rightarrow> bool" where
  "ends rt ss st Q \<longleftrightarrow> (\<exists>st'. runSteps rt ss st = Some st' \<and> Q st')"

lemma ends_Nil: "Q st \<Longrightarrow> ends rt [] st Q"
  by (simp add: ends_def)

lemma exampleStep_simps [simp]:
  "st_id (exampleStep reg i k n q r) = i" "st_kind (exampleStep reg i k n q r) = k"
  "st_request (exampleStep reg i k n q r) = Ready (box_ptr q)" "st_retry (exampleStep reg i k n q r) = r"
  "mapRegistryResolve reg n = Inr h \<Longrightarrow> st_handler (exampleStep reg i k n q r) = Some h"
  by (simp_all add: exampleStep_def)

lemma request_value_Ready [simp]: "request_value (Ready v) = v"
  by (simp add: request_value_def)

lemma runSteps_at:
  assumes "run_at c outs st" "mapRegistryResolve reg n = Inr h"
    and "\<And>x. \<exists>x'. executeCaseStep rt (c, x) (exampleStep reg i k n q r) = ((c', x'), Inr v)"
    and "\<And>st'. run_at c' (mput i v outs) st' \<Longrightarrow> ends rt ss st' Q"
  shows "ends rt (exampleStep reg i k n q r # ss) st Q"
proof -
  let ?s = "exampleStep reg i k n q r"
  have s: "?s\<lparr>st_request := Ready (box_ptr q)\<rparr> = ?s" by (simp add: exampleStep_def)
  obtain x where w: "rs_world st = (c, x)" using assms(1) by (cases "rs_world st") (simp add: run_at_def)
  obtain x' where x: "executeCaseStep rt (c, x) ?s = ((c', x'), Inr v)" using assms(3) by blast
  have "\<exists>st'. runStep rt ?s st = Some st' \<and> run_at c' (mput i v outs) st'"
    using assms(1) x by (simp add: runStep_def run_at_def resolveStepRequest_def s w Let_def)
  then show ?thesis using assms(4) by (auto simp: ends_def)
qed

lemma ends_step:
  assumes "run_at c outs st" "mapRegistryResolve reg n = Inr h" "k \<noteq> StepKindAwait"
    and "answers h (box_ptr q) c c' v None"
    and "\<And>st'. run_at c' (mput i v outs) st' \<Longrightarrow> ends rt ss st' Q"
  shows "ends rt (exampleStep reg i k n q r # ss) st Q"
  using assms(3,4) by (intro runSteps_at [OF assms(1,2) _ assms(5)]) (auto simp: executeCaseStep_def answers_def assms(2))

lemma ends_await:
  assumes "run_at c outs st" "mapRegistryResolve reg n = Inr h"
    and "\<And>x. \<exists>x'. executeAwaitStep rt h (c, x) (exampleStep reg i StepKindAwait n q r) = ((c', x'), Inr v)"
    and "\<And>st'. run_at c' (mput i v outs) st' \<Longrightarrow> ends rt ss st' Q"
  shows "ends rt (exampleStep reg i StepKindAwait n q r # ss) st Q"
  using assms(3) by (intro runSteps_at [OF assms(1,2) _ assms(4)]) (auto simp: executeCaseStep_def assms(2))

text \<open>A step that fails ends the case when no cleanup step follows.\<close>

lemma ends_failed:
  assumes "run_at c outs st" "mapRegistryResolve reg n = Inr h" "k \<noteq> StepKindCleanup"
    and "\<And>x. \<exists>w e. executeCaseStep rt (c, x) (exampleStep reg i k n q r) = (w, Inl e) \<and> R w e"
    and "\<forall>s \<in> set ss. st_kind s \<noteq> StepKindCleanup"
    and "\<And>st' e. rs_executionErr st' = Some e \<Longrightarrow> R (rs_world st') e \<Longrightarrow> Q st'"
  shows "ends rt (exampleStep reg i k n q r # ss) st Q"
proof -
  let ?s = "exampleStep reg i k n q r"
  have s: "?s\<lparr>st_request := Ready (box_ptr q)\<rparr> = ?s" by (simp add: exampleStep_def)
  obtain x where w: "rs_world st = (c, x)" using assms(1) by (cases "rs_world st") (simp add: run_at_def)
  obtain w' e where x: "executeCaseStep rt (c, x) ?s = (w', Inl e)" "R w' e" using assms(4) by blast
  obtain st1 where st1: "runStep rt ?s st = Some st1" "rs_executionErr st1 = Some e" "rs_world st1 = w'"
    using assms(1,3) x(1) by (simp add: runStep_def run_at_def resolveStepRequest_def failStep_def s w Let_def)
  have "filter (\<lambda>s. st_kind s = StepKindCleanup) ss = []" using assms(5) by (simp add: filter_empty_conv)
  with runSteps_failed [of st1 rt ss] st1(2)
  have "map_option forget_steps (runSteps rt ss st1) = Some (forget_steps st1)" by simp
  then obtain st' where st': "runSteps rt ss st1 = Some st'" "forget_steps st1 = forget_steps st'" by auto
  then have "rs_executionErr st' = Some e" "rs_world st' = w'" using st1 forget_eq [of st1 st'] by auto
  then show ?thesis using assms(6) st1(1) st'(1) x(2) by (auto simp: ends_def)
qed

lemma ends_refused:
  assumes "run_at c outs st" "mapRegistryResolve reg n = Inr h" "k \<noteq> StepKindCleanup" "k \<noteq> StepKindAwait"
    and "answers h (box_ptr q) c c' v (Some e)"
    and "\<forall>s \<in> set ss. st_kind s \<noteq> StepKindCleanup"
    and "\<And>st' e'. rs_executionErr st' = Some e' \<Longrightarrow> fst (rs_world st') = c' \<Longrightarrow>
      (\<And>tag. as_statusError tag e' = as_statusError tag e) \<Longrightarrow> Q st'"
  shows "ends rt (exampleStep reg i k n q r # ss) st Q"
  by (rule ends_failed [OF assms(1,2,3) _ assms(6), where R = "\<lambda>w e'. fst w = c' \<and> (\<forall>tag. as_statusError tag e' = as_statusError tag e)"])
     (use assms(4,5) in \<open>auto simp: executeCaseStep_def answers_def assms(2) as_statusError_step intro: assms(7)\<close>)

text \<open>A world with a deadline flag, and a retrier that tries twice and then waits for the deadline.\<close>

definition until_late :: "(('c \<times> bool) \<times> 'l) retrier" where
  "until_late op interval s =
     (let (s1, v, r) = op s in
      case r of
        None \<Rightarrow> (s1, v, None)
      | Some (Permanent e) \<Rightarrow> (s1, v, Some e)
      | Some (Transient e) \<Rightarrow>
          (let (s2, v2, r2) = op s1 in
           case r2 of
             None \<Rightarrow> (s2, v2, None)
           | Some (Permanent e2) \<Rightarrow> (s2, v2, Some e2)
           | Some (Transient e2) \<Rightarrow> (((fst (fst s2), True), snd s2), v2, Some contextDeadlineExceeded)))"

definition late_runtime :: "('c \<times> bool) runtime" where
  "late_runtime = \<lparr>rt_withTimeout = (\<lambda>d w. w), rt_cancel = (\<lambda>w. w),
     rt_ctxErr = (\<lambda>w. if snd w then Some contextDeadlineExceeded else None),
     rt_retry = until_late, rt_mem = (\<lambda>w. []), rt_marshal = (\<lambda>h v. json_marshal (gval_json v)),
     rt_sprint = (\<lambda>w v. [])\<rparr>"

lemma late_runtime_patient: "patient (\<lambda>w w'. fst w' = fst w) late_runtime"
proof -
  have "patient_runs late_runtime (\<lambda>w w'. fst w' = fst w) op s (until_late op interval s)"
    for op interval and s :: "('c \<times> bool) \<times> await_vars"
  proof -
    obtain w1 l1 v r where 1: "op s = ((w1, l1), v, r)" by (metis prod.exhaust)
    obtain w2 l2 v2 r2 where 2: "op (w1, l1) = ((w2, l2), v2, r2)" by (metis prod.exhaust)
    have "patient_runs late_runtime (\<lambda>w w'. fst w' = fst w) op s (((fst w2, True), l2), v2, Some contextDeadlineExceeded)"
      if "r = Some (Transient e)" "r2 = Some (Transient e2)" for e e2
      using 1 2 that
      by (intro patient_runs.again [of op s w1 l1 v e _ w1] patient_runs.expires [of op _ w2 l2 v2 e2])
         (simp_all add: late_runtime_def)
    then show ?thesis
      using 1 2 by (auto simp: until_late_def intro: patient_runs.intros split: option.split retry_error.split)
  qed
  moreover have "rt_retry late_runtime = until_late" "rt_withTimeout late_runtime d w = w" "rt_cancel late_runtime w = w"
    for d and w :: "'c \<times> bool"
    by (simp_all add: late_runtime_def)
  ultimately show ?thesis unfolding patient_def by metis
qed

end
