(* ===== verification/AsyncExample.thy ===== *)
theory AsyncExample
  imports ExampleKit
begin

text \<open>
  The sample service \<open>docs/itestkit/examples/extapiasync\<close>: orders that are charged at an external API by
  a worker, which an await step drives.  \<open>client.go\<close> with the service, \<open>handlers.go\<close>, \<open>codec.go\<close> and
  \<open>registry.go\<close>.
\<close>

section \<open>The structs\<close>

definition asyncProcessReadyAttempt :: int where "asyncProcessReadyAttempt = 2"
definition asyncOrderStatePending :: string where "asyncOrderStatePending = ''pending''"
definition asyncOrderStateProcessed :: string where "asyncOrderStateProcessed = ''processed''"

datatype seedOrder = SeedOrder (so_OrderID: string) (so_Amount: int)
datatype externalChargeRequest = ExternalChargeRequest (ecq_OrderID: string) (ecq_Amount: int)
datatype externalChargeResponse = ExternalChargeResponse (ecs_Result: string) (ecs_ApprovalCode: string)

text \<open>The requests and responses that are passed as \<open>any\<close>, with their fields.\<close>

datatype asyncAny =
    SeedDataRequest "seedOrder list"
  | SeedDataResponse int
  | PlanExternalChargeRequest externalChargeRequest externalChargeResponse
  | PlanExternalChargeResponse bool
  | SubmitOrderRequest string
  | SubmitOrderResponse string string
  | AwaitExternalSyncRequest string
  | AwaitExternalSyncResponse string string int
  | VerifyExternalChargeRequest string
  | VerifyExternalChargeResponse bool int externalChargeRequest
  | GetOrderRequest string
  | GetOrderResponse string bool string string

instance seedOrder :: countable by countable_datatype
instance externalChargeRequest :: countable by countable_datatype
instance externalChargeResponse :: countable by countable_datatype
instance asyncAny :: countable by countable_datatype

record asyncOrderRecord =
  or_OrderID :: string
  or_Amount :: int
  or_Processed :: bool
  or_ExternalResult :: string
  or_ApprovalCode :: string

record externalChargeExpectation =
  ee_Planned :: bool
  ee_ExpectedRequest :: externalChargeRequest
  ee_StubResponse :: externalChargeResponse

record asyncClient =
  ac_orders :: "asyncOrderRecord gomap"
  ac_expectation :: externalChargeExpectation
  ac_externalCalls :: "externalChargeRequest list"
  ac_workerAttempts :: "int gomap"
  ac_pendingOrderID :: "string list"

definition noExpectation :: externalChargeExpectation where
  "noExpectation = \<lparr>ee_Planned = False, ee_ExpectedRequest = ExternalChargeRequest [] 0,
     ee_StubResponse = ExternalChargeResponse [] []\<rparr>"

definition newAsyncClient :: asyncClient where
  "newAsyncClient = \<lparr>ac_orders = [], ac_expectation = noExpectation, ac_externalCalls = [],
     ac_workerAttempts = [], ac_pendingOrderID = []\<rparr>"

section \<open>The errors\<close>

definition asyncStatusOK :: string where "asyncStatusOK = ''OK''"
definition asyncStatusFailed :: string where "asyncStatusFailed = ''ERROR''"

definition asyncStatusError :: "string \<Rightarrow> err \<Rightarrow> err" where
  "asyncStatusError code message = statusError ''asyncStatusError'' code message"

definition asyncStatusCodec :: "string statusCodec" where
  "asyncStatusCodec = \<lparr>
     sc_parse = (\<lambda>raw.
       if raw = asyncStatusOK then Inr asyncStatusOK
       else if raw = asyncStatusFailed then Inr asyncStatusFailed
       else Inl (Errorf ''unsupported status code: %q'' [AStr raw])),
     sc_success = asyncStatusOK\<rparr>"

text \<open>\<open>text\<close> is the text of an error.\<close>

definition asyncErrorInspector :: "(err \<Rightarrow> string) \<Rightarrow> string errorInspector" where
  "asyncErrorInspector text e =
     (case as_statusError ''asyncStatusError'' e of None \<Rightarrow> None | Some (code, message) \<Rightarrow> Some (code, text message))"

section \<open>The service\<close>

definition isPendingOrder :: "asyncClient \<Rightarrow> string \<Rightarrow> bool" where
  "isPendingOrder client orderID \<longleftrightarrow> orderID \<in> set (ac_pendingOrderID client)"

definition enqueuePendingOrder :: "asyncClient \<Rightarrow> string \<Rightarrow> asyncClient" where
  "enqueuePendingOrder client orderID =
     (if isPendingOrder client orderID then client
      else client\<lparr>ac_pendingOrderID := ac_pendingOrderID client @ [orderID]\<rparr>)"

text \<open>The loop drops the first occurrence.\<close>

fun removePending :: "string \<Rightarrow> string list \<Rightarrow> string list" where
  "removePending orderID [] = []"
| "removePending orderID (p # ps) = (if p \<noteq> orderID then p # removePending orderID ps else ps)"

definition removePendingOrder :: "asyncClient \<Rightarrow> string \<Rightarrow> asyncClient" where
  "removePendingOrder client orderID =
     client\<lparr>ac_pendingOrderID := removePending orderID (ac_pendingOrderID client)\<rparr>"

definition invokeExternalCharge ::
    "asyncClient \<Rightarrow> externalChargeRequest \<Rightarrow> asyncClient \<times> externalChargeResponse result" where
  "invokeExternalCharge client request =
     (let e = ac_expectation client; want = ee_ExpectedRequest e in
      if \<not> ee_Planned e then (client, Inl (Err ''external expectation is not planned''))
      else if request \<noteq> want then
        (client, Inl (Errorf ''external request mismatch: want %+v got %+v''
           [AStr (ecq_OrderID want), AInt (ecq_Amount want), AStr (ecq_OrderID request), AInt (ecq_Amount request)]))
      else (client\<lparr>ac_externalCalls := ac_externalCalls client @ [request]\<rparr>, Inr (ee_StubResponse e)))"

definition SeedData :: "asyncClient \<Rightarrow> seedOrder list \<Rightarrow> asyncClient \<times> asyncAny option \<times> err option" where
  "SeedData client orders =
     (client\<lparr>
        ac_orders := mcopy [] (map (\<lambda>order. (so_OrderID order,
          \<lparr>or_OrderID = so_OrderID order, or_Amount = so_Amount order, or_Processed = False,
           or_ExternalResult = [], or_ApprovalCode = []\<rparr>)) orders),
        ac_expectation := noExpectation, ac_externalCalls := [], ac_workerAttempts := [], ac_pendingOrderID := []\<rparr>,
      Some (SeedDataResponse (int (length orders))), None)"

definition PlanExternalCharge ::
    "asyncClient \<Rightarrow> externalChargeRequest \<Rightarrow> externalChargeResponse \<Rightarrow> asyncClient \<times> asyncAny option \<times> err option" where
  "PlanExternalCharge client expectedRequest stubResponse =
     (client\<lparr>
        ac_expectation := \<lparr>ee_Planned = True, ee_ExpectedRequest = expectedRequest, ee_StubResponse = stubResponse\<rparr>,
        ac_externalCalls := []\<rparr>,
      Some (PlanExternalChargeResponse True), None)"

definition notFound :: "string \<Rightarrow> err" where
  "notFound orderID = asyncStatusError asyncStatusFailed (Errorf ''order %q is not found'' [AStr orderID])"

definition SubmitOrder :: "asyncClient \<Rightarrow> string \<Rightarrow> asyncClient \<times> asyncAny option \<times> err option" where
  "SubmitOrder client orderID =
     (case mget (ac_orders client) orderID of
        None \<Rightarrow> (client, None, Some (notFound orderID))
      | Some _ \<Rightarrow> (enqueuePendingOrder client orderID, Some (SubmitOrderResponse orderID ''queued''), None))"

definition attempts_of :: "asyncClient \<Rightarrow> string \<Rightarrow> int" where
  "attempts_of client orderID = (case mget (ac_workerAttempts client) orderID of None \<Rightarrow> 0 | Some n \<Rightarrow> n)"

definition AwaitExternalSync :: "asyncClient \<Rightarrow> string \<Rightarrow> asyncClient \<times> asyncAny option \<times> err option" where
  "AwaitExternalSync client orderID =
     (case mget (ac_orders client) orderID of
        None \<Rightarrow> (client, None, Some (notFound orderID))
      | Some order \<Rightarrow>
          if or_Processed order then
            (client, Some (AwaitExternalSyncResponse orderID asyncOrderStateProcessed (attempts_of client orderID)), None)
          else if \<not> isPendingOrder client orderID then
            (client, Some (AwaitExternalSyncResponse orderID ''missing'' (attempts_of client orderID)),
             Some (asyncStatusError asyncStatusFailed (Err ''order is not queued for processing'')))
          else
            (let attempt = attempts_of client orderID + 1;
                 client1 = client\<lparr>ac_workerAttempts := mput orderID attempt (ac_workerAttempts client)\<rparr> in
             if attempt < asyncProcessReadyAttempt then
               (client1, Some (AwaitExternalSyncResponse orderID asyncOrderStatePending attempt),
                Some (asyncStatusError asyncStatusFailed (Err ''external sync is not completed yet'')))
             else case invokeExternalCharge client1 (ExternalChargeRequest (or_OrderID order) (or_Amount order)) of
                (client2, Inl e) \<Rightarrow>
                  (client2, Some (AwaitExternalSyncResponse orderID asyncOrderStatePending attempt),
                   Some (asyncStatusError asyncStatusFailed (Errorf ''external charge failed: %v'' [AText e])))
              | (client2, Inr response) \<Rightarrow>
                  (let order' = order\<lparr>or_Processed := True, or_ExternalResult := ecs_Result response,
                                      or_ApprovalCode := ecs_ApprovalCode response\<rparr>;
                       client3 = client2\<lparr>ac_orders := mput (or_OrderID order) order' (ac_orders client2)\<rparr>
                   in (removePendingOrder client3 (or_OrderID order),
                       Some (AwaitExternalSyncResponse orderID asyncOrderStateProcessed attempt), None))))"

definition VerifyExternalCharge :: "asyncClient \<Rightarrow> string \<Rightarrow> asyncClient \<times> asyncAny option \<times> err option" where
  "VerifyExternalCharge client orderID =
     (let calls = ac_externalCalls client in
      if length calls = 0 then
        (client, None, Some (asyncStatusError asyncStatusFailed (Err ''external API was not called'')))
      else
        (let lastRequest = calls ! (length calls - 1) in
         if ecq_OrderID lastRequest \<noteq> orderID then
           (client, None, Some (asyncStatusError asyncStatusFailed
              (Errorf ''unexpected external order id: got %q'' [AStr (ecq_OrderID lastRequest)])))
         else (client, Some (VerifyExternalChargeResponse True (int (length calls)) lastRequest), None)))"

definition GetOrder :: "asyncClient \<Rightarrow> string \<Rightarrow> asyncClient \<times> asyncAny option \<times> err option" where
  "GetOrder client orderID =
     (case mget (ac_orders client) orderID of
        None \<Rightarrow> (client, None, Some (notFound orderID))
      | Some order \<Rightarrow>
          (client, Some (GetOrderResponse (or_OrderID order) (or_Processed order) (or_ExternalResult order)
             (or_ApprovalCode order)), None))"

section \<open>The handlers\<close>

definition storeSeedOrder :: "seedOrder \<Rightarrow> string \<Rightarrow> seedOrder result" where
  "storeSeedOrder v raw =
     rbind (decode_struct [''order_id'', ''amount''] raw) (\<lambda>ms.
     rbind (store_all store_string (so_OrderID v) (field_values ms ''order_id'')) (\<lambda>i.
     rbind (store_all store_int (so_Amount v) (field_values ms ''amount'')) (\<lambda>a.
     Inr (SeedOrder i a))))"

definition storeSeedDataRequest :: "seedOrder list \<Rightarrow> string \<Rightarrow> seedOrder list result" where
  "storeSeedDataRequest v raw =
     rbind (decode_struct [''orders''] raw) (\<lambda>ms.
       store_all (store_slice storeSeedOrder (SeedOrder [] 0)) v (field_values ms ''orders''))"

definition storeExternalChargeRequest :: "externalChargeRequest \<Rightarrow> string \<Rightarrow> externalChargeRequest result" where
  "storeExternalChargeRequest v raw =
     rbind (decode_struct [''order_id'', ''amount''] raw) (\<lambda>ms.
     rbind (store_all store_string (ecq_OrderID v) (field_values ms ''order_id'')) (\<lambda>i.
     rbind (store_all store_int (ecq_Amount v) (field_values ms ''amount'')) (\<lambda>a.
     Inr (ExternalChargeRequest i a))))"

definition storeExternalChargeResponse :: "externalChargeResponse \<Rightarrow> string \<Rightarrow> externalChargeResponse result" where
  "storeExternalChargeResponse v raw =
     rbind (decode_struct [''result'', ''approval_code''] raw) (\<lambda>ms.
     rbind (store_all store_string (ecs_Result v) (field_values ms ''result'')) (\<lambda>r.
     rbind (store_all store_string (ecs_ApprovalCode v) (field_values ms ''approval_code'')) (\<lambda>a.
     Inr (ExternalChargeResponse r a))))"

definition storePlanExternalChargeRequest ::
    "externalChargeRequest \<times> externalChargeResponse \<Rightarrow> string \<Rightarrow> (externalChargeRequest \<times> externalChargeResponse) result" where
  "storePlanExternalChargeRequest v raw =
     rbind (decode_struct [''expected_request'', ''stub_response''] raw) (\<lambda>ms.
     rbind (store_all storeExternalChargeRequest (fst v) (field_values ms ''expected_request'')) (\<lambda>q.
     rbind (store_all storeExternalChargeResponse (snd v) (field_values ms ''stub_response'')) (\<lambda>s.
     Inr (q, s))))"

definition storeSubmitOrderResponse :: "string \<times> string \<Rightarrow> string \<Rightarrow> (string \<times> string) result" where
  "storeSubmitOrderResponse v raw =
     rbind (decode_struct [''order_id'', ''state''] raw) (\<lambda>ms.
     rbind (store_all store_string (fst v) (field_values ms ''order_id'')) (\<lambda>i.
     rbind (store_all store_string (snd v) (field_values ms ''state'')) (\<lambda>s.
     Inr (i, s))))"

definition storeAwaitExternalSyncResponse :: "string \<times> string \<times> int \<Rightarrow> string \<Rightarrow> (string \<times> string \<times> int) result" where
  "storeAwaitExternalSyncResponse v raw =
     rbind (decode_struct [''order_id'', ''state'', ''attempts''] raw) (\<lambda>ms.
     rbind (store_all store_string (fst v) (field_values ms ''order_id'')) (\<lambda>i.
     rbind (store_all store_string (fst (snd v)) (field_values ms ''state'')) (\<lambda>s.
     rbind (store_all store_int (snd (snd v)) (field_values ms ''attempts'')) (\<lambda>n.
     Inr (i, s, n)))))"

definition storeVerifyExternalChargeResponse ::
    "bool \<times> int \<times> externalChargeRequest \<Rightarrow> string \<Rightarrow> (bool \<times> int \<times> externalChargeRequest) result" where
  "storeVerifyExternalChargeResponse v raw =
     rbind (decode_struct [''called'', ''calls_count'', ''last_request''] raw) (\<lambda>ms.
     rbind (store_all store_bool (fst v) (field_values ms ''called'')) (\<lambda>c.
     rbind (store_all store_int (fst (snd v)) (field_values ms ''calls_count'')) (\<lambda>n.
     rbind (store_all storeExternalChargeRequest (snd (snd v)) (field_values ms ''last_request'')) (\<lambda>q.
     Inr (c, n, q)))))"

definition storeGetOrderResponse ::
    "string \<times> bool \<times> string \<times> string \<Rightarrow> string \<Rightarrow> (string \<times> bool \<times> string \<times> string) result" where
  "storeGetOrderResponse v raw =
     (case v of (v1, v2, v3, v4) \<Rightarrow>
     rbind (decode_struct [''order_id'', ''processed'', ''external_result'', ''approval_code''] raw) (\<lambda>ms.
     rbind (store_all store_string v1 (field_values ms ''order_id'')) (\<lambda>i.
     rbind (store_all store_bool v2 (field_values ms ''processed'')) (\<lambda>p.
     rbind (store_all store_string v3 (field_values ms ''external_result'')) (\<lambda>r.
     rbind (store_all store_string v4 (field_values ms ''approval_code'')) (\<lambda>a.
     Inr (i, p, r, a)))))))"

definition seedDataHandler :: "(asyncClient \<times> 'x) handler" where
  "seedDataHandler = exampleHandler ''SeedData''
     (tagged SeedDataRequest (wrapDecode ''SeedData request'' storeSeedDataRequest []))
     (tagged SeedDataResponse (decodeOrZero ''SeedData response'' (storeInt1 ''stored_orders'') 0))
     (\<lambda>client request. case request of SeedDataRequest orders \<Rightarrow> Some (SeedData client orders) | _ \<Rightarrow> None)"

definition planExternalChargeHandler :: "(asyncClient \<times> 'x) handler" where
  "planExternalChargeHandler = exampleHandler ''PlanExternalCharge''
     (tagged (\<lambda>(q, s). PlanExternalChargeRequest q s) (wrapDecode ''PlanExternalCharge request''
        storePlanExternalChargeRequest (ExternalChargeRequest [] 0, ExternalChargeResponse [] [])))
     (tagged PlanExternalChargeResponse (decodeOrZero ''PlanExternalCharge response'' (storeBool1 ''planned'') False))
     (\<lambda>client request.
        case request of PlanExternalChargeRequest q s \<Rightarrow> Some (PlanExternalCharge client q s) | _ \<Rightarrow> None)"

definition submitOrderHandler :: "(asyncClient \<times> 'x) handler" where
  "submitOrderHandler = exampleHandler ''SubmitOrder''
     (tagged SubmitOrderRequest (wrapDecode ''SubmitOrder request'' (storeString1 ''order_id'') []))
     (tagged (\<lambda>(i, s). SubmitOrderResponse i s) (decodeOrZero ''SubmitOrder response'' storeSubmitOrderResponse ([], [])))
     (\<lambda>client request. case request of SubmitOrderRequest i \<Rightarrow> Some (SubmitOrder client i) | _ \<Rightarrow> None)"

definition awaitExternalSyncHandler :: "(asyncClient \<times> 'x) handler" where
  "awaitExternalSyncHandler = exampleHandler ''AwaitExternalSync''
     (tagged AwaitExternalSyncRequest (wrapDecode ''AwaitExternalSync request'' (storeString1 ''order_id'') []))
     (tagged (\<lambda>(i, s, n). AwaitExternalSyncResponse i s n)
        (decodeOrZero ''AwaitExternalSync response'' storeAwaitExternalSyncResponse ([], [], 0)))
     (\<lambda>client request. case request of AwaitExternalSyncRequest i \<Rightarrow> Some (AwaitExternalSync client i) | _ \<Rightarrow> None)"

definition verifyExternalChargeHandler :: "(asyncClient \<times> 'x) handler" where
  "verifyExternalChargeHandler = exampleHandler ''VerifyExternalCharge''
     (tagged VerifyExternalChargeRequest (wrapDecode ''VerifyExternalCharge request'' (storeString1 ''order_id'') []))
     (tagged (\<lambda>(c, n, q). VerifyExternalChargeResponse c n q)
        (decodeOrZero ''VerifyExternalCharge response'' storeVerifyExternalChargeResponse
          (False, 0, ExternalChargeRequest [] 0)))
     (\<lambda>client request.
        case request of VerifyExternalChargeRequest i \<Rightarrow> Some (VerifyExternalCharge client i) | _ \<Rightarrow> None)"

definition getOrderHandler :: "(asyncClient \<times> 'x) handler" where
  "getOrderHandler = exampleHandler ''GetOrder''
     (tagged GetOrderRequest (wrapDecode ''GetOrder request'' (storeString1 ''order_id'') []))
     (tagged (\<lambda>(i, p, r, a). GetOrderResponse i p r a)
        (wrapDecode ''GetOrder response'' storeGetOrderResponse ([], False, [], [])))
     (\<lambda>client request. case request of GetOrderRequest i \<Rightarrow> Some (GetOrder client i) | _ \<Rightarrow> None)"

lemmas async_handlers = seedDataHandler_def planExternalChargeHandler_def submitOrderHandler_def
  awaitExternalSyncHandler_def verifyExternalChargeHandler_def getOrderHandler_def

definition newAsyncRegistry :: "(asyncClient \<times> 'x) handler mapRegistry" where
  "newAsyncRegistry = newMapRegistry
     [(''AwaitExternalSync'', awaitExternalSyncHandler),
      (''GetOrder'', getOrderHandler),
      (''PlanExternalCharge'', planExternalChargeHandler),
      (''SeedData'', seedDataHandler),
      (''SubmitOrder'', submitOrderHandler),
      (''VerifyExternalCharge'', verifyExternalChargeHandler)]"

lemma async_resolve:
  "mapRegistryResolve newAsyncRegistry ''SeedData'' = Inr seedDataHandler"
  "mapRegistryResolve newAsyncRegistry ''PlanExternalCharge'' = Inr planExternalChargeHandler"
  "mapRegistryResolve newAsyncRegistry ''SubmitOrder'' = Inr submitOrderHandler"
  "mapRegistryResolve newAsyncRegistry ''AwaitExternalSync'' = Inr awaitExternalSyncHandler"
  "mapRegistryResolve newAsyncRegistry ''VerifyExternalCharge'' = Inr verifyExternalChargeHandler"
  "mapRegistryResolve newAsyncRegistry ''GetOrder'' = Inr getOrderHandler"
  by (simp_all add: mapRegistryResolve_def newAsyncRegistry_def newMapRegistry_def mcopy_def mget_Cons)

section \<open>Every order is charged at most once\<close>

lemma removePending_remove1: "removePending i ps = remove1 i ps"
  by (induction ps) auto

lemma mget_seeded: "mget (mcopy [] (map (\<lambda>x. (f x, g x)) xs)) k = map_of (rev (map (\<lambda>x. (f x, g x)) xs)) k"
  by (simp add: mget_mcopy split: option.split)

text \<open>
  The clients a case can bring about: any handler of the registry is called with any request.
\<close>

inductive async_reach :: "asyncClient \<Rightarrow> bool" where
  new: "async_reach newAsyncClient"
| call: "async_reach client \<Longrightarrow>
    mapRegistryResolve (newAsyncRegistry :: (asyncClient \<times> unit) handler mapRegistry) name = Inr handler \<Longrightarrow>
    h_invoke handler (client, ()) request = ((client', ()), v, e) \<Longrightarrow> async_reach client'"

text \<open>The order of a recorded call is processed with the planned answer.\<close>

definition charged :: "asyncClient \<Rightarrow> externalChargeRequest \<Rightarrow> bool" where
  "charged client q \<longleftrightarrow>
     ee_Planned (ac_expectation client) \<and> q = ee_ExpectedRequest (ac_expectation client) \<and>
     mget (ac_orders client) (ecq_OrderID q) =
       Some \<lparr>or_OrderID = ecq_OrderID q, or_Amount = ecq_Amount q, or_Processed = True,
             or_ExternalResult = ecs_Result (ee_StubResponse (ac_expectation client)),
             or_ApprovalCode = ecs_ApprovalCode (ee_StubResponse (ac_expectation client))\<rparr>"

definition async_inv :: "asyncClient \<Rightarrow> bool" where
  "async_inv client \<longleftrightarrow>
     wf_map (ac_orders client) \<and> wf_map (ac_workerAttempts client) \<and>
     (\<forall>i r. mget (ac_orders client) i = Some r \<longrightarrow> or_OrderID r = i) \<and>
     distinct (ac_pendingOrderID client) \<and>
     (\<forall>i \<in> set (ac_pendingOrderID client). mget (ac_orders client) i \<noteq> None) \<and>
     length (ac_externalCalls client) \<le> 1 \<and> (\<forall>q \<in> set (ac_externalCalls client). charged client q)"

lemma async_inv_new: "async_inv newAsyncClient"
  by (simp add: async_inv_def newAsyncClient_def)

lemma async_inv_seed: "SeedData client orders = (client', v, e) \<Longrightarrow> async_inv client'"
  by (auto simp: async_inv_def SeedData_def mget_seeded dest!: map_of_SomeD)

lemma async_inv_plan: "async_inv client \<Longrightarrow> PlanExternalCharge client q s = (client', v, e) \<Longrightarrow> async_inv client'"
  by (auto simp: async_inv_def PlanExternalCharge_def)

lemma async_inv_submit: "async_inv client \<Longrightarrow> SubmitOrder client i = (client', v, e) \<Longrightarrow> async_inv client'"
  by (auto simp: async_inv_def SubmitOrder_def enqueuePendingOrder_def isPendingOrder_def charged_def split: option.splits if_splits)

text \<open>What a call of \<open>AwaitExternalSync\<close> does to the client.\<close>

definition async_processed :: "asyncClient \<Rightarrow> string \<Rightarrow> asyncOrderRecord \<Rightarrow> asyncClient" where
  "async_processed client i order = client\<lparr>
     ac_workerAttempts := mput i (attempts_of client i + 1) (ac_workerAttempts client),
     ac_externalCalls := ac_externalCalls client @ [ExternalChargeRequest (or_OrderID order) (or_Amount order)],
     ac_orders := mput (or_OrderID order)
       (order\<lparr>or_Processed := True,
              or_ExternalResult := ecs_Result (ee_StubResponse (ac_expectation client)),
              or_ApprovalCode := ecs_ApprovalCode (ee_StubResponse (ac_expectation client))\<rparr>) (ac_orders client),
     ac_pendingOrderID := removePending (or_OrderID order) (ac_pendingOrderID client)\<rparr>"

lemma AwaitExternalSync_cases:
  assumes "AwaitExternalSync client i = (client', v, e)"
  obtains "client' = client"
  | "client' = client\<lparr>ac_workerAttempts := mput i (attempts_of client i + 1) (ac_workerAttempts client)\<rparr>"
  | order where "mget (ac_orders client) i = Some order" "\<not> or_Processed order"
      "ee_Planned (ac_expectation client)"
      "ee_ExpectedRequest (ac_expectation client) = ExternalChargeRequest (or_OrderID order) (or_Amount order)"
      "client' = async_processed client i order"
proof (cases "mget (ac_orders client) i")
  case None
  then show thesis using assms that(1) by (simp add: AwaitExternalSync_def)
next
  case (Some order)
  note fs = AwaitExternalSync_def [of client i] Some option.case
  let ?want = "ee_ExpectedRequest (ac_expectation client)"
    and ?req = "ExternalChargeRequest (or_OrderID order) (or_Amount order)"
  consider "or_Processed order \<or> \<not> isPendingOrder client i"
    | "\<not> or_Processed order" "isPendingOrder client i" "attempts_of client i + 1 < asyncProcessReadyAttempt"
    | "\<not> or_Processed order" "isPendingOrder client i" "\<not> attempts_of client i + 1 < asyncProcessReadyAttempt"
      "\<not> ee_Planned (ac_expectation client) \<or> ?req \<noteq> ?want"
    | "\<not> or_Processed order" "isPendingOrder client i" "\<not> attempts_of client i + 1 < asyncProcessReadyAttempt"
      "ee_Planned (ac_expectation client)" "?want = ?req"
    by metis
  then show thesis
  proof cases
    case 1
    then show thesis using assms that(1) by (cases "or_Processed order") (simp_all add: fs)
  next
    case 2
    then show thesis using assms that(2) by (simp add: fs Let_def)
  next
    case 3
    then show thesis
      using assms that(2) by (cases "ee_Planned (ac_expectation client)") (simp_all add: fs Let_def invokeExternalCharge_def)
  next
    case 4
    then have "client' = async_processed client i order"
      using assms by (simp add: fs Let_def invokeExternalCharge_def removePendingOrder_def async_processed_def)
    then show thesis using that(3) Some 4 by blast
  qed
qed

lemma async_inv_await:
  assumes "async_inv client" "AwaitExternalSync client i = (client', v, e)"
  shows "async_inv client'"
  using assms(2)
proof (cases rule: AwaitExternalSync_cases)
  case 2
  then show ?thesis using assms(1) by (auto simp: async_inv_def charged_def)
next
  case (3 order)
  have i: "or_OrderID order = i" using assms(1) 3(1) by (simp add: async_inv_def)
  have "ac_externalCalls client = []"
  proof (rule ccontr)
    assume "ac_externalCalls client \<noteq> []"
    then obtain q where "q \<in> set (ac_externalCalls client)" by (cases "ac_externalCalls client") auto
    then have "charged client q" using assms(1) by (simp add: async_inv_def)
    then have "or_Processed order" using 3(1,4) i by (cases order) (auto simp: charged_def)
    then show False using 3(2) by simp
  qed
  then show ?thesis
    using assms(1) 3 i by (auto simp: async_inv_def charged_def async_processed_def removePending_remove1)
qed (use assms(1) in simp)

text \<open>The other methods leave the client as it is.\<close>

lemma async_reads:
  "VerifyExternalCharge client i = (client', v, e) \<Longrightarrow> client' = client"
  "GetOrder client i = (client', v', e') \<Longrightarrow> client' = client"
  by (auto simp: VerifyExternalCharge_def GetOrder_def Let_def split: if_splits option.splits)

lemma async_resolved:
  assumes "mapRegistryResolve (newAsyncRegistry :: (asyncClient \<times> 'x) handler mapRegistry) name = Inr handler"
  shows "handler \<in> {seedDataHandler, planExternalChargeHandler, submitOrderHandler, awaitExternalSyncHandler,
    verifyExternalChargeHandler, getOrderHandler}"
  using assms
  by (auto simp: mapRegistryResolve_def newAsyncRegistry_def newMapRegistry_def mcopy_def mget_Cons split: if_splits)

lemma exampleHandler_client:
  assumes "h_invoke (exampleHandler name dreq dresp serve) (client, x) request = ((client', x'), v, e)"
  obtains "client' = client" | q response e' where "serve client q = Some (client', response, e')"
proof (cases "Option.bind (unbox_ptr request) (serve client)")
  case None
  then show thesis using assms that(1) by (simp add: exampleHandler_def)
next
  case (Some r)
  then obtain q response e' where "unbox_ptr request = Some q" "serve client q = Some (client', response, e')"
    using assms by (auto simp: exampleHandler_def split: bind_splits prod.splits)
  then show thesis using that(2) by blast
qed

lemma async_inv_call:
  assumes "async_inv client" "mapRegistryResolve (newAsyncRegistry :: (asyncClient \<times> 'x) handler mapRegistry) name = Inr handler"
    and "h_invoke handler (client, x) request = ((client', x'), v, e)"
  shows "async_inv client'"
  using async_resolved [OF assms(2)] assms(3)
  by (auto simp: async_handlers intro: assms(1) async_inv_seed async_inv_plan [OF assms(1)] async_inv_submit [OF assms(1)]
      async_inv_await [OF assms(1)] elim!: exampleHandler_client split: asyncAny.splits dest!: async_reads)

lemma async_reach_inv: "async_reach client \<Longrightarrow> async_inv client"
  by (induction rule: async_reach.induct) (auto intro: async_inv_new async_inv_call)

section \<open>The worker is driven by the await step\<close>

text \<open>A submitted order whose charge is the planned one.\<close>

definition async_waiting :: "asyncClient \<Rightarrow> string \<Rightarrow> bool" where
  "async_waiting client i \<longleftrightarrow>
     wf_map (ac_workerAttempts client) \<and> attempts_of client i = 0 \<and> isPendingOrder client i \<and>
     (\<exists>order. mget (ac_orders client) i = Some order \<and> \<not> or_Processed order \<and>
        ee_Planned (ac_expectation client) \<and>
        ee_ExpectedRequest (ac_expectation client) = ExternalChargeRequest (or_OrderID order) (or_Amount order))"

definition async_first :: "asyncClient \<Rightarrow> string \<Rightarrow> asyncClient" where
  "async_first client i = client\<lparr>ac_workerAttempts := mput i 1 (ac_workerAttempts client)\<rparr>"

definition async_settled :: "asyncClient \<Rightarrow> string \<Rightarrow> asyncClient" where
  "async_settled client i =
     (case mget (ac_orders client) i of None \<Rightarrow> client | Some order \<Rightarrow> async_processed (async_first client i) i order)"

lemma AwaitExternalSync_first:
  assumes "async_waiting client i"
  shows "AwaitExternalSync client i = (async_first client i, Some (AwaitExternalSyncResponse i ''pending'' 1),
      Some (asyncStatusError ''ERROR'' (Err ''external sync is not completed yet'')))"
  using assms
  by (auto simp: async_waiting_def AwaitExternalSync_def async_first_def asyncProcessReadyAttempt_def
      asyncOrderStatePending_def asyncStatusFailed_def)

lemma AwaitExternalSync_second:
  assumes "async_waiting client i"
  shows "AwaitExternalSync (async_first client i) i =
      (async_settled client i, Some (AwaitExternalSyncResponse i ''processed'' 2), None)"
proof -
  obtain order where o: "mget (ac_orders client) i = Some order" "\<not> or_Processed order"
    "ee_Planned (ac_expectation client)"
    "ee_ExpectedRequest (ac_expectation client) = ExternalChargeRequest (or_OrderID order) (or_Amount order)"
    using assms by (auto simp: async_waiting_def)
  have "attempts_of (async_first client i) i = 1" "isPendingOrder (async_first client i) i"
    using assms by (simp_all add: attempts_of_def async_first_def async_waiting_def isPendingOrder_def)
  with o show ?thesis
    by (simp add: AwaitExternalSync_def asyncProcessReadyAttempt_def invokeExternalCharge_def removePendingOrder_def
        async_settled_def async_processed_def asyncOrderStateProcessed_def async_first_def Let_def)
qed

interpretation worker: polled AwaitExternalSync async_waiting async_settled
    "\<lambda>client i. Some (AwaitExternalSyncResponse i ''processed'' 2)"
  by unfold_locales (metis AwaitExternalSync_first AwaitExternalSync_second)

text \<open>A charge that is not the planned one is never made, however often the step polls.\<close>

definition async_refused :: "asyncClient \<Rightarrow> string \<Rightarrow> bool" where
  "async_refused client i \<longleftrightarrow>
     ac_externalCalls client = [] \<and>
     (\<exists>order. mget (ac_orders client) i = Some order \<and> \<not> or_Processed order \<and>
        ee_ExpectedRequest (ac_expectation client) \<noteq> ExternalChargeRequest (or_OrderID order) (or_Amount order))"

lemma AwaitExternalSync_refused:
  assumes "async_refused client i"
  shows "\<exists>client' v m. AwaitExternalSync client i = (client', v, Some (asyncStatusError ''ERROR'' m)) \<and>
    async_refused client' i"
  using assms
  by (cases "isPendingOrder client i"; cases "attempts_of client i + 1 < asyncProcessReadyAttempt";
      cases "ee_Planned (ac_expectation client)")
     (auto simp: async_refused_def AwaitExternalSync_def invokeExternalCharge_def asyncStatusFailed_def Let_def)

text \<open>The steps of the case \<open>cases/external_async_ok.jsonc\<close>, with any data.\<close>

definition asyncSteps :: "seedOrder list \<Rightarrow> externalChargeRequest \<Rightarrow> externalChargeResponse \<Rightarrow> string \<Rightarrow> awaitRetry \<Rightarrow> (asyncClient \<times> 'x) step list" where
  "asyncSteps orders expected stub i p =
     [exampleStep newAsyncRegistry ''seed-db'' StepKindPrepare ''SeedData'' (SeedDataRequest orders) None,
      exampleStep newAsyncRegistry ''plan-external'' StepKindPrepare ''PlanExternalCharge''
        (PlanExternalChargeRequest expected stub) None,
      exampleStep newAsyncRegistry ''submit-order'' StepKindAction ''SubmitOrder'' (SubmitOrderRequest i) None,
      exampleStep newAsyncRegistry ''await-external-sync'' StepKindAwait ''AwaitExternalSync''
        (AwaitExternalSyncRequest i) (Some p),
      exampleStep newAsyncRegistry ''verify-external'' StepKindVerify ''VerifyExternalCharge''
        (VerifyExternalChargeRequest i) None,
      exampleStep newAsyncRegistry ''get-order'' StepKindVerify ''GetOrder'' (GetOrderRequest i) None]"

lemma async_answers:
  "SeedData client os = (client', v, e) \<Longrightarrow> answers seedDataHandler (box_ptr (SeedDataRequest os)) client client' (box_result v) e"
  "PlanExternalCharge client q s = (client', v, e) \<Longrightarrow>
     answers planExternalChargeHandler (box_ptr (PlanExternalChargeRequest q s)) client client' (box_result v) e"
  "SubmitOrder client i = (client', v, e) \<Longrightarrow>
     answers submitOrderHandler (box_ptr (SubmitOrderRequest i)) client client' (box_result v) e"
  "AwaitExternalSync client i = (client', v, e) \<Longrightarrow>
     answers awaitExternalSyncHandler (box_ptr (AwaitExternalSyncRequest i)) client client' (box_result v) e"
  "VerifyExternalCharge client i = (client', v, e) \<Longrightarrow>
     answers verifyExternalChargeHandler (box_ptr (VerifyExternalChargeRequest i)) client client' (box_result v) e"
  "GetOrder client i = (client', v, e) \<Longrightarrow>
     answers getOrderHandler (box_ptr (GetOrderRequest i)) client client' (box_result v) e"
  by (auto simp: async_handlers intro: answers_example)

definition async_submitted ::
    "seedOrder list \<Rightarrow> externalChargeRequest \<Rightarrow> externalChargeResponse \<Rightarrow> string \<Rightarrow> asyncClient" where
  "async_submitted orders expected stub i = \<lparr>
     ac_orders = ac_orders (fst (SeedData newAsyncClient orders)),
     ac_expectation = \<lparr>ee_Planned = True, ee_ExpectedRequest = expected, ee_StubResponse = stub\<rparr>,
     ac_externalCalls = [], ac_workerAttempts = [], ac_pendingOrderID = [i]\<rparr>"

definition amount_of :: "seedOrder list \<Rightarrow> string \<Rightarrow> int option" where
  "amount_of orders i = map_of (rev (map (\<lambda>x. (so_OrderID x, so_Amount x)) orders)) i"

lemma mget_SeedData:
  "mget (ac_orders (fst (SeedData client orders))) i = map_option (\<lambda>a. \<lparr>or_OrderID = i, or_Amount = a,
     or_Processed = False, or_ExternalResult = [], or_ApprovalCode = []\<rparr>) (amount_of orders i)"
proof -
  have "map_of (rev (map (\<lambda>x. (so_OrderID x, g (so_OrderID x) (so_Amount x))) orders)) i =
      map_option (g i) (amount_of orders i)" for g :: "string \<Rightarrow> int \<Rightarrow> asyncOrderRecord"
    unfolding amount_of_def by (induction orders rule: rev_induct) auto
  from this [of "\<lambda>i a. \<lparr>or_OrderID = i, or_Amount = a, or_Processed = False, or_ExternalResult = [], or_ApprovalCode = []\<rparr>"]
  show ?thesis by (simp add: SeedData_def mget_seeded)
qed

lemma SeedData_any: "SeedData client orders = SeedData newAsyncClient orders"
  by (cases client) (simp add: SeedData_def newAsyncClient_def)

lemma async_submit_steps:
  assumes "amount_of orders i = Some a"
    and "\<And>st outs. run_at (async_submitted orders expected stub i) outs st \<Longrightarrow>
      ends rt (drop 3 (asyncSteps orders expected stub i p)) st Q"
  shows "ends rt (asyncSteps orders expected stub i p) (initialRun (client, x)) Q"
proof -
  let ?c1 = "fst (SeedData newAsyncClient orders)"
  let ?c2 = "fst (PlanExternalCharge ?c1 expected stub)"
  have seed: "SeedData client orders = (?c1, Some (SeedDataResponse (int (length orders))), None)"
    unfolding SeedData_any [of client] by (simp add: SeedData_def)
  have plan: "PlanExternalCharge ?c1 expected stub = (?c2, Some (PlanExternalChargeResponse True), None)"
    by (simp add: PlanExternalCharge_def)
  have c2: "ac_orders ?c2 = ac_orders ?c1" "ac_pendingOrderID ?c2 = []"
    by (simp_all add: PlanExternalCharge_def SeedData_def)
  have submit: "SubmitOrder ?c2 i = (async_submitted orders expected stub i, Some (SubmitOrderResponse i ''queued''), None)"
    using mget_SeedData [of newAsyncClient orders i] assms(1) unfolding SubmitOrder_def c2
    by (simp add: enqueuePendingOrder_def isPendingOrder_def async_submitted_def)
       (simp add: PlanExternalCharge_def SeedData_def)
  note rest = assms(2) [unfolded asyncSteps_def, simplified]
  show ?thesis
    unfolding asyncSteps_def
    by (rule ends_step [OF run_at_initial async_resolve(1) _ async_answers(1) [OF seed]], simp add: kind_defs)
       (rule ends_step [OF _ async_resolve(2) _ async_answers(2) [OF plan]], assumption, simp add: kind_defs,
        rule ends_step [OF _ async_resolve(3) _ async_answers(3) [OF submit]], assumption, simp add: kind_defs,
        rule rest)
qed

lemma async_submitted_order:
  assumes "amount_of orders i = Some a"
  shows "mget (ac_orders (async_submitted orders expected stub i)) i = Some \<lparr>or_OrderID = i, or_Amount = a,
      or_Processed = False, or_ExternalResult = [], or_ApprovalCode = []\<rparr>"
    and "wf_map (ac_orders (async_submitted orders expected stub i))"
  using mget_SeedData [of newAsyncClient orders i] assms by (simp_all add: async_submitted_def SeedData_def)

lemma async_charge_steps:
  fixes st :: "(asyncClient \<times> 'x) run_state"
  assumes "patient env rt" "2 \<le> ar_maxAttempts p" "amount_of orders i = Some a"
    and "run_at (async_submitted orders (ExternalChargeRequest i a) stub i) outs st" "within_elapsed p"
  shows "ends rt (drop 3 (asyncSteps orders (ExternalChargeRequest i a) stub i p)) st (\<lambda>st.
      rs_executionErr st = None \<and> ac_externalCalls (fst (rs_world st)) = [ExternalChargeRequest i a] \<and>
      mget (rs_stepOutputs st) ''verify-external'' =
        Some (box_ptr (VerifyExternalChargeResponse True 1 (ExternalChargeRequest i a))) \<and>
      mget (rs_stepOutputs st) ''get-order'' =
        Some (box_ptr (GetOrderResponse i True (ecs_Result stub) (ecs_ApprovalCode stub))))" (is "ends _ _ _ ?Q")
proof -
  let ?c = "async_submitted orders (ExternalChargeRequest i a) stub i"
  let ?c' = "async_settled ?c i"
  note order = async_submitted_order [OF assms(3), of "ExternalChargeRequest i a" stub]
  have w: "async_waiting ?c i"
    using order by (simp add: async_waiting_def isPendingOrder_def attempts_of_def) (simp add: async_submitted_def)
  have c': "ac_externalCalls ?c' = [ExternalChargeRequest i a]" "mget (ac_orders ?c') i = Some \<lparr>or_OrderID = i, or_Amount = a,
      or_Processed = True, or_ExternalResult = ecs_Result stub, or_ApprovalCode = ecs_ApprovalCode stub\<rparr>"
    using order by (simp_all add: async_settled_def async_processed_def async_first_def) (simp_all add: async_submitted_def)
  have verify: "VerifyExternalCharge ?c' i =
      (?c', Some (VerifyExternalChargeResponse True 1 (ExternalChargeRequest i a)), None)"
    using c'(1) by (simp add: VerifyExternalCharge_def Let_def)
  have get: "GetOrder ?c' i = (?c', Some (GetOrderResponse i True (ecs_Result stub) (ecs_ApprovalCode stub)), None)"
    using c'(2) by (simp add: GetOrder_def)
  have await: "\<exists>x'. executeAwaitStep rt awaitExternalSyncHandler (?c, x) (exampleStep newAsyncRegistry
      ''await-external-sync'' StepKindAwait ''AwaitExternalSync'' (AwaitExternalSyncRequest i) (Some p)) =
      ((?c', x'), Inr (box_result (Some (AwaitExternalSyncResponse i ''processed'' 2))))" for x :: 'x
    by (rule worker.await_settled [OF assms(1) w _ assms(2,5), where out = box_result]) (simp_all add: async_answers(4))
  have "ends rt [exampleStep newAsyncRegistry ''verify-external'' StepKindVerify ''VerifyExternalCharge''
        (VerifyExternalChargeRequest i) None,
      exampleStep newAsyncRegistry ''get-order'' StepKindVerify ''GetOrder'' (GetOrderRequest i) None] st' ?Q"
    if "run_at ?c' outs st'" for outs and st' :: "(asyncClient \<times> 'x) run_state"
    by (rule ends_step [OF that async_resolve(5) _ async_answers(5) [OF verify]], simp add: kind_defs,
        rule ends_step [OF _ async_resolve(6) _ async_answers(6) [OF get]], assumption, simp add: kind_defs)
       (rule ends_Nil, use that c'(1) in \<open>auto simp: run_at_def box_result_def\<close>)
  from ends_await [OF assms(4) async_resolve(4) await this] show ?thesis by (simp add: asyncSteps_def)
qed

lemma async_refused_steps:
  fixes st :: "(asyncClient \<times> 'x) run_state"
  assumes "patient env rt" "0 < ar_maxAttempts p" "amount_of orders i = Some a" "expected \<noteq> ExternalChargeRequest i a"
    and "run_at (async_submitted orders expected stub i) outs st" "within_elapsed p"
  shows "ends rt (drop 3 (asyncSteps orders expected stub i p)) st (\<lambda>st.
      (\<exists>e m. rs_executionErr st = Some e \<and> asyncErrorInspector text e = Some (''ERROR'', m)) \<and>
      ac_externalCalls (fst (rs_world st)) = [])"
proof -
  let ?c = "async_submitted orders expected stub i"
  let ?R = "\<lambda>w e. async_refused (fst w) i \<and> (\<exists>m. as_statusError ''asyncStatusError'' e = Some (''ERROR'', m))"
  have c: "async_refused ?c i"
    using assms(4) async_submitted_order [OF assms(3), of expected stub]
    by (simp add: async_refused_def) (simp add: async_submitted_def)
  have await: "\<exists>w e. executeCaseStep rt (?c, x) (exampleStep newAsyncRegistry ''await-external-sync'' StepKindAwait
      ''AwaitExternalSync'' (AwaitExternalSyncRequest i) (Some p)) = (w, Inl e) \<and> ?R w e" for x :: 'x
  proof -
    have "\<exists>client' v e. answers awaitExternalSyncHandler (box_ptr (AwaitExternalSyncRequest i)) client client' v (Some e) \<and>
        async_refused client' i \<and> (\<exists>m. e = asyncStatusError ''ERROR'' m)" if "async_refused client i" for client
      using AwaitExternalSync_refused [OF that] async_answers(4) by blast
    from await_never [OF assms(1), where tag = "''asyncStatusError''" and I = "\<lambda>c. async_refused c i", of awaitExternalSyncHandler
        "exampleStep newAsyncRegistry ''await-external-sync'' StepKindAwait ''AwaitExternalSync'' (AwaitExternalSyncRequest i) (Some p)",
        simplified, OF this c _ assms(2,6)]
    show ?thesis by (fastforce simp: executeCaseStep_def async_resolve asyncStatusError_def)
  qed
  show ?thesis
    unfolding asyncSteps_def
    by (simp, rule ends_failed [OF assms(5) async_resolve(4) _ await])
       (auto simp: kind_defs async_refused_def asyncErrorInspector_def)
qed

text \<open>
  C15: the case of the repository, for any data and whatever the client held before, with an await policy
  of at least two attempts whose timeout and interval together stay below 15 minutes, the time after
  which \<open>backoff.Retry\<close> gives up by default: run by the runner, it succeeds exactly when the planned
  charge is that of the submitted order.  Then the worker charged it once and the order has the
  planned answer.  Otherwise the error of the case has the status \<open>ERROR\<close> and nothing was charged.
\<close>

theorem async_case:
  assumes "patient env rt" "2 \<le> ar_maxAttempts p" "amount_of orders i = Some a" "within_elapsed p"
  shows "\<exists>st. runSteps rt (asyncSteps orders expected stub i p) (initialRun (client, x)) = Some st \<and>
    (if expected = ExternalChargeRequest i a
     then rs_executionErr st = None \<and> ac_externalCalls (fst (rs_world st)) = [expected] \<and>
       mget (rs_stepOutputs st) ''verify-external'' = Some (box_ptr (VerifyExternalChargeResponse True 1 expected)) \<and>
       mget (rs_stepOutputs st) ''get-order'' =
         Some (box_ptr (GetOrderResponse i True (ecs_Result stub) (ecs_ApprovalCode stub)))
     else (\<exists>e m. rs_executionErr st = Some e \<and> asyncErrorInspector text e = Some (''ERROR'', m)) \<and>
       ac_externalCalls (fst (rs_world st)) = [])"
proof (cases "expected = ExternalChargeRequest i a")
  case True
  from async_submit_steps [OF assms(3) async_charge_steps [OF assms(1,2,3) _ assms(4)]] show ?thesis
    by (simp add: ends_def True)
next
  case False
  have "0 < ar_maxAttempts p" using assms(2) by simp
  from async_submit_steps [OF assms(3) async_refused_steps [OF assms(1) this assms(3) False _ assms(4)]] False show ?thesis
    by (simp add: ends_def)
qed

theorem async_case_witness:
  "\<exists>st. runSteps late_runtime (asyncSteps [SeedOrder ''order-200'' 1300] (ExternalChargeRequest ''order-200'' 1300)
      (ExternalChargeResponse ''approved'' ''ap-777'') ''order-200'' \<lparr>ar_timeoutMS = 300, ar_intervalMS = 10, ar_maxAttempts = 5\<rparr>)
      (initialRun (newAsyncClient, False)) = Some st \<and> rs_executionErr st = None \<and>
    mget (rs_stepOutputs st) ''get-order'' = Some (box_ptr (GetOrderResponse ''order-200'' True ''approved'' ''ap-777''))"
proof -
  have "amount_of [SeedOrder ''order-200'' 1300] ''order-200'' = Some 1300" by (simp add: amount_of_def)
  from async_case [OF late_runtime_patient _ this, of "\<lparr>ar_timeoutMS = 300, ar_intervalMS = 10, ar_maxAttempts = 5\<rparr>"
      "ExternalChargeRequest ''order-200'' 1300" "ExternalChargeResponse ''approved'' ''ap-777''" newAsyncClient False "\<lambda>_. []"]
  show ?thesis by (auto simp: within_elapsed_def DefaultMaxElapsedTime_def wrap64_def)
qed

text \<open>
  C16: whatever handlers of the registry are called, with whatever requests: since the last seeding or
  planning at most one charge was made, it is the planned one, and its order is processed with the
  planned answer; no order is queued twice.
\<close>

theorem async_charged_once:
  assumes "async_reach client"
  shows "length (ac_externalCalls client) \<le> 1 \<and> distinct (ac_pendingOrderID client) \<and>
    (\<forall>q \<in> set (ac_externalCalls client). charged client q)"
  using async_reach_inv [OF assms] by (simp add: async_inv_def)

lemma async_reach_call:
  assumes "async_reach client"
    and "mapRegistryResolve (newAsyncRegistry :: (asyncClient \<times> unit) handler mapRegistry) name = Inr handler"
    and "answers handler request client client' v e"
  shows "async_reach client'"
  using assms by (auto simp: answers_def intro: async_reach.call)

theorem async_charged_once_witness:
  "\<exists>client. ac_externalCalls client = [ExternalChargeRequest ''a'' 7] \<and> charged client (ExternalChargeRequest ''a'' 7)"
proof -
  let ?e = "ExternalChargeRequest ''a'' 7" and ?r = "ExternalChargeResponse ''ok'' ''1''"
  define c1 where "c1 = fst (SeedData newAsyncClient [SeedOrder ''a'' 7])"
  define c2 where "c2 = fst (PlanExternalCharge c1 ?e ?r)"
  define c3 where "c3 = fst (SubmitOrder c2 ''a'')"
  note cs = c1_def c2_def c3_def SeedData_def PlanExternalCharge_def SubmitOrder_def newAsyncClient_def mcopy_def
    mget_Cons enqueuePendingOrder_def isPendingOrder_def
  have "async_reach c1"
    by (rule async_reach_call [OF async_reach.new async_resolve(1) async_answers(1) [of _ "[SeedOrder ''a'' 7]"]])
       (simp add: cs)
  from async_reach_call [OF this async_resolve(2) async_answers(2), of ?e ?r c2] have "async_reach c2" by (simp add: cs)
  from async_reach_call [OF this async_resolve(3) async_answers(3), of "''a''" c3] have "async_reach c3" by (simp add: cs)
  moreover have w: "async_waiting c3 ''a''" by (simp add: async_waiting_def cs attempts_of_def)
  ultimately have "async_reach (async_first c3 ''a'')"
    using async_reach_call [OF _ async_resolve(4) async_answers(4)] AwaitExternalSync_first by blast
  from async_reach_call [OF this async_resolve(4) async_answers(4) [OF AwaitExternalSync_second [OF w]]]
  have r: "async_reach (async_settled c3 ''a'')" .
  have "ac_externalCalls (async_settled c3 ''a'') = [?e]"
    by (simp add: async_settled_def async_processed_def async_first_def cs)
  with async_charged_once [OF r] show ?thesis by auto
qed

end
