(* ===== verification/SyncExample.thy ===== *)
theory SyncExample
  imports ExampleKit
begin

text \<open>
  The sample service \<open>docs/itestkit/examples/extapisync\<close>: an action step that calls an external API.
  \<open>client.go\<close> with the service, \<open>handlers.go\<close>, \<open>codec.go\<close> and \<open>registry.go\<close>.
\<close>

section \<open>The structs\<close>

datatype syncSeedOrder = SyncSeedOrder (ss_OrderID: string) (ss_Amount: int)
datatype syncChargeRequest = SyncChargeRequest (sq_OrderID: string) (sq_Amount: int)
datatype syncChargeResponse = SyncChargeResponse (sp_Result: string) (sp_ApprovalCode: string)

text \<open>The requests and responses that are passed as \<open>any\<close>, with their fields.\<close>

datatype syncAny =
    SyncSeedDataRequest "syncSeedOrder list"
  | SyncSeedDataResponse int
  | SyncPlanRequest syncChargeRequest syncChargeResponse
  | SyncPlanResponse bool
  | CreateOrderRequest string
  | CreateOrderResponse string string string
  | SyncVerifyRequest string
  | SyncVerifyResponse bool int syncChargeRequest

instance syncSeedOrder :: countable by countable_datatype
instance syncChargeRequest :: countable by countable_datatype
instance syncChargeResponse :: countable by countable_datatype
instance syncAny :: countable by countable_datatype

record syncOrderRecord =
  sr_OrderID :: string
  sr_Amount :: int
  sr_ExternalResult :: string
  sr_ApprovalCode :: string

record syncExpectation =
  se_Planned :: bool
  se_ExpectedRequest :: syncChargeRequest
  se_StubResponse :: syncChargeResponse

record syncClient =
  sy_orders :: "syncOrderRecord gomap"
  sy_expectation :: syncExpectation
  sy_externalCall :: "syncChargeRequest list"

definition syncNoExpectation :: syncExpectation where
  "syncNoExpectation = \<lparr>se_Planned = False, se_ExpectedRequest = SyncChargeRequest [] 0,
     se_StubResponse = SyncChargeResponse [] []\<rparr>"

definition newSyncClient :: syncClient where
  "newSyncClient = \<lparr>sy_orders = [], sy_expectation = syncNoExpectation, sy_externalCall = []\<rparr>"

section \<open>The errors\<close>

definition syncStatusOK :: string where "syncStatusOK = ''OK''"
definition syncStatusFailed :: string where "syncStatusFailed = ''ERROR''"

definition syncStatusError :: "string \<Rightarrow> err \<Rightarrow> err" where
  "syncStatusError code message = statusError ''syncStatusError'' code message"

definition syncStatusCodec :: "string statusCodec" where
  "syncStatusCodec = \<lparr>
     sc_parse = (\<lambda>raw.
       if raw = syncStatusOK then Inr syncStatusOK
       else if raw = syncStatusFailed then Inr syncStatusFailed
       else Inl (Errorf ''unsupported status code: %q'' [AStr raw])),
     sc_success = syncStatusOK\<rparr>"

definition syncErrorInspector :: "(err \<Rightarrow> string) \<Rightarrow> string errorInspector" where
  "syncErrorInspector text e =
     (case as_statusError ''syncStatusError'' e of None \<Rightarrow> None | Some (code, message) \<Rightarrow> Some (code, text message))"

section \<open>The service\<close>

definition syncInvokeExternalCharge :: "syncClient \<Rightarrow> syncChargeRequest \<Rightarrow> syncClient \<times> syncChargeResponse result" where
  "syncInvokeExternalCharge client request =
     (let e = sy_expectation client; want = se_ExpectedRequest e in
      if \<not> se_Planned e then (client, Inl (Err ''external expectation is not planned''))
      else if request \<noteq> want then
        (client, Inl (Errorf ''external request mismatch: want %+v got %+v''
           [AStr (sq_OrderID want), AInt (sq_Amount want), AStr (sq_OrderID request), AInt (sq_Amount request)]))
      else (client\<lparr>sy_externalCall := sy_externalCall client @ [request]\<rparr>, Inr (se_StubResponse e)))"

definition syncSeedData :: "syncClient \<Rightarrow> syncSeedOrder list \<Rightarrow> syncClient \<times> syncAny option \<times> err option" where
  "syncSeedData client orders =
     (client\<lparr>
        sy_orders := mcopy [] (map (\<lambda>order. (ss_OrderID order,
          \<lparr>sr_OrderID = ss_OrderID order, sr_Amount = ss_Amount order, sr_ExternalResult = [],
           sr_ApprovalCode = []\<rparr>)) orders),
        sy_expectation := syncNoExpectation, sy_externalCall := []\<rparr>,
      Some (SyncSeedDataResponse (int (length orders))), None)"

definition syncPlanExternalCharge ::
    "syncClient \<Rightarrow> syncChargeRequest \<Rightarrow> syncChargeResponse \<Rightarrow> syncClient \<times> syncAny option \<times> err option" where
  "syncPlanExternalCharge client expectedRequest stubResponse =
     (client\<lparr>
        sy_expectation := \<lparr>se_Planned = True, se_ExpectedRequest = expectedRequest, se_StubResponse = stubResponse\<rparr>,
        sy_externalCall := []\<rparr>,
      Some (SyncPlanResponse True), None)"

definition CreateOrder :: "syncClient \<Rightarrow> string \<Rightarrow> syncClient \<times> syncAny option \<times> err option" where
  "CreateOrder client orderID =
     (case mget (sy_orders client) orderID of
        None \<Rightarrow> (client, None, Some (syncStatusError syncStatusFailed (Errorf ''order %q is not found'' [AStr orderID])))
      | Some order \<Rightarrow>
          (case syncInvokeExternalCharge client (SyncChargeRequest (sr_OrderID order) (sr_Amount order)) of
             (client1, Inl e) \<Rightarrow>
               (client1, None, Some (syncStatusError syncStatusFailed (Errorf ''external charge failed: %v'' [AText e])))
           | (client1, Inr response) \<Rightarrow>
               (let order' = order\<lparr>sr_ExternalResult := sp_Result response, sr_ApprovalCode := sp_ApprovalCode response\<rparr>
                in (client1\<lparr>sy_orders := mput (sr_OrderID order) order' (sy_orders client1)\<rparr>,
                    Some (CreateOrderResponse (sr_OrderID order') (sr_ExternalResult order') (sr_ApprovalCode order')), None))))"

definition syncVerifyExternalCharge :: "syncClient \<Rightarrow> string \<Rightarrow> syncClient \<times> syncAny option \<times> err option" where
  "syncVerifyExternalCharge client orderID =
     (let calls = sy_externalCall client in
      if length calls = 0 then
        (client, None, Some (syncStatusError syncStatusFailed (Err ''external API was not called'')))
      else
        (let lastRequest = calls ! (length calls - 1) in
         if sq_OrderID lastRequest \<noteq> orderID then
           (client, None, Some (syncStatusError syncStatusFailed
              (Errorf ''unexpected external order id: got %q'' [AStr (sq_OrderID lastRequest)])))
         else (client, Some (SyncVerifyResponse True (int (length calls)) lastRequest), None)))"

section \<open>The handlers\<close>

definition storeSyncSeedOrder :: "syncSeedOrder \<Rightarrow> string \<Rightarrow> syncSeedOrder result" where
  "storeSyncSeedOrder v raw =
     rbind (decode_struct [''order_id'', ''amount''] raw) (\<lambda>ms.
     rbind (store_all store_string (ss_OrderID v) (field_values ms ''order_id'')) (\<lambda>i.
     rbind (store_all store_int (ss_Amount v) (field_values ms ''amount'')) (\<lambda>a.
     Inr (SyncSeedOrder i a))))"

definition storeSyncSeedDataRequest :: "syncSeedOrder list \<Rightarrow> string \<Rightarrow> syncSeedOrder list result" where
  "storeSyncSeedDataRequest v raw =
     rbind (decode_struct [''orders''] raw) (\<lambda>ms.
       store_all (store_slice storeSyncSeedOrder (SyncSeedOrder [] 0)) v (field_values ms ''orders''))"

definition storeSyncChargeRequest :: "syncChargeRequest \<Rightarrow> string \<Rightarrow> syncChargeRequest result" where
  "storeSyncChargeRequest v raw =
     rbind (decode_struct [''order_id'', ''amount''] raw) (\<lambda>ms.
     rbind (store_all store_string (sq_OrderID v) (field_values ms ''order_id'')) (\<lambda>i.
     rbind (store_all store_int (sq_Amount v) (field_values ms ''amount'')) (\<lambda>a.
     Inr (SyncChargeRequest i a))))"

definition storeSyncChargeResponse :: "syncChargeResponse \<Rightarrow> string \<Rightarrow> syncChargeResponse result" where
  "storeSyncChargeResponse v raw =
     rbind (decode_struct [''result'', ''approval_code''] raw) (\<lambda>ms.
     rbind (store_all store_string (sp_Result v) (field_values ms ''result'')) (\<lambda>r.
     rbind (store_all store_string (sp_ApprovalCode v) (field_values ms ''approval_code'')) (\<lambda>a.
     Inr (SyncChargeResponse r a))))"

definition storeSyncPlanRequest ::
    "syncChargeRequest \<times> syncChargeResponse \<Rightarrow> string \<Rightarrow> (syncChargeRequest \<times> syncChargeResponse) result" where
  "storeSyncPlanRequest v raw =
     rbind (decode_struct [''expected_request'', ''stub_response''] raw) (\<lambda>ms.
     rbind (store_all storeSyncChargeRequest (fst v) (field_values ms ''expected_request'')) (\<lambda>q.
     rbind (store_all storeSyncChargeResponse (snd v) (field_values ms ''stub_response'')) (\<lambda>s.
     Inr (q, s))))"

definition storeCreateOrderResponse :: "string \<times> string \<times> string \<Rightarrow> string \<Rightarrow> (string \<times> string \<times> string) result" where
  "storeCreateOrderResponse v raw =
     rbind (decode_struct [''order_id'', ''external_result'', ''approval_code''] raw) (\<lambda>ms.
     rbind (store_all store_string (fst v) (field_values ms ''order_id'')) (\<lambda>i.
     rbind (store_all store_string (fst (snd v)) (field_values ms ''external_result'')) (\<lambda>r.
     rbind (store_all store_string (snd (snd v)) (field_values ms ''approval_code'')) (\<lambda>a.
     Inr (i, r, a)))))"

definition storeSyncVerifyResponse ::
    "bool \<times> int \<times> syncChargeRequest \<Rightarrow> string \<Rightarrow> (bool \<times> int \<times> syncChargeRequest) result" where
  "storeSyncVerifyResponse v raw =
     rbind (decode_struct [''called'', ''calls_count'', ''last_request''] raw) (\<lambda>ms.
     rbind (store_all store_bool (fst v) (field_values ms ''called'')) (\<lambda>c.
     rbind (store_all store_int (fst (snd v)) (field_values ms ''calls_count'')) (\<lambda>n.
     rbind (store_all storeSyncChargeRequest (snd (snd v)) (field_values ms ''last_request'')) (\<lambda>q.
     Inr (c, n, q)))))"

definition syncSeedDataHandler :: "(syncClient \<times> 'x) handler" where
  "syncSeedDataHandler = exampleHandler ''SeedData''
     (tagged SyncSeedDataRequest (wrapDecode ''SeedData request'' storeSyncSeedDataRequest []))
     (tagged SyncSeedDataResponse (decodeOrZero ''SeedData response'' (storeInt1 ''stored_orders'') 0))
     (\<lambda>client request. case request of SyncSeedDataRequest orders \<Rightarrow> Some (syncSeedData client orders) | _ \<Rightarrow> None)"

definition syncPlanHandler :: "(syncClient \<times> 'x) handler" where
  "syncPlanHandler = exampleHandler ''PlanExternalCharge''
     (tagged (\<lambda>(q, s). SyncPlanRequest q s) (wrapDecode ''PlanExternalCharge request''
        storeSyncPlanRequest (SyncChargeRequest [] 0, SyncChargeResponse [] [])))
     (tagged SyncPlanResponse (decodeOrZero ''PlanExternalCharge response'' (storeBool1 ''planned'') False))
     (\<lambda>client request. case request of SyncPlanRequest q s \<Rightarrow> Some (syncPlanExternalCharge client q s) | _ \<Rightarrow> None)"

definition createOrderHandler :: "(syncClient \<times> 'x) handler" where
  "createOrderHandler = exampleHandler ''CreateOrder''
     (tagged CreateOrderRequest (wrapDecode ''CreateOrder request'' (storeString1 ''order_id'') []))
     (tagged (\<lambda>(i, r, a). CreateOrderResponse i r a)
        (wrapDecode ''CreateOrder response'' storeCreateOrderResponse ([], [], [])))
     (\<lambda>client request. case request of CreateOrderRequest i \<Rightarrow> Some (CreateOrder client i) | _ \<Rightarrow> None)"

definition syncVerifyHandler :: "(syncClient \<times> 'x) handler" where
  "syncVerifyHandler = exampleHandler ''VerifyExternalCharge''
     (tagged SyncVerifyRequest (wrapDecode ''VerifyExternalCharge request'' (storeString1 ''order_id'') []))
     (tagged (\<lambda>(c, n, q). SyncVerifyResponse c n q)
        (decodeOrZero ''VerifyExternalCharge response'' storeSyncVerifyResponse (False, 0, SyncChargeRequest [] 0)))
     (\<lambda>client request. case request of SyncVerifyRequest i \<Rightarrow> Some (syncVerifyExternalCharge client i) | _ \<Rightarrow> None)"

lemmas sync_handlers = syncSeedDataHandler_def syncPlanHandler_def createOrderHandler_def syncVerifyHandler_def

definition newSyncRegistry :: "(syncClient \<times> 'x) handler mapRegistry" where
  "newSyncRegistry = newMapRegistry
     [(''CreateOrder'', createOrderHandler),
      (''PlanExternalCharge'', syncPlanHandler),
      (''SeedData'', syncSeedDataHandler),
      (''VerifyExternalCharge'', syncVerifyHandler)]"

lemma sync_resolve:
  "mapRegistryResolve newSyncRegistry ''SeedData'' = Inr syncSeedDataHandler"
  "mapRegistryResolve newSyncRegistry ''PlanExternalCharge'' = Inr syncPlanHandler"
  "mapRegistryResolve newSyncRegistry ''CreateOrder'' = Inr createOrderHandler"
  "mapRegistryResolve newSyncRegistry ''VerifyExternalCharge'' = Inr syncVerifyHandler"
  by (simp_all add: mapRegistryResolve_def newSyncRegistry_def newMapRegistry_def mcopy_def mget_Cons)

lemma sync_answers:
  "syncSeedData client os = (client', v, e) \<Longrightarrow>
     answers syncSeedDataHandler (box_ptr (SyncSeedDataRequest os)) client client' (box_result v) e"
  "syncPlanExternalCharge client q s = (client', v, e) \<Longrightarrow>
     answers syncPlanHandler (box_ptr (SyncPlanRequest q s)) client client' (box_result v) e"
  "CreateOrder client i = (client', v, e) \<Longrightarrow>
     answers createOrderHandler (box_ptr (CreateOrderRequest i)) client client' (box_result v) e"
  "syncVerifyExternalCharge client i = (client', v, e) \<Longrightarrow>
     answers syncVerifyHandler (box_ptr (SyncVerifyRequest i)) client client' (box_result v) e"
  by (auto simp: sync_handlers intro: answers_example)

section \<open>A case\<close>

text \<open>The steps of the case \<open>cases/external_sync_ok.jsonc\<close>, with any data.\<close>

definition syncSteps :: "syncSeedOrder list \<Rightarrow> syncChargeRequest \<Rightarrow> syncChargeResponse \<Rightarrow> string \<Rightarrow> (syncClient \<times> 'x) step list" where
  "syncSteps orders expected stub i =
     [exampleStep newSyncRegistry ''seed-db'' StepKindPrepare ''SeedData'' (SyncSeedDataRequest orders) None,
      exampleStep newSyncRegistry ''plan-external'' StepKindPrepare ''PlanExternalCharge'' (SyncPlanRequest expected stub) None,
      exampleStep newSyncRegistry ''call-api'' StepKindAction ''CreateOrder'' (CreateOrderRequest i) None,
      exampleStep newSyncRegistry ''verify-external'' StepKindVerify ''VerifyExternalCharge'' (SyncVerifyRequest i) None]"

text \<open>The client after the preparation; the order that was seeded last under an id counts.\<close>

definition sync_planned :: "syncSeedOrder list \<Rightarrow> syncChargeRequest \<Rightarrow> syncChargeResponse \<Rightarrow> syncClient" where
  "sync_planned orders expected stub = fst (syncPlanExternalCharge (fst (syncSeedData newSyncClient orders)) expected stub)"

definition sync_amount :: "syncSeedOrder list \<Rightarrow> string \<Rightarrow> int option" where
  "sync_amount orders i = map_of (rev (map (\<lambda>x. (ss_OrderID x, ss_Amount x)) orders)) i"

lemma mget_syncSeedData:
  "mget (sy_orders (sync_planned orders expected stub)) i = map_option (\<lambda>a. \<lparr>sr_OrderID = i, sr_Amount = a,
     sr_ExternalResult = [], sr_ApprovalCode = []\<rparr>) (sync_amount orders i)"
proof -
  have "map_of (rev (map (\<lambda>x. (ss_OrderID x, g (ss_OrderID x) (ss_Amount x))) orders)) i =
      map_option (g i) (sync_amount orders i)" for g :: "string \<Rightarrow> int \<Rightarrow> syncOrderRecord"
    unfolding sync_amount_def by (induction orders rule: rev_induct) auto
  from this [of "\<lambda>i a. \<lparr>sr_OrderID = i, sr_Amount = a, sr_ExternalResult = [], sr_ApprovalCode = []\<rparr>"]
  show ?thesis by (simp add: sync_planned_def syncPlanExternalCharge_def syncSeedData_def mget_mcopy split: option.split)
qed

lemma sync_prepare:
  assumes "\<And>st outs. run_at (sync_planned orders expected stub) outs st \<Longrightarrow>
      ends rt (drop 2 (syncSteps orders expected stub i)) st Q"
  shows "ends rt (syncSteps orders expected stub i) (initialRun (client, x)) Q"
proof -
  let ?c1 = "fst (syncSeedData newSyncClient orders)"
  have seed: "syncSeedData client orders = (?c1, Some (SyncSeedDataResponse (int (length orders))), None)"
    by (cases client) (simp add: syncSeedData_def newSyncClient_def)
  have plan: "syncPlanExternalCharge ?c1 expected stub = (sync_planned orders expected stub, Some (SyncPlanResponse True), None)"
    by (simp add: sync_planned_def syncPlanExternalCharge_def)
  note rest = assms [unfolded syncSteps_def, simplified]
  show ?thesis
    unfolding syncSteps_def
    by (rule ends_step [OF run_at_initial sync_resolve(1) _ sync_answers(1) [OF seed]], simp add: kind_defs)
       (rule ends_step [OF _ sync_resolve(2) _ sync_answers(2) [OF plan]], assumption, simp add: kind_defs, rule rest)
qed

text \<open>
  The case of the repository, for any data and whatever the client held before: run by the runner, it
  succeeds exactly when the order was seeded and the planned charge is its charge.  Then the API was
  called once and the response has the planned answer.  Otherwise the API was not called and the
  error of the case has the status \<open>ERROR\<close>.
\<close>

theorem sync_case:
  "\<exists>st. runSteps rt (syncSteps orders expected stub i) (initialRun (client, x)) = Some st \<and>
    (if \<exists>a. sync_amount orders i = Some a \<and> expected = SyncChargeRequest i a
     then rs_executionErr st = None \<and> sy_externalCall (fst (rs_world st)) = [expected] \<and>
       mget (rs_stepOutputs st) ''call-api'' =
         Some (box_ptr (CreateOrderResponse i (sp_Result stub) (sp_ApprovalCode stub))) \<and>
       mget (rs_stepOutputs st) ''verify-external'' = Some (box_ptr (SyncVerifyResponse True 1 expected))
     else (\<exists>e m. rs_executionErr st = Some e \<and> syncErrorInspector text e = Some (''ERROR'', m)) \<and>
       sy_externalCall (fst (rs_world st)) = [])"
    (is "\<exists>st. ?run st \<and> ?Q st")
proof -
  let ?c = "sync_planned orders expected stub"
  have c: "sy_expectation ?c = \<lparr>se_Planned = True, se_ExpectedRequest = expected, se_StubResponse = stub\<rparr>" "sy_externalCall ?c = []"
    by (simp_all add: sync_planned_def syncPlanExternalCharge_def)
  note order = mget_syncSeedData [of orders expected stub i]
  have "ends rt (drop 2 (syncSteps orders expected stub i)) st ?Q" if at: "run_at ?c outs st" for outs st
  proof (cases "\<exists>a. sync_amount orders i = Some a \<and> expected = SyncChargeRequest i a")
    case True
    then obtain a where a: "sync_amount orders i = Some a" "expected = SyncChargeRequest i a" by blast
    obtain c' where create: "CreateOrder ?c i = (c', Some (CreateOrderResponse i (sp_Result stub) (sp_ApprovalCode stub)), None)"
      "sy_externalCall c' = [expected]"
      using c order a by (simp add: CreateOrder_def syncInvokeExternalCharge_def Let_def)
    have verify: "syncVerifyExternalCharge c' i = (c', Some (SyncVerifyResponse True 1 expected), None)"
      using create(2) a(2) by (simp add: syncVerifyExternalCharge_def Let_def)
    show ?thesis
      unfolding syncSteps_def drop_Suc numeral_2_eq_2
      by (simp, rule ends_step [OF at sync_resolve(3) _ sync_answers(3) [OF create(1)]], simp add: kind_defs,
          rule ends_step [OF _ sync_resolve(4) _ sync_answers(4) [OF verify]], assumption, simp add: kind_defs)
         (rule ends_Nil, use at create(2) a in \<open>auto simp: run_at_def box_result_def\<close>)
  next
    case False
    obtain m where create: "CreateOrder ?c i = (?c, None, Some (syncStatusError ''ERROR'' m))"
      using c order False
      by (cases "sync_amount orders i") (auto simp: CreateOrder_def syncInvokeExternalCharge_def syncStatusFailed_def Let_def)
    show ?thesis
      unfolding syncSteps_def drop_Suc numeral_2_eq_2
      by (simp, rule ends_refused [OF at sync_resolve(3) _ _ sync_answers(3) [OF create]])
         (use False c(2) in \<open>auto simp: kind_defs syncErrorInspector_def syncStatusError_def\<close>)
  qed
  then show ?thesis using sync_prepare [of orders expected stub rt i ?Q client x] by (simp add: ends_def)
qed

end
