(* ===== verification/QueueExample.thy ===== *)
theory QueueExample
  imports ExampleKit
begin

text \<open>
  The sample service \<open>docs/itestkit/examples/queue/inbound\<close>: published orders that a consumer stores, which
  an await step drives.  \<open>client.go\<close> with the queue, the consumer and the database, \<open>handlers.go\<close>,
  \<open>codec.go\<close> and \<open>registry.go\<close>.
\<close>

section \<open>The structs\<close>

definition consumeReadyAttempt :: int where "consumeReadyAttempt = 2"
definition queueOrderStatePending :: string where "queueOrderStatePending = ''pending''"
definition queueOrderStateProcessed :: string where "queueOrderStateProcessed = ''processed''"

text \<open>The requests and responses that are passed as \<open>any\<close>, with their fields.\<close>

datatype queueAny =
    InitEnvironmentRequest
  | InitEnvironmentResponse int
  | PublishOrderRequest string int
  | PublishOrderResponse string int
  | AwaitConsumptionRequest string
  | AwaitConsumptionResponse string
  | VerifyOrderRequest string
  | VerifyOrderResponse string int bool

instance queueAny :: countable by countable_datatype

record brokerMessage =
  bm_OrderID :: string
  bm_Amount :: int

record storedOrder =
  sd_OrderID :: string
  sd_Amount :: int

record queueClient =
  qc_brokerMessages :: "brokerMessage list"
  qc_storedOrders :: "storedOrder gomap"
  qc_consumerAttempts :: "int gomap"
  qc_nextOffset :: int

definition newQueueClient :: queueClient where
  "newQueueClient = \<lparr>qc_brokerMessages = [], qc_storedOrders = [], qc_consumerAttempts = [], qc_nextOffset = 0\<rparr>"

section \<open>The errors\<close>

definition queueStatusOK :: string where "queueStatusOK = ''OK''"
definition queueStatusFailed :: string where "queueStatusFailed = ''ERROR''"

definition queueStatusError :: "string \<Rightarrow> string \<Rightarrow> err" where
  "queueStatusError code message = statusError ''queueStatusError'' code (Err message)"

definition queueStatusCodec :: "string statusCodec" where
  "queueStatusCodec = \<lparr>
     sc_parse = (\<lambda>raw.
       if raw = queueStatusOK then Inr queueStatusOK
       else if raw = queueStatusFailed then Inr queueStatusFailed
       else Inl (Errorf ''unsupported status code: %q'' [AStr raw])),
     sc_success = queueStatusOK\<rparr>"

definition queueErrorInspector :: "(err \<Rightarrow> string) \<Rightarrow> string errorInspector" where
  "queueErrorInspector text e =
     (case as_statusError ''queueStatusError'' e of None \<Rightarrow> None | Some (code, message) \<Rightarrow> Some (code, text message))"

section \<open>The service\<close>

definition InitEnvironment :: "queueClient \<Rightarrow> queueClient \<times> queueAny option \<times> err option" where
  "InitEnvironment client =
     (client\<lparr>qc_brokerMessages := [], qc_storedOrders := [], qc_consumerAttempts := [], qc_nextOffset := 0\<rparr>,
      Some (InitEnvironmentResponse 0), None)"

definition PublishOrder :: "queueClient \<Rightarrow> string \<Rightarrow> int \<Rightarrow> queueClient \<times> queueAny option \<times> err option" where
  "PublishOrder client orderID amount =
     (let offset = qc_nextOffset client in
      (client\<lparr>qc_brokerMessages := qc_brokerMessages client @ [\<lparr>bm_OrderID = orderID, bm_Amount = amount\<rparr>],
              qc_nextOffset := qc_nextOffset client + 1\<rparr>,
       Some (PublishOrderResponse ''orders'' offset), None))"

fun findMessage :: "string \<Rightarrow> brokerMessage list \<Rightarrow> brokerMessage option" where
  "findMessage orderID [] = None"
| "findMessage orderID (message # messages) =
     (if bm_OrderID message = orderID then Some message else findMessage orderID messages)"

definition findBrokerMessage :: "queueClient \<Rightarrow> string \<Rightarrow> brokerMessage option" where
  "findBrokerMessage client orderID = findMessage orderID (qc_brokerMessages client)"

definition consumer_attempts :: "queueClient \<Rightarrow> string \<Rightarrow> int" where
  "consumer_attempts client orderID = (case mget (qc_consumerAttempts client) orderID of None \<Rightarrow> 0 | Some n \<Rightarrow> n)"

definition AwaitConsumption :: "queueClient \<Rightarrow> string \<Rightarrow> queueClient \<times> queueAny option \<times> err option" where
  "AwaitConsumption client orderID =
     (if mget (qc_storedOrders client) orderID \<noteq> None then
        (client, Some (AwaitConsumptionResponse queueOrderStateProcessed), None)
      else case findBrokerMessage client orderID of
        None \<Rightarrow> (client, Some (AwaitConsumptionResponse ''missing''),
                 Some (queueStatusError queueStatusFailed ''message is not published''))
      | Some message \<Rightarrow>
          (let n = consumer_attempts client orderID + 1;
               client1 = client\<lparr>qc_consumerAttempts := mput orderID n (qc_consumerAttempts client)\<rparr> in
           if n < consumeReadyAttempt then
             (client1, Some (AwaitConsumptionResponse queueOrderStatePending),
              Some (queueStatusError queueStatusFailed ''consumer has not processed message yet''))
           else
             (client1\<lparr>qc_storedOrders := mput orderID
                \<lparr>sd_OrderID = bm_OrderID message, sd_Amount = bm_Amount message\<rparr> (qc_storedOrders client1)\<rparr>,
              Some (AwaitConsumptionResponse queueOrderStateProcessed), None)))"

definition VerifyOrder :: "queueClient \<Rightarrow> string \<Rightarrow> queueClient \<times> queueAny option \<times> err option" where
  "VerifyOrder client orderID =
     (case mget (qc_storedOrders client) orderID of
        None \<Rightarrow> (client, Some (VerifyOrderResponse orderID 0 False),
                 Some (queueStatusError queueStatusFailed ''order is not stored in database''))
      | Some order \<Rightarrow> (client, Some (VerifyOrderResponse (sd_OrderID order) (sd_Amount order) True), None))"

section \<open>The handlers\<close>

definition storePublishOrderRequest :: "string \<times> int \<Rightarrow> string \<Rightarrow> (string \<times> int) result" where
  "storePublishOrderRequest v raw =
     rbind (decode_struct [''order_id'', ''amount''] raw) (\<lambda>ms.
     rbind (store_all store_string (fst v) (field_values ms ''order_id'')) (\<lambda>i.
     rbind (store_all store_int (snd v) (field_values ms ''amount'')) (\<lambda>a.
     Inr (i, a))))"

definition storePublishOrderResponse :: "string \<times> int \<Rightarrow> string \<Rightarrow> (string \<times> int) result" where
  "storePublishOrderResponse v raw =
     rbind (decode_struct [''topic'', ''offset''] raw) (\<lambda>ms.
     rbind (store_all store_string (fst v) (field_values ms ''topic'')) (\<lambda>t.
     rbind (store_all store_int (snd v) (field_values ms ''offset'')) (\<lambda>n.
     Inr (t, n))))"

definition storeVerifyOrderResponse :: "string \<times> int \<times> bool \<Rightarrow> string \<Rightarrow> (string \<times> int \<times> bool) result" where
  "storeVerifyOrderResponse v raw =
     rbind (decode_struct [''order_id'', ''amount'', ''stored''] raw) (\<lambda>ms.
     rbind (store_all store_string (fst v) (field_values ms ''order_id'')) (\<lambda>i.
     rbind (store_all store_int (fst (snd v)) (field_values ms ''amount'')) (\<lambda>a.
     rbind (store_all store_bool (snd (snd v)) (field_values ms ''stored'')) (\<lambda>s.
     Inr (i, a, s)))))"

definition initEnvironmentHandler :: "(queueClient \<times> 'x) handler" where
  "initEnvironmentHandler = exampleHandler ''InitEnvironment''
     (tagged (\<lambda>_. InitEnvironmentRequest) (decodeOrZero ''InitEnvironment request'' storeEmpty ()))
     (tagged InitEnvironmentResponse (decodeOrZero ''InitEnvironment response'' (storeInt1 ''queue_depth'') 0))
     (\<lambda>client request. case request of InitEnvironmentRequest \<Rightarrow> Some (InitEnvironment client) | _ \<Rightarrow> None)"

definition publishOrderHandler :: "(queueClient \<times> 'x) handler" where
  "publishOrderHandler = exampleHandler ''PublishOrder''
     (tagged (\<lambda>(i, a). PublishOrderRequest i a) (wrapDecode ''PublishOrder request'' storePublishOrderRequest ([], 0)))
     (tagged (\<lambda>(t, n). PublishOrderResponse t n) (decodeOrZero ''PublishOrder response'' storePublishOrderResponse ([], 0)))
     (\<lambda>client request. case request of PublishOrderRequest i a \<Rightarrow> Some (PublishOrder client i a) | _ \<Rightarrow> None)"

definition awaitConsumptionHandler :: "(queueClient \<times> 'x) handler" where
  "awaitConsumptionHandler = exampleHandler ''AwaitConsumption''
     (tagged AwaitConsumptionRequest (wrapDecode ''AwaitConsumption request'' (storeString1 ''order_id'') []))
     (tagged AwaitConsumptionResponse (decodeOrZero ''AwaitConsumption response'' (storeString1 ''state'') []))
     (\<lambda>client request. case request of AwaitConsumptionRequest i \<Rightarrow> Some (AwaitConsumption client i) | _ \<Rightarrow> None)"

definition verifyOrderHandler :: "(queueClient \<times> 'x) handler" where
  "verifyOrderHandler = exampleHandler ''VerifyOrder''
     (tagged VerifyOrderRequest (wrapDecode ''VerifyOrder request'' (storeString1 ''order_id'') []))
     (tagged (\<lambda>(i, a, s). VerifyOrderResponse i a s) (wrapDecode ''VerifyOrder response'' storeVerifyOrderResponse ([], 0, False)))
     (\<lambda>client request. case request of VerifyOrderRequest i \<Rightarrow> Some (VerifyOrder client i) | _ \<Rightarrow> None)"

lemmas queue_handlers = initEnvironmentHandler_def publishOrderHandler_def awaitConsumptionHandler_def
  verifyOrderHandler_def

definition newQueueRegistry :: "(queueClient \<times> 'x) handler mapRegistry" where
  "newQueueRegistry = newMapRegistry
     [(''AwaitConsumption'', awaitConsumptionHandler),
      (''InitEnvironment'', initEnvironmentHandler),
      (''PublishOrder'', publishOrderHandler),
      (''VerifyOrder'', verifyOrderHandler)]"

lemma queue_resolve:
  "mapRegistryResolve newQueueRegistry ''InitEnvironment'' = Inr initEnvironmentHandler"
  "mapRegistryResolve newQueueRegistry ''PublishOrder'' = Inr publishOrderHandler"
  "mapRegistryResolve newQueueRegistry ''AwaitConsumption'' = Inr awaitConsumptionHandler"
  "mapRegistryResolve newQueueRegistry ''VerifyOrder'' = Inr verifyOrderHandler"
  by (simp_all add: mapRegistryResolve_def newQueueRegistry_def newMapRegistry_def mcopy_def mget_Cons)

lemma queue_answers:
  "InitEnvironment client = (client', v, e) \<Longrightarrow>
     answers initEnvironmentHandler (box_ptr InitEnvironmentRequest) client client' (box_result v) e"
  "PublishOrder client i a = (client', v, e) \<Longrightarrow>
     answers publishOrderHandler (box_ptr (PublishOrderRequest i a)) client client' (box_result v) e"
  "AwaitConsumption client i = (client', v, e) \<Longrightarrow>
     answers awaitConsumptionHandler (box_ptr (AwaitConsumptionRequest i)) client client' (box_result v) e"
  "VerifyOrder client i = (client', v, e) \<Longrightarrow>
     answers verifyOrderHandler (box_ptr (VerifyOrderRequest i)) client client' (box_result v) e"
  by (auto simp: queue_handlers intro: answers_example)

section \<open>The consumer is driven by the await step\<close>

text \<open>A published order that the consumer has not seen yet, and what becomes of it.\<close>

definition queue_waiting :: "queueClient \<Rightarrow> string \<Rightarrow> bool" where
  "queue_waiting client i \<longleftrightarrow>
     wf_map (qc_consumerAttempts client) \<and> consumer_attempts client i = 0 \<and>
     mget (qc_storedOrders client) i = None \<and> findBrokerMessage client i \<noteq> None"

definition queue_first :: "queueClient \<Rightarrow> string \<Rightarrow> queueClient" where
  "queue_first client i = client\<lparr>qc_consumerAttempts := mput i 1 (qc_consumerAttempts client)\<rparr>"

definition queue_settled :: "queueClient \<Rightarrow> string \<Rightarrow> queueClient" where
  "queue_settled client i =
     (case findBrokerMessage client i of
        None \<Rightarrow> client
      | Some m \<Rightarrow> (queue_first client i)\<lparr>
          qc_consumerAttempts := mput i 2 (mput i 1 (qc_consumerAttempts client)),
          qc_storedOrders := mput i \<lparr>sd_OrderID = bm_OrderID m, sd_Amount = bm_Amount m\<rparr> (qc_storedOrders client)\<rparr>)"

lemma AwaitConsumption_first:
  "queue_waiting client i \<Longrightarrow> AwaitConsumption client i = (queue_first client i, Some (AwaitConsumptionResponse ''pending''),
      Some (queueStatusError ''ERROR'' ''consumer has not processed message yet''))"
  by (auto simp: queue_waiting_def AwaitConsumption_def queue_first_def consumeReadyAttempt_def
      queueOrderStatePending_def queueStatusFailed_def)

lemma AwaitConsumption_second:
  assumes "queue_waiting client i"
  shows "AwaitConsumption (queue_first client i) i =
      (queue_settled client i, Some (AwaitConsumptionResponse ''processed''), None)"
proof -
  have "consumer_attempts (queue_first client i) i = 1" "findBrokerMessage (queue_first client i) i = findBrokerMessage client i"
    using assms by (simp_all add: consumer_attempts_def queue_first_def queue_waiting_def findBrokerMessage_def)
  then show ?thesis
    using assms by (auto simp: queue_waiting_def AwaitConsumption_def consumeReadyAttempt_def queue_settled_def
      queueOrderStateProcessed_def queue_first_def Let_def)
qed

interpretation consumer: polled AwaitConsumption queue_waiting queue_settled
    "\<lambda>client i. Some (AwaitConsumptionResponse ''processed'')"
  by unfold_locales (metis AwaitConsumption_first AwaitConsumption_second)

lemma AwaitConsumption_missing:
  "mget (qc_storedOrders client) i = None \<Longrightarrow> findBrokerMessage client i = None \<Longrightarrow>
     AwaitConsumption client i = (client, Some (AwaitConsumptionResponse ''missing''),
       Some (queueStatusError ''ERROR'' ''message is not published''))"
  by (simp add: AwaitConsumption_def queueStatusFailed_def)

section \<open>A case\<close>

text \<open>The steps of the cases below \<open>cases\<close>, with any messages; a message has its step, its order and its amount.\<close>

definition publishStep :: "string \<times> string \<times> int \<Rightarrow> (queueClient \<times> 'x) step" where
  "publishStep m = exampleStep newQueueRegistry (fst m) StepKindPublish ''PublishOrder''
     (PublishOrderRequest (fst (snd m)) (snd (snd m))) None"

definition consumeSteps :: "string \<Rightarrow> awaitRetry \<Rightarrow> (queueClient \<times> 'x) step list" where
  "consumeSteps i p =
     [exampleStep newQueueRegistry ''await-consumer'' StepKindAwait ''AwaitConsumption''
        (AwaitConsumptionRequest i) (Some p),
      exampleStep newQueueRegistry ''verify-db'' StepKindVerify ''VerifyOrder'' (VerifyOrderRequest i) None]"

definition queueSteps :: "(string \<times> string \<times> int) list \<Rightarrow> string \<Rightarrow> awaitRetry \<Rightarrow> (queueClient \<times> 'x) step list" where
  "queueSteps ms i p =
     exampleStep newQueueRegistry ''init-env'' StepKindPrepare ''InitEnvironment'' InitEnvironmentRequest None #
     map publishStep ms @ consumeSteps i p"

text \<open>The client after the messages are published.\<close>

definition queue_published :: "(string \<times> string \<times> int) list \<Rightarrow> queueClient" where
  "queue_published ms = \<lparr>qc_brokerMessages = map (\<lambda>m. \<lparr>bm_OrderID = fst (snd m), bm_Amount = snd (snd m)\<rparr>) ms,
     qc_storedOrders = [], qc_consumerAttempts = [], qc_nextOffset = int (length ms)\<rparr>"

lemma PublishOrder_published:
  "PublishOrder (queue_published ms) (fst (snd m)) (snd (snd m)) =
     (queue_published (ms @ [m]), Some (PublishOrderResponse ''orders'' (int (length ms))), None)"
  by (simp add: PublishOrder_def queue_published_def)

lemma ends_publish:
  assumes "run_at (queue_published done) outs st"
    and "\<And>outs st. run_at (queue_published (done @ ms)) outs st \<Longrightarrow> ends rt rest st Q"
  shows "ends rt (map publishStep ms @ rest) st Q"
  using assms
proof (induction ms arbitrary: "done" outs st)
  case (Cons m ms)
  show ?case
    unfolding list.map append_Cons publishStep_def [of m]
    by (rule ends_step [OF Cons.prems(1) queue_resolve(2) _ queue_answers(2) [OF PublishOrder_published]],
        simp add: kind_defs, erule Cons.IH, rule Cons.prems(2), simp)
qed simp

lemma findMessage_published:
  "findBrokerMessage (queue_published ms) i =
     map_option (\<lambda>m. \<lparr>bm_OrderID = i, bm_Amount = snd (snd m)\<rparr>) (find (\<lambda>m. fst (snd m) = i) ms)"
  unfolding findBrokerMessage_def queue_published_def by (induction ms) auto

lemma ends_consumed:
  fixes st :: "(queueClient \<times> 'x) run_state"
  assumes "patient env rt" "2 \<le> ar_maxAttempts p" "find (\<lambda>m. fst (snd m) = i) ms = Some m"
    and "run_at (queue_published ms) outs st" "within_elapsed p"
  shows "ends rt (consumeSteps i p) st (\<lambda>st. rs_executionErr st = None \<and>
      mget (rs_stepOutputs st) ''verify-db'' = Some (box_ptr (VerifyOrderResponse i (snd (snd m)) True)))" (is "ends _ _ _ ?Q")
proof -
  let ?c = "queue_published ms" and ?c' = "queue_settled (queue_published ms) i"
  have w: "queue_waiting ?c i"
    using assms(3) by (simp add: queue_waiting_def consumer_attempts_def findMessage_published) (simp add: queue_published_def)
  have verify: "VerifyOrder ?c' i = (?c', Some (VerifyOrderResponse i (snd (snd m)) True), None)"
    using assms(3) by (simp add: VerifyOrder_def queue_settled_def findMessage_published) (simp add: queue_published_def mget_Cons)
  have await: "\<exists>x'. executeAwaitStep rt awaitConsumptionHandler (?c, x) (exampleStep newQueueRegistry
      ''await-consumer'' StepKindAwait ''AwaitConsumption'' (AwaitConsumptionRequest i) (Some p)) =
      ((?c', x'), Inr (box_result (Some (AwaitConsumptionResponse ''processed''))))" for x :: 'x
    by (rule consumer.await_settled [OF assms(1) w _ assms(2,5), where out = box_result]) (simp_all add: queue_answers(3))
  have "ends rt [exampleStep newQueueRegistry ''verify-db'' StepKindVerify ''VerifyOrder'' (VerifyOrderRequest i) None] st' ?Q"
    if "run_at ?c' outs st'" for outs and st' :: "(queueClient \<times> 'x) run_state"
    by (rule ends_step [OF that queue_resolve(4) _ queue_answers(4) [OF verify]], simp add: kind_defs)
       (rule ends_Nil, use that in \<open>auto simp: run_at_def box_result_def\<close>)
  from ends_await [OF assms(4) queue_resolve(3) await this] show ?thesis by (simp add: consumeSteps_def)
qed

lemma ends_unconsumed:
  fixes st :: "(queueClient \<times> 'x) run_state"
  assumes "patient env rt" "0 < ar_maxAttempts p" "find (\<lambda>m. fst (snd m) = i) ms = None"
    and "run_at (queue_published ms) outs st" "within_elapsed p"
  shows "ends rt (consumeSteps i p) st (\<lambda>st.
      \<exists>e m. rs_executionErr st = Some e \<and> queueErrorInspector text e = Some (''ERROR'', m))"
proof -
  let ?c = "queue_published ms"
  let ?R = "\<lambda>w e. \<exists>m. as_statusError ''queueStatusError'' e = Some (''ERROR'', m)"
  have m: "AwaitConsumption ?c i = (?c, Some (AwaitConsumptionResponse ''missing''),
      Some (queueStatusError ''ERROR'' ''message is not published''))"
    using assms(3) by (intro AwaitConsumption_missing) (simp add: queue_published_def, simp add: findMessage_published)
  have await: "\<exists>w e. executeCaseStep rt (?c, x) (exampleStep newQueueRegistry ''await-consumer'' StepKindAwait
      ''AwaitConsumption'' (AwaitConsumptionRequest i) (Some p)) = (w, Inl e) \<and> ?R w e" for x :: 'x
  proof -
    have calls: "\<exists>client' v e. answers awaitConsumptionHandler (request_value (st_request (exampleStep newQueueRegistry
        ''await-consumer'' StepKindAwait ''AwaitConsumption'' (AwaitConsumptionRequest i) (Some p)))) client client' v (Some e) \<and>
        client' = ?c \<and> (\<exists>m. e = queueStatusError ''ERROR'' m)" if "client = ?c" for client
      using m queue_answers(3) that by (simp del: not_None_eq) blast
    from await_never [OF assms(1), where tag = "''queueStatusError''", OF this refl _ assms(2,5)]
    show ?thesis by (fastforce simp: executeCaseStep_def queue_resolve queueStatusError_def)
  qed
  show ?thesis
    unfolding consumeSteps_def
    by (rule ends_failed [OF assms(4) queue_resolve(3) _ await]) (auto simp: kind_defs queueErrorInspector_def)
qed

text \<open>
  The case of the repository, for any messages and whatever the client held before: run by the runner,
  it succeeds exactly when a message of the awaited order was published, and then the database has the
  amount of the first such message.
\<close>

theorem queue_case:
  assumes "patient env rt" "2 \<le> ar_maxAttempts p" "within_elapsed p"
  shows "\<exists>st. runSteps rt (queueSteps ms i p) (initialRun (client, x)) = Some st \<and>
    (case find (\<lambda>m. fst (snd m) = i) ms of
       Some m \<Rightarrow> rs_executionErr st = None \<and>
         mget (rs_stepOutputs st) ''verify-db'' = Some (box_ptr (VerifyOrderResponse i (snd (snd m)) True))
     | None \<Rightarrow> \<exists>e m. rs_executionErr st = Some e \<and> queueErrorInspector text e = Some (''ERROR'', m))"
    (is "\<exists>st. ?run st \<and> ?Q st")
proof -
  have init: "InitEnvironment client = (queue_published [], Some (InitEnvironmentResponse 0), None)"
    by (cases client) (simp add: InitEnvironment_def queue_published_def)
  have "0 < ar_maxAttempts p" using assms(2) by simp
  then have "ends rt (consumeSteps i p) st ?Q" if "run_at (queue_published ms) outs st" for outs st
    using ends_consumed [OF assms(1,2) _ that assms(3)] ends_unconsumed [OF assms(1) _ _ that assms(3)]
    by (cases "find (\<lambda>m. fst (snd m) = i) ms") auto
  then have "ends rt (queueSteps ms i p) (initialRun (client, x)) ?Q"
    unfolding queueSteps_def
    by (intro ends_step [OF run_at_initial queue_resolve(1) _ queue_answers(1) [OF init]])
       (simp add: kind_defs, erule ends_publish, simp)
  then show ?thesis by (simp add: ends_def)
qed

theorem queue_case_witness:
  "\<exists>st. runSteps late_runtime (queueSteps [(''p1'', ''order-1'', 5), (''p2'', ''order-100'', 4200), (''p3'', ''order-100'', 9)]
      ''order-100'' \<lparr>ar_timeoutMS = 500, ar_intervalMS = 10, ar_maxAttempts = 5\<rparr>) (initialRun (newQueueClient, False)) = Some st \<and>
    rs_executionErr st = None \<and>
    mget (rs_stepOutputs st) ''verify-db'' = Some (box_ptr (VerifyOrderResponse ''order-100'' 4200 True))"
  using queue_case [OF late_runtime_patient, of "\<lparr>ar_timeoutMS = 500, ar_intervalMS = 10, ar_maxAttempts = 5\<rparr>"
      "[(''p1'', ''order-1'', 5), (''p2'', ''order-100'', 4200), (''p3'', ''order-100'', 9)]" "''order-100''" newQueueClient False "\<lambda>_. []"]
  by (auto simp: within_elapsed_def DefaultMaxElapsedTime_def wrap64_def)

end
