(* ===== verification/EchoExample.thy ===== *)
theory EchoExample
  imports ExampleKit Matchers
begin

text \<open>
  The sample service \<open>docs/itestkit/examples/custom\<close>: echoed messages, and events that are published,
  polled by an await step and verified with \<open>MatchExpectedJSON\<close>.  \<open>client.go\<close> with the service,
  \<open>handlers.go\<close>, \<open>codec.go\<close> and \<open>registry.go\<close>.
\<close>

section \<open>The structs\<close>

definition awaitProcessedSuccessAttempt :: int where "awaitProcessedSuccessAttempt = 2"
definition customStatePending :: string where "customStatePending = ''pending''"
definition customStateProcessed :: string where "customStateProcessed = ''processed''"

text \<open>The requests and responses that are passed as \<open>any\<close>, with their fields.\<close>

datatype customAny =
    SetPrefixRequest string
  | SetPrefixResponse
  | EchoRequest string
  | EchoResponse string
  | PublishEventRequest string
  | PublishEventResponse string
  | AwaitProcessedRequest string
  | AwaitProcessedResponse string
  | VerifyStateRequest json
  | VerifyStateResponse string string

instance json :: countable by countable_datatype
instance customAny :: countable by countable_datatype

record echoClient =
  ec_prefix :: string
  ec_publishedID :: string
  ec_processed :: bool
  ec_awaitAttempt :: int

definition newEchoClient :: echoClient where
  "newEchoClient = \<lparr>ec_prefix = [], ec_publishedID = [], ec_processed = False, ec_awaitAttempt = 0\<rparr>"

section \<open>The errors\<close>

definition customStatusOK :: string where "customStatusOK = ''OK''"
definition customStatusFailed :: string where "customStatusFailed = ''ERROR''"

definition customStatusError :: "string \<Rightarrow> string \<Rightarrow> err" where
  "customStatusError code message = statusError ''statusError'' code (Err message)"

definition simpleStatusCodec :: "string statusCodec" where
  "simpleStatusCodec = \<lparr>
     sc_parse = (\<lambda>raw.
       if raw = customStatusOK then Inr customStatusOK
       else if raw = customStatusFailed then Inr customStatusFailed
       else Inl (Errorf ''unsupported status code: %q'' [AStr raw])),
     sc_success = customStatusOK\<rparr>"

definition simpleErrorInspector :: "(err \<Rightarrow> string) \<Rightarrow> string errorInspector" where
  "simpleErrorInspector text e =
     (case as_statusError ''statusError'' e of None \<Rightarrow> None | Some (code, message) \<Rightarrow> Some (code, text message))"

section \<open>The service\<close>

definition SetPrefix :: "echoClient \<Rightarrow> string \<Rightarrow> echoClient \<times> customAny option \<times> err option" where
  "SetPrefix client prfx = (client\<lparr>ec_prefix := prfx\<rparr>, Some SetPrefixResponse, None)"

definition Echo :: "echoClient \<Rightarrow> string \<Rightarrow> echoClient \<times> customAny option \<times> err option" where
  "Echo client message = (client, Some (EchoResponse (ec_prefix client @ message)), None)"

definition PublishEvent :: "echoClient \<Rightarrow> string \<Rightarrow> echoClient \<times> customAny option \<times> err option" where
  "PublishEvent client message =
     (client\<lparr>ec_publishedID := message, ec_processed := False, ec_awaitAttempt := 0\<rparr>,
      Some (PublishEventResponse message), None)"

definition AwaitProcessed :: "echoClient \<Rightarrow> string \<Rightarrow> echoClient \<times> customAny option \<times> err option" where
  "AwaitProcessed client eventID =
     (if ec_publishedID client = [] \<or> eventID \<noteq> ec_publishedID client then
        (client, Some (AwaitProcessedResponse ''missing''),
         Some (customStatusError customStatusFailed ''event is not published''))
      else
        (let client1 = client\<lparr>ec_awaitAttempt := ec_awaitAttempt client + 1\<rparr> in
         if ec_awaitAttempt client1 < awaitProcessedSuccessAttempt then
           (client1, Some (AwaitProcessedResponse customStatePending),
            Some (customStatusError customStatusFailed ''event is not processed yet''))
         else (client1\<lparr>ec_processed := True\<rparr>, Some (AwaitProcessedResponse customStateProcessed), None)))"

text \<open>The state and the event of the response.\<close>

definition VerifyState :: "echoClient \<Rightarrow> string \<times> string" where
  "VerifyState client =
     (if ec_processed client then customStateProcessed else customStatePending, ec_publishedID client)"

section \<open>The handlers\<close>

definition storeVerifyStateResponse :: "string \<times> string \<Rightarrow> string \<Rightarrow> (string \<times> string) result" where
  "storeVerifyStateResponse v raw =
     rbind (decode_struct [''state'', ''event_id''] raw) (\<lambda>ms.
     rbind (store_all store_string (fst v) (field_values ms ''state'')) (\<lambda>s.
     rbind (store_all store_string (snd v) (field_values ms ''event_id'')) (\<lambda>i.
     Inr (s, i))))"

definition storeVerifyStateRequestJSON :: "string \<Rightarrow> string \<Rightarrow> string result" where
  "storeVerifyStateRequestJSON v raw =
     rbind (decode_struct [''expected''] raw) (\<lambda>ms. store_all store_raw v (field_values ms ''expected''))"

definition setPrefixHandler :: "(echoClient \<times> 'x) handler" where
  "setPrefixHandler = exampleHandler ''SetPrefix''
     (tagged SetPrefixRequest (wrapDecode ''SetPrefix request'' (storeString1 ''prefix'') []))
     (tagged (\<lambda>_. SetPrefixResponse) (decodeOrZero ''SetPrefix response'' storeEmpty ()))
     (\<lambda>client request. case request of SetPrefixRequest p \<Rightarrow> Some (SetPrefix client p) | _ \<Rightarrow> None)"

text \<open>The normalised response is a map; a nil pointer is never a response of \<open>Echo\<close>.\<close>

definition echoHandler :: "(echoClient \<times> 'x) handler" where
  "echoHandler = (exampleHandler ''Echo''
     (tagged EchoRequest (wrapDecode ''Echo request'' (storeString1 ''message'') []))
     (tagged EchoResponse (wrapDecode ''Echo response'' (storeString1 ''message'') []))
     (\<lambda>client request. case request of EchoRequest m \<Rightarrow> Some (Echo client m) | _ \<Rightarrow> None))
   \<lparr>h_normalizeResponse := (\<lambda>response.
      case unbox_ptr response of
        Some (EchoResponse message) \<Rightarrow> Inr (VMap (Some [(''message'', to_iface (VStr message))]))
      | _ \<Rightarrow> Inl (Errorf ''Echo received invalid response type: %T'' []))\<rparr>"

definition publishEventHandler :: "(echoClient \<times> 'x) handler" where
  "publishEventHandler = exampleHandler ''PublishEvent''
     (tagged PublishEventRequest (wrapDecode ''PublishEvent request'' (storeString1 ''message'') []))
     (tagged PublishEventResponse (decodeOrZero ''PublishEvent response'' (storeString1 ''event_id'') []))
     (\<lambda>client request. case request of PublishEventRequest m \<Rightarrow> Some (PublishEvent client m) | _ \<Rightarrow> None)"

definition awaitProcessedHandler :: "(echoClient \<times> 'x) handler" where
  "awaitProcessedHandler = exampleHandler ''AwaitProcessed''
     (tagged AwaitProcessedRequest (wrapDecode ''AwaitProcessed request'' (storeString1 ''event_id'') []))
     (tagged AwaitProcessedResponse (decodeOrZero ''AwaitProcessed response'' (storeString1 ''state'') []))
     (\<lambda>client request. case request of AwaitProcessedRequest i \<Rightarrow> Some (AwaitProcessed client i) | _ \<Rightarrow> None)"

text \<open>The template keeps its markers; a failed comparison returns the nil interface.\<close>

definition decodeVerifyStateRequest :: "string \<Rightarrow> json result" where
  "decodeVerifyStateRequest raw =
     rbind (if 0 < length raw then wrapDecode ''VerifyState request'' storeVerifyStateRequestJSON ''{}'' raw
            else Inr ''{}'') (\<lambda>expected.
       map_err (\<lambda>e. Errorf ''decode VerifyState expected state: %w'' [AErr e]) (decodeExpectedJSON expected))"

definition actual_state :: "string \<times> string \<Rightarrow> json" where
  "actual_state response = JObj (mcopy [] [(''state'', JStr (fst response)), (''event_id'', JStr (snd response))])"

definition verifyStateHandler :: "regexps \<Rightarrow> (echoClient \<times> 'x) handler" where
  "verifyStateHandler rx = \<lparr>
     h_decodeRequest = (\<lambda>raw. rbind (decodeVerifyStateRequest raw) (\<lambda>e. Inr (box_ptr (VerifyStateRequest e)))),
     h_decodeExpectedResponse = (\<lambda>raw.
       rbind (wrapDecode ''VerifyState response'' storeVerifyStateResponse ([], []) raw) (\<lambda>(s, i).
         Inr (box_ptr (VerifyStateResponse s i)))),
     h_invoke = (\<lambda>(client, x) request.
       case unbox_ptr request of
         Some (VerifyStateRequest expected) \<Rightarrow>
           (let response = VerifyState client in
            case matchExpectedJSON rx expected (actual_state response) MatchModeExact of
              Inl e \<Rightarrow> ((client, x), VInvalid, Some (Errorf ''verify state expectation: %w'' [AErr e]))
            | Inr _ \<Rightarrow> ((client, x), box_ptr (VerifyStateResponse (fst response) (snd response)), None))
       | _ \<Rightarrow> ((client, x), VInvalid, Some (Errorf ''VerifyState received invalid request type: %T'' []))),
     h_normalizeResponse = (\<lambda>response. Inr response)\<rparr>"

definition newExampleRegistry :: "regexps \<Rightarrow> (echoClient \<times> 'x) handler mapRegistry" where
  "newExampleRegistry rx = newMapRegistry
     [(''AwaitProcessed'', awaitProcessedHandler),
      (''Echo'', echoHandler),
      (''PublishEvent'', publishEventHandler),
      (''SetPrefix'', setPrefixHandler),
      (''VerifyState'', verifyStateHandler rx)]"

lemma custom_resolve:
  "mapRegistryResolve (newExampleRegistry rx) ''SetPrefix'' = Inr setPrefixHandler"
  "mapRegistryResolve (newExampleRegistry rx) ''Echo'' = Inr echoHandler"
  "mapRegistryResolve (newExampleRegistry rx) ''PublishEvent'' = Inr publishEventHandler"
  "mapRegistryResolve (newExampleRegistry rx) ''AwaitProcessed'' = Inr awaitProcessedHandler"
  "mapRegistryResolve (newExampleRegistry rx) ''VerifyState'' = Inr (verifyStateHandler rx)"
  by (simp_all add: mapRegistryResolve_def newExampleRegistry_def newMapRegistry_def mcopy_def mget_Cons)

lemma custom_answers:
  "PublishEvent client m = (client', v, e) \<Longrightarrow>
     answers publishEventHandler (box_ptr (PublishEventRequest m)) client client' (box_result v) e"
  "AwaitProcessed client i = (client', v, e) \<Longrightarrow>
     answers awaitProcessedHandler (box_ptr (AwaitProcessedRequest i)) client client' (box_result v) e"
  by (auto simp: publishEventHandler_def awaitProcessedHandler_def intro: answers_example)

lemma verify_answers:
  "matchExpectedJSON rx expected (actual_state (VerifyState client)) MatchModeExact = Inr () \<Longrightarrow>
     answers (verifyStateHandler rx) (box_ptr (VerifyStateRequest expected)) client client
       (box_ptr (VerifyStateResponse (fst (VerifyState client)) (snd (VerifyState client)))) None"
  "matchExpectedJSON rx expected (actual_state (VerifyState client)) MatchModeExact = Inl e \<Longrightarrow>
     answers (verifyStateHandler rx) (box_ptr (VerifyStateRequest expected)) client client
       VInvalid (Some (Errorf ''verify state expectation: %w'' [AErr e]))"
  by (simp_all add: answers_def verifyStateHandler_def ptr.unbox_box Let_def)

section \<open>Events are driven by the await step\<close>

definition event_waiting :: "echoClient \<Rightarrow> string \<Rightarrow> bool" where
  "event_waiting client i \<longleftrightarrow> i = ec_publishedID client \<and> i \<noteq> [] \<and> ec_awaitAttempt client = 0"

definition event_settled :: "echoClient \<Rightarrow> string \<Rightarrow> echoClient" where
  "event_settled client i = client\<lparr>ec_awaitAttempt := 2, ec_processed := True\<rparr>"

interpretation event: polled AwaitProcessed event_waiting event_settled
    "\<lambda>client i. Some (AwaitProcessedResponse ''processed'')"
  by unfold_locales
     (simp add: event_waiting_def event_settled_def AwaitProcessed_def awaitProcessedSuccessAttempt_def customStateProcessed_def)

section \<open>A case\<close>

text \<open>The steps of the case \<open>cases/publish_await_verify_ok.jsonc\<close>, with any data.\<close>

definition customSteps :: "regexps \<Rightarrow> string \<Rightarrow> string \<Rightarrow> json \<Rightarrow> awaitRetry \<Rightarrow> (echoClient \<times> 'x) step list" where
  "customSteps rx message i expected p =
     [exampleStep (newExampleRegistry rx) ''publish-1'' StepKindPublish ''PublishEvent'' (PublishEventRequest message) None,
      exampleStep (newExampleRegistry rx) ''await-1'' StepKindAwait ''AwaitProcessed'' (AwaitProcessedRequest i) (Some p),
      exampleStep (newExampleRegistry rx) ''verify-1'' StepKindVerify ''VerifyState'' (VerifyStateRequest expected) None]"

lemma ends_missing:
  fixes st :: "(echoClient \<times> 'x) run_state"
  assumes "patient env rt" "0 < ar_maxAttempts p" "message = [] \<or> i \<noteq> message"
    and "run_at c outs st" "ec_publishedID c = message" "within_elapsed p"
  shows "ends rt (drop 1 (customSteps rx message i expected p)) st (\<lambda>st. rs_executionErr st \<noteq> None)"
proof -
  have m: "AwaitProcessed c i = (c, Some (AwaitProcessedResponse ''missing''),
      Some (customStatusError ''ERROR'' ''event is not published''))"
    using assms(3,5) by (auto simp: AwaitProcessed_def customStatusFailed_def)
  have await: "\<exists>w e. executeCaseStep rt (c, x) (exampleStep (newExampleRegistry rx) ''await-1'' StepKindAwait
      ''AwaitProcessed'' (AwaitProcessedRequest i) (Some p)) = (w, Inl e) \<and> True" for x :: 'x
  proof -
    have "\<exists>client' v e. answers awaitProcessedHandler (request_value (st_request (exampleStep (newExampleRegistry rx)
        ''await-1'' StepKindAwait ''AwaitProcessed'' (AwaitProcessedRequest i) (Some p)))) client client' v (Some e) \<and>
        client' = c \<and> True" if "client = c" for client
      using m custom_answers(2) that by (simp del: not_None_eq) blast
    from await_never [OF assms(1), OF this refl _ assms(2,6)]
    show ?thesis by (fastforce simp: executeCaseStep_def custom_resolve)
  qed
  show ?thesis
    unfolding customSteps_def
    by (simp, rule ends_failed [OF assms(4) custom_resolve(4) _ await]) (auto simp: kind_defs)
qed

text \<open>
  The case of the repository, for any data and whatever the client held before: run by the runner, it
  succeeds exactly when the awaited event is the published one, has a name, and the expectation holds of
  the processed event in the sense of exact matching.
\<close>

theorem custom_case:
  assumes "patient env rt" "2 \<le> ar_maxAttempts p" "within_elapsed p"
  shows "\<exists>st. runSteps rt (customSteps rx message i expected p) (initialRun (client, x)) = Some st \<and>
    (rs_executionErr st = None \<longleftrightarrow>
       i = message \<and> message \<noteq> [] \<and>
       matchExpectedJSON rx expected (actual_state (''processed'', message)) MatchModeExact = Inr ())"
    (is "\<exists>st. ?run st \<and> ?Q st")
proof -
  let ?c = "client\<lparr>ec_publishedID := message, ec_processed := False, ec_awaitAttempt := 0\<rparr>"
  have "ends rt (drop 1 (customSteps rx message i expected p)) st ?Q" if at: "run_at ?c outs st" for outs st
  proof (cases "i = message \<and> message \<noteq> []")
    case True
    then have w: "event_waiting ?c i" by (simp add: event_waiting_def)
    let ?c' = "event_settled ?c i"
    have s: "VerifyState ?c' = (''processed'', message)"
      by (simp add: VerifyState_def event_settled_def customStateProcessed_def)
    have await: "\<exists>x'. executeAwaitStep rt awaitProcessedHandler (?c, x) (exampleStep (newExampleRegistry rx)
        ''await-1'' StepKindAwait ''AwaitProcessed'' (AwaitProcessedRequest i) (Some p)) =
        ((?c', x'), Inr (box_result (Some (AwaitProcessedResponse ''processed''))))" for x
      by (rule event.await_settled [OF assms(1) w _ assms(2,3), where out = box_result]) (simp_all add: custom_answers(2))
    have "ends rt [exampleStep (newExampleRegistry rx) ''verify-1'' StepKindVerify ''VerifyState'' (VerifyStateRequest expected) None]
        st' ?Q" if at': "run_at ?c' outs st'" for outs st'
    proof (cases "matchExpectedJSON rx expected (actual_state (VerifyState ?c')) MatchModeExact")
      case (Inl e)
      then show ?thesis
        by (intro ends_refused [OF at' custom_resolve(5) _ _ verify_answers(2)]) (auto simp: s kind_defs)
    next
      case (Inr u)
      then have "matchExpectedJSON rx expected (actual_state (VerifyState ?c')) MatchModeExact = Inr ()" by simp
      moreover have "matchExpectedJSON rx expected (actual_state (''processed'', message)) MatchModeExact = Inr ()"
        using calculation s by simp
      ultimately show ?thesis
        using True
        by (intro ends_step [OF at' custom_resolve(5) _ verify_answers(1)]) (auto simp: s kind_defs run_at_def intro!: ends_Nil)
    qed
    from ends_await [OF at custom_resolve(4) await this] show ?thesis by (simp add: customSteps_def)
  next
    case False
    then show ?thesis
      using ends_missing [OF assms(1) _ _ at, of p message i rx expected] assms(2,3) by (auto simp: ends_def)
  qed
  moreover have "PublishEvent client message = (?c, Some (PublishEventResponse message), None)"
    by (simp add: PublishEvent_def)
  ultimately have "ends rt (customSteps rx message i expected p) (initialRun (client, x)) ?Q"
    unfolding customSteps_def
    by (intro ends_step [OF run_at_initial custom_resolve(3) _ custom_answers(1)]) (auto simp: kind_defs)
  then show ?thesis by (simp add: ends_def)
qed

definition processed_template :: json where
  "processed_template = JObj [(''event_id'', JObj [(''$present'', JBool True)]), (''state'', JStr ''processed'')]"

theorem custom_case_witness:
  "\<exists>st. runSteps late_runtime (customSteps (\<lambda>_. None) ''event-42'' ''event-42'' processed_template
      \<lparr>ar_timeoutMS = 300, ar_intervalMS = 10, ar_maxAttempts = 5\<rparr>) (initialRun (newEchoClient, False)) = Some st \<and>
    rs_executionErr st = None"
proof -
  have "matchExpectedJSON (\<lambda>_. None) processed_template (actual_state (''processed'', ''event-42'')) MatchModeExact = Inr ()"
    by code_simp
  with custom_case [OF late_runtime_patient, of "\<lparr>ar_timeoutMS = 300, ar_intervalMS = 10, ar_maxAttempts = 5\<rparr>" "\<lambda>_. None"
      "''event-42''" "''event-42''" processed_template newEchoClient False]
  show ?thesis by (auto simp: within_elapsed_def DefaultMaxElapsedTime_def wrap64_def)
qed

end
