(* ===== verification/BookingExample.thy ===== *)
theory BookingExample
  imports ExampleKit TestCalendar
begin

text \<open>
  The sample service \<open>docs/itestkit/examples/bookingcalendar\<close>: quotes for bookings, whose dates the calendar
  macros of the fixtures give.  \<open>client.go\<close> with the service, \<open>handlers.go\<close>, \<open>codec.go\<close> and
  \<open>registry.go\<close>.
\<close>

section \<open>The structs\<close>

datatype seedBooking = SeedBooking (sb_BookingID: string) (sb_HotelID: string) (sb_CheckInDate: string) (sb_CheckOutDate: string)
datatype externalQuoteRequest =
  ExternalQuoteRequest (eq_HotelID: string) (eq_CheckInDate: string) (eq_CheckOutDate: string) (eq_RequestedAt: string)
datatype externalQuoteResponse = ExternalQuoteResponse (er_RateID: string) (er_ExpiresAt: string)

text \<open>The requests and responses that are passed as \<open>any\<close>, with their fields.\<close>

datatype bookingAny =
    BookingSeedDataRequest "seedBooking list"
  | BookingSeedDataResponse int
  | PlanExternalQuoteRequest externalQuoteRequest externalQuoteResponse
  | PlanExternalQuoteResponse bool
  | CreateBookingQuoteRequest string
  | CreateBookingQuoteResponse string string string string int int string string
  | VerifyExternalQuoteRequest string
  | VerifyExternalQuoteResponse bool int externalQuoteRequest

instance seedBooking :: countable by countable_datatype
instance externalQuoteRequest :: countable by countable_datatype
instance externalQuoteResponse :: countable by countable_datatype
instance bookingAny :: countable by countable_datatype

text \<open>The provider of the current time is kept as the time it gives.\<close>

record bookingClient =
  bc_now :: gotime
  bc_bookings :: "seedBooking gomap"
  bc_quotePlanned :: bool
  bc_expectedQuoteRequest :: externalQuoteRequest
  bc_stubQuoteResponse :: externalQuoteResponse
  bc_quoteCalls :: int
  bc_lastQuotedBookingID :: string
  bc_lastQuoteRequest :: externalQuoteRequest

definition noQuoteRequest :: externalQuoteRequest where
  "noQuoteRequest = ExternalQuoteRequest [] [] [] []"

definition resetBookings :: "bookingClient \<Rightarrow> bookingClient" where
  "resetBookings client = client\<lparr>bc_bookings := [], bc_quotePlanned := False, bc_expectedQuoteRequest := noQuoteRequest,
     bc_stubQuoteResponse := ExternalQuoteResponse [] [], bc_quoteCalls := 0, bc_lastQuotedBookingID := [],
     bc_lastQuoteRequest := noQuoteRequest\<rparr>"

definition newBookingClient :: "gotime \<Rightarrow> bookingClient" where
  "newBookingClient now = resetBookings \<lparr>bc_now = now, bc_bookings = [], bc_quotePlanned = False,
     bc_expectedQuoteRequest = noQuoteRequest, bc_stubQuoteResponse = ExternalQuoteResponse [] [], bc_quoteCalls = 0,
     bc_lastQuotedBookingID = [], bc_lastQuoteRequest = noQuoteRequest\<rparr>"

section \<open>The errors\<close>

definition bookingStatusOK :: string where "bookingStatusOK = ''OK''"
definition bookingStatusFailed :: string where "bookingStatusFailed = ''ERROR''"

definition newBookingStatusError :: "string \<Rightarrow> earg list \<Rightarrow> err" where
  "newBookingStatusError format args = statusError ''bookingStatusError'' bookingStatusFailed (Errorf format args)"

definition bookingStatusCodec :: "string statusCodec" where
  "bookingStatusCodec = \<lparr>
     sc_parse = (\<lambda>raw.
       if raw = bookingStatusOK then Inr bookingStatusOK
       else if raw = bookingStatusFailed then Inr bookingStatusFailed
       else Inl (Errorf ''unsupported status code: %q'' [AStr raw])),
     sc_success = bookingStatusOK\<rparr>"

definition bookingErrorInspector :: "(err \<Rightarrow> string) \<Rightarrow> string errorInspector" where
  "bookingErrorInspector text e =
     (case as_statusError ''bookingStatusError'' e of None \<Rightarrow> None | Some (code, message) \<Rightarrow> Some (code, text message))"

section \<open>The service\<close>

text \<open>Package \<open>time\<close>: \<open>Sub\<close> is limited to the 64 bits of a \<open>Duration\<close>, and a quotient is truncated.\<close>

definition time_sub :: "int \<Rightarrow> int \<Rightarrow> int" where
  "time_sub t u = max (- (2 ^ 63)) (min (2 ^ 63 - 1) (t - u))"

definition dayDuration :: int where "dayDuration = 24 * 3600 * nanos"

definition duration_days :: "int \<Rightarrow> int" where
  "duration_days d = sgn d * (\<bar>d\<bar> div dayDuration)"

text \<open>\<open>time.Parse\<close> with \<open>time.DateOnly\<close> yields the midnight of the day in UTC, here its nanoseconds.\<close>

definition parseDateOnly :: "string \<Rightarrow> int result" where
  "parseDateOnly raw =
     (case parse_date_only raw of
        None \<Rightarrow> Inl (Opaque ''time.Parse'')
      | Some (y, m, d) \<Rightarrow> Inr (instant (days_from_civil y m d) 0 0 0 0 0))"

definition validateStayWindow :: "bookingClient \<Rightarrow> seedBooking \<Rightarrow> (int \<times> int \<times> int) result" where
  "validateStayWindow client booking =
     rbind (map_err (\<lambda>e. newBookingStatusError ''parse check-in date: %v'' [AText e])
              (parseDateOnly (sb_CheckInDate booking))) (\<lambda>checkInDate.
     rbind (map_err (\<lambda>e. newBookingStatusError ''parse check-out date: %v'' [AText e])
              (parseDateOnly (sb_CheckOutDate booking))) (\<lambda>checkOutDate.
     rbind (map_err (\<lambda>e. newBookingStatusError ''parse today date: %v'' [AText e])
              (parseDateOnly (format_date_only (bc_now client)))) (\<lambda>todayDate.
     if checkInDate < todayDate then Inl (newBookingStatusError ''check-in date must not be before today'' [])
     else if \<not> checkInDate < checkOutDate then
       Inl (newBookingStatusError ''check-out date must be after check-in date'' [])
     else Inr (checkInDate, checkOutDate, todayDate))))"

definition quote_args :: "externalQuoteRequest \<Rightarrow> earg list" where
  "quote_args q = [AStr (eq_HotelID q), AStr (eq_CheckInDate q), AStr (eq_CheckOutDate q), AStr (eq_RequestedAt q)]"

definition invokeExternalQuote ::
    "bookingClient \<Rightarrow> string \<Rightarrow> externalQuoteRequest \<Rightarrow> bookingClient \<times> externalQuoteResponse result" where
  "invokeExternalQuote client bookingID request =
     (if \<not> bc_quotePlanned client then (client, Inl (Err ''external expectation is not planned''))
      else if request \<noteq> bc_expectedQuoteRequest client then
        (client, Inl (Errorf ''external request mismatch: want %+v got %+v''
           (quote_args (bc_expectedQuoteRequest client) @ quote_args request)))
      else
        (client\<lparr>bc_quoteCalls := bc_quoteCalls client + 1, bc_lastQuotedBookingID := bookingID,
                bc_lastQuoteRequest := request\<rparr>,
         Inr (bc_stubQuoteResponse client)))"

definition bookingSeedData :: "bookingClient \<Rightarrow> seedBooking list \<Rightarrow> bookingClient \<times> bookingAny option \<times> err option" where
  "bookingSeedData client bookings =
     (let client1 = resetBookings client in
      (client1\<lparr>bc_bookings := mcopy (bc_bookings client1) (map (\<lambda>b. (sb_BookingID b, b)) bookings)\<rparr>,
       Some (BookingSeedDataResponse (int (length bookings))), None))"

definition PlanExternalQuote ::
    "bookingClient \<Rightarrow> externalQuoteRequest \<Rightarrow> externalQuoteResponse \<Rightarrow> bookingClient \<times> bookingAny option \<times> err option" where
  "PlanExternalQuote client expectedRequest stubResponse =
     (client\<lparr>bc_quotePlanned := True, bc_expectedQuoteRequest := expectedRequest, bc_stubQuoteResponse := stubResponse,
             bc_quoteCalls := 0, bc_lastQuotedBookingID := [], bc_lastQuoteRequest := noQuoteRequest\<rparr>,
      Some (PlanExternalQuoteResponse True), None)"

definition quote_request :: "bookingClient \<Rightarrow> seedBooking \<Rightarrow> externalQuoteRequest" where
  "quote_request client booking = ExternalQuoteRequest (sb_HotelID booking) (sb_CheckInDate booking)
     (sb_CheckOutDate booking) (format_timestamp (bc_now client))"

definition CreateBookingQuote :: "bookingClient \<Rightarrow> string \<Rightarrow> bookingClient \<times> bookingAny option \<times> err option" where
  "CreateBookingQuote client bookingID =
     (case mget (bc_bookings client) bookingID of
        None \<Rightarrow> (client, None, Some (newBookingStatusError ''booking %q is not found'' [AStr bookingID]))
      | Some booking \<Rightarrow>
          (case validateStayWindow client booking of
             Inl e \<Rightarrow> (client, None, Some e)
           | Inr (checkInDate, checkOutDate, todayDate) \<Rightarrow>
               (case invokeExternalQuote client (sb_BookingID booking) (quote_request client booking) of
                  (client1, Inl e) \<Rightarrow>
                    (client1, None, Some (newBookingStatusError ''external quote failed: %v'' [AText e]))
                | (client1, Inr quoteResponse) \<Rightarrow>
                    (client1, Some (CreateBookingQuoteResponse (sb_BookingID booking) (sb_HotelID booking)
                       (sb_CheckInDate booking) (sb_CheckOutDate booking)
                       (duration_days (time_sub checkOutDate checkInDate))
                       (duration_days (time_sub checkInDate todayDate))
                       (er_RateID quoteResponse) (er_ExpiresAt quoteResponse)), None))))"

definition VerifyExternalQuote :: "bookingClient \<Rightarrow> string \<Rightarrow> bookingClient \<times> bookingAny option \<times> err option" where
  "VerifyExternalQuote client bookingID =
     (if bc_quoteCalls client = 0 then
        (client, None, Some (newBookingStatusError ''external pricing API was not called'' []))
      else if bc_lastQuotedBookingID client \<noteq> bookingID then
        (client, None, Some (newBookingStatusError ''unexpected booking for external quote: got %q''
           [AStr (bc_lastQuotedBookingID client)]))
      else (client, Some (VerifyExternalQuoteResponse True (bc_quoteCalls client) (bc_lastQuoteRequest client)), None))"

section \<open>The handlers\<close>

definition storeSeedBooking :: "seedBooking \<Rightarrow> string \<Rightarrow> seedBooking result" where
  "storeSeedBooking v raw =
     rbind (decode_struct [''booking_id'', ''hotel_id'', ''check_in_date'', ''check_out_date''] raw) (\<lambda>ms.
     rbind (store_all store_string (sb_BookingID v) (field_values ms ''booking_id'')) (\<lambda>b.
     rbind (store_all store_string (sb_HotelID v) (field_values ms ''hotel_id'')) (\<lambda>h.
     rbind (store_all store_string (sb_CheckInDate v) (field_values ms ''check_in_date'')) (\<lambda>i.
     rbind (store_all store_string (sb_CheckOutDate v) (field_values ms ''check_out_date'')) (\<lambda>out.
     Inr (SeedBooking b h i out))))))"

definition storeBookingSeedDataRequest :: "seedBooking list \<Rightarrow> string \<Rightarrow> seedBooking list result" where
  "storeBookingSeedDataRequest v raw =
     rbind (decode_struct [''bookings''] raw) (\<lambda>ms.
       store_all (store_slice storeSeedBooking (SeedBooking [] [] [] [])) v (field_values ms ''bookings''))"

definition storeExternalQuoteRequest :: "externalQuoteRequest \<Rightarrow> string \<Rightarrow> externalQuoteRequest result" where
  "storeExternalQuoteRequest v raw =
     rbind (decode_struct [''hotel_id'', ''check_in_date'', ''check_out_date'', ''requested_at''] raw) (\<lambda>ms.
     rbind (store_all store_string (eq_HotelID v) (field_values ms ''hotel_id'')) (\<lambda>h.
     rbind (store_all store_string (eq_CheckInDate v) (field_values ms ''check_in_date'')) (\<lambda>i.
     rbind (store_all store_string (eq_CheckOutDate v) (field_values ms ''check_out_date'')) (\<lambda>out.
     rbind (store_all store_string (eq_RequestedAt v) (field_values ms ''requested_at'')) (\<lambda>r.
     Inr (ExternalQuoteRequest h i out r))))))"

definition storeExternalQuoteResponse :: "externalQuoteResponse \<Rightarrow> string \<Rightarrow> externalQuoteResponse result" where
  "storeExternalQuoteResponse v raw =
     rbind (decode_struct [''rate_id'', ''expires_at''] raw) (\<lambda>ms.
     rbind (store_all store_string (er_RateID v) (field_values ms ''rate_id'')) (\<lambda>r.
     rbind (store_all store_string (er_ExpiresAt v) (field_values ms ''expires_at'')) (\<lambda>x.
     Inr (ExternalQuoteResponse r x))))"

definition storePlanExternalQuoteRequest ::
    "externalQuoteRequest \<times> externalQuoteResponse \<Rightarrow> string \<Rightarrow> (externalQuoteRequest \<times> externalQuoteResponse) result" where
  "storePlanExternalQuoteRequest v raw =
     rbind (decode_struct [''expected_request'', ''stub_response''] raw) (\<lambda>ms.
     rbind (store_all storeExternalQuoteRequest (fst v) (field_values ms ''expected_request'')) (\<lambda>q.
     rbind (store_all storeExternalQuoteResponse (snd v) (field_values ms ''stub_response'')) (\<lambda>s.
     Inr (q, s))))"

type_synonym quote_fields = "string \<times> string \<times> string \<times> string \<times> int \<times> int \<times> string \<times> string"

definition storeCreateBookingQuoteResponse :: "quote_fields \<Rightarrow> string \<Rightarrow> quote_fields result" where
  "storeCreateBookingQuoteResponse v raw =
     (case v of (v1, v2, v3, v4, v5, v6, v7, v8) \<Rightarrow>
        rbind (decode_struct [''booking_id'', ''hotel_id'', ''check_in_date'', ''check_out_date'', ''nights'',
                 ''days_until_check_in'', ''rate_id'', ''quote_expires_at''] raw) (\<lambda>ms.
        rbind (store_all store_string v1 (field_values ms ''booking_id'')) (\<lambda>w1.
        rbind (store_all store_string v2 (field_values ms ''hotel_id'')) (\<lambda>w2.
        rbind (store_all store_string v3 (field_values ms ''check_in_date'')) (\<lambda>w3.
        rbind (store_all store_string v4 (field_values ms ''check_out_date'')) (\<lambda>w4.
        rbind (store_all store_int v5 (field_values ms ''nights'')) (\<lambda>w5.
        rbind (store_all store_int v6 (field_values ms ''days_until_check_in'')) (\<lambda>w6.
        rbind (store_all store_string v7 (field_values ms ''rate_id'')) (\<lambda>w7.
        rbind (store_all store_string v8 (field_values ms ''quote_expires_at'')) (\<lambda>w8.
        Inr (w1, w2, w3, w4, w5, w6, w7, w8)))))))))))"

definition storeVerifyExternalQuoteResponse ::
    "bool \<times> int \<times> externalQuoteRequest \<Rightarrow> string \<Rightarrow> (bool \<times> int \<times> externalQuoteRequest) result" where
  "storeVerifyExternalQuoteResponse v raw =
     rbind (decode_struct [''called'', ''calls_count'', ''last_request''] raw) (\<lambda>ms.
     rbind (store_all store_bool (fst v) (field_values ms ''called'')) (\<lambda>c.
     rbind (store_all store_int (fst (snd v)) (field_values ms ''calls_count'')) (\<lambda>n.
     rbind (store_all storeExternalQuoteRequest (snd (snd v)) (field_values ms ''last_request'')) (\<lambda>q.
     Inr (c, n, q)))))"

definition bookingSeedDataHandler :: "(bookingClient \<times> 'x) handler" where
  "bookingSeedDataHandler = exampleHandler ''SeedData''
     (tagged BookingSeedDataRequest (wrapDecode ''SeedData request'' storeBookingSeedDataRequest []))
     (tagged BookingSeedDataResponse (decodeOrZero ''SeedData response'' (storeInt1 ''stored_bookings'') 0))
     (\<lambda>client request. case request of BookingSeedDataRequest bs \<Rightarrow> Some (bookingSeedData client bs) | _ \<Rightarrow> None)"

definition planExternalQuoteHandler :: "(bookingClient \<times> 'x) handler" where
  "planExternalQuoteHandler = exampleHandler ''PlanExternalQuote''
     (tagged (\<lambda>(q, s). PlanExternalQuoteRequest q s) (wrapDecode ''PlanExternalQuote request''
        storePlanExternalQuoteRequest (noQuoteRequest, ExternalQuoteResponse [] [])))
     (tagged PlanExternalQuoteResponse (decodeOrZero ''PlanExternalQuote response'' (storeBool1 ''planned'') False))
     (\<lambda>client request. case request of PlanExternalQuoteRequest q s \<Rightarrow> Some (PlanExternalQuote client q s) | _ \<Rightarrow> None)"

definition createBookingQuoteHandler :: "(bookingClient \<times> 'x) handler" where
  "createBookingQuoteHandler = exampleHandler ''CreateBookingQuote''
     (tagged CreateBookingQuoteRequest (wrapDecode ''CreateBookingQuote request'' (storeString1 ''booking_id'') []))
     (tagged (\<lambda>(b, h, i, out, n, d, r, x). CreateBookingQuoteResponse b h i out n d r x)
        (decodeOrZero ''CreateBookingQuote response'' storeCreateBookingQuoteResponse ([], [], [], [], 0, 0, [], [])))
     (\<lambda>client request. case request of CreateBookingQuoteRequest i \<Rightarrow> Some (CreateBookingQuote client i) | _ \<Rightarrow> None)"

definition verifyExternalQuoteHandler :: "(bookingClient \<times> 'x) handler" where
  "verifyExternalQuoteHandler = exampleHandler ''VerifyExternalQuote''
     (tagged VerifyExternalQuoteRequest (wrapDecode ''VerifyExternalQuote request'' (storeString1 ''booking_id'') []))
     (tagged (\<lambda>(c, n, q). VerifyExternalQuoteResponse c n q)
        (decodeOrZero ''VerifyExternalQuote response'' storeVerifyExternalQuoteResponse (False, 0, noQuoteRequest)))
     (\<lambda>client request. case request of VerifyExternalQuoteRequest i \<Rightarrow> Some (VerifyExternalQuote client i) | _ \<Rightarrow> None)"

lemmas booking_handlers = bookingSeedDataHandler_def planExternalQuoteHandler_def createBookingQuoteHandler_def
  verifyExternalQuoteHandler_def

definition newBookingRegistry :: "(bookingClient \<times> 'x) handler mapRegistry" where
  "newBookingRegistry = newMapRegistry
     [(''CreateBookingQuote'', createBookingQuoteHandler),
      (''PlanExternalQuote'', planExternalQuoteHandler),
      (''SeedData'', bookingSeedDataHandler),
      (''VerifyExternalQuote'', verifyExternalQuoteHandler)]"

text \<open>\<open>NewCaseHarness\<close>.\<close>

definition bookingCaseHarness :: bookingClient where
  "bookingCaseHarness = newBookingClient FixedNow"

lemma booking_resolve:
  "mapRegistryResolve newBookingRegistry ''SeedData'' = Inr bookingSeedDataHandler"
  "mapRegistryResolve newBookingRegistry ''PlanExternalQuote'' = Inr planExternalQuoteHandler"
  "mapRegistryResolve newBookingRegistry ''CreateBookingQuote'' = Inr createBookingQuoteHandler"
  "mapRegistryResolve newBookingRegistry ''VerifyExternalQuote'' = Inr verifyExternalQuoteHandler"
  by (simp_all add: mapRegistryResolve_def newBookingRegistry_def newMapRegistry_def mcopy_def mget_Cons)

lemma booking_answers:
  "bookingSeedData client bs = (client', v, e) \<Longrightarrow>
     answers bookingSeedDataHandler (box_ptr (BookingSeedDataRequest bs)) client client' (box_result v) e"
  "PlanExternalQuote client q s = (client', v, e) \<Longrightarrow>
     answers planExternalQuoteHandler (box_ptr (PlanExternalQuoteRequest q s)) client client' (box_result v) e"
  "CreateBookingQuote client i = (client', v, e) \<Longrightarrow>
     answers createBookingQuoteHandler (box_ptr (CreateBookingQuoteRequest i)) client client' (box_result v) e"
  "VerifyExternalQuote client i = (client', v, e) \<Longrightarrow>
     answers verifyExternalQuoteHandler (box_ptr (VerifyExternalQuoteRequest i)) client client' (box_result v) e"
  by (auto simp: booking_handlers intro: answers_example)

section \<open>Days\<close>

lemma parse_day:
  assumes "- 719468 \<le> n" "n < 2786860"
  shows "parseDateOnly (format_day n) = Inr (n * 86400 * nanos)"
  using parse_format_day [OF assms] by (auto simp: parseDateOnly_def instant_def)

text \<open>A stay is counted in whole days, up to the longest duration of 64 bits.\<close>

lemma duration_days:
  assumes "0 \<le> n"
  shows "duration_days (time_sub ((a + n) * 86400 * nanos) (a * 86400 * nanos)) = min n 106751"
proof (cases "n \<le> 106751")
  case True
  then have "time_sub ((a + n) * 86400 * nanos) (a * 86400 * nanos) = n * dayDuration"
    using assms by (simp add: time_sub_def nanos_def dayDuration_def)
  then show ?thesis using True assms by (cases "n = 0") (simp_all add: duration_days_def dayDuration_def nanos_def)
next
  case False
  then have "time_sub ((a + n) * 86400 * nanos) (a * 86400 * nanos) = 9223372036854775807"
    using assms by (simp add: time_sub_def nanos_def)
  then show ?thesis using False by (simp add: duration_days_def dayDuration_def nanos_def)
qed

definition today :: int where "today = local_seconds FixedNow div 86400"

lemma today_eq: "today = 20513"
  unfolding today_def by code_simp

text \<open>The text a value of the fixture is replaced by, and the day of a date macro.\<close>

definition macro_text :: "string \<Rightarrow> string \<Rightarrow> string" where
  "macro_text key v = (case resolveStringValue newCalendar v key of Inr (Some s) \<Rightarrow> s | _ \<Rightarrow> v)"

definition macro_day :: "string \<Rightarrow> int option" where
  "macro_day v =
     (case parseMacroToken v of
        Inr (Some token) \<Rightarrow>
          if mt_kind token = MacroKindDate then Some (local_seconds (renderTime newCalendar token) div 86400) else None
      | _ \<Rightarrow> None)"

lemma macro_date:
  assumes "macro_day v = Some n" "key \<noteq> dollarDateKey"
  shows "parseDateOnly (macro_text key v) = Inr (n * 86400 * nanos)"
proof -
  obtain token where t: "parseMacroToken v = Inr (Some token)" "mt_kind token = MacroKindDate"
    "n = local_seconds (renderTime newCalendar token) div 86400"
    using assms(1) by (auto simp: macro_day_def split: sum.splits option.splits if_splits)
  have "macro_text key v = format_day n"
    using t assms(2) by (simp add: macro_text_def resolveStringValue_def format_date_only_def Let_def)
  then show ?thesis using renderTime_ok [OF t(1)] t(3) by (simp add: parse_day)
qed

lemma macro_now: "macro_text ''requested_at'' ''<test_timestamp>'' = format_timestamp FixedNow"
  by code_simp

lemma today_date: "parseDateOnly (format_date_only FixedNow) = Inr (today * 86400 * nanos)"
  using parse_day [of today] by (simp add: format_date_only_def today_eq flip: today_def)

section \<open>A case\<close>

text \<open>The steps of the case \<open>cases/booking_quote_ok.jsonc\<close>, with any booking; \<open>v1\<close> and \<open>v2\<close> are its dates.\<close>

definition bookingOf :: "string \<Rightarrow> string \<Rightarrow> string \<Rightarrow> string \<Rightarrow> seedBooking" where
  "bookingOf i h v1 v2 = SeedBooking i h (macro_text ''check_in_date'' v1) (macro_text ''check_out_date'' v2)"

definition quoteOf :: "string \<Rightarrow> string \<Rightarrow> string \<Rightarrow> externalQuoteRequest" where
  "quoteOf h v1 v2 = ExternalQuoteRequest h (macro_text ''check_in_date'' v1) (macro_text ''check_out_date'' v2)
     (macro_text ''requested_at'' ''<test_timestamp>'')"

definition bookingSteps :: "string \<Rightarrow> string \<Rightarrow> string \<Rightarrow> string \<Rightarrow> externalQuoteResponse \<Rightarrow> (bookingClient \<times> 'x) step list" where
  "bookingSteps i h v1 v2 stub =
     [exampleStep newBookingRegistry ''seed-data'' StepKindPrepare ''SeedData''
        (BookingSeedDataRequest [bookingOf i h v1 v2]) None,
      exampleStep newBookingRegistry ''plan-external'' StepKindPrepare ''PlanExternalQuote''
        (PlanExternalQuoteRequest (quoteOf h v1 v2) stub) None,
      exampleStep newBookingRegistry ''create-quote'' StepKindAction ''CreateBookingQuote'' (CreateBookingQuoteRequest i) None,
      exampleStep newBookingRegistry ''verify-external'' StepKindVerify ''VerifyExternalQuote''
        (VerifyExternalQuoteRequest i) None]"

definition booking_planned :: "string \<Rightarrow> string \<Rightarrow> string \<Rightarrow> string \<Rightarrow> externalQuoteResponse \<Rightarrow> bookingClient" where
  "booking_planned i h v1 v2 stub = bookingCaseHarness\<lparr>bc_bookings := [(i, bookingOf i h v1 v2)], bc_quotePlanned := True,
     bc_expectedQuoteRequest := quoteOf h v1 v2, bc_stubQuoteResponse := stub\<rparr>"

definition booking_quoted :: "string \<Rightarrow> string \<Rightarrow> string \<Rightarrow> string \<Rightarrow> externalQuoteResponse \<Rightarrow> bookingClient" where
  "booking_quoted i h v1 v2 stub = (booking_planned i h v1 v2 stub)\<lparr>bc_quoteCalls := 1, bc_lastQuotedBookingID := i,
     bc_lastQuoteRequest := quoteOf h v1 v2\<rparr>"

lemma booking_prepare:
  "ends rt (bookingSteps i h v1 v2 stub) (initialRun (bookingCaseHarness, x)) Q"
  if rest: "\<And>st outs. run_at (booking_planned i h v1 v2 stub) outs st \<Longrightarrow> ends rt (drop 2 (bookingSteps i h v1 v2 stub)) st Q"
proof -
  let ?c1 = "bookingCaseHarness\<lparr>bc_bookings := [(i, bookingOf i h v1 v2)]\<rparr>"
  have seed: "bookingSeedData bookingCaseHarness [bookingOf i h v1 v2] = (?c1, Some (BookingSeedDataResponse 1), None)"
    by (simp add: bookingSeedData_def bookingCaseHarness_def newBookingClient_def resetBookings_def bookingOf_def mcopy_def)
  have plan: "PlanExternalQuote ?c1 (quoteOf h v1 v2) stub =
      (booking_planned i h v1 v2 stub, Some (PlanExternalQuoteResponse True), None)"
    by (simp add: PlanExternalQuote_def booking_planned_def bookingCaseHarness_def newBookingClient_def resetBookings_def)
  note rest = rest [unfolded bookingSteps_def, simplified]
  show ?thesis
    unfolding bookingSteps_def
    by (rule ends_step [OF run_at_initial booking_resolve(1) _ booking_answers(1) [OF seed]], simp add: kind_defs)
       (rule ends_step [OF _ booking_resolve(2) _ booking_answers(2) [OF plan]], assumption, simp add: kind_defs, rule rest)
qed

lemma booking_window:
  assumes "macro_day v1 = Some d1" "macro_day v2 = Some d2"
  shows "validateStayWindow (booking_planned i h v1 v2 stub) (bookingOf i h v1 v2) =
    (if d1 < today then Inl (newBookingStatusError ''check-in date must not be before today'' [])
     else if \<not> d1 < d2 then Inl (newBookingStatusError ''check-out date must be after check-in date'' [])
     else Inr (d1 * 86400 * nanos, d2 * 86400 * nanos, today * 86400 * nanos))"
proof -
  have "bc_now (booking_planned i h v1 v2 stub) = FixedNow"
    by (simp add: booking_planned_def bookingCaseHarness_def newBookingClient_def resetBookings_def)
  moreover have "parseDateOnly (sb_CheckInDate (bookingOf i h v1 v2)) = Inr (d1 * 86400 * nanos)"
    "parseDateOnly (sb_CheckOutDate (bookingOf i h v1 v2)) = Inr (d2 * 86400 * nanos)"
    using macro_date assms by (simp_all add: bookingOf_def dollarDateKey_def)
  ultimately show ?thesis by (simp add: validateStayWindow_def today_date nanos_def)
qed

lemma booking_create:
  assumes "macro_day v1 = Some d1" "macro_day v2 = Some d2"
  shows "today \<le> d1 \<Longrightarrow> d1 < d2 \<Longrightarrow> CreateBookingQuote (booking_planned i h v1 v2 stub) i =
      (booking_quoted i h v1 v2 stub, Some (CreateBookingQuoteResponse i h (macro_text ''check_in_date'' v1)
         (macro_text ''check_out_date'' v2) (min (d2 - d1) 106751) (min (d1 - today) 106751) (er_RateID stub) (er_ExpiresAt stub)), None)"
    and "\<not> (today \<le> d1 \<and> d1 < d2) \<Longrightarrow> \<exists>m. CreateBookingQuote (booking_planned i h v1 v2 stub) i =
      (booking_planned i h v1 v2 stub, None, Some (newBookingStatusError m []))"
proof -
  let ?c = "booking_planned i h v1 v2 stub"
  have b: "mget (bc_bookings ?c) i = Some (bookingOf i h v1 v2)" by (simp add: booking_planned_def mget_Cons)
  have q: "quote_request ?c (bookingOf i h v1 v2) = quoteOf h v1 v2"
    by (simp add: quote_request_def quoteOf_def bookingOf_def macro_now booking_planned_def bookingCaseHarness_def
        newBookingClient_def resetBookings_def)
  have i: "invokeExternalQuote ?c i (quoteOf h v1 v2) = (booking_quoted i h v1 v2 stub, Inr stub)"
    by (simp add: invokeExternalQuote_def booking_quoted_def)
       (simp add: booking_planned_def bookingCaseHarness_def newBookingClient_def resetBookings_def)
  note w = booking_window [OF assms, of i h stub]
  {
    assume d: "today \<le> d1" "d1 < d2"
    have days: "duration_days (time_sub (d2 * 86400 * nanos) (d1 * 86400 * nanos)) = min (d2 - d1) 106751"
      "duration_days (time_sub (d1 * 86400 * nanos) (today * 86400 * nanos)) = min (d1 - today) 106751"
      using duration_days [of "d2 - d1" d1] duration_days [of "d1 - today" today] d by simp_all
    have id: "sb_BookingID (bookingOf i h v1 v2) = i" by (simp add: bookingOf_def)
    show "CreateBookingQuote ?c i =
      (booking_quoted i h v1 v2 stub, Some (CreateBookingQuoteResponse i h (macro_text ''check_in_date'' v1)
         (macro_text ''check_out_date'' v2) (min (d2 - d1) 106751) (min (d1 - today) 106751) (er_RateID stub) (er_ExpiresAt stub)), None)"
      using d by (simp add: CreateBookingQuote_def b w q i id days) (simp add: bookingOf_def)
  }
  assume "\<not> (today \<le> d1 \<and> d1 < d2)"
  then show "\<exists>m. CreateBookingQuote ?c i = (?c, None, Some (newBookingStatusError m []))"
    by (cases "d1 < today") (simp_all add: CreateBookingQuote_def b w, blast+)
qed

text \<open>
  C18: the case of the repository, for any booking whose dates are date macros: run by the runner on a
  harness with the fixed clock, it succeeds exactly when the check-in is not before the fixed date and
  the check-out is later.  Then the quote counts the days between the two dates and up to the
  check-in, as far as a duration reaches, and the API was called once with the quoted booking.
\<close>

theorem booking_case:
  assumes "macro_day v1 = Some d1" "macro_day v2 = Some d2"
  shows "\<exists>st. runSteps rt (bookingSteps i h v1 v2 stub) (initialRun (bookingCaseHarness, x)) = Some st \<and>
    (if today \<le> d1 \<and> d1 < d2
     then rs_executionErr st = None \<and>
       mget (rs_stepOutputs st) ''create-quote'' = Some (box_ptr (CreateBookingQuoteResponse i h
         (macro_text ''check_in_date'' v1) (macro_text ''check_out_date'' v2)
         (min (d2 - d1) 106751) (min (d1 - today) 106751) (er_RateID stub) (er_ExpiresAt stub))) \<and>
       mget (rs_stepOutputs st) ''verify-external'' = Some (box_ptr (VerifyExternalQuoteResponse True 1 (quoteOf h v1 v2)))
     else \<exists>e m. rs_executionErr st = Some e \<and> bookingErrorInspector text e = Some (''ERROR'', m))"
    (is "\<exists>st. ?run st \<and> ?Q st")
proof -
  let ?c = "booking_planned i h v1 v2 stub" and ?c' = "booking_quoted i h v1 v2 stub"
  have "ends rt (drop 2 (bookingSteps i h v1 v2 stub)) st ?Q" if at: "run_at ?c outs st" for outs st
  proof (cases "today \<le> d1 \<and> d1 < d2")
    case True
    note create = booking_create(1) [OF assms, of i h stub]
    have verify: "VerifyExternalQuote ?c' i = (?c', Some (VerifyExternalQuoteResponse True 1 (quoteOf h v1 v2)), None)"
      by (simp add: VerifyExternalQuote_def booking_quoted_def)
    show ?thesis
      unfolding bookingSteps_def drop_Suc numeral_2_eq_2
      by (simp, rule ends_step [OF at booking_resolve(3) _ booking_answers(3) [OF create]], simp add: kind_defs,
          use True in simp, use True in simp,
          rule ends_step [OF _ booking_resolve(4) _ booking_answers(4) [OF verify]], assumption, simp add: kind_defs)
         (rule ends_Nil, use at True in \<open>auto simp: run_at_def box_result_def\<close>)
  next
    case False
    obtain m where create: "CreateBookingQuote ?c i = (?c, None, Some (newBookingStatusError m []))"
      using booking_create(2) [OF assms False] by blast
    show ?thesis
      unfolding bookingSteps_def drop_Suc numeral_2_eq_2
      by (simp, rule ends_refused [OF at booking_resolve(3) _ _ booking_answers(3) [OF create]])
         (use False in \<open>auto simp: kind_defs bookingErrorInspector_def newBookingStatusError_def bookingStatusFailed_def\<close>)
  qed
  then show ?thesis using booking_prepare [of i h v1 v2 stub rt ?Q x] by (simp add: ends_def)
qed

theorem booking_case_witness:
  "\<exists>st. runSteps late_runtime (bookingSteps ''booking-100'' ''hotel-7'' ''<test_date+10d>'' ''<test_date+12d>''
      (ExternalQuoteResponse ''rate-501'' ''x'')) (initialRun (bookingCaseHarness, False)) = Some st \<and>
    mget (rs_stepOutputs st) ''create-quote'' = Some (box_ptr (CreateBookingQuoteResponse ''booking-100'' ''hotel-7''
      ''2026-03-11'' ''2026-03-13'' 2 10 ''rate-501'' ''x''))"
proof -
  have d: "macro_day ''<test_date+10d>'' = Some 20523" "macro_day ''<test_date+12d>'' = Some 20525" by code_simp+
  have t: "macro_text ''check_in_date'' ''<test_date+10d>'' = ''2026-03-11''"
    "macro_text ''check_out_date'' ''<test_date+12d>'' = ''2026-03-13''" by code_simp+
  from booking_case [OF d, of late_runtime "''booking-100''" "''hotel-7''" "ExternalQuoteResponse ''rate-501'' ''x''" False "\<lambda>_. []"]
  show ?thesis by (auto simp: t today_eq)
qed

end
