(* ===== verification/HealthKit.thy ===== *)
theory HealthKit
  imports ExampleKit
begin

text \<open>
  What the sample services \<open>real\<close> and \<open>extapigrpcsync\<close> below \<open>docs/itestkit/examples\<close> have in common: a gRPC
  service whose method \<open>Check\<close> takes a string and yields a serving status, a mock of such a service
  that is planned and records its calls, and the checks of these calls.  Where the two packages differ
  in the text of an error only, it is an argument.
\<close>

section \<open>Serving statuses\<close>

text \<open>The constants of \<open>grpc_health_v1\<close> that the code names.\<close>

datatype servingStatus = UNKNOWN | SERVING | NOT_SERVING | SERVICE_UNKNOWN

instance servingStatus :: countable by countable_datatype

text \<open>The method \<open>String\<close>, with the names that \<open>parseServingStatus\<close> lists.\<close>

fun status_name :: "servingStatus \<Rightarrow> string" where
  "status_name UNKNOWN = ''UNKNOWN''"
| "status_name SERVING = ''SERVING''"
| "status_name NOT_SERVING = ''NOT_SERVING''"
| "status_name SERVICE_UNKNOWN = ''SERVICE_UNKNOWN''"

definition parseServingStatus :: "string \<Rightarrow> servingStatus result" where
  "parseServingStatus raw =
     (let normalized = trim_space (to_upper_names raw) in
      if normalized = status_name UNKNOWN then Inr UNKNOWN
      else if normalized = status_name SERVING then Inr SERVING
      else if normalized = status_name NOT_SERVING then Inr NOT_SERVING
      else if normalized = status_name SERVICE_UNKNOWN then Inr SERVICE_UNKNOWN
      else Inl (Errorf ''unsupported status %q; allowed values: UNKNOWN, SERVING, NOT_SERVING, SERVICE_UNKNOWN'' [AStr raw]))"

lemma parse_names:
  "parseServingStatus ''UNKNOWN'' = Inr UNKNOWN" "parseServingStatus ''SERVING'' = Inr SERVING"
  "parseServingStatus ''NOT_SERVING'' = Inr NOT_SERVING" "parseServingStatus ''SERVICE_UNKNOWN'' = Inr SERVICE_UNKNOWN"
  by code_simp+

lemma parse_status_name: "parseServingStatus (status_name s) = Inr s"
  by (cases s) (simp_all add: parse_names)

section \<open>Statuses of errors\<close>

text \<open>\<open>status.Error\<close> and \<open>status.Errorf\<close>; \<open>code\<close> is the name of a constant of package \<open>codes\<close>.\<close>

definition rpcError :: "string \<Rightarrow> err \<Rightarrow> err" where
  "rpcError code message = statusError ''status'' code message"

abbreviation invalidArgument :: "string \<Rightarrow> earg list \<Rightarrow> err" where
  "invalidArgument format args \<equiv> rpcError ''InvalidArgument'' (Errorf format args)"

abbreviation failedPrecondition :: "string \<Rightarrow> earg list \<Rightarrow> err" where
  "failedPrecondition format args \<equiv> rpcError ''FailedPrecondition'' (Errorf format args)"

abbreviation rpc_status :: "err \<Rightarrow> (string \<times> err) option" where
  "rpc_status \<equiv> as_statusError ''status''"

lemma rpc_status_self [simp]: "rpc_status (rpcError code message) = Some (code, message)"
  by (simp add: rpcError_def)

lemma rpc_status_wrapped [simp]: "rpc_status (Errorf format [AErr e]) = rpc_status e"
  by (simp add: status_parts_def split: option.split)

lemma rpcError_inject [simp]: "rpcError code m = rpcError code' m' \<longleftrightarrow> code = code' \<and> m = m'"
  by (simp add: rpcError_def statusError_def)

section \<open>Calls over a connection\<close>

text \<open>
  A server is the method \<open>Check\<close> of a registered service; a client calls it over a connection, which is a
  parameter.  The contract: the server is called once, and its status or the code of its error arrives.
\<close>

type_synonym 'c check_method = "'c \<Rightarrow> string \<Rightarrow> 'c \<times> servingStatus result"
type_synonym 'c connection = "'c check_method \<Rightarrow> 'c check_method"

definition connection_contract :: "'c connection \<Rightarrow> bool" where
  "connection_contract conn \<longleftrightarrow> (\<forall>server c q. \<exists>r. conn server c q = (fst (server c q), r) \<and>
     (case snd (server c q) of
        Inr s \<Rightarrow> r = Inr s
      | Inl e \<Rightarrow> (\<exists>e'. r = Inl e' \<and>
          (case rpc_status e of None \<Rightarrow> True | Some (code, _) \<Rightarrow> \<exists>m. e' = rpcError code m))))"

lemma delivered_status: "connection_contract conn \<Longrightarrow> server c q = (c', Inr s) \<Longrightarrow> conn server c q = (c', Inr s)"
  unfolding connection_contract_def by (drule spec [of _ server], drule spec [of _ c], drule spec [of _ q]) auto

lemma delivered_error:
  assumes "connection_contract conn" "server c q = (c', Inl e)"
  obtains e' where "conn server c q = (c', Inl e')" "\<And>code m. rpc_status e = Some (code, m) \<Longrightarrow> \<exists>m'. e' = rpcError code m'"
proof -
  obtain r where "conn server c q = (fst (server c q), r)" "case snd (server c q) of
        Inr s \<Rightarrow> r = Inr s
      | Inl e \<Rightarrow> (\<exists>e'. r = Inl e' \<and>
          (case rpc_status e of None \<Rightarrow> True | Some (code, _) \<Rightarrow> \<exists>m. e' = rpcError code m))"
    using assms(1) unfolding connection_contract_def by blast
  then obtain e' where "conn server c q = (c', Inl e')"
    "case rpc_status e of None \<Rightarrow> True | Some (code, _) \<Rightarrow> \<exists>m. e' = rpcError code m"
    using assms(2) by auto
  with that [of e'] show thesis by (auto split: option.splits)
qed

text \<open>A connection that hands over what the server returns, the error with its status alone.\<close>

definition direct_connection :: "'c connection" where
  "direct_connection server c q =
     (case server c q of
        (c', Inr s) \<Rightarrow> (c', Inr s)
      | (c', Inl e) \<Rightarrow> (c', Inl (case rpc_status e of None \<Rightarrow> e | Some (code, m) \<Rightarrow> rpcError code m)))"

lemma direct_connection_contract: "connection_contract direct_connection"
  unfolding connection_contract_def
proof (intro allI)
  fix server :: "'c check_method" and c q
  show "\<exists>r. direct_connection server c q = (fst (server c q), r) \<and>
     (case snd (server c q) of Inr s \<Rightarrow> r = Inr s
      | Inl e \<Rightarrow> (\<exists>e'. r = Inl e' \<and>
          (case rpc_status e of None \<Rightarrow> True | Some (code, _) \<Rightarrow> \<exists>m. e' = rpcError code m)))"
    by (cases "server c q"; cases "snd (server c q)") (auto simp: direct_connection_def split: option.split)
qed

section \<open>The external mock\<close>

datatype externalPlannedCall = ExternalPlannedCall (pc_ExpectedService: string) (pc_StubStatus: servingStatus)

record externalMockState =
  em_planned :: bool
  em_plan :: "externalPlannedCall list"
  em_calls :: "string list"

definition newExternalMockState :: externalMockState where
  "newExternalMockState = \<lparr>em_planned = False, em_plan = [], em_calls = []\<rparr>"

definition mockPlan :: "externalMockState \<Rightarrow> externalPlannedCall list \<Rightarrow> externalMockState" where
  "mockPlan state plannedCalls = state\<lparr>em_planned := True, em_plan := plannedCalls, em_calls := take 0 (em_calls state)\<rparr>"

definition consumeCall :: "string \<Rightarrow> externalMockState \<Rightarrow> string \<Rightarrow> externalMockState \<times> servingStatus result" where
  "consumeCall unplanned state serviceName =
     (if \<not> em_planned state then (state, Inl (Err unplanned))
      else
        (let callIndex = length (em_calls state);
             state1 = state\<lparr>em_calls := em_calls state @ [serviceName]\<rparr> in
         if length (em_plan state1) \<le> callIndex then
           (state1, Inl (Errorf ''unexpected outbound call #%d: got %q, but no more calls are planned''
              [AInt (int callIndex + 1), AStr serviceName]))
         else
           (let plannedCall = em_plan state1 ! callIndex in
            if serviceName \<noteq> pc_ExpectedService plannedCall then
              (state1, Inl (Errorf ''outbound call #%d mismatch: want %q got %q''
                 [AInt (int callIndex + 1), AStr (pc_ExpectedService plannedCall), AStr serviceName]))
            else (state1, Inr (pc_StubStatus plannedCall)))))"

text \<open>The snapshot copies the three fields.\<close>

definition snapshot :: "externalMockState \<Rightarrow> externalMockState" where
  "snapshot state = \<lparr>em_planned = em_planned state, em_plan = em_plan state, em_calls = em_calls state\<rparr>"

text \<open>The method \<open>Check\<close> of the mock.\<close>

definition externalCheck :: "string \<Rightarrow> externalMockState check_method" where
  "externalCheck unplanned state service =
     (let serviceName = trim_space service in
      if serviceName = [] then (state, Inl (invalidArgument ''service is required'' []))
      else case consumeCall unplanned state serviceName of
        (state1, Inl e) \<Rightarrow> (state1, Inl (rpcError ''FailedPrecondition'' e))
      | (state1, Inr stubStatus) \<Rightarrow> (state1, Inr stubStatus))"

text \<open>The loop of the service under test over the services it calls; the last status is its result.\<close>

fun callChain :: "(string \<Rightarrow> err \<Rightarrow> err) \<Rightarrow> 'c check_method \<Rightarrow> 'c \<Rightarrow> servingStatus \<Rightarrow> string list \<Rightarrow> 'c \<times> servingStatus result" where
  "callChain wrap check c finalStatus [] = (c, Inr finalStatus)"
| "callChain wrap check c finalStatus (service # chain) =
     (case check c service of
        (c1, Inl e) \<Rightarrow> (c1, Inl (wrap service e))
      | (c1, Inr s) \<Rightarrow> callChain wrap check c1 s chain)"

section \<open>Planning and checking\<close>

text \<open>The loops that trim a list of names and refuse a blank one; \<open>refuse\<close> makes the error of a position.\<close>

fun trimNames :: "(nat \<Rightarrow> err) \<Rightarrow> nat \<Rightarrow> string list \<Rightarrow> string list result" where
  "trimNames refuse index [] = Inr []"
| "trimNames refuse index (name # names) =
     (let trimmed = trim_space name in
      if trimmed = [] then Inl (refuse index)
      else rbind (trimNames refuse (index + 1) names) (\<lambda>rest. Inr (trimmed # rest)))"

text \<open>A planned call of a fixture: the expected service and the text of the status.\<close>

datatype planExternalCall = PlanExternalCall (xc_ExpectedService: string) (xc_Status: string)

instance planExternalCall :: countable by countable_datatype

text \<open>The loop over the planned calls, with its two errors as arguments.\<close>

fun planLoop ::
    "(nat \<Rightarrow> err) \<Rightarrow> (nat \<Rightarrow> err \<Rightarrow> err) \<Rightarrow> nat \<Rightarrow> planExternalCall list \<Rightarrow> externalPlannedCall list result" where
  "planLoop noService noStatus index [] = Inr []"
| "planLoop noService noStatus index (call # calls) =
     (let expectedService = trim_space (xc_ExpectedService call) in
      if expectedService = [] then Inl (noService index)
      else rbind (map_err (noStatus index) (parseServingStatus (xc_Status call))) (\<lambda>stubStatus.
           rbind (planLoop noService noStatus (index + 1) calls) (\<lambda>rest.
           Inr (ExternalPlannedCall expectedService stubStatus # rest))))"

text \<open>The view of a planned call in the response.\<close>

definition normalizedCall :: "externalPlannedCall \<Rightarrow> planExternalCall" where
  "normalizedCall call = PlanExternalCall (pc_ExpectedService call) (status_name (pc_StubStatus call))"

text \<open>The check of the recorded calls: whether there were any, their number and their services.\<close>

definition verifyCalls :: "string \<Rightarrow> externalMockState \<Rightarrow> string list \<Rightarrow> int \<Rightarrow> (bool \<times> int \<times> string list) result" where
  "verifyCalls unplanned state expectedServices n =
     (let s = snapshot state in
      if \<not> em_planned s then Inl (failedPrecondition unplanned [])
      else if length expectedServices = 0 then
        Inl (invalidArgument ''expected_services must contain at least one value'' [])
      else
        rbind (trimNames (\<lambda>index. invalidArgument ''expected_services[%d] is empty'' [AInt (int index)]) 0 expectedServices)
          (\<lambda>services.
        let expectedCalls = (if n \<le> 0 then int (length services) else n);
            actualCallsCount = int (length (em_calls s)) in
        if expectedCalls \<noteq> int (length services) then
          Inl (invalidArgument ''expected_calls must match expected_services length: expected_calls=%d expected_services=%d''
            [AInt expectedCalls, AInt (int (length services))])
        else if actualCallsCount \<noteq> expectedCalls then
          Inl (failedPrecondition ''external calls count mismatch: want %d got %d'' [AInt expectedCalls, AInt actualCallsCount])
        else if em_calls s \<noteq> services then
          Inl (failedPrecondition ''external call sequence mismatch: want %v got %v''
            (map AStr services @ map AStr (em_calls s)))
        else Inr (0 < actualCallsCount, actualCallsCount, em_calls s)))"

section \<open>Decoding\<close>

definition storePlanExternalCall :: "planExternalCall \<Rightarrow> string \<Rightarrow> planExternalCall result" where
  "storePlanExternalCall v raw =
     rbind (decode_struct [''expected_service'', ''stub_response''] raw) (\<lambda>ms.
     rbind (store_all store_string (xc_ExpectedService v) (field_values ms ''expected_service'')) (\<lambda>x.
     rbind (store_all (storeString1 ''status'') (xc_Status v) (field_values ms ''stub_response'')) (\<lambda>s.
     Inr (PlanExternalCall x s))))"

definition storePlanCallsRequest :: "planExternalCall list \<Rightarrow> string \<Rightarrow> planExternalCall list result" where
  "storePlanCallsRequest v raw =
     rbind (decode_struct [''calls''] raw) (\<lambda>ms.
       store_all (store_slice storePlanExternalCall (PlanExternalCall [] [])) v (field_values ms ''calls''))"

text \<open>A slice in an expected response, where a nil slice, \<^const>\<open>None\<close>, differs from an empty one.\<close>

definition store_nilable :: "('a \<Rightarrow> string \<Rightarrow> 'a result) \<Rightarrow> 'a \<Rightarrow> 'a list option \<Rightarrow> string \<Rightarrow> 'a list option result" where
  "store_nilable f zero v raw =
     (if is_null raw then Inr None
      else rbind (store_slice f zero (case v of None \<Rightarrow> [] | Some xs \<Rightarrow> xs) raw) (\<lambda>xs. Inr (Some xs)))"

definition storePlanCallsResponse ::
    "bool \<times> planExternalCall list option \<Rightarrow> string \<Rightarrow> (bool \<times> planExternalCall list option) result" where
  "storePlanCallsResponse v raw =
     rbind (decode_struct [''planned'', ''calls''] raw) (\<lambda>ms.
     rbind (store_all store_bool (fst v) (field_values ms ''planned'')) (\<lambda>p.
     rbind (store_all (store_nilable storePlanExternalCall (PlanExternalCall [] [])) (snd v) (field_values ms ''calls'')) (\<lambda>cs.
     Inr (p, cs))))"

definition storeVerifyCallsRequest :: "string list \<times> int \<Rightarrow> string \<Rightarrow> (string list \<times> int) result" where
  "storeVerifyCallsRequest v raw =
     rbind (decode_struct [''expected_services'', ''expected_calls''] raw) (\<lambda>ms.
     rbind (store_all (store_slice store_string []) (fst v) (field_values ms ''expected_services'')) (\<lambda>s.
     rbind (store_all store_int (snd v) (field_values ms ''expected_calls'')) (\<lambda>n.
     Inr (s, n))))"

definition storeVerifyCallsResponse ::
    "bool \<times> int \<times> string list option \<Rightarrow> string \<Rightarrow> (bool \<times> int \<times> string list option) result" where
  "storeVerifyCallsResponse v raw =
     rbind (decode_struct [''called'', ''calls_count'', ''services''] raw) (\<lambda>ms.
     rbind (store_all store_bool (fst v) (field_values ms ''called'')) (\<lambda>c.
     rbind (store_all store_int (fst (snd v)) (field_values ms ''calls_count'')) (\<lambda>n.
     rbind (store_all (store_nilable store_string []) (snd (snd v)) (field_values ms ''services'')) (\<lambda>s.
     Inr (c, n, s)))))"

section \<open>Handlers\<close>

text \<open>
  As \<^const>\<open>exampleHandler\<close>, for methods that choose between an untyped nil and a nil pointer beside an
  error, and for a response that is normalized.
\<close>

definition anyHandler ::
    "string \<Rightarrow> (string \<Rightarrow> 'v result) \<Rightarrow> (string \<Rightarrow> 'v result) \<Rightarrow>
       ('c \<Rightarrow> 'v :: countable \<Rightarrow> ('c \<times> gval \<times> err option) option) \<Rightarrow> (gval \<Rightarrow> gval result) \<Rightarrow> ('c \<times> 'x) handler" where
  "anyHandler name decodeReq decodeResp serve normalizeResp = \<lparr>
     h_decodeRequest = (\<lambda>raw. rbind (decodeReq raw) (\<lambda>v. Inr (box_ptr v))),
     h_decodeExpectedResponse = (\<lambda>raw. rbind (decodeResp raw) (\<lambda>v. Inr (box_ptr v))),
     h_invoke = (\<lambda>(client, x) request.
       case Option.bind (unbox_ptr request) (serve client) of
         None \<Rightarrow> ((client, x), VInvalid, Some (Errorf (name @ '' received invalid request type: %T'') []))
       | Some (client', response, e) \<Rightarrow> ((client', x), response, e)),
     h_normalizeResponse = normalizeResp\<rparr>"

lemma answers_any:
  "serve client v = Some (client', response, e) \<Longrightarrow>
     answers (anyHandler name dreq dresp serve normalizeResp) (box_ptr v) client client' response e"
  by (simp add: answers_def anyHandler_def ptr.unbox_box)

text \<open>What a method returns as \<open>any\<close>, beside its error: an untyped nil where it has no response.\<close>

definition any_result :: "'v :: countable result \<Rightarrow> gval \<times> err option" where
  "any_result r = (case r of Inl e \<Rightarrow> (VInvalid, Some e) | Inr v \<Rightarrow> (box_ptr v, None))"

lemma any_result_simps [simp]:
  "any_result (Inl e) = (VInvalid, Some e)" "any_result (Inr v) = (box_ptr v, None)"
  by (simp_all add: any_result_def)

section \<open>What the mock does\<close>

lemma trimNames_iff:
  "trimNames refuse k names = Inr ts \<longleftrightarrow> (\<forall>n \<in> set names. trim_space n \<noteq> []) \<and> ts = map trim_space names"
proof (induction names arbitrary: k ts)
  case (Cons name names)
  show ?case
    using Cons.IH [of "Suc k" "map trim_space names"] Cons.IH [of "Suc k" "tl ts"] by (cases "trimNames refuse (Suc k) names") (auto simp: Let_def)
qed auto

lemma trimNames_error:
  "trimNames refuse k names = Inl e \<Longrightarrow> (\<exists>n \<in> set names. trim_space n = []) \<and> (\<exists>i. e = refuse i)"
  by (induction names arbitrary: k) (auto simp: Let_def rbind_def split: sum.splits if_splits)

text \<open>The plan of a list of calls, declaratively.\<close>

definition planned_as :: "planExternalCall list \<Rightarrow> externalPlannedCall list \<Rightarrow> bool" where
  "planned_as calls plan \<longleftrightarrow> list_all2 (\<lambda>call p. trim_space (xc_ExpectedService call) = pc_ExpectedService p \<and>
     pc_ExpectedService p \<noteq> [] \<and> parseServingStatus (xc_Status call) = Inr (pc_StubStatus p)) calls plan"

lemma planLoop_iff: "planLoop noService noStatus k calls = Inr plan \<longleftrightarrow> planned_as calls plan"
proof (induction calls arbitrary: k plan)
  case Nil
  then show ?case by (auto simp: planned_as_def)
next
  case (Cons call calls)
  show ?case
    using Cons.IH [of "Suc k" "tl plan"]
    by (cases plan; cases "hd plan"; cases "parseServingStatus (xc_Status call)";
        cases "planLoop noService noStatus (Suc k) calls")
       (auto simp: planned_as_def Let_def map_err_def)
qed

text \<open>
  The calls of a chain after \<open>past\<close> of the plan: they succeed exactly when they continue the plan, and a
  call that does not is recorded before it fails.
\<close>

definition after_calls :: "externalPlannedCall list \<Rightarrow> string list \<Rightarrow> externalMockState" where
  "after_calls plan calls = \<lparr>em_planned = True, em_plan = plan, em_calls = calls\<rparr>"

lemma externalCheck_after:
  assumes "trim_space q = q" "q \<noteq> []"
  shows "externalCheck unplanned (after_calls plan past) q =
    (if length past < length plan \<and> pc_ExpectedService (plan ! length past) = q
     then (after_calls plan (past @ [q]), Inr (pc_StubStatus (plan ! length past)))
     else (after_calls plan (past @ [q]), snd (externalCheck unplanned (after_calls plan past) q))) \<and>
    (\<not> (length past < length plan \<and> pc_ExpectedService (plan ! length past) = q) \<longrightarrow>
      (\<exists>m. snd (externalCheck unplanned (after_calls plan past) q) = Inl (rpcError ''FailedPrecondition'' m)))"
  using assms by (auto simp: externalCheck_def consumeCall_def after_calls_def Let_def)

text \<open>A plan begins with a chain, and the status of the last call is the result of the chain.\<close>

definition follows_plan :: "string list \<Rightarrow> externalPlannedCall list \<Rightarrow> bool" where
  "follows_plan chain plan \<longleftrightarrow> take (length chain) (map pc_ExpectedService plan) = chain"

definition last_status :: "string list \<Rightarrow> externalPlannedCall list \<Rightarrow> servingStatus" where
  "last_status chain plan = pc_StubStatus (plan ! (length chain - 1))"

text \<open>\<open>lift\<close> embeds the state of the mock into what the service acts on.\<close>

lemma callChain_planned:
  assumes "connection_contract conn"
    and server: "\<And>s q. server (lift s) q = (lift (fst (externalCheck unplanned s q)), snd (externalCheck unplanned s q))"
    and "\<forall>q \<in> set chain. trim_space q = q \<and> q \<noteq> []"
  shows "if take (length chain) (drop (length past) (map pc_ExpectedService plan)) = chain
    then callChain wrap (conn server) (lift (after_calls plan past)) s chain =
      (lift (after_calls plan (past @ chain)),
       Inr (if chain = [] then s else pc_StubStatus (plan ! (length past + length chain - 1))))
    else \<exists>c' q m. callChain wrap (conn server) (lift (after_calls plan past)) s chain =
      (lift c', Inl (wrap q (rpcError ''FailedPrecondition'' m)))"
  using assms(3)
proof (induction chain arbitrary: past s)
  case (Cons q chain)
  let ?ok = "length past < length plan \<and> pc_ExpectedService (plan ! length past) = q"
  note check = externalCheck_after [of q unplanned plan past]
  have split: "take (length (q # chain)) (drop (length past) (map pc_ExpectedService plan)) = q # chain \<longleftrightarrow>
      ?ok \<and> take (length chain) (drop (length (past @ [q])) (map pc_ExpectedService plan)) = chain"
    by (cases "length past < length plan") (auto simp: drop_map take_map simp flip: Cons_nth_drop_Suc)
  show ?case
  proof (cases ?ok)
    case True
    then have "server (lift (after_calls plan past)) q = (lift (after_calls plan (past @ [q])), Inr (pc_StubStatus (plan ! length past)))"
      using check Cons.prems server by simp
    from delivered_status [of conn server "lift (after_calls plan past)" q, OF assms(1) this] show ?thesis
      using Cons.IH [of "past @ [q]" "pc_StubStatus (plan ! length past)"] Cons.prems True split by auto
  next
    case False
    then obtain m where "externalCheck unplanned (after_calls plan past) q =
        (after_calls plan (past @ [q]), Inl (rpcError ''FailedPrecondition'' m))"
      using check Cons.prems by (metis list.set_intros(1) prod.collapse snd_conv)
    then have "server (lift (after_calls plan past)) q = (lift (after_calls plan (past @ [q])), Inl (rpcError ''FailedPrecondition'' m))"
      using server by simp
    from delivered_error [of conn server "lift (after_calls plan past)" q, OF assms(1) this] obtain m' where
      "conn server (lift (after_calls plan past)) q = (lift (after_calls plan (past @ [q])), Inl (rpcError ''FailedPrecondition'' m'))"
      by (metis rpc_status_self)
    then show ?thesis using split False by auto
  qed
qed simp

text \<open>When the check of the calls succeeds.\<close>

lemma verifyCalls_after:
  "if services = [] \<or> (\<exists>q \<in> set services. trim_space q = []) \<or> 0 < n \<and> n \<noteq> int (length services)
   then \<exists>m. verifyCalls unplanned (after_calls plan calls) services n = Inl (rpcError ''InvalidArgument'' m)
   else if map trim_space services \<noteq> calls
   then \<exists>m. verifyCalls unplanned (after_calls plan calls) services n = Inl (rpcError ''FailedPrecondition'' m)
   else verifyCalls unplanned (after_calls plan calls) services n = Inr (True, int (length calls), calls)"
proof -
  let ?refuse = "\<lambda>index. invalidArgument ''expected_services[%d] is empty'' [AInt (int index)]"
  show ?thesis
  proof (cases "trimNames ?refuse 0 services")
    case (Inl e)
    then show ?thesis using trimNames_error [OF Inl] by (auto simp: verifyCalls_def snapshot_def after_calls_def Let_def)
  next
    case (Inr ts)
    then have "ts = map trim_space services" "\<forall>q \<in> set services. trim_space q \<noteq> []" using trimNames_iff by blast+
    then show ?thesis using Inr by (auto simp: verifyCalls_def snapshot_def after_calls_def Let_def)
  qed
qed

end
