(* ===== verification/RealExample.thy ===== *)
theory RealExample
  imports HealthKit
begin

text \<open>
  The sample service \<open>docs/itestkit/examples/real\<close>: a gRPC service over a repository that calls an external
  service (\<open>service/model.go\<close>, \<open>service/repository.go\<close>, \<open>service/api.go\<close>), and its integration tests
  (\<open>itests/harness.go\<close>, \<open>itests/handlers.go\<close>, \<open>itests/registry.go\<close>).
\<close>

section \<open>The service\<close>

definition manualReviewAmountThreshold :: int where "manualReviewAmountThreshold = 5000"

record order =
  or_ID :: string
  or_Amount :: int
  or_Status :: servingStatus
  or_ExternalServices :: "string list"

definition BuildExternalServiceChain :: "string \<Rightarrow> int \<Rightarrow> string list" where
  "BuildExternalServiceChain orderID amount =
     [''risk'' @ '':'' @ orderID, ''reserve'' @ '':'' @ orderID]
     @ (if manualReviewAmountThreshold \<le> amount then [''manual'' @ '':'' @ orderID] else [])"

subsection \<open>The repository\<close>

definition orderNotFoundError :: "string \<Rightarrow> err" where
  "orderNotFoundError orderID = statusError ''orderNotFoundError'' orderID (Errorf ''order %q is not found'' [AStr orderID])"

definition IsOrderNotFoundError :: "err \<Rightarrow> bool" where
  "IsOrderNotFoundError e \<longleftrightarrow> as_statusError ''orderNotFoundError'' e \<noteq> None"

definition cloneOrder :: "order \<Rightarrow> order" where
  "cloneOrder order = \<lparr>or_ID = or_ID order, or_Amount = or_Amount order, or_Status = or_Status order,
     or_ExternalServices = or_ExternalServices order\<rparr>"

definition saveOrder :: "order gomap \<Rightarrow> order \<Rightarrow> order gomap \<times> err option" where
  "saveOrder orders order = (mput (or_ID order) (cloneOrder order) orders, None)"

definition getOrderByID :: "order gomap \<Rightarrow> string \<Rightarrow> order result" where
  "getOrderByID orders orderID =
     (case mget orders orderID of None \<Rightarrow> Inl (orderNotFoundError orderID) | Some order \<Rightarrow> Inr (cloneOrder order))"

definition UpdateProcessingResult ::
    "order gomap \<Rightarrow> string \<Rightarrow> servingStatus \<Rightarrow> string list \<Rightarrow> order gomap \<times> err option" where
  "UpdateProcessingResult orders orderID status externalServices =
     (case mget orders orderID of
        None \<Rightarrow> (orders, Some (orderNotFoundError orderID))
      | Some order \<Rightarrow>
          (mput orderID (cloneOrder (order\<lparr>or_Status := status, or_ExternalServices := externalServices\<rparr>)) orders, None))"

lemma cloneOrder_id [simp]: "cloneOrder order = order"
  by (simp add: cloneOrder_def)

subsection \<open>The harness and the API\<close>

record caseHarness =
  ch_repository :: "order gomap"
  ch_externalState :: externalMockState

definition newRealHarness :: caseHarness where
  "newRealHarness = \<lparr>ch_repository = [], ch_externalState = newExternalMockState\<rparr>"

text \<open>The server of the external mock, as part of the harness.\<close>

definition externalServer :: "caseHarness check_method" where
  "externalServer h q =
     (let (state, r) = externalCheck ''external calls are not planned'' (ch_externalState h) q in
      (h\<lparr>ch_externalState := state\<rparr>, r))"

text \<open>\<open>ext\<close> is the connection to the external mock.\<close>

definition apiCheck :: "caseHarness connection \<Rightarrow> caseHarness check_method" where
  "apiCheck ext h service =
     (let orderID = trim_space service in
      if orderID = [] then (h, Inl (invalidArgument ''service (order_id) is required'' []))
      else case getOrderByID (ch_repository h) orderID of
        Inl e \<Rightarrow>
          (h, Inl (if IsOrderNotFoundError e then rpcError ''NotFound'' e
                   else rpcError ''Internal'' (Errorf ''get order: %v'' [AText e])))
      | Inr order \<Rightarrow>
          (let chain = BuildExternalServiceChain (or_ID order) (or_Amount order) in
           if length chain = 0 then (h, Inl (rpcError ''Internal'' (Err ''external service chain is empty'')))
           else case callChain (\<lambda>service e. rpcError ''Unavailable'' (Errorf ''external call %q failed: %v'' [AStr service, AText e]))
               (ext externalServer) h UNKNOWN chain of
             (h1, Inl e) \<Rightarrow> (h1, Inl e)
           | (h1, Inr finalStatus) \<Rightarrow>
               (case UpdateProcessingResult (ch_repository h1) (or_ID order) finalStatus chain of
                  (orders, Some e) \<Rightarrow>
                    (h1\<lparr>ch_repository := orders\<rparr>, Inl (rpcError ''Internal'' (Errorf ''update order: %v'' [AText e])))
                | (orders, None) \<Rightarrow> (h1\<lparr>ch_repository := orders\<rparr>, Inr finalStatus))))"

section \<open>The handlers\<close>

datatype seedOrderItem = SeedOrderItem (so_OrderID: string) (so_Amount: int)

text \<open>The requests and responses that are passed as \<open>any\<close>; a slice of a response may be nil.\<close>

datatype realAny =
    SeedOrdersRequest "seedOrderItem list"
  | SeedOrdersResponse int "seedOrderItem list option"
  | PlanExternalCallsRequest "planExternalCall list"
  | PlanExternalCallsResponse bool "planExternalCall list option"
  | CallOrderAPIRequest string
  | OrderCheckResponse servingStatus
  | NormalizedCallOrderAPIResponse string
  | VerifyExternalCallsRequest "string list" int
  | VerifyExternalCallsResponse bool int "string list option"
  | VerifyOrderStateRequest string string "string list"
  | VerifyOrderStateResponse string int string "string list option"

instance seedOrderItem :: countable by countable_datatype
instance realAny :: countable by countable_datatype

definition storeSeedOrderItem :: "seedOrderItem \<Rightarrow> string \<Rightarrow> seedOrderItem result" where
  "storeSeedOrderItem v raw =
     rbind (decode_struct [''order_id'', ''amount''] raw) (\<lambda>ms.
     rbind (store_all store_string (so_OrderID v) (field_values ms ''order_id'')) (\<lambda>i.
     rbind (store_all store_int (so_Amount v) (field_values ms ''amount'')) (\<lambda>a.
     Inr (SeedOrderItem i a))))"

definition storeSeedOrdersRequest :: "seedOrderItem list \<Rightarrow> string \<Rightarrow> seedOrderItem list result" where
  "storeSeedOrdersRequest v raw =
     rbind (decode_struct [''orders''] raw) (\<lambda>ms.
       store_all (store_slice storeSeedOrderItem (SeedOrderItem [] 0)) v (field_values ms ''orders''))"

definition storeSeedOrdersResponse :: "int \<times> seedOrderItem list option \<Rightarrow> string \<Rightarrow> (int \<times> seedOrderItem list option) result" where
  "storeSeedOrdersResponse v raw =
     rbind (decode_struct [''seeded'', ''orders''] raw) (\<lambda>ms.
     rbind (store_all store_int (fst v) (field_values ms ''seeded'')) (\<lambda>n.
     rbind (store_all (store_nilable storeSeedOrderItem (SeedOrderItem [] 0)) (snd v) (field_values ms ''orders'')) (\<lambda>os.
     Inr (n, os))))"

definition storeVerifyOrderStateRequest ::
    "string \<times> string \<times> string list \<Rightarrow> string \<Rightarrow> (string \<times> string \<times> string list) result" where
  "storeVerifyOrderStateRequest v raw =
     rbind (decode_struct [''order_id'', ''expected_status'', ''expected_external_services''] raw) (\<lambda>ms.
     rbind (store_all store_string (fst v) (field_values ms ''order_id'')) (\<lambda>i.
     rbind (store_all store_string (fst (snd v)) (field_values ms ''expected_status'')) (\<lambda>s.
     rbind (store_all (store_slice store_string []) (snd (snd v)) (field_values ms ''expected_external_services'')) (\<lambda>xs.
     Inr (i, s, xs)))))"

definition storeVerifyOrderStateResponse ::
    "string \<times> int \<times> string \<times> string list option \<Rightarrow> string \<Rightarrow> (string \<times> int \<times> string \<times> string list option) result" where
  "storeVerifyOrderStateResponse v raw =
     rbind (decode_struct [''order_id'', ''amount'', ''status'', ''external_services''] raw) (\<lambda>ms.
     rbind (store_all store_string (fst v) (field_values ms ''order_id'')) (\<lambda>i.
     rbind (store_all store_int (fst (snd v)) (field_values ms ''amount'')) (\<lambda>a.
     rbind (store_all store_string (fst (snd (snd v))) (field_values ms ''status'')) (\<lambda>s.
     rbind (store_all (store_nilable store_string []) (snd (snd (snd v))) (field_values ms ''external_services'')) (\<lambda>xs.
     Inr (i, a, s, xs))))))"

text \<open>The loop of \<open>SeedOrders\<close>: the orders before a blank one stay saved.\<close>

fun seedLoop :: "nat \<Rightarrow> order gomap \<Rightarrow> seedOrderItem list \<Rightarrow> order gomap \<times> seedOrderItem list result" where
  "seedLoop index orders [] = (orders, Inr [])"
| "seedLoop index orders (item # items) =
     (let orderID = trim_space (so_OrderID item) in
      if orderID = [] then (orders, Inl (invalidArgument ''orders[%d].order_id is required'' [AInt (int index)]))
      else case saveOrder orders \<lparr>or_ID = orderID, or_Amount = so_Amount item, or_Status = UNKNOWN, or_ExternalServices = []\<rparr> of
        (orders1, Some e) \<Rightarrow>
          (orders1, Inl (rpcError ''Internal'' (Errorf ''save order %q: %v'' [AStr orderID, AText e])))
      | (orders1, None) \<Rightarrow>
          (case seedLoop (index + 1) orders1 items of
             (orders2, Inl e) \<Rightarrow> (orders2, Inl e)
           | (orders2, Inr rest) \<Rightarrow> (orders2, Inr (SeedOrderItem orderID (so_Amount item) # rest))))"

definition seedOrdersInvoke :: "caseHarness \<Rightarrow> seedOrderItem list \<Rightarrow> caseHarness \<times> realAny result" where
  "seedOrdersInvoke h items =
     (if length items = 0 then (h, Inl (invalidArgument ''orders must contain at least one item'' []))
      else
        (let (orders, r) = seedLoop 0 (ch_repository h) items in
         (h\<lparr>ch_repository := orders\<rparr>,
          rbind r (\<lambda>normalized. Inr (SeedOrdersResponse (int (length normalized)) (Some normalized))))))"

definition planExternalCallsInvoke :: "caseHarness \<Rightarrow> planExternalCall list \<Rightarrow> caseHarness \<times> realAny result" where
  "planExternalCallsInvoke h calls =
     (if length calls = 0 then (h, Inl (invalidArgument ''calls must contain at least one item'' []))
      else
        (case planLoop (\<lambda>index. invalidArgument ''calls[%d].expected_service is required'' [AInt (int index)])
           (\<lambda>index e. invalidArgument ''calls[%d].stub_response.status: %v'' [AInt (int index), AText e]) 0 calls of
           Inl e \<Rightarrow> (h, Inl e)
         | Inr plannedCalls \<Rightarrow>
             (h\<lparr>ch_externalState := mockPlan (ch_externalState h) plannedCalls\<rparr>,
              Inr (PlanExternalCallsResponse True (Some (map normalizedCall plannedCalls))))))"

text \<open>The client of the API returns a nil pointer to a response beside an error.\<close>

definition callOrderAPIInvoke ::
    "caseHarness connection \<Rightarrow> caseHarness connection \<Rightarrow> caseHarness \<Rightarrow> string \<Rightarrow> caseHarness \<times> gval \<times> err option" where
  "callOrderAPIInvoke api ext h rawOrderID =
     (let orderID = trim_space rawOrderID in
      if orderID = [] then (h, VInvalid, Some (invalidArgument ''order_id is required'' []))
      else case api (apiCheck ext) h orderID of
        (h1, Inl e) \<Rightarrow> (h1, VPtr None, Some e)
      | (h1, Inr s) \<Rightarrow> (h1, box_ptr (OrderCheckResponse s), None))"

text \<open>A nil response has the status \<open>UNKNOWN\<close>; a response that is no pointer does not occur among the values.\<close>

definition callOrderAPINormalize :: "gval \<Rightarrow> gval result" where
  "callOrderAPINormalize response =
     (case response of
        VPtr None \<Rightarrow> Inr (box_ptr (NormalizedCallOrderAPIResponse (status_name UNKNOWN)))
      | _ \<Rightarrow>
        (case unbox_ptr response of
           Some (OrderCheckResponse s) \<Rightarrow> Inr (box_ptr (NormalizedCallOrderAPIResponse (status_name s)))
         | Some (NormalizedCallOrderAPIResponse _) \<Rightarrow> Inr response
         | _ \<Rightarrow> Inl (Errorf ''unexpected CallOrderAPI response type: %T'' [])))"

definition verifyExternalCallsInvoke :: "caseHarness \<Rightarrow> string list \<Rightarrow> int \<Rightarrow> realAny result" where
  "verifyExternalCallsInvoke h expectedServices expectedCalls =
     rbind (verifyCalls ''external calls are not planned'' (ch_externalState h) expectedServices expectedCalls)
       (\<lambda>(called, callsCount, services). Inr (VerifyExternalCallsResponse called callsCount (Some services)))"

definition verifyOrderStateInvoke :: "caseHarness \<Rightarrow> string \<Rightarrow> string \<Rightarrow> string list \<Rightarrow> realAny result" where
  "verifyOrderStateInvoke h rawOrderID rawStatus expectedServices =
     (let orderID = trim_space rawOrderID in
      if orderID = [] then Inl (invalidArgument ''order_id is required'' [])
      else
        rbind (map_err (\<lambda>e. if IsOrderNotFoundError e then rpcError ''NotFound'' e
                 else rpcError ''Internal'' (Errorf ''get order: %v'' [AText e]))
               (getOrderByID (ch_repository h) orderID)) (\<lambda>order.
        rbind (map_err (\<lambda>e. invalidArgument ''expected_status: %v'' [AText e]) (parseServingStatus rawStatus)) (\<lambda>expectedStatus.
        if or_Status order \<noteq> expectedStatus then
          Inl (failedPrecondition ''order status mismatch: want %s got %s''
            [AStr (status_name expectedStatus), AStr (status_name (or_Status order))])
        else if length expectedServices = 0 then
          Inl (invalidArgument ''expected_external_services must contain at least one value'' [])
        else
          rbind (trimNames (\<lambda>index. invalidArgument ''expected_external_services[%d] is empty'' [AInt (int index)]) 0
                   expectedServices) (\<lambda>services.
          if or_ExternalServices order \<noteq> services then
            Inl (failedPrecondition ''order external services mismatch: want %v got %v''
              (map AStr services @ map AStr (or_ExternalServices order)))
          else Inr (VerifyOrderStateResponse (or_ID order) (or_Amount order) (status_name (or_Status order))
            (Some (or_ExternalServices order)))))))"

definition seedOrdersHandler :: "(caseHarness \<times> 'x) handler" where
  "seedOrdersHandler = anyHandler ''SeedOrders''
     (tagged SeedOrdersRequest (wrapDecode ''SeedOrders request'' storeSeedOrdersRequest []))
     (tagged (\<lambda>(n, os). SeedOrdersResponse n os) (decodeOrZero ''SeedOrders response'' storeSeedOrdersResponse (0, Some [])))
     (\<lambda>h request. case request of
        SeedOrdersRequest items \<Rightarrow> (let (h1, r) = seedOrdersInvoke h items in Some (h1, any_result r)) | _ \<Rightarrow> None) Inr"

definition planExternalCallsHandler :: "(caseHarness \<times> 'x) handler" where
  "planExternalCallsHandler = anyHandler ''PlanExternalCalls''
     (tagged PlanExternalCallsRequest (wrapDecode ''PlanExternalCalls request'' storePlanCallsRequest []))
     (tagged (\<lambda>(p, cs). PlanExternalCallsResponse p cs)
        (decodeOrZero ''PlanExternalCalls response'' storePlanCallsResponse (False, Some [])))
     (\<lambda>h request. case request of
        PlanExternalCallsRequest calls \<Rightarrow> (let (h1, r) = planExternalCallsInvoke h calls in Some (h1, any_result r)) | _ \<Rightarrow> None) Inr"

definition callOrderAPIHandler :: "caseHarness connection \<Rightarrow> caseHarness connection \<Rightarrow> (caseHarness \<times> 'x) handler" where
  "callOrderAPIHandler api ext = anyHandler ''CallOrderAPI''
     (tagged CallOrderAPIRequest (wrapDecode ''CallOrderAPI request'' (storeString1 ''order_id'') []))
     (tagged NormalizedCallOrderAPIResponse (wrapDecode ''CallOrderAPI response'' (storeString1 ''status'') []))
     (\<lambda>h request. case request of CallOrderAPIRequest i \<Rightarrow> Some (callOrderAPIInvoke api ext h i) | _ \<Rightarrow> None)
     callOrderAPINormalize"

definition verifyExternalCallsHandler :: "(caseHarness \<times> 'x) handler" where
  "verifyExternalCallsHandler = anyHandler ''VerifyExternalCalls''
     (tagged (\<lambda>(s, n). VerifyExternalCallsRequest s n) (wrapDecode ''VerifyExternalCalls request'' storeVerifyCallsRequest ([], 0)))
     (tagged (\<lambda>(c, n, s). VerifyExternalCallsResponse c n s)
        (decodeOrZero ''VerifyExternalCalls response'' storeVerifyCallsResponse (False, 0, Some [])))
     (\<lambda>h request. case request of
        VerifyExternalCallsRequest s n \<Rightarrow> Some (h, any_result (verifyExternalCallsInvoke h s n)) | _ \<Rightarrow> None) Inr"

definition verifyOrderStateHandler :: "(caseHarness \<times> 'x) handler" where
  "verifyOrderStateHandler = anyHandler ''VerifyOrderState''
     (tagged (\<lambda>(i, s, xs). VerifyOrderStateRequest i s xs)
        (wrapDecode ''VerifyOrderState request'' storeVerifyOrderStateRequest ([], [], [])))
     (tagged (\<lambda>(i, a, s, xs). VerifyOrderStateResponse i a s xs)
        (decodeOrZero ''VerifyOrderState response'' storeVerifyOrderStateResponse ([], 0, [], Some [])))
     (\<lambda>h request. case request of
        VerifyOrderStateRequest i s xs \<Rightarrow> Some (h, any_result (verifyOrderStateInvoke h i s xs)) | _ \<Rightarrow> None) Inr"

lemmas real_handlers = seedOrdersHandler_def planExternalCallsHandler_def callOrderAPIHandler_def
  verifyExternalCallsHandler_def verifyOrderStateHandler_def

definition newHandlerRegistry ::
    "caseHarness connection \<Rightarrow> caseHarness connection \<Rightarrow> (caseHarness \<times> 'x) handler mapRegistry" where
  "newHandlerRegistry api ext = newMapRegistry
     [(''SeedOrders'', seedOrdersHandler),
      (''PlanExternalCalls'', planExternalCallsHandler),
      (''CallOrderAPI'', callOrderAPIHandler api ext),
      (''VerifyExternalCalls'', verifyExternalCallsHandler),
      (''VerifyOrderState'', verifyOrderStateHandler)]"

lemma real_resolve:
  "mapRegistryResolve (newHandlerRegistry api ext) ''SeedOrders'' = Inr seedOrdersHandler"
  "mapRegistryResolve (newHandlerRegistry api ext) ''PlanExternalCalls'' = Inr planExternalCallsHandler"
  "mapRegistryResolve (newHandlerRegistry api ext) ''CallOrderAPI'' = Inr (callOrderAPIHandler api ext)"
  "mapRegistryResolve (newHandlerRegistry api ext) ''VerifyExternalCalls'' = Inr verifyExternalCallsHandler"
  "mapRegistryResolve (newHandlerRegistry api ext) ''VerifyOrderState'' = Inr verifyOrderStateHandler"
  by (simp_all add: mapRegistryResolve_def newHandlerRegistry_def newMapRegistry_def mcopy_def mget_Cons)

lemma real_answers:
  "seedOrdersInvoke h items = (h', r) \<Longrightarrow> any_result r = (v, e) \<Longrightarrow>
     answers seedOrdersHandler (box_ptr (SeedOrdersRequest items)) h h' v e"
  "planExternalCallsInvoke h calls = (h', r) \<Longrightarrow> any_result r = (v, e) \<Longrightarrow>
     answers planExternalCallsHandler (box_ptr (PlanExternalCallsRequest calls)) h h' v e"
  "callOrderAPIInvoke api ext h i = (h', v, e) \<Longrightarrow>
     answers (callOrderAPIHandler api ext) (box_ptr (CallOrderAPIRequest i)) h h' v e"
  "any_result (verifyExternalCallsInvoke h s n) = (v, e) \<Longrightarrow>
     answers verifyExternalCallsHandler (box_ptr (VerifyExternalCallsRequest s n)) h h v e"
  "any_result (verifyOrderStateInvoke h i st s) = (v, e) \<Longrightarrow>
     answers verifyOrderStateHandler (box_ptr (VerifyOrderStateRequest i st s)) h h v e"
  by (auto simp: real_handlers intro: answers_any)

section \<open>A call of the API\<close>

lemma chain_trimmed:
  assumes "trim_space i = i" "i \<noteq> []"
  shows "\<forall>q \<in> set (BuildExternalServiceChain i a). trim_space q = q \<and> q \<noteq> []"
proof -
  have "trim_space (c # u @ '':'' @ i) = c # u @ '':'' @ i" if "c \<in> {CHR ''r'', CHR ''m''}" for c u
    using that trim_space_append [of c i "CHR '':''" u] assms by (auto simp: is_ascii_def space_encodings_def)
  from this [of "CHR ''r''" "''isk''"] this [of "CHR ''r''" "''eserve''"] this [of "CHR ''m''" "''anual''"] show ?thesis
    by (simp add: BuildExternalServiceChain_def)
qed

text \<open>A call for a stored order: only when the whole chain succeeds the order changes.\<close>

lemma apiCheck_planned:
  fixes ext :: "caseHarness connection"
  defines "h \<equiv> \<lambda>orders s. \<lparr>ch_repository = orders, ch_externalState = s\<rparr>"
  assumes "connection_contract ext" "trim_space i = i" "i \<noteq> []" "mget orders i = Some order" "or_ID order = i"
  defines "chain \<equiv> BuildExternalServiceChain i (or_Amount order)"
  shows "if follows_plan chain plan
    then apiCheck ext (h orders (after_calls plan [])) i =
      (h (mput i (order\<lparr>or_Status := last_status chain plan, or_ExternalServices := chain\<rparr>) orders) (after_calls plan chain),
       Inr (last_status chain plan))
    else \<exists>s m. apiCheck ext (h orders (after_calls plan [])) i = (h orders s, Inl (rpcError ''Unavailable'' m))"
proof -
  have server: "externalServer (h orders s) q = (h orders (fst (externalCheck ''external calls are not planned'' s q)),
      snd (externalCheck ''external calls are not planned'' s q))" for s q
    by (simp add: externalServer_def h_def split: prod.split)
  have chain: "chain \<noteq> []" "\<forall>q \<in> set chain. trim_space q = q \<and> q \<noteq> []"
    using chain_trimmed [OF assms(3,4)] by (simp_all add: chain_def BuildExternalServiceChain_def)
  note calls = callChain_planned [where lift = "h orders" and server = externalServer and past = "[]" and plan = plan
    and s = UNKNOWN and wrap = "\<lambda>service e. rpcError ''Unavailable'' (Errorf ''external call %q failed: %v'' [AStr service, AText e])",
    OF assms(2) server chain(2)]
  note api = apiCheck_def getOrderByID_def UpdateProcessingResult_def assms(3-6) chain(1) chain_def [symmetric] Let_def
  have h: "ch_repository (h os s) = os" "(h os s)\<lparr>ch_repository := os'\<rparr> = h os' s" for os os' s
    by (simp_all add: h_def)
  show ?thesis
  proof (cases "follows_plan chain plan")
    case True
    then show ?thesis using calls by (simp add: api h follows_plan_def last_status_def)
  next
    case False
    then obtain s q m where "callChain (\<lambda>service e. rpcError ''Unavailable'' (Errorf ''external call %q failed: %v'' [AStr service, AText e]))
        (ext externalServer) (h orders (after_calls plan [])) UNKNOWN chain =
        (h orders s, Inl (rpcError ''Unavailable'' (Errorf ''external call %q failed: %v'' [AStr q, AText (rpcError ''FailedPrecondition'' m)])))"
      using calls by (auto simp: follows_plan_def)
    then show ?thesis using False by (auto simp: api h)
  qed
qed

section \<open>A case\<close>

text \<open>
  The steps of the cases in \<open>itests/cases\<close> with any data; as in these cases, the last two steps expect
  the same services, and the order is the one the API was called for.
\<close>

definition realSteps ::
    "caseHarness connection \<Rightarrow> caseHarness connection \<Rightarrow> seedOrderItem list \<Rightarrow> planExternalCall list \<Rightarrow> string \<Rightarrow>
       string list \<Rightarrow> int \<Rightarrow> string \<Rightarrow> (caseHarness \<times> 'x) step list" where
  "realSteps api ext orders calls i services n status =
     [exampleStep (newHandlerRegistry api ext) ''seed-orders'' StepKindPrepare ''SeedOrders'' (SeedOrdersRequest orders) None,
      exampleStep (newHandlerRegistry api ext) ''plan-external'' StepKindPrepare ''PlanExternalCalls'' (PlanExternalCallsRequest calls) None,
      exampleStep (newHandlerRegistry api ext) ''call-api'' StepKindAction ''CallOrderAPI'' (CallOrderAPIRequest i) None,
      exampleStep (newHandlerRegistry api ext) ''verify-external'' StepKindVerify ''VerifyExternalCalls'' (VerifyExternalCallsRequest services n) None,
      exampleStep (newHandlerRegistry api ext) ''verify-order-state'' StepKindVerify ''VerifyOrderState'' (VerifyOrderStateRequest i status services) None]"

text \<open>The order that was seeded last under an id counts.\<close>

definition seeded_amount :: "seedOrderItem list \<Rightarrow> string \<Rightarrow> int option" where
  "seeded_amount orders i = map_of (rev (map (\<lambda>t. (trim_space (so_OrderID t), so_Amount t)) orders)) i"

definition unprocessed :: "string \<Rightarrow> int \<Rightarrow> order" where
  "unprocessed i a = \<lparr>or_ID = i, or_Amount = a, or_Status = UNKNOWN, or_ExternalServices = []\<rparr>"

definition seeded :: "seedOrderItem list \<Rightarrow> order gomap" where
  "seeded items = mcopy [] (map (\<lambda>t. (trim_space (so_OrderID t), unprocessed (trim_space (so_OrderID t)) (so_Amount t))) items)"

text \<open>The status the case ends with, \<^const>\<open>None\<close> if it succeeds.\<close>

definition real_verdict ::
    "seedOrderItem list \<Rightarrow> externalPlannedCall list \<Rightarrow> string \<Rightarrow> string list \<Rightarrow> int \<Rightarrow> string \<Rightarrow> string option" where
  "real_verdict orders plan i services n status =
     (case seeded_amount orders i of
        None \<Rightarrow> Some ''NotFound''
      | Some a \<Rightarrow>
          (let chain = BuildExternalServiceChain i a in
           if \<not> follows_plan chain plan then Some ''Unavailable''
           else if services = [] \<or> (\<exists>q \<in> set services. trim_space q = []) \<or> 0 < n \<and> n \<noteq> int (length services)
             then Some ''InvalidArgument''
           else if map trim_space services \<noteq> chain then Some ''FailedPrecondition''
           else (case parseServingStatus status of
               Inl _ \<Rightarrow> Some ''InvalidArgument''
             | Inr s \<Rightarrow> if s = last_status chain plan then None else Some ''FailedPrecondition'')))"

lemma mget_seeded_order: "mget (seeded orders) i = map_option (unprocessed i) (seeded_amount orders i)"
proof -
  have "map_of (rev (map (\<lambda>t. (trim_space (so_OrderID t), unprocessed (trim_space (so_OrderID t)) (so_Amount t))) orders)) i =
      map_option (unprocessed i) (seeded_amount orders i)"
    unfolding seeded_amount_def by (induction orders rule: rev_induct) auto
  then show ?thesis by (simp add: seeded_def mget_mcopy split: option.split)
qed

lemma wf_seeded: "wf_map (seeded orders)"
  by (simp add: seeded_def)

lemma seedLoop_all:
  assumes "\<forall>t \<in> set items. trim_space (so_OrderID t) \<noteq> []"
  shows "\<exists>normalized. seedLoop k orders items =
    (mcopy orders (map (\<lambda>t. (trim_space (so_OrderID t), unprocessed (trim_space (so_OrderID t)) (so_Amount t))) items), Inr normalized)"
  using assms
proof (induction items arbitrary: k orders)
  case (Cons item items)
  from Cons.IH [of "k + 1" "mput (trim_space (so_OrderID item))
      (unprocessed (trim_space (so_OrderID item)) (so_Amount item)) orders"] Cons.prems
  show ?case by (auto simp: saveOrder_def unprocessed_def mcopy_def Let_def)
qed (simp add: mcopy_def)

abbreviation prepared :: "seedOrderItem list \<Rightarrow> externalPlannedCall list \<Rightarrow> caseHarness" where
  "prepared orders plan \<equiv> \<lparr>ch_repository = seeded orders, ch_externalState = after_calls plan []\<rparr>"

lemma real_prepare:
  assumes "orders \<noteq> []" "\<forall>t \<in> set orders. trim_space (so_OrderID t) \<noteq> []" "calls \<noteq> []" "planned_as calls plan"
    and "\<And>st outs. run_at (prepared orders plan) outs st \<Longrightarrow> ends rt (drop 2 (realSteps api ext orders calls i services n status)) st Q"
  shows "ends rt (realSteps api ext orders calls i services n status) (initialRun (newRealHarness, x)) Q"
proof -
  let ?h = "\<lparr>ch_repository = seeded orders, ch_externalState = newExternalMockState\<rparr>"
  obtain normalized where "seedLoop 0 [] orders = (seeded orders, Inr normalized)"
    using seedLoop_all [OF assms(2), of 0 "[]"] by (auto simp: seeded_def)
  then have seed: "seedOrdersInvoke newRealHarness orders =
      (?h, Inr (SeedOrdersResponse (int (length normalized)) (Some normalized)))"
    using assms(1) by (simp add: seedOrdersInvoke_def newRealHarness_def)
  have "planLoop f g 0 calls = Inr plan" for f g using assms(4) by (simp add: planLoop_iff)
  then have plan: "planExternalCallsInvoke ?h calls =
      (prepared orders plan, Inr (PlanExternalCallsResponse True (Some (map normalizedCall plan))))"
    using assms(3) by (simp add: planExternalCallsInvoke_def mockPlan_def newExternalMockState_def after_calls_def)
  note rest = assms(5) [unfolded realSteps_def, simplified]
  show ?thesis
    unfolding realSteps_def
    by (rule ends_step [OF run_at_initial real_resolve(1) _ real_answers(1) [OF seed any_result_simps(2)]], simp add: kind_defs)
       (rule ends_step [OF _ real_resolve(2) _ real_answers(2) [OF plan any_result_simps(2)]], assumption, simp add: kind_defs, rule rest)
qed

lemma callOrderAPI_status:
  fixes api ext :: "caseHarness connection"
  assumes "connection_contract api" "trim_space i \<noteq> []"
  shows "apiCheck ext h (trim_space i) = (h', Inr s) \<Longrightarrow>
      callOrderAPIInvoke api ext h i = (h', box_ptr (OrderCheckResponse s), None)"
    "apiCheck ext h (trim_space i) = (h', Inl (rpcError code m)) \<Longrightarrow>
      \<exists>m'. callOrderAPIInvoke api ext h i = (h', VPtr None, Some (rpcError code m'))"
proof -
  show "callOrderAPIInvoke api ext h i = (h', box_ptr (OrderCheckResponse s), None)"
    if "apiCheck ext h (trim_space i) = (h', Inr s)"
    using delivered_status [of api "apiCheck ext", OF assms(1) that] assms(2) by (simp add: callOrderAPIInvoke_def)
  show "\<exists>m'. callOrderAPIInvoke api ext h i = (h', VPtr None, Some (rpcError code m'))"
    if failed: "apiCheck ext h (trim_space i) = (h', Inl (rpcError code m))"
  proof -
    obtain m' where "api (apiCheck ext) h (trim_space i) = (h', Inl (rpcError code m'))"
      using delivered_error [of api "apiCheck ext", OF assms(1) failed] by (metis rpc_status_self)
    then show ?thesis using assms(2) by (simp add: callOrderAPIInvoke_def)
  qed
qed

lemma verifyOrderState_stored:
  assumes "mget (ch_repository h) (trim_space i) = Some order" "trim_space i \<noteq> []" "services \<noteq> []"
    and "\<forall>q \<in> set services. trim_space q \<noteq> []" "or_ExternalServices order = map trim_space services" "or_Status order = f"
  shows "case parseServingStatus status of
      Inl _ \<Rightarrow> \<exists>m. verifyOrderStateInvoke h i status services = Inl (rpcError ''InvalidArgument'' m)
    | Inr s \<Rightarrow> if s = f
        then \<exists>r. verifyOrderStateInvoke h i status services = Inr r
        else \<exists>m. verifyOrderStateInvoke h i status services = Inl (rpcError ''FailedPrecondition'' m)"
proof -
  have t: "trimNames refuse 0 services = Inr (map trim_space services)" for refuse
    using assms(4) trimNames_iff by blast
  show ?thesis
    by (cases "parseServingStatus status")
       (simp_all add: verifyOrderStateInvoke_def getOrderByID_def t assms(1-3,5,6) Let_def map_err_def)
qed

definition real_end :: "seedOrderItem list \<Rightarrow> externalPlannedCall list \<Rightarrow> string \<Rightarrow> string option \<Rightarrow> (caseHarness \<times> 'x) run_state \<Rightarrow> bool" where
  "real_end orders plan i verdict st =
     (case verdict of
        Some code \<Rightarrow> (\<exists>e m. rs_executionErr st = Some e \<and> rpc_status e = Some (code, m)) \<and>
          (if code = ''NotFound'' \<or> code = ''Unavailable'' then ch_repository (fst (rs_world st)) = seeded orders else True)
      | None \<Rightarrow> \<exists>a. seeded_amount orders i = Some a \<and> rs_executionErr st = None \<and>
          (let chain = BuildExternalServiceChain i a in
           em_calls (ch_externalState (fst (rs_world st))) = chain \<and>
           mget (ch_repository (fst (rs_world st))) i =
             Some \<lparr>or_ID = i, or_Amount = a, or_Status = last_status chain plan, or_ExternalServices = chain\<rparr> \<and>
           mget (rs_stepOutputs st) ''call-api'' = Some (box_ptr (OrderCheckResponse (last_status chain plan)))))"

lemma real_refused:
  assumes "run_at h outs st" "mapRegistryResolve reg n = Inr handler" "k \<noteq> StepKindCleanup" "k \<noteq> StepKindAwait"
    and "answers handler (box_ptr q) h h' v (Some (rpcError code m))" "\<forall>s \<in> set ss. st_kind s \<noteq> StepKindCleanup"
    and "code = ''NotFound'' \<or> code = ''Unavailable'' \<Longrightarrow> ch_repository h' = seeded orders"
  shows "ends rt (exampleStep reg j k n q r # ss) st (real_end orders plan i (Some code))"
  by (rule ends_refused [OF assms(1-6)]) (use assms(7) in \<open>auto simp: real_end_def\<close>)

text \<open>The two verify steps, after a call of the API that succeeded.\<close>

lemma real_verified:
  fixes api ext :: "caseHarness connection"
  defines "reg \<equiv> newHandlerRegistry api ext"
  assumes at: "run_at \<lparr>ch_repository = os, ch_externalState = after_calls plan chain\<rparr> outs st"
    and i: "trim_space i \<noteq> []" "seeded_amount orders (trim_space i) = Some a" "chain = BuildExternalServiceChain (trim_space i) a"
    and os: "mget os (trim_space i) = Some \<lparr>or_ID = trim_space i, or_Amount = a, or_Status = last_status chain plan, or_ExternalServices = chain\<rparr>"
    and out: "mget outs ''call-api'' = Some (box_ptr (OrderCheckResponse (last_status chain plan)))"
    and plan: "follows_plan chain plan"
  shows "ends rt [exampleStep reg ''verify-external'' StepKindVerify ''VerifyExternalCalls'' (VerifyExternalCallsRequest services n) None,
      exampleStep reg ''verify-order-state'' StepKindVerify ''VerifyOrderState'' (VerifyOrderStateRequest i status services) None]
    st (real_end orders plan (trim_space i) (real_verdict orders plan (trim_space i) services n status))"
proof -
  let ?h = "\<lparr>ch_repository = os, ch_externalState = after_calls plan chain\<rparr>"
  let ?bad = "services = [] \<or> (\<exists>q \<in> set services. trim_space q = []) \<or> 0 < n \<and> n \<noteq> int (length services)"
  note calls = verifyCalls_after [of services n "''external calls are not planned''" plan chain]
  note verdict = real_verdict_def i(2) i(3) [symmetric] plan
  consider (bad) m where ?bad "verifyExternalCallsInvoke ?h services n = Inl (rpcError ''InvalidArgument'' m)"
    | (differ) m where "\<not> ?bad" "map trim_space services \<noteq> chain"
        "verifyExternalCallsInvoke ?h services n = Inl (rpcError ''FailedPrecondition'' m)"
    | (ok) r where "\<not> ?bad" "map trim_space services = chain" "verifyExternalCallsInvoke ?h services n = Inr r"
    using calls by (auto simp: verifyExternalCallsInvoke_def split: if_splits)
  then show ?thesis
  proof cases
    case bad
    then have v: "real_verdict orders plan (trim_space i) services n status = Some ''InvalidArgument''"
      by (simp add: verdict Let_def)
    show ?thesis unfolding v reg_def
      by (rule real_refused [OF at real_resolve(4) _ _ real_answers(4)]) (simp_all add: kind_defs bad(2))
  next
    case differ
    then have v: "real_verdict orders plan (trim_space i) services n status = Some ''FailedPrecondition''"
      by (auto simp: verdict Let_def)
    show ?thesis unfolding v reg_def
      by (rule real_refused [OF at real_resolve(4) _ _ real_answers(4)]) (simp_all add: kind_defs differ(3))
  next
    case ok
    then have v: "real_verdict orders plan (trim_space i) services n status = (case parseServingStatus status of
        Inl _ \<Rightarrow> Some ''InvalidArgument''
      | Inr s \<Rightarrow> if s = last_status chain plan then None else Some ''FailedPrecondition'')"
      by (auto simp: verdict Let_def)
    have state: "case parseServingStatus status of
        Inl _ \<Rightarrow> \<exists>m. verifyOrderStateInvoke ?h i status services = Inl (rpcError ''InvalidArgument'' m)
      | Inr s \<Rightarrow> if s = last_status chain plan
          then \<exists>r. verifyOrderStateInvoke ?h i status services = Inr r
          else \<exists>m. verifyOrderStateInvoke ?h i status services = Inl (rpcError ''FailedPrecondition'' m)"
      by (rule verifyOrderState_stored [of ?h i "\<lparr>or_ID = trim_space i, or_Amount = a, or_Status = last_status chain plan,
          or_ExternalServices = chain\<rparr>"]) (use os i(1) ok(1,2) in simp_all)
    have "ends rt [exampleStep reg ''verify-order-state'' StepKindVerify ''VerifyOrderState'' (VerifyOrderStateRequest i status services) None]
        st' (real_end orders plan (trim_space i) (real_verdict orders plan (trim_space i) services n status))"
      if at': "run_at ?h (mput ''verify-external'' (box_ptr r) outs) st'" for st'
    proof (cases "real_verdict orders plan (trim_space i) services n status")
      case None
      then obtain r' where "verifyOrderStateInvoke ?h i status services = Inr r'"
        using state v by (auto split: sum.splits if_splits)
      then have ans: "answers verifyOrderStateHandler (box_ptr (VerifyOrderStateRequest i status services)) ?h ?h (box_ptr r') None"
        by (intro real_answers(5)) simp
      show ?thesis unfolding None reg_def
        by (rule ends_step [OF at' real_resolve(5) _ ans], simp add: kind_defs, rule ends_Nil)
           (use at at' i os out in \<open>auto simp: real_end_def run_at_def after_calls_def Let_def\<close>)
    next
      case (Some code)
      then obtain m where "verifyOrderStateInvoke ?h i status services = Inl (rpcError code m)"
        "code \<noteq> ''NotFound''" "code \<noteq> ''Unavailable''"
        using state v by (auto split: sum.splits if_splits)
      then show ?thesis unfolding Some reg_def
        by (intro real_refused [OF at' real_resolve(5) _ _ real_answers(5)]) (simp_all add: kind_defs)
    qed
    then show ?thesis unfolding reg_def
      by (intro ends_step [OF at real_resolve(4) _ real_answers(4)]) (simp_all add: kind_defs ok(3) reg_def)
  qed
qed

text \<open>
  C17: the cases of the repository, for any data that the prepare steps accept.  The verdict is that of
  \<^const>\<open>real_verdict\<close>: the API was called for a seeded order, the plan begins with the chain of its
  amount, and the verify steps expect just this chain and the last planned status.  Then the mock was
  called along the chain, the order in the repository has the status of the last call, and so has the
  response; an order that was not found or whose external calls failed is left as it was seeded.
\<close>

theorem real_case:
  assumes conn: "connection_contract api" "connection_contract ext"
    and data: "orders \<noteq> []" "\<forall>t \<in> set orders. trim_space (so_OrderID t) \<noteq> []" "calls \<noteq> []" "planned_as calls plan"
    and i: "trim_space i \<noteq> []"
  shows "\<exists>st. runSteps rt (realSteps api ext orders calls i services n status) (initialRun (newRealHarness, x)) = Some st \<and>
    real_end orders plan (trim_space i) (real_verdict orders plan (trim_space i) services n status) st"
proof -
  let ?i = "trim_space i" and ?verdict = "real_verdict orders plan (trim_space i) services n status"
  have "ends rt (drop 2 (realSteps api ext orders calls i services n status)) st (real_end orders plan ?i ?verdict)"
    if at: "run_at (prepared orders plan) outs st" for outs st
  proof (cases "seeded_amount orders ?i")
    case None
    then have "mget (seeded orders) ?i = None" by (simp add: mget_seeded_order)
    then have "apiCheck ext (prepared orders plan) ?i = (prepared orders plan, Inl (rpcError ''NotFound'' (orderNotFoundError ?i)))"
      using i by (simp add: apiCheck_def getOrderByID_def IsOrderNotFoundError_def orderNotFoundError_def Let_def)
    from callOrderAPI_status(2) [OF conn(1) i this] obtain m where
      call: "callOrderAPIInvoke api ext (prepared orders plan) i = (prepared orders plan, VPtr None, Some (rpcError ''NotFound'' m))" ..
    have v: "?verdict = Some ''NotFound''" using None by (simp add: real_verdict_def)
    show ?thesis
      unfolding v realSteps_def drop_Suc numeral_2_eq_2
      by (simp, rule real_refused [OF at real_resolve(3) _ _ real_answers(3) [OF call]]) (simp_all add: kind_defs)
  next
    case (Some a)
    let ?chain = "BuildExternalServiceChain ?i a"
    let ?order = "\<lparr>or_ID = ?i, or_Amount = a, or_Status = last_status ?chain plan, or_ExternalServices = ?chain\<rparr>"
    have order: "mget (seeded orders) ?i = Some (unprocessed ?i a)" using Some by (simp add: mget_seeded_order)
    note check = apiCheck_planned [OF conn(2) trim_space_idem i order, of plan]
    show ?thesis
    proof (cases "follows_plan ?chain plan")
      case True
      let ?h = "\<lparr>ch_repository = mput ?i ?order (seeded orders), ch_externalState = after_calls plan ?chain\<rparr>"
      have "apiCheck ext (prepared orders plan) ?i = (?h, Inr (last_status ?chain plan))"
        using check True by (simp add: unprocessed_def)
      note call = callOrderAPI_status(1) [OF conn(1) i this]
      show ?thesis
        unfolding realSteps_def drop_Suc numeral_2_eq_2
        by (simp, rule ends_step [OF at real_resolve(3) _ real_answers(3) [OF call]], simp add: kind_defs)
           (rule real_verified [OF _ i Some refl], assumption,
            use at True in \<open>simp_all add: run_at_def wf_seeded\<close>)
    next
      case False
      then obtain s m where "apiCheck ext (prepared orders plan) ?i =
          (\<lparr>ch_repository = seeded orders, ch_externalState = s\<rparr>, Inl (rpcError ''Unavailable'' m))"
        using check by (auto simp: unprocessed_def)
      from callOrderAPI_status(2) [OF conn(1) i this] obtain m where call: "callOrderAPIInvoke api ext (prepared orders plan) i =
          (\<lparr>ch_repository = seeded orders, ch_externalState = s\<rparr>, VPtr None, Some (rpcError ''Unavailable'' m))" ..
      have v: "?verdict = Some ''Unavailable''" using Some False by (simp add: real_verdict_def Let_def)
      show ?thesis
        unfolding v realSteps_def drop_Suc numeral_2_eq_2
        by (simp, rule real_refused [OF at real_resolve(3) _ _ real_answers(3) [OF call]]) (simp_all add: kind_defs)
    qed
  qed
  from real_prepare [OF data, of rt api ext i services n status, OF this] show ?thesis by (simp add: ends_def)
qed

text \<open>The case \<open>api_returns_service_unknown_for_large_order.jsonc\<close>.\<close>

definition large_order_calls :: "planExternalCall list" where
  "large_order_calls = [PlanExternalCall ''risk:order-202'' ''SERVING'', PlanExternalCall ''reserve:order-202'' ''NOT_SERVING'',
     PlanExternalCall ''manual:order-202'' ''SERVICE_UNKNOWN'']"

definition large_order_plan :: "externalPlannedCall list" where
  "large_order_plan = [ExternalPlannedCall ''risk:order-202'' SERVING, ExternalPlannedCall ''reserve:order-202'' NOT_SERVING,
     ExternalPlannedCall ''manual:order-202'' SERVICE_UNKNOWN]"

theorem real_case_witness:
  "\<exists>st. runSteps late_runtime (realSteps direct_connection direct_connection [SeedOrderItem ''order-202'' 7000]
      large_order_calls ''order-202'' (map pc_ExpectedService large_order_plan) 3 ''SERVICE_UNKNOWN'')
      (initialRun (newRealHarness, False)) = Some st \<and> rs_executionErr st = None"
proof -
  have t: "trim_space ''order-202'' = ''order-202''" "trim_space ''risk:order-202'' = ''risk:order-202''"
    "trim_space ''reserve:order-202'' = ''reserve:order-202''" "trim_space ''manual:order-202'' = ''manual:order-202''"
    by code_simp+
  have p: "planned_as large_order_calls large_order_plan"
    by (simp add: planned_as_def large_order_calls_def large_order_plan_def t parse_names)
  have "real_verdict [SeedOrderItem ''order-202'' 7000] large_order_plan (trim_space ''order-202'')
      (map pc_ExpectedService large_order_plan) 3 ''SERVICE_UNKNOWN'' = None"
    by (simp add: real_verdict_def seeded_amount_def t BuildExternalServiceChain_def manualReviewAmountThreshold_def
        follows_plan_def last_status_def large_order_plan_def parse_names)
  then show ?thesis
    using real_case [OF direct_connection_contract direct_connection_contract _ _ _ p, of "[SeedOrderItem ''order-202'' 7000]"
        "''order-202''" late_runtime "map pc_ExpectedService large_order_plan" 3 "''SERVICE_UNKNOWN''" False]
    by (force simp: t large_order_calls_def real_end_def Let_def)
qed

end
