(* ===== verification/GrpcSyncExample.thy ===== *)
theory GrpcSyncExample
  imports HealthKit
begin

text \<open>
  The sample service \<open>docs/itestkit/examples/extapigrpcsync\<close>: a gRPC API whose request is a chain of services,
  which it calls one after the other.  \<open>harness.go\<close> with the two servers, \<open>handlers.go\<close> and
  \<open>registry.go\<close>.  The mock of the external service is the one of \<open>HealthKit\<close>.
\<close>

section \<open>The harness\<close>

definition serviceChainSeparator :: char where "serviceChainSeparator = CHR ''|''"

record grpcSyncHarness =
  gh_externalState :: externalMockState

definition newGRPCSyncHarness :: grpcSyncHarness where
  "newGRPCSyncHarness = \<lparr>gh_externalState = newExternalMockState\<rparr>"

definition gsConsumeCall :: "externalMockState \<Rightarrow> string \<Rightarrow> externalMockState \<times> servingStatus result" where
  "gsConsumeCall = consumeCall ''external expectation is not planned''"

text \<open>The server of the external mock, as part of the harness.\<close>

definition gsExternalServer :: "grpcSyncHarness check_method" where
  "gsExternalServer h request =
     (let service = trim_space request in
      if service = [] then (h, Inl (invalidArgument ''service is required'' []))
      else
        (case gsConsumeCall (gh_externalState h) service of
           (state, Inl e) \<Rightarrow> (h\<lparr>gh_externalState := state\<rparr>, Inl (rpcError ''FailedPrecondition'' e))
         | (state, Inr stubStatus) \<Rightarrow> (h\<lparr>gh_externalState := state\<rparr>, Inr stubStatus)))"

definition parseInboundServiceChain :: "string \<Rightarrow> string list result" where
  "parseInboundServiceChain raw =
     (let trimmedRaw = trim_space raw in
      if trimmedRaw = [] then Inl (Err ''service is required'')
      else trimNames (\<lambda>index. Errorf ''service chain contains empty item at position %d'' [AInt (int index)]) 0
             (split_on serviceChainSeparator trimmedRaw))"

text \<open>The API server; \<open>ext\<close> is its connection to the external mock.\<close>

definition gsApiCheck :: "grpcSyncHarness connection \<Rightarrow> grpcSyncHarness check_method" where
  "gsApiCheck ext h service =
     (case parseInboundServiceChain service of
        Inl e \<Rightarrow> (h, Inl (rpcError ''InvalidArgument'' e))
      | Inr serviceChain \<Rightarrow>
          callChain (\<lambda>_ e. Errorf ''external check: %w'' [AErr e]) (ext gsExternalServer) h UNKNOWN serviceChain)"

definition PlanExternalCheck :: "grpcSyncHarness \<Rightarrow> externalPlannedCall list \<Rightarrow> grpcSyncHarness" where
  "PlanExternalCheck h plannedCalls = h\<lparr>gh_externalState := mockPlan (gh_externalState h) plannedCalls\<rparr>"

definition CallAPI ::
    "grpcSyncHarness connection \<Rightarrow> grpcSyncHarness connection \<Rightarrow> grpcSyncHarness \<Rightarrow> string list \<Rightarrow>
       grpcSyncHarness \<times> servingStatus result" where
  "CallAPI api ext h serviceChain =
     (if length serviceChain = 0 then (h, Inl (invalidArgument ''service_chain must contain at least one service'' []))
      else api (gsApiCheck ext) h (join_with [serviceChainSeparator] serviceChain))"

definition VerifyExternalCheck :: "grpcSyncHarness \<Rightarrow> string list \<Rightarrow> int \<Rightarrow> (bool \<times> int \<times> string list) result" where
  "VerifyExternalCheck h = verifyCalls ''external expectation is not planned'' (gh_externalState h)"

section \<open>The handlers\<close>

text \<open>The requests and responses that are passed as \<open>any\<close>; a slice of a response may be nil.\<close>

datatype grpcSyncAny =
    PlanExternalCheckRequest "planExternalCall list"
  | PlanExternalCheckResponse bool "planExternalCall list option"
  | CallAPIRequest string "string list"
  | APICheckResponse servingStatus
  | NormalizedCallAPIResponse string
  | VerifyExternalCheckRequest "string list" int
  | VerifyExternalCheckResponse bool int "string list option"

instance grpcSyncAny :: countable by countable_datatype

definition storeCallAPIRequest :: "string \<times> string list \<Rightarrow> string \<Rightarrow> (string \<times> string list) result" where
  "storeCallAPIRequest v raw =
     rbind (decode_struct [''service'', ''service_chain''] raw) (\<lambda>ms.
     rbind (store_all store_string (fst v) (field_values ms ''service'')) (\<lambda>s.
     rbind (store_all (store_slice store_string []) (snd v) (field_values ms ''service_chain'')) (\<lambda>c.
     Inr (s, c))))"

definition normalizeServiceChain :: "string \<Rightarrow> string list \<Rightarrow> string list result" where
  "normalizeServiceChain service serviceChain =
     (let legacyService = trim_space service in
      if legacyService \<noteq> [] \<and> 0 < length serviceChain then Inl (Err ''use either service or service_chain, not both'')
      else if 0 < length serviceChain then
        trimNames (\<lambda>index. Errorf ''service_chain[%d] is empty'' [AInt (int index)]) 0 serviceChain
      else if legacyService = [] then Inl (Err ''service or service_chain is required'')
      else Inr [legacyService])"

definition planExternalCheckInvoke :: "grpcSyncHarness \<Rightarrow> planExternalCall list \<Rightarrow> grpcSyncHarness \<times> grpcSyncAny result" where
  "planExternalCheckInvoke h calls =
     (if length calls = 0 then (h, Inl (Err ''calls must contain at least one planned outbound call''))
      else
        (case planLoop (\<lambda>index. Errorf ''calls[%d].expected_service is required'' [AInt (int index)])
           (\<lambda>index e. Errorf ''calls[%d].stub_response.status: %w'' [AInt (int index), AErr e]) 0 calls of
           Inl e \<Rightarrow> (h, Inl e)
         | Inr plannedCalls \<Rightarrow>
             (PlanExternalCheck h plannedCalls,
              Inr (PlanExternalCheckResponse True (Some (map normalizedCall plannedCalls))))))"

text \<open>Beside an error of the harness stands a nil pointer, beside one of the handler itself an untyped nil.\<close>

definition callAPIInvoke ::
    "grpcSyncHarness connection \<Rightarrow> grpcSyncHarness connection \<Rightarrow> grpcSyncHarness \<Rightarrow> string \<Rightarrow> string list \<Rightarrow>
       grpcSyncHarness \<times> gval \<times> err option" where
  "callAPIInvoke api ext h service serviceChain =
     (case normalizeServiceChain service serviceChain of
        Inl e \<Rightarrow> (h, VInvalid, Some (Errorf ''normalize service chain: %w'' [AErr e]))
      | Inr chain \<Rightarrow>
          (case CallAPI api ext h chain of
             (h1, Inl e) \<Rightarrow> (h1, VPtr None, Some e)
           | (h1, Inr s) \<Rightarrow> (h1, box_ptr (APICheckResponse s), None)))"

definition callAPINormalize :: "gval \<Rightarrow> gval result" where
  "callAPINormalize response =
     (case response of
        VPtr None \<Rightarrow> Inr (box_ptr (NormalizedCallAPIResponse (status_name UNKNOWN)))
      | _ \<Rightarrow>
        (case unbox_ptr response of
           Some (APICheckResponse s) \<Rightarrow> Inr (box_ptr (NormalizedCallAPIResponse (status_name s)))
         | Some (NormalizedCallAPIResponse _) \<Rightarrow> Inr response
         | _ \<Rightarrow> Inl (Errorf ''unexpected CallAPI response type: %T'' [])))"

definition verifyExternalCheckInvoke :: "grpcSyncHarness \<Rightarrow> string list \<Rightarrow> int \<Rightarrow> gval \<times> err option" where
  "verifyExternalCheckInvoke h expectedServices expectedCalls =
     (case VerifyExternalCheck h expectedServices expectedCalls of
        Inl e \<Rightarrow> (VPtr None, Some e)
      | Inr (called, callsCount, services) \<Rightarrow> (box_ptr (VerifyExternalCheckResponse called callsCount (Some services)), None))"

definition planExternalCheckHandler :: "(grpcSyncHarness \<times> 'x) handler" where
  "planExternalCheckHandler = anyHandler ''PlanExternalCheck''
     (tagged PlanExternalCheckRequest (wrapDecode ''PlanExternalCheck request'' storePlanCallsRequest []))
     (tagged (\<lambda>(p, cs). PlanExternalCheckResponse p cs)
        (decodeOrZero ''PlanExternalCheck response'' storePlanCallsResponse (False, Some [])))
     (\<lambda>h request. case request of
        PlanExternalCheckRequest calls \<Rightarrow> (let (h1, r) = planExternalCheckInvoke h calls in Some (h1, any_result r)) | _ \<Rightarrow> None) Inr"

definition callAPIHandler :: "grpcSyncHarness connection \<Rightarrow> grpcSyncHarness connection \<Rightarrow> (grpcSyncHarness \<times> 'x) handler" where
  "callAPIHandler api ext = anyHandler ''CallAPI''
     (tagged (\<lambda>(s, c). CallAPIRequest s c) (wrapDecode ''CallAPI request'' storeCallAPIRequest ([], [])))
     (tagged NormalizedCallAPIResponse (wrapDecode ''CallAPI response'' (storeString1 ''status'') []))
     (\<lambda>h request. case request of CallAPIRequest s c \<Rightarrow> Some (callAPIInvoke api ext h s c) | _ \<Rightarrow> None)
     callAPINormalize"

definition verifyExternalCheckHandler :: "(grpcSyncHarness \<times> 'x) handler" where
  "verifyExternalCheckHandler = anyHandler ''VerifyExternalCheck''
     (tagged (\<lambda>(s, n). VerifyExternalCheckRequest s n) (wrapDecode ''VerifyExternalCheck request'' storeVerifyCallsRequest ([], 0)))
     (tagged (\<lambda>(c, n, s). VerifyExternalCheckResponse c n s)
        (decodeOrZero ''VerifyExternalCheck response'' storeVerifyCallsResponse (False, 0, Some [])))
     (\<lambda>h request. case request of
        VerifyExternalCheckRequest s n \<Rightarrow> Some (h, verifyExternalCheckInvoke h s n) | _ \<Rightarrow> None) Inr"

lemmas grpc_sync_handlers = planExternalCheckHandler_def callAPIHandler_def verifyExternalCheckHandler_def

definition newGRPCSyncRegistry ::
    "grpcSyncHarness connection \<Rightarrow> grpcSyncHarness connection \<Rightarrow> (grpcSyncHarness \<times> 'x) handler mapRegistry" where
  "newGRPCSyncRegistry api ext = newMapRegistry
     [(''PlanExternalCheck'', planExternalCheckHandler),
      (''CallAPI'', callAPIHandler api ext),
      (''VerifyExternalCheck'', verifyExternalCheckHandler)]"

lemma grpc_sync_resolve:
  "mapRegistryResolve (newGRPCSyncRegistry api ext) ''PlanExternalCheck'' = Inr planExternalCheckHandler"
  "mapRegistryResolve (newGRPCSyncRegistry api ext) ''CallAPI'' = Inr (callAPIHandler api ext)"
  "mapRegistryResolve (newGRPCSyncRegistry api ext) ''VerifyExternalCheck'' = Inr verifyExternalCheckHandler"
  by (simp_all add: mapRegistryResolve_def newGRPCSyncRegistry_def newMapRegistry_def mcopy_def mget_Cons)

lemma grpc_sync_answers:
  "planExternalCheckInvoke h calls = (h', r) \<Longrightarrow> any_result r = (v, e) \<Longrightarrow>
     answers planExternalCheckHandler (box_ptr (PlanExternalCheckRequest calls)) h h' v e"
  "callAPIInvoke api ext h s c = (h', v, e) \<Longrightarrow>
     answers (callAPIHandler api ext) (box_ptr (CallAPIRequest s c)) h h' v e"
  "verifyExternalCheckInvoke h services n = (v, e) \<Longrightarrow>
     answers verifyExternalCheckHandler (box_ptr (VerifyExternalCheckRequest services n)) h h v e"
  by (auto simp: grpc_sync_handlers intro: answers_any)

section \<open>The chain in a request\<close>

lemma starts_append:
  assumes "t \<noteq> []" "\<not> starts_any space_encodings t" "is_ascii d"
  shows "\<not> starts_any space_encodings (t @ d # u)"
proof
  assume "starts_any space_encodings (t @ d # u)"
  then obtain w where w: "w \<in> set space_encodings" "w \<noteq> []" "prefix w (t @ d # u)"
    by (auto simp: starts_any_def)
  show False
  proof (cases "length w \<le> length t")
    case True
    then have "prefix w t" using w(3) prefix_length_prefix [of w "t @ d # u" t] by simp
    then show False using assms(2) w(1,2) by (force simp: starts_any_def)
  next
    case False
    then obtain v where "w = t @ v" "v \<noteq> []" using w(3) by (auto simp: prefix_append dest: prefix_length_le)
    then have "d \<in> set w" using w(3) by (cases v) auto
    moreover have "2 \<le> length w" using False assms(1) by (cases t) auto
    ultimately show False using long_encodings [OF w(1)] assms(3) by blast
  qed
qed

lemma join_trimmed:
  assumes "is_ascii d" "chain \<noteq> []" "\<forall>q \<in> set chain. trim_space q = q \<and> q \<noteq> []"
  shows "trim_space (join_with [d] chain) = join_with [d] chain" "join_with [d] chain \<noteq> []"
proof -
  have "\<not> starts_any space_encodings (join_with [d] chain)"
    using assms trimmed_ends(1) starts_append by (cases chain; cases "tl chain") auto
  moreover have "join_with [d] chain \<noteq> [] \<and> \<not> starts_any (map rev space_encodings) (rev (join_with [d] chain))"
    using assms(2,3)
  proof (induction "[d]" chain rule: join_with.induct)
    case (3 x y ys)
    then show ?case using ends_append [of "join_with [d] (y # ys)" d x] assms(1) by simp
  qed (use trimmed_ends(2) in auto)
  ultimately show "trim_space (join_with [d] chain) = join_with [d] chain" "join_with [d] chain \<noteq> []"
    by (simp_all add: trim_space_id)
qed

text \<open>
  The API reads back the chain the client joined, when no name has the separator in it.
\<close>

lemma chain_roundtrip:
  assumes "chain \<noteq> []" "\<forall>q \<in> set chain. trim_space q = q \<and> q \<noteq> [] \<and> serviceChainSeparator \<notin> set q"
  shows "parseInboundServiceChain (join_with [serviceChainSeparator] chain) = Inr chain"
proof -
  have "is_ascii serviceChainSeparator" by (simp add: is_ascii_def serviceChainSeparator_def)
  note t = join_trimmed [OF this assms(1)]
  have "split_on serviceChainSeparator (join_with [serviceChainSeparator] chain) = chain"
    using assms by (intro split_on_join) auto
  moreover have "map trim_space chain = chain" using assms(2) by (simp add: map_idI)
  ultimately show ?thesis using t assms(2) trimNames_iff by (simp add: parseInboundServiceChain_def Let_def)
qed

text \<open>A name with the separator is split: the API calls the service twice.\<close>

lemma separator_in_name:
  "normalizeServiceChain [] [''a|b''] = Inr [''a|b'']"
  "parseInboundServiceChain (join_with [serviceChainSeparator] [''a|b'']) = Inr [''a'', ''b'']"
  by code_simp+

section \<open>A case\<close>

text \<open>The steps of the cases in \<open>cases\<close> with any data.\<close>

definition grpcSyncSteps ::
    "grpcSyncHarness connection \<Rightarrow> grpcSyncHarness connection \<Rightarrow> planExternalCall list \<Rightarrow> string \<Rightarrow> string list \<Rightarrow>
       string list \<Rightarrow> int \<Rightarrow> (grpcSyncHarness \<times> 'x) step list" where
  "grpcSyncSteps api ext calls service serviceChain services n =
     [exampleStep (newGRPCSyncRegistry api ext) ''plan-external'' StepKindPrepare ''PlanExternalCheck'' (PlanExternalCheckRequest calls) None,
      exampleStep (newGRPCSyncRegistry api ext) ''call-api'' StepKindAction ''CallAPI'' (CallAPIRequest service serviceChain) None,
      exampleStep (newGRPCSyncRegistry api ext) ''verify-external'' StepKindVerify ''VerifyExternalCheck'' (VerifyExternalCheckRequest services n) None]"

definition grpc_sync_verdict :: "externalPlannedCall list \<Rightarrow> string list \<Rightarrow> string list \<Rightarrow> int \<Rightarrow> string option" where
  "grpc_sync_verdict plan chain services n =
     (if \<not> follows_plan chain plan then Some ''FailedPrecondition''
      else if services = [] \<or> (\<exists>q \<in> set services. trim_space q = []) \<or> 0 < n \<and> n \<noteq> int (length services)
        then Some ''InvalidArgument''
      else if map trim_space services \<noteq> chain then Some ''FailedPrecondition''
      else None)"

lemma normalized_chain:
  assumes "normalizeServiceChain service serviceChain = Inr chain"
  shows "chain \<noteq> []" "\<forall>q \<in> set chain. trim_space q = q \<and> q \<noteq> []"
  using assms by (auto simp: normalizeServiceChain_def Let_def trimNames_iff split: if_splits)

text \<open>A call of the API for a chain of names, in the state after the plan.\<close>

lemma callAPI_planned:
  fixes api ext :: "grpcSyncHarness connection"
  defines "h \<equiv> \<lambda>s. \<lparr>gh_externalState = s\<rparr>"
  assumes conn: "connection_contract api" "connection_contract ext"
    and chain: "normalizeServiceChain service serviceChain = Inr chain" "\<forall>q \<in> set chain. serviceChainSeparator \<notin> set q"
  shows "if follows_plan chain plan
    then callAPIInvoke api ext (h (after_calls plan [])) service serviceChain =
      (h (after_calls plan chain), box_ptr (APICheckResponse (last_status chain plan)), None)
    else \<exists>s m. callAPIInvoke api ext (h (after_calls plan [])) service serviceChain =
      (h s, VPtr None, Some (rpcError ''FailedPrecondition'' m))"
proof -
  have server: "gsExternalServer (h s) q = (h (fst (externalCheck ''external expectation is not planned'' s q)),
      snd (externalCheck ''external expectation is not planned'' s q))" for s q
    by (simp add: gsExternalServer_def externalCheck_def gsConsumeCall_def h_def Let_def split: prod.split sum.split)
  note c = normalized_chain [OF chain(1)]
  note calls = callChain_planned [where lift = h and server = gsExternalServer and past = "[]" and plan = plan
    and s = UNKNOWN and wrap = "\<lambda>_ e. Errorf ''external check: %w'' [AErr e]", OF conn(2) server c(2)]
  have parse: "parseInboundServiceChain (join_with [serviceChainSeparator] chain) = Inr chain"
    using c chain(2) by (intro chain_roundtrip) auto
  show ?thesis
  proof (cases "follows_plan chain plan")
    case True
    then have "gsApiCheck ext (h (after_calls plan [])) (join_with [serviceChainSeparator] chain) =
        (h (after_calls plan chain), Inr (last_status chain plan))"
      using calls c(1) by (simp add: gsApiCheck_def parse follows_plan_def last_status_def)
    from delivered_status [of api "gsApiCheck ext", OF conn(1) this] show ?thesis
      using True c(1) by (simp add: callAPIInvoke_def chain(1) CallAPI_def)
  next
    case False
    then obtain s m where "gsApiCheck ext (h (after_calls plan [])) (join_with [serviceChainSeparator] chain) =
        (h s, Inl (Errorf ''external check: %w'' [AErr (rpcError ''FailedPrecondition'' m)]))"
      using calls by (auto simp: gsApiCheck_def parse follows_plan_def)
    from delivered_error [of api "gsApiCheck ext", OF conn(1) this] obtain e where
      e: "api (gsApiCheck ext) (h (after_calls plan [])) (join_with [serviceChainSeparator] chain) = (h s, Inl e)"
      and code: "\<And>code m'. rpc_status (Errorf ''external check: %w'' [AErr (rpcError ''FailedPrecondition'' m)]) = Some (code, m') \<Longrightarrow>
        \<exists>m'. e = rpcError code m'"
      by blast
    obtain m' where "e = rpcError ''FailedPrecondition'' m'" using code [OF trans [OF rpc_status_wrapped rpc_status_self]] ..
    then show ?thesis using False c(1) e by (auto simp: callAPIInvoke_def chain(1) CallAPI_def)
  qed
qed

text \<open>
  The cases of the repository, for any data: the case succeeds exactly when the plan begins with the
  chain that the request names and the verify step expects this chain.  Then the response of the API
  has the status of the last planned call, and the mock was called along the chain.
\<close>

theorem grpc_sync_case:
  assumes conn: "connection_contract api" "connection_contract ext"
    and data: "calls \<noteq> []" "planned_as calls plan"
    and chain: "normalizeServiceChain service serviceChain = Inr chain" "\<forall>q \<in> set chain. serviceChainSeparator \<notin> set q"
  shows "\<exists>st. runSteps rt (grpcSyncSteps api ext calls service serviceChain services n) (initialRun (newGRPCSyncHarness, x)) = Some st \<and>
    (case grpc_sync_verdict plan chain services n of
       Some code \<Rightarrow> \<exists>e m. rs_executionErr st = Some e \<and> rpc_status e = Some (code, m)
     | None \<Rightarrow> rs_executionErr st = None \<and> em_calls (gh_externalState (fst (rs_world st))) = chain \<and>
         mget (rs_stepOutputs st) ''call-api'' = Some (box_ptr (APICheckResponse (last_status chain plan))))"
    (is "\<exists>st. _ \<and> ?Q st")
proof -
  let ?h = "\<lambda>cs. \<lparr>gh_externalState = after_calls plan cs\<rparr>"
  have "planLoop f g 0 calls = Inr plan" for f g using data(2) by (simp add: planLoop_iff)
  then have plan: "planExternalCheckInvoke newGRPCSyncHarness calls =
      (?h [], Inr (PlanExternalCheckResponse True (Some (map normalizedCall plan))))"
    using data(1) by (simp add: planExternalCheckInvoke_def PlanExternalCheck_def newGRPCSyncHarness_def mockPlan_def
        newExternalMockState_def after_calls_def)
  note call = callAPI_planned [OF conn chain, of plan]
  have "ends rt (drop 1 (grpcSyncSteps api ext calls service serviceChain services n)) st ?Q" if at: "run_at (?h []) outs st" for outs st
  proof (cases "follows_plan chain plan")
    case False
    then obtain s m where c: "callAPIInvoke api ext (?h []) service serviceChain =
        (\<lparr>gh_externalState = s\<rparr>, VPtr None, Some (rpcError ''FailedPrecondition'' m))"
      using call by auto
    show ?thesis
      unfolding grpcSyncSteps_def
      by (simp, rule ends_refused [OF at grpc_sync_resolve(2) _ _ grpc_sync_answers(2) [OF c]])
         (use False in \<open>simp_all add: kind_defs grpc_sync_verdict_def\<close>)
  next
    case True
    then have c: "callAPIInvoke api ext (?h []) service serviceChain =
        (?h chain, box_ptr (APICheckResponse (last_status chain plan)), None)"
      using call by simp
    have "ends rt [exampleStep (newGRPCSyncRegistry api ext) ''verify-external'' StepKindVerify ''VerifyExternalCheck''
        (VerifyExternalCheckRequest services n) None] st' ?Q"
      if at': "run_at (?h chain) (mput ''call-api'' (box_ptr (APICheckResponse (last_status chain plan))) outs) st'" for st'
    proof (cases "grpc_sync_verdict plan chain services n")
      case None
      then obtain v where v: "verifyExternalCheckInvoke (?h chain) services n = (v, None)"
        using verifyCalls_after [of services n "''external expectation is not planned''" plan chain] True
        by (auto simp: verifyExternalCheckInvoke_def VerifyExternalCheck_def grpc_sync_verdict_def split: if_splits)
      show ?thesis unfolding None option.case
        by (rule ends_step [OF at' grpc_sync_resolve(3) _ grpc_sync_answers(3) [OF v]], simp add: kind_defs, rule ends_Nil)
           (use at at' in \<open>auto simp: run_at_def after_calls_def\<close>)
    next
      case (Some code)
      then obtain v m where v: "verifyExternalCheckInvoke (?h chain) services n = (v, Some (rpcError code m))"
        using verifyCalls_after [of services n "''external expectation is not planned''" plan chain] True
        by (auto simp: verifyExternalCheckInvoke_def VerifyExternalCheck_def grpc_sync_verdict_def split: if_splits)
      show ?thesis unfolding Some option.case
        by (rule ends_refused [OF at' grpc_sync_resolve(3) _ _ grpc_sync_answers(3) [OF v]]) (simp_all add: kind_defs)
    qed
    then show ?thesis
      unfolding grpcSyncSteps_def
      by (simp, intro ends_step [OF at grpc_sync_resolve(2) _ grpc_sync_answers(2) [OF c]]) (simp_all add: kind_defs)
  qed
  then have "ends rt (grpcSyncSteps api ext calls service serviceChain services n) (initialRun (newGRPCSyncHarness, x)) ?Q"
    unfolding grpcSyncSteps_def
    by (intro ends_step [OF run_at_initial grpc_sync_resolve(1) _ grpc_sync_answers(1) [OF plan any_result_simps(2)]])
       (simp_all add: kind_defs)
  then show ?thesis by (simp add: ends_def)
qed

text \<open>A chain of two calls, whose second one decides.\<close>

theorem grpc_sync_case_witness:
  "\<exists>st. runSteps late_runtime (grpcSyncSteps direct_connection direct_connection
      [PlanExternalCall '' a'' ''SERVING'', PlanExternalCall ''b'' ''NOT_SERVING''] [] [''a'', ''b''] [''a'', ''b''] 2)
      (initialRun (newGRPCSyncHarness, False)) = Some st \<and> rs_executionErr st = None"
proof -
  let ?plan = "[ExternalPlannedCall ''a'' SERVING, ExternalPlannedCall ''b'' NOT_SERVING]"
  have t: "trim_space '' a'' = ''a''" "trim_space ''a'' = ''a''" "trim_space ''b'' = ''b''"
    and chain: "normalizeServiceChain [] [''a'', ''b''] = Inr [''a'', ''b'']"
    by code_simp+
  have p: "planned_as [PlanExternalCall '' a'' ''SERVING'', PlanExternalCall ''b'' ''NOT_SERVING''] ?plan"
    by (simp add: planned_as_def t parse_names)
  have "grpc_sync_verdict ?plan [''a'', ''b''] [''a'', ''b''] 2 = None"
    by (simp add: grpc_sync_verdict_def t follows_plan_def)
  then show ?thesis
    using grpc_sync_case [OF direct_connection_contract direct_connection_contract _ p chain, of late_runtime "[''a'', ''b'']" 2 False]
    by (force simp: serviceChainSeparator_def)
qed

end
