(* ===== verification/SessionExample.thy ===== *)
theory SessionExample
  imports HttpServer ExampleKit
begin

text \<open>
  The sample service \<open>docs/itestkit/examples/httpserver\<close>: an HTTP API with sessions and CSRF tokens
  (\<open>api.go\<close>) behind the preset handler for HTTP calls, with its status codec (\<open>codec.go\<close>), its body
  normalizer and registry (\<open>registry.go\<close>) and its harness (\<open>harness.go\<close>).
\<close>

section \<open>Cookies on the side of the server\<close>

text \<open>
  Package \<open>net/http\<close>: the cookies of a request with a name, from all \<open>Cookie\<close> headers, and the text
  of a \<open>Set-Cookie\<close> header.
\<close>

definition text_space :: "char \<Rightarrow> bool" where
  "text_space c \<longleftrightarrow> c \<in> {CHR '' '', CHR 0x09, CHR 0x0A, CHR 0x0D}"

definition trim_string :: "string \<Rightarrow> string" where
  "trim_string s = rev (dropWhile text_space (rev (dropWhile text_space s)))"

definition unquote_cookie :: "string \<Rightarrow> string" where
  "unquote_cookie v =
     (if 1 < length v \<and> hd v = CHR 0x22 \<and> last v = CHR 0x22 then take (length v - 2) (drop 1 v) else v)"

definition cookie_parts :: "string list gomap \<Rightarrow> string list" where
  "cookie_parts header =
     (case mget header ''Cookie'' of None \<Rightarrow> []
      | Some lines \<Rightarrow> filter (\<lambda>p. p \<noteq> []) (concat (map (\<lambda>l. map trim_string (split_on (CHR '';'') (trim_string l))) lines)))"

text \<open>A part \<open>name=value\<close>; a part without \<open>=\<close> has an empty value.\<close>

definition parse_cookie_part :: "string \<Rightarrow> (string \<times> string) option" where
  "parse_cookie_part part =
     (let name = trim_string (takeWhile (\<lambda>c. c \<noteq> CHR ''='') part);
          v = unquote_cookie (drop 1 (dropWhile (\<lambda>c. c \<noteq> CHR ''='') part)) in
      if name \<noteq> [] \<and> list_all token_char name \<and> list_all validCookieValueByte v then Some (name, v) else None)"

definition requestCookie :: "httpRequest \<Rightarrow> string \<Rightarrow> string option" where
  "requestCookie request name =
     find_some (\<lambda>part. case parse_cookie_part part of Some (n, v) \<Rightarrow> if n = name then Some v else None | None \<Rightarrow> None)
       (cookie_parts (hr_header request))"

definition sanitizeCookiePath :: "string \<Rightarrow> string" where
  "sanitizeCookiePath s = filter (\<lambda>c. (32 :: nat) \<le> of_char c \<and> of_char c < (127 :: nat) \<and> c \<noteq> CHR '';'') s"

definition setCookieString :: "httpCookie \<Rightarrow> string" where
  "setCookieString c = hc_name c @ ''='' @ sanitizeCookieValue (hc_value c) (hc_quoted c)
     @ (if 0 < length (hc_path c) then ''; Path='' @ sanitizeCookiePath (hc_path c) else [])
     @ (if 0 < hc_maxAge c then ''; Max-Age='' @ nat_digits (nat (hc_maxAge c))
        else if hc_maxAge c < 0 then ''; Max-Age=0'' else [])
     @ (if hc_httpOnly c then ''; HttpOnly'' else [])
     @ (if hc_secure c then ''; Secure'' else [])
     @ (if hc_sameSite c = 2 then ''; SameSite=Lax'' else if hc_sameSite c = 3 then ''; SameSite=Strict''
        else if hc_sameSite c = 4 then ''; SameSite=None'' else [])"

text \<open>The headers of the writer; a cookie whose name is no token is not set.\<close>

definition addHeader :: "string \<Rightarrow> string \<Rightarrow> string list gomap \<Rightarrow> string list gomap" where
  "addHeader name v header =
     mput name ((case mget header name of None \<Rightarrow> [] | Some vs \<Rightarrow> vs) @ [v]) header"

definition setCookie :: "httpCookie \<Rightarrow> string list gomap \<Rightarrow> string list gomap" where
  "setCookie c header =
     (if hc_name c \<noteq> [] \<and> list_all token_char (hc_name c) then addHeader ''Set-Cookie'' (setCookieString c) header else header)"

section \<open>The API\<close>

definition contentTypeHeader :: string where "contentTypeHeader = ''Content-Type''"
definition csrfCookieName :: string where "csrfCookieName = ''csrf_token''"
definition csrfHeaderName :: string where "csrfHeaderName = ''X-CSRF-Token''"
definition csrfToken :: string where "csrfToken = ''csrf-1''"
definition jsonContentType :: string where "jsonContentType = ''application/json''"
definition reportContentType :: string where
  "reportContentType = ''application/vnd.openxmlformats-officedocument.spreadsheetml.sheet''"
definition reportXLSXBody :: string where "reportXLSXBody = ''PK'' @ [CHR 0x03, CHR 0x04] @ ''report''"
definition sessionCookieName :: string where "sessionCookieName = ''session_id''"
definition sessionCookiePath :: string where "sessionCookiePath = ''/''"
definition sessionID :: string where "sessionID = ''session-1''"

record userAccount =
  ua_UserID :: string
  ua_Email :: string
  ua_Password :: string

record apiHandler =
  ap_account :: userAccount
  ap_sessions :: "userAccount gomap"

definition newAPIHandler :: apiHandler where
  "newAPIHandler = \<lparr>ap_account = \<lparr>ua_UserID = ''user-1'', ua_Email = ''admin@example.test'', ua_Password = ''correct-password''\<rparr>,
     ap_sessions = []\<rparr>"

text \<open>
  \<open>header\<close> are the headers set before; the recorder takes the status and everything that is written.
  The encoder ends the text with a line break.
\<close>

definition writeJSON :: "string list gomap \<Rightarrow> int \<Rightarrow> json \<Rightarrow> recorded" where
  "writeJSON header status response =
     (let sent = mput contentTypeHeader [jsonContentType] header in
      \<lparr>rc_code = status, rc_header = sent, rc_sentHeader = sent, rc_body = json_enc response @ [CHR 0x0A]\<rparr>)"

text \<open>The structs that are written, with their fields in the order of the declaration.\<close>

definition errorResponse :: "string \<Rightarrow> json" where
  "errorResponse e = JObj [(''error'', JStr e)]"

definition loginResponse :: "string \<Rightarrow> string \<Rightarrow> json" where
  "loginResponse userID email = JObj [(''user_id'', JStr userID), (''email'', JStr email)]"

definition meResponse :: "string \<Rightarrow> string \<Rightarrow> bool \<Rightarrow> json" where
  "meResponse userID email authenticated =
     JObj [(''user_id'', JStr userID), (''email'', JStr email), (''authenticated'', JBool authenticated)]"

definition methodNotAllowed :: recorded where
  "methodNotAllowed = writeJSON [] 405 (errorResponse ''method not allowed'')"

definition storeLoginRequest :: "string \<times> string \<Rightarrow> string \<Rightarrow> (string \<times> string) result" where
  "storeLoginRequest v raw =
     rbind (decode_struct [''email'', ''password''] raw) (\<lambda>ms.
     rbind (store_all store_string (fst v) (field_values ms ''email'')) (\<lambda>e.
     rbind (store_all store_string (snd v) (field_values ms ''password'')) (\<lambda>p.
     Inr (e, p))))"

text \<open>Decoding a body yields the payload or the response of a refusal; reading a body in memory never fails.\<close>

definition decodeLoginRequest :: "httpRequest \<Rightarrow> recorded + string \<times> string" where
  "decodeLoginRequest request =
     map_err (\<lambda>_. writeJSON [] 400 (errorResponse ''invalid login request''))
       (decodeStrictJSON storeLoginRequest ([], []) (hr_body request))"

definition decodeUpdateEmailRequest :: "httpRequest \<Rightarrow> recorded + string" where
  "decodeUpdateEmailRequest request =
     map_err (\<lambda>_. writeJSON [] 400 (errorResponse ''invalid update request''))
       (decodeStrictJSON (storeString1 ''email'') [] (hr_body request))"

definition sessionCookie :: httpCookie where
  "sessionCookie = \<lparr>hc_name = sessionCookieName, hc_value = sessionID, hc_quoted = False, hc_path = sessionCookiePath,
     hc_httpOnly = True, hc_secure = True, hc_sameSite = 2, hc_maxAge = 0\<rparr>"

definition csrfCookie :: httpCookie where
  "csrfCookie = \<lparr>hc_name = csrfCookieName, hc_value = csrfToken, hc_quoted = False, hc_path = sessionCookiePath,
     hc_httpOnly = True, hc_secure = True, hc_sameSite = 2, hc_maxAge = 0\<rparr>"

definition handleLogin :: "httpRequest \<Rightarrow> apiHandler \<Rightarrow> apiHandler \<times> recorded" where
  "handleLogin request handler =
     (if hr_method request \<noteq> ''POST'' then (handler, methodNotAllowed)
      else case decodeLoginRequest request of
        Inl refused \<Rightarrow> (handler, refused)
      | Inr (email, password) \<Rightarrow>
          if email \<noteq> ua_Email (ap_account handler) \<or> password \<noteq> ua_Password (ap_account handler) then
            (handler, writeJSON [] 401 (errorResponse ''invalid credentials''))
          else
            (handler\<lparr>ap_sessions := mput sessionID (ap_account handler) (ap_sessions handler)\<rparr>,
             writeJSON (mput ''X-Session-Issued'' [''true''] (setCookie csrfCookie (setCookie sessionCookie []))) 200
               (loginResponse (ua_UserID (ap_account handler)) (ua_Email (ap_account handler)))))"

definition authenticatedAccount :: "apiHandler \<Rightarrow> httpRequest \<Rightarrow> recorded + userAccount \<times> string" where
  "authenticatedAccount handler request =
     (case requestCookie request sessionCookieName of
        None \<Rightarrow> Inl (writeJSON [] 401 (errorResponse ''session cookie is required''))
      | Some v \<Rightarrow>
          (case mget (ap_sessions handler) v of
             None \<Rightarrow> Inl (writeJSON [] 401 (errorResponse ''session is unknown''))
           | Some account \<Rightarrow> Inr (account, v)))"

definition validCSRF :: "httpRequest \<Rightarrow> bool" where
  "validCSRF request =
     (case requestCookie request csrfCookieName of
        None \<Rightarrow> False
      | Some v \<Rightarrow> headerGet (hr_header request) csrfHeaderName = v)"

definition handleMe :: "httpRequest \<Rightarrow> apiHandler \<Rightarrow> apiHandler \<times> recorded" where
  "handleMe request handler =
     (if hr_method request \<noteq> ''GET'' then (handler, methodNotAllowed)
      else case authenticatedAccount handler request of
        Inl refused \<Rightarrow> (handler, refused)
      | Inr (account, _) \<Rightarrow> (handler, writeJSON [] 200 (meResponse (ua_UserID account) (ua_Email account) True)))"

definition handleProfileEmail :: "httpRequest \<Rightarrow> apiHandler \<Rightarrow> apiHandler \<times> recorded" where
  "handleProfileEmail request handler =
     (if hr_method request \<noteq> ''POST'' then (handler, methodNotAllowed)
      else case authenticatedAccount handler request of
        Inl refused \<Rightarrow> (handler, refused)
      | Inr (account, session) \<Rightarrow>
          if \<not> validCSRF request then (handler, writeJSON [] 403 (errorResponse ''csrf token is invalid''))
          else case decodeUpdateEmailRequest request of
            Inl refused \<Rightarrow> (handler, refused)
          | Inr email \<Rightarrow>
              (let account1 = account\<lparr>ua_Email := email\<rparr> in
               (handler\<lparr>ap_sessions := mput session account1 (ap_sessions handler)\<rparr>,
                writeJSON [] 200 (meResponse (ua_UserID account1) (ua_Email account1) True))))"

definition handleReport :: "httpRequest \<Rightarrow> apiHandler \<Rightarrow> apiHandler \<times> recorded" where
  "handleReport request handler =
     (if hr_method request \<noteq> ''GET'' then (handler, methodNotAllowed)
      else
        (let header = [(contentTypeHeader, [reportContentType])] in
         (handler, \<lparr>rc_code = 200, rc_header = header, rc_sentHeader = header, rc_body = reportXLSXBody\<rparr>)))"

text \<open>\<open>urlPath\<close> is the path of a parsed URL, as in \<open>request.URL.Path\<close>.\<close>

definition serveAPI :: "(string \<Rightarrow> string) \<Rightarrow> apiHandler http_handler" where
  "serveAPI urlPath request handler =
     (let path = urlPath (hr_url request) in
      if path = ''/login'' then handleLogin request handler
      else if path = ''/me'' then handleMe request handler
      else if path = ''/profile/email'' then handleProfileEmail request handler
      else if path = ''/report.xlsx'' then handleReport request handler
      else (handler, writeJSON [] 404 (errorResponse ''endpoint not found'')))"

section \<open>Status codec and registry\<close>

definition httpStatusOK :: string where "httpStatusOK = ''OK''"
definition httpStatusFailed :: string where "httpStatusFailed = ''ERROR''"

definition httpStatusCodec :: "string statusCodec" where
  "httpStatusCodec = \<lparr>
     sc_parse = (\<lambda>raw.
       if trim_space raw = httpStatusOK then Inr httpStatusOK
       else if trim_space raw = httpStatusFailed then Inr httpStatusFailed
       else Inl (Errorf ''unsupported status code %q'' [AStr raw])),
     sc_success = httpStatusOK\<rparr>"

definition httpStatusInspector :: "(err \<Rightarrow> string) \<Rightarrow> string errorInspector" where
  "httpStatusInspector text e =
     (case as_statusError ''statusError'' e of None \<Rightarrow> None | Some (code, message) \<Rightarrow> Some (code, text message))"

record reportBodyConfig =
  rb_Type :: string
  rb_Sheet :: string
  rb_HeaderRow :: int

definition xlsxResponseBodyType :: string where "xlsxResponseBodyType = ''xlsx''"

definition storeReportBodyConfig :: "reportBodyConfig \<Rightarrow> string \<Rightarrow> reportBodyConfig result" where
  "storeReportBodyConfig v raw =
     rbind (decode_struct [''type'', ''sheet'', ''header_row''] raw) (\<lambda>ms.
     rbind (store_all store_string (rb_Type v) (field_values ms ''type'')) (\<lambda>t.
     rbind (store_all store_string (rb_Sheet v) (field_values ms ''sheet'')) (\<lambda>s.
     rbind (store_all store_int (rb_HeaderRow v) (field_values ms ''header_row'')) (\<lambda>n.
     Inr \<lparr>rb_Type = t, rb_Sheet = s, rb_HeaderRow = n\<rparr>))))"

text \<open>\<open>float64(n)\<close> as it is written, where \<open>f64\<close> gives the text of the float that a literal denotes.\<close>

definition int_literal :: "int \<Rightarrow> string" where
  "int_literal n = (if n < 0 then CHR ''-'' # nat_digits (nat (- n)) else nat_digits (nat n))"

definition float_of_int :: "float64_text \<Rightarrow> int \<Rightarrow> json" where
  "float_of_int f64 n = JNum (case f64 (int_literal n) of Inr t \<Rightarrow> t | Inl _ \<Rightarrow> int_literal n)"

definition reportBodyNormalizer :: "float64_text \<Rightarrow> 'w bodyNormalizer" where
  "reportBodyNormalizer f64 request status header body w =
     (if length (rq_responseBody request) = 0 then (w, Inr None)
      else case decodeStrictJSON storeReportBodyConfig \<lparr>rb_Type = [], rb_Sheet = [], rb_HeaderRow = 0\<rparr> (rq_responseBody request) of
        Inl e \<Rightarrow> (w, Inl (Errorf ''decode report response_body: %w'' [AErr e]))
      | Inr config \<Rightarrow>
          if rb_Type config \<noteq> xlsxResponseBodyType then (w, Inr None)
          else (w, Inr (Some (DecodedBody (JObj (mcopy []
            [(''type'', JStr (rb_Type config)), (''sheet'', JStr (rb_Sheet config)),
             (''header_row'', float_of_int f64 (rb_HeaderRow config)),
             (''content_type'', JStr (headerGet header contentTypeHeader)),
             (''byte_size'', float_of_int f64 (int (length body)))]))))))"

definition sessionOptions :: "float64_text \<Rightarrow> 'w callOption list" where
  "sessionOptions f64 = [withBaseURL ''http://api.example.test'', withBodyNormalizer (Some (reportBodyNormalizer f64))]"

definition newSessionRegistry :: "float64_text \<Rightarrow> ('w, 'c) http_registered mapRegistry" where
  "newSessionRegistry f64 = newHttpRegistry [] (sessionOptions f64)"

record sessionHarness =
  sh_handler :: apiHandler
  sh_cookies :: cookieJar

definition newSessionHarness :: sessionHarness where
  "newSessionHarness = \<lparr>sh_handler = newAPIHandler, sh_cookies = newCookieJar\<rparr>"

section \<open>Written bodies are read back\<close>

lemma trim_written: "trim_space (CHR 0x7B # u @ [CHR 0x7D, CHR 0x0A]) = CHR 0x7B # u @ [CHR 0x7D]"
proof -
  have "\<not> starts_any space_encodings (CHR 0x7B # u @ [CHR 0x7D, CHR 0x0A])"
    by (rule start_Cons) (simp_all add: is_ascii_def space_encodings_def)
  then have l: "trim_left (CHR 0x7B # u @ [CHR 0x7D, CHR 0x0A]) = CHR 0x7B # u @ [CHR 0x7D, CHR 0x0A]"
    by (simp add: trim_left_def strip_any_id)
  have "\<not> starts_any (map rev space_encodings) (CHR 0x7D # v)" for v
    by (simp add: starts_any_def space_encodings_def)
  then have "strip_any (map rev space_encodings) (CHR 0x0A # CHR 0x7D # v) = CHR 0x7D # v" for v
    by (subst strip_any.simps) (simp add: space_encodings_def strip_any_id)
  then have "trim_right (CHR 0x7B # u @ [CHR 0x7D, CHR 0x0A]) = CHR 0x7B # u @ [CHR 0x7D]"
    by (simp add: trim_right_def)
  then show ?thesis by (simp add: trim_space_def l)
qed

lemma decode_object:
  assumes "m \<noteq> []" "\<forall>e \<in> set m. utf8_ok (fst e) \<and> portable (snd e)"
  shows "json_decode (json_enc (JObj m)) = Inr (JObj (mcopy [] m), [])"
proof -
  let ?t = "join_with '','' (map member_enc m) @ CHR 0x7D # []"
  have "parse_members (2 * length (json_enc (JObj m))) ?t [] = Inr (mcopy [] m, [])"
    using assms portable_reads_back by (intro parse_members_enc) auto
  moreover obtain e m' where "m = e # m'" using assms(1) by (cases m) auto
  then obtain t where "?t = CHR 0x22 # t" by (cases m') (auto simp: quote_def)
  then have "next_byte ?t = Inr (CHR 0x22, t)" by simp
  ultimately have "parse_value (Suc (2 * length (json_enc (JObj m)))) (CHR 0x7B # ?t) = Inr (JObj (mcopy [] m), [])"
    by (simp add: parse_value_object del: parse_value.simps)
  then show ?thesis by (simp add: json_decode_def skip_space_def is_json_space_def del: parse_value.simps)
qed

text \<open>The objects the API writes: texts and truth values.\<close>

definition plain_object :: "(string \<times> json) list \<Rightarrow> bool" where
  "plain_object m \<longleftrightarrow> m \<noteq> [] \<and> (\<forall>e \<in> set m. utf8_ok (fst e) \<and> (\<exists>s b. snd e = JStr s \<and> utf8_ok s \<or> snd e = JBool b))"

lemma decode_written:
  assumes "plain_object m"
  shows "decodeHTTPResponseBody f64 (json_enc (JObj m) @ [CHR 0x0A]) jsonContentType = Inr (Some (DecodedBody (JObj (mcopy [] m))))"
proof -
  have dec: "json_decode (json_enc (JObj m)) = Inr (JObj (mcopy [] m), [])"
    using assms by (intro decode_object) (auto simp: plain_object_def)
  have trim: "trim_space (json_enc (JObj m) @ [CHR 0x0A]) = json_enc (JObj m)"
    using trim_written [of "join_with '','' (map member_enc m)"] by simp
  have "any_value f64 (snd e) = Inr (snd e)" if "e \<in> set m" for e using assms that by (fastforce simp: plain_object_def)
  moreover have "set (mcopy [] m) \<subseteq> set m"
    by (auto simp: mget_Some_iff [symmetric] mget_mcopy split: option.splits dest!: map_of_SomeD)
  ultimately have "map_result (\<lambda>e. rbind (any_value f64 (snd e)) (\<lambda>v. Inr (fst e, v))) (mcopy [] m) = Inr (mcopy [] m)"
    by (intro map_result_Inr_self) auto
  then have "any_value f64 (JObj (mcopy [] m)) = Inr (JObj (mcopy [] m))" by simp
  moreover have "contains_str (map to_lower jsonContentType) ''json''" by code_simp
  moreover have "json_decode [] = Inl DecEOF" by (simp add: json_decode_def skip_space_def)
  moreover have "json_enc (JObj m) \<noteq> []" by simp
  ultimately show ?thesis using dec by (simp add: decodeHTTPResponseBody_def trim Let_def del: json_enc.simps)
qed

section \<open>Calls of the API\<close>

text \<open>
  The run time as the API needs it: the base URL can be parsed and requests can be built for it, the path
  of a URL is parsed back, a \<open>range\<close> visits every header, and the \<open>Set-Cookie\<close> headers are read
  one by one, those of the API as what they were written from.
\<close>

definition session_runtime :: "'w http_runtime \<Rightarrow> (string \<Rightarrow> string) \<Rightarrow> bool" where
  "session_runtime rt urlPath \<longleftrightarrow>
     (\<exists>base. rt_parseURL rt ''http://api.example.test'' = Inr base \<and> ur_scheme base \<noteq> [] \<and> ur_host base \<noteq> []) \<and>
     (\<forall>u. ur_scheme u \<noteq> [] \<longrightarrow> ur_host u \<noteq> [] \<longrightarrow> has_prefix (ur_path u) ''/'' \<longrightarrow>
        urlPath (rt_urlString rt u) = ur_path u \<and> is_ok (rt_newRequest rt ''POST'' (rt_urlString rt u))) \<and>
     fold_contract (rt_equalFold rt) \<and> (\<forall>hs. set (rt_order rt hs) = set hs) \<and>
     (\<exists>parse. parse (setCookieString sessionCookie) = Some sessionCookie \<and> parse (setCookieString csrfCookie) = Some csrfCookie \<and>
        (\<forall>h. rt_setCookies rt h = (case mget h ''Set-Cookie'' of None \<Rightarrow> [] | Some lines \<Rightarrow> List.map_filter parse lines)))"

text \<open>A fixture that posts a body to a path, and whose response is read as JSON.\<close>

definition posts :: "requestSpec \<Rightarrow> string \<Rightarrow> string \<Rightarrow> bool" where
  "posts spec path body \<longleftrightarrow> trim_space (rq_method spec) = ''POST'' \<and> trim_space (rq_path spec) = path \<and>
     has_prefix path ''/'' \<and> \<not> contains_str path ''?'' \<and> buildRequestBody spec = Inr body \<and> rq_responseBody spec = []"

lemma setHeaders_other:
  "wf_map (hr_header q) \<Longrightarrow> \<forall>e \<in> set hs. canonicalHeaderKey (fst e) \<noteq> k \<Longrightarrow>
     mget (hr_header (setHeaders rt hs q)) k = mget (hr_header q) k"
proof (induction rt hs q rule: setHeaders.induct)
  case (2 rt n x hs q)
  show ?case using 2(2,3) 2(1) by (auto simp: headerSet_wf headerSet_get)
qed simp

lemma posted:
  assumes "session_runtime rt urlPath" "posts spec path body"
  obtains q where "buildHTTPRequest rt ''http://api.example.test'' spec = Inr q" "hr_method q = ''POST''"
    "urlPath (hr_url q) = path" "hr_body q = body" "wf_map (hr_header q)"
    "\<And>k. \<forall>e \<in> set (rq_headers spec). canonicalHeaderKey (fst e) \<noteq> k \<Longrightarrow> mget (hr_header q) k = None"
proof -
  obtain base where base: "rt_parseURL rt ''http://api.example.test'' = Inr base" "ur_scheme base \<noteq> []" "ur_host base \<noteq> []"
    and order: "set (rt_order rt (rq_headers spec)) = set (rq_headers spec)"
    and url: "\<And>u. ur_scheme u \<noteq> [] \<Longrightarrow> ur_host u \<noteq> [] \<Longrightarrow> has_prefix (ur_path u) ''/'' \<Longrightarrow>
      urlPath (rt_urlString rt u) = ur_path u \<and> is_ok (rt_newRequest rt ''POST'' (rt_urlString rt u))"
    using assms(1) unfolding session_runtime_def by blast
  let ?u = "base\<lparr>ur_path := path, ur_rawQuery := encode_query (mcopy [] (rq_query spec)), ur_fragment := [], ur_rawFragment := []\<rparr>"
  have "urlPath (rt_urlString rt ?u) = path \<and> is_ok (rt_newRequest rt ''POST'' (rt_urlString rt ?u))"
    using url [of ?u] base(2,3) assms(2) by (simp add: posts_def)
  then obtain host where host: "rt_newRequest rt ''POST'' (rt_urlString rt ?u) = Inr host" "urlPath (rt_urlString rt ?u) = path"
    by (auto simp: is_ok_iff)
  let ?bare = "\<lparr>hr_method = ''POST'', hr_url = rt_urlString rt ?u, hr_host = host, hr_header = [], hr_body = body\<rparr>"
  let ?q = "setHeaders rt (rt_order rt (rq_headers spec)) ?bare"
  have build: "buildHTTPRequest rt ''http://api.example.test'' spec = Inr ?q"
    using assms(2) base host by (auto simp: buildHTTPRequest_def buildRequestURL_def posts_def has_prefix_def Let_def)
  have "same_request ?q ?bare" unfolding setHeaders_same by simp
  then have "hr_method ?q = ''POST''" "urlPath (hr_url ?q) = path" "hr_body ?q = body" using host(2) by (simp_all add: same_request_def)
  moreover have "wf_map (hr_header ?q)" by (rule setHeaders_wf) simp
  moreover have "mget (hr_header ?q) k = None" if "\<forall>e \<in> set (rq_headers spec). canonicalHeaderKey (fst e) \<noteq> k" for k
    by (subst setHeaders_other) (use that order in auto)
  ultimately show thesis using build that by blast
qed

lemma session_config:
  "cc_baseURL (newCallHandler (sessionOptions f64)) = ''http://api.example.test''"
  "cc_bodyNormalizer (newCallHandler (sessionOptions f64)) = Some (reportBodyNormalizer f64)"
proof -
  have "trim_space ''http://api.example.test'' = ''http://api.example.test''" by code_simp
  then show "cc_baseURL (newCallHandler (sessionOptions f64)) = ''http://api.example.test''"
    "cc_bodyNormalizer (newCallHandler (sessionOptions f64)) = Some (reportBodyNormalizer f64)"
    by (simp_all add: newCallHandler_def sessionOptions_def withBaseURL_def withBodyNormalizer_def Let_def)
qed

lemma content_type_key [simp]: "canonicalHeaderKey ''Content-Type'' = ''Content-Type''"
  by code_simp

text \<open>A written object ends as the body of the response, and the cookies that were sent are in the jar.\<close>

lemma executed:
  assumes "serve q w = (w', writeJSON header status (JObj m))" "wf_map header" "plain_object m" "rq_responseBody spec = []"
  shows "\<exists>r. executeHTTPRequest rt (Some serve) (Some jar) spec q (Some (reportBodyNormalizer f64)) w =
      (w', Some (storeCookies jar (rt_setCookies rt (mput contentTypeHeader [jsonContentType] header))), Inr r) \<and>
    rs_status r = status \<and> rs_body r = DecodedBody (JObj (mcopy [] m))"
proof -
  let ?rec = "writeJSON header status (JObj m)"
  have "headerGet (rc_header ?rec) ''Content-Type'' = jsonContentType"
    using assms(2) by (simp add: writeJSON_def headerGet_def contentTypeHeader_def Let_def)
  then have "decodeHTTPResponseBody (rt_f64 rt) (rc_body ?rec) (headerGet (rc_header ?rec) ''Content-Type'') =
      Inr (Some (DecodedBody (JObj (mcopy [] m))))"
    using decode_written [OF assms(3)] by (simp add: writeJSON_def Let_def del: json_enc.simps)
  then show ?thesis
    using assms(1,4) by (simp add: executeHTTPRequest_def normalizeHTTPResponseBody_def reportBodyNormalizer_def Let_def)
       (simp add: writeJSON_def Let_def)
qed

section \<open>Sessions\<close>

abbreviation session_jar :: cookieJar where
  "session_jar \<equiv> [(csrfCookieName, csrfCookie), (sessionCookieName, sessionCookie)]"

abbreviation logged_in :: apiHandler where
  "logged_in \<equiv> newAPIHandler\<lparr>ap_sessions := [(sessionID, ap_account newAPIHandler)]\<rparr>"

definition login_header :: "string list gomap" where
  "login_header = mput ''X-Session-Issued'' [''true''] (setCookie csrfCookie (setCookie sessionCookie []))"

lemma login_header_eq:
  "login_header = [(''Set-Cookie'', [setCookieString sessionCookie, setCookieString csrfCookie]), (''X-Session-Issued'', [''true''])]"
  by code_simp

lemma login_cookies:
  assumes "session_runtime rt urlPath"
  shows "storeCookies newCookieJar (rt_setCookies rt (mput contentTypeHeader [jsonContentType] login_header)) = session_jar"
proof -
  obtain parse where "parse (setCookieString sessionCookie) = Some sessionCookie" "parse (setCookieString csrfCookie) = Some csrfCookie"
    "\<And>h. rt_setCookies rt h = (case mget h ''Set-Cookie'' of None \<Rightarrow> [] | Some lines \<Rightarrow> List.map_filter parse lines)"
    using assms unfolding session_runtime_def by blast
  then have "rt_setCookies rt (mput contentTypeHeader [jsonContentType] login_header) = [sessionCookie, csrfCookie]"
    by (simp add: login_header_eq contentTypeHeader_def mget_Cons map_filter_simps)
  moreover have "storeCookies newCookieJar [sessionCookie, csrfCookie] = session_jar" by code_simp
  ultimately show ?thesis by simp
qed

lemma no_cookies [simp]: "rt_setCookies rt [(contentTypeHeader, v)] = []" if "session_runtime rt urlPath" for rt urlPath
  using that unfolding session_runtime_def by (auto simp: contentTypeHeader_def mget_Cons)

text \<open>What an attached jar looks like to the server.\<close>

lemma jar_attached:
  assumes "wf_map (hr_header q)" "mget (hr_header q) ''Cookie'' = None"
  shows "mget (hr_header (attach session_jar q)) ''Cookie'' = Some [''csrf_token=csrf-1; session_id=session-1'']"
    "k \<noteq> ''Cookie'' \<Longrightarrow> mget (hr_header (attach session_jar q)) k = mget (hr_header q) k"
    "wf_map (hr_header (attach session_jar q))" "same_request (attach session_jar q) q"
proof -
  have keys: "sort (mkeys session_jar) = [csrfCookieName, sessionCookieName]" by code_simp
  have texts: "render_cookie csrfCookie = ''csrf_token=csrf-1''" "render_cookie sessionCookie = ''session_id=session-1''" by code_simp+
  have two: "attach session_jar q = addCookie sessionCookie (addCookie csrfCookie q)"
    unfolding attach_def keys by (simp add: mget_Cons csrfCookieName_def sessionCookieName_def)
  have one: "mget (hr_header (addCookie csrfCookie q)) ''Cookie'' = Some [''csrf_token=csrf-1'']"
    using assms texts(1) by (simp add: addCookie_def headerGet_def headerSet_get render_cookie_def Let_def)
  then show "mget (hr_header (attach session_jar q)) ''Cookie'' = Some [''csrf_token=csrf-1; session_id=session-1'']"
    using texts(2) addCookie_wf [OF assms(1)]
    unfolding two by (simp add: addCookie_def [of sessionCookie] headerGet_def headerSet_get render_cookie_def Let_def)
  show "mget (hr_header (attach session_jar q)) k = mget (hr_header q) k" if "k \<noteq> ''Cookie''"
    using that addCookie_wf [OF assms(1)] assms(1) unfolding two
    by (simp add: addCookie_def headerSet_get Let_def headerSet_wf)
  show "wf_map (hr_header (attach session_jar q))" unfolding two by (intro addCookie_wf assms(1))
  show "same_request (attach session_jar q) q" unfolding two by (simp add: addCookie_def Let_def)
qed

lemma request_cookies:
  assumes "mget (hr_header q) ''Cookie'' = Some [''csrf_token=csrf-1; session_id=session-1'']"
  shows "requestCookie q sessionCookieName = Some sessionID" "requestCookie q csrfCookieName = Some csrfToken"
proof -
  have "filter (\<lambda>p. p \<noteq> []) (concat (map (\<lambda>l. map trim_string (split_on (CHR '';'') (trim_string l)))
      [''csrf_token=csrf-1; session_id=session-1''])) = [''csrf_token=csrf-1'', ''session_id=session-1'']"
    by code_simp
  then have parts: "cookie_parts (hr_header q) = [''csrf_token=csrf-1'', ''session_id=session-1'']"
    using assms by (simp add: cookie_parts_def)
  have "parse_cookie_part ''csrf_token=csrf-1'' = Some (csrfCookieName, csrfToken)"
    "parse_cookie_part ''session_id=session-1'' = Some (sessionCookieName, sessionID)"
    by code_simp+
  then show "requestCookie q sessionCookieName = Some sessionID" "requestCookie q csrfCookieName = Some csrfToken"
    by (simp_all add: requestCookie_def parts csrfCookieName_def sessionCookieName_def)
qed

lemma request_no_cookies: "mget (hr_header q) ''Cookie'' = None \<Longrightarrow> requestCookie q name = None"
  by (simp add: requestCookie_def cookie_parts_def)

definition session_config_for :: "apiHandler http_runtime \<Rightarrow> apiHandler callHandlerConfig" where
  "session_config_for rt = newCallHandler (sessionOptions (rt_f64 rt))"

lemma login_call:
  assumes rt: "session_runtime rt urlPath" and "posts login ''/login'' body" "rq_csrf login = None"
    and "decodeStrictJSON storeLoginRequest ([], []) body = Inr (''admin@example.test'', ''correct-password'')"
  shows "\<exists>r. callInvoke rt (session_config_for rt) (Some (serveAPI urlPath)) (Some newCookieJar) (RequestPtr login) newAPIHandler =
      (logged_in, Some session_jar, Inr r) \<and> rs_status r = 200"
proof -
  obtain q where q: "buildHTTPRequest rt ''http://api.example.test'' login = Inr q" "hr_method q = ''POST''"
    "urlPath (hr_url q) = ''/login''" "hr_body q = body"
    using posted [OF rt assms(2)] by metis
  have serve: "serveAPI urlPath q newAPIHandler = (logged_in, writeJSON login_header 200
      (JObj [(''user_id'', JStr ''user-1''), (''email'', JStr ''admin@example.test'')]))"
    using q(2-4) assms(4)
    by (simp add: serveAPI_def handleLogin_def decodeLoginRequest_def newAPIHandler_def login_header_def loginResponse_def Let_def)
  have "wf_map login_header" unfolding login_header_eq by code_simp
  moreover have "plain_object [(''user_id'', JStr ''user-1''), (''email'', JStr ''admin@example.test'')]"
    by (simp add: plain_object_def) code_simp
  moreover have "rq_responseBody login = []" using assms(2) by (simp add: posts_def)
  ultimately obtain r where "executeHTTPRequest rt (Some (serveAPI urlPath)) (Some newCookieJar) login q
        (Some (reportBodyNormalizer (rt_f64 rt))) newAPIHandler = (logged_in, Some session_jar, Inr r)" "rs_status r = 200"
    using executed [where serve = "serveAPI urlPath" and q = q and w = newAPIHandler, OF serve, of login rt newCookieJar "rt_f64 rt"]
      login_cookies [OF rt] by auto
  moreover have "attach newCookieJar q = q" by (simp add: attach_def newCookieJar_def mkeys_def)
  ultimately show ?thesis
    using q(1) assms(3) by (auto simp: callInvoke_def session_config_for_def session_config applyCSRFHeader_def Let_def)
qed

text \<open>How the API answers a change of the email, by what the request carries.\<close>

definition update_status :: "requestSpec \<Rightarrow> int" where
  "update_status update =
     (if \<not> rq_useCookies update then 401 else if rq_csrf update = None then 403 else 200)"

lemma update_served:
  assumes "hr_method q = ''POST''" "urlPath (hr_url q) = ''/profile/email''" "hr_body q = body"
    and "decodeStrictJSON (storeString1 ''email'') [] body = Inr email"
  shows "mget (hr_header q) ''Cookie'' = None \<Longrightarrow> serveAPI urlPath q logged_in =
      (logged_in, writeJSON [] 401 (errorResponse ''session cookie is required''))"
    "mget (hr_header q) ''Cookie'' = Some [''csrf_token=csrf-1; session_id=session-1''] \<Longrightarrow>
      serveAPI urlPath q logged_in =
        (if headerGet (hr_header q) csrfHeaderName = csrfToken
         then (newAPIHandler\<lparr>ap_sessions := [(sessionID, (ap_account newAPIHandler)\<lparr>ua_Email := email\<rparr>)]\<rparr>,
               writeJSON [] 200 (meResponse ''user-1'' email True))
         else (logged_in, writeJSON [] 403 (errorResponse ''csrf token is invalid'')))"
proof -
  have serve: "serveAPI urlPath q logged_in = handleProfileEmail q logged_in" using assms(2) by (simp add: serveAPI_def)
  show "serveAPI urlPath q logged_in = (logged_in, writeJSON [] 401 (errorResponse ''session cookie is required''))"
    if "mget (hr_header q) ''Cookie'' = None"
    using assms(1) request_no_cookies [OF that] by (simp add: serve handleProfileEmail_def authenticatedAccount_def)
  show "serveAPI urlPath q logged_in =
        (if headerGet (hr_header q) csrfHeaderName = csrfToken
         then (newAPIHandler\<lparr>ap_sessions := [(sessionID, (ap_account newAPIHandler)\<lparr>ua_Email := email\<rparr>)]\<rparr>,
               writeJSON [] 200 (meResponse ''user-1'' email True))
         else (logged_in, writeJSON [] 403 (errorResponse ''csrf token is invalid'')))"
    if "mget (hr_header q) ''Cookie'' = Some [''csrf_token=csrf-1; session_id=session-1'']"
    using assms(1,3,4) request_cookies [OF that] unfolding serve
    by (simp add: handleProfileEmail_def authenticatedAccount_def validCSRF_def decodeUpdateEmailRequest_def mget_Cons
        newAPIHandler_def Let_def)
qed

text \<open>The email of a payload is valid text, as the decoder leaves it.\<close>

lemma decoded_email_utf8: "decodeStrictJSON (storeString1 ''email'') [] body = Inr email \<Longrightarrow> utf8_ok email"
proof -
  have "storeString1 ''email'' [] raw = Inr s \<Longrightarrow> utf8_ok s" for raw s
    by (auto simp: storeString1_def utf8_ok.simps(1) dest!: store_strings_utf8)
  then show "decodeStrictJSON (storeString1 ''email'') [] body = Inr email \<Longrightarrow> utf8_ok email"
    by (auto simp: decodeStrictJSON_def split: sum.splits)
qed

text \<open>The request to change the email as it is sent: the cookies and the CSRF header the fixture asks for.\<close>

lemma csrf_request:
  assumes q: "wf_map (hr_header q)"
    and none: "\<And>k. \<forall>e \<in> set (rq_headers update). canonicalHeaderKey (fst e) \<noteq> k \<Longrightarrow> mget (hr_header q) k = None"
    and fold: "fold_contract (rt_equalFold rt)"
    and csrf: "rq_csrf update \<in> {None, Some \<lparr>csrf_cookie = csrfCookieName, csrf_header = csrfHeaderName\<rparr>}"
    and plain: "\<forall>e \<in> set (rq_headers update). canonicalHeaderKey (fst e) \<noteq> ''Cookie''"
      "\<not> hasManualHeader rt (rq_headers update) csrfHeaderName"
  obtains p where "applyCSRFHeader rt (attached update (Some session_jar) q) update (Some session_jar) = Inr p" "same_request p q"
    "mget (hr_header p) ''Cookie'' = (if rq_useCookies update then Some [''csrf_token=csrf-1; session_id=session-1''] else None)"
    "headerGet (hr_header p) csrfHeaderName = (if rq_csrf update = None then [] else csrfToken)"
proof -
  let ?a = "attached update (Some session_jar) q"
  note jar = jar_attached [OF q none [OF plain(1)]]
  have keys: "trim_space csrfHeaderName = csrfHeaderName" "trim_space csrfCookieName = csrfCookieName"
    "canonicalHeaderKey csrfHeaderName \<noteq> ''Cookie''" "csrfHeaderName \<noteq> []" "csrfCookieName \<noteq> []"
    by code_simp+
  have csrf_none: "mget (hr_header q) (canonicalHeaderKey csrfHeaderName) = None"
  proof (rule none, rule ballI)
    fix e assume "e \<in> set (rq_headers update)"
    then show "canonicalHeaderKey (fst e) \<noteq> canonicalHeaderKey csrfHeaderName"
      using manual_header_detected [OF fold, of "fst e" "snd e" "rq_headers update" csrfHeaderName] plain(2) keys(1) by auto
  qed
  show thesis
  proof (cases "rq_csrf update")
    case None
    then have "applyCSRFHeader rt ?a update (Some session_jar) = Inr ?a" by (simp add: applyCSRFHeader_def)
    moreover have "headerGet (hr_header ?a) csrfHeaderName = []"
      using jar(2) [OF keys(3)] csrf_none by (simp add: headerGet_def attached_def)
    ultimately show thesis
      using that [of ?a] jar(1,4) none [OF plain(1)] None by (simp add: attached_def)
  next
    case (Some c)
    let ?p = "headerSet csrfHeaderName csrfToken ?a"
    have c: "c = \<lparr>csrf_cookie = csrfCookieName, csrf_header = csrfHeaderName\<rparr>" using Some csrf by simp
    have "cookieValue session_jar csrfCookieName = Some csrfToken" by code_simp
    then have "applyCSRFHeader rt ?a update (Some session_jar) = Inr ?p"
      using Some plain(2) keys by (simp add: applyCSRFHeader_def c Let_def)
    moreover have "wf_map (hr_header ?a)" using jar(3) q by (simp add: attached_def)
    ultimately show thesis
      using that [of ?p] jar(1,4) none [OF plain(1)] keys(3) Some by (simp add: attached_def headerSet_get headerGet_def)
  qed
qed

lemma update_call:
  assumes rt: "session_runtime rt urlPath"
    and update: "posts update ''/profile/email'' body'" "decodeStrictJSON (storeString1 ''email'') [] body' = Inr email"
      "rq_csrf update \<in> {None, Some \<lparr>csrf_cookie = csrfCookieName, csrf_header = csrfHeaderName\<rparr>}"
    and plain: "\<forall>e \<in> set (rq_headers update). canonicalHeaderKey (fst e) \<noteq> ''Cookie''"
      "\<not> hasManualHeader rt (rq_headers update) csrfHeaderName"
    and m: "m = (if update_status update = 200
      then [(''user_id'', JStr ''user-1''), (''email'', JStr email), (''authenticated'', JBool True)]
      else [(''error'', JStr (if update_status update = 401 then ''session cookie is required'' else ''csrf token is invalid''))])"
    and api: "api = (if update_status update = 200
      then newAPIHandler\<lparr>ap_sessions := [(sessionID, (ap_account newAPIHandler)\<lparr>ua_Email := email\<rparr>)]\<rparr> else logged_in)"
  shows "\<exists>jar r. callInvoke rt (session_config_for rt) (Some (serveAPI urlPath)) (Some session_jar) (RequestPtr update) logged_in =
    (api, jar, Inr r) \<and> rs_status r = update_status update \<and> rs_body r = DecodedBody (JObj (mcopy [] m))"
proof -
  obtain q where q: "buildHTTPRequest rt ''http://api.example.test'' update = Inr q" "hr_method q = ''POST''"
    "urlPath (hr_url q) = ''/profile/email''" "hr_body q = body'" "wf_map (hr_header q)"
    and none: "\<And>k. \<forall>e \<in> set (rq_headers update). canonicalHeaderKey (fst e) \<noteq> k \<Longrightarrow> mget (hr_header q) k = None"
    using posted [OF rt update(1)] by metis
  have fold: "fold_contract (rt_equalFold rt)" using rt unfolding session_runtime_def by blast
  obtain p where p: "applyCSRFHeader rt (attached update (Some session_jar) q) update (Some session_jar) = Inr p" "same_request p q"
    and cookies: "mget (hr_header p) ''Cookie'' =
      (if rq_useCookies update then Some [''csrf_token=csrf-1; session_id=session-1''] else None)"
    and token: "headerGet (hr_header p) csrfHeaderName = (if rq_csrf update = None then [] else csrfToken)"
    using csrf_request [OF q(5) none fold update(3) plain] by blast
  have served: "hr_method p = ''POST''" "urlPath (hr_url p) = ''/profile/email''" "hr_body p = body'"
    using p(2) q(2-4) by (simp_all add: same_request_def)
  note serve = update_served [where urlPath = urlPath, OF served update(2)]
  have "csrfToken \<noteq> []" by code_simp
  then have answer: "serveAPI urlPath p logged_in = (api, writeJSON [] (update_status update) (JObj m))"
    using serve cookies token by (auto simp: update_status_def m api errorResponse_def meResponse_def)
  have ascii: "utf8_ok ''user_id''" "utf8_ok ''user-1''" "utf8_ok ''email''" "utf8_ok ''authenticated''" "utf8_ok ''error''"
    "utf8_ok ''session cookie is required''" "utf8_ok ''csrf token is invalid''" by code_simp+
  have "plain_object m" using decoded_email_utf8 [OF update(2)] ascii by (auto simp: plain_object_def m)
  moreover have "rq_responseBody update = []" using update(1) by (simp add: posts_def)
  ultimately obtain r2 where r2: "executeHTTPRequest rt (Some (serveAPI urlPath)) (Some session_jar) update p
      (Some (reportBodyNormalizer (rt_f64 rt))) logged_in =
        (api, Some (storeCookies session_jar (rt_setCookies rt (mput contentTypeHeader [jsonContentType] []))), Inr r2)"
    "rs_status r2 = update_status update" "rs_body r2 = DecodedBody (JObj (mcopy [] m))"
    using executed [where serve = "serveAPI urlPath" and q = p and w = logged_in, OF answer, of update rt session_jar "rt_f64 rt"]
    by auto
  have "callInvoke rt (session_config_for rt) (Some (serveAPI urlPath)) (Some session_jar) (RequestPtr update) logged_in =
      (api, Some (storeCookies session_jar (rt_setCookies rt (mput contentTypeHeader [jsonContentType] []))), Inr r2)"
    using q(1) p(1) r2(1) by (simp add: callInvoke_def session_config_for_def session_config attached_def Let_def)
  then show ?thesis using r2(2,3) by blast
qed

text \<open>
  C26: A session against the API, through the preset handler: after a login with the right credentials, a
  request to change the email succeeds exactly when its fixture attaches the cookies of the jar and
  copies the CSRF cookie into the header; then the session holds the new email and the response shows
  it.  Without cookies the request is not authenticated, without the CSRF setting it is forbidden, and
  the session stays as it was.
\<close>

theorem session_case:
  assumes rt: "session_runtime rt urlPath"
    and login: "posts login ''/login'' body" "rq_csrf login = None"
      "decodeStrictJSON storeLoginRequest ([], []) body = Inr (''admin@example.test'', ''correct-password'')"
    and update: "posts update ''/profile/email'' body'" "decodeStrictJSON (storeString1 ''email'') [] body' = Inr email"
      "rq_csrf update \<in> {None, Some \<lparr>csrf_cookie = csrfCookieName, csrf_header = csrfHeaderName\<rparr>}"
    and plain: "\<forall>e \<in> set (rq_headers update). canonicalHeaderKey (fst e) \<noteq> ''Cookie''"
      "\<not> hasManualHeader rt (rq_headers update) csrfHeaderName"
  shows "\<exists>api jar r1 api' jar' r2.
    callInvoke rt (session_config_for rt) (Some (serveAPI urlPath)) (Some newCookieJar) (RequestPtr login) newAPIHandler =
      (api, Some jar, Inr r1) \<and> rs_status r1 = 200 \<and>
    callInvoke rt (session_config_for rt) (Some (serveAPI urlPath)) (Some jar) (RequestPtr update) api = (api', jar', Inr r2) \<and>
    rs_status r2 = update_status update \<and>
    (if update_status update = 200
     then map_option ua_Email (mget (ap_sessions api') sessionID) = Some email \<and>
       rs_body r2 = DecodedBody (JObj (mcopy [] [(''user_id'', JStr ''user-1''), (''email'', JStr email), (''authenticated'', JBool True)]))
     else api' = api)"
proof -
  obtain r1 where "callInvoke rt (session_config_for rt) (Some (serveAPI urlPath)) (Some newCookieJar) (RequestPtr login) newAPIHandler =
      (logged_in, Some session_jar, Inr r1)" "rs_status r1 = 200"
    using login_call [OF rt login] by blast
  moreover note update_call [OF rt update plain refl refl]
  ultimately show ?thesis by (fastforce simp: mget_Cons)
qed

text \<open>The case \<open>profile_email_update_csrf_ok.jsonc\<close>.\<close>

definition session_cookie_line :: "string \<Rightarrow> httpCookie option" where
  "session_cookie_line = map_of [(setCookieString sessionCookie, sessionCookie), (setCookieString csrfCookie, csrfCookie)]"

definition sample_runtime :: "apiHandler http_runtime" where
  "sample_runtime = \<lparr>rt_parseURL = (\<lambda>s. Inr plain_url), rt_urlString = ur_path, rt_newRequest = (\<lambda>m u. Inr ''h''),
     rt_equalFold = (\<lambda>a b. map to_lower a = map to_lower b), rt_order = (\<lambda>m. m),
     rt_setCookies = (\<lambda>h. case mget h ''Set-Cookie'' of None \<Rightarrow> [] | Some lines \<Rightarrow> List.map_filter session_cookie_line lines),
     rt_f64 = (\<lambda>l. Inr l)\<rparr>"

lemma sample_session_runtime: "session_runtime sample_runtime (\<lambda>u. u)"
proof -
  have "rt_equalFold sample_runtime = rt_equalFold plain_runtime" by (simp add: sample_runtime_def plain_runtime_def)
  then have "fold_contract (rt_equalFold sample_runtime)" using plain_fold by simp
  moreover have "setCookieString sessionCookie \<noteq> setCookieString csrfCookie" by code_simp
  then have "session_cookie_line (setCookieString sessionCookie) = Some sessionCookie"
    "session_cookie_line (setCookieString csrfCookie) = Some csrfCookie"
    by (simp_all add: session_cookie_line_def)
  moreover have "rt_setCookies sample_runtime h = (case mget h ''Set-Cookie'' of None \<Rightarrow> []
      | Some lines \<Rightarrow> List.map_filter session_cookie_line lines)" for h
    by (simp add: sample_runtime_def)
  ultimately show ?thesis unfolding session_runtime_def by (auto simp: sample_runtime_def plain_url_def)
qed

definition sample_login :: requestSpec where
  "sample_login = zeroRequest\<lparr>rq_method := ''POST'', rq_path := ''/login'',
     rq_body := ''{\"email\":\"admin@example.test\",\"password\":\"correct-password\"}''\<rparr>"

definition sample_update :: requestSpec where
  "sample_update = zeroRequest\<lparr>rq_method := ''POST'', rq_path := ''/profile/email'', rq_useCookies := True,
     rq_csrf := Some \<lparr>csrf_cookie = csrfCookieName, csrf_header = csrfHeaderName\<rparr>,
     rq_headers := [(''Content-Type'', ''application/json'')], rq_body := ''{\"email\":\"operator@example.test\"}''\<rparr>"

theorem session_case_witness:
  "\<exists>api jar api' jar' r. callInvoke sample_runtime (session_config_for sample_runtime) (Some (serveAPI (\<lambda>u. u))) (Some jar)
      (RequestPtr sample_update) api = (api', jar', Inr r) \<and>
    rs_status r = 200 \<and> map_option ua_Email (mget (ap_sessions api') sessionID) = Some ''operator@example.test''"
proof -
  have login: "posts sample_login ''/login'' (rq_body sample_login)" "rq_csrf sample_login = None"
    "decodeStrictJSON storeLoginRequest ([], []) (rq_body sample_login) = Inr (''admin@example.test'', ''correct-password'')"
    by code_simp+
  have update: "posts sample_update ''/profile/email'' (rq_body sample_update)"
    "decodeStrictJSON (storeString1 ''email'') [] (rq_body sample_update) = Inr ''operator@example.test''"
    "\<forall>e \<in> set (rq_headers sample_update). canonicalHeaderKey (fst e) \<noteq> ''Cookie''"
    "\<not> hasManualHeader sample_runtime (rq_headers sample_update) csrfHeaderName"
    by code_simp+
  have csrf: "rq_csrf sample_update \<in> {None, Some \<lparr>csrf_cookie = csrfCookieName, csrf_header = csrfHeaderName\<rparr>}"
    and "update_status sample_update = 200"
    by (simp_all add: sample_update_def update_status_def)
  then show ?thesis
    using session_case [OF sample_session_runtime login update(1,2) csrf update(3,4)] by force
qed

end
