(* ===== verification/OutboundExample.thy ===== *)
theory OutboundExample
  imports ItestHandlers KafkaSuite ExampleKit
begin

text \<open>
  The publisher \<open>queue/outbound\<close> below \<open>docs/itestkit/examples\<close>: its action handler, which publishes an event
  through the Kafka harness, its registry, status codec and harness, and the case that plans, sends,
  awaits and verifies one event.
\<close>

section \<open>Status codec\<close>

definition outboundStatusOK :: string where "outboundStatusOK = ''OK''"
definition outboundStatusError :: string where "outboundStatusError = ''ERROR''"

definition outboundStatusCodec :: "string statusCodec" where
  "outboundStatusCodec = \<lparr>
     sc_parse = (\<lambda>raw.
       let normalized = to_upper_names (trim_space raw) in
       if normalized = outboundStatusOK then Inr outboundStatusOK
       else if normalized = outboundStatusError then Inr outboundStatusError
       else Inl (Errorf ''unsupported status %q'' [AStr raw])),
     sc_success = outboundStatusOK\<rparr>"

text \<open>The inspector is asked about errors only; \<open>text\<close> gives the text of an error.\<close>

definition outboundErrorInspector :: "(err \<Rightarrow> string) \<Rightarrow> string errorInspector" where
  "outboundErrorInspector text e = Some (outboundStatusError, text e)"

section \<open>The action handler\<close>

record sendOrderEventRequest =
  so_Topic :: string
  so_OrderID :: string
  so_Status :: string
  so_Headers :: "string gomap"

record sendOrderEventResponse =
  sv_Published :: bool
  sv_Topic :: string
  sv_OrderID :: string

text \<open>What the handler meets behind \<open>any\<close>; a value of another type is known by the name of its type.\<close>

datatype sendValue =
    SendRequestPtr sendOrderEventRequest
  | SendResponsePtr sendOrderEventResponse
  | OtherSendValue string

fun send_type :: "sendValue \<Rightarrow> string" where
  "send_type (SendRequestPtr _) = ''*kafkaoutbound.sendOrderEventRequest''"
| "send_type (SendResponsePtr _) = ''*kafkaoutbound.sendOrderEventResponse''"
| "send_type (OtherSendValue t) = t"

definition storeSendRequest :: "sendOrderEventRequest \<Rightarrow> string \<Rightarrow> sendOrderEventRequest result" where
  "storeSendRequest v raw =
     rbind (decode_struct [''topic'', ''order_id'', ''status'', ''headers''] raw) (\<lambda>ms.
     rbind (store_all store_string (so_Topic v) (field_values ms ''topic'')) (\<lambda>t.
     rbind (store_all store_string (so_OrderID v) (field_values ms ''order_id'')) (\<lambda>i.
     rbind (store_all store_string (so_Status v) (field_values ms ''status'')) (\<lambda>s.
     rbind (store_all store_string_map (so_Headers v) (field_values ms ''headers'')) (\<lambda>h.
     Inr \<lparr>so_Topic = t, so_OrderID = i, so_Status = s, so_Headers = h\<rparr>)))))"

definition storeSendResponse :: "sendOrderEventResponse \<Rightarrow> string \<Rightarrow> sendOrderEventResponse result" where
  "storeSendResponse v raw =
     rbind (decode_struct [''published'', ''topic'', ''order_id''] raw) (\<lambda>ms.
     rbind (store_all store_bool (sv_Published v) (field_values ms ''published'')) (\<lambda>p.
     rbind (store_all store_string (sv_Topic v) (field_values ms ''topic'')) (\<lambda>t.
     rbind (store_all store_string (sv_OrderID v) (field_values ms ''order_id'')) (\<lambda>i.
     Inr \<lparr>sv_Published = p, sv_Topic = t, sv_OrderID = i\<rparr>))))"

definition sendDecodeRequest :: "string \<Rightarrow> sendValue result" where
  "sendDecodeRequest raw =
     rbind (wrapDecode ''SendOrderEvent request'' storeSendRequest
              \<lparr>so_Topic = [], so_OrderID = [], so_Status = [], so_Headers = []\<rparr> raw) (\<lambda>request.
     rbind (ensure (so_Topic request \<noteq> []) (Err ''field topic is required'')) (\<lambda>_.
     rbind (ensure (so_OrderID request \<noteq> []) (Err ''field order_id is required'')) (\<lambda>_.
     rbind (ensure (so_Status request \<noteq> []) (Err ''field status is required'')) (\<lambda>_.
     Inr (SendRequestPtr request)))))"

definition sendDecodeExpectedResponse :: "string \<Rightarrow> sendValue result" where
  "sendDecodeExpectedResponse raw =
     rbind (wrapDecode ''SendOrderEvent response'' storeSendResponse \<lparr>sv_Published = False, sv_Topic = [], sv_OrderID = []\<rparr> raw)
       (\<lambda>response. Inr (SendResponsePtr response))"

text \<open>The event, with the keys in the order in which \<open>json.Marshal\<close> writes a map.\<close>

definition event_payload :: "sendOrderEventRequest \<Rightarrow> json" where
  "event_payload request = JObj [(''event'', JStr ''created''), (''order_id'', JStr (so_OrderID request)),
     (''status'', JStr (so_Status request))]"

text \<open>\<^const>\<open>None\<close> where the call panics, as in \<^const>\<open>publishRaw\<close>.\<close>

definition sendInvoke ::
    "'w kafka_env \<Rightarrow> sendValue \<Rightarrow> 'w \<times> 'w harness \<Rightarrow> (('w \<times> 'w harness) \<times> sendValue result) option" where
  "sendInvoke env request s =
     (case request of
        SendRequestPtr typedRequest \<Rightarrow>
          map_option (\<lambda>(w, e).
              ((w, snd s),
               case e of
                 Some e \<Rightarrow> Inl e
               | None \<Rightarrow> Inr (SendResponsePtr \<lparr>sv_Published = True,
                   sv_Topic = resolveTopic (hn_caseNamespace (snd s)) (so_Topic typedRequest), sv_OrderID = so_OrderID typedRequest\<rparr>)))
            (publishJSON env (snd s) (so_Topic typedRequest) None (so_Headers typedRequest)
               (json_marshal (event_payload typedRequest)) (fst s))
      | _ \<Rightarrow> Some (s, Inl (Errorf ''SendOrderEvent received invalid request type: %T'' [AStr (send_type request)])))"

definition sendNormalizeResponse :: "sendValue \<Rightarrow> sendValue result" where
  "sendNormalizeResponse response = Inr response"

section \<open>Registry and harness\<close>

datatype sendHandler = SendOrderEventHandler

definition newSendRegistry :: "sendHandler registered mapRegistry" where
  "newSendRegistry = newOutboundRegistry [(''SendOrderEvent'', SendOrderEventHandler)]"

lemma send_resolve:
  "mapRegistryResolve newSendRegistry ''PlanOutbound'' = Inr (Preset PlanOutboundHandler)"
  "mapRegistryResolve newSendRegistry ''SendOrderEvent'' = Inr (Custom SendOrderEventHandler)"
  "mapRegistryResolve newSendRegistry ''AwaitOutbound'' = Inr (Preset AwaitOutboundHandler)"
  "mapRegistryResolve newSendRegistry ''VerifyOutbound'' = Inr (Preset VerifyOutboundHandler)"
  "mapRegistryResolve newSendRegistry ''CleanupBroker'' = Inr (Preset CleanupBrokerHandler)"
  by code_simp+

text \<open>
  The suite is that of the Kafka package; \<open>producer\<close> is the client library's, as in \<^const>\<open>newHarness\<close>, and
  \<open>name\<close> is the name of the test.  \<open>require.NoError\<close> ends the case with the error.
\<close>

definition setupOutboundSuite :: "('w, 'c) kafkaContainers \<Rightarrow> 'w \<Rightarrow> 'w \<times> 'c kafkaSuite result" where
  "setupOutboundSuite = startSuite"

definition teardownOutboundSuite ::
    "('w, 'c) kafkaContainers \<Rightarrow> 'c kafkaSuite option \<Rightarrow> 'w \<Rightarrow> 'w \<times> 'c kafkaSuite option \<times> err option" where
  "teardownOutboundSuite lib suite w = (case suite of None \<Rightarrow> (w, suite, None) | Some _ \<Rightarrow> suiteClose lib suite w)"

definition newOutboundHarness :: "'c kafkaSuite option \<Rightarrow> string \<Rightarrow> 'w messageWriter result \<Rightarrow> 'w harness result" where
  "newOutboundHarness suite name producer = suiteNewHarness suite name producer"

section \<open>What comes back from the broker\<close>

lemma event_portable: "utf8_ok (so_OrderID r) \<Longrightarrow> utf8_ok (so_Status r) \<Longrightarrow> portable (event_payload r)"
proof -
  have "utf8_ok ''event''" "utf8_ok ''created''" "utf8_ok ''order_id''" "utf8_ok ''status''" by code_simp+
  moreover have "wf_map [(''event'', x), (''order_id'', y), (''status'', z)]" for x y z :: json
    by (simp add: wf_map_def less_list_code)
  ultimately show "utf8_ok (so_OrderID r) \<Longrightarrow> utf8_ok (so_Status r) \<Longrightarrow> ?thesis" by (simp add: event_payload_def)
qed

lemma sendDecodeRequest_fields:
  assumes "sendDecodeRequest raw = Inr (SendRequestPtr r)"
  shows "utf8_ok (so_OrderID r)" "utf8_ok (so_Status r)" "wf_map (so_Headers r)"
proof -
  obtain t where t: "storeSendRequest \<lparr>so_Topic = [], so_OrderID = [], so_Status = [], so_Headers = []\<rparr> t = Inr r"
    using assms by (auto simp: sendDecodeRequest_def wrapDecode_def decodeStrictJSON_def split: sum.splits)
  then obtain i s h where "store_all store_string [] i = Inr (so_OrderID r)" "store_all store_string [] s = Inr (so_Status r)"
    "store_all store_string_map [] h = Inr (so_Headers r)"
    by (auto simp: storeSendRequest_def)
  then show "utf8_ok (so_OrderID r)" "utf8_ok (so_Status r)" "wf_map (so_Headers r)"
    using store_strings_utf8 [of "[]"] store_all_inv [of wf_map store_string_map "[]"] store_string_map_wf
    by (auto simp: utf8_ok.simps(1))
qed

lemma event_decoded:
  assumes "portable (event_payload r)"
  shows "decodeStrictJSONAny (json_enc (event_payload r)) = Inr (event_payload r)"
proof -
  have "json_decode [] = Inl DecEOF" by (simp add: json_decode_def skip_space_def)
  then show ?thesis
    using json_enc_not_blank [OF assms] json_roundtrip [OF assms] by (simp add: decodeStrictJSONAny_def)
qed

text \<open>Whether the event of a request fulfils an expectation, in terms of the two fixtures.\<close>

definition event_fits :: "outbound_expectation \<Rightarrow> sendOrderEventRequest \<Rightarrow> bool" where
  "event_fits e r \<longleftrightarrow> oe_topic e = trim_space (so_Topic r) \<and> oe_key e = None \<and>
     (oe_headers e \<noteq> [] \<longrightarrow> headers_sat (so_Headers r) (oe_headers e) (oe_headersMode e)) \<and>
     (hasRawJSON (oe_payload e) \<longrightarrow> decodeStrictJSONAny (oe_payload e) = Inr (event_payload r)) \<and>
     (hasRawJSON (oe_payloadSubset e) \<longrightarrow>
        (\<exists>part. decodeStrictJSONAny (oe_payloadSubset e) = Inr (JObj part) \<and> json_sub (JObj part) (event_payload r)))"

section \<open>The verdicts on a single message\<close>

lemma and_then_ok: "is_ok r \<Longrightarrow> is_ok s \<Longrightarrow> is_ok (and_then r s)"
  by (cases r; cases s) (auto simp: and_then_def)

text \<open>A message whose payload is JSON can be compared with every plan.\<close>

lemma matches_decodes:
  assumes "normal_expectation e" "decodeStrictJSONAny (msg_payload m) = Inr j"
  shows "is_ok (matchesExpectation m e)"
proof -
  have "is_ok (matchesPayloadExact (msg_payload m) (oe_payload e))" if "hasRawJSON (oe_payload e)"
    using assms that
    by (auto simp: normal_expectation_def validateExpectationPayloads_def validateExpectationPayload_def Let_def
        matchesPayloadExact_def cmp_diff_def split: if_splits sum.splits)
  moreover have "is_ok (matchesPayloadSubset (msg_payload m) (oe_payloadSubset e))" if "hasRawJSON (oe_payloadSubset e)"
    using assms that
    by (auto simp: normal_expectation_def validateExpectationPayloads_def validateExpectationPayloadSubset_def Let_def
        matchesPayloadSubset_def split: if_splits sum.splits json.splits)
  ultimately show ?thesis unfolding matchesExpectation_def by (intro and_then_ok) auto
qed

lemma single_message:
  assumes "normal_expectation e" "decodeStrictJSONAny (msg_payload m) = Inr j"
  defines "fits \<equiv> msg_topic m = oe_topic e \<and> message_sat m e"
  shows "await_spec e [m] expired \<longleftrightarrow> (if oe_expectedCount e = 0 then \<not> fits \<and> expired else oe_expectedCount e = 1 \<and> fits)"
    and "verify_spec e [m] \<longleftrightarrow> oe_expectedCount e = (if fits then 1 else 0)"
proof -
  have c: "comparable e [m]" using matches_decodes [OF assms(1,2)] by (simp add: comparable_def on_topic_def)
  have sat: "satisfying e [m] = (if fits then [m] else [])" by (simp add: satisfying_def on_topic_def fits_def)
  have "0 \<le> oe_expectedCount e" using assms(1) by (simp add: normal_expectation_def)
  then show "await_spec e [m] expired \<longleftrightarrow> (if oe_expectedCount e = 0 then \<not> fits \<and> expired else oe_expectedCount e = 1 \<and> fits)"
    using c sat by (auto simp: await_spec_def)
  show "verify_spec e [m] \<longleftrightarrow> oe_expectedCount e = (if fits then 1 else 0)"
    using c sat by (auto simp: verify_spec_def on_topic_def fits_def)
qed

text \<open>The message of the event, as it is observed.\<close>

definition event_message :: "string \<Rightarrow> sendOrderEventRequest \<Rightarrow> int \<Rightarrow> queue_message" where
  "event_message namespace r offset = \<lparr>msg_topic = resolveTopic namespace (so_Topic r), msg_key = None,
     msg_headers = so_Headers r, msg_payload = json_enc (event_payload r), msg_offset = offset\<rparr>"

lemma event_fits_message:
  assumes "normal_expectation e" "portable (event_payload r)"
  shows "msg_topic (event_message ns r offset) = oe_topic (e\<lparr>oe_topic := resolveTopic ns (oe_topic e)\<rparr>) \<and>
      message_sat (event_message ns r offset) (e\<lparr>oe_topic := resolveTopic ns (oe_topic e)\<rparr>) \<longleftrightarrow> event_fits e r"
proof -
  have "trim_space (oe_topic e) = oe_topic e" using assms(1) by (simp add: normal_expectation_def)
  moreover obtain part where "event_payload r = JObj part" by (simp add: event_payload_def)
  ultimately show ?thesis
    using event_decoded [OF assms(2)]
    by (auto simp: event_message_def event_fits_def message_sat_def resolveTopic_inject payload_sat_def payload_subset_sat_def
        simp del: json_sub.simps)
qed

text \<open>What is awaited and verified when the messages read are none, or the event alone.\<close>

lemma sent_verdicts:
  assumes "normal_expectation e" "portable (event_payload r)" "topic_name ns"
    and "ms = [] \<or> (\<exists>offset. ms = [event_message ns r offset])"
  defines "p \<equiv> e\<lparr>oe_topic := resolveTopic ns (oe_topic e)\<rparr>"
  shows "await_spec p ms expired \<longleftrightarrow>
      (if oe_expectedCount e = 0 then \<not> (event_fits e r \<and> ms \<noteq> []) \<and> expired
       else oe_expectedCount e = 1 \<and> event_fits e r \<and> ms \<noteq> [])"
    and "verify_spec p ms \<longleftrightarrow> oe_expectedCount e = (if event_fits e r \<and> ms \<noteq> [] then 1 else 0)"
proof -
  have p: "normal_expectation p" unfolding p_def by (rule normal_resolved [OF assms(1,3)])
  have fits: "msg_topic (event_message ns r offset) = oe_topic p \<and> message_sat (event_message ns r offset) p \<longleftrightarrow> event_fits e r" for offset
    unfolding p_def by (rule event_fits_message [OF assms(1,2)])
  have c: "oe_expectedCount p = oe_expectedCount e" "0 \<le> oe_expectedCount e"
    using assms(1) by (simp_all add: p_def normal_expectation_def)
  have "decodeStrictJSONAny (msg_payload (event_message ns r offset)) = Inr (event_payload r)" for offset
    using event_decoded [OF assms(2)] by (simp add: event_message_def)
  note one = single_message [OF p this, unfolded fits c(1)]
  have none: "await_spec p [] expired \<longleftrightarrow> oe_expectedCount e = 0 \<and> expired" "verify_spec p [] \<longleftrightarrow> oe_expectedCount e = 0"
    using c by (auto simp: await_spec_def verify_spec_def comparable_def satisfying_def on_topic_def)
  show "await_spec p ms expired \<longleftrightarrow>
      (if oe_expectedCount e = 0 then \<not> (event_fits e r \<and> ms \<noteq> []) \<and> expired
       else oe_expectedCount e = 1 \<and> event_fits e r \<and> ms \<noteq> [])"
    using assms(4) one none by auto
  show "verify_spec p ms \<longleftrightarrow> oe_expectedCount e = (if event_fits e r \<and> ms \<noteq> [] then 1 else 0)"
    using assms(4) one none by auto
qed

section \<open>Sending and checking\<close>

text \<open>
  What sending does, for any behaviour of the broker: the topic is made sure of, then one message, the
  event, is written; an error of either is reported, and nothing is written after an error of the first.
\<close>

definition send_result ::
    "'w kafka_env \<Rightarrow> 'w messageWriter \<Rightarrow> string \<Rightarrow> harnessMessage \<Rightarrow> sendOrderEventResponse \<Rightarrow> 'w \<Rightarrow> 'w \<times> sendValue result" where
  "send_result env writer topic message response w =
     (case ke_ensureTopic env topic w of
        (w1, Some e) \<Rightarrow> (w1, Inl (Errorf ''ensure topic %q: %w'' [AStr topic, AErr e]))
      | (w1, None) \<Rightarrow>
          (case mw_writeMessages writer [message] w1 of
             (w2, Some e) \<Rightarrow> (w2, Inl (Errorf ''write kafka message: %w'' [AErr e]))
           | (w2, None) \<Rightarrow> (w2, Inr (SendResponsePtr response))))"

lemma event_sent:
  assumes perm: "\<And>hs. mset (ke_order env hs) = mset hs" and "hn_writer h = Some writer"
    and "portable (event_payload r)" "wf_map (so_Headers r)" "resolveTopic (hn_caseNamespace h) (so_Topic r) \<noteq> []"
  shows "\<exists>message. (\<forall>offset. mapFromKafkaMessage (message\<lparr>hm_offset := offset\<rparr>) = event_message (hn_caseNamespace h) r offset) \<and>
    (\<forall>w. sendInvoke env (SendRequestPtr r) (w, h) =
       Some (let (w', response) = send_result env writer (resolveTopic (hn_caseNamespace h) (so_Topic r)) message
             \<lparr>sv_Published = True, sv_Topic = resolveTopic (hn_caseNamespace h) (so_Topic r), sv_OrderID = so_OrderID r\<rparr> w
           in ((w', h), response)))"
proof -
  let ?t = "resolveTopic (hn_caseNamespace h) (so_Topic r)"
  let ?m = "\<lparr>hm_topic = ?t, hm_key = [], hm_value = json_enc (event_payload r),
    hm_headers = mapToKafkaHeaders (ke_order env) (kafkaCloneHeaders (so_Headers r)), hm_offset = 0\<rparr>"
  have "json_marshal (event_payload r) = Inr (json_enc (event_payload r))"
    using portable_encodable [OF assms(3)] by (simp add: json_marshal_def)
  then have "sendInvoke env (SendRequestPtr r) (w, h) = Some (let (w', response) = send_result env writer ?t ?m
      \<lparr>sv_Published = True, sv_Topic = ?t, sv_OrderID = so_OrderID r\<rparr> w in ((w', h), response))" for w
    using assms(2,5)
    by (simp add: sendInvoke_def send_result_def publishJSON_def publishRaw_def cloneOptionalStringAsBytes_def Let_def
        split: prod.split option.split)
  moreover have "mapFromKafkaMessage (?m\<lparr>hm_offset := offset\<rparr>) = event_message (hn_caseNamespace h) r offset" for offset
  proof -
    have same: "kafkaCloneHeaders (so_Headers r) = so_Headers r"
      using assms(4) by (simp add: kafkaCloneHeaders_def mcopy_self)
    have "ke_order env [] = []" using perm [of "[]"] by simp
    then show ?thesis
      using headers_any_order [OF assms(4) perm] perm
      by (auto simp: mapFromKafkaMessage_def event_message_def same mapToKafkaHeaders_def headers_back)
  qed
  ultimately show ?thesis by blast
qed

text \<open>
  With a plan and its reader, an await step and a verify step after it look at the messages of their
  two polls, whatever happens in between; both steps ask the run time only for the end of the window.
\<close>

lemma planned_checks:
  assumes "harness_inv h" "hn_plan h = Some p" "hn_reader h = Some reader" "hn_observed h = []"
    and "polls reader w2 d1 w3 f1" "polls reader w4 d2 w5 f2"
  shows "\<exists>h2 r2 s3 r3. invoke AwaitOutboundHandler (kafkaOutbound env) EmptyRequestPtr (w2, h) = Some ((w3, h2), r2) \<and>
    (is_ok r2 \<longleftrightarrow> f1 = None \<and> await_spec p (map mapFromKafkaMessage d1) (ke_windowExpired env w3)) \<and>
    invoke VerifyOutboundHandler (kafkaOutbound env) EmptyRequestPtr (w4, h2) = Some (s3, r3) \<and>
    (is_ok r3 \<longleftrightarrow> f2 = None \<and> verify_spec p (map mapFromKafkaMessage (d1 @ d2)))"
proof -
  let ?o1 = "map mapFromKafkaMessage d1" and ?o2 = "map mapFromKafkaMessage (d1 @ d2)"
  let ?h2 = "h\<lparr>hn_observed := ?o1\<rparr>"
  let ?await = "\<lambda>w p observed. EvaluateAwait p observed (ke_windowExpired env w)"
  have c1: "checkOutbound ?await h w2 = Some (w3, ?h2,
      case f1 of Some e \<Rightarrow> (zero_result, Some e) | None \<Rightarrow> apfst (normalizeResultTopics h) (?await w3 p ?o1))"
    and n: "normal_expectation p" "wf_messages ?o1"
    using checkOutbound_polls [OF assms(1-3,5), of ?o1 ?await] assms(4) by simp_all
  have inv: "harness_inv ?h2" using assms(1) n(2) by (simp add: harness_inv_def)
  have c2: "checkOutbound (\<lambda>w p observed. EvaluateVerify p observed) ?h2 w4 = Some (w5, ?h2\<lparr>hn_observed := ?o2\<rparr>,
      case f2 of Some e \<Rightarrow> (zero_result, Some e) | None \<Rightarrow> apfst (normalizeResultTopics ?h2) (EvaluateVerify p ?o2))"
    and n2: "wf_messages ?o2"
    using checkOutbound_polls [OF inv _ _ assms(6), of p ?o2] assms(2,3) by simp_all
  have "\<exists>r2. invoke AwaitOutboundHandler (kafkaOutbound env) EmptyRequestPtr (w2, h) = Some ((w3, ?h2), r2) \<and>
      (is_ok r2 \<longleftrightarrow> f1 = None \<and> await_spec p ?o1 (ke_windowExpired env w3))"
    using c1 await_correct [OF n, of "ke_windowExpired env w3"]
    by (cases f1; cases "EvaluateAwait p ?o1 (ke_windowExpired env w3)")
       (auto simp: awaitInvoke_def checkInvoke_def kafkaOutbound_def awaitOutbound_def split: option.splits)
  moreover have "\<exists>s3 r3. invoke VerifyOutboundHandler (kafkaOutbound env) EmptyRequestPtr (w4, ?h2) = Some (s3, r3) \<and>
      (is_ok r3 \<longleftrightarrow> f2 = None \<and> verify_spec p ?o2)"
    using c2 verify_correct [OF n(1) n2]
    by (cases f2; cases "EvaluateVerify p ?o2")
       (auto simp: verifyInvoke_def checkInvoke_def kafkaOutbound_def verifyOutbound_def split: option.splits)
  ultimately show ?thesis by blast
qed

section \<open>The case\<close>

text \<open>
  C12: a case that plans an expectation, sends one event, awaits and verifies, for any fixtures and any
  broker: the send step writes exactly one message, the event on the topic of the namespace, and
  succeeds exactly when the topic could be made sure of and the message be written
  (\<^const>\<open>send_result\<close>).  When the polls of an await step and of a verify step after it hand out no other
  message than this one, and it at most once, then the await step succeeds exactly when its poll did not
  fail and either one event is expected and the event arrived and fits the expectation, or none is
  expected, none that fits arrived and the window is over; the verify step succeeds exactly when its poll
  did not fail and the expected count is one if the event arrived and fits and zero otherwise.
\<close>

theorem send_case:
  assumes order: "\<And>hs. mset (ke_order env hs) = mset hs"
    and harness: "newOutboundHarness suite name (Inr writer) = Inr h0"
    and plan: "decodeRequest PlanOutboundHandler raw = Inr (ExpectationValue e)"
      "invoke PlanOutboundHandler (kafkaOutbound env) (ExpectationValue e) (w0, h0) = Some ((w1, h1), Inr planned)"
    and send: "sendDecodeRequest raw' = Inr (SendRequestPtr r)" "resolveTopic (hn_caseNamespace h0) (so_Topic r) \<noteq> []"
    and polls: "hn_reader h1 = Some reader" "polls reader w2 d1 w3 f1" "polls reader w4 d2 w5 f2"
      "map mapFromKafkaMessage (d1 @ d2) = [] \<or>
       (\<exists>offset. map mapFromKafkaMessage (d1 @ d2) = [event_message (hn_caseNamespace h0) r offset])"
  shows "(\<exists>message. (\<forall>offset. mapFromKafkaMessage (message\<lparr>hm_offset := offset\<rparr>) = event_message (hn_caseNamespace h0) r offset) \<and>
      (\<forall>w. sendInvoke env (SendRequestPtr r) (w, h1) =
         Some (let (w', response) = send_result env writer (resolveTopic (hn_caseNamespace h0) (so_Topic r)) message
               \<lparr>sv_Published = True, sv_Topic = resolveTopic (hn_caseNamespace h0) (so_Topic r), sv_OrderID = so_OrderID r\<rparr> w
             in ((w', h1), response)))) \<and>
    (\<exists>h3 r3 s4 r4. invoke AwaitOutboundHandler (kafkaOutbound env) EmptyRequestPtr (w2, h1) = Some ((w3, h3), r3) \<and>
      (is_ok r3 \<longleftrightarrow> f1 = None \<and>
         (if oe_expectedCount e = 0 then \<not> (event_fits e r \<and> d1 \<noteq> []) \<and> ke_windowExpired env w3
          else oe_expectedCount e = 1 \<and> event_fits e r \<and> d1 \<noteq> [])) \<and>
      invoke VerifyOutboundHandler (kafkaOutbound env) EmptyRequestPtr (w4, h3) = Some (s4, r4) \<and>
      (is_ok r4 \<longleftrightarrow> f2 = None \<and> oe_expectedCount e = (if event_fits e r \<and> d1 @ d2 \<noteq> [] then 1 else 0)))"
proof -
  have new: "newHarness (suiteBrokers suite) name (Inr writer) = Inr h0"
    using harness by (auto simp: newOutboundHarness_def suiteNewHarness_def suiteBrokers_def split: option.splits)
  have h0: "harness_inv h0" "hn_reader h0 = None" "hn_writer h0 = Some writer"
    using newHarness_inv [OF new] new by (auto simp: newHarness_def split: if_splits)
  have name: "topic_name (hn_caseNamespace h0)" using h0(1) by (simp add: harness_inv_def)
  have e: "normal_expectation e" using planDecodeRequest_normal plan(1) by fastforce
  let ?ns = "hn_caseNamespace h0"
  let ?p = "e\<lparr>oe_topic := resolveTopic ?ns (oe_topic e)\<rparr>"
  have planned: "planOutbound env h0 e w0 = (w1, h1, None)"
    using plan(2) by (auto simp: planInvoke_def kafkaOutbound_def split: prod.splits option.splits)
  then obtain reader' where h1: "h1 = h0\<lparr>hn_reader := Some reader', hn_plan := Some ?p, hn_observed := []\<rparr>"
    using h0(2) normal_normalize [OF e]
    by (auto simp: planOutbound_def Let_def split: sum.splits prod.splits option.splits)
  have inv: "harness_inv h1" using planOutbound_inv [OF planned h0(1) normal_wf [OF e]] .
  note fields = sendDecodeRequest_fields [OF send(1)]
  have portable: "portable (event_payload r)" using event_portable fields(1,2) .
  have fields1: "hn_plan h1 = Some ?p" "hn_observed h1 = []" "hn_caseNamespace h1 = ?ns" "hn_writer h1 = Some writer"
    using h1 h0(3) by simp_all
  have ms: "map mapFromKafkaMessage d1 = [] \<or> (\<exists>offset. map mapFromKafkaMessage d1 = [event_message ?ns r offset])"
    using polls(4) by (auto simp: append_eq_Cons_conv)
  have none: "map mapFromKafkaMessage d = [] \<longleftrightarrow> d = []" for d by simp
  show ?thesis
    using event_sent [OF order fields1(4) portable fields(3), unfolded fields1(3), OF send(2)]
      planned_checks [OF inv fields1(1) polls(1) fields1(2) polls(2,3), of env]
    unfolding sent_verdicts(1) [OF e portable name ms] sent_verdicts(2) [OF e portable name polls(4)] none
    by (intro conjI)
qed

text \<open>A case like \<open>outbound_publish_ok.jsonc\<close>, on a broker whose world are the messages that were not read yet.\<close>

definition topic_reader :: "string \<Rightarrow> harnessMessage list messageReader" where
  "topic_reader t = \<lparr>mr_fetchMessage = (\<lambda>w. case filter (\<lambda>m. hm_topic m = t) w of
       [] \<Rightarrow> (w, Inl contextDeadlineExceeded)
     | m # ms \<Rightarrow> (ms @ filter (\<lambda>m. hm_topic m \<noteq> t) w, Inr m)),
     mr_close = (\<lambda>w. (w, None))\<rparr>"

definition topic_env :: "harnessMessage list kafka_env" where
  "topic_env = \<lparr>ke_ensureTopic = (\<lambda>t w. (w, None)),
     ke_newReader = (\<lambda>t w. (filter (\<lambda>m. hm_topic m \<noteq> t) w, Inr (topic_reader t))),
     ke_windowExpired = (\<lambda>w. False), ke_order = rev\<rparr>"

definition order_plan :: string where
  "order_plan = ''{\"topic\":\"o\",\"expected_count\":1,\"payload_subset\":{\"status\":\"new\"}}''"

definition order_expectation :: outbound_expectation where
  "order_expectation = \<lparr>oe_topic = ''o'', oe_key = None, oe_headers = [],
     oe_headersMode = HeadersModeExact, oe_expectedCount = 1, oe_payload = [],
     oe_payloadSubset = ''{\"status\":\"new\"}'', oe_ordering = OrderingAny\<rparr>"

definition order_event :: string where
  "order_event = ''{\"topic\":\"o\",\"order_id\":\"1\",\"status\":\"new\"}''"

definition order_request :: sendOrderEventRequest where
  "order_request = \<lparr>so_Topic = ''o'', so_OrderID = ''1'', so_Status = ''new'', so_Headers = []\<rparr>"

lemma order_plan_decoded:
  "decodeStrictJSON storeExpectation zeroExpectation order_plan = Inr (order_expectation\<lparr>oe_headersMode := [], oe_ordering := []\<rparr>)"
  by code_simp

lemma order_normal: "NormalizeExpectation (order_expectation\<lparr>oe_headersMode := [], oe_ordering := []\<rparr>) = Inr order_expectation"
  by code_simp

lemma order_decoded:
  "decodeRequest PlanOutboundHandler order_plan = Inr (ExpectationValue order_expectation)"
  by (simp add: planDecodeRequest_def order_plan_decoded order_normal)

lemma order_event_decoded: "sendDecodeRequest order_event = Inr (SendRequestPtr order_request)"
  by code_simp

lemma order_fits: "event_fits order_expectation order_request"
proof -
  have "decodeStrictJSONAny (oe_payloadSubset order_expectation) = Inr (JObj [(''status'', JStr ''new'')])"
    "json_sub (JObj [(''status'', JStr ''new'')]) (event_payload order_request)"
    "oe_topic order_expectation = trim_space (so_Topic order_request)" "\<not> hasRawJSON (oe_payload order_expectation)"
    by code_simp+
  moreover have "oe_key order_expectation = None" "oe_headers order_expectation = []" by (simp_all add: order_expectation_def)
  ultimately show ?thesis unfolding event_fits_def by blast
qed

definition order_message :: harnessMessage where
  "order_message = \<lparr>hm_topic = ''n-o'', hm_key = [],
     hm_value = ''{\"event\":\"created\",\"order_id\":\"1\",\"status\":\"new\"}'', hm_headers = [], hm_offset = 7\<rparr>"

definition order_harness :: "harnessMessage list harness" where
  "order_harness = fresh_harness\<lparr>hn_reader := Some (topic_reader ''n-o''),
     hn_plan := Some (order_expectation\<lparr>oe_topic := ''n-o''\<rparr>)\<rparr>"

lemma order_planned:
  "invoke PlanOutboundHandler (kafkaOutbound topic_env) (ExpectationValue order_expectation) ([], fresh_harness) =
     Some (([], order_harness), Inr (PlanResponsePtr \<lparr>por_topic = ''o'', por_expectedCount = 1, por_planned = True\<rparr>))"
proof -
  have t: "resolveTopic ''n'' ''o'' = ''n-o''" by code_simp
  have "planOutbound topic_env fresh_harness order_expectation [] = ([], order_harness, None)"
    using normal_normalize [of order_expectation] planDecodeRequest_normal [of order_plan] order_decoded t
    by (simp add: planOutbound_def topic_env_def fresh_harness_def order_harness_def order_expectation_def Let_def)
  then show ?thesis by (simp add: planInvoke_def kafkaOutbound_def order_expectation_def)
qed

theorem send_case_witness:
  "\<exists>h3 r3 s4 r4. invoke AwaitOutboundHandler (kafkaOutbound topic_env) EmptyRequestPtr ([order_message], order_harness) =
      Some (([], h3), r3) \<and> is_ok r3 \<and>
    invoke VerifyOutboundHandler (kafkaOutbound topic_env) EmptyRequestPtr ([], h3) = Some (s4, r4) \<and> is_ok r4"
proof -
  have fetch: "mr_fetchMessage (topic_reader ''n-o'') [order_message] = ([], Inr order_message)"
    "mr_fetchMessage (topic_reader ''n-o'') [] = ([], Inl contextDeadlineExceeded)"
    by (simp_all add: topic_reader_def order_message_def)
  have none: "polls (topic_reader ''n-o'') [] [] [] None" using polls.waited [OF fetch(2)] by simp
  have one: "polls (topic_reader ''n-o'') [order_message] [order_message] [] None" by (rule polls.fetched [OF fetch(1) none])
  have h: "newOutboundHarness (Some \<lparr>ks_container = Some (), ks_brokers = [''b'']\<rparr>) ''N'' (Inr queue_writer) = Inr fresh_harness"
    by (simp add: newOutboundHarness_def suiteNewHarness_def fresh)
  have t: "resolveTopic (hn_caseNamespace fresh_harness) (so_Topic order_request) \<noteq> []"
    "oe_expectedCount order_expectation = 1"
    "mapFromKafkaMessage order_message = event_message (hn_caseNamespace fresh_harness) order_request 7" by code_simp+
  have d: "map mapFromKafkaMessage ([order_message] @ []) = [] \<or>
      (\<exists>offset. map mapFromKafkaMessage ([order_message] @ []) = [event_message (hn_caseNamespace fresh_harness) order_request offset])"
    using t(3) by auto
  have r: "hn_reader order_harness = Some (topic_reader ''n-o'')" and perm: "\<And>hs. mset (ke_order topic_env hs) = mset hs"
    by (simp_all add: order_harness_def topic_env_def)
  from conjunct2 [OF send_case [OF perm h order_decoded order_planned order_event_decoded t(1) r one none d]]
  show ?thesis using order_fits t(2) by (elim exE conjE) (intro exI conjI, assumption, simp, assumption, simp)
qed

end
