(* ===== verification/Spec2Isabelle.thy ===== *)
theory Spec2Isabelle
  imports Matchers Probe Suite TestCalendar HttpMockHandlers ItestHandlers KafkaSuite HttpServer Grpc Bufconn
    AsyncExample SyncExample QueueExample EchoExample BookingExample RealExample GrpcSyncExample SessionExample OutboundExample
begin

text \<open>
  A verification development for \<open>itestkit\<close>, a Go library that runs integration tests described by
  JSONC files.

  \<^bold>\<open>The program.\<close>  \<open>LoadCases\<close> finds the \<open>.jsonc\<close> files below a directory, strips their comments,
  decodes them strictly and validates them against a registry of handlers and a codec for status
  names; the result is a list of cases.  \<open>RunCases\<close> sets the suite up, runs the cases one after the
  other or in parallel, with or without stopping at the first failure, and tears the suite down.  A
  case is a list of steps.  A step calls its handler with a request, in which templates refer to
  the responses of earlier steps; an await step is retried; after a failure only cleanup steps run.
  The response of one step, or the error of the run, is compared with the assert section of the
  case, exactly or as a template with marker objects.  Handlers are the interface to everything
  else, and the repository brings some: for calls of an HTTP handler under test
  (\<open>httpserver\<close>), for a mock of the HTTP services it calls (\<open>httpmock\<close>), for messages it sends to a broker
  (\<open>queue/itest\<close> over \<open>queue/probe\<close>, with a harness for Kafka in \<open>queue/kafkaproducer\<close>), and the means to
  write handlers for gRPC methods (\<open>grpc\<close>, \<open>grpc/bufconn\<close>).  \<open>testcalendar\<close> replaces date macros in the
  files of a case source.

  \<^bold>\<open>Theories and sources.\<close>  Definitions keep the names of the Go functions, with a prefix where two
  packages share a name.

  \<^item> \<open>Prelude\<close>, \<open>GoMap\<close>, \<open>Json\<close>, \<open>JsonEncode\<close>, \<open>JsonPortable\<close>, \<open>StructDecode\<close>, \<open>AnyDecode\<close>, \<open>GoTime\<close>,
    \<open>GoCalendar\<close>, \<open>GoValue\<close>, \<open>NetHttp\<close>: what the program uses of Go and its standard library: byte strings
    and \<open>strings\<close>, \<open>strconv\<close>; errors with \<open>fmt.Errorf\<close> and \<open>errors.Join\<close> as the values they wrap; maps
    as sorted association lists; \<open>encoding/json\<close>; \<open>time\<close>; values of type \<open>any\<close> over a heap;
    header names and \<open>net/url\<close>.  \<open>StructDecode\<close> also holds \<open>strict_json.go\<close>.
  \<^item> \<open>Jsonc\<close>, \<open>Loader\<close>: \<open>loader.go\<close> and \<open>dto.go\<close>.  \<open>CaseModel\<close>: \<open>models.go\<close>, \<open>interfaces.go\<close>,
    \<open>registry_map.go\<close>.  \<open>RequestTemplate\<close>: \<open>request_template.go\<close>.
  \<^item> \<open>Matchers\<close>, \<open>ProtoView\<close>, \<open>StepRunner\<close>, \<open>CaseRunner\<close>, \<open>Suite\<close>: \<open>runner.go\<close> from the markers of a
    response template up to \<open>RunCases\<close>, with \<open>expected_json.go\<close> and \<open>internal/protojsonview\<close>.
  \<^item> \<open>JsonSubset\<close>, \<open>HttpMock\<close>, \<open>HttpMockServer\<close>, \<open>HttpMockHandlers\<close>: \<open>internal/jsonsubset\<close> and \<open>httpmock\<close>.
  \<^item> \<open>Probe\<close>, \<open>KafkaHarness\<close>, \<open>KafkaSuite\<close>, \<open>ItestHandlers\<close>: the packages below \<open>queue\<close>.
  \<^item> \<open>HttpServer\<close>: \<open>httpserver\<close>.  \<open>Grpc\<close>, \<open>Bufconn\<close>: \<open>grpc\<close> and \<open>grpc/bufconn\<close>.  \<open>TestCalendar\<close>:
    \<open>testcalendar\<close>.
  \<^item> \<open>AsyncExample\<close>, \<open>SyncExample\<close>, \<open>QueueExample\<close>, \<open>EchoExample\<close>, \<open>BookingExample\<close>: the services
    \<open>extapiasync\<close>, \<open>extapisync\<close>, \<open>queue/inbound\<close>, \<open>custom\<close> and \<open>bookingcalendar\<close> below
    \<open>docs/itestkit/examples\<close>, each with its client, handlers, status codec and registry.  \<open>ExampleKit\<close>: what
    they share, pointers to structs as values of type \<open>any\<close>, errors with a status, and polling.
  \<^item> \<open>RealExample\<close>, \<open>GrpcSyncExample\<close>: the gRPC services \<open>real\<close> and \<open>extapigrpcsync\<close>, which call an
    external service, with their harnesses and handlers.  \<open>HealthKit\<close>: the mock of the external service
    and the checks of its calls.  \<open>SessionExample\<close>: the HTTP service \<open>httpserver\<close> with sessions.
    \<open>OutboundExample\<close>: the publisher \<open>queue/outbound\<close>, an action handler on the Kafka harness.

  \<^bold>\<open>State.\<close>  The runner, the handlers and the harnesses act on a world \<open>'w\<close> that is passed along; it
  includes the context of a step, the \<open>testing.T\<close> and everything the functions of the user touch.
  The state of a case run is \<open>run_state\<close>, that of the mock server the record \<open>server\<close>, that
  of the Kafka harness \<open>harness\<close>, that of \<open>bufconn\<close> a list of events.  The parallel executors
  are step relations over the phases of goroutines.  A call that may not return has an option as
  its result; a call that may panic or end its goroutine has one of the types \<open>outcome\<close> and
  \<open>ending\<close>.  What \<open>t.Run\<close> does, with the flags of \<open>go test\<close>, skips and failures, is \<open>tRun\<close> over the record
  \<open>testing\<close>.  Mutexes that protect a whole operation make it one step.
\<close>

text \<open>
  \<^bold>\<open>What is shown.\<close>  The comment stripper leaves exactly the text outside of comments.  Loading returns, and yields well-formed cases from exactly the files below the
  root; template references are read back as written, and resolution returns without pointer
  cycles.  The comparison of responses is characterised by a declarative relation, and the
  verdict on a case, in each of its modes, by what its run did.  Await steps call their handler within
  the bounds of their policy; after a failure the handlers of all cleanup steps, and no others, are called.
  Both parallel executors keep their limit, can always reach the end, and report no error as long as
  every case passed, and otherwise the error of a case that ended with it.  The theorem of this
  theory puts these parts together.  The verdicts of the queue probe and of the HTTP mock are
  characterised by the messages and requests that arrived, and carried through the handlers to
  whole cases; the invariants of harness and server hold in all reachable states.  Calls of the HTTP
  handler under test are made once and carry what the fixture says.  Dates in gRPC fixtures and calendar macros
  denote what they should.  Servers, listeners and connections of \<open>bufconn\<close> are released exactly once.  The cases
  of the example services are run by the model of the runner, with their data left open: each succeeds exactly when
  the planned calls, the events or the dates fit, whether or not the deadline of an await step passes
  between its two calls; a service whose worker is polled makes a charge at most once; and the cases of
  the gRPC services end with the status that an abstract verdict on their data names; a session with
  the HTTP service succeeds exactly when cookies and CSRF token are sent as the fixture says, and an event published
  through the Kafka harness is found exactly when it arrives and fits the plan, whatever the broker does.

  Behind the properties stand interface locales with interpretations on the model: a map over
  its keys (\<open>key_value\<close>, \<open>canonical_map\<close>), the registry of handlers (\<open>handler_registry\<close>, for the map
  registry and the gRPC registry), the JSON subset relation (\<open>json_subset\<close>), the harness for
  outbound messages (\<open>outbound_harness\<close>, for the Kafka harness), pointers behind \<open>any\<close> (\<open>boxing\<close>) and
  methods that are polled (\<open>polled\<close>, for three of the services).

  \<^bold>\<open>Fuel.\<close>  The JSON decoder takes twice the length of its input as fuel, which \<open>json_decode_fuel\<close> shows to suffice;
  the struct decoder reads an object a second time, and \<open>object_members_total\<close> and \<open>array_elems_total\<close>
  show that this finds every member and element.
  The listing of directories takes fuel for the depth of the tree, and \<open>loadCases_returns\<close> shows that
  any depth suffices above that of the root.  Values with pointers are traversed with the set of
  visited addresses, or return \<^const>\<open>None\<close> on a cycle where the code would not return.  Polling a
  broker is a partial function; it returns for every poll that ends (\<open>polls\<close>), and under \<open>reader_contract\<close> all do.

  \<^bold>\<open>Parameters.\<close>  Code outside the repository is a parameter, with what the properties need of it as
  a predicate: \<open>semaphore_contract\<close> and \<open>errgroup_contract\<close> for \<open>golang.org/x/sync\<close>, \<open>retry_contract\<close>
  for the backoff package (\<open>patient\<close> where it gives up at the deadline only, for policies below the 15 minutes of
  its default), \<open>reader_contract\<close> for a consumer that hands out what is pending, which in a poll that ends without
  an error is what it hands out,
  \<open>container_contract\<close> for the container library, \<open>connection_contract\<close> for a gRPC connection in memory, \<open>session_runtime\<close> for URLs and cookies of \<open>net/http\<close>, \<open>float64_contract\<close> for the text of floating
  point numbers, \<open>fold_contract\<close> for \<open>strings.EqualFold\<close>, \<open>sorts_messages\<close> for \<open>sort.Slice\<close>.  The file system, regular expressions, \<open>go-cmp\<close>,
  \<open>protojson\<close> and the descriptors of \<open>protoreflect\<close>, \<open>hujson\<close>, \<open>sarama\<close>, the URL parser, and the
  handler under test are parameters without assumptions unless a property names them.

  \<^bold>\<open>Not modelled.\<close>  The text of error messages beyond their format and arguments; text diffs; the
  order in which Go visits a map, where a result depends on it only in the choice among several
  errors; data races, as the code holds its locks; the generated mocks; the examples
  \<open>grpc\<close> and \<open>extapigrpcadapter\<close>, which wire handlers of package \<open>grpc\<close> to servers of grpc-go; and
  what the network does.  The JSON decoder has no limit of nesting, where \<open>encoding/json\<close> refuses more than 10000
  levels.  The HTTP handler under test returns: a panic in it, or \<open>Goexit\<close>, is outside.  So are a subtest that
  calls \<open>t.Parallel\<close>, and one that calls \<open>FailNow\<close> of its parent.
\<close>

section \<open>From files to verdicts\<close>





abbreviation "refused_suite \<equiv> suiteHarnessBody plain_env log_runtime (\<lambda>(u :: unit) w. (w, outcome.Returned ())) (\<lambda>_ _ _. None) (Some (\<lambda>e. Some ([], []))) echo_codec plain_config"


end
